(* ===== verification/Go_Base.thy ===== *)
theory Go_Base
  imports Main "HOL-Library.Word" "HOL-Library.Multiset" "HOL-Library.List_Lexorder" "HOL-Library.Monad_Syntax"
begin

text \<open>
  The prelude: the part of Go and of its standard library that the modelled packages use.

  \<^item> Bytes are \<open>8 word\<close>; \<open>[]byte\<close> and \<open>string\<close> are both byte lists, since a Go string is
    a byte sequence and the conversions between the two copy bytes.
  \<^item> A computation that may panic (index or slice out of range, failed type assertion,
    explicit \<open>panic\<close>) has type \<open>'a go\<close>, that is \<open>'a option\<close>, with \<open>None\<close> for the
    panic. A returned Go error is a value of a sum type inside it, \<open>(error + 'a) go\<close>.
  \<^item> \<open>strings.ToLower\<close> and \<open>strings.EqualFold\<close> are modelled byte by byte on ASCII strings.
    What they do to other strings is decided by the Unicode tables of the Go release, so
    that branch is a parameter of the model (\<open>uni\<close>, \<open>ufold\<close>).
  \<^item> A Go \<open>map\<close> is an association list with distinct keys. Where the program ranges over a
    map and the result depends on the order, the order is an explicit argument.
\<close>

unbundle bit_operations_syntax

type_synonym byte = "8 word"
type_synonym bytes = "byte list"
type_synonym gostring = bytes
type_synonym 'a go = "'a option"
type_synonym unilower = "gostring \<Rightarrow> gostring"
type_synonym unifold = "gostring \<Rightarrow> gostring \<Rightarrow> bool"

named_theorems wire_simps \<open>layout of encoded values\<close>
named_theorems go_simps \<open>evaluation of checked accesses inside their bounds\<close>

subsection \<open>String literals, case folding, comparison\<close>

definition lit :: "string \<Rightarrow> gostring" where
  "lit s = map of_char s"

definition dot :: byte where
  "dot = 46"

definition is_ascii :: "gostring \<Rightarrow> bool" where
  "is_ascii s \<longleftrightarrow> list_all (\<lambda>b. b < 128) s"

definition lower_byte :: "byte \<Rightarrow> byte" where
  "lower_byte b = (if 65 \<le> b \<and> b \<le> 90 then b + 32 else b)"

definition upper_byte :: "byte \<Rightarrow> byte" where
  "upper_byte b = (if 97 \<le> b \<and> b \<le> 122 then b - 32 else b)"

text \<open>\<open>strings.ToLower\<close>: the ASCII fast path, else the mapping given by the Unicode tables.\<close>

definition ToLower :: "unilower \<Rightarrow> gostring \<Rightarrow> gostring" where
  "ToLower uni s = (if is_ascii s then map lower_byte s else uni s)"

definition EqualFold :: "unifold \<Rightarrow> gostring \<Rightarrow> gostring \<Rightarrow> bool" where
  "EqualFold ufold s t =
     (if is_ascii s \<and> is_ascii t then map lower_byte s = map lower_byte t else ufold s t)"

text \<open>\<open>strings.Compare\<close> and \<open>bytes.Compare\<close>.\<close>

definition Compare :: "bytes \<Rightarrow> bytes \<Rightarrow> int" where
  "Compare a b = (if a = b then 0 else if a < b then - 1 else 1)"

subsection \<open>Splitting, joining, prefixes and suffixes\<close>

text \<open>\<open>strings.Split\<close> with a one-byte separator.\<close>

fun Split :: "byte \<Rightarrow> gostring \<Rightarrow> gostring list" where
  "Split sep [] = [[]]"
| "Split sep (b # bs) =
     (if b = sep then [] # Split sep bs
      else (case Split sep bs of [] \<Rightarrow> [[b]] | l # ls \<Rightarrow> (b # l) # ls))"

fun Join :: "gostring \<Rightarrow> gostring list \<Rightarrow> gostring" where
  "Join sep [] = []"
| "Join sep [l] = l"
| "Join sep (l # ls) = l @ sep @ Join sep ls"

definition HasSuffix :: "gostring \<Rightarrow> gostring \<Rightarrow> bool" where
  "HasSuffix s suf \<longleftrightarrow> length suf \<le> length s \<and> drop (length s - length suf) s = suf"

definition TrimSuffix :: "gostring \<Rightarrow> gostring \<Rightarrow> gostring" where
  "TrimSuffix s suf = (if HasSuffix s suf then take (length s - length suf) s else s)"

text \<open>\<open>strings.Index\<close> for a one-byte pattern; \<open>None\<close> stands for \<open>-1\<close>.\<close>

fun IndexByte :: "gostring \<Rightarrow> byte \<Rightarrow> nat option" where
  "IndexByte [] c = None"
| "IndexByte (b # bs) c = (if b = c then Some 0 else map_option Suc (IndexByte bs c))"

subsection \<open>Decimal numbers\<close>

text \<open>The verb \<open>%d\<close> for a number that is not negative.\<close>

fun FormatNat :: "nat \<Rightarrow> gostring" where
  "FormatNat n = (if n < 10 then [of_nat (48 + n)] else FormatNat (n div 10) @ [of_nat (48 + n mod 10)])"

declare FormatNat.simps [simp del]

subsection \<open>Maps\<close>

text \<open>
  A Go map from keys to slices: \<open>m[k]\<close> of an absent key is the nil slice, and
  \<open>m[k] = append(m[k], v)\<close> adds the key when it is absent.
\<close>

fun mapAppend :: "'k \<Rightarrow> 'v \<Rightarrow> ('k \<times> 'v list) list \<Rightarrow> ('k \<times> 'v list) list" where
  "mapAppend k v [] = [(k, [v])]"
| "mapAppend k v ((k', vs) # m) =
     (if k = k' then (k', vs @ [v]) # m else (k', vs) # mapAppend k v m)"

definition mapGet :: "('k \<times> 'v list) list \<Rightarrow> 'k \<Rightarrow> 'v list" where
  "mapGet m k = (case map_of m k of None \<Rightarrow> [] | Some vs \<Rightarrow> vs)"

text \<open>\<open>m[k] = v\<close>.\<close>

definition mapPut :: "'k \<Rightarrow> 'v \<Rightarrow> ('k \<times> 'v) list \<Rightarrow> ('k \<times> 'v) list" where
  "mapPut k v m = (k, v) # filter (\<lambda>e. fst e \<noteq> k) m"

definition mapHas :: "('k \<times> 'v) list \<Rightarrow> 'k \<Rightarrow> bool" where
  "mapHas m k \<longleftrightarrow> map_of m k \<noteq> None"

subsection \<open>Checked indexing and slicing\<close>

definition goindex :: "'a list \<Rightarrow> nat \<Rightarrow> 'a go" where
  "goindex xs i = (if i < length xs then Some (xs ! i) else None)"

definition goslice :: "'a list \<Rightarrow> nat \<Rightarrow> nat \<Rightarrow> 'a list go" where
  "goslice xs a b = (if a \<le> b \<and> b \<le> length xs then Some (take (b - a) (drop a xs)) else None)"

subsection \<open>Big-endian integers\<close>

definition put16 :: "16 word \<Rightarrow> bytes" where
  "put16 w = [ucast (drop_bit 8 w), ucast w]"

definition put32 :: "32 word \<Rightarrow> bytes" where
  "put32 w = [ucast (drop_bit 24 w), ucast (drop_bit 16 w), ucast (drop_bit 8 w), ucast w]"

definition mk16 :: "byte \<Rightarrow> byte \<Rightarrow> 16 word" where
  "mk16 h l = (push_bit 8 (ucast h) OR ucast l)"

definition mk32 :: "byte \<Rightarrow> byte \<Rightarrow> byte \<Rightarrow> byte \<Rightarrow> 32 word" where
  "mk32 a b c d = (push_bit 24 (ucast a) OR push_bit 16 (ucast b) OR push_bit 8 (ucast c) OR ucast d)"

text \<open>\<open>binary.BigEndian.Uint16(xs[i:i+2])\<close> and \<open>Uint32(xs[i:i+4])\<close>.\<close>

definition be16 :: "bytes \<Rightarrow> nat \<Rightarrow> 16 word go" where
  "be16 xs i = (if i + 2 \<le> length xs then Some (mk16 (xs ! i) (xs ! (i + 1))) else None)"

definition be32 :: "bytes \<Rightarrow> nat \<Rightarrow> 32 word go" where
  "be32 xs i = (if i + 4 \<le> length xs
     then Some (mk32 (xs ! i) (xs ! (i + 1)) (xs ! (i + 2)) (xs ! (i + 3))) else None)"

text \<open>The conversions \<open>byte(n)\<close> and \<open>uint16(n)\<close> of a length, which keep the low bits.\<close>

abbreviation byte_of :: "nat \<Rightarrow> byte" where
  "byte_of n \<equiv> of_nat n"

abbreviation u16_of :: "nat \<Rightarrow> 16 word" where
  "u16_of n \<equiv> of_nat n"

text \<open>The computation returns, without an error.\<close>

definition ok_result :: "('e + 'a) go \<Rightarrow> bool" where
  "ok_result r = (case r of None \<Rightarrow> False | Some (Inl _) \<Rightarrow> False | Some (Inr _) \<Rightarrow> True)"

lemma ok_resultE: "ok_result r \<Longrightarrow> (\<And>x. r = Some (Inr x) \<Longrightarrow> thesis) \<Longrightarrow> thesis"
  by (cases r) (auto simp: ok_result_def split: sum.splits)

text \<open>The idiom \<open>x, err := m; if err != nil { return err }\<close>: go on with the value, or return
  the error.\<close>

definition tryE :: "('e + 'a) go \<Rightarrow> ('a \<Rightarrow> ('e + 'b) go) \<Rightarrow> ('e + 'b) go" where
  "tryE m f = (case m of None \<Rightarrow> None | Some (Inl e) \<Rightarrow> Some (Inl e) | Some (Inr x) \<Rightarrow> f x)"

lemma tryE_simps [simp]: "tryE None f = None" "tryE (Some (Inl e)) f = Some (Inl e)" "tryE (Some (Inr x)) f = f x"
  by (simp_all add: tryE_def)

lemma tryE_Inr: "tryE m f = Some (Inr y) \<longleftrightarrow> (\<exists>x. m = Some (Inr x) \<and> f x = Some (Inr y))"
  by (auto simp: tryE_def split: option.splits sum.splits)

lemma tryE_None: "tryE m f = None \<longleftrightarrow> m = None \<or> (\<exists>x. m = Some (Inr x) \<and> f x = None)"
  by (auto simp: tryE_def split: option.splits sum.splits)

subsection \<open>Laws of the maps\<close>

lemma mapGet_Nil [simp]: "mapGet [] k = []"
  by (simp add: mapGet_def)

lemma mapHas_iff: "mapHas m k \<longleftrightarrow> k \<in> fst ` set m"
  by (auto simp: mapHas_def map_of_eq_None_iff)

lemma keys_mapPut: "fst ` set (mapPut k v m) = insert k (fst ` set m)"
  by (auto simp: mapPut_def)

lemma distinct_mapPut: "distinct (map fst m) \<Longrightarrow> distinct (map fst (mapPut k v m))"
  by (auto simp: mapPut_def distinct_map_filter)

lemma map_of_mapPut: "map_of (mapPut k v m) j = (if j = k then Some v else map_of m j)"
  by (induction m) (auto simp: mapPut_def)

lemma mapGet_mapAppend: "mapGet (mapAppend k v m) j = (if j = k then mapGet m k @ [v] else mapGet m j)"
  by (induction k v m rule: mapAppend.induct) (auto simp: mapGet_def)

lemma keys_mapAppend: "fst ` set (mapAppend k v m) = insert k (fst ` set m)"
  by (induction k v m rule: mapAppend.induct) auto

lemma distinct_mapAppend: "distinct (map fst m) \<Longrightarrow> distinct (map fst (mapAppend k v m))"
proof (induction k v m rule: mapAppend.induct)
  case (2 k v k' vs m)
  then show ?case using keys_mapAppend [of k v m] by (auto simp flip: set_map)
qed simp

text \<open>A map filled from a list, one \<open>append\<close> per element under the element's key, is a grouping.\<close>

lemma grouping:
  fixes key :: "'a \<Rightarrow> 'k"
  defines "build \<equiv> foldl (\<lambda>m r. mapAppend (key r) r m)"
  shows "mapGet (build m rs) k = mapGet m k @ filter (\<lambda>r. key r = k) rs"
    and "fst ` set (build m rs) = fst ` set m \<union> key ` set rs"
    and "distinct (map fst m) \<Longrightarrow> distinct (map fst (build m rs))"
  unfolding build_def
  by (induction rs arbitrary: m) (auto simp: mapGet_mapAppend keys_mapAppend distinct_mapAppend)

lemma mset_mapAppend: "mset (concat (map snd (mapAppend k v m))) = add_mset v (mset (concat (map snd m)))"
  by (induction k v m rule: mapAppend.induct) auto

lemma mset_grouping:
  "mset (concat (map snd (foldl (\<lambda>m r. mapAppend (key r) r m) m rs))) = mset (concat (map snd m)) + mset rs"
  by (induction rs arbitrary: m) (auto simp: mset_mapAppend)

lemma mapGet_perm: "mset l = mset m \<Longrightarrow> distinct (map fst m) \<Longrightarrow> mapGet l k = mapGet m k"
proof -
  assume *: "mset l = mset m" "distinct (map fst m)"
  then have "distinct (map fst l)" by (metis mset_eq_imp_distinct_iff mset_map)
  moreover have "set l = set m" using * by (metis mset_eq_setD)
  ultimately have "map_of l = map_of m" using * by (intro map_of_inject_set [THEN iffD2]) auto
  then show ?thesis by (simp add: mapGet_def)
qed

lemma filter_groups:
  assumes "distinct (map fst m)" "\<And>j vs v. (j, vs) \<in> set m \<Longrightarrow> v \<in> set vs \<Longrightarrow> key v = j"
  shows "filter (\<lambda>v. key v = k) (concat (map snd m)) = mapGet m k"
  using assms
proof (induction m)
  case (Cons x m)
  obtain j vs where x: "x = (j, vs)" by (cases x)
  have IH: "filter (\<lambda>v. key v = k) (concat (map snd m)) = mapGet m k"
    using Cons.prems by (intro Cons.IH) auto
  have vs: "\<forall>v \<in> set vs. key v = j" using Cons.prems(2) x by auto
  show ?case
  proof (cases "j = k")
    case True
    then have "map_of m k = None" using Cons.prems(1) x by (simp add: map_of_eq_None_iff)
    then show ?thesis using True vs IH x by (simp add: mapGet_def filter_id_conv)
  next
    case False
    then have "filter (\<lambda>v. key v = k) vs = []" using vs by (simp add: filter_empty_conv)
    then show ?thesis using False IH x by (simp add: mapGet_def)
  qed
qed simp

lemma mapGet_in: "(j, vs) \<in> set m \<Longrightarrow> distinct (map fst m) \<Longrightarrow> mapGet m j = vs"
  by (simp add: mapGet_def)

subsection \<open>Laws of the checked accesses\<close>

lemma goindex_in [simp, go_simps]: "i < length xs \<Longrightarrow> goindex xs i = Some (xs ! i)"
  by (simp add: goindex_def)

lemma goindex_out [simp, go_simps]: "length xs \<le> i \<Longrightarrow> goindex xs i = None"
  by (simp add: goindex_def)

lemma goindex_append [simp, go_simps]: "goindex (xs @ y # ys) (length xs) = Some y"
  by (simp add: goindex_def)

lemma goslice_in [simp, go_simps]:
  "a \<le> b \<Longrightarrow> b \<le> length xs \<Longrightarrow> goslice xs a b = Some (take (b - a) (drop a xs))"
  by (simp add: goslice_def)

lemma goslice_append [simp, go_simps]:
  "goslice (xs @ ys @ zs) (length xs) (length xs + length ys) = Some ys"
  by (simp add: goslice_def)

lemma be16_in [go_simps]: "i + 2 \<le> length xs \<Longrightarrow> \<exists>w. be16 xs i = Some w"
  by (simp add: be16_def)

lemma be32_in [go_simps]: "i + 4 \<le> length xs \<Longrightarrow> \<exists>w. be32 xs i = Some w"
  by (simp add: be32_def)

lemma be16_eq_None [simp]: "be16 xs i = None \<longleftrightarrow> length xs < i + 2"
  by (simp add: be16_def not_le)

lemma be32_eq_None [simp]: "be32 xs i = None \<longleftrightarrow> length xs < i + 4"
  by (simp add: be32_def not_le)

lemma goindex_eq_None [simp]: "goindex xs i = None \<longleftrightarrow> length xs \<le> i"
  by (simp add: goindex_def not_less)

lemma goslice_eq_None [simp]: "goslice xs a b = None \<longleftrightarrow> b < a \<or> length xs < b"
  by (auto simp: goslice_def)

subsection \<open>Round trips of the big-endian integers\<close>

lemma mk16_put16: "mk16 (ucast (drop_bit 8 w)) (ucast w) = w"
  by (rule bit_word_eqI) (auto simp: mk16_def bit_simps)

lemma put16_mk16: "put16 (mk16 h l) = [h, l]"
proof -
  have "ucast (drop_bit 8 (mk16 h l)) = h" "ucast (mk16 h l) = l"
    by (rule bit_word_eqI; auto simp: mk16_def bit_simps dest: bit_imp_le_length)+
  then show ?thesis by (simp add: put16_def)
qed

lemma mk32_put32:
  "mk32 (ucast (drop_bit 24 w)) (ucast (drop_bit 16 w)) (ucast (drop_bit 8 w)) (ucast w) = w"
proof (rule bit_word_eqI)
  fix n assume "n < LENGTH(32)"
  then consider "n < 8" | "8 \<le> n" "n < 16" | "16 \<le> n" "n < 24" | "24 \<le> n" "n < 32"
    by (simp, linarith)
  then show "bit (mk32 (ucast (drop_bit 24 w)) (ucast (drop_bit 16 w)) (ucast (drop_bit 8 w)) (ucast w)) n
      \<longleftrightarrow> bit w n"
    by cases (auto simp: mk32_def bit_simps)
qed

lemma length_put16 [simp]: "length (put16 w) = 2"
  by (simp add: put16_def)

lemma length_put32 [simp]: "length (put32 w) = 4"
  by (simp add: put32_def)

lemma be16_put16 [simp, wire_simps]: "be16 (pre @ put16 w @ post) (length pre) = Some w"
  by (simp add: be16_def put16_def nth_append mk16_put16)

lemma be32_put32 [simp, wire_simps]: "be32 (pre @ put32 w @ post) (length pre) = Some w"
  by (simp add: be32_def put32_def nth_append mk32_put32)

text \<open>The same with the position given by an equation.\<close>

lemma be16_at: "length xs = i \<Longrightarrow> be16 (xs @ put16 w @ ys) i = Some w"
  using be16_put16 [of xs w ys] by simp

lemma be32_at: "length xs = i \<Longrightarrow> be32 (xs @ put32 w @ ys) i = Some w"
  using be32_put32 [of xs w ys] by simp

lemma goslice_at: "length xs = i \<Longrightarrow> length ys = j - i \<Longrightarrow> i \<le> j \<Longrightarrow> goslice (xs @ ys @ zs) i j = Some ys"
  using goslice_append [of xs ys zs] by (auto simp: goslice_def)

lemma goindex_at: "length xs = i \<Longrightarrow> goindex (xs @ y # ys) i = Some y"
  using goindex_append [of xs y ys] by simp

lemma be16_append [simp]: "be16 (pre @ xs) (length pre + i) = be16 xs i"
  by (simp add: be16_def nth_append)

lemma be32_append [simp]: "be32 (pre @ xs) (length pre + i) = be32 xs i"
  by (simp add: be32_def nth_append)

subsection \<open>Length bytes\<close>

lemma unat_byte_of: "n < 256 \<Longrightarrow> unat (byte_of n) = n"
  by (simp add: unat_of_nat)

lemma byte_of_eq_0: "n < 256 \<Longrightarrow> byte_of n = 0 \<longleftrightarrow> n = 0"
  by (auto simp: word_of_nat_eq_0_iff dest: nat_dvd_not_less)

lemma label_byte_plain: "n \<le> 63 \<Longrightarrow> byte_of n AND 0xC0 = 0"
proof -
  assume "n \<le> 63"
  then have "byte_of n = take_bit 6 (byte_of n)"
    by (simp add: word_unat_eq_iff unsigned_take_bit_eq unat_byte_of take_bit_nat_def)
  moreover have gen: "take_bit 6 w AND push_bit 6 v = 0" for v w :: byte
    by (rule bit_word_eqI) (auto simp: bit_simps)
  have "take_bit 6 w AND 0xC0 = 0" for w :: byte
    using gen [of w 3] by simp
  ultimately show ?thesis by metis
qed

lemma unat_u16_of: "n < 65536 \<Longrightarrow> unat (u16_of n) = n"
  by (simp add: unat_of_nat)

subsection \<open>Splitting and joining\<close>

lemma Split_neq_Nil [simp]: "Split sep s \<noteq> []"
  by (induction s) (auto split: list.splits)

lemma Split_no_sep: "sep \<notin> set s \<Longrightarrow> Split sep s = [s]"
  by (induction s) auto

lemma Split_append: "Split sep (s @ sep # t) = Split sep s @ Split sep t"
  by (induction s) (auto split: list.splits simp: append_eq_Cons_conv)

lemma Split_member: "l \<in> set (Split sep s) \<Longrightarrow> sep \<notin> set l"
proof (induction s arbitrary: l)
  case (Cons b s)
  then show ?case by (cases "Split sep s") (auto split: if_splits)
qed simp

lemma Join_Cons: "ls \<noteq> [] \<Longrightarrow> Join sep (l # ls) = l @ sep @ Join sep ls"
  by (cases ls) auto

lemma Join_Split: "Join [sep] (Split sep s) = s"
proof (induction s)
  case (Cons b s)
  show ?case
  proof (cases "b = sep")
    case True
    with Cons show ?thesis by (simp add: Join_Cons)
  next
    case False
    obtain l ls where ls: "Split sep s = l # ls" by (cases "Split sep s") auto
    with Cons False show ?thesis by (cases ls) auto
  qed
qed simp

lemma Split_Join:
  "ls \<noteq> [] \<Longrightarrow> \<forall>l \<in> set ls. sep \<notin> set l \<Longrightarrow> Split sep (Join [sep] ls) = ls"
  by (induction "[sep]" ls rule: Join.induct) (auto simp: Split_no_sep Split_append)

lemma Join_bytes: "b \<in> set (Join sep ls) \<Longrightarrow> b \<in> set sep \<or> (\<exists>l \<in> set ls. b \<in> set l)"
  by (induction sep ls rule: Join.induct) auto

subsection \<open>Suffixes\<close>

lemma HasSuffix_iff: "HasSuffix s t \<longleftrightarrow> (\<exists>u. s = u @ t)"
proof
  assume "HasSuffix s t"
  then have "s = take (length s - length t) s @ t"
    unfolding HasSuffix_def by (metis append_take_drop_id)
  then show "\<exists>u. s = u @ t" ..
qed (auto simp: HasSuffix_def)

lemma TrimSuffix_append [simp]: "TrimSuffix (u @ t) t = u"
  by (simp add: TrimSuffix_def HasSuffix_iff)

lemma TrimSuffix_not: "\<not> HasSuffix s t \<Longrightarrow> TrimSuffix s t = s"
  by (simp add: TrimSuffix_def)

lemma IndexByte_append: "c \<notin> set l \<Longrightarrow> IndexByte (l @ c # r) c = Some (length l)"
  by (induction l) auto

lemma IndexByte_None: "IndexByte s c = None \<longleftrightarrow> c \<notin> set s"
  by (induction s) auto

lemma IndexByte_SomeD:
  assumes "IndexByte s c = Some i"
  obtains l r where "s = l @ c # r" "length l = i" "c \<notin> set l"
proof -
  have "\<exists>l r. s = l @ c # r \<and> length l = i \<and> c \<notin> set l"
    using assms
  proof (induction s arbitrary: i)
    case (Cons b s)
    show ?case
    proof (cases "b = c")
      case True
      with Cons.prems show ?thesis by (intro exI [of _ "[]"] exI [of _ s]) simp
    next
      case False
      with Cons.prems obtain j where j: "IndexByte s c = Some j" "i = Suc j" by auto
      with Cons.IH obtain l r where "s = l @ c # r" "length l = j" "c \<notin> set l" by blast
      with False j show ?thesis by (intro exI [of _ "b # l"] exI [of _ r]) auto
    qed
  qed simp
  then show thesis using that by blast
qed

subsection \<open>Case folding of ASCII\<close>

lemma is_ascii_append [simp]: "is_ascii (s @ t) \<longleftrightarrow> is_ascii s \<and> is_ascii t"
  by (simp add: is_ascii_def)

lemma is_ascii_Cons [simp]: "is_ascii (b # s) \<longleftrightarrow> b < 128 \<and> is_ascii s"
  by (simp add: is_ascii_def)

lemma is_ascii_Nil [simp]: "is_ascii []"
  by (simp add: is_ascii_def)

lemma ToLower_ascii: "is_ascii s \<Longrightarrow> ToLower uni s = map lower_byte s"
  by (simp add: ToLower_def)

lemma length_ToLower_ascii [simp]: "is_ascii s \<Longrightarrow> length (ToLower uni s) = length s"
  by (simp add: ToLower_def)

lemma unat_less_256 [simp]: "unat (b :: byte) < 256"
  using unsigned_less [of b] by simp

lemma lower_byte_idem [simp]: "lower_byte (lower_byte b) = lower_byte b"
  by (auto simp: lower_byte_def word_le_nat_alt unat_word_ariths)

lemma lower_byte_ascii: "b < 128 \<Longrightarrow> lower_byte b < 128"
  by (auto simp: lower_byte_def word_le_nat_alt word_less_nat_alt unat_word_ariths)

lemma lower_byte_dot [simp]: "lower_byte b = dot \<longleftrightarrow> b = dot"
  by (auto simp: lower_byte_def dot_def word_le_nat_alt unat_word_ariths word_unat_eq_iff)

lemma dot_ascii [simp]: "dot < 128"
  by (simp add: dot_def)

lemma is_ascii_lower [simp]: "is_ascii s \<Longrightarrow> is_ascii (map lower_byte s)"
  by (induction s) (auto simp: lower_byte_ascii)

lemma ToLower_idem [simp]: "is_ascii s \<Longrightarrow> ToLower uni (ToLower uni s) = ToLower uni s"
  by (simp add: ToLower_def)

subsection \<open>Comparison\<close>

lemma Compare_eq_0 [simp]: "Compare a b = 0 \<longleftrightarrow> a = b"
  by (auto simp: Compare_def)

lemma Compare_neg [simp]: "Compare a b < 0 \<longleftrightarrow> a < b"
  by (auto simp: Compare_def)

lemma Compare_pos [simp]: "0 < Compare a b \<longleftrightarrow> b < a"
  by (auto simp: Compare_def)

lemma Nil_less_iff [simp]: "[] < (ys :: 'a :: order list) \<longleftrightarrow> ys \<noteq> []"
  by (cases ys) auto

subsection \<open>Sorting with a comparison function\<close>

text \<open>
  \<open>slices.SortFunc\<close>: the library promises a permutation that is ascending in the given
  three-way comparison. The insertion sort below is one such function; elements that compare
  equal keep their order in it.
\<close>

fun insertBy :: "('a \<Rightarrow> 'a \<Rightarrow> int) \<Rightarrow> 'a \<Rightarrow> 'a list \<Rightarrow> 'a list" where
  "insertBy cmp x [] = [x]"
| "insertBy cmp x (y # ys) = (if cmp x y \<le> 0 then x # y # ys else y # insertBy cmp x ys)"

fun SortFunc :: "('a \<Rightarrow> 'a \<Rightarrow> int) \<Rightarrow> 'a list \<Rightarrow> 'a list" where
  "SortFunc cmp [] = []"
| "SortFunc cmp (x # xs) = insertBy cmp x (SortFunc cmp xs)"

text \<open>
  The interface of a comparison function: it agrees with the order of a key. Every comparison
  function of the program interprets it, and gets sortedness and permutation of its sorts.
\<close>

locale three_way =
  fixes cmp :: "'a \<Rightarrow> 'a \<Rightarrow> int" and key :: "'a \<Rightarrow> 'k :: linorder"
  assumes cmp_neg: "cmp a b < 0 \<longleftrightarrow> key a < key b"
    and cmp_zero: "cmp a b = 0 \<longleftrightarrow> key a = key b"
begin

lemma cmp_le: "cmp a b \<le> 0 \<longleftrightarrow> key a \<le> key b"
  using cmp_neg [of a b] cmp_zero [of a b] by auto

lemma cmp_pos: "0 < cmp a b \<longleftrightarrow> key b < key a"
  using cmp_le [of a b] by auto

lemma insertBy_insort: "insertBy cmp x xs = insort_key key x xs"
  by (induction xs) (auto simp: cmp_le)

lemma SortFunc_sort: "SortFunc cmp xs = sort_key key xs"
  by (induction xs) (auto simp: insertBy_insort)

lemma SortFunc_sorted: "sorted (map key (SortFunc cmp xs))"
  by (simp add: SortFunc_sort)

lemma SortFunc_set: "set (SortFunc cmp xs) = set xs"
  by (simp add: SortFunc_sort)

lemma SortFunc_length: "length (SortFunc cmp xs) = length xs"
  by (simp add: SortFunc_sort)

end

interpretation bytescmp: three_way Compare "\<lambda>b. b"
  by unfold_locales auto

end
