(* ===== verification/Domain_Name.thy ===== *)
theory Domain_Name
  imports Go_Base
begin

text \<open>
  Domain names, after \<^verbatim>\<open>internal/rec/domain.go\<close>: validation and normalisation
  (\<open>NewDomain\<close>), the label encoding (\<open>Domain.Write\<close>) and the canonical order
  (\<open>CompareDomain\<close>).

  The abstract view of a name is its list of labels: \<open>fqdn_of\<close> and \<open>wire_of\<close> build the
  dotted and the wire form from it. The lemmas show that a name is determined by its labels,
  that \<open>NewDomain\<close> accepts exactly the names whose labels fit, that \<open>Write\<close> is the wire
  form of the labels, and that \<open>CompareDomain\<close> is the lexicographic order of the reversed
  label lists, so a linear order.
\<close>

type_synonym Domain = gostring

datatype domain_error =
    ErrNameTooLong gostring
  | ErrLabelTooLong gostring
  | ErrIllegalLabel gostring
  | ErrMissingTrailingDot gostring

subsection \<open>The code\<close>

text \<open>The loop over the labels. The test \<open>idx < len(labels)-1\<close> is: a label follows.\<close>

fun validateLabels :: "gostring list \<Rightarrow> domain_error option" where
  "validateLabels [] = None"
| "validateLabels (label # rest) =
     (if 63 < length label then Some (ErrLabelTooLong label)
      else if length label < 1 \<and> rest \<noteq> [] then Some (ErrIllegalLabel label)
      else validateLabels rest)"

definition validateFqdn :: "gostring \<Rightarrow> domain_error option" where
  "validateFqdn name =
     (if name = [dot] then None
      else if length name = 0 then Some (ErrMissingTrailingDot (lit ''empty string''))
      else if last name \<noteq> dot then Some (ErrMissingTrailingDot name)
      else if 255 < length name then Some (ErrNameTooLong name)
      else validateLabels (Split dot name))"

definition NewDomain :: "unilower \<Rightarrow> gostring \<Rightarrow> domain_error + Domain" where
  "NewDomain uni s =
     (let s1 = (if 0 < length s \<and> last s \<noteq> dot then s @ [dot] else s);
          s2 = ToLower uni s1
      in case validateFqdn s2 of Some err \<Rightarrow> Inl err | None \<Rightarrow> Inr s2)"

text \<open>\<open>parts[:len(parts)-1]\<close>; \<open>strings.Split\<close> never returns an empty slice.\<close>

definition domainLabels :: "gostring \<Rightarrow> gostring list" where
  "domainLabels name = butlast (Split dot name)"

definition Write :: "Domain \<Rightarrow> bytes" where
  "Write d = concat (map (\<lambda>label. byte_of (length label) # label) (domainLabels d)) @ [0]"

text \<open>
  The loop of \<open>CompareDomain\<close>: \<open>commonLabelCount\<close> always equals \<open>idx\<close>, so one variable
  stands for both. The two indices are \<open>len-1-idx\<close>.
\<close>

function commonLabels :: "gostring list \<Rightarrow> gostring list \<Rightarrow> nat \<Rightarrow> nat" where
  "commonLabels aLabels bLabels idx =
     (if idx < length aLabels \<and> idx < length bLabels
         \<and> aLabels ! (length aLabels - 1 - idx) = bLabels ! (length bLabels - 1 - idx)
      then commonLabels aLabels bLabels (Suc idx) else idx)"
  by pat_completeness auto
termination
  by (relation "measure (\<lambda>(aLabels, bLabels, idx). length aLabels - idx)") auto

declare commonLabels.simps [simp del]

text \<open>
  The final comparison reads \<open>aLabels[aCount-common-1]\<close>: a negative index panics, which
  happens when all labels agree although the strings differ.
\<close>

definition CompareDomain :: "unilower \<Rightarrow> Domain \<Rightarrow> Domain \<Rightarrow> int go" where
  "CompareDomain uni a b =
     (let al = ToLower uni a; bl = ToLower uni b
      in if al = bl then Some 0
         else
           (let aLabels = domainLabels al; bLabels = domainLabels bl;
                common = commonLabels aLabels bLabels 0;
                aCount = length aLabels; bCount = length bLabels
            in if aCount = common \<and> bCount > common then Some (- 1)
               else if bCount = common \<and> aCount > common then Some 1
               else if common < aCount \<and> common < bCount
               then Some (Compare (aLabels ! (aCount - common - 1)) (bLabels ! (bCount - common - 1)))
               else None))"

subsection \<open>Names as label lists\<close>

definition fqdn_of :: "gostring list \<Rightarrow> Domain" where
  "fqdn_of ls = concat (map (\<lambda>l. l @ [dot]) ls)"

definition wire_of :: "gostring list \<Rightarrow> bytes" where
  "wire_of ls = concat (map (\<lambda>l. byte_of (length l) # l) ls) @ [0]"

definition plain_labels :: "gostring list \<Rightarrow> bool" where
  "plain_labels ls \<longleftrightarrow> (\<forall>l \<in> set ls. dot \<notin> set l)"

definition fitting_labels :: "gostring list \<Rightarrow> bool" where
  "fitting_labels ls \<longleftrightarrow> (\<forall>l \<in> set ls. dot \<notin> set l \<and> 1 \<le> length l \<and> length l \<le> 63)"

text \<open>A name the program can handle without a panic: empty (the zero value) or ending in a dot.\<close>

definition wf_name :: "Domain \<Rightarrow> bool" where
  "wf_name s \<longleftrightarrow> s = [] \<or> last s = dot"

text \<open>What \<open>NewDomain\<close> returns: the root, or at least one label of 1 to 63 bytes, at most 255 in all.\<close>

definition valid_domain :: "Domain \<Rightarrow> bool" where
  "valid_domain d \<longleftrightarrow> d = [dot] \<or>
     (d \<noteq> [] \<and> last d = dot \<and> length d \<le> 255 \<and> fitting_labels (domainLabels d))"

lemma fitting_plain [simp]: "fitting_labels ls \<Longrightarrow> plain_labels ls"
  by (auto simp: fitting_labels_def plain_labels_def)

lemma fqdn_of_Nil [simp]: "fqdn_of [] = []"
  and fqdn_of_Cons [simp]: "fqdn_of (l # ls) = l @ dot # fqdn_of ls"
  and fqdn_of_append: "fqdn_of (ls @ ms) = fqdn_of ls @ fqdn_of ms"
  by (simp_all add: fqdn_of_def)

lemma wire_of_Nil [simp]: "wire_of [] = [0]"
  and wire_of_Cons [simp]: "wire_of (l # ls) = byte_of (length l) # l @ wire_of ls"
  by (simp_all add: wire_of_def)

lemma plain_labels_Cons [simp]: "plain_labels (l # ls) \<longleftrightarrow> dot \<notin> set l \<and> plain_labels ls"
  and plain_labels_Nil [simp]: "plain_labels []"
  by (auto simp: plain_labels_def)

lemma fitting_labels_Cons [simp]:
  "fitting_labels (l # ls) \<longleftrightarrow>
     dot \<notin> set l \<and> 1 \<le> length l \<and> length l \<le> 63 \<and> fitting_labels ls"
  and fitting_labels_Nil [simp]: "fitting_labels []"
  by (auto simp: fitting_labels_def)

lemma Split_fqdn_of: "plain_labels ls \<Longrightarrow> Split dot (fqdn_of ls @ s) = ls @ Split dot s"
  by (induction ls) (auto simp: Split_append Split_no_sep)

lemma domainLabels_fqdn_of [simp]: "plain_labels ls \<Longrightarrow> domainLabels (fqdn_of ls) = ls"
  using Split_fqdn_of [of ls "[]"] by (simp add: domainLabels_def)

lemma plain_domainLabels [simp]: "plain_labels (domainLabels s)"
  by (auto simp: plain_labels_def domainLabels_def dest: in_set_butlastD Split_member)

lemma fqdn_of_Join: "ls \<noteq> [] \<Longrightarrow> fqdn_of ls = Join [dot] ls @ [dot]"
  by (induction "[dot]" ls rule: Join.induct) auto

lemma fqdn_of_domainLabels [simp]:
  assumes "wf_name s" shows "fqdn_of (domainLabels s) = s"
proof (cases "s = []")
  case False
  with assms obtain t where "s = t @ [dot]"
    unfolding wf_name_def by (metis append_butlast_last_id)
  then show ?thesis
    by (simp add: domainLabels_def Split_append butlast_append fqdn_of_Join Join_Split)
qed (simp add: domainLabels_def)

lemma wf_fqdn_of [simp]: "wf_name (fqdn_of ls)"
  by (cases ls rule: rev_cases) (auto simp: wf_name_def fqdn_of_append)

lemma labels_inj: "wf_name a \<Longrightarrow> wf_name b \<Longrightarrow> domainLabels a = domainLabels b \<longleftrightarrow> a = b"
  by (metis fqdn_of_domainLabels)

lemma Write_wire_of: "Write d = wire_of (domainLabels d)"
  by (simp add: Write_def wire_of_def)

lemma length_wire_of: "length (wire_of ls) = length (fqdn_of ls) + 1"
  by (induction ls) auto

lemma wf_ToLower [simp]: "is_ascii s \<Longrightarrow> wf_name s \<Longrightarrow> wf_name (ToLower uni s)"
  by (cases "s = []") (auto simp: wf_name_def ToLower_def last_map)

text \<open>
  What the program relies on of \<open>strings.ToLower\<close> beyond ASCII: the mapping works rune by rune
  and leaves the dot alone, so a string that ends in a dot still does.
\<close>

definition keeps_dot :: "unilower \<Rightarrow> bool" where
  "keeps_dot uni \<longleftrightarrow> (\<forall>s. s \<noteq> [] \<longrightarrow> last s = dot \<longrightarrow> uni s \<noteq> [] \<and> last (uni s) = dot)"

lemma keeps_dot_id [simp]: "keeps_dot (\<lambda>s. s)"
  by (simp add: keeps_dot_def)

lemma wf_lower [simp]:
  assumes "keeps_dot uni" "wf_name s" shows "wf_name (ToLower uni s)"
proof (cases "is_ascii s")
  case False
  then have "s \<noteq> []" by auto
  with False assms show ?thesis by (simp add: keeps_dot_def wf_name_def ToLower_def)
qed (use assms in simp)

subsection \<open>Validation\<close>

lemma validateLabels_None:
  "validateLabels (ls @ [l]) = None \<longleftrightarrow>
     (\<forall>x \<in> set ls. 1 \<le> length x \<and> length x \<le> 63) \<and> length l \<le> 63"
  by (induction ls) (auto simp: not_less Suc_le_eq)

lemma validateFqdn_None_iff: "validateFqdn name = None \<longleftrightarrow> valid_domain name"
proof (cases "name \<noteq> [] \<and> last name = dot")
  case True
  then have sp: "Split dot name = domainLabels name @ [[]]"
    using Split_fqdn_of [of "domainLabels name" "[]"] by (simp add: wf_name_def)
  have "validateLabels (Split dot name) = None \<longleftrightarrow> fitting_labels (domainLabels name)"
    unfolding sp validateLabels_None
    using plain_domainLabels [of name] by (auto simp: fitting_labels_def plain_labels_def)
  with True show ?thesis by (auto simp: validateFqdn_def valid_domain_def)
qed (auto simp: validateFqdn_def valid_domain_def)

lemma NewDomain_Inr_iff:
  "NewDomain uni s = Inr d \<longleftrightarrow>
     d = ToLower uni (if s \<noteq> [] \<and> last s \<noteq> dot then s @ [dot] else s) \<and> valid_domain d"
  unfolding NewDomain_def Let_def validateFqdn_None_iff [symmetric]
  by (cases "validateFqdn (ToLower uni (if s \<noteq> [] \<and> last s \<noteq> dot then s @ [dot] else s))") auto

lemma valid_domain_wf [simp]: "valid_domain d \<Longrightarrow> wf_name d"
  by (auto simp: valid_domain_def wf_name_def)

lemma valid_fqdn_of:
  "fitting_labels ls \<Longrightarrow> ls \<noteq> [] \<Longrightarrow> length (fqdn_of ls) \<le> 255 \<Longrightarrow> valid_domain (fqdn_of ls)"
proof -
  assume a: "fitting_labels ls" "ls \<noteq> []" "length (fqdn_of ls) \<le> 255"
  then have "domainLabels (fqdn_of ls) = ls" "fqdn_of ls \<noteq> []" by (simp, cases ls, simp_all)
  moreover have "wf_name (fqdn_of ls)" by simp
  ultimately show ?thesis using a by (auto simp: valid_domain_def wf_name_def)
qed

lemma domainLabels_root [simp]: "domainLabels [dot] = [[]]"
  by (simp add: domainLabels_def)

subsection \<open>The canonical order\<close>

fun lcp :: "'a list \<Rightarrow> 'a list \<Rightarrow> nat" where
  "lcp (x # xs) (y # ys) = (if x = y then Suc (lcp xs ys) else 0)"
| "lcp _ _ = 0"

lemma lcp_bounds: "lcp xs ys \<le> length xs" "lcp xs ys \<le> length ys"
  by (induction xs ys rule: lcp.induct) auto

lemma lcp_full: "lcp xs ys = length xs \<Longrightarrow> lcp xs ys = length ys \<Longrightarrow> xs = ys"
  by (induction xs ys rule: lcp.induct) (auto split: if_splits)

lemma lcp_differ:
  "lcp xs ys < length xs \<Longrightarrow> lcp xs ys < length ys \<Longrightarrow> xs ! lcp xs ys \<noteq> ys ! lcp xs ys"
  by (induction xs ys rule: lcp.induct) auto

lemma lcp_less:
  fixes xs :: "'a :: linorder list"
  shows "xs < ys \<longleftrightarrow> lcp xs ys < length ys \<and>
           (lcp xs ys = length xs \<or> xs ! lcp xs ys < ys ! lcp xs ys)"
  by (induction xs ys rule: lcp.induct) auto

lemma commonLabels_lcp:
  "commonLabels as bs idx = idx + lcp (drop idx (rev as)) (drop idx (rev bs))"
proof (induction as bs idx rule: commonLabels.induct)
  case (1 as bs idx)
  show ?case
  proof (cases "idx < length as \<and> idx < length bs")
    case True
    then have "drop idx (rev as) = as ! (length as - 1 - idx) # drop (Suc idx) (rev as)"
      and "drop idx (rev bs) = bs ! (length bs - 1 - idx) # drop (Suc idx) (rev bs)"
      by (simp_all add: Cons_nth_drop_Suc [symmetric] rev_nth)
    with True 1 show ?thesis by (simp add: commonLabels.simps [of as bs idx])
  next
    case False
    then have "drop idx (rev as) = [] \<or> drop idx (rev bs) = []" by auto
    then have "lcp (drop idx (rev as)) (drop idx (rev bs)) = 0" by auto
    with False show ?thesis by (auto simp: commonLabels.simps [of as bs idx])
  qed
qed

text \<open>The order as a reference definition: label lists read from the root, compared lexicographically.\<close>

definition canonical_cmp :: "Domain \<Rightarrow> Domain \<Rightarrow> int" where
  "canonical_cmp a b =
     (let ra = rev (domainLabels a); rb = rev (domainLabels b)
      in if ra = rb then 0 else if ra < rb then - 1 else 1)"

lemma CompareDomain_canonical:
  assumes "wf_name (ToLower uni a)" "wf_name (ToLower uni b)"
  shows "CompareDomain uni a b = Some (canonical_cmp (ToLower uni a) (ToLower uni b))"
proof -
  let ?al = "domainLabels (ToLower uni a)" and ?bl = "domainLabels (ToLower uni b)"
  let ?n = "lcp (rev ?al) (rev ?bl)"
  have n: "commonLabels ?al ?bl 0 = ?n" by (simp add: commonLabels_lcp)
  have le: "?n \<le> length ?al" "?n \<le> length ?bl"
    using lcp_bounds [of "rev ?al" "rev ?bl"] by simp_all
  have eq: "ToLower uni a = ToLower uni b \<longleftrightarrow> ?al = ?bl"
    using labels_inj [OF assms] by simp
  consider "?n = length ?al" "?n = length ?bl" | "?n = length ?al" "?n < length ?bl"
    | "?n < length ?al" "?n = length ?bl" | "?n < length ?al" "?n < length ?bl"
    using le by linarith
  then show ?thesis
  proof cases
    case 1
    then have "?al = ?bl" using lcp_full [of "rev ?al" "rev ?bl"] by simp
    then show ?thesis using eq by (simp add: CompareDomain_def canonical_cmp_def)
  next
    case 2
    then have "rev ?al < rev ?bl" by (simp add: lcp_less)
    with 2 eq n show ?thesis
      by (auto simp: CompareDomain_def canonical_cmp_def Let_def)
  next
    case 3
    then have "\<not> rev ?al < rev ?bl" by (simp add: lcp_less)
    with 3 eq n show ?thesis
      by (auto simp: CompareDomain_def canonical_cmp_def Let_def)
  next
    case 4
    then have "rev ?al ! ?n = ?al ! (length ?al - ?n - 1)" "rev ?bl ! ?n = ?bl ! (length ?bl - ?n - 1)"
      by (simp_all add: rev_nth)
    moreover have "rev ?al ! ?n \<noteq> rev ?bl ! ?n" using 4 lcp_differ [of "rev ?al" "rev ?bl"] by simp
    ultimately show ?thesis
      using 4 eq n
      by (auto simp: CompareDomain_def canonical_cmp_def Compare_def Let_def lcp_less)
  qed
qed

lemma canonical_cmp_0 [simp]:
  "wf_name a \<Longrightarrow> wf_name b \<Longrightarrow> canonical_cmp a b = 0 \<longleftrightarrow> a = b"
  by (auto simp: canonical_cmp_def Let_def labels_inj)

interpretation domcmp: three_way canonical_cmp "\<lambda>d. rev (domainLabels d)"
  by unfold_locales (auto simp: canonical_cmp_def Let_def)

lemma CompareDomain_wf:
  assumes "keeps_dot uni" "wf_name a" "wf_name b"
  shows "\<exists>c. CompareDomain uni a b = Some c \<and> (c = 0 \<longleftrightarrow> ToLower uni a = ToLower uni b)"
  using assms by (simp add: CompareDomain_canonical)

lemma CompareDomain_ascii:
  assumes "is_ascii a" "wf_name a" "is_ascii b" "wf_name b"
  shows "CompareDomain uni a b = Some (canonical_cmp (map lower_byte a) (map lower_byte b))"
  using assms by (simp add: CompareDomain_canonical) (simp add: ToLower_ascii)

lemma CompareDomain_eq_0:
  assumes "is_ascii a" "wf_name a" "is_ascii b" "wf_name b"
  shows "CompareDomain uni a b = Some 0 \<longleftrightarrow> map lower_byte a = map lower_byte b"
  using assms by (simp add: CompareDomain_canonical) (simp add: ToLower_ascii)

subsection \<open>The interface of a name reader\<close>

text \<open>
  The program reads encoded names in three places (record data, queries, update messages). The
  contract they share: at the position where the wire form of a list of labels stands, the
  reader returns the dotted name and the number of bytes it took.
\<close>

locale name_reader =
  fixes reader :: "bytes \<Rightarrow> nat \<Rightarrow> ('e + gostring \<times> nat) go"
  assumes read_wire:
    "fitting_labels ls \<Longrightarrow> ls \<noteq> [] \<Longrightarrow> length (wire_of ls) \<le> 255 \<Longrightarrow>
     reader (pre @ wire_of ls @ post) (length pre) = Some (Inr (fqdn_of ls, length (wire_of ls)))"
begin

lemma read_Write:
  assumes "valid_domain d" "d \<noteq> [dot]" "length d \<le> 254"
  shows "reader (pre @ Write d @ post) (length pre) = Some (Inr (d, length d + 1))"
proof -
  let ?ls = "domainLabels d"
  from assms have w: "wf_name d" and f: "fitting_labels ?ls" by (auto simp: valid_domain_def)
  have "?ls \<noteq> []" using assms w by (metis fqdn_of_Nil fqdn_of_domainLabels length_0_conv
    valid_domain_def)
  then show ?thesis
    using read_wire [OF f, of pre post] assms(3) w by (simp add: Write_wire_of length_wire_of)
qed

lemma read_Write_at:
  assumes "valid_domain d" "d \<noteq> [dot]" "length d \<le> 254" "n = length pre"
  shows "reader (pre @ Write d) n = Some (Inr (d, length d + 1))"
  using read_Write [OF assms(1-3), of pre "[]"] assms(4) by simp

lemma read_two_names:
  assumes "valid_domain d" "d \<noteq> [dot]" "length d \<le> 254"
    and "valid_domain e" "e \<noteq> [dot]" "length e \<le> 254"
  shows "do { r \<leftarrow> reader (pre @ Write d @ Write e @ post) (length pre);
              (case r of
                 Inl err \<Rightarrow> None
               | Inr (x, k) \<Rightarrow>
                   do { r' \<leftarrow> reader (pre @ Write d @ Write e @ post) (length pre + k);
                        (case r' of Inl err \<Rightarrow> None | Inr (y, _) \<Rightarrow> Some (x, y)) }) }
         = Some (d, e)"
proof -
  have "length (Write d) = length d + 1"
    using assms by (simp add: Write_wire_of length_wire_of)
  then show ?thesis
    using read_Write [OF assms(1-3), of pre "Write e @ post"]
      read_Write [OF assms(4-6), of "pre @ Write d" post] by simp
qed

end

subsection \<open>Properties\<close>

text \<open>\<open>NewDomain\<close> succeeds exactly when the lower-cased name, with its trailing dot added
  if it was missing, is the root or a sequence of labels of 1 to 63 bytes with at most 255
  bytes in all, and then returns that name; every other input is an error.\<close>

theorem NewDomain_accepts_exactly:
  "NewDomain uni s = Inr d \<longleftrightarrow>
     d = ToLower uni (if s \<noteq> [] \<and> last s \<noteq> dot then s @ [dot] else s) \<and> valid_domain d"
  by (rule NewDomain_Inr_iff)

text \<open>A name returned by \<open>NewDomain\<close> for an ASCII input is a fixed point: it is lower case
  and \<open>NewDomain\<close> returns it unchanged.\<close>

theorem NewDomain_canonical_form:
  assumes "is_ascii s" and "NewDomain uni s = Inr d"
  shows "NewDomain uni d = Inr d \<and> map lower_byte d = d"
proof -
  from assms have d: "d = map lower_byte (if s \<noteq> [] \<and> last s \<noteq> dot then s @ [dot] else s)"
    and v: "valid_domain d"
    by (auto simp: NewDomain_Inr_iff ToLower_def split: if_splits)
  from assms(1) d have "is_ascii d" "map lower_byte d = d" by (auto simp: is_ascii_lower)
  moreover from v have "d \<noteq> []" "last d = dot" by (auto simp: valid_domain_def)
  ultimately show ?thesis using v by (simp add: NewDomain_Inr_iff ToLower_ascii)
qed

theorem NewDomain_canonical_form_witness:
  "NewDomain (\<lambda>s. s) (lit ''Www.EXAMPLE.com'') = Inr (lit ''www.example.com.'')
   \<and> NewDomain (\<lambda>s. s) (lit ''www.example.com.'') = Inr (lit ''www.example.com.'')"
proof -
  have ok: "NewDomain (\<lambda>s. s) (lit ''Www.EXAMPLE.com'') = Inr (lit ''www.example.com.'')"
    by code_simp
  have "is_ascii (lit ''Www.EXAMPLE.com'')" by code_simp
  from NewDomain_canonical_form [OF this ok] ok show ?thesis by blast
qed

text \<open>On names that end in a dot (or are the empty zero value) \<open>CompareDomain\<close> does not
  panic and is the canonical DNS order: the lower-cased label lists, read from the root,
  compared lexicographically with labels compared bytewise.\<close>

theorem CompareDomain_is_canonical_order:
  assumes "is_ascii a" "wf_name a" "is_ascii b" "wf_name b"
  shows "CompareDomain uni a b =
     Some (let ra = rev (domainLabels (map lower_byte a)); rb = rev (domainLabels (map lower_byte b))
           in if ra = rb then 0 else if ra < rb then - 1 else 1)"
  using CompareDomain_canonical [of uni a b] assms
  by (simp add: canonical_cmp_def) (simp add: ToLower_ascii)

theorem CompareDomain_is_canonical_order_witness:
  "CompareDomain (\<lambda>s. s) (lit ''z.example.'') (lit ''A.z.Example.'') = Some (- 1)"
proof -
  have "CompareDomain (\<lambda>s. s) (lit ''z.example.'') (lit ''A.z.Example.'') =
     Some (let ra = rev (domainLabels (map lower_byte (lit ''z.example.'')));
               rb = rev (domainLabels (map lower_byte (lit ''A.z.Example.'')))
           in if ra = rb then 0 else if ra < rb then - 1 else 1)"
    by (rule CompareDomain_is_canonical_order) code_simp+
  also have "\<dots> = Some (- 1)" by code_simp
  finally show ?thesis .
qed

text \<open>The comparison is antisymmetric and transitive on such names, and 0 means the names
  are equal up to ASCII case.\<close>

theorem CompareDomain_total_order:
  assumes "is_ascii a" "wf_name a" "is_ascii b" "wf_name b" "is_ascii c" "wf_name c"
  shows "\<exists>ab bc ac. CompareDomain uni a b = Some ab \<and> CompareDomain uni b c = Some bc
    \<and> CompareDomain uni a c = Some ac \<and> CompareDomain uni b a = Some (- ab)
    \<and> (ab \<le> 0 \<and> bc \<le> 0 \<longrightarrow> ac \<le> 0)
    \<and> (ab = 0 \<longleftrightarrow> map lower_byte a = map lower_byte b)"
proof -
  have swap: "canonical_cmp y x = - canonical_cmp x y" for x y
    by (auto simp: canonical_cmp_def Let_def)
  have tr: "canonical_cmp x y \<le> 0 \<Longrightarrow> canonical_cmp y z \<le> 0 \<Longrightarrow> canonical_cmp x z \<le> 0" for x y z
    unfolding domcmp.cmp_le by (rule order_trans)
  have val: "CompareDomain uni x y = Some (canonical_cmp (map lower_byte x) (map lower_byte y))"
    if "x \<in> {a, b, c}" "y \<in> {a, b, c}" for x y
    using that assms by (elim insertE emptyE) (simp_all add: CompareDomain_ascii)
  have "canonical_cmp (map lower_byte a) (map lower_byte b) = 0 \<longleftrightarrow> map lower_byte a = map lower_byte b"
    using assms wf_ToLower [of a uni] wf_ToLower [of b uni] by (simp add: ToLower_ascii)
  then show ?thesis
    using tr [of "map lower_byte a" "map lower_byte b" "map lower_byte c"]
      swap [of "map lower_byte a" "map lower_byte b"]
    by (simp add: val)
qed

theorem CompareDomain_total_order_witness:
  "\<exists>ab bc ac. CompareDomain (\<lambda>s. s) (lit ''a.'') (lit ''B.'') = Some ab
    \<and> CompareDomain (\<lambda>s. s) (lit ''B.'') (lit ''c.'') = Some bc
    \<and> CompareDomain (\<lambda>s. s) (lit ''a.'') (lit ''c.'') = Some ac
    \<and> CompareDomain (\<lambda>s. s) (lit ''B.'') (lit ''a.'') = Some (- ab)
    \<and> (ab \<le> 0 \<and> bc \<le> 0 \<longrightarrow> ac \<le> 0)
    \<and> (ab = 0 \<longleftrightarrow> map lower_byte (lit ''a.'') = map lower_byte (lit ''B.''))"
  by (rule CompareDomain_total_order) code_simp+

text \<open>\<open>NewDomain\<close> allows 255 bytes of text, and the wire form has one byte more than the
  text. So it accepts a name whose wire form has 256 octets, one more than the 255 octets
  its error message names as the limit.\<close>

theorem Write_length_exceeds_limit:
  "\<exists>s. NewDomain uni s = Inr s \<and> length s = 255 \<and> length (Write s) = 256"
proof -
  define l where "l = replicate 62 (97 :: byte)"
  define ls where "ls = [l, l, l, l, [97, 97]]"
  have pl: "dot \<notin> set l" "length l = 62" by (simp_all add: l_def dot_def)
  then have "fitting_labels ls" "ls \<noteq> []" and len: "length (fqdn_of ls) = 255"
    by (simp_all add: ls_def) (simp add: dot_def)
  then have v: "valid_domain (fqdn_of ls)" by (simp add: valid_fqdn_of)
  have "\<forall>b \<in> set (fqdn_of ls). b = 97 \<or> b = dot"
    by (auto simp: ls_def l_def)
  then have "is_ascii (fqdn_of ls)" and "map lower_byte (fqdn_of ls) = fqdn_of ls"
    by (auto simp: is_ascii_def list_all_iff lower_byte_def dot_def intro!: map_idI)
  then have "NewDomain uni (fqdn_of ls) = Inr (fqdn_of ls)"
    using v by (auto simp: NewDomain_Inr_iff ToLower_ascii valid_domain_def)
  moreover have "length (Write (fqdn_of ls)) = 256"
    using v len by (simp add: Write_wire_of length_wire_of)
  ultimately show ?thesis using len by blast
qed

text \<open>The root name is written as two zero bytes instead of the single zero byte that is its
  wire form, because \<open>domainLabels\<close> returns one empty label for it.\<close>

theorem Write_root_two_bytes: "valid_domain [dot] \<and> Write [dot] = [0, 0]"
  by (simp add: valid_domain_def Write_wire_of)

end
