(* ===== verification/RR_Types.thy ===== *)
theory RR_Types
  imports Domain_Name
begin

text \<open>
  Resource records, after \<^verbatim>\<open>internal/rec/{rr,rrtype,rrttl,rropts}.go\<close>: the type names
  and their wire numbers, the fifteen kinds of record data with their wire form
  (\<open>Payload\<close>), the NSEC3 type bitmap and the wire form of a whole record (\<open>BinaryWrite\<close>).

  The interface type \<open>RRopts\<close> is a datatype with one constructor per struct. The program
  creates every value of it as a pointer to one of these structs and never changes one through
  an alias, so a value of the datatype stands for the pointer.
\<close>

subsection \<open>Record types\<close>

type_synonym RRtype = gostring
type_synonym RRttl = "32 word"

definition TypeA :: RRtype where "TypeA = lit ''A''"
definition TypeAAAA :: RRtype where "TypeAAAA = lit ''AAAA''"
definition TypeNS :: RRtype where "TypeNS = lit ''NS''"
definition TypeCNAME :: RRtype where "TypeCNAME = lit ''CNAME''"
definition TypeSOA :: RRtype where "TypeSOA = lit ''SOA''"
definition TypePTR :: RRtype where "TypePTR = lit ''PTR''"
definition TypeMX :: RRtype where "TypeMX = lit ''MX''"
definition TypeTXT :: RRtype where "TypeTXT = lit ''TXT''"
definition TypeSRV :: RRtype where "TypeSRV = lit ''SRV''"
definition TypeCAA :: RRtype where "TypeCAA = lit ''CAA''"
definition TypeDS :: RRtype where "TypeDS = lit ''DS''"
definition TypeRRSIG :: RRtype where "TypeRRSIG = lit ''RRSIG''"
definition TypeNSEC3 :: RRtype where "TypeNSEC3 = lit ''NSEC3''"
definition TypeNSEC3PARAM :: RRtype where "TypeNSEC3PARAM = lit ''NSEC3PARAM''"
definition TypeDNSKEY :: RRtype where "TypeDNSKEY = lit ''DNSKEY''"

lemmas rrtype_defs = TypeA_def TypeAAAA_def TypeNS_def TypeCNAME_def TypeSOA_def TypePTR_def
  TypeMX_def TypeTXT_def TypeSRV_def TypeCAA_def TypeDS_def TypeRRSIG_def TypeNSEC3_def
  TypeNSEC3PARAM_def TypeDNSKEY_def

lemma rrtypes_distinct:
  "distinct [TypeA, TypeAAAA, TypeNS, TypeCNAME, TypeSOA, TypePTR, TypeMX, TypeTXT,
    TypeSRV, TypeCAA, TypeDS, TypeRRSIG, TypeNSEC3, TypeNSEC3PARAM, TypeDNSKEY]"
  "distinct [TypeDNSKEY, TypeNSEC3PARAM, TypeNSEC3, TypeRRSIG, TypeDS, TypeCAA, TypeSRV, TypeTXT,
    TypeMX, TypePTR, TypeSOA, TypeCNAME, TypeNS, TypeAAAA, TypeA]"
  by code_simp+

lemmas rrtypes_neq [simp] = rrtypes_distinct [simplified distinct.simps list.set insert_iff de_Morgan_disj empty_iff simp_thms]

text \<open>The entries of the map literal \<open>RRtypeToWire\<close>; the keys are distinct.\<close>

definition rrtype_table :: "(RRtype \<times> 16 word) list" where
  "rrtype_table =
     [(TypeA, 1), (TypeAAAA, 28), (TypeNS, 2), (TypeCNAME, 5), (TypeSOA, 6), (TypePTR, 12),
      (TypeMX, 15), (TypeTXT, 16), (TypeSRV, 33), (TypeCAA, 257), (TypeDS, 43), (TypeRRSIG, 46),
      (TypeDNSKEY, 48), (TypeNSEC3, 50), (TypeNSEC3PARAM, 51)]"

definition RRtypeToWire :: "RRtype \<Rightarrow> 16 word option" where
  "RRtypeToWire = map_of rrtype_table"

text \<open>The loop of \<open>init\<close> that fills the reverse map.\<close>

definition RRtypeFromWire :: "16 word \<Rightarrow> RRtype option" where
  "RRtypeFromWire = foldl (\<lambda>m (k, v). m(v \<mapsto> k)) Map.empty rrtype_table"

definition DefaultTTL :: RRttl where
  "DefaultTTL = 300"

subsection \<open>IP addresses\<close>

type_synonym netIP = bytes

definition v4InV6Prefix :: bytes where
  "v4InV6Prefix = replicate 10 0 @ [0xff, 0xff]"

text \<open>\<open>net.IP.To4\<close> and \<open>net.IP.To16\<close>; the empty list stands for \<open>nil\<close>.\<close>

definition To4 :: "netIP \<Rightarrow> bytes" where
  "To4 ip = (if length ip = 4 then ip
             else if length ip = 16 \<and> take 12 ip = v4InV6Prefix then drop 12 ip
             else [])"

definition To16 :: "netIP \<Rightarrow> bytes" where
  "To16 ip = (if length ip = 4 then v4InV6Prefix @ ip
              else if length ip = 16 then ip
              else [])"

subsection \<open>Record data\<close>

datatype RRopts =
    RRoptsA (A_Target: netIP)
  | RRoptsAAAA (AAAA_Target: netIP)
  | RRoptsNS (Ns: Domain)
  | RRoptsCNAME (Cname: Domain)
  | RRoptsSOA (Mname: Domain) (Rname: Domain) (Serial: "32 word") (Refresh: "32 word")
      (Retry: "32 word") (Expire: "32 word") (Minimum: "32 word")
  | RRoptsPTR (Ptr: Domain)
  | RRoptsMX (Preference: "16 word") (Mx: Domain)
  | RRoptsTXT (Txt: gostring)
  | RRoptsSRV (Priority: "16 word") (Weight: "16 word") (Port: "16 word") (SRV_Target: Domain)
  | RRoptsCAA (CAA_Flags: byte) (Tag: gostring) (Value: gostring)
  | RRoptsRRSIG (TypeCovered: "16 word") (RRSIG_Algorithm: byte) (Labels: byte)
      (OrigTTL: "32 word") (Expiration: "32 word") (Inception: "32 word")
      (RRSIG_KeyTag: "16 word") (SignerName: gostring) (Signature: bytes)
  | RRoptsDNSKEY (DNSKEY_Flags: "16 word") (Protocol: byte) (DNSKEY_Algorithm: byte)
      (PublicKey: bytes)
  | RRoptsDS (DS_KeyTag: "16 word") (DS_Algorithm: byte) (DigestType: byte) (Digest: bytes)
  | RRoptsNSEC3 (HashAlgorithm: byte) (NSEC3_Flags: byte) (Iterations: "16 word") (Salt: bytes)
      (NextHash: bytes) (Types: "16 word list")
  | RRoptsNSEC3PARAM (PARAM_HashAlgorithm: byte) (PARAM_Flags: byte)
      (PARAM_Iterations: "16 word") (PARAM_Salt: bytes)

fun RRtype_of :: "RRopts \<Rightarrow> RRtype" where
  "RRtype_of (RRoptsA _) = TypeA"
| "RRtype_of (RRoptsAAAA _) = TypeAAAA"
| "RRtype_of (RRoptsNS _) = TypeNS"
| "RRtype_of (RRoptsCNAME _) = TypeCNAME"
| "RRtype_of (RRoptsSOA _ _ _ _ _ _ _) = TypeSOA"
| "RRtype_of (RRoptsPTR _) = TypePTR"
| "RRtype_of (RRoptsMX _ _) = TypeMX"
| "RRtype_of (RRoptsTXT _) = TypeTXT"
| "RRtype_of (RRoptsSRV _ _ _ _) = TypeSRV"
| "RRtype_of (RRoptsCAA _ _ _) = TypeCAA"
| "RRtype_of (RRoptsRRSIG _ _ _ _ _ _ _ _ _) = TypeRRSIG"
| "RRtype_of (RRoptsDNSKEY _ _ _ _) = TypeDNSKEY"
| "RRtype_of (RRoptsDS _ _ _ _) = TypeDS"
| "RRtype_of (RRoptsNSEC3 _ _ _ _ _ _) = TypeNSEC3"
| "RRtype_of (RRoptsNSEC3PARAM _ _ _ _) = TypeNSEC3PARAM"

subsection \<open>The type bitmap\<close>

text \<open>The inner loop: set the bits of the types of this window, and return the types left.\<close>

fun fillWindow :: "16 word \<Rightarrow> bytes \<Rightarrow> 16 word list \<Rightarrow> bytes \<times> 16 word list" where
  "fillWindow window bitmap [] = (bitmap, [])"
| "fillWindow window bitmap (ty # types) =
     (if drop_bit 8 ty = window
      then (let t = unat (ty AND 0xff)
            in fillWindow window
                 (bitmap[t div 8 := (bitmap ! (t div 8)) OR push_bit (7 - t mod 8) 1]) types)
      else (bitmap, ty # types))"

text \<open>The loop that finds the last non-zero byte.\<close>

fun lastNonZero :: "bytes \<Rightarrow> nat \<Rightarrow> nat" where
  "lastNonZero bitmap 0 = 0"
| "lastNonZero bitmap (Suc n) = (if bitmap ! n = 0 then lastNonZero bitmap n else Suc n)"

lemma fillWindow_shorter: "length (snd (fillWindow window bitmap types)) \<le> length types"
  by (induction window bitmap types rule: fillWindow.induct) (auto simp: Let_def)

function TypeBitmap :: "16 word list \<Rightarrow> bytes" where
  "TypeBitmap [] = []"
| "TypeBitmap (ty # types) =
     (let window = drop_bit 8 ty;
          (bitmap, rest) = fillWindow window (replicate 32 0) (ty # types);
          bitmapLen = lastNonZero bitmap 32
      in ucast window # byte_of bitmapLen # take bitmapLen bitmap @ TypeBitmap rest)"
  by pat_completeness auto
termination
proof (relation "measure length", goal_cases)
  case (2 ty types x xa xb y)
  from 2(2) have "y = snd (fillWindow (drop_bit 8 ty) (replicate 32 0) (ty # types))"
    using 2(1) 2(3) by (metis snd_conv)
  then show ?case
    using fillWindow_shorter [of "drop_bit 8 ty" _ types] by (simp add: Let_def less_Suc_eq_le)
qed simp

declare TypeBitmap.simps [simp del]

subsection \<open>Wire form\<close>

text \<open>The loop of the TXT payload: character strings of at most 255 bytes.\<close>

function txtChunks :: "gostring \<Rightarrow> bytes" where
  "txtChunks s =
     (if 0 < length s
      then (let chunk = (if 255 < length s then take 255 s else s)
            in byte_of (length chunk) # chunk @ txtChunks (drop (length chunk) s))
      else [])"
  by pat_completeness auto
termination
  by (relation "measure length") auto

declare txtChunks.simps [simp del]

text \<open>The \<open>Payload\<close> methods of the record types that have more than one field.\<close>

definition payloadSOA ::
  "Domain \<Rightarrow> Domain \<Rightarrow> 32 word \<Rightarrow> 32 word \<Rightarrow> 32 word \<Rightarrow> 32 word \<Rightarrow> 32 word \<Rightarrow> bytes" where
  "payloadSOA mname rname serial refresh retry expire minimum =
     Write mname @ Write rname @ put32 serial @ put32 refresh @ put32 retry @ put32 expire
     @ put32 minimum"

definition payloadMX :: "16 word \<Rightarrow> Domain \<Rightarrow> bytes" where
  "payloadMX preference mx = put16 preference @ Write mx"

definition payloadSRV :: "16 word \<Rightarrow> 16 word \<Rightarrow> 16 word \<Rightarrow> Domain \<Rightarrow> bytes" where
  "payloadSRV priority weight port target =
     put16 priority @ put16 weight @ put16 port @ Write target"

definition payloadCAA :: "byte \<Rightarrow> gostring \<Rightarrow> gostring \<Rightarrow> bytes" where
  "payloadCAA flags tag val = flags # byte_of (length tag) # tag @ val"

definition payloadRRSIG ::
  "unilower \<Rightarrow> 16 word \<Rightarrow> byte \<Rightarrow> byte \<Rightarrow> 32 word \<Rightarrow> 32 word \<Rightarrow> 32 word \<Rightarrow> 16 word \<Rightarrow> gostring \<Rightarrow> bytes
    \<Rightarrow> bytes" where
  "payloadRRSIG uni typeCovered algorithm labels origTTL expiration inception keyTag signerName signature =
     put16 typeCovered @ [algorithm, labels] @ put32 origTTL @ put32 expiration
     @ put32 inception @ put16 keyTag @ Write (ToLower uni signerName) @ signature"

definition payloadDNSKEY :: "16 word \<Rightarrow> byte \<Rightarrow> byte \<Rightarrow> bytes \<Rightarrow> bytes" where
  "payloadDNSKEY flags protocol algorithm publicKey = put16 flags @ [protocol, algorithm] @ publicKey"

definition payloadDS :: "16 word \<Rightarrow> byte \<Rightarrow> byte \<Rightarrow> bytes \<Rightarrow> bytes" where
  "payloadDS keyTag algorithm digestType digest = put16 keyTag @ [algorithm, digestType] @ digest"

definition payloadNSEC3 :: "byte \<Rightarrow> byte \<Rightarrow> 16 word \<Rightarrow> bytes \<Rightarrow> bytes \<Rightarrow> 16 word list \<Rightarrow> bytes" where
  "payloadNSEC3 hashAlgorithm flags iterations salt nextHash types =
     [hashAlgorithm, flags] @ put16 iterations @ byte_of (length salt) # salt
     @ byte_of (length nextHash) # nextHash @ TypeBitmap (sort types)"

definition payloadNSEC3PARAM :: "byte \<Rightarrow> byte \<Rightarrow> 16 word \<Rightarrow> bytes \<Rightarrow> bytes" where
  "payloadNSEC3PARAM hashAlgorithm flags iterations salt =
     [hashAlgorithm, flags] @ put16 iterations @ byte_of (length salt) # salt"

lemmas payload_defs [wire_simps] = payloadSOA_def payloadMX_def payloadSRV_def payloadCAA_def payloadRRSIG_def
  payloadDNSKEY_def payloadDS_def payloadNSEC3_def payloadNSEC3PARAM_def

text \<open>The interface method, dispatched on the record type.\<close>

fun Payload :: "unilower \<Rightarrow> RRopts \<Rightarrow> bytes" where
  "Payload uni (RRoptsA target) = To4 target"
| "Payload uni (RRoptsAAAA target) = To16 target"
| "Payload uni (RRoptsNS ns) = Write ns"
| "Payload uni (RRoptsCNAME cname) = Write cname"
| "Payload uni (RRoptsSOA mname rname serial refresh retry expire minimum) =
     payloadSOA mname rname serial refresh retry expire minimum"
| "Payload uni (RRoptsPTR ptr) = Write ptr"
| "Payload uni (RRoptsMX preference mx) = payloadMX preference mx"
| "Payload uni (RRoptsTXT txt) = txtChunks txt"
| "Payload uni (RRoptsSRV priority weight port target) = payloadSRV priority weight port target"
| "Payload uni (RRoptsCAA flags tag val) = payloadCAA flags tag val"
| "Payload uni (RRoptsRRSIG typeCovered algorithm labels origTTL expiration inception keyTag
       signerName signature) =
     payloadRRSIG uni typeCovered algorithm labels origTTL expiration inception keyTag signerName signature"
| "Payload uni (RRoptsDNSKEY flags protocol algorithm publicKey) =
     payloadDNSKEY flags protocol algorithm publicKey"
| "Payload uni (RRoptsDS keyTag algorithm digestType digest) = payloadDS keyTag algorithm digestType digest"
| "Payload uni (RRoptsNSEC3 hashAlgorithm flags iterations salt nextHash types) =
     payloadNSEC3 hashAlgorithm flags iterations salt nextHash types"
| "Payload uni (RRoptsNSEC3PARAM hashAlgorithm flags iterations salt) =
     payloadNSEC3PARAM hashAlgorithm flags iterations salt"

record RR =
  Name :: Domain
  RRtype :: RRtype
  TTL :: RRttl
  Opts :: RRopts

definition NewRR :: "Domain \<Rightarrow> RRopts \<Rightarrow> RR" where
  "NewRR name opts = \<lparr> Name = name, RRtype = RRtype_of opts, TTL = DefaultTTL, Opts = opts \<rparr>"

text \<open>
  \<open>BinaryWrite\<close> appends to a buffer: the result is the bytes appended and whether the record
  type was unknown, in which case only the name has been written.
\<close>

definition BinaryWrite :: "unilower \<Rightarrow> RR \<Rightarrow> bytes \<times> RRtype option" where
  "BinaryWrite uni rr =
     (case RRtypeToWire (RRtype rr) of
        None \<Rightarrow> (Write (Name rr), Some (RRtype rr))
      | Some wireType \<Rightarrow>
          (let payload = Payload uni (Opts rr)
           in (Write (Name rr) @ put16 wireType @ put16 1 @ put32 (TTL rr)
               @ put16 (u16_of (length payload)) @ payload, None)))"

subsection \<open>The type table\<close>

lemma rrtype_table_keys: "distinct (map fst rrtype_table)" "distinct (map snd rrtype_table)"
  by code_simp+

lemma fold_inverse:
  "distinct (map snd xs) \<Longrightarrow> v \<notin> snd ` set xs \<Longrightarrow> foldl (\<lambda>m (k, v). m(v \<mapsto> k)) m xs v = m v"
  "distinct (map snd xs) \<Longrightarrow> (k, v) \<in> set xs \<Longrightarrow> foldl (\<lambda>m (k, v). m(v \<mapsto> k)) m xs v = Some k"
proof (induction xs arbitrary: m)
  case (Cons x xs)
  obtain a b where x: "x = (a, b)" by (cases x)
  { case 1 then show ?case using Cons by (auto simp: x) }
  { case 2 then show ?case using Cons(1) [of "m(b \<mapsto> a)"] Cons(2) [of "m(b \<mapsto> a)"]
      by (auto simp: x) }
qed auto

lemma RRtype_wire_inverse: "RRtypeFromWire v = Some t \<longleftrightarrow> RRtypeToWire t = Some v"
proof -
  have "RRtypeToWire t = Some v \<longleftrightarrow> (t, v) \<in> set rrtype_table"
    using rrtype_table_keys by (simp add: RRtypeToWire_def)
  moreover have "RRtypeFromWire v = Some t \<longleftrightarrow> (t, v) \<in> set rrtype_table"
  proof (cases "v \<in> snd ` set rrtype_table")
    case True
    then obtain k where k: "(k, v) \<in> set rrtype_table" by force
    have "k = t" if "(t, v) \<in> set rrtype_table"
      using inj_onD [of snd "set rrtype_table" "(k, v)" "(t, v)"] that k rrtype_table_keys(2)
      by (simp add: distinct_map)
    with k fold_inverse(2) [OF rrtype_table_keys(2) k, of Map.empty] show ?thesis
      by (auto simp: RRtypeFromWire_def)
  next
    case False
    then show ?thesis
      using fold_inverse(1) [OF rrtype_table_keys(2), of v Map.empty]
      by (force simp: RRtypeFromWire_def)
  qed
  ultimately show ?thesis by blast
qed

lemma RRtypeToWire_of: "\<exists>w. RRtypeToWire (RRtype_of opts) = Some w"
proof -
  have "map_of rrtype_table t \<noteq> None" if "t \<in> fst ` set rrtype_table" for t
    using that by (simp add: map_of_eq_None_iff)
  moreover have "RRtype_of opts \<in> fst ` set rrtype_table"
    by (cases opts) (simp_all add: rrtype_table_def)
  ultimately show ?thesis by (auto simp: RRtypeToWire_def)
qed

lemma RRtype_of_cases:
  "RRtype_of opts = TypeNS \<longleftrightarrow> (\<exists>d. opts = RRoptsNS d)"
  "RRtype_of opts = TypeCNAME \<longleftrightarrow> (\<exists>d. opts = RRoptsCNAME d)"
  "RRtype_of opts = TypeSOA \<longleftrightarrow> (\<exists>m r a b c d e. opts = RRoptsSOA m r a b c d e)"
  "RRtype_of opts = TypeA \<longleftrightarrow> (\<exists>ip. opts = RRoptsA ip)"
  "RRtype_of opts = TypeAAAA \<longleftrightarrow> (\<exists>ip. opts = RRoptsAAAA ip)"
  by (cases opts; simp)+

subsection \<open>Reading the type bitmap back\<close>

text \<open>
  The reference reader of a type bitmap: blocks of window, length (1 to 32) and bitmap, where
  bit \<open>7 - j\<close> of byte \<open>i\<close> stands for the type \<open>256 * window + 8 * i + j\<close>.
\<close>

definition bitmap_has :: "bytes \<Rightarrow> nat \<Rightarrow> bool" where
  "bitmap_has bm k \<longleftrightarrow> k div 8 < length bm \<and> bit (bm ! (k div 8)) (7 - k mod 8)"

definition blockTypes :: "nat \<Rightarrow> bytes \<Rightarrow> 16 word list" where
  "blockTypes w bm = map (\<lambda>k. of_nat (256 * w + k)) (filter (bitmap_has bm) [0..<256])"

function readBitmap :: "bytes \<Rightarrow> 16 word list option" where
  "readBitmap [] = Some []"
| "readBitmap [b] = None"
| "readBitmap (w # n # bs) =
     (if 1 \<le> unat n \<and> unat n \<le> 32 \<and> unat n \<le> length bs
      then map_option ((@) (blockTypes (unat w) (take (unat n) bs))) (readBitmap (drop (unat n) bs))
      else None)"
  by pat_completeness auto
termination
  by (relation "measure length") auto

lemma unat_hi: "unat (drop_bit 8 (t :: 16 word)) = unat t div 256"
  by (simp add: drop_bit_eq_div unat_div)

lemma unat_lo: "unat ((t :: 16 word) AND 0xff) = unat t mod 256"
proof -
  have "t AND 0xff = take_bit 8 t"
    by (simp add: take_bit_eq_mask mask_eq_exp_minus_1)
  then show ?thesis by (simp add: unsigned_take_bit_eq take_bit_nat_def)
qed

lemma hi_lo_word: "of_nat (256 * unat (drop_bit 8 t) + unat (t AND 0xff)) = (t :: 16 word)"
proof -
  have "of_nat (256 * unat (drop_bit 8 t) + unat (t AND 0xff)) = (of_nat (unat t) :: 16 word)"
    by (simp only: unat_hi unat_lo mult_div_mod_eq)
  then show ?thesis by simp
qed

lemma bitmap_has_set:
  assumes "length bm = 32" "t < 256" "k < 256"
  shows "bitmap_has (bm[t div 8 := (bm ! (t div 8)) OR push_bit (7 - t mod 8) 1]) k
     \<longleftrightarrow> k = t \<or> bitmap_has bm k"
proof (cases "k div 8 = t div 8")
  case True
  have "7 - k mod 8 < 8" "7 - t mod 8 < 8" by simp_all
  moreover have "7 - k mod 8 = 7 - t mod 8 \<longleftrightarrow> k = t"
  proof
    assume "7 - k mod 8 = 7 - t mod 8"
    then have "k mod 8 = t mod 8" using mod_less_divisor [of 8 k] mod_less_divisor [of 8 t] by linarith
    with True show "k = t" by (metis div_mult_mod_eq)
  qed simp
  ultimately show ?thesis
    using assms True by (auto simp: bitmap_has_def bit_simps)
next
  case False
  then have "k \<noteq> t" by auto
  with False show ?thesis by (simp add: bitmap_has_def)
qed

lemma fillWindow_spec:
  assumes "fillWindow w bm ts = (bm', rest)" and "length bm = 32"
  shows "length bm' = 32 \<and> rest = dropWhile (\<lambda>t. drop_bit 8 t = w) ts \<and>
    (\<forall>k < 256. bitmap_has bm' k \<longleftrightarrow>
       bitmap_has bm k \<or> k \<in> (\<lambda>t. unat (t AND 0xff)) ` set (takeWhile (\<lambda>t. drop_bit 8 t = w) ts))"
  using assms
proof (induction w bm ts rule: fillWindow.induct)
  case (2 w bm ty ts)
  show ?case
  proof (cases "drop_bit 8 ty = w")
    case True
    have lt: "unat (ty AND 0xff) < 256" by (simp add: unat_lo)
    note IH = 2(1) [OF True refl]
    have *: "bitmap_has (bm[unat (ty AND 0xff) div 8 :=
        (bm ! (unat (ty AND 0xff) div 8)) OR 2 ^ (7 - unat (ty AND 0xff) mod 8)]) k
        \<longleftrightarrow> k = unat (ty AND 0xff) \<or> bitmap_has bm k" if "k < 256" for k
      using bitmap_has_set [OF 2(3) lt that] by simp
    from IH True 2(2,3) show ?thesis
      by (simp add: Let_def *) (use * in blast)
  qed (use 2 in auto)
qed auto

lemma lastNonZero_le: "lastNonZero bm n \<le> n"
  by (induction n) auto

lemma lastNonZero_zero: "lastNonZero bm n \<le> i \<Longrightarrow> i < n \<Longrightarrow> bm ! i = 0"
  by (induction n) (auto simp: less_Suc_eq split: if_splits)

lemma bitmap_has_take:
  assumes "length bm = 32"
  shows "bitmap_has (take (lastNonZero bm 32) bm) = bitmap_has bm"
proof (rule ext)
  fix k
  have "k div 8 < lastNonZero bm 32" if "k div 8 < 32" "bm ! (k div 8) \<noteq> 0"
    using that lastNonZero_zero [of bm 32 "k div 8"] by force
  then show "bitmap_has (take (lastNonZero bm 32) bm) k = bitmap_has bm k"
    using assms by (cases "bm ! (k div 8) = 0") (auto simp: bitmap_has_def)
qed

lemma blockTypes_take:
  "length bm = 32 \<Longrightarrow> blockTypes w (take (lastNonZero bm 32) bm) = blockTypes w bm"
  by (simp add: blockTypes_def bitmap_has_take)

lemma set_blockTypes_window:
  assumes "fillWindow w (replicate 32 0) ts = (bm, rest)"
  shows "set (blockTypes (unat w) bm) = set (takeWhile (\<lambda>t. drop_bit 8 t = w) ts)"
proof -
  let ?W = "set (takeWhile (\<lambda>t. drop_bit 8 t = w) ts)"
  have has: "bitmap_has bm k \<longleftrightarrow> k \<in> (\<lambda>t. unat (t AND 0xff)) ` ?W" if "k < 256" for k
    using fillWindow_spec [OF assms] that by (simp add: bitmap_has_def [of "replicate 32 0"])
  have "set (blockTypes (unat w) bm) = (\<lambda>k. of_nat (256 * unat w + k)) ` (\<lambda>t. unat (t AND 0xff)) ` ?W"
  proof -
    have "{k. k < 256 \<and> bitmap_has bm k} = (\<lambda>t. unat (t AND 0xff)) ` ?W"
      using has by (auto simp: unat_lo)
    then show ?thesis by (simp add: blockTypes_def atLeast0LessThan lessThan_def Collect_conj_eq)
  qed
  also have "\<dots> = ?W"
  proof -
    have "of_nat (256 * unat w + unat (t AND 0xff)) = t" if "t \<in> ?W" for t
      using set_takeWhileD [OF that] hi_lo_word [of t] by simp
    then show ?thesis by (simp add: image_image)
  qed
  finally show ?thesis .
qed

lemma sorted_blockTypes:
  assumes "w < 256" shows "sorted_wrt (<) (blockTypes w bm)"
proof -
  have u: "unat (of_nat (256 * w + k) :: 16 word) = 256 * w + k" if "k < 256" for k
    using that assms by (subst unat_of_nat) simp
  show ?thesis
    unfolding blockTypes_def sorted_wrt_map
    by (rule sorted_wrt_mono_rel [OF _ sorted_wrt_filter [OF sorted_wrt_upt]])
      (auto simp only: word_less_nat_alt u set_filter set_upt mem_Collect_eq atLeastLessThan_iff
        add_less_cancel_left)
qed

lemma window_separates:
  assumes "sorted (ty # ts)" "y \<in> set (dropWhile (\<lambda>t. drop_bit 8 t = drop_bit 8 ty) (ty # ts))"
    and "x \<in> set (takeWhile (\<lambda>t. drop_bit 8 t = drop_bit 8 ty) (ty # ts))"
  shows "(x :: 16 word) < y"
proof -
  let ?P = "\<lambda>t. drop_bit 8 t = drop_bit 8 ty"
  obtain h rest where r: "dropWhile ?P (ty # ts) = h # rest"
    using assms(2) by (metis empty_iff list.exhaust list.set(1))
  have split: "ty # ts = takeWhile ?P (ty # ts) @ h # rest"
    using takeWhile_dropWhile_id [of ?P "ty # ts"] unfolding r by (rule sym)
  have "sorted (takeWhile ?P (ty # ts) @ h # rest)" using assms(1) unfolding split [symmetric] .
  then have le: "x \<le> y" "h \<le> y" using assms(2,3) unfolding r by (auto simp: sorted_append)
  have "ty \<le> h" using assms(1) set_dropWhileD [of h ?P "ty # ts"] unfolding r by force
  moreover have "\<not> ?P h" using hd_dropWhile [of ?P "ty # ts"] unfolding r by simp
  ultimately have "unat ty div 256 < unat h div 256"
    using div_le_mono [of "unat ty" "unat h" 256] unat_hi [of ty] unat_hi [of h]
    by (metis le_neq_implies_less word_le_nat_alt word_unat_eq_iff)
  also have "\<dots> \<le> unat y div 256" using le(2) by (simp add: div_le_mono word_le_nat_alt)
  finally have "\<not> ?P y" by (metis unat_hi less_irrefl)
  with set_takeWhileD [OF assms(3)] have "x \<noteq> y" by auto
  with le(1) show ?thesis by simp
qed

lemma readBitmap_TypeBitmap:
  "\<exists>us. readBitmap (TypeBitmap ts) = Some us \<and> set us = set ts \<and> (sorted ts \<longrightarrow> sorted_wrt (<) us)"
proof (induction ts rule: TypeBitmap.induct)
  case (2 ty ts)
  let ?w = "drop_bit 8 ty" and ?P = "\<lambda>t. drop_bit 8 t = drop_bit 8 ty"
  obtain bm rest where fw: "fillWindow ?w (replicate 32 0) (ty # ts) = (bm, rest)" by fastforce
  note spec = fillWindow_spec [OF fw, simplified]
  let ?n = "lastNonZero bm 32"
  have rest: "rest = dropWhile ?P (ty # ts)" and lbm: "length bm = 32" using spec by auto
  obtain us where us: "readBitmap (TypeBitmap rest) = Some us" "set us = set rest"
    "sorted rest \<longrightarrow> sorted_wrt (<) us"
    using 2 fw by force
  have w256: "unat ?w < 256" using unsigned_less [of ty, where 'a = nat] by (simp add: unat_hi less_mult_imp_div_less)
  then have w: "unat ?w < 256" "unat (ucast ?w :: byte) = unat ?w"
    by (simp_all add: unsigned_ucast_eq take_bit_nat_def)
  have "bitmap_has bm (unat (ty AND 0xff))" using spec by (simp add: unat_lo)
  then have "bm ! (unat (ty AND 0xff) div 8) \<noteq> 0" "unat (ty AND 0xff) div 8 < 32"
    using lbm by (auto simp: bitmap_has_def)
  then have "?n \<noteq> 0" using lastNonZero_zero [of bm 32 "unat (ty AND 0xff) div 8"] by (metis le0)
  moreover have "?n \<le> 32" by (rule lastNonZero_le)
  moreover have "TypeBitmap (ty # ts) = ucast ?w # byte_of ?n # take ?n bm @ TypeBitmap rest"
    by (simp only: TypeBitmap.simps fw Let_def prod.case)
  ultimately have "readBitmap (TypeBitmap (ty # ts)) = Some (blockTypes (unat ?w) bm @ us)"
    using us(1) lbm w by (simp add: blockTypes_take unat_of_nat)
  moreover have "set (blockTypes (unat ?w) bm) = set (takeWhile ?P (ty # ts))"
    by (rule set_blockTypes_window [OF fw])
  moreover have "set (takeWhile ?P (ty # ts)) \<union> set rest = set (ty # ts)"
    unfolding rest by (metis set_append takeWhile_dropWhile_id)
  moreover have "sorted_wrt (<) (blockTypes (unat ?w) bm @ us)" if s: "sorted (ty # ts)"
  proof -
    have "sorted rest" using sorted_dropWhile [OF s, of ?P] by (simp only: rest)
    then show ?thesis
      using us sorted_blockTypes [OF w(1)] window_separates [OF s] set_blockTypes_window [OF fw]
      by (auto simp: sorted_wrt_append rest)
  qed
  ultimately show ?case using us(2) by (metis set_append)
qed (simp add: TypeBitmap.simps)

subsection \<open>Properties\<close>

text \<open>The reverse type map built at start-up is the inverse of \<open>RRtypeToWire\<close>: a wire
  number is read back as exactly the type that is written as this number.\<close>

theorem RRtypeFromWire_inverts: "RRtypeFromWire v = Some t \<longleftrightarrow> RRtypeToWire t = Some v"
  by (rule RRtype_wire_inverse)

text \<open>A standard reader of type bitmaps recovers from the bitmap that \<open>TypeBitmap\<close> writes
  for the sorted type list of an NSEC3 record exactly the types of the list, each once and
  in ascending order; so windows ascend and every block has 1 to 32 bitmap bytes.\<close>

theorem TypeBitmap_roundtrip:
  "readBitmap (TypeBitmap (sort types)) = Some (sorted_list_of_set (set types))"
proof -
  obtain us where us: "readBitmap (TypeBitmap (sort types)) = Some us" "set us = set types"
    "sorted_wrt (<) us"
    using readBitmap_TypeBitmap [of "sort types"] by auto
  then have "us = sorted_list_of_set (set types)"
    by (metis List.finite_set sorted_list_of_set.idem_if_sorted_distinct strict_sorted_iff)
  with us show ?thesis by simp
qed

text \<open>\<open>BinaryWrite\<close> of a record made by \<open>NewRR\<close> never fails and writes the standard
  layout: owner name, type number, class IN, TTL 300, the length of the data as a 16-bit
  number, and the data.\<close>

theorem BinaryWrite_layout:
  "\<exists>w. RRtypeToWire (RRtype_of opts) = Some w \<and>
     BinaryWrite uni (NewRR name opts) =
       (Write name @ put16 w @ put16 1 @ put32 300
        @ put16 (u16_of (length (Payload uni opts))) @ Payload uni opts, None)"
  using RRtypeToWire_of [of opts] by (auto simp: BinaryWrite_def NewRR_def DefaultTTL_def Let_def)

end
