(* ===== verification/RR_Parse.thy ===== *)
theory RR_Parse
  imports RR_Types
begin

text \<open>
  Reading record data from its wire form, after \<^verbatim>\<open>internal/rec/parse.go\<close>. Every
  access to the input is a checked one, so the theorem that \<open>ParseRdata\<close> always returns a
  value says that no input makes it panic; the round trip says that it reads what
  \<open>Payload\<close> writes.
\<close>

datatype rdata_error =
    UnsupportedType RRtype
  | BadLength RRtype nat
  | TooShort RRtype nat
  | Truncated RRtype
  | NameParseOverrun
  | InvalidLabelLength byte
  | NameLabelOverrun
  | InRdata RRtype rdata_error

subsection \<open>The code\<close>

text \<open>The loop of \<open>parseDNSName\<close>: the labels read so far and the offset.\<close>

function parseLabels :: "bytes \<Rightarrow> gostring list \<Rightarrow> nat \<Rightarrow> (rdata_error + gostring list \<times> nat) go" where
  "parseLabels data labels offset =
     (if length data \<le> offset then Some (Inl NameParseOverrun)
      else do {
        b \<leftarrow> goindex data offset;
        (if b = 0 then Some (Inr (labels, offset + 1))
         else if b AND 0xC0 \<noteq> 0 then Some (Inl (InvalidLabelLength b))
         else if length data < offset + 1 + unat b then Some (Inl NameLabelOverrun)
         else do {
           label \<leftarrow> goslice data (offset + 1) (offset + 1 + unat b);
           parseLabels data (labels @ [label]) (offset + 1 + unat b)
         })
      })"
  by pat_completeness auto
termination
  by (relation "measure (\<lambda>(data, labels, offset). length data - offset)") auto

declare parseLabels.simps [simp del]

definition parseDNSName :: "bytes \<Rightarrow> nat \<Rightarrow> (rdata_error + gostring \<times> nat) go" where
  "parseDNSName data offset = do {
     r \<leftarrow> parseLabels data [] offset;
     (case r of
        Inl err \<Rightarrow> Some (Inl err)
      | Inr (labels, end_offset) \<Rightarrow>
          (let name = (if length labels = 0 then lit ''.'' else Join (lit ''.'') labels @ lit ''.'')
           in Some (Inr (name, end_offset - offset))))
   }"

definition ParseA :: "bytes \<Rightarrow> (rdata_error + RRopts) go" where
  "ParseA rdata =
     (if length rdata \<noteq> 4 then Some (Inl (BadLength TypeA (length rdata)))
      else Some (Inr (RRoptsA rdata)))"

definition ParseAAAA :: "bytes \<Rightarrow> (rdata_error + RRopts) go" where
  "ParseAAAA rdata =
     (if length rdata \<noteq> 16 then Some (Inl (BadLength TypeAAAA (length rdata)))
      else Some (Inr (RRoptsAAAA rdata)))"

function parseTXTLoop :: "bytes \<Rightarrow> gostring \<Rightarrow> nat \<Rightarrow> (rdata_error + gostring) go" where
  "parseTXTLoop rdata txt offset =
     (if offset < length rdata
      then do {
        b \<leftarrow> goindex rdata offset;
        (let segLen = unat b; offset' = offset + 1
         in if length rdata < offset' + segLen then Some (Inl (Truncated TypeTXT))
            else do {
              seg \<leftarrow> goslice rdata offset' (offset' + segLen);
              parseTXTLoop rdata (txt @ seg) (offset' + segLen)
            })
      }
      else Some (Inr txt))"
  by pat_completeness auto
termination
  by (relation "measure (\<lambda>(rdata, txt, offset). length rdata - offset)") auto

declare parseTXTLoop.simps [simp del]

definition ParseTXT :: "bytes \<Rightarrow> (rdata_error + RRopts) go" where
  "ParseTXT rdata = do {
     r \<leftarrow> parseTXTLoop rdata [] 0;
     Some (case r of Inl err \<Rightarrow> Inl err | Inr txt \<Rightarrow> Inr (RRoptsTXT txt))
   }"

definition ParseCNAME :: "bytes \<Rightarrow> (rdata_error + RRopts) go" where
  "ParseCNAME rdata = do {
     r \<leftarrow> parseDNSName rdata 0;
     Some (case r of Inl err \<Rightarrow> Inl (InRdata TypeCNAME err) | Inr (name, _) \<Rightarrow> Inr (RRoptsCNAME name))
   }"

definition ParseNS :: "bytes \<Rightarrow> (rdata_error + RRopts) go" where
  "ParseNS rdata = do {
     r \<leftarrow> parseDNSName rdata 0;
     Some (case r of Inl err \<Rightarrow> Inl (InRdata TypeNS err) | Inr (name, _) \<Rightarrow> Inr (RRoptsNS name))
   }"

definition ParsePTR :: "bytes \<Rightarrow> (rdata_error + RRopts) go" where
  "ParsePTR rdata = do {
     r \<leftarrow> parseDNSName rdata 0;
     Some (case r of Inl err \<Rightarrow> Inl (InRdata TypePTR err) | Inr (name, _) \<Rightarrow> Inr (RRoptsPTR name))
   }"

definition ParseMX :: "bytes \<Rightarrow> (rdata_error + RRopts) go" where
  "ParseMX rdata =
     (if length rdata < 3 then Some (Inl (TooShort TypeMX (length rdata)))
      else do {
        pref \<leftarrow> be16 rdata 0;
        r \<leftarrow> parseDNSName rdata 2;
        Some (case r of Inl err \<Rightarrow> Inl (InRdata TypeMX err) | Inr (name, _) \<Rightarrow> Inr (RRoptsMX pref name))
      })"

definition ParseSRV :: "bytes \<Rightarrow> (rdata_error + RRopts) go" where
  "ParseSRV rdata =
     (if length rdata < 7 then Some (Inl (TooShort TypeSRV (length rdata)))
      else do {
        priority \<leftarrow> be16 rdata 0;
        weight \<leftarrow> be16 rdata 2;
        port \<leftarrow> be16 rdata 4;
        r \<leftarrow> parseDNSName rdata 6;
        Some (case r of
                Inl err \<Rightarrow> Inl (InRdata TypeSRV err)
              | Inr (target, _) \<Rightarrow> Inr (RRoptsSRV priority weight port target))
      })"

definition ParseCAA :: "bytes \<Rightarrow> (rdata_error + RRopts) go" where
  "ParseCAA rdata =
     (if length rdata < 2 then Some (Inl (TooShort TypeCAA (length rdata)))
      else do {
        flags \<leftarrow> goindex rdata 0;
        b \<leftarrow> goindex rdata 1;
        (let tagLen = unat b
         in if length rdata < 2 + tagLen then Some (Inl (Truncated TypeCAA))
            else do {
              tag \<leftarrow> goslice rdata 2 (2 + tagLen);
              val \<leftarrow> goslice rdata (2 + tagLen) (length rdata);
              Some (Inr (RRoptsCAA flags tag val))
            })
      })"

definition ParseRdata :: "RRtype \<Rightarrow> bytes \<Rightarrow> (rdata_error + RRopts) go" where
  "ParseRdata rrtype rdata =
     (if rrtype = TypeA then ParseA rdata
      else if rrtype = TypeAAAA then ParseAAAA rdata
      else if rrtype = TypeTXT then ParseTXT rdata
      else if rrtype = TypeCNAME then ParseCNAME rdata
      else if rrtype = TypeNS then ParseNS rdata
      else if rrtype = TypePTR then ParsePTR rdata
      else if rrtype = TypeMX then ParseMX rdata
      else if rrtype = TypeSRV then ParseSRV rdata
      else if rrtype = TypeCAA then ParseCAA rdata
      else Some (Inl (UnsupportedType rrtype)))"

subsection \<open>No input panics\<close>

lemma parseLabels_total: "\<exists>r. parseLabels data labels offset = Some r"
proof (induction data labels offset rule: parseLabels.induct)
  case (1 data labels offset)
  then show ?case by (subst parseLabels.simps) auto
qed

lemma parseDNSName_total: "\<exists>r. parseDNSName data offset = Some r"
  using parseLabels_total [of data "[]" offset]
  by (auto simp: parseDNSName_def Let_def split: sum.splits)

lemma parseTXTLoop_total: "\<exists>r. parseTXTLoop rdata acc offset = Some r"
proof (induction rdata acc offset rule: parseTXTLoop.induct)
  case (1 rdata acc offset)
  then show ?case by (subst parseTXTLoop.simps) (auto simp: Let_def)
qed

subsection \<open>Reading what was written\<close>

lemma parseLabels_wire:
  assumes "fitting_labels ls"
  shows "parseLabels (pre @ wire_of ls @ post) acc (length pre) =
    Some (Inr (acc @ ls, length pre + length (wire_of ls)))"
  using assms
proof (induction ls arbitrary: pre acc)
  case Nil
  show ?case by (subst parseLabels.simps) simp
next
  case (Cons l ls)
  then have n: "length l < 256" "0 < length l" "length l \<le> 63" by auto
  let ?data = "pre @ wire_of (l # ls) @ post" and ?pre' = "pre @ byte_of (length l) # l"
  have d: "?data = ?pre' @ wire_of ls @ post" by simp
  have sl: "goslice ?data (length pre + 1) (length pre + 1 + length l) = Some l"
    using goslice_append [of "pre @ [byte_of (length l)]" l "wire_of ls @ post"] by simp
  have "parseLabels ?data acc (length pre) = parseLabels ?data (acc @ [l]) (length ?pre')"
    using n sl
    by (subst parseLabels.simps) (simp add: byte_of_eq_0 label_byte_plain unat_byte_of del: of_nat_eq_0_iff)
  with Cons.IH [of ?pre' "acc @ [l]"] Cons.prems d show ?case by simp
qed

interpretation rdata_name: name_reader parseDNSName
proof unfold_locales
  fix ls pre post assume "fitting_labels ls" "ls \<noteq> []"
  then show "parseDNSName (pre @ wire_of ls @ post) (length pre) =
      Some (Inr (fqdn_of ls, length (wire_of ls)))"
    using parseLabels_wire [of ls pre post "[]"]
    by (simp add: parseDNSName_def fqdn_of_Join lit_def dot_def)
qed

lemma parse_root: "parseDNSName (pre @ Write [dot]) (length pre) = Some (Inr ([dot], 1))"
proof -
  have "parseLabels (pre @ Write [dot]) [] (length pre) = Some (Inr ([], length pre + 1))"
    by (subst parseLabels.simps) (simp add: Write_wire_of)
  then show ?thesis by (simp add: parseDNSName_def lit_def dot_def)
qed

text \<open>A name that fits into its wire form: 255 octets, so 254 bytes of text.\<close>

definition wire_name :: "Domain \<Rightarrow> bool" where
  "wire_name d \<longleftrightarrow> valid_domain d \<and> length d \<le> 254"

lemma parse_Write:
  assumes "wire_name d" "n = length pre"
  shows "\<exists>k. parseDNSName (pre @ Write d) n = Some (Inr (d, k))"
  using assms rdata_name.read_Write_at [of d n pre] parse_root [of pre]
  by (cases "d = [dot]") (auto simp: wire_name_def)

lemma txtChunks_step:
  assumes "s \<noteq> []"
  shows "txtChunks s = byte_of (length (take 255 s)) # take 255 s @ txtChunks (drop 255 s)"
  using assms by (subst txtChunks.simps) (auto simp: Let_def txtChunks.simps [of "[]"])

lemma parseTXTLoop_chunks:
  "parseTXTLoop (pre @ txtChunks s) acc (length pre) = Some (Inr (acc @ s))"
proof (induction s arbitrary: pre acc rule: txtChunks.induct)
  case (1 s)
  show ?case
  proof (cases "s = []")
    case True
    then show ?thesis by (simp add: txtChunks.simps [of "[]"] parseTXTLoop.simps)
  next
    case False
    let ?c = "take 255 s" and ?pre' = "pre @ byte_of (length (take 255 s)) # take 255 s"
    let ?data = "pre @ txtChunks s"
    have d: "?data = ?pre' @ txtChunks (drop 255 s)" by (simp add: txtChunks_step [OF False])
    have n: "length ?c < 256" by simp
    have sl: "goslice ?data (length pre + 1) (length pre + 1 + length ?c) = Some ?c"
      using goslice_append [of "pre @ [byte_of (length ?c)]" ?c "txtChunks (drop 255 s)"]
      by (simp add: txtChunks_step [OF False])
    have "parseTXTLoop ?data acc (length pre) = parseTXTLoop ?data (acc @ ?c) (length ?pre')"
      using sl unat_byte_of [OF n]
      by (subst parseTXTLoop.simps) (simp add: Let_def d nth_append del: length_take)
    moreover have "parseTXTLoop ?data (acc @ ?c) (length ?pre') = Some (Inr ((acc @ ?c) @ drop 255 s))"
      unfolding d using 1 [of _ ?pre' "acc @ ?c"] False
      by (cases "255 < length s") (auto simp: txtChunks.simps [of "[]"] parseTXTLoop.simps)
    ultimately show ?thesis by simp
  qed
qed

text \<open>The record data that the wire form determines, for the types \<open>ParseRdata\<close> supports.\<close>

fun parseable :: "RRopts \<Rightarrow> bool" where
  "parseable (RRoptsA ip) \<longleftrightarrow> length ip = 4"
| "parseable (RRoptsAAAA ip) \<longleftrightarrow> length ip = 16"
| "parseable (RRoptsNS d) \<longleftrightarrow> wire_name d"
| "parseable (RRoptsCNAME d) \<longleftrightarrow> wire_name d"
| "parseable (RRoptsPTR d) \<longleftrightarrow> wire_name d"
| "parseable (RRoptsMX p d) \<longleftrightarrow> wire_name d"
| "parseable (RRoptsSRV p w q d) \<longleftrightarrow> wire_name d"
| "parseable (RRoptsTXT s) \<longleftrightarrow> True"
| "parseable (RRoptsCAA f tag val) \<longleftrightarrow> length tag < 256"
| "parseable _ \<longleftrightarrow> False"

lemma length_Write_pos: "0 < length (Write d)"
  by (simp add: Write_def)

lemma ParseMX_Payload:
  assumes "wire_name d" shows "ParseMX (put16 p @ Write d) = Some (Inr (RRoptsMX p d))"
proof -
  obtain k where "parseDNSName (put16 p @ Write d) 2 = Some (Inr (d, k))"
    using parse_Write [OF assms, of 2 "put16 p"] by auto
  moreover have "be16 (put16 p @ Write d) 0 = Some p" using be16_put16 [of "[]" p "Write d"] by simp
  ultimately show ?thesis using length_Write_pos [of d] by (simp add: ParseMX_def)
qed

lemma ParseSRV_Payload:
  assumes "wire_name d"
  shows "ParseSRV (put16 p @ put16 w @ put16 q @ Write d) = Some (Inr (RRoptsSRV p w q d))"
proof -
  let ?r = "put16 p @ put16 w @ put16 q @ Write d"
  obtain k where "parseDNSName ?r 6 = Some (Inr (d, k))"
    using parse_Write [OF assms, of 6 "put16 p @ put16 w @ put16 q"] by auto
  moreover have "be16 ?r 0 = Some p" "be16 ?r 2 = Some w" "be16 ?r 4 = Some q"
    using be16_put16 [of "[]" p "put16 w @ put16 q @ Write d"]
      be16_put16 [of "put16 p" w "put16 q @ Write d"] be16_put16 [of "put16 p @ put16 w" q "Write d"]
    by simp_all
  ultimately show ?thesis using length_Write_pos [of d] by (simp add: ParseSRV_def)
qed

lemma ParseRdata_Payload:
  assumes "parseable opts"
  shows "ParseRdata (RRtype_of opts) (Payload uni opts) = Some (Inr opts)"
  using assms
proof (cases opts rule: parseable.cases)
  case (3 d)
  then show ?thesis using assms parse_Write [of d 0 "[]"] by (auto simp: ParseRdata_def ParseNS_def)
next
  case (4 d)
  then show ?thesis using assms parse_Write [of d 0 "[]"] by (auto simp: ParseRdata_def ParseCNAME_def)
next
  case (5 d)
  then show ?thesis using assms parse_Write [of d 0 "[]"] by (auto simp: ParseRdata_def ParsePTR_def)
next
  case (8 s)
  then show ?thesis using parseTXTLoop_chunks [of "[]" s "[]"] by (simp add: ParseRdata_def ParseTXT_def)
qed (auto simp: ParseRdata_def ParseA_def ParseAAAA_def ParseMX_Payload ParseSRV_Payload ParseCAA_def
      To4_def To16_def unat_byte_of Let_def payload_defs)

text \<open>A parser for one type: it always returns, and a value it returns has that type.\<close>

definition returns_type :: "RRtype \<Rightarrow> (rdata_error + RRopts) go \<Rightarrow> bool" where
  "returns_type t r =
     (case r of None \<Rightarrow> False | Some (Inl err) \<Rightarrow> True | Some (Inr opts) \<Rightarrow> RRtype_of opts = t)"

lemma returns_type_simps [simp]:
  "\<not> returns_type t None" "returns_type t (Some (Inl err))"
  "returns_type t (Some (Inr opts)) \<longleftrightarrow> RRtype_of opts = t"
  by (simp_all add: returns_type_def)

lemma returns_type_name:
  assumes "\<And>name. RRtype_of (f name) = t"
  shows "returns_type t (do { r \<leftarrow> parseDNSName rdata k;
     Some (case r of Inl err \<Rightarrow> Inl (g err) | Inr (name, _) \<Rightarrow> Inr (f name)) })"
proof -
  obtain r where "parseDNSName rdata k = Some r" using parseDNSName_total by blast
  then show ?thesis using assms by (cases r) auto
qed

lemma returns_type_CAA: "returns_type TypeCAA (ParseCAA rdata)"
  by (cases rdata rule: list.exhaust [case_product list.exhaust]; cases "tl rdata")
    (auto simp: ParseCAA_def Let_def)

lemma returns_type_TXT: "returns_type TypeTXT (ParseTXT rdata)"
proof -
  obtain r where "parseTXTLoop rdata [] 0 = Some r" using parseTXTLoop_total by blast
  then show ?thesis by (cases r) (auto simp: ParseTXT_def)
qed

lemma returns_type_parsers:
  "returns_type TypeA (ParseA rdata)" "returns_type TypeAAAA (ParseAAAA rdata)"
  "returns_type TypeCNAME (ParseCNAME rdata)" "returns_type TypeNS (ParseNS rdata)"
  "returns_type TypePTR (ParsePTR rdata)"
  by (simp_all add: ParseA_def ParseAAAA_def ParseCNAME_def ParseNS_def ParsePTR_def returns_type_name)

lemma returns_type_MX: "returns_type TypeMX (ParseMX rdata)"
  by (simp add: ParseMX_def be16_def returns_type_name)

lemma returns_type_SRV: "returns_type TypeSRV (ParseSRV rdata)"
  by (simp add: ParseSRV_def be16_def returns_type_name)

lemma returns_type_ParseRdata: "returns_type rrtype (ParseRdata rrtype rdata)"
  by (simp add: ParseRdata_def returns_type_parsers returns_type_MX returns_type_SRV
    returns_type_CAA returns_type_TXT)

lemma ParseRdata_not_None: "ParseRdata rrtype rdata \<noteq> None"
  using returns_type_ParseRdata [of rrtype rdata] by (auto simp: returns_type_def split: option.splits)

subsection \<open>Properties\<close>

text \<open>C38: Record data written by \<open>Payload\<close> is read back by \<open>ParseRdata\<close> as the same value, for
  every supported type: addresses of the right length, names that fit, TXT strings of any
  length (cut into 255-byte strings and joined again), CAA tags below 256 bytes.\<close>

theorem ParseRdata_roundtrip:
  assumes "parseable opts"
  shows "ParseRdata (RRtype_of opts) (Payload uni opts) = Some (Inr opts)"
  using assms by (rule ParseRdata_Payload)

theorem ParseRdata_roundtrip_witness:
  "ParseRdata TypeMX (Payload (\<lambda>s. s) (RRoptsMX 10 (lit ''mail.example.''))) =
     Some (Inr (RRoptsMX 10 (lit ''mail.example.'')))"
proof -
  have "parseable (RRoptsMX 10 (lit ''mail.example.''))" by code_simp
  from ParseRdata_roundtrip [OF this, of "\<lambda>s. s"] show ?thesis by simp
qed

text \<open>C39: \<open>ParseRdata\<close> returns a value or an error for every type and every byte string: no
  input makes it read out of bounds, and the name and TXT loops end. A value it returns
  has the requested type.\<close>

theorem ParseRdata_total:
  "\<exists>r. ParseRdata rrtype rdata = Some r \<and>
     (case r of Inl err \<Rightarrow> True | Inr opts \<Rightarrow> RRtype_of opts = rrtype)"
  using returns_type_ParseRdata [of rrtype rdata] by (auto simp: returns_type_def split: option.splits)

end
