(* ===== verification/Zone_DB.thy ===== *)
theory Zone_DB
  imports RR_Types
begin

text \<open>
  The zone database, after \<^verbatim>\<open>internal/db/{db,stat}.go\<close>: the two indexes built by
  \<open>NewDB\<close>, the lookups by type and by name, wildcard lookup, the additional section and the
  flat JSON form.

  The program keeps pointers to records. The records of one database are distinct pointers
  (freshly made from resources or by the JSON decoder), so a record value stands for its pointer
  and the pointer set \<open>seen\<close> of \<open>AllRecords\<close> filters nothing. The order in which \<open>AllRecords\<close>
  ranges over the map is its argument \<open>ord\<close>.
\<close>

record DB =
  Zone :: Domain
  ByType :: "(RRtype \<times> RR list) list"
  ByName :: "(Domain \<times> RR list) list"
  DNSSECEnabled :: bool
  count :: nat

type_synonym maporder = "(RRtype \<times> RR list) list \<Rightarrow> (RRtype \<times> RR list) list"

subsection \<open>The code\<close>

definition NewDB :: "Domain \<Rightarrow> RR list \<Rightarrow> DB" where
  "NewDB zone records =
     \<lparr> Zone = zone,
       ByType = foldl (\<lambda>m rr. mapAppend (RRtype rr) rr m) [] records,
       ByName = foldl (\<lambda>m rr. mapAppend (Name rr) rr m) [] records,
       DNSSECEnabled = False,
       count = length records \<rparr>"

fun filterByName :: "unilower \<Rightarrow> Domain \<Rightarrow> RR list \<Rightarrow> RR list go" where
  "filterByName uni name [] = Some []"
| "filterByName uni name (rr # rrs) = do {
     c \<leftarrow> CompareDomain uni (Name rr) name;
     result \<leftarrow> filterByName uni name rrs;
     Some (if c = 0 then rr # result else result)
   }"

definition LookupByType :: "unilower \<Rightarrow> DB \<Rightarrow> Domain \<Rightarrow> RRtype \<Rightarrow> RR list go" where
  "LookupByType uni db name rrtype = filterByName uni name (mapGet (ByType db) rrtype)"

definition LookupByName :: "DB \<Rightarrow> Domain \<Rightarrow> RRtype \<Rightarrow> RR list" where
  "LookupByName db name rrtype = filter (\<lambda>rr. RRtype rr = rrtype) (mapGet (ByName db) name)"

text \<open>
  The inner loop of \<open>WildcardLookup\<close>: is some name strictly between the queried name and the
  parent of the wildcard an owner name, or an empty non-terminal?
\<close>

lemma IndexByte_less: "IndexByte s c = Some i \<Longrightarrow> i < length s"
  by (elim IndexByte_SomeD) simp

function wildcardBlocked :: "DB \<Rightarrow> gostring \<Rightarrow> gostring \<Rightarrow> bool" where
  "wildcardBlocked db parent intermediate =
     (case IndexByte intermediate dot of
        None \<Rightarrow> False
      | Some idot \<Rightarrow>
          (let iparent = drop (idot + 1) intermediate
           in if iparent = parent then False
              else if mapHas (ByName db) iparent then True
              else if list_ex (\<lambda>key. HasSuffix key (lit ''.'' @ iparent)) (map fst (ByName db)) then True
              else wildcardBlocked db parent iparent))"
  by pat_completeness auto
termination
  by (relation "measure (\<lambda>(db, parent, intermediate). length intermediate)")
    (auto dest: IndexByte_less)

declare wildcardBlocked.simps [simp del]

function wildcardLoop :: "DB \<Rightarrow> Domain \<Rightarrow> Domain \<Rightarrow> RRtype \<Rightarrow> gostring \<Rightarrow> Domain \<times> RR list" where
  "wildcardLoop db name zone rrtype current =
     (case IndexByte current dot of
        None \<Rightarrow> ([], [])
      | Some d \<Rightarrow>
          (let parent = drop (d + 1) current;
               wc = lit ''*.'' @ parent
           in if mapHas (ByName db) wc
              then (if wildcardBlocked db parent name then ([], [])
                    else (wc, LookupByName db wc rrtype))
              else if parent = zone then ([], [])
              else wildcardLoop db name zone rrtype parent))"
  by pat_completeness auto
termination
  by (relation "measure (\<lambda>(db, name, zone, rrtype, current). length current)")
    (auto dest: IndexByte_less)

declare wildcardLoop.simps [simp del]

definition WildcardLookup :: "DB \<Rightarrow> Domain \<Rightarrow> Domain \<Rightarrow> RRtype \<Rightarrow> Domain \<times> RR list" where
  "WildcardLookup db name zone rrtype =
     (if name = zone then ([], []) else wildcardLoop db name zone rrtype name)"

definition additionalTarget :: "RRopts \<Rightarrow> Domain option" where
  "additionalTarget opts =
     (case opts of
        RRoptsCNAME cname \<Rightarrow> Some cname
      | RRoptsMX _ mx \<Rightarrow> Some mx
      | RRoptsNS ns \<Rightarrow> Some ns
      | RRoptsSRV _ _ _ target \<Rightarrow> Some target
      | _ \<Rightarrow> None)"

fun additionalLoop :: "unilower \<Rightarrow> DB \<Rightarrow> Domain list \<Rightarrow> RR list \<Rightarrow> RR list go" where
  "additionalLoop uni db seen [] = Some []"
| "additionalLoop uni db seen (rr # answers) =
     (case additionalTarget (Opts rr) of
        None \<Rightarrow> additionalLoop uni db seen answers
      | Some target \<Rightarrow>
          (if target \<in> set seen then additionalLoop uni db seen answers
           else do {
             as \<leftarrow> LookupByType uni db target TypeA;
             aaaas \<leftarrow> LookupByType uni db target TypeAAAA;
             result \<leftarrow> additionalLoop uni db (target # seen) answers;
             Some (as @ aaaas @ result)
           }))"

text \<open>The parameter \<open>qtype\<close> of the function is not used by its body.\<close>

definition LookupAdditional :: "unilower \<Rightarrow> DB \<Rightarrow> RR list \<Rightarrow> RRtype \<Rightarrow> RR list go" where
  "LookupAdditional uni db answers qtype = additionalLoop uni db [] answers"

definition AllRecords :: "maporder \<Rightarrow> DB \<Rightarrow> RR list" where
  "AllRecords ord db = concat (map snd (ord (ByType db)))"

definition RRCount :: "DB \<Rightarrow> nat" where
  "RRCount db = count db"

text \<open>
  The JSON form. The JSON text itself is produced by \<open>encoding/json\<close>, which is a parameter
  (an encoder and a decoder over some type of texts); the program's part is which value is
  encoded and how the database is rebuilt from the decoded value.
\<close>

record dbWire =
  wZone :: Domain
  wRecords :: "RR list"
  wDNSSECEnabled :: bool

definition MarshalJSON :: "(dbWire \<Rightarrow> 'js) \<Rightarrow> maporder \<Rightarrow> DB \<Rightarrow> 'js" where
  "MarshalJSON enc ord db =
     enc \<lparr> wZone = Zone db, wRecords = AllRecords ord db, wDNSSECEnabled = DNSSECEnabled db \<rparr>"

definition UnmarshalJSON :: "('js \<Rightarrow> dbWire option) \<Rightarrow> 'js \<Rightarrow> DB option" where
  "UnmarshalJSON dec js =
     (case dec js of
        None \<Rightarrow> None
      | Some w \<Rightarrow> Some ((NewDB (wZone w) (wRecords w)) \<lparr> DNSSECEnabled := wDNSSECEnabled w \<rparr>))"

subsection \<open>The indexes\<close>

text \<open>
  The contract of an index over the records of a database: the slice under a key holds the
  records with that key in their original order, and the keys are those of the records.
\<close>

locale record_index =
  fixes key :: "RR \<Rightarrow> 'k" and index :: "DB \<Rightarrow> ('k \<times> RR list) list"
  assumes get_NewDB: "mapGet (index (NewDB z rs)) k = filter (\<lambda>rr. key rr = k) rs"
    and keys_NewDB: "fst ` set (index (NewDB z rs)) = key ` set rs"
    and distinct_NewDB: "distinct (map fst (index (NewDB z rs)))"
    and flat_NewDB: "mset (concat (map snd (index (NewDB z rs)))) = mset rs"
begin

lemma member_iff: "rr \<in> set (mapGet (index (NewDB z rs)) k) \<longleftrightarrow> rr \<in> set rs \<and> key rr = k"
  by (auto simp: get_NewDB)

lemma has_iff: "mapHas (index (NewDB z rs)) k \<longleftrightarrow> (\<exists>rr \<in> set rs. key rr = k)"
  by (auto simp: mapHas_iff keys_NewDB)

lemma has_get: "mapHas (index (NewDB z rs)) k \<longleftrightarrow> mapGet (index (NewDB z rs)) k \<noteq> []"
  by (auto simp: has_iff get_NewDB filter_empty_conv)

lemma group_key: "(j, vs) \<in> set (index (NewDB z rs)) \<Longrightarrow> v \<in> set vs \<Longrightarrow> key v = j"
  using mapGet_in [OF _ distinct_NewDB] by (metis member_iff)

lemma filter_flat:
  assumes "mset m = mset (index (NewDB z rs))"
  shows "filter (\<lambda>rr. key rr = k) (concat (map snd m)) = filter (\<lambda>rr. key rr = k) rs"
proof -
  have "distinct (map fst m)" using assms distinct_NewDB by (metis mset_eq_imp_distinct_iff mset_map)
  moreover have "set m = set (index (NewDB z rs))" using assms by (rule mset_eq_setD)
  ultimately have "filter (\<lambda>rr. key rr = k) (concat (map snd m)) = mapGet m k"
    using group_key by (intro filter_groups) auto
  also have "\<dots> = filter (\<lambda>rr. key rr = k) rs"
    by (simp add: mapGet_perm [OF assms distinct_NewDB] get_NewDB)
  finally show ?thesis .
qed

end

interpretation by_type: record_index RRtype ByType
  by unfold_locales (simp_all add: NewDB_def grouping mset_grouping)

interpretation by_name: record_index Name ByName
  by unfold_locales (simp_all add: NewDB_def grouping mset_grouping)

lemma NewDB_sel [simp]:
  "Zone (NewDB z rs) = z" "DNSSECEnabled (NewDB z rs) = False" "count (NewDB z rs) = length rs"
  by (simp_all add: NewDB_def)

lemma NewDB_unsigned [simp]: "(NewDB z rs) \<lparr> DNSSECEnabled := False \<rparr> = NewDB z rs"
  by (simp add: NewDB_def)

subsection \<open>Lookups\<close>

definition names_ok :: "RR list \<Rightarrow> bool" where
  "names_ok rs \<longleftrightarrow> (\<forall>rr \<in> set rs. wf_name (Name rr))"

lemma names_ok_Cons [simp]: "names_ok (r # rs) \<longleftrightarrow> wf_name (Name r) \<and> names_ok rs"
  and names_ok_Nil [simp]: "names_ok []"
  by (auto simp: names_ok_def)

lemma names_ok_filter [simp]: "names_ok rs \<Longrightarrow> names_ok (filter P rs)"
  by (auto simp: names_ok_def)

lemma filterByName_filter:
  assumes "keeps_dot uni" "wf_name name" "names_ok rs"
  shows "filterByName uni name rs = Some (filter (\<lambda>rr. ToLower uni (Name rr) = ToLower uni name) rs)"
  using assms(3)
proof (induction rs)
  case (Cons r rs)
  obtain c where "CompareDomain uni (Name r) name = Some c"
    "c = 0 \<longleftrightarrow> ToLower uni (Name r) = ToLower uni name"
    using CompareDomain_wf [OF assms(1), of "Name r" name] assms(2) Cons.prems by auto
  with Cons show ?case by simp
qed simp

text \<open>Names in the form in which \<open>NewDomain\<close> stores them: lower case.\<close>

definition lowered :: "unilower \<Rightarrow> Domain \<Rightarrow> bool" where
  "lowered uni d \<longleftrightarrow> ToLower uni d = d"

lemma LookupByName_NewDB:
  "LookupByName (NewDB z rs \<lparr> DNSSECEnabled := b \<rparr>) n t = filter (\<lambda>rr. Name rr = n \<and> RRtype rr = t) rs"
  by (simp add: LookupByName_def by_name.get_NewDB conj_commute)

lemma LookupByType_NewDB:
  assumes "keeps_dot uni" "wf_name n" "names_ok rs"
  shows "LookupByType uni (NewDB z rs \<lparr> DNSSECEnabled := b \<rparr>) n t =
    Some (filter (\<lambda>rr. ToLower uni (Name rr) = ToLower uni n \<and> RRtype rr = t) rs)"
  using assms by (simp add: LookupByType_def by_type.get_NewDB filterByName_filter conj_commute)

lemma lookups_agree:
  assumes "keeps_dot uni" "wf_name n" "names_ok rs" "lowered uni n" "\<forall>rr \<in> set rs. lowered uni (Name rr)"
  shows "LookupByType uni (NewDB z rs \<lparr> DNSSECEnabled := b \<rparr>) n t =
    Some (LookupByName (NewDB z rs \<lparr> DNSSECEnabled := b \<rparr>) n t)"
proof -
  have "filter (\<lambda>rr. ToLower uni (Name rr) = ToLower uni n \<and> RRtype rr = t) rs =
      filter (\<lambda>rr. Name rr = n \<and> RRtype rr = t) rs"
    using assms(4,5) by (intro filter_cong) (auto simp: lowered_def)
  then show ?thesis using assms by (simp add: LookupByType_NewDB LookupByName_NewDB)
qed

subsection \<open>The JSON form\<close>

lemma ByType_update [simp]: "ByType (db \<lparr> DNSSECEnabled := b \<rparr>) = ByType db"
  by simp

lemma AllRecords_filter_type:
  assumes "\<And>m. mset (ord m) = mset m"
  shows "filter (\<lambda>rr. RRtype rr = t) (AllRecords ord (NewDB z rs \<lparr> DNSSECEnabled := b \<rparr>)) =
    filter (\<lambda>rr. RRtype rr = t) rs"
  using by_type.filter_flat [OF assms] by (simp add: AllRecords_def)

lemma mset_AllRecords:
  assumes "\<And>m. mset (ord m) = mset m"
  shows "mset (AllRecords ord (NewDB z rs \<lparr> DNSSECEnabled := b \<rparr>)) = mset rs"
proof -
  have "mset (concat (map snd (ord m))) = mset (concat (map snd m))" for m
    by (simp only: mset_concat sum_mset_sum_list [symmetric] mset_map assms)
  then show ?thesis by (simp add: AllRecords_def by_type.flat_NewDB)
qed

subsection \<open>Wildcards\<close>

text \<open>
  The reference definition: among the proper ancestors of the name, from the nearest up to the
  zone apex, the first that exists in the zone (as an owner name or as an empty non-terminal)
  is the closest encloser; the wildcard is the one directly below it, if there is one.
\<close>

definition node_exists :: "DB \<Rightarrow> Domain \<Rightarrow> bool" where
  "node_exists db n \<longleftrightarrow>
     mapHas (ByName db) n \<or> list_ex (\<lambda>key. HasSuffix key (lit ''.'' @ n)) (map fst (ByName db))"

fun ancestorsTo :: "gostring list \<Rightarrow> gostring list \<Rightarrow> Domain list" where
  "ancestorsTo [] z = []"
| "ancestorsTo (l # ls) z = fqdn_of (ls @ z) # ancestorsTo ls z"

definition wildcardSpec :: "DB \<Rightarrow> Domain list \<Rightarrow> RRtype \<Rightarrow> Domain \<times> RR list" where
  "wildcardSpec db ancestors rrtype =
     (case find (node_exists db) ancestors of
        None \<Rightarrow> ([], [])
      | Some ce \<Rightarrow>
          (if mapHas (ByName db) (lit ''*.'' @ ce) then (lit ''*.'' @ ce, LookupByName db (lit ''*.'' @ ce) rrtype)
           else ([], [])))"

lemma ancestorsTo_append: "ancestorsTo (xs @ ys) z = ancestorsTo xs (ys @ z) @ ancestorsTo ys z"
  by (induction xs) auto

lemma ancestorsTo_snoc: "ancestorsTo (xs @ [l]) z = ancestorsTo xs (l # z) @ [fqdn_of z]"
  by (simp add: ancestorsTo_append)

lemma parent_of:
  assumes "dot \<notin> set l"
  shows "IndexByte (fqdn_of (l # ls)) dot = Some (length l)"
    and "drop (length l + 1) (fqdn_of (l # ls)) = fqdn_of ls"
  using assms by (simp_all add: IndexByte_append)

lemma plain_append [simp]: "plain_labels (xs @ ys) \<longleftrightarrow> plain_labels xs \<and> plain_labels ys"
  by (auto simp: plain_labels_def)

lemma fqdn_of_inj: "plain_labels xs \<Longrightarrow> plain_labels ys \<Longrightarrow> fqdn_of xs = fqdn_of ys \<longleftrightarrow> xs = ys"
  by (metis domainLabels_fqdn_of)

lemma wildcard_parent_exists: "mapHas (ByName db) (lit ''*.'' @ n) \<Longrightarrow> node_exists db n"
proof -
  assume "mapHas (ByName db) (lit ''*.'' @ n)"
  moreover have "lit ''*.'' = lit ''*'' @ lit ''.''" by (simp add: lit_def)
  then have "HasSuffix (lit ''*.'' @ n) (lit ''.'' @ n)" by (simp add: HasSuffix_iff)
  ultimately show ?thesis by (force simp: node_exists_def mapHas_iff list_ex_iff)
qed

lemma wildcardBlocked_spec:
  assumes "plain_labels (pre @ m)" "pre \<noteq> []"
  shows "wildcardBlocked db (fqdn_of m) (fqdn_of (pre @ m)) =
    list_ex (node_exists db) (butlast (ancestorsTo pre m))"
  using assms
proof (induction pre)
  case (Cons l pre)
  have l: "dot \<notin> set l" using Cons.prems by simp
  have step: "wildcardBlocked db (fqdn_of m) (fqdn_of ((l # pre) @ m)) =
     (if fqdn_of (pre @ m) = fqdn_of m then False
      else node_exists db (fqdn_of (pre @ m)) \<or> wildcardBlocked db (fqdn_of m) (fqdn_of (pre @ m)))"
    using parent_of [OF l, of "pre @ m"]
    by (subst wildcardBlocked.simps) (simp add: Let_def node_exists_def del: fqdn_of_Cons)
  show ?case
  proof (cases "pre = []")
    case False
    then have "fqdn_of (pre @ m) \<noteq> fqdn_of m" using Cons.prems by (simp add: fqdn_of_inj)
    moreover have "ancestorsTo pre m \<noteq> []" using False by (cases pre) auto
    ultimately show ?thesis using step Cons False by (simp del: fqdn_of_Cons)
  qed (use step in \<open>simp del: fqdn_of_Cons\<close>)
qed simp

lemma find_append: "find P (xs @ ys) = (case find P xs of None \<Rightarrow> find P ys | Some x \<Rightarrow> Some x)"
  by (induction xs) auto

lemma find_None_ex: "find P xs = None \<longleftrightarrow> \<not> list_ex P xs"
  by (induction xs) auto

lemma wildcardSpec_none:
  assumes "\<forall>a \<in> set as. \<not> mapHas (ByName db) (lit ''*.'' @ a)"
  shows "wildcardSpec db as t = ([], [])"
  using assms by (auto simp: wildcardSpec_def find_Some_iff split: option.splits)

lemma wildcardSpec_append:
  assumes "\<forall>a \<in> set as. \<not> mapHas (ByName db) (lit ''*.'' @ a)"
  shows "wildcardSpec db (as @ bs) t =
    (if list_ex (node_exists db) as then ([], []) else wildcardSpec db bs t)"
proof (cases "find (node_exists db) as")
  case (Some a)
  then have "a \<in> set as" by (auto simp: find_Some_iff)
  moreover have "list_ex (node_exists db) as" using Some find_None_ex by (metis option.distinct(1))
  ultimately show ?thesis using assms Some by (simp add: wildcardSpec_def find_append)
next
  case None
  then have "\<not> list_ex (node_exists db) as" by (simp add: find_None_ex)
  with None show ?thesis by (simp add: wildcardSpec_def find_append)
qed

lemma wildcardLoop_spec:
  assumes "plain_labels (pre @ cur @ z)" "cur \<noteq> []"
    and "\<forall>a \<in> set (ancestorsTo pre (cur @ z)). \<not> mapHas (ByName db) (lit ''*.'' @ a)"
  shows "wildcardLoop db (fqdn_of (pre @ cur @ z)) (fqdn_of z) t (fqdn_of (cur @ z)) =
    wildcardSpec db (ancestorsTo (pre @ cur) z) t"
  using assms
proof (induction cur arbitrary: pre)
  case (Cons l cur)
  let ?name = "fqdn_of (pre @ (l # cur) @ z)" and ?parent = "fqdn_of (cur @ z)"
  let ?wc = "lit ''*.'' @ ?parent"
  have l: "dot \<notin> set l" using Cons.prems by simp
  have step: "wildcardLoop db ?name (fqdn_of z) t (fqdn_of ((l # cur) @ z)) =
      (if mapHas (ByName db) ?wc
       then (if wildcardBlocked db ?parent ?name then ([], []) else (?wc, LookupByName db ?wc t))
       else if ?parent = fqdn_of z then ([], [])
       else wildcardLoop db ?name (fqdn_of z) t ?parent)"
    using parent_of [OF l, of "cur @ z"]
    by (subst wildcardLoop.simps) (simp add: Let_def del: fqdn_of_Cons)
  have anc: "ancestorsTo (pre @ l # cur) z =
      ancestorsTo pre (l # cur @ z) @ ?parent # ancestorsTo cur z"
    by (simp add: ancestorsTo_append)
  have none: "\<forall>a \<in> set (ancestorsTo pre (l # cur @ z)). \<not> mapHas (ByName db) (lit ''*.'' @ a)"
    using Cons.prems by simp
  show ?case
  proof (cases "mapHas (ByName db) ?wc")
    case True
    have "wildcardBlocked db ?parent ?name = list_ex (node_exists db) (ancestorsTo pre (l # cur @ z))"
      using wildcardBlocked_spec [of "pre @ [l]" "cur @ z" db] Cons.prems by (simp add: ancestorsTo_snoc)
    moreover have "wildcardSpec db (?parent # ancestorsTo cur z) t = (?wc, LookupByName db ?wc t)"
      using True wildcard_parent_exists [OF True] by (simp add: wildcardSpec_def)
    ultimately show ?thesis using True step wildcardSpec_append [OF none] anc by simp
  next
    case False
    show ?thesis
    proof (cases "cur = []")
      case True
      then show ?thesis using False step anc none by (auto intro!: wildcardSpec_none [symmetric])
    next
      case rec: False
      then have "?parent \<noteq> fqdn_of z" using Cons.prems by (simp add: fqdn_of_inj)
      moreover have "wildcardLoop db ?name (fqdn_of z) t ?parent = wildcardSpec db (ancestorsTo (pre @ l # cur) z) t"
        using Cons.IH [of "pre @ [l]"] Cons.prems rec none False by (auto simp: ancestorsTo_snoc)
      ultimately show ?thesis using False step by simp
    qed
  qed
qed simp

subsection \<open>The additional section\<close>

lemma additionalLoop_facts:
  assumes "keeps_dot uni" "names_ok rs"
    and "\<forall>rr \<in> set answers. \<forall>target. additionalTarget (Opts rr) = Some target \<longrightarrow> wf_name target"
  shows "\<exists>extra. additionalLoop uni (NewDB z rs \<lparr> DNSSECEnabled := b \<rparr>) seen answers = Some extra \<and>
    (\<forall>x \<in> set extra. x \<in> set rs \<and> RRtype x \<in> {TypeA, TypeAAAA} \<and>
       (\<exists>rr \<in> set answers. \<exists>target. additionalTarget (Opts rr) = Some target \<and>
          ToLower uni (Name x) = ToLower uni target))"
  using assms(3)
proof (induction answers arbitrary: seen)
  case (Cons a answers)
  then have IH: "\<exists>extra. additionalLoop uni (NewDB z rs \<lparr> DNSSECEnabled := b \<rparr>) s answers = Some extra \<and>
      (\<forall>x \<in> set extra. x \<in> set rs \<and> RRtype x \<in> {TypeA, TypeAAAA} \<and>
        (\<exists>rr \<in> set answers. \<exists>target. additionalTarget (Opts rr) = Some target \<and>
          ToLower uni (Name x) = ToLower uni target))" for s by auto
  show ?case
  proof (cases "additionalTarget (Opts a)")
    case None
    then show ?thesis using IH [of seen] by fastforce
  next
    case (Some target)
    then have "wf_name target" using Cons.prems by auto
    note look = LookupByType_NewDB [OF assms(1) this assms(2)]
    show ?thesis using Some IH [of seen] IH [of "target # seen"]
      by (cases "target \<in> set seen") (fastforce simp: look)+
  qed
qed simp

lemma LookupAdditional_facts:
  assumes "keeps_dot uni" "names_ok rs"
    and "\<forall>rr \<in> set answers. \<forall>target. additionalTarget (Opts rr) = Some target \<longrightarrow> wf_name target"
  shows "\<exists>extra. LookupAdditional uni (NewDB z rs \<lparr> DNSSECEnabled := b \<rparr>) answers t = Some extra \<and>
    (\<forall>x \<in> set extra. x \<in> set rs \<and> RRtype x \<in> {TypeA, TypeAAAA} \<and>
       (\<exists>rr \<in> set answers. \<exists>target. additionalTarget (Opts rr) = Some target \<and>
          ToLower uni (Name x) = ToLower uni target))"
  using additionalLoop_facts [OF assms] by (simp add: LookupAdditional_def)

subsection \<open>Properties\<close>

text \<open>The index by type and the index by name describe the same records: for lower-case
  names that end in a dot, \<open>LookupByType\<close> does not panic and returns exactly what
  \<open>LookupByName\<close> returns, the records of that name and type in their original order.\<close>

theorem indexes_consistent:
  assumes "keeps_dot uni" "wf_name n" "names_ok rs" "lowered uni n"
    and "\<forall>rr \<in> set rs. lowered uni (Name rr)"
  shows "LookupByType uni (NewDB z rs) n t = Some (LookupByName (NewDB z rs) n t)
    \<and> LookupByName (NewDB z rs) n t = filter (\<lambda>rr. Name rr = n \<and> RRtype rr = t) rs"
  using lookups_agree [OF assms, where z = z and b = False and t = t]
    LookupByName_NewDB [where z = z and rs = rs and b = False and n = n and t = t] by simp

definition sample_records :: "RR list" where
  "sample_records =
     [NewRR (lit ''example.'') (RRoptsNS (lit ''ns.example.'')),
      NewRR (lit ''ns.example.'') (RRoptsA [192, 0, 2, 1]),
      NewRR (lit ''*.example.'') (RRoptsA [192, 0, 2, 2]),
      NewRR (lit ''b.a.example.'') (RRoptsA [192, 0, 2, 3])]"

theorem indexes_consistent_witness:
  "LookupByType (\<lambda>s. s) (NewDB (lit ''example.'') sample_records) (lit ''ns.example.'') TypeA =
     Some (LookupByName (NewDB (lit ''example.'') sample_records) (lit ''ns.example.'') TypeA)
   \<and> LookupByName (NewDB (lit ''example.'') sample_records) (lit ''ns.example.'') TypeA =
     filter (\<lambda>rr. Name rr = lit ''ns.example.'' \<and> RRtype rr = TypeA) sample_records"
proof (rule indexes_consistent)
  show "\<forall>rr \<in> set sample_records. lowered (\<lambda>s. s) (Name rr)"
    unfolding Ball_set [symmetric] by code_simp
  have "list_all (\<lambda>rr. wf_name (Name rr)) sample_records" by code_simp
  then show "names_ok sample_records" by (simp add: names_ok_def list_all_iff)
qed (simp, code_simp+)

text \<open>A database survives the JSON form, whatever order the map iteration takes: the slave
  that decodes what the master encoded gets the same zone, the same DNSSEC flag, the same
  number of records, and the same answer, in the same order, to every lookup.\<close>

theorem JSON_roundtrip:
  assumes "db = (NewDB z rs) \<lparr> DNSSECEnabled := b \<rparr>"
    and "w = \<lparr> wZone = z, wRecords = AllRecords ord db, wDNSSECEnabled = b \<rparr>"
    and "dec (enc w) = Some w" and "\<And>m. mset (ord m) = mset m"
  shows "\<exists>db'. UnmarshalJSON dec (MarshalJSON enc ord db) = Some db'
    \<and> Zone db' = Zone db \<and> DNSSECEnabled db' = DNSSECEnabled db \<and> RRCount db' = RRCount db
    \<and> (\<forall>t. mapGet (ByType db') t = mapGet (ByType db) t)
    \<and> (\<forall>n t. LookupByName db' n t = LookupByName db n t)"
proof -
  let ?all = "AllRecords ord db"
  let ?db' = "(NewDB z ?all) \<lparr> DNSSECEnabled := b \<rparr>"
  have "UnmarshalJSON dec (MarshalJSON enc ord db) = Some ?db'"
    using assms by (simp add: UnmarshalJSON_def MarshalJSON_def)
  moreover have "length ?all = length rs"
    using mset_AllRecords [OF assms(4)] assms(1) by (metis size_mset)
  moreover have t: "filter (\<lambda>rr. RRtype rr = t) ?all = filter (\<lambda>rr. RRtype rr = t) rs" for t
    using AllRecords_filter_type [OF assms(4)] assms(1) by simp
  moreover have "filter (\<lambda>rr. Name rr = n \<and> RRtype rr = t) ?all =
      filter (\<lambda>rr. Name rr = n \<and> RRtype rr = t) rs" for n t
    using arg_cong [OF t, of "filter (\<lambda>rr. Name rr = n)" t] by (simp add: conj_commute)
  ultimately show ?thesis
    using assms(1) by (simp add: RRCount_def LookupByName_NewDB by_type.get_NewDB)
qed

theorem JSON_roundtrip_witness:
  "\<exists>db'. UnmarshalJSON Some (MarshalJSON (\<lambda>w. w) rev (NewDB (lit ''example.'') sample_records)) = Some db'
    \<and> LookupByName db' (lit ''ns.example.'') TypeA = [NewRR (lit ''ns.example.'') (RRoptsA [192, 0, 2, 1])]"
proof -
  let ?db = "(NewDB (lit ''example.'') sample_records) \<lparr> DNSSECEnabled := False \<rparr>"
  have db: "?db = NewDB (lit ''example.'') sample_records" by (simp add: NewDB_def)
  obtain db' where "UnmarshalJSON Some (MarshalJSON (\<lambda>w. w) rev ?db) = Some db'"
    "\<forall>n t. LookupByName db' n t = LookupByName ?db n t"
    using JSON_roundtrip [OF refl refl, where dec = Some and enc = "\<lambda>w. w" and ord = rev
      and z = "lit ''example.''" and rs = sample_records and b = False] by auto
  moreover have "LookupByName (NewDB (lit ''example.'') sample_records) (lit ''ns.example.'') TypeA =
      [NewRR (lit ''ns.example.'') (RRoptsA [192, 0, 2, 1])]"
    by code_simp
  ultimately show ?thesis unfolding db by auto
qed

text \<open>C5: \<open>WildcardLookup\<close> finds the wildcard of the closest encloser: for a name below the
  zone apex, the nearest proper ancestor that exists (as an owner or an empty
  non-terminal) decides; if the wildcard below it exists its records of the type are
  returned, else nothing.\<close>

theorem WildcardLookup_closest_encloser:
  assumes "plain_labels (ls @ zls)" "ls \<noteq> []"
  shows "WildcardLookup db (fqdn_of (ls @ zls)) (fqdn_of zls) t =
    (case find (node_exists db) (ancestorsTo ls zls) of
       None \<Rightarrow> ([], [])
     | Some ce \<Rightarrow>
         (if mapHas (ByName db) (lit ''*.'' @ ce)
          then (lit ''*.'' @ ce, LookupByName db (lit ''*.'' @ ce) t) else ([], [])))"
proof -
  have "fqdn_of (ls @ zls) \<noteq> fqdn_of zls" using assms by (simp add: fqdn_of_inj)
  then show ?thesis
    using wildcardLoop_spec [of "[]" ls zls db t] assms
    by (simp add: WildcardLookup_def wildcardSpec_def)
qed

theorem WildcardLookup_closest_encloser_witness:
  "WildcardLookup (NewDB (lit ''example.'') sample_records) (lit ''x.a.example.'') (lit ''example.'') TypeA = ([], [])
   \<and> find (node_exists (NewDB (lit ''example.'') sample_records))
       (ancestorsTo [lit ''x'', lit ''a''] [lit ''example'']) = Some (lit ''a.example.'')"
proof -
  let ?db = "NewDB (lit ''example.'') sample_records"
  have n: "fqdn_of ([lit ''x'', lit ''a''] @ [lit ''example'']) = lit ''x.a.example.''"
    "fqdn_of [lit ''example''] = lit ''example.''" by code_simp+
  have f: "find (node_exists ?db) (ancestorsTo [lit ''x'', lit ''a''] [lit ''example'']) = Some (lit ''a.example.'')"
    and h: "\<not> mapHas (ByName ?db) (lit ''*.'' @ lit ''a.example.'')" by code_simp+
  have "plain_labels ([lit ''x'', lit ''a''] @ [lit ''example''])" by code_simp
  from WildcardLookup_closest_encloser [OF this, of ?db TypeA] show ?thesis
    using f h unfolding n by simp
qed

text \<open>The queried name itself is not examined. In a zone with \<open>*.example.\<close> and
  \<open>b.a.example.\<close> the name \<open>a.example.\<close> exists as an empty non-terminal, for which the
  standard asks an empty answer, but \<open>WildcardLookup\<close> returns the wildcard's records.\<close>

theorem WildcardLookup_ignores_own_ENT:
  "node_exists (NewDB (lit ''example.'') sample_records) (lit ''a.example.'')
   \<and> WildcardLookup (NewDB (lit ''example.'') sample_records) (lit ''a.example.'') (lit ''example.'') TypeA =
       (lit ''*.example.'', [NewRR (lit ''*.example.'') (RRoptsA [192, 0, 2, 2])])"
  by code_simp

text \<open>\<open>LookupAdditional\<close> does not panic and returns only address records of names that the
  answers refer to (CNAME, MX, NS or SRV targets), compared without regard to case.\<close>

theorem LookupAdditional_sound:
  assumes "keeps_dot uni" "names_ok rs"
    and "\<forall>rr \<in> set answers. \<forall>target. additionalTarget (Opts rr) = Some target \<longrightarrow> wf_name target"
  shows "\<exists>extra. LookupAdditional uni (NewDB z rs) answers t = Some extra \<and>
    (\<forall>x \<in> set extra. x \<in> set rs \<and> RRtype x \<in> {TypeA, TypeAAAA} \<and>
       (\<exists>rr \<in> set answers. \<exists>target. additionalTarget (Opts rr) = Some target \<and>
          ToLower uni (Name x) = ToLower uni target))"
  using LookupAdditional_facts [OF assms, where z = z and b = False and t = t] by simp

theorem LookupAdditional_sound_witness:
  "\<exists>extra. LookupAdditional (\<lambda>s. s) (NewDB (lit ''example.'') sample_records) (take 1 sample_records) TypeNS
      = Some extra \<and> set extra \<subseteq> {x. x \<in> set sample_records \<and> RRtype x \<in> {TypeA, TypeAAAA}}"
proof -
  have "list_all (\<lambda>rr. wf_name (Name rr)) sample_records" by code_simp
  then have n: "names_ok sample_records" by (simp add: names_ok_def list_all_iff)
  have "wf_name (lit ''ns.example.'')" by code_simp
  then have "\<forall>rr \<in> set (take 1 sample_records). \<forall>target.
      additionalTarget (Opts rr) = Some target \<longrightarrow> wf_name target"
    by (simp add: sample_records_def NewRR_def additionalTarget_def)
  from LookupAdditional_sound [OF keeps_dot_id n this, of "lit ''example.''" TypeNS]
  show ?thesis by blast
qed

end
