(* ===== verification/Sanity.thy ===== *)
theory Sanity
  imports Zone_DB
begin

text \<open>
  The consistency checks of a zone, after \<^verbatim>\<open>internal/db/sanity.go\<close>. \<open>SanityChecks\<close>
  runs nine checks in order and returns the first error; each check is a definition here. The
  reference is the predicate \<open>sane_zone\<close> on the plain list of records, with CNAME resolution
  as an inductive predicate.
\<close>

datatype sanity_error =
    ErrSanitySOAMissing
  | ErrSanityMultipleSOAs
  | ErrSanitySOAZeroSerial
  | ErrSanitySOAMnameNoNS Domain
  | ErrSanityNSNoAddress Domain
  | ErrSanityCnameAtApex Domain
  | ErrSanityDuplicateCname Domain
  | ErrSanityCnameHasOtherData Domain RRtype
  | ErrSanityCnameSelfReference Domain
  | ErrSanityCnameNoResolve Domain "Domain option"

subsection \<open>The code\<close>

definition cnameCompatibleRRtype :: "RRtype \<Rightarrow> bool" where
  "cnameCompatibleRRtype rrtype \<longleftrightarrow>
     rrtype = TypeCNAME \<or> rrtype = TypeRRSIG \<or> rrtype = TypeNSEC3 \<or> rrtype = TypeNSEC3PARAM"

text \<open>Run the second check when the first finds no error.\<close>

definition andThen :: "'e option go \<Rightarrow> 'e option go \<Rightarrow> 'e option go" where
  "andThen a b = do { r \<leftarrow> a; (case r of Some err \<Rightarrow> Some (Some err) | None \<Rightarrow> b) }"

text \<open>A loop over records that returns the first error.\<close>

fun firstError :: "('a \<Rightarrow> 'e option go) \<Rightarrow> 'a list \<Rightarrow> 'e option go" where
  "firstError chk [] = Some None"
| "firstError chk (x # xs) = andThen (chk x) (firstError chk xs)"

text \<open>The type assertions \<open>Opts.(*rec.RRoptsNS)\<close> and so on: a value of another type panics.\<close>

definition asNS :: "RRopts \<Rightarrow> Domain go" where
  "asNS opts = (case opts of RRoptsNS ns \<Rightarrow> Some ns | _ \<Rightarrow> None)"

definition asCNAME :: "RRopts \<Rightarrow> Domain go" where
  "asCNAME opts = (case opts of RRoptsCNAME cname \<Rightarrow> Some cname | _ \<Rightarrow> None)"

definition asSOA :: "RRopts \<Rightarrow> (Domain \<times> 32 word) go" where
  "asSOA opts = (case opts of RRoptsSOA mname _ serial _ _ _ _ \<Rightarrow> Some (mname, serial) | _ \<Rightarrow> None)"

text \<open>Check 1, and the choice of the SOA record.\<close>

definition checkSOACount :: "RR list \<Rightarrow> sanity_error option" where
  "checkSOACount all =
     (let soaCount = length (filter (\<lambda>rr. RRtype rr = TypeSOA) all)
      in if soaCount = 0 then Some ErrSanitySOAMissing
         else if soaCount > 1 then Some ErrSanityMultipleSOAs
         else None)"

definition selectSOA :: "unilower \<Rightarrow> DB \<Rightarrow> RR list \<Rightarrow> (Domain \<times> 32 word) go" where
  "selectSOA uni db all = do {
     soaRRs \<leftarrow> LookupByType uni db (Zone db) TypeSOA;
     soa \<leftarrow> goindex (if length soaRRs = 0 then take 1 (filter (\<lambda>rr. RRtype rr = TypeSOA) all)
                     else soaRRs) 0;
     asSOA (Opts soa)
   }"

text \<open>Checks 2 and 3: the serial, and an NS record for the primary server.\<close>

definition nsMatches :: "unilower \<Rightarrow> Domain \<Rightarrow> RR \<Rightarrow> bool go" where
  "nsMatches uni mname rr = do {
     ns \<leftarrow> asNS (Opts rr);
     c \<leftarrow> CompareDomain uni ns mname;
     Some (c = 0)
   }"

fun collectNS :: "unilower \<Rightarrow> Domain \<Rightarrow> RR list \<Rightarrow> RR list go" where
  "collectNS uni mname [] = Some []"
| "collectNS uni mname (rr # rrs) = do {
     m \<leftarrow> nsMatches uni mname rr;
     nsRRs \<leftarrow> collectNS uni mname rrs;
     Some (if m then rr # nsRRs else nsRRs)
   }"

definition checkPrimary :: "unilower \<Rightarrow> DB \<Rightarrow> Domain \<Rightarrow> 32 word \<Rightarrow> sanity_error option go" where
  "checkPrimary uni db mname serial =
     (if serial = 0 then Some (Some ErrSanitySOAZeroSerial)
      else do {
        nsRRs \<leftarrow> collectNS uni mname (mapGet (ByType db) TypeNS);
        Some (if length nsRRs = 0 then Some (ErrSanitySOAMnameNoNS mname) else None)
      })"

text \<open>Check 4: every name server has an address.\<close>

definition checkNSAddress :: "unilower \<Rightarrow> DB \<Rightarrow> RR \<Rightarrow> sanity_error option go" where
  "checkNSAddress uni db nsRR = do {
     ns \<leftarrow> asNS (Opts nsRR);
     aRecs \<leftarrow> LookupByType uni db ns TypeA;
     aaaaRecs \<leftarrow> LookupByType uni db ns TypeAAAA;
     Some (if length aRecs = 0 \<and> length aaaaRecs = 0 then Some (ErrSanityNSNoAddress ns) else None)
   }"

text \<open>Checks 5 to 8: CNAME at the apex, duplicate owners, other data, self reference.\<close>

definition checkApexCname :: "unilower \<Rightarrow> DB \<Rightarrow> sanity_error option go" where
  "checkApexCname uni db = do {
     cnames \<leftarrow> LookupByType uni db (Zone db) TypeCNAME;
     Some (if length cnames > 0 then Some (ErrSanityCnameAtApex (Zone db)) else None)
   }"

fun checkDuplicateCname :: "Domain list \<Rightarrow> RR list \<Rightarrow> sanity_error option" where
  "checkDuplicateCname seen [] = None"
| "checkDuplicateCname seen (rr # rrs) =
     (if Name rr \<in> set seen then Some (ErrSanityDuplicateCname (Name rr))
      else checkDuplicateCname (Name rr # seen) rrs)"

fun checkPeers :: "Domain \<Rightarrow> RR list \<Rightarrow> sanity_error option" where
  "checkPeers owner [] = None"
| "checkPeers owner (peer # peers) =
     (if \<not> cnameCompatibleRRtype (RRtype peer) then Some (ErrSanityCnameHasOtherData owner (RRtype peer))
      else checkPeers owner peers)"

definition checkOtherData :: "DB \<Rightarrow> RR \<Rightarrow> sanity_error option go" where
  "checkOtherData db rr = Some (checkPeers (Name rr) (mapGet (ByName db) (Name rr)))"

definition checkSelfReference :: "unilower \<Rightarrow> RR \<Rightarrow> sanity_error option go" where
  "checkSelfReference uni rr = do {
     cname \<leftarrow> asCNAME (Opts rr);
     c \<leftarrow> CompareDomain uni (Name rr) cname;
     Some (if c = 0 then Some (ErrSanityCnameSelfReference (Name rr)) else None)
   }"

text \<open>Check 9. The first argument of the loop is the number of iterations left, \<open>maxDepth - depth\<close>.\<close>

definition inZone :: "DB \<Rightarrow> Domain \<Rightarrow> bool" where
  "inZone db target = HasSuffix target (Zone db)"

fun resolveCname :: "nat \<Rightarrow> unilower \<Rightarrow> DB \<Rightarrow> Domain \<Rightarrow> Domain \<Rightarrow> sanity_error option go" where
  "resolveCname 0 uni db owner target = Some (Some (ErrSanityCnameNoResolve owner None))"
| "resolveCname (Suc n) uni db owner target = do {
     as \<leftarrow> LookupByType uni db target TypeA;
     (if length as > 0 then Some None
      else do {
        aaaas \<leftarrow> LookupByType uni db target TypeAAAA;
        (if length aaaas > 0 then Some None
         else do {
           nextCnames \<leftarrow> LookupByType uni db target TypeCNAME;
           (if length nextCnames = 0 then Some (Some (ErrSanityCnameNoResolve owner (Some target)))
            else do {
              next \<leftarrow> goindex nextCnames 0;
              target' \<leftarrow> asCNAME (Opts next);
              (if \<not> inZone db target' then Some None
               else resolveCname n uni db owner target')
            })
         })
      })
   }"

definition checkResolves :: "unilower \<Rightarrow> DB \<Rightarrow> nat \<Rightarrow> RR \<Rightarrow> sanity_error option go" where
  "checkResolves uni db maxDepth rr = do {
     target \<leftarrow> asCNAME (Opts rr);
     (if \<not> inZone db target then Some None
      else resolveCname maxDepth uni db (Name rr) target)
   }"

definition SanityChecks :: "unilower \<Rightarrow> maporder \<Rightarrow> DB \<Rightarrow> sanity_error option go" where
  "SanityChecks uni ord db =
     (let all = AllRecords ord db; allCnames = mapGet (ByType db) TypeCNAME
      in andThen (Some (checkSOACount all))
          (do {
             (mname, serial) \<leftarrow> selectSOA uni db all;
             andThen (checkPrimary uni db mname serial)
               (andThen (firstError (checkNSAddress uni db) (mapGet (ByType db) TypeNS))
                 (andThen (checkApexCname uni db)
                   (andThen (Some (checkDuplicateCname [] allCnames))
                     (andThen (firstError (checkOtherData db) allCnames)
                       (andThen (firstError (checkSelfReference uni) allCnames)
                         (firstError (checkResolves uni db (length all)) allCnames))))))
           }))"

subsection \<open>The reference\<close>

text \<open>What \<open>NewDB\<close> is given: names end in a dot and are lower case, the type field agrees with the data.\<close>

definition names_in :: "RRopts \<Rightarrow> Domain list" where
  "names_in opts =
     (case opts of
        RRoptsNS d \<Rightarrow> [d] | RRoptsCNAME d \<Rightarrow> [d] | RRoptsPTR d \<Rightarrow> [d] | RRoptsMX _ d \<Rightarrow> [d]
      | RRoptsSRV _ _ _ d \<Rightarrow> [d] | RRoptsSOA m r _ _ _ _ _ \<Rightarrow> [m, r] | _ \<Rightarrow> [])"

definition good_record :: "unilower \<Rightarrow> RR \<Rightarrow> bool" where
  "good_record uni rr \<longleftrightarrow> RRtype rr = RRtype_of (Opts rr) \<and>
     list_all (\<lambda>d. wf_name d \<and> lowered uni d) (Name rr # names_in (Opts rr))"

definition has_address :: "RR list \<Rightarrow> Domain \<Rightarrow> bool" where
  "has_address rs d \<longleftrightarrow> (\<exists>rr \<in> set rs. Name rr = d \<and> (RRtype rr = TypeA \<or> RRtype rr = TypeAAAA))"

inductive resolves :: "Domain \<Rightarrow> RR list \<Rightarrow> Domain \<Rightarrow> bool" for z rs where
  outside: "\<not> HasSuffix t z \<Longrightarrow> resolves z rs t"
| address: "has_address rs t \<Longrightarrow> resolves z rs t"
| hop: "rr \<in> set rs \<Longrightarrow> Name rr = t \<Longrightarrow> Opts rr = RRoptsCNAME t' \<Longrightarrow> resolves z rs t' \<Longrightarrow> resolves z rs t"

definition cnames_of :: "RR list \<Rightarrow> RR list" where
  "cnames_of rs = filter (\<lambda>rr. RRtype rr = TypeCNAME) rs"

definition sane_zone :: "Domain \<Rightarrow> RR list \<Rightarrow> bool" where
  "sane_zone z rs \<longleftrightarrow>
     (\<exists>soa mname rname serial refresh retry expire minimum.
        filter (\<lambda>rr. RRtype rr = TypeSOA) rs = [soa]
        \<and> Opts soa = RRoptsSOA mname rname serial refresh retry expire minimum
        \<and> serial \<noteq> 0 \<and> (\<exists>ns \<in> set rs. Opts ns = RRoptsNS mname))
     \<and> (\<forall>ns \<in> set rs. \<forall>d. Opts ns = RRoptsNS d \<longrightarrow> has_address rs d)
     \<and> (\<forall>c \<in> set (cnames_of rs). Name c \<noteq> z)
     \<and> distinct (map Name (cnames_of rs))
     \<and> (\<forall>c \<in> set (cnames_of rs). \<forall>p \<in> set rs. Name p = Name c \<longrightarrow> cnameCompatibleRRtype (RRtype p))
     \<and> (\<forall>c \<in> set (cnames_of rs). Opts c \<noteq> RRoptsCNAME (Name c))
     \<and> (\<forall>c \<in> set (cnames_of rs). \<forall>d. Opts c = RRoptsCNAME d \<longrightarrow> resolves z rs d)"

subsection \<open>Combining checks\<close>

lemma andThen_ok [simp]: "andThen a b = Some None \<longleftrightarrow> a = Some None \<and> b = Some None"
  by (cases a) (auto simp: andThen_def split: option.splits)

lemma andThen_total: "a \<noteq> None \<Longrightarrow> (a = Some None \<Longrightarrow> b \<noteq> None) \<Longrightarrow> andThen a b \<noteq> None"
  by (cases a) (auto simp: andThen_def split: option.splits)

lemma firstError_ok [simp]: "firstError chk xs = Some None \<longleftrightarrow> (\<forall>x \<in> set xs. chk x = Some None)"
  by (induction xs) auto

lemma firstError_total: "\<forall>x \<in> set xs. chk x \<noteq> None \<Longrightarrow> firstError chk xs \<noteq> None"
  by (induction xs) (simp_all add: andThen_total del: not_None_eq)

subsection \<open>The single checks\<close>

definition good_zone :: "unilower \<Rightarrow> Domain \<Rightarrow> RR list \<Rightarrow> bool" where
  "good_zone uni z rs \<longleftrightarrow> keeps_dot uni \<and> wf_name z \<and> lowered uni z \<and> list_all (good_record uni) rs"

lemma good_zoneD:
  assumes "good_zone uni z rs"
  shows "keeps_dot uni" "wf_name z" "lowered uni z" "names_ok rs" "\<forall>rr \<in> set rs. lowered uni (Name rr)"
    "\<And>rr. rr \<in> set rs \<Longrightarrow> RRtype rr = RRtype_of (Opts rr)"
    "\<And>rr d. rr \<in> set rs \<Longrightarrow> d \<in> set (names_in (Opts rr)) \<Longrightarrow> wf_name d \<and> lowered uni d"
  using assms by (auto simp: good_zone_def good_record_def names_ok_def list_all_iff)

lemma lookup_good:
  assumes "good_zone uni z rs" "wf_name n" "lowered uni n"
  shows "LookupByType uni (NewDB z rs) n t = Some (filter (\<lambda>rr. Name rr = n \<and> RRtype rr = t) rs)"
  using lookups_agree [OF good_zoneD(1) [OF assms(1)] assms(2) good_zoneD(4) [OF assms(1)] assms(3)
      good_zoneD(5) [OF assms(1)], where z = z and b = False and t = t]
    LookupByName_NewDB [where z = z and rs = rs and b = False and n = n and t = t] by simp

lemma compare_good:
  assumes "good_zone uni z rs" "wf_name a" "lowered uni a" "wf_name b" "lowered uni b"
  shows "\<exists>c. CompareDomain uni a b = Some c \<and> (c = 0 \<longleftrightarrow> a = b)"
  using CompareDomain_wf [OF good_zoneD(1) [OF assms(1)] assms(2,4)] assms by (simp add: lowered_def)

lemma collectNS_good:
  assumes "good_zone uni z rs" "set xs \<subseteq> set rs" "\<forall>x \<in> set xs. RRtype x = TypeNS"
    and "wf_name mname" "lowered uni mname"
  shows "collectNS uni mname xs = Some (filter (\<lambda>rr. Opts rr = RRoptsNS mname) xs)"
  using assms(2,3)
proof (induction xs)
  case (Cons x xs)
  then have "x \<in> set rs" "RRtype_of (Opts x) = TypeNS" using good_zoneD(6) [OF assms(1)] by auto
  then obtain d where d: "Opts x = RRoptsNS d" by (auto simp: RRtype_of_cases)
  then have "wf_name d" "lowered uni d"
    using good_zoneD(7) [OF assms(1) \<open>x \<in> set rs\<close>, of d] by (auto simp: names_in_def)
  then obtain c where "CompareDomain uni d mname = Some c" "c = 0 \<longleftrightarrow> d = mname"
    using compare_good [OF assms(1)] assms(4,5) by blast
  with Cons d show ?case by (simp add: nsMatches_def asNS_def)
qed simp

lemma has_address_filter:
  "has_address rs d \<longleftrightarrow> filter (\<lambda>rr. Name rr = d \<and> RRtype rr = TypeA) rs \<noteq> []
     \<or> filter (\<lambda>rr. Name rr = d \<and> RRtype rr = TypeAAAA) rs \<noteq> []"
  by (auto simp: has_address_def filter_empty_conv)

lemma checkNSAddress_good:
  assumes "good_zone uni z rs" "rr \<in> set rs" "Opts rr = RRoptsNS d"
  shows "checkNSAddress uni (NewDB z rs) rr = Some (if has_address rs d then None else Some (ErrSanityNSNoAddress d))"
proof -
  have "wf_name d" "lowered uni d"
    using good_zoneD(7) [OF assms(1,2), of d] assms(3) by (auto simp: names_in_def)
  then show ?thesis
    using assms(3) by (auto simp: checkNSAddress_def asNS_def lookup_good [OF assms(1)] has_address_filter)
qed

lemma checkDuplicateCname_None:
  "checkDuplicateCname seen xs = None \<longleftrightarrow> distinct (map Name xs) \<and> (\<forall>x \<in> set xs. Name x \<notin> set seen)"
  by (induction seen xs rule: checkDuplicateCname.induct) (simp, force simp: image_iff)

lemma checkPeers_None: "checkPeers owner xs = None \<longleftrightarrow> (\<forall>p \<in> set xs. cnameCompatibleRRtype (RRtype p))"
  by (induction owner xs rule: checkPeers.induct) auto

lemma checkSelfReference_good:
  assumes "good_zone uni z rs" "rr \<in> set rs" "Opts rr = RRoptsCNAME d"
  shows "checkSelfReference uni rr =
    Some (if Name rr = d then Some (ErrSanityCnameSelfReference (Name rr)) else None)"
proof -
  have "wf_name d" "lowered uni d" "wf_name (Name rr)" "lowered uni (Name rr)"
    using good_zoneD(7) [OF assms(1,2), of d] good_zoneD(4,5) [OF assms(1)] assms(2,3)
    by (auto simp: names_in_def names_ok_def)
  then obtain c where "CompareDomain uni (Name rr) d = Some c" "c = 0 \<longleftrightarrow> Name rr = d"
    using compare_good [OF assms(1)] by blast
  then show ?thesis using assms(3) by (simp add: checkSelfReference_def asCNAME_def)
qed

subsection \<open>CNAME chains\<close>

lemma resolveCname_step:
  assumes "good_zone uni z rs" "wf_name t" "lowered uni t"
  shows "resolveCname (Suc n) uni (NewDB z rs) owner t =
    (if has_address rs t then Some None
     else (case filter (\<lambda>rr. Name rr = t \<and> RRtype rr = TypeCNAME) rs of
             [] \<Rightarrow> Some (Some (ErrSanityCnameNoResolve owner (Some t)))
           | c # cs \<Rightarrow> (let t' = Cname (Opts c) in
               if \<not> HasSuffix t' z then Some None else resolveCname n uni (NewDB z rs) owner t')))"
proof (cases "filter (\<lambda>rr. Name rr = t \<and> RRtype rr = TypeCNAME) rs")
  case (Cons c cs)
  then have "c \<in> set rs" "RRtype c = TypeCNAME" by (auto dest: filter_eq_ConsD)
  then obtain d where "Opts c = RRoptsCNAME d"
    using good_zoneD(6) [OF assms(1)] by (auto simp: RRtype_of_cases)
  with Cons show ?thesis
    by (simp add: lookup_good [OF assms] has_address_filter asCNAME_def inZone_def Let_def)
qed (simp add: lookup_good [OF assms] has_address_filter)

lemma cname_record:
  assumes "good_zone uni z rs" "filter (\<lambda>rr. Name rr = t \<and> RRtype rr = TypeCNAME) rs = c # cs"
  shows "c \<in> set rs" "Name c = t" "Opts c = RRoptsCNAME (Cname (Opts c))"
    "wf_name (Cname (Opts c))" "lowered uni (Cname (Opts c))"
proof -
  show c: "c \<in> set rs" "Name c = t" using assms(2) by (auto dest: filter_eq_ConsD)
  have "RRtype c = TypeCNAME" using assms(2) by (auto dest: filter_eq_ConsD)
  then obtain d where d: "Opts c = RRoptsCNAME d"
    using good_zoneD(6) [OF assms(1) c(1)] by (auto simp: RRtype_of_cases)
  then show "Opts c = RRoptsCNAME (Cname (Opts c))" by simp
  show "wf_name (Cname (Opts c))" "lowered uni (Cname (Opts c))"
    using good_zoneD(7) [OF assms(1) c(1), of d] d by (auto simp: names_in_def)
qed

lemma resolveCname_total:
  assumes "good_zone uni z rs" "wf_name t" "lowered uni t"
  shows "resolveCname n uni (NewDB z rs) owner t \<noteq> None"
  using assms(2,3)
proof (induction n arbitrary: t)
  case (Suc n)
  show ?case
  proof (cases "filter (\<lambda>rr. Name rr = t \<and> RRtype rr = TypeCNAME) rs")
    case (Cons c cs)
    then have "resolveCname n uni (NewDB z rs) owner (Cname (Opts c)) \<noteq> None"
      using Suc.IH cname_record(4,5) [OF assms(1)] by blast
    with Cons show ?thesis unfolding resolveCname_step [OF assms(1) Suc.prems] by (simp add: Let_def)
  qed (simp add: resolveCname_step [OF assms(1) Suc.prems] del: resolveCname.simps)
qed simp

lemma resolveCname_sound:
  assumes "good_zone uni z rs" "wf_name t" "lowered uni t"
    and "resolveCname n uni (NewDB z rs) owner t = Some None"
  shows "resolves z rs t"
  using assms(2-)
proof (induction n arbitrary: t)
  case (Suc n)
  show ?case
  proof (cases "has_address rs t")
    case False
    then obtain c cs where c: "filter (\<lambda>rr. Name rr = t \<and> RRtype rr = TypeCNAME) rs = c # cs"
      using Suc.prems(3) unfolding resolveCname_step [OF assms(1) Suc.prems(1,2)]
      by (auto split: list.splits)
    note r = cname_record [OF assms(1) c]
    have "\<not> HasSuffix (Cname (Opts c)) z \<or> resolveCname n uni (NewDB z rs) owner (Cname (Opts c)) = Some None"
      using Suc.prems(3) False c unfolding resolveCname_step [OF assms(1) Suc.prems(1,2)]
      by (auto simp: Let_def split: if_splits)
    then have "resolves z rs (Cname (Opts c))" using Suc.IH r by (auto intro: resolves.outside)
    then show ?thesis using r(1-3) by (auto intro: resolves.hop)
  qed (rule resolves.address)
qed simp

text \<open>The number of hops a resolving name needs.\<close>

fun resolves_in :: "Domain \<Rightarrow> RR list \<Rightarrow> nat \<Rightarrow> Domain \<Rightarrow> bool" where
  "resolves_in z rs 0 t \<longleftrightarrow> \<not> HasSuffix t z \<or> has_address rs t"
| "resolves_in z rs (Suc n) t \<longleftrightarrow> HasSuffix t z \<and> \<not> has_address rs t \<and>
     (\<exists>c \<in> set rs. \<exists>t'. Name c = t \<and> Opts c = RRoptsCNAME t' \<and> resolves_in z rs n t')"

lemma resolves_hops: "resolves z rs t \<Longrightarrow> \<exists>n. resolves_in z rs n t"
proof (induction rule: resolves.induct)
  case (hop rr t t')
  then obtain n where n: "resolves_in z rs n t'" by blast
  show ?case
  proof (cases "\<not> HasSuffix t z \<or> has_address rs t")
    case True
    then have "resolves_in z rs 0 t" by simp
    then show ?thesis ..
  next
    case False
    with hop n have "resolves_in z rs (Suc n) t" by auto
    then show ?thesis ..
  qed
qed (auto intro: exI [of _ 0])

text \<open>With distinct owners the record of a hop, and so the number of hops, is unique.\<close>

definition one_cname :: "RR list \<Rightarrow> bool" where
  "one_cname rs \<longleftrightarrow> (\<forall>c \<in> set rs. \<forall>c' \<in> set rs. \<forall>d d'. Name c = Name c' \<longrightarrow>
     Opts c = RRoptsCNAME d \<longrightarrow> Opts c' = RRoptsCNAME d' \<longrightarrow> d = d')"

lemma resolves_in_unique:
  "one_cname rs \<Longrightarrow> resolves_in z rs n t \<Longrightarrow> resolves_in z rs m t \<Longrightarrow> n = m"
proof (induction n arbitrary: m t)
  case 0
  then show ?case by (cases m) auto
next
  case (Suc n)
  then obtain k where m: "m = Suc k" by (cases m) auto
  from Suc.prems obtain c t' where c: "c \<in> set rs" "Name c = t" "Opts c = RRoptsCNAME t'" "resolves_in z rs n t'"
    by auto
  from Suc.prems m obtain c2 t2 where c2: "c2 \<in> set rs" "Name c2 = t" "Opts c2 = RRoptsCNAME t2"
    "resolves_in z rs k t2" by auto
  have "t' = t2" using Suc.prems(1) c(1-3) c2(1-3) unfolding one_cname_def by blast
  then have "n = k" using Suc.IH [OF Suc.prems(1) c(4)] c2(4) by simp
  then show ?case using m by simp
qed

lemma resolves_in_below:
  "resolves_in z rs n t \<Longrightarrow> k < n \<Longrightarrow>
    \<exists>c \<in> set (filter (\<lambda>rr. \<exists>d. Opts rr = RRoptsCNAME d) rs). \<exists>d. Opts c = RRoptsCNAME d \<and> resolves_in z rs k d"
proof (induction n arbitrary: t)
  case (Suc n)
  from Suc.prems obtain c t' where c: "c \<in> set rs" "Opts c = RRoptsCNAME t'" "resolves_in z rs n t'" by auto
  show ?case
  proof (cases "k = n")
    case True
    with c show ?thesis by auto
  next
    case False
    then have "k < n" using Suc.prems(2) by simp
    with Suc.IH [OF c(3)] show ?thesis .
  qed
qed simp

lemma hops_bound:
  assumes "one_cname rs" "resolves_in z rs n t"
  shows "n \<le> length (filter (\<lambda>rr. \<exists>d. Opts rr = RRoptsCNAME d) rs)"
proof -
  let ?C = "filter (\<lambda>rr. \<exists>d. Opts rr = RRoptsCNAME d) rs"
  let ?rank = "\<lambda>c. THE k. resolves_in z rs k (Cname (Opts c))"
  have "{0..<n} \<subseteq> ?rank ` set ?C"
  proof
    fix k assume "k \<in> {0..<n}"
    then obtain c d where c: "c \<in> set ?C" "Opts c = RRoptsCNAME d" "resolves_in z rs k d"
      using resolves_in_below [OF assms(2), of k] by (metis atLeastLessThan_iff)
    have "?rank c = k"
    proof (rule the_equality)
      show "resolves_in z rs k (Cname (Opts c))" using c(2,3) by simp
    next
      fix j assume "resolves_in z rs j (Cname (Opts c))"
      then show "j = k" using resolves_in_unique [OF assms(1), of z j d k] c(2,3) by simp
    qed
    then show "k \<in> ?rank ` set ?C" using c(1) by (rule image_eqI [OF sym])
  qed
  then have "card {0..<n} \<le> card (?rank ` set ?C)" by (intro card_mono) auto
  also have "\<dots> \<le> card (set ?C)" by (rule card_image_le) simp
  also have "\<dots> \<le> length ?C" by (rule card_length)
  finally show ?thesis by simp
qed

lemma resolveCname_complete:
  assumes "good_zone uni z rs" "one_cname rs" "wf_name t" "lowered uni t"
    and "resolves_in z rs n t" "n < N" "HasSuffix t z"
  shows "resolveCname N uni (NewDB z rs) owner t = Some None"
  using assms(3-)
proof (induction n arbitrary: N t)
  case 0
  then obtain N' where N: "N = Suc N'" by (cases N) auto
  show ?case using 0 unfolding N resolveCname_step [OF assms(1) 0(1,2)] by simp
next
  case (Suc n)
  then obtain N' where N: "N = Suc N'" "n < N'" by (cases N) auto
  from Suc.prems obtain c0 t' where c0: "c0 \<in> set rs" "Name c0 = t" "Opts c0 = RRoptsCNAME t'"
    "resolves_in z rs n t'" "\<not> has_address rs t" by auto
  then have "c0 \<in> set (filter (\<lambda>rr. Name rr = t \<and> RRtype rr = TypeCNAME) rs)"
    using good_zoneD(6) [OF assms(1)] by simp
  then obtain c cs where c: "filter (\<lambda>rr. Name rr = t \<and> RRtype rr = TypeCNAME) rs = c # cs"
    by (metis empty_iff list.exhaust list.set(1))
  note r = cname_record [OF assms(1) c]
  have "Cname (Opts c) = t'" using assms(2) c0 r(1-3) unfolding one_cname_def by metis
  then have "\<not> HasSuffix t' z \<or> resolveCname N' uni (NewDB z rs) owner t' = Some None"
    using Suc.IH [of t' N'] r(4,5) c0(4) N by auto
  then show ?case
    using \<open>Cname (Opts c) = t'\<close> c c0(5) unfolding N resolveCname_step [OF assms(1) Suc.prems(1,2)]
    by (auto simp: Let_def)
qed

subsection \<open>All checks together\<close>

lemma soa_record:
  assumes "good_zone uni z rs" "filter (\<lambda>rr. RRtype rr = TypeSOA) rs = [soa]"
  obtains mname rname serial refresh retry expire minimum
  where "Opts soa = RRoptsSOA mname rname serial refresh retry expire minimum"
    "wf_name mname" "lowered uni mname"
proof -
  have "soa \<in> set (filter (\<lambda>rr. RRtype rr = TypeSOA) rs)" using assms(2) by simp
  then have soa: "soa \<in> set rs" "RRtype soa = TypeSOA" by auto
  then obtain m r a b c d e where o: "Opts soa = RRoptsSOA m r a b c d e"
    using good_zoneD(6) [OF assms(1) soa(1)] by (auto simp: RRtype_of_cases)
  then show thesis
    using that good_zoneD(7) [OF assms(1) soa(1), of m] by (simp add: names_in_def)
qed

lemma selectSOA_good:
  assumes "good_zone uni z rs" "filter (\<lambda>rr. RRtype rr = TypeSOA) rs = [soa]"
    and "filter (\<lambda>rr. RRtype rr = TypeSOA) all = [soa]"
  shows "selectSOA uni (NewDB z rs) all = asSOA (Opts soa)"
proof -
  have "filter (\<lambda>rr. Name rr = z \<and> RRtype rr = TypeSOA) rs =
      filter (\<lambda>rr. Name rr = z) (filter (\<lambda>rr. RRtype rr = TypeSOA) rs)"
    by (simp add: conj_commute)
  also have "\<dots> = (if Name soa = z then [soa] else [])" by (simp add: assms(2))
  finally show ?thesis
    using assms by (simp add: selectSOA_def lookup_good [OF assms(1)] good_zoneD [OF assms(1)])
qed

lemma checkPrimary_good:
  assumes "good_zone uni z rs" "wf_name mname" "lowered uni mname"
  shows "checkPrimary uni (NewDB z rs) mname serial \<noteq> None
    \<and> (checkPrimary uni (NewDB z rs) mname serial = Some None \<longleftrightarrow>
         serial \<noteq> 0 \<and> (\<exists>ns \<in> set rs. Opts ns = RRoptsNS mname))"
proof -
  have "collectNS uni mname (filter (\<lambda>rr. RRtype rr = TypeNS) rs) =
      Some (filter (\<lambda>rr. Opts rr = RRoptsNS mname) (filter (\<lambda>rr. RRtype rr = TypeNS) rs))"
    by (rule collectNS_good [OF assms(1)]) (use assms in auto)
  moreover have "filter (\<lambda>rr. Opts rr = RRoptsNS mname) (filter (\<lambda>rr. RRtype rr = TypeNS) rs) \<noteq> [] \<longleftrightarrow>
      (\<exists>ns \<in> set rs. Opts ns = RRoptsNS mname)"
    using good_zoneD(6) [OF assms(1)] by (force simp: filter_empty_conv)
  ultimately show ?thesis by (auto simp: checkPrimary_def by_type.get_NewDB)
qed

lemma checkApexCname_good:
  assumes "good_zone uni z rs"
  shows "checkApexCname uni (NewDB z rs) \<noteq> None
    \<and> (checkApexCname uni (NewDB z rs) = Some None \<longleftrightarrow> (\<forall>c \<in> set (cnames_of rs). Name c \<noteq> z))"
  using good_zoneD(2,3) [OF assms]
  by (auto simp: checkApexCname_def lookup_good [OF assms] cnames_of_def filter_empty_conv)

lemma checkOtherData_good:
  "checkOtherData (NewDB z rs) c = Some None \<longleftrightarrow>
     (\<forall>p \<in> set rs. Name p = Name c \<longrightarrow> cnameCompatibleRRtype (RRtype p))"
  by (auto simp: checkOtherData_def checkPeers_None by_name.get_NewDB)

lemma cname_opts:
  assumes "good_zone uni z rs" "c \<in> set (cnames_of rs)"
  obtains d where "c \<in> set rs" "Opts c = RRoptsCNAME d" "wf_name d" "lowered uni d"
proof -
  have c: "c \<in> set rs" "RRtype_of (Opts c) = TypeCNAME"
    using assms(2) good_zoneD(6) [OF assms(1), of c] by (auto simp: cnames_of_def)
  then obtain d where "Opts c = RRoptsCNAME d" by (auto simp: RRtype_of_cases)
  with that [of d] c(1) good_zoneD(7) [OF assms(1) c(1), of d] show thesis by (simp add: names_in_def)
qed

lemma one_cname_distinct:
  assumes "good_zone uni z rs" "distinct (map Name (cnames_of rs))"
  shows "one_cname rs"
  unfolding one_cname_def
proof (intro ballI allI impI)
  fix c c' d d'
  assume c: "c \<in> set rs" "c' \<in> set rs" "Name c = Name c'" "Opts c = RRoptsCNAME d" "Opts c' = RRoptsCNAME d'"
  then have "c \<in> set (cnames_of rs)" "c' \<in> set (cnames_of rs)"
    using good_zoneD(6) [OF assms(1)] by (auto simp: cnames_of_def)
  then have "c = c'" using assms(2) c(3) by (auto simp: distinct_map dest: inj_onD)
  then show "d = d'" using c by simp
qed

lemma checkResolves_good:
  assumes "good_zone uni z rs" "one_cname rs" "c \<in> set (cnames_of rs)"
    and "filter (\<lambda>rr. RRtype rr = TypeSOA) rs = [soa]"
  shows "checkResolves uni (NewDB z rs) (length rs) c \<noteq> None
    \<and> (checkResolves uni (NewDB z rs) (length rs) c = Some None \<longleftrightarrow>
         (\<forall>d. Opts c = RRoptsCNAME d \<longrightarrow> resolves z rs d))"
proof -
  obtain d where d: "c \<in> set rs" "Opts c = RRoptsCNAME d" "wf_name d" "lowered uni d"
    using cname_opts [OF assms(1,3)] .
  let ?C = "filter (\<lambda>rr. \<exists>d. Opts rr = RRoptsCNAME d) rs"
  have "soa \<in> set (filter (\<lambda>rr. RRtype rr = TypeSOA) rs)" using assms(4) by simp
  then have soa: "soa \<in> set rs" "RRtype soa = TypeSOA" by auto
  then have "\<not> (\<exists>d. Opts soa = RRoptsCNAME d)" using good_zoneD(6) [OF assms(1) soa(1)] by auto
  with soa(1) have lt: "length ?C < length rs" by (rule length_filter_less)
  have "resolveCname (length rs) uni (NewDB z rs) (Name c) d = Some None" if r: "resolves z rs d" and s: "HasSuffix d z"
  proof -
    obtain n where n: "resolves_in z rs n d" using resolves_hops [OF r] by blast
    then have "n < length rs" using hops_bound [OF assms(2) n] lt by simp
    with n s d show ?thesis using resolveCname_complete [OF assms(1,2)] by blast
  qed
  moreover have "resolves z rs d" if "\<not> HasSuffix d z" using that by (rule resolves.outside)
  ultimately show ?thesis
    using d resolveCname_total [OF assms(1) d(3,4)] resolveCname_sound [OF assms(1) d(3,4)]
    by (auto simp: checkResolves_def asCNAME_def inZone_def)
qed

lemma all_NSAddress_good:
  assumes "good_zone uni z rs"
  shows "firstError (checkNSAddress uni (NewDB z rs)) (filter (\<lambda>rr. RRtype rr = TypeNS) rs) \<noteq> None"
    and "firstError (checkNSAddress uni (NewDB z rs)) (filter (\<lambda>rr. RRtype rr = TypeNS) rs) = Some None \<longleftrightarrow>
        (\<forall>ns \<in> set rs. \<forall>d. Opts ns = RRoptsNS d \<longrightarrow> has_address rs d)"
proof -
  have n: "\<exists>d. Opts x = RRoptsNS d \<and> checkNSAddress uni (NewDB z rs) x =
      Some (if has_address rs d then None else Some (ErrSanityNSNoAddress d))"
    if "x \<in> set rs" "RRtype x = TypeNS" for x
    using that good_zoneD(6) [OF assms that(1)] checkNSAddress_good [OF assms that(1)]
    by (auto simp: RRtype_of_cases)
  then show "firstError (checkNSAddress uni (NewDB z rs)) (filter (\<lambda>rr. RRtype rr = TypeNS) rs) \<noteq> None"
    by (intro firstError_total) force
  show "firstError (checkNSAddress uni (NewDB z rs)) (filter (\<lambda>rr. RRtype rr = TypeNS) rs) = Some None \<longleftrightarrow>
        (\<forall>ns \<in> set rs. \<forall>d. Opts ns = RRoptsNS d \<longrightarrow> has_address rs d)"
    using n good_zoneD(6) [OF assms] by (force split: if_splits)
qed

lemma all_SelfReference_good:
  assumes "good_zone uni z rs"
  shows "firstError (checkSelfReference uni) (cnames_of rs) \<noteq> None"
    and "firstError (checkSelfReference uni) (cnames_of rs) = Some None \<longleftrightarrow>
        (\<forall>c \<in> set (cnames_of rs). Opts c \<noteq> RRoptsCNAME (Name c))"
proof -
  have s: "\<exists>d. Opts x = RRoptsCNAME d \<and> checkSelfReference uni x =
      Some (if Name x = d then Some (ErrSanityCnameSelfReference (Name x)) else None)"
    if "x \<in> set (cnames_of rs)" for x
    using cname_opts [OF assms that] checkSelfReference_good [OF assms] by metis
  then show "firstError (checkSelfReference uni) (cnames_of rs) \<noteq> None"
    by (intro firstError_total) force
  show "firstError (checkSelfReference uni) (cnames_of rs) = Some None \<longleftrightarrow>
        (\<forall>c \<in> set (cnames_of rs). Opts c \<noteq> RRoptsCNAME (Name c))"
    using s by (force split: if_splits)
qed

lemma SanityChecks_code:
  assumes g: "good_zone uni z rs" and ord: "\<And>m. mset (ord m) = mset m"
    and soa: "filter (\<lambda>rr. RRtype rr = TypeSOA) rs = [soa]"
    and o: "Opts soa = RRoptsSOA m r se a b c d"
  shows "SanityChecks uni ord (NewDB z rs) = andThen (checkPrimary uni (NewDB z rs) m se)
      (andThen (firstError (checkNSAddress uni (NewDB z rs)) (filter (\<lambda>rr. RRtype rr = TypeNS) rs))
        (andThen (checkApexCname uni (NewDB z rs))
          (andThen (Some (checkDuplicateCname [] (cnames_of rs)))
            (andThen (firstError (checkOtherData (NewDB z rs)) (cnames_of rs))
              (andThen (firstError (checkSelfReference uni) (cnames_of rs))
                (firstError (checkResolves uni (NewDB z rs) (length rs)) (cnames_of rs)))))))"
proof -
  let ?all = "AllRecords ord (NewDB z rs)"
  have soas: "filter (\<lambda>rr. RRtype rr = TypeSOA) ?all = [soa]"
    using AllRecords_filter_type [OF ord, where z = z and rs = rs and b = False] soa by simp
  have len: "length ?all = length rs"
    using mset_eq_length [OF mset_AllRecords [OF ord, where z = z and rs = rs and b = False]] by simp
  have sel: "selectSOA uni (NewDB z rs) ?all = Some (m, se)"
    using selectSOA_good [OF g soa soas] o by (simp add: asSOA_def)
  have cnt: "checkSOACount ?all = None" by (simp add: checkSOACount_def soas)
  have "mapGet (ByType (NewDB z rs)) TypeCNAME = cnames_of rs"
    and "mapGet (ByType (NewDB z rs)) TypeNS = filter (\<lambda>rr. RRtype rr = TypeNS) rs"
    by (simp_all only: by_type.get_NewDB cnames_of_def)
  then show ?thesis
    by (simp only: SanityChecks_def Let_def cnt andThen_def [of "Some None"] sel len
      bind.simps option.case prod.case)
qed

lemma SanityChecks_soa:
  assumes "\<And>m. mset (ord m) = mset m" "\<nexists>soa. filter (\<lambda>rr. RRtype rr = TypeSOA) rs = [soa]"
  shows "\<exists>err. SanityChecks uni ord (NewDB z rs) = Some (Some err)"
proof -
  have soas: "filter (\<lambda>rr. RRtype rr = TypeSOA) (AllRecords ord (NewDB z rs)) =
      filter (\<lambda>rr. RRtype rr = TypeSOA) rs"
    using AllRecords_filter_type [OF assms(1), where z = z and rs = rs and b = False] by simp
  have "length (filter (\<lambda>rr. RRtype rr = TypeSOA) rs) \<noteq> 1"
    using assms(2) by (metis One_nat_def length_0_conv length_Suc_conv)
  then have "checkSOACount (AllRecords ord (NewDB z rs)) \<noteq> None"
    unfolding checkSOACount_def soas Let_def
    by (cases "filter (\<lambda>rr. RRtype rr = TypeSOA) rs") (auto simp: neq_Nil_conv)
  then obtain err where "checkSOACount (AllRecords ord (NewDB z rs)) = Some err" by blast
  then show ?thesis by (simp add: SanityChecks_def Let_def andThen_def)
qed

lemma SanityChecks_good:
  assumes g: "good_zone uni z rs" and ord: "\<And>m. mset (ord m) = mset m"
  shows "SanityChecks uni ord (NewDB z rs) \<noteq> None
    \<and> (SanityChecks uni ord (NewDB z rs) = Some None \<longleftrightarrow> sane_zone z rs)"
proof (cases "\<exists>soa. filter (\<lambda>rr. RRtype rr = TypeSOA) rs = [soa]")
  case False
  then have "\<not> sane_zone z rs" by (auto simp: sane_zone_def)
  with SanityChecks_soa [OF ord, of rs uni z] False show ?thesis by auto
next
  case True
  then obtain soa where soa: "filter (\<lambda>rr. RRtype rr = TypeSOA) rs = [soa]" by blast
  obtain m r se a b c d where o: "Opts soa = RRoptsSOA m r se a b c d" "wf_name m" "lowered uni m"
    using soa_record [OF g soa] .
  note code = SanityChecks_code [OF g ord soa o(1)]
  note p = checkPrimary_good [OF g o(2,3), of se] and ap = checkApexCname_good [OF g]
    and n = all_NSAddress_good [OF g] and s = all_SelfReference_good [OF g]
  have od: "firstError (checkOtherData (NewDB z rs)) (cnames_of rs) \<noteq> None"
    by (rule firstError_total) (simp add: checkOtherData_def)
  have re: "one_cname rs \<Longrightarrow> x \<in> set (cnames_of rs) \<Longrightarrow> checkResolves uni (NewDB z rs) (length rs) x \<noteq> None
      \<and> (checkResolves uni (NewDB z rs) (length rs) x = Some None \<longleftrightarrow>
           (\<forall>d. Opts x = RRoptsCNAME d \<longrightarrow> resolves z rs d))" for x
    using checkResolves_good [OF g _ _ soa] by blast
  have dup: "Some (checkDuplicateCname [] (cnames_of rs)) = Some None \<longleftrightarrow> distinct (map Name (cnames_of rs))"
    by (simp add: checkDuplicateCname_None)
  have one: "one_cname rs" if "distinct (map Name (cnames_of rs))" using one_cname_distinct [OF g that] .
  have rl: "firstError (checkResolves uni (NewDB z rs) (length rs)) (cnames_of rs) \<noteq> None"
    if "distinct (map Name (cnames_of rs))"
    by (rule firstError_total) (use re one [OF that] in blast)
  have "SanityChecks uni ord (NewDB z rs) \<noteq> None"
    unfolding code by (intro andThen_total) (use p ap n(1) s(1) od dup rl in blast)+
  moreover have "SanityChecks uni ord (NewDB z rs) = Some None \<longleftrightarrow> sane_zone z rs"
  proof -
    have "sane_zone z rs \<longleftrightarrow> (se \<noteq> 0 \<and> (\<exists>ns \<in> set rs. Opts ns = RRoptsNS m))
       \<and> (\<forall>ns \<in> set rs. \<forall>d. Opts ns = RRoptsNS d \<longrightarrow> has_address rs d)
       \<and> (\<forall>c \<in> set (cnames_of rs). Name c \<noteq> z)
       \<and> distinct (map Name (cnames_of rs))
       \<and> (\<forall>c \<in> set (cnames_of rs). checkOtherData (NewDB z rs) c = Some None)
       \<and> (\<forall>c \<in> set (cnames_of rs). Opts c \<noteq> RRoptsCNAME (Name c))
       \<and> (\<forall>c \<in> set (cnames_of rs). \<forall>d. Opts c = RRoptsCNAME d \<longrightarrow> resolves z rs d)"
      unfolding sane_zone_def checkOtherData_good using soa o(1) by simp
    moreover have "(\<forall>c \<in> set (cnames_of rs). \<forall>d. Opts c = RRoptsCNAME d \<longrightarrow> resolves z rs d) \<longleftrightarrow>
        firstError (checkResolves uni (NewDB z rs) (length rs)) (cnames_of rs) = Some None"
      if "distinct (map Name (cnames_of rs))"
      unfolding firstError_ok using re [OF one [OF that]] by blast
    ultimately show ?thesis
      unfolding code andThen_ok dup n(2) s(2) firstError_ok [of "checkOtherData (NewDB z rs)"]
      using p ap by blast
  qed
  ultimately show ?thesis ..
qed

subsection \<open>Properties\<close>

text \<open>C1: On records as the program makes them (lower-case names ending in a dot, type field
  matching the data) \<open>SanityChecks\<close> never panics, and it accepts the zone exactly when:
  there is one SOA, with non-zero serial and an NS record naming its primary; every name
  server in the zone has an address; no CNAME is at the apex, owners of CNAMEs are distinct
  and carry nothing else but DNSSEC data, no CNAME points to itself; and every CNAME chain
  ends at an address or leaves the zone. In particular the depth limit of the chain loop
  rejects no zone without a cycle.\<close>

theorem SanityChecks_decides_sane_zone:
  assumes "good_zone uni z rs" and "\<And>m. mset (ord m) = mset m"
  shows "SanityChecks uni ord (NewDB z rs) \<noteq> None
    \<and> (SanityChecks uni ord (NewDB z rs) = Some None \<longleftrightarrow> sane_zone z rs)"
  using assms by (rule SanityChecks_good)

definition sane_records :: "RR list" where
  "sane_records =
     [NewRR (lit ''example.'') (RRoptsSOA (lit ''ns.example.'') (lit ''admin.example.'') 1 2 3 4 5),
      NewRR (lit ''example.'') (RRoptsNS (lit ''ns.example.'')),
      NewRR (lit ''ns.example.'') (RRoptsA [192, 0, 2, 1]),
      NewRR (lit ''www.example.'') (RRoptsCNAME (lit ''web.example.'')),
      NewRR (lit ''web.example.'') (RRoptsCNAME (lit ''ns.example.''))]"

theorem SanityChecks_decides_sane_zone_witness: "sane_zone (lit ''example.'') sane_records"
proof -
  have "list_all (good_record (\<lambda>s. s)) sane_records" "wf_name (lit ''example.'')" "lowered (\<lambda>s. s) (lit ''example.'')"
    by code_simp+
  then have "good_zone (\<lambda>s. s) (lit ''example.'') sane_records" by (simp add: good_zone_def)
  moreover have "SanityChecks (\<lambda>s. s) (\<lambda>m. m) (NewDB (lit ''example.'') sane_records) = Some None"
    by code_simp
  ultimately show ?thesis
    using SanityChecks_decides_sane_zone [of "\<lambda>s. s" "lit ''example.''" sane_records "\<lambda>m. m"] by simp
qed

text \<open>The zone test of the CNAME check compares text suffixes, not labels: a CNAME to
  \<open>www.notexample.\<close>, which is outside the zone \<open>example.\<close>, counts as inside, and the
  zone is rejected because the target does not resolve.\<close>

theorem SanityChecks_suffix_not_label:
  "inZone (NewDB (lit ''example.'') rs) (lit ''www.notexample.'')
   \<and> SanityChecks (\<lambda>s. s) (\<lambda>m. m)
       (NewDB (lit ''example.'')
         (take 3 sane_records @ [NewRR (lit ''www.example.'') (RRoptsCNAME (lit ''www.notexample.''))]))
     = Some (Some (ErrSanityCnameNoResolve (lit ''www.example.'') (Some (lit ''www.notexample.''))))"
proof
  have "HasSuffix (lit ''www.notexample.'') (lit ''example.'')" by code_simp
  then show "inZone (NewDB (lit ''example.'') rs) (lit ''www.notexample.'')" by (simp add: inZone_def)
qed code_simp

end
