(* ===== verification/Config.thy ===== *)
theory Config
  imports Complex_Main Domain_Name
begin

text \<open>
  The configuration of the system, after the structs of \<^verbatim>\<open>internal/crd/crd.go\<close>:
  one \<open>record\<close> per struct, with the name of the struct's section in front of a field whose
  Go name several structs share. The components read their settings from it.
\<close>

record RFC2136Config =
  rfcListenPort :: int
  TSIGSecret :: gostring
  TSIGName :: gostring

record KeyRef =
  SecretRef :: gostring

record DNSSECConfig =
  Keys :: "KeyRef list"
  RRSIGValidityWindow :: gostring

record GlobalConfig =
  globalZone :: Domain
  LogLevel :: gostring

record MasterConfig =
  masterDiscoveryRecord :: gostring
  ResignInterval :: gostring
  MaxRecords :: int

record SlaveConfig =
  MasterAddr :: gostring
  PollInterval :: gostring
  slaveListenPort :: int
  SnapshotLocation :: gostring

record MaxConnectionsConfig =
  connTCP :: int
  connDoH :: int
  connDoT :: int

record RateLimitConfig =
  Enabled :: bool
  rlBurstSize :: int
  rlRatePerSec :: real
  rlSlipRatio :: int
  rlMaxBuckets :: int
  rlMaxAge :: gostring

record RateLimitsConfig =
  rlUDP :: RateLimitConfig
  rlTCP :: RateLimitConfig
  rlDoH :: RateLimitConfig
  rlDoT :: RateLimitConfig
  rlAllowlist :: "gostring list"

record DoHConfig =
  CertFile :: gostring
  KeyFile :: gostring

record RouterConfig =
  routerDiscoveryRecord :: gostring
  ForwardTimeout :: gostring
  routerListenPort :: int
  DoHPort :: int
  DoTPort :: int
  SlavePort :: int
  routerDoH :: DoHConfig
  RateLimits :: RateLimitsConfig
  MaxConnections :: MaxConnectionsConfig

record DNSConfigSpec =
  Global :: GlobalConfig
  cfgMaster :: MasterConfig
  cfgSlave :: SlaveConfig
  cfgRouter :: RouterConfig
  cfgDNSSEC :: DNSSECConfig
  cfgRFC2136 :: RFC2136Config

subsection \<open>The zero value\<close>

text \<open>The value a decoder leaves in a field that the resource does not set.\<close>

definition zeroRateLimit :: RateLimitConfig where
  "zeroRateLimit = \<lparr> Enabled = False, rlBurstSize = 0, rlRatePerSec = 0, rlSlipRatio = 0,
     rlMaxBuckets = 0, rlMaxAge = [] \<rparr>"

definition zeroConfig :: DNSConfigSpec where
  "zeroConfig = \<lparr>
     Global = \<lparr> globalZone = [], LogLevel = [] \<rparr>,
     cfgMaster = \<lparr> masterDiscoveryRecord = [], ResignInterval = [], MaxRecords = 0 \<rparr>,
     cfgSlave = \<lparr> MasterAddr = [], PollInterval = [], slaveListenPort = 0, SnapshotLocation = [] \<rparr>,
     cfgRouter = \<lparr> routerDiscoveryRecord = [], ForwardTimeout = [], routerListenPort = 0, DoHPort = 0,
       DoTPort = 0, SlavePort = 0, routerDoH = \<lparr> CertFile = [], KeyFile = [] \<rparr>,
       RateLimits = \<lparr> rlUDP = zeroRateLimit, rlTCP = zeroRateLimit, rlDoH = zeroRateLimit,
         rlDoT = zeroRateLimit, rlAllowlist = [] \<rparr>,
       MaxConnections = \<lparr> connTCP = 0, connDoH = 0, connDoT = 0 \<rparr> \<rparr>,
     cfgDNSSEC = \<lparr> Keys = [], RRSIGValidityWindow = [] \<rparr>,
     cfgRFC2136 = \<lparr> rfcListenPort = 0, TSIGSecret = [], TSIGName = [] \<rparr> \<rparr>"

end
