(* ===== verification/DNS_Query.thy ===== *)
theory DNS_Query
  imports Domain_Name
begin

text \<open>
  Parsing of a query message, after \<^verbatim>\<open>internal/dns/query/query.go\<close>. All reads of
  the message are checked ones. The lemmas characterise exactly the accepted messages and the
  name, type and position that the parser returns for them.
\<close>

datatype query_error =
    ErrTooShort | ErrNoQuestion | ErrMultipleQuestions | ErrCompressionPointer | ErrQLabelTooLong
  | ErrQNameTooLong | ErrLabelBeyondMessage | ErrTruncated

record Request =
  raw :: bytes
  questionEnd :: nat
  Opcode :: byte
  QName :: gostring
  QType :: "16 word"

subsection \<open>The code\<close>

text \<open>The loop over the labels: position, name built so far, wire bytes consumed so far.\<close>

function parseQName :: "bytes \<Rightarrow> nat \<Rightarrow> gostring \<Rightarrow> nat \<Rightarrow> (query_error + gostring \<times> nat) go" where
  "parseQName msg pos name wireLen =
     (if pos < length msg
      then do {
        labelByte \<leftarrow> goindex msg pos;
        (if labelByte = 0
         then (if 255 < wireLen + 1 then Some (Inl ErrQNameTooLong) else Some (Inr (name, pos + 1)))
         else if labelByte AND 0xC0 = 0xC0 then Some (Inl ErrCompressionPointer)
         else if 63 < unat labelByte then Some (Inl ErrQLabelTooLong)
         else if 255 < wireLen + (1 + unat labelByte) then Some (Inl ErrQNameTooLong)
         else if length msg < pos + 1 + unat labelByte then Some (Inl ErrLabelBeyondMessage)
         else do {
           label \<leftarrow> goslice msg (pos + 1) (pos + 1 + unat labelByte);
           parseQName msg (pos + 1 + unat labelByte)
             ((if 0 < length name then name @ [dot] else name) @ label) (wireLen + (1 + unat labelByte))
         })
      }
      else Some (Inr (name, pos)))"
  by pat_completeness auto
termination
  by (relation "measure (\<lambda>(msg, pos, name, wireLen). length msg - pos)") auto

declare parseQName.simps [simp del]

definition New :: "bytes \<Rightarrow> (query_error + Request) go" where
  "New msg =
     (if length msg < 12 then Some (Inl ErrTooShort)
      else do {
        flags \<leftarrow> be16 msg 2;
        (let opcode = ucast (drop_bit 11 flags AND 0xf) in do {
           qdcount \<leftarrow> be16 msg 4;
           (if qdcount = 0 then Some (Inl ErrNoQuestion)
            else if qdcount > 1 then Some (Inl ErrMultipleQuestions)
            else do {
              r \<leftarrow> parseQName msg 12 [] 0;
              (case r of
                 Inl err \<Rightarrow> Some (Inl err)
               | Inr (name, pos) \<Rightarrow>
                   (if length msg < pos + 4 then Some (Inl ErrTruncated)
                    else do {
                      qtype \<leftarrow> be16 msg pos;
                      Some (Inr \<lparr> raw = msg, questionEnd = pos + 4, Opcode = opcode,
                                  QName = name @ lit ''.'', QType = qtype \<rparr>)
                    }))
            })
         })
      })"

text \<open>\<open>Bytes\<close>, \<open>ID\<close>, \<open>Flags\<close> and \<open>QuestionEnd\<close>.\<close>

definition Bytes :: "Request \<Rightarrow> bytes" where
  "Bytes r = raw r"

definition ID :: "Request \<Rightarrow> 16 word go" where
  "ID r = be16 (raw r) 0"

definition Flags :: "Request \<Rightarrow> 16 word go" where
  "Flags r = be16 (raw r) 2"

definition QuestionEnd :: "Request \<Rightarrow> nat" where
  "QuestionEnd r = questionEnd r"

subsection \<open>The labels of the question\<close>

definition sized_labels :: "gostring list \<Rightarrow> bool" where
  "sized_labels ls \<longleftrightarrow> (\<forall>l \<in> set ls. 1 \<le> length l \<and> length l \<le> 63)"

lemma sized_labels_Cons [simp]:
  "sized_labels (l # ls) \<longleftrightarrow> 1 \<le> length l \<and> length l \<le> 63 \<and> sized_labels ls"
  and sized_labels_Nil [simp]: "sized_labels []"
  by (auto simp: sized_labels_def)

lemma fitting_sized: "fitting_labels ls \<Longrightarrow> sized_labels ls"
  by (auto simp: fitting_labels_def sized_labels_def)

text \<open>What the string builder holds after writing the labels.\<close>

fun addLabels :: "gostring \<Rightarrow> gostring list \<Rightarrow> gostring" where
  "addLabels name [] = name"
| "addLabels name (l # ls) = addLabels ((if 0 < length name then name @ [dot] else name) @ l) ls"

lemma addLabels_nonempty: "name \<noteq> [] \<Longrightarrow> sized_labels ls \<Longrightarrow> addLabels name ls @ [dot] = name @ dot # fqdn_of ls"
  by (induction ls arbitrary: name) auto

lemma addLabels_fqdn:
  assumes "sized_labels ls" "ls \<noteq> []" shows "addLabels [] ls @ [dot] = fqdn_of ls"
proof (cases ls)
  case (Cons l ls')
  then have "l \<noteq> []" "sized_labels ls'" using assms by auto
  then show ?thesis using Cons addLabels_nonempty [of l ls'] by simp
qed (use assms in simp)

lemma compression_marker: "n \<le> 63 \<Longrightarrow> byte_of n AND 0xC0 \<noteq> 0xC0"
  by (simp add: label_byte_plain)

lemma parseQName_wire:
  assumes "sized_labels ls" "n + length (wire_of ls) \<le> 255"
  shows "parseQName (pre @ wire_of ls @ post) (length pre) name n =
    Some (Inr (addLabels name ls, length pre + length (wire_of ls)))"
  using assms
proof (induction ls arbitrary: pre name n)
  case Nil
  then show ?case by (subst parseQName.simps) simp
next
  case (Cons l ls)
  let ?msg = "pre @ wire_of (l # ls) @ post" and ?pre' = "pre @ byte_of (length l) # l"
  have len: "length l < 256" "0 < length l" "length l \<le> 63" using Cons.prems by auto
  have sl: "goslice ?msg (length pre + 1) (length pre + 1 + length l) = Some l"
    using goslice_append [of "pre @ [byte_of (length l)]" l "wire_of ls @ post"] by simp
  have "parseQName ?msg (length pre) name n =
      parseQName ?msg (length ?pre') ((if 0 < length name then name @ [dot] else name) @ l) (n + (1 + length l))"
    using len sl Cons.prems
    by (subst parseQName.simps)
      (simp add: byte_of_eq_0 compression_marker unat_byte_of del: of_nat_eq_0_iff)
  also have "\<dots> = Some (Inr (addLabels name (l # ls), length pre + length (wire_of (l # ls))))"
    using Cons.IH [of "n + (1 + length l)" ?pre'] Cons.prems by simp
  finally show ?case .
qed

lemma parseQName_total: "\<exists>r. parseQName msg pos name n = Some r"
proof (induction msg pos name n rule: parseQName.induct)
  case (1 msg pos name n)
  then show ?case by (subst parseQName.simps) auto
qed

lemma parseQName_sound:
  assumes "parseQName msg pos name n = Some (Inr (name', pos'))" "pos \<le> length msg"
  shows "pos' = length msg \<or> (\<exists>ls. sized_labels ls \<and> n + length (wire_of ls) \<le> 255 \<and>
    pos' = pos + length (wire_of ls) \<and> (\<exists>rest. drop pos msg = wire_of ls @ rest) \<and> name' = addLabels name ls)"
  using assms
proof (induction msg pos name n rule: parseQName.induct)
  case (1 msg pos name n)
  show ?case
  proof (cases "pos < length msg \<and> msg ! pos \<noteq> 0")
    case False
    have "pos' = length msg \<or> (msg ! pos = 0 \<and> pos < length msg \<and> pos' = pos + 1 \<and> name' = name \<and> n + 1 \<le> 255)"
      using 1(2,3) False by (subst (asm) parseQName.simps) (auto split: if_splits)
    then show ?thesis
    proof
      assume *: "msg ! pos = 0 \<and> pos < length msg \<and> pos' = pos + 1 \<and> name' = name \<and> n + 1 \<le> 255"
      then have "drop pos msg = wire_of [] @ drop (Suc pos) msg"
        by (simp add: Cons_nth_drop_Suc [symmetric])
      with * show ?thesis by (intro disjI2 exI [of _ "[]"]) auto
    qed simp
  next
    case True
    let ?k = "unat (msg ! pos)"
    let ?l = "take ?k (drop (pos + 1) msg)"
    let ?name = "(if 0 < length name then name @ [dot] else name) @ ?l"
    have b: "msg ! pos AND 0xC0 \<noteq> 0xC0" "?k \<le> 63" "n + (1 + ?k) \<le> 255" "pos + 1 + ?k \<le> length msg"
      and rec: "parseQName msg (pos + 1 + ?k) ?name (n + (1 + ?k)) = Some (Inr (name', pos'))"
      using 1(2) True by (subst (asm) parseQName.simps, auto split: if_splits)+
    have sl: "goslice msg (pos + 1) (pos + 1 + ?k) = Some ?l" using b(4) by simp
    have lab: "1 \<le> length ?l" "length ?l \<le> 63" "length ?l = ?k"
      using b True by (auto simp: unat_gt_0 Suc_le_eq)
    have "drop (pos + 1) msg = ?l @ drop (pos + 1 + ?k) msg"
      by (metis append_take_drop_id drop_drop add.commute)
    then have d: "drop pos msg = byte_of (length ?l) # ?l @ drop (pos + 1 + ?k) msg"
      using True lab(3) by (simp add: Cons_nth_drop_Suc [symmetric])
    have "pos' = length msg \<or> (\<exists>ls. sized_labels ls \<and> n + (1 + ?k) + length (wire_of ls) \<le> 255 \<and>
        pos' = pos + 1 + ?k + length (wire_of ls) \<and> (\<exists>rest. drop (pos + 1 + ?k) msg = wire_of ls @ rest)
        \<and> name' = addLabels ?name ls)"
      using 1(1) [OF _ _ _ _ _ _ _ sl rec b(4)] True b by simp
    then show ?thesis
    proof (elim disjE exE conjE)
      fix ls rest
      assume "sized_labels ls" "n + (1 + ?k) + length (wire_of ls) \<le> 255"
        "pos' = pos + 1 + ?k + length (wire_of ls)" "drop (pos + 1 + ?k) msg = wire_of ls @ rest"
        "name' = addLabels ?name ls"
      then show ?thesis using lab d by (intro disjI2 exI [of _ "?l # ls"]) auto
    qed simp
  qed
qed

text \<open>The name part of the question, as a reader of names.\<close>

definition readQName :: "bytes \<Rightarrow> nat \<Rightarrow> (query_error + gostring \<times> nat) go" where
  "readQName msg pos =
     map_option (map_sum (\<lambda>e. e) (\<lambda>(name, pos'). (name @ lit ''.'', pos' - pos))) (parseQName msg pos [] 0)"

lemma lit_dot: "lit ''.'' = [dot]"
  by (simp add: lit_def dot_def)

interpretation question_name: name_reader readQName
proof unfold_locales
  fix ls pre post assume *: "fitting_labels ls" "ls \<noteq> []" "length (wire_of ls) \<le> 255"
  then have "parseQName (pre @ wire_of ls @ post) (length pre) [] 0 =
      Some (Inr (addLabels [] ls, length pre + length (wire_of ls)))"
    using parseQName_wire [OF fitting_sized, of ls 0] by simp
  then show "readQName (pre @ wire_of ls @ post) (length pre) = Some (Inr (fqdn_of ls, length (wire_of ls)))"
    using addLabels_fqdn [OF fitting_sized] * by (simp add: readQName_def lit_dot)
qed

lemma New_total: "\<exists>r. New msg = Some r"
  using parseQName_total [of msg 12 "[]" 0]
  by (auto simp: New_def be16_def Let_def split: sum.splits)

lemma New_Inr:
  assumes "New msg = Some (Inr req)"
  obtains pos name flags where "12 \<le> length msg" "be16 msg 2 = Some flags" "be16 msg 4 = Some 1"
    "parseQName msg 12 [] 0 = Some (Inr (name, pos))" "pos + 4 \<le> length msg" "be16 msg pos = Some (QType req)"
    "req = \<lparr> raw = msg, questionEnd = pos + 4, Opcode = ucast (drop_bit 11 flags AND 0xf),
             QName = name @ lit ''.'', QType = QType req \<rparr>"
proof -
  have one: "w = 1" if "w \<noteq> 0" "\<not> w > 1" for w :: "16 word"
    using that by (metis linorder_neqE word_gt_0 word_less_1)
  from assms have l: "12 \<le> length msg" by (auto simp: New_def split: if_splits)
  then obtain flags qd where f: "be16 msg 2 = Some flags" "be16 msg 4 = Some qd" by (simp add: be16_def)
  have qd: "qd \<noteq> 0" "\<not> qd > 1" using assms l f by (auto simp: New_def Let_def split: if_splits)
  obtain r where r: "parseQName msg 12 [] 0 = Some r" using parseQName_total by blast
  obtain name pos where np: "r = Inr (name, pos)"
    using assms l f qd r by (cases r) (auto simp: New_def Let_def)
  have p4: "pos + 4 \<le> length msg" using assms l f qd r np by (auto simp: New_def Let_def split: if_splits)
  then obtain qt where "be16 msg pos = Some qt" by (simp add: be16_def)
  with assms l f qd r np p4 that [of flags name pos] one [OF qd] show thesis
    by (auto simp: New_def Let_def)
qed

lemma New_wire:
  assumes "length hdr = 12" "be16 hdr 2 = Some flags" "be16 hdr 4 = Some 1"
    and "sized_labels ls" "length (wire_of ls) \<le> 255"
  shows "New (hdr @ wire_of ls @ put16 qtype @ put16 qclass @ rest) =
      Some (Inr \<lparr> raw = hdr @ wire_of ls @ put16 qtype @ put16 qclass @ rest,
                  questionEnd = 12 + length (wire_of ls) + 4,
                  Opcode = ucast (drop_bit 11 flags AND 0xf),
                  QName = (if ls = [] then [dot] else fqdn_of ls), QType = qtype \<rparr>)"
proof -
  let ?msg = "hdr @ wire_of ls @ put16 qtype @ put16 qclass @ rest"
  have pre: "be16 ?msg i = be16 hdr i" if "i + 2 \<le> 12" for i
    using that assms(1) by (simp add: be16_def nth_append)
  have "parseQName ?msg 12 [] 0 = Some (Inr (addLabels [] ls, 12 + length (wire_of ls)))"
    using parseQName_wire [OF assms(4), of 0 hdr "put16 qtype @ put16 qclass @ rest" "[]"] assms(1,5) by simp
  moreover have "be16 ?msg (12 + length (wire_of ls)) = Some qtype"
    using be16_put16 [of "hdr @ wire_of ls" qtype "put16 qclass @ rest"] assms(1) by simp
  moreover have "addLabels [] ls @ lit ''.'' = (if ls = [] then [dot] else fqdn_of ls)"
    using addLabels_fqdn [OF assms(4)] by (simp add: lit_dot)
  ultimately show ?thesis
    using assms(1-3) pre [of 2] pre [of 4] by (simp add: New_def Let_def)
qed

subsection \<open>Properties\<close>

text \<open>An accepted message is as the standard describes it: one question whose name is a
  sequence of labels of 1 to 63 bytes with at most 255 octets in all, followed by type and
  class. The request holds the name with dots and a trailing dot, the type, and the offset
  after the question, which lies inside the message.\<close>

theorem New_accepts_only_wellformed:
  assumes "New msg = Some (Inr req)"
  shows "\<exists>ls qclass rest. sized_labels ls \<and> length (wire_of ls) \<le> 255
        \<and> drop 12 msg = wire_of ls @ put16 (QType req) @ put16 qclass @ rest
        \<and> QName req = (if ls = [] then [dot] else fqdn_of ls)
        \<and> questionEnd req = 12 + length (wire_of ls) + 4 \<and> questionEnd req \<le> length msg
        \<and> be16 msg 4 = Some 1 \<and> raw req = msg"
proof -
  obtain pos name flags where p: "12 \<le> length msg" "be16 msg 2 = Some flags" "be16 msg 4 = Some 1"
    "parseQName msg 12 [] 0 = Some (Inr (name, pos))" "pos + 4 \<le> length msg" "be16 msg pos = Some (QType req)"
    and req: "req = \<lparr> raw = msg, questionEnd = pos + 4, Opcode = ucast (drop_bit 11 flags AND 0xf),
             QName = name @ lit ''.'', QType = QType req \<rparr>"
    using assms by (rule New_Inr)
  from parseQName_sound [OF p(4,1)] p(5) obtain ls rest where ls: "sized_labels ls"
    "length (wire_of ls) \<le> 255" "pos = 12 + length (wire_of ls)" "drop 12 msg = wire_of ls @ rest"
    "name = addLabels [] ls" by auto
  have "rest = drop pos msg" using ls(3,4) by (metis append_eq_conv_conj drop_drop add.commute)
  then have "rest = msg ! pos # msg ! (pos + 1) # msg ! (pos + 2) # msg ! (pos + 3) # drop (pos + 4) msg"
    using p(5) by (simp add: Cons_nth_drop_Suc numeral_eq_Suc)
  moreover have "put16 (QType req) = [msg ! pos, msg ! (pos + 1)]"
  proof -
    have "QType req = mk16 (msg ! pos) (msg ! (pos + 1))" using p(5,6) by (simp add: be16_def)
    then show ?thesis by (simp only: put16_mk16)
  qed
  ultimately have "drop 12 msg = wire_of ls @ put16 (QType req)
      @ put16 (mk16 (msg ! (pos + 2)) (msg ! (pos + 3))) @ drop (pos + 4) msg"
    using ls(4) by (simp add: put16_mk16)
  moreover have "QName req = (if ls = [] then [dot] else fqdn_of ls)"
    using arg_cong [OF req, of QName] ls(1,5) addLabels_fqdn by (simp add: lit_dot)
  moreover have "questionEnd req = pos + 4" "raw req = msg"
    using arg_cong [OF req, of questionEnd] arg_cong [OF req, of raw] by simp_all
  ultimately show ?thesis using ls(1-3) p(3,5) by (intro exI conjI) auto
qed

text \<open>Parsing never reads outside the message and always ends, and every well-formed query
  for a name is read as that name: with the question written after any 12-byte header that
  announces one question, the request has the name, the type and the opcode bits.\<close>

theorem New_reads_wellformed:
  assumes "length hdr = 12" "be16 hdr 2 = Some flags" "be16 hdr 4 = Some 1"
    and "sized_labels ls" "length (wire_of ls) \<le> 255"
  shows "(\<exists>r. New msg = Some r) \<and>
    New (hdr @ wire_of ls @ put16 qtype @ put16 qclass @ rest) =
      Some (Inr \<lparr> raw = hdr @ wire_of ls @ put16 qtype @ put16 qclass @ rest,
                  questionEnd = 12 + length (wire_of ls) + 4,
                  Opcode = ucast (drop_bit 11 flags AND 0xf),
                  QName = (if ls = [] then [dot] else fqdn_of ls), QType = qtype \<rparr>)"
  using New_wire [OF assms] New_total by blast

definition sample_query :: bytes where
  "sample_query = [0xAB, 0xCD, 1, 0, 0, 1, 0, 0, 0, 0, 0, 0] @ wire_of [lit ''www'', lit ''example'']
     @ put16 1 @ put16 1"

theorem New_reads_wellformed_witness:
  "\<exists>req. New sample_query = Some (Inr req) \<and> QName req = lit ''www.example.'' \<and> QType req = 1"
proof -
  have h: "length ([0xAB, 0xCD, 1, 0, 0, 1, 0, 0, 0, 0, 0, 0] :: bytes) = 12"
    "be16 [0xAB, 0xCD, 1, 0, 0, 1, 0, 0, 0, 0, 0, 0] 2 = Some 0x100"
    "be16 [0xAB, 0xCD, 1, 0, 0, 1, 0, 0, 0, 0, 0, 0] 4 = Some 1"
    "sized_labels [lit ''www'', lit ''example'']" "length (wire_of [lit ''www'', lit ''example'']) \<le> 255"
    by code_simp+
  have "fqdn_of [lit ''www'', lit ''example''] = lit ''www.example.''" by code_simp
  with New_reads_wellformed [OF h, of "[]" 1 1 "[]"] show ?thesis by (simp add: sample_query_def)
qed

theorem New_accepts_only_wellformed_witness:
  "\<exists>req. New sample_query = Some (Inr req) \<and> questionEnd req \<le> length sample_query"
proof -
  obtain req where "New sample_query = Some (Inr req)"
  proof -
    have "(case New sample_query of Some (Inr req) \<Rightarrow> True | _ \<Rightarrow> False)" by code_simp
    then show thesis using that by (auto split: option.splits sum.splits)
  qed
  with New_accepts_only_wellformed [OF this] show ?thesis by blast
qed

end
