(* ===== verification/Base32_Hex.thy ===== *)
theory Base32_Hex
  imports Go_Base
begin

text \<open>
  The text encoding of NSEC3 owner hashes: \<open>base32.HexEncoding\<close> of Go's standard library
  without padding, as used by \<^verbatim>\<open>internal/dnssec/nsec3.go\<close>. Five bytes become eight
  characters; a shorter last group of 1, 2, 3 or 4 bytes becomes 2, 4, 5 or 7 characters. The
  decoder drops line breaks, rejects other characters, and reads nothing from a last group
  whose size no encoding has. The lemmas give the round trip, also through a change of case.
\<close>

definition hexAlphabet :: gostring where
  "hexAlphabet = lit ''0123456789ABCDEFGHIJKLMNOPQRSTUV''"

text \<open>The bits of a byte, most significant first, and back.\<close>

definition byteBits :: "byte \<Rightarrow> bool list" where
  "byteBits b = map (bit b) [7, 6, 5, 4, 3, 2, 1, 0]"

fun bitsNat :: "bool list \<Rightarrow> nat" where
  "bitsNat [] = 0"
| "bitsNat (b # bs) = (if b then 2 ^ length bs else 0) + bitsNat bs"

definition fiveBits :: "nat \<Rightarrow> bool list" where
  "fiveBits n = map (bit n) [4, 3, 2, 1, 0]"

text \<open>Cut into pieces of \<open>n\<close> bits; a shorter last piece is filled up with zeros.\<close>

function pieces :: "nat \<Rightarrow> bool list \<Rightarrow> bool list list" where
  "pieces n bs =
     (if n = 0 \<or> bs = [] then []
      else (take n bs @ replicate (n - length bs) False) # pieces n (drop n bs))"
  by pat_completeness auto
termination
  by (relation "measure (\<lambda>(n, bs). length bs)") auto

declare pieces.simps [simp del]

definition encodeChar :: "bool list \<Rightarrow> byte" where
  "encodeChar bs = hexAlphabet ! bitsNat bs"

definition EncodeToString :: "bytes \<Rightarrow> gostring" where
  "EncodeToString src = map encodeChar (pieces 5 (concat (map byteBits src)))"

definition decodeChar :: "byte \<Rightarrow> bool list option" where
  "decodeChar c = map_option fiveBits (IndexByte hexAlphabet c)"

text \<open>How many bytes a group of \<open>d\<close> characters gives.\<close>

definition groupBytes :: "nat \<Rightarrow> nat" where
  "groupBytes d = (if d = 8 then 5 else if d = 7 then 4 else if d = 5 then 3 else if d = 4 then 2
     else if d = 2 then 1 else 0)"

definition decodedLen :: "nat \<Rightarrow> nat" where
  "decodedLen n = 5 * (n div 8) + groupBytes (n mod 8)"

definition bitsByte :: "bool list \<Rightarrow> byte" where
  "bitsByte bs = horner_sum of_bool 2 (rev bs)"

definition DecodeString :: "gostring \<Rightarrow> bytes option" where
  "DecodeString s =
     (let src = filter (\<lambda>c. c \<noteq> 10 \<and> c \<noteq> 13) s
      in if list_all (\<lambda>c. decodeChar c \<noteq> None) src
         then Some (map bitsByte
                (pieces 8 (take (8 * decodedLen (length src)) (concat (map (\<lambda>c. the (decodeChar c)) src)))))
         else None)"

subsection \<open>Round trip\<close>

lemma length_byteBits [simp]: "length (byteBits b) = 8"
  by (simp add: byteBits_def)

lemma length_fiveBits [simp]: "length (fiveBits n) = 5"
  by (simp add: fiveBits_def)

lemma bitsNat_less: "bitsNat bs < 2 ^ length bs"
  by (induction bs) auto

lemma concat_pieces:
  assumes "0 < n" shows "\<exists>k < n. concat (pieces n bs) = bs @ replicate k False"
  using assms
proof (induction n bs rule: pieces.induct)
  case (1 n bs)
  show ?case
  proof (cases "length bs \<le> n")
    case True
    show ?thesis
    proof (cases "bs = []")
      case False
      with True 1(2) show ?thesis
        by (intro exI [of _ "n - length bs"]) (simp add: pieces.simps [of n bs] pieces.simps [of n "[]"])
    qed (use 1(2) in \<open>auto simp: pieces.simps\<close>)
  next
    case False
    then have "bs \<noteq> []" by auto
    with 1 obtain k where "k < n" "concat (pieces n (drop n bs)) = drop n bs @ replicate k False" by auto
    with False 1(2) show ?thesis by (intro exI [of _ k]) (auto simp: pieces.simps [of n bs])
  qed
qed

lemma pieces_concat:
  assumes "0 < n" "\<forall>p \<in> set ps. length p = n" shows "pieces n (concat ps) = ps"
  using assms(2)
proof (induction ps)
  case (Cons p ps)
  then have "p \<noteq> []" using assms(1) by auto
  then have "pieces n (p @ concat ps) = (p @ []) # pieces n (concat ps)"
    using Cons.prems assms(1) by (subst pieces.simps) simp
  with Cons show ?case by simp
qed (simp add: pieces.simps)

lemma piece_length: "0 < n \<Longrightarrow> p \<in> set (pieces n bs) \<Longrightarrow> length p = n"
proof (induction n bs rule: pieces.induct)
  case (1 n bs)
  then show ?case by (subst (asm) (2) pieces.simps) (auto split: if_splits)
qed

lemma length_concat_const: "\<forall>p \<in> set ps. length p = n \<Longrightarrow> length (concat ps) = n * length ps"
  by (induction ps) auto

lemma bits_five: "length bs = 5 \<Longrightarrow> fiveBits (bitsNat bs) = bs"
proof -
  assume "length bs = 5"
  then obtain a b c d e where "bs = [a, b, c, d, e]"
    by (auto simp: numeral_eq_Suc length_Suc_conv)
  moreover have "fiveBits (bitsNat [a, b, c, d, e]) = [a, b, c, d, e]"
    by (cases a; cases b; cases c; cases d; cases e; hypsubst?; simp only: simp_thms; code_simp)
  ultimately show ?thesis by simp
qed

lemma hexAlphabet_index: "n < 32 \<Longrightarrow> IndexByte hexAlphabet (hexAlphabet ! n) = Some n"
proof -
  assume "n < 32"
  moreover have "list_all (\<lambda>n. IndexByte hexAlphabet (hexAlphabet ! n) = Some n) [0..<32]" by code_simp
  ultimately show ?thesis by (simp add: list_all_iff)
qed

lemma decode_encodeChar: "length bs = 5 \<Longrightarrow> decodeChar (encodeChar bs) = Some bs"
  using bitsNat_less [of bs] by (simp add: decodeChar_def encodeChar_def hexAlphabet_index bits_five)

lemma bitsByte_byteBits: "bitsByte (byteBits b) = b"
proof -
  have "rev (byteBits b) = map (bit b) [0..<8]" by (simp add: byteBits_def upt_rec numeral_eq_Suc)
  then show ?thesis
    unfolding bitsByte_def by (intro bit_word_eqI) (auto simp: bit_horner_sum_bit_word_iff)
qed

lemma encoded_length:
  "length (EncodeToString src) = (8 * length src + 4) div 5"
proof -
  let ?bits = "concat (map byteBits src)"
  obtain k where k: "k < 5" "concat (pieces 5 ?bits) = ?bits @ replicate k False"
    using concat_pieces [of 5 ?bits] by auto
  have "length (concat (pieces 5 ?bits)) = 5 * length (pieces 5 ?bits)"
    using piece_length [of 5] by (intro length_concat_const) auto
  moreover have "length ?bits = 8 * length src" by (subst length_concat_const [of _ 8]) auto
  ultimately have "5 * length (pieces 5 ?bits) = 8 * length src + k" using k by simp
  then show ?thesis using k(1) by (simp add: EncodeToString_def)
qed

lemma decodedLen_group: "d < 8 \<Longrightarrow> decodedLen (8 * q + d) = 5 * q + groupBytes d"
  by (simp add: decodedLen_def)

lemma decodedLen_encoded: "decodedLen ((8 * n + 4) div 5) = n"
proof -
  obtain q r where n: "n = 5 * q + r" "r < 5" using mod_less_divisor [of 5 n] mult_div_mod_eq [of 5 n]
    by (metis zero_less_numeral)
  from n(2) consider "r = 0" | "r = 1" | "r = 2" | "r = 3" | "r = 4" by linarith
  then show ?thesis
  proof cases
    case 1
    then have m: "(8 * n + 4) div 5 = 8 * q" using n by simp
    show ?thesis unfolding m using n 1 decodedLen_group [of 0 q] by (simp add: groupBytes_def)
  next
    case 2
    then have m: "(8 * n + 4) div 5 = 8 * q + 2" using n by simp
    show ?thesis unfolding m using n 2 decodedLen_group [of 2 q] by (simp add: groupBytes_def)
  next
    case 3
    then have m: "(8 * n + 4) div 5 = 8 * q + 4" using n by simp
    show ?thesis unfolding m using n 3 decodedLen_group [of 4 q] by (simp add: groupBytes_def)
  next
    case 4
    then have m: "(8 * n + 4) div 5 = 8 * q + 5" using n by simp
    show ?thesis unfolding m using n 4 decodedLen_group [of 5 q] by (simp add: groupBytes_def)
  next
    case 5
    then have m: "(8 * n + 4) div 5 = 8 * q + 7" using n by simp
    show ?thesis unfolding m using n 5 decodedLen_group [of 7 q] by (simp add: groupBytes_def)
  qed
qed

lemma encodeChar_alphabet:
  assumes "length bs = 5"
  shows "encodeChar bs \<in> set hexAlphabet"
proof -
  have "length hexAlphabet = 32" by code_simp
  then show ?thesis using bitsNat_less [of bs] assms by (simp add: encodeChar_def)
qed

lemma alphabet_facts:
  "c \<in> set hexAlphabet \<Longrightarrow> c \<noteq> 10 \<and> c \<noteq> 13 \<and> c < 128 \<and> c \<noteq> dot \<and> upper_byte (lower_byte c) = c"
proof -
  assume "c \<in> set hexAlphabet"
  moreover have "list_all (\<lambda>c. c \<noteq> 10 \<and> c \<noteq> 13 \<and> c < 128 \<and> c \<noteq> dot \<and> upper_byte (lower_byte c) = c) hexAlphabet"
    by code_simp
  ultimately show ?thesis by (simp add: list_all_iff)
qed

lemma encoded_alphabet: "set (EncodeToString src) \<subseteq> set hexAlphabet"
  using piece_length [of 5] by (auto simp: EncodeToString_def encodeChar_alphabet)

lemma Decode_Encode: "DecodeString (EncodeToString src) = Some src"
proof -
  let ?bits = "concat (map byteBits src)"
  let ?s = "EncodeToString src"
  have nl: "filter (\<lambda>c. c \<noteq> 10 \<and> c \<noteq> 13) ?s = ?s"
    using encoded_alphabet [of src] alphabet_facts by (auto simp: filter_id_conv)
  have five: "\<forall>p \<in> set (pieces 5 ?bits). length p = 5" using piece_length [of 5] by auto
  have dec: "map (\<lambda>c. the (decodeChar c)) ?s = pieces 5 ?bits"
    using five by (simp add: EncodeToString_def decode_encodeChar map_idI)
  have ok: "list_all (\<lambda>c. decodeChar c \<noteq> None) ?s"
    using five by (auto simp: EncodeToString_def list_all_iff decode_encodeChar)
  obtain k where k: "concat (pieces 5 ?bits) = ?bits @ replicate k False"
    using concat_pieces [of 5 ?bits] by auto
  have lb: "length ?bits = 8 * length src" by (subst length_concat_const [of _ 8]) auto
  have "take (8 * decodedLen (length ?s)) (concat (pieces 5 ?bits)) = ?bits"
    unfolding encoded_length decodedLen_encoded k using lb by simp
  then have "DecodeString ?s = Some (map bitsByte (pieces 8 ?bits))"
    using ok by (simp add: DecodeString_def nl dec)
  moreover have "pieces 8 ?bits = map byteBits src" by (rule pieces_concat) auto
  ultimately show ?thesis by (simp add: bitsByte_byteBits o_def)
qed

text \<open>\<open>strings.ToUpper\<close>: the ASCII fast path, else the mapping of the Unicode tables.\<close>

definition ToUpper :: "unilower \<Rightarrow> gostring \<Rightarrow> gostring" where
  "ToUpper uup s = (if is_ascii s then map upper_byte s else uup s)"

lemma encoded_ascii: "is_ascii (EncodeToString src)"
  using encoded_alphabet [of src] alphabet_facts by (auto simp: is_ascii_def list_all_iff)

lemma encoded_no_dot: "dot \<notin> set (map lower_byte (EncodeToString src))"
proof
  assume "dot \<in> set (map lower_byte (EncodeToString src))"
  then obtain c where "dot = lower_byte c" and c: "c \<in> set (EncodeToString src)"
    unfolding set_map by (rule imageE)
  then have "lower_byte c = dot" by simp
  then show False using encoded_alphabet [of src] alphabet_facts [of c] c by auto
qed

lemma Decode_lowered: "DecodeString (ToUpper uup (map lower_byte (EncodeToString src))) = Some src"
proof -
  have "map upper_byte (map lower_byte (EncodeToString src)) = EncodeToString src"
    using encoded_alphabet [of src] alphabet_facts by (auto intro!: map_idI)
  then show ?thesis using encoded_ascii [of src] by (simp add: ToUpper_def Decode_Encode)
qed

lemma encoded_lower_inj:
  "map lower_byte (EncodeToString a) = map lower_byte (EncodeToString b) \<longleftrightarrow> a = b"
  by (metis Decode_lowered option.inject)

end
