(* ===== verification/NSEC3.thy ===== *)
theory NSEC3
  imports Zone_DB Base32_Hex
begin

text \<open>
  Authenticated denial of existence, after
  \<^verbatim>\<open>internal/dnssec/{nsec3,nsec3chain,nsec3proof}.go\<close>: hashing of names, the chain
  built by the master, its reconstruction by the slave, and the closest-encloser proof.

  SHA-1 is a parameter \<open>sha1\<close>; the results hold for any function, collisions are named as
  hypotheses where they matter. The order in which the program ranges over the names of a
  database is the argument \<open>ord\<close>. The lemmas show that the chain is a ring that covers
  exactly the hashes of names that are not in it.
\<close>

type_synonym hashfun = "bytes \<Rightarrow> bytes"

datatype nsec3_error =
    EmptyDB
  | WrongOptsNSEC3PARAM
  | WrongOptsNSEC3 Domain
  | BadOwnerName Domain
  | EmptyChain
  | QueriedIsApex
  | NotInZone Domain Domain
  | NoCandidates Domain Domain
  | NoClosestEncloser Domain
  | NoNextCloser
  | QueriedExists
  | NoNSEC3ForCE Domain gostring
  | NotCovered bytes
  | NextCloserError Domain nsec3_error
  | WildcardError Domain nsec3_error

subsection \<open>The code\<close>

definition HashName :: "hashfun \<Rightarrow> Domain \<Rightarrow> 16 word \<Rightarrow> bytes \<Rightarrow> bytes" where
  "HashName sha1 name iterations salt =
     (let x = Write name in ((\<lambda>digest. sha1 (digest @ salt)) ^^ unat iterations) (sha1 (x @ salt)))"

record NSEC3PARAMRecord =
  pHashAlgorithm :: byte
  pFlags :: byte
  pIterations :: "16 word"
  pSalt :: bytes

definition DefaultNSEC3PARAMRecord :: NSEC3PARAMRecord where
  "DefaultNSEC3PARAMRecord = \<lparr> pHashAlgorithm = 1, pFlags = 0, pIterations = 0, pSalt = [] \<rparr>"

definition PARAM_AsRR :: "NSEC3PARAMRecord \<Rightarrow> Domain \<Rightarrow> RRttl \<Rightarrow> RR" where
  "PARAM_AsRR p zone ttl =
     \<lparr> Name = zone, RRtype = TypeNSEC3PARAM, TTL = ttl,
       Opts = RRoptsNSEC3PARAM (pHashAlgorithm p) (pFlags p) (pIterations p) (pSalt p) \<rparr>"

record NSEC3Record =
  nHashAlgorithm :: byte
  nFlags :: byte
  nIterations :: "16 word"
  nSalt :: bytes
  nNextHash :: bytes
  nTypes :: "16 word list"

text \<open>The owner label: the encoded hash, in upper case, the zone appended, all put into lower case.\<close>

definition NSEC3_AsRR :: "unilower \<Rightarrow> unilower \<Rightarrow> NSEC3Record \<Rightarrow> bytes \<Rightarrow> Domain \<Rightarrow> RRttl \<Rightarrow> RR" where
  "NSEC3_AsRR uni uup n nameHash zone ttl =
     (let hashStr = ToUpper uup (EncodeToString nameHash);
          ownerStr = hashStr @ lit ''.'' @ zone;
          owner = ToLower uni ownerStr
      in \<lparr> Name = owner, RRtype = TypeNSEC3, TTL = ttl,
           Opts = RRoptsNSEC3 (nHashAlgorithm n) (nFlags n) (nIterations n) (nSalt n) (nNextHash n) (nTypes n) \<rparr>)"

record NSEC3Chain =
  Params :: NSEC3PARAMRecord
  Records :: "RR list"
  byHash :: "(gostring \<times> NSEC3Record) list"

text \<open>The type list of one owner: the known types of its records, and RRSIG if there are any.\<close>

definition typesAt :: "RR list \<Rightarrow> 16 word list" where
  "typesAt rrs =
     (let typeSet = remdups (List.map_filter (\<lambda>rr. RRtypeToWire (RRtype rr)) rrs);
          typeSet' = (if length typeSet > 0 then List.insert (the (RRtypeToWire TypeRRSIG)) typeSet else typeSet)
      in sort typeSet')"

definition nsec3TTL :: "DB \<Rightarrow> RRttl" where
  "nsec3TTL d = (case mapGet (ByType d) TypeSOA of [] \<Rightarrow> DefaultTTL | soa # _ \<Rightarrow> TTL soa)"

text \<open>The names with their hashes, sorted by hash.\<close>

definition sortedHashes :: "hashfun \<Rightarrow> (Domain list \<Rightarrow> Domain list) \<Rightarrow> DB \<Rightarrow> NSEC3PARAMRecord \<Rightarrow> (Domain \<times> bytes) list" where
  "sortedHashes sha1 ord d params =
     (let names = ord (map fst (ByName d))
      in SortFunc (\<lambda>a b. Compare (snd a) (snd b))
           (map (\<lambda>name. (name, HashName sha1 name (pIterations params) (pSalt params))) names))"

text \<open>The record of entry \<open>i\<close>: its next hash is that of entry \<open>(i + 1) mod n\<close>.\<close>

definition nsec3At :: "DB \<Rightarrow> NSEC3PARAMRecord \<Rightarrow> (Domain \<times> bytes) list \<Rightarrow> nat \<Rightarrow> NSEC3Record" where
  "nsec3At d params hashes i =
     \<lparr> nHashAlgorithm = pHashAlgorithm params, nFlags = pFlags params,
       nIterations = pIterations params, nSalt = pSalt params,
       nNextHash = snd (hashes ! ((i + 1) mod length hashes)),
       nTypes = typesAt (mapGet (ByName d) (fst (hashes ! i))) \<rparr>"

definition BuildNSEC3Chain ::
  "unilower \<Rightarrow> unilower \<Rightarrow> hashfun \<Rightarrow> (Domain list \<Rightarrow> Domain list) \<Rightarrow> DB \<Rightarrow> NSEC3PARAMRecord
    \<Rightarrow> nsec3_error + NSEC3Chain \<times> RR" where
  "BuildNSEC3Chain uni uup sha1 ord d params =
     (if length (ByName d) = 0 then Inl EmptyDB
      else
        (let ttl = nsec3TTL d;
             hashes = sortedHashes sha1 ord d params;
             nsec3Records = map (nsec3At d params hashes) [0..<length hashes];
             nsec3RRs = map (\<lambda>i. NSEC3_AsRR uni uup (nsec3Records ! i) (snd (hashes ! i)) (Zone d) ttl)
                          [0..<length hashes];
             bh = foldl (\<lambda>m i. mapPut
                              (ToLower uni (ToUpper uup (EncodeToString (snd (hashes ! i)))))
                              (nsec3Records ! i) m) [] [0..<length hashes]
         in Inr (\<lparr> Params = params, Records = nsec3RRs, byHash = bh \<rparr>,
                 PARAM_AsRR params (Zone d) ttl)))"

text \<open>The loop of \<open>RebuildNSEC3Chain\<close> over the sorted NSEC3 records.\<close>

fun rebuildByHash :: "(gostring \<times> NSEC3Record) list \<Rightarrow> RR list \<Rightarrow> nsec3_error + (gostring \<times> NSEC3Record) list" where
  "rebuildByHash m [] = Inr m"
| "rebuildByHash m (rr # rrs) =
     (case Opts rr of
        RRoptsNSEC3 alg flags iter salt nextHash types \<Rightarrow>
          (case IndexByte (Name rr) dot of
             None \<Rightarrow> Inl (BadOwnerName (Name rr))
           | Some dotIdx \<Rightarrow>
               rebuildByHash (mapPut (take dotIdx (Name rr))
                 \<lparr> nHashAlgorithm = alg, nFlags = flags, nIterations = iter, nSalt = salt,
                   nNextHash = nextHash, nTypes = types \<rparr> m) rrs)
      | _ \<Rightarrow> Inl (WrongOptsNSEC3 (Name rr)))"

definition RebuildNSEC3Chain :: "DB \<Rightarrow> nsec3_error + NSEC3Chain" where
  "RebuildNSEC3Chain d =
     (let nsec3RRs = mapGet (ByType d) TypeNSEC3;
          nsec3paramRRs = mapGet (ByType d) TypeNSEC3PARAM
      in case (case nsec3paramRRs of
                 [] \<Rightarrow> Some DefaultNSEC3PARAMRecord
               | p # _ \<Rightarrow>
                   (case Opts p of
                      RRoptsNSEC3PARAM alg flags iter salt \<Rightarrow>
                        Some \<lparr> pHashAlgorithm = alg, pFlags = flags, pIterations = iter, pSalt = salt \<rparr>
                    | _ \<Rightarrow> None)) of
           None \<Rightarrow> Inl WrongOptsNSEC3PARAM
         | Some params \<Rightarrow>
             (let sorted = SortFunc (\<lambda>a b. Compare (Name a) (Name b)) nsec3RRs
              in case rebuildByHash [] sorted of
                   Inl err \<Rightarrow> Inl err
                 | Inr bh \<Rightarrow> Inr \<lparr> Params = params, Records = sorted, byHash = bh \<rparr>))"

definition covers :: "bytes \<Rightarrow> bytes \<Rightarrow> bytes \<Rightarrow> bool" where
  "covers ownerHash nextHash targetHash =
     (let ownCmp = Compare ownerHash targetHash;
          nextCmp = Compare targetHash nextHash
      in if Compare ownerHash nextHash < 0 then ownCmp < 0 \<and> nextCmp < 0
         else ownCmp < 0 \<or> nextCmp < 0)"

text \<open>The test of one record in the loop of \<open>findCovering\<close>; what does not decode is skipped.\<close>

definition recordCovers :: "unilower \<Rightarrow> bytes \<Rightarrow> RR \<Rightarrow> bool" where
  "recordCovers uup targetHash rr =
     (case Opts rr of
        RRoptsNSEC3 _ _ _ _ nextHash _ \<Rightarrow>
          (case IndexByte (Name rr) dot of
             None \<Rightarrow> False
           | Some dotIdx \<Rightarrow>
               (case DecodeString (ToUpper uup (take dotIdx (Name rr))) of
                  None \<Rightarrow> False
                | Some ownerHash \<Rightarrow> covers ownerHash nextHash targetHash))
      | _ \<Rightarrow> False)"

definition findCovering :: "unilower \<Rightarrow> NSEC3Chain \<Rightarrow> bytes \<Rightarrow> nsec3_error + RR" where
  "findCovering uup c targetHash =
     (case find (recordCovers uup targetHash) (Records c) of
        None \<Rightarrow> Inl (NotCovered targetHash)
      | Some rr \<Rightarrow> Inr rr)"

definition buildCandidates :: "gostring \<Rightarrow> gostring \<Rightarrow> gostring list" where
  "buildCandidates queried zone =
     (let rel = TrimSuffix (TrimSuffix queried (lit ''.'' @ zone)) (lit ''.'')
      in if rel = [] \<or> rel = zone then []
         else (let labels = Split dot rel
               in map (\<lambda>i. Join (lit ''.'') (drop i labels) @ lit ''.'' @ zone) [0..<length labels]))"

record EncloserProof =
  ClosestEncloser :: RR
  NextCloser :: RR
  WildcardAtCE :: RR

text \<open>\<open>strings.ToLower(nsec3Encoding.EncodeToString(HashName(...)))\<close>.\<close>

definition hashLabel :: "unilower \<Rightarrow> hashfun \<Rightarrow> NSEC3Chain \<Rightarrow> Domain \<Rightarrow> gostring" where
  "hashLabel uni sha1 c name =
     ToLower uni (EncodeToString (HashName sha1 name (pIterations (Params c)) (pSalt (Params c))))"

text \<open>The search for the closest encloser: its name and the next closer name.\<close>

fun findIdx :: "('a \<Rightarrow> bool) \<Rightarrow> 'a list \<Rightarrow> nat option" where
  "findIdx P [] = None"
| "findIdx P (x # xs) = (if P x then Some 0 else map_option Suc (findIdx P xs))"

definition closestEncloser ::
  "unilower \<Rightarrow> hashfun \<Rightarrow> NSEC3Chain \<Rightarrow> Domain \<Rightarrow> Domain \<Rightarrow> gostring list \<Rightarrow> (nsec3_error + Domain \<times> Domain) go" where
  "closestEncloser uni sha1 c queried zone candidates =
     (case findIdx (\<lambda>cand. mapHas (byHash c) (hashLabel uni sha1 c cand)) candidates of
        None \<Rightarrow>
          (if \<not> mapHas (byHash c) (hashLabel uni sha1 c zone) then Some (Inl (NoClosestEncloser queried))
           else if length candidates > 0
           then do { nc \<leftarrow> goindex candidates (length candidates - 1); Some (Inr (zone, nc)) }
           else Some (Inl NoNextCloser))
      | Some ceIdx \<Rightarrow>
          (if ceIdx = 0 then Some (Inl QueriedExists)
           else do { ce \<leftarrow> goindex candidates ceIdx; nc \<leftarrow> goindex candidates (ceIdx - 1); Some (Inr (ce, nc)) }))"

text \<open>The three records for a closest encloser and a next closer name.\<close>

definition encloserRecords ::
  "unilower \<Rightarrow> unilower \<Rightarrow> hashfun \<Rightarrow> NSEC3Chain \<Rightarrow> Domain \<Rightarrow> DB \<Rightarrow> Domain \<Rightarrow> Domain
    \<Rightarrow> (nsec3_error + EncloserProof) go" where
  "encloserRecords uni uup sha1 c zone d ceName ncName =
     (let ceHashStr = hashLabel uni sha1 c ceName;
          ceOwner = ceHashStr @ lit ''.'' @ zone;
          hash = (\<lambda>name. HashName sha1 name (pIterations (Params c)) (pSalt (Params c)))
      in do {
        ceRR \<leftarrow> LookupByType uni d ceOwner TypeNSEC3;
        (if length ceRR = 0 then Some (Inl (NoNSEC3ForCE ceName ceHashStr))
         else
           (case findCovering uup c (hash ncName) of
              Inl err \<Rightarrow> Some (Inl (NextCloserError ncName err))
            | Inr ncRR \<Rightarrow>
                (case findCovering uup c (hash (lit ''*.'' @ ceName)) of
                   Inl err \<Rightarrow> Some (Inl (WildcardError ceName err))
                 | Inr wildcardRR \<Rightarrow> do {
                     ce \<leftarrow> goindex ceRR 0;
                     Some (Inr \<lparr> ClosestEncloser = ce, NextCloser = ncRR, WildcardAtCE = wildcardRR \<rparr>)
                   })))
      })"

definition ClosestEncloserProof ::
  "unilower \<Rightarrow> unilower \<Rightarrow> hashfun \<Rightarrow> NSEC3Chain \<Rightarrow> Domain \<Rightarrow> Domain \<Rightarrow> DB \<Rightarrow> (nsec3_error + EncloserProof) go" where
  "ClosestEncloserProof uni uup sha1 c queried zone d =
     (if length (byHash c) = 0 then Some (Inl EmptyChain)
      else if queried = zone then Some (Inl QueriedIsApex)
      else if \<not> HasSuffix queried (lit ''.'' @ zone) \<and> queried \<noteq> zone then Some (Inl (NotInZone queried zone))
      else
        (let candidates = buildCandidates queried zone
         in if length candidates = 0 then Some (Inl (NoCandidates queried zone))
            else do {
              r \<leftarrow> closestEncloser uni sha1 c queried zone candidates;
              (case r of
                 Inl err \<Rightarrow> Some (Inl err)
               | Inr (ceName, ncName) \<Rightarrow> encloserRecords uni uup sha1 c zone d ceName ncName)
            }))"

subsection \<open>The ring\<close>

lemma covers_iff:
  "covers ow nx t \<longleftrightarrow> (if ow < nx then ow < t \<and> t < nx else ow < t \<or> t < nx)"
  by (simp add: covers_def Let_def)

lemma ring_covers_none:
  assumes "sorted_wrt (<) hs" "i < length hs" "covers (hs ! i) (hs ! ((i + 1) mod length hs)) t"
  shows "t \<notin> set hs"
proof
  assume "t \<in> set hs"
  then obtain j where j: "j < length hs" "t = hs ! j" by (auto simp: in_set_conv_nth)
  have less: "a < b \<longleftrightarrow> hs ! a < hs ! b" if "a < length hs" "b < length hs" for a b
    using sorted_wrt_nth_less [OF assms(1)] that by (metis linorder_neqE_nat order_less_asym)
  show False
  proof (cases "i + 1 < length hs")
    case True
    then show False using assms(3) j less [of i "i + 1"] less [of i j] less [of j "i + 1"]
      by (auto simp: covers_iff)
  next
    case False
    then have i: "i + 1 = length hs" using assms(2) by simp
    then have "\<not> hs ! i < hs ! 0" "\<not> hs ! i < t" "\<not> t < hs ! 0"
      using less [of i 0] less [of i j] less [of j 0] assms(2) j by (cases "hs = []"; auto)+
    then show False using assms(3) i by (auto simp: covers_iff)
  qed
qed

lemma ring_covers_some:
  assumes "sorted_wrt (<) hs" "hs \<noteq> []" "t \<notin> set hs"
  shows "\<exists>i < length hs. covers (hs ! i) (hs ! ((i + 1) mod length hs)) (t :: bytes)"
proof (cases "\<exists>i < length hs. hs ! i < t")
  case False
  then have "t < hs ! 0" using assms(2,3) by (metis length_greater_0_conv linorder_neqE nth_mem)
  moreover have "\<not> hs ! (length hs - 1) < hs ! 0"
    using sorted_wrt_nth_less [OF assms(1), of 0 "length hs - 1"] assms(2)
    by (cases "length hs = 1") (auto dest: order_less_asym)
  ultimately show ?thesis
    using assms(2) by (intro exI [of _ "length hs - 1"]) (auto simp: covers_iff)
next
  case True
  define i where "i = Max {i. i < length hs \<and> hs ! i < t}"
  have fin: "finite {i. i < length hs \<and> hs ! i < t}" by simp
  have "i \<in> {i. i < length hs \<and> hs ! i < t}" unfolding i_def using True by (intro Max_in fin) auto
  then have i: "i < length hs" "hs ! i < t" by auto
  have max: "j \<le> i" if "j < length hs" "hs ! j < t" for j unfolding i_def using that fin by (intro Max_ge) auto
  show ?thesis
  proof (cases "i + 1 < length hs")
    case True
    then have "\<not> hs ! (i + 1) < t" using max [of "i + 1"] by auto
    then have "t < hs ! (i + 1)" using True assms(3) by (metis linorder_neqE nth_mem)
    with i True show ?thesis by (intro exI [of _ i]) (auto simp: covers_iff)
  next
    case False
    then have *: "(i + 1) mod length hs = 0" using i by (metis Suc_eq_plus1 Suc_lessI mod_self)
    have "\<not> hs ! i < hs ! 0"
      using sorted_wrt_nth_less [OF assms(1), of 0 i] i(1) by (cases "i = 0") (auto dest: order_less_asym)
    with i * show ?thesis by (intro exI [of _ i]) (auto simp: covers_iff)
  qed
qed

subsection \<open>The chain of a database\<close>

lemma alphabet_upper: "c \<in> set hexAlphabet \<Longrightarrow> upper_byte c = c"
proof -
  assume "c \<in> set hexAlphabet"
  moreover have "list_all (\<lambda>c. upper_byte c = c) hexAlphabet" by code_simp
  ultimately show ?thesis by (simp add: list_all_iff)
qed

lemma ToUpper_encoded [simp]: "ToUpper uup (EncodeToString h) = EncodeToString h"
  using encoded_alphabet [of h] encoded_ascii [of h] alphabet_upper by (auto simp: ToUpper_def intro!: map_idI)

lemma ToLower_encoded [simp]: "ToLower uni (EncodeToString h) = map lower_byte (EncodeToString h)"
  by (simp add: ToLower_ascii encoded_ascii)

lemma lit_dot_eq: "lit ''.'' = [dot]"
  by (simp add: lit_def dot_def)

lemma NSEC3_AsRR_name:
  assumes "is_ascii zone"
  shows "Name (NSEC3_AsRR uni uup n h zone ttl) = map lower_byte (EncodeToString h) @ dot # map lower_byte zone"
  using assms encoded_ascii [of h] dot_ascii
  by (simp add: NSEC3_AsRR_def Let_def lit_dot_eq ToLower_ascii)

lemma owner_prefix:
  "IndexByte (map lower_byte (EncodeToString h) @ dot # z) dot = Some (length (EncodeToString h))"
  "take (length (EncodeToString h)) (map lower_byte (EncodeToString h) @ dot # z) = map lower_byte (EncodeToString h)"
  using IndexByte_append [OF encoded_no_dot [of h], of z] by simp_all

lemma recordCovers_AsRR:
  assumes "is_ascii zone"
  shows "recordCovers uup t (NSEC3_AsRR uni uup n h zone ttl) = covers h (nNextHash n) t"
proof -
  have "Opts (NSEC3_AsRR uni uup n h zone ttl) = RRoptsNSEC3 (nHashAlgorithm n) (nFlags n) (nIterations n)
      (nSalt n) (nNextHash n) (nTypes n)" by (simp add: NSEC3_AsRR_def Let_def)
  then show ?thesis
    unfolding recordCovers_def NSEC3_AsRR_name [OF assms]
    by (simp add: owner_prefix Decode_lowered del: map_map)
qed

interpretation hashcmp: three_way "\<lambda>a b. Compare (snd a) (snd b)" "\<lambda>a :: Domain \<times> bytes. snd a"
  by unfold_locales auto

definition name_hashes :: "hashfun \<Rightarrow> DB \<Rightarrow> NSEC3PARAMRecord \<Rightarrow> bytes set" where
  "name_hashes sha1 d p = (\<lambda>n. HashName sha1 n (pIterations p) (pSalt p)) ` fst ` set (ByName d)"

text \<open>No two names of the database have the same hash.\<close>

definition no_collision :: "hashfun \<Rightarrow> DB \<Rightarrow> NSEC3PARAMRecord \<Rightarrow> bool" where
  "no_collision sha1 d p \<longleftrightarrow> distinct (map (\<lambda>n. HashName sha1 n (pIterations p) (pSalt p)) (map fst (ByName d)))"

lemma sortedHashes_facts:
  assumes "\<And>ns. mset (ord ns) = mset ns" "no_collision sha1 d p"
  shows "sorted_wrt (<) (map snd (sortedHashes sha1 ord d p))"
    and "set (map snd (sortedHashes sha1 ord d p)) = name_hashes sha1 d p"
    and "length (sortedHashes sha1 ord d p) = length (ByName d)"
proof -
  let ?h = "\<lambda>n. HashName sha1 n (pIterations p) (pSalt p)"
  let ?xs = "map (\<lambda>name. (name, ?h name)) (ord (map fst (ByName d)))"
  have sh: "sortedHashes sha1 ord d p = SortFunc (\<lambda>a b. Compare (snd a) (snd b)) ?xs"
    by (simp add: sortedHashes_def Let_def)
  have m: "mset (map snd ?xs) = mset (map ?h (map fst (ByName d)))"
  proof -
    have a: "map snd ?xs = map ?h (ord (map fst (ByName d)))" by (simp add: o_def)
    show ?thesis unfolding a by (simp only: mset_map assms(1))
  qed
  have "mset (map snd (sortedHashes sha1 ord d p)) = mset (map snd ?xs)"
    unfolding sh hashcmp.SortFunc_sort by (simp only: mset_map mset_sort)
  with m have ms: "mset (map snd (sortedHashes sha1 ord d p)) = mset (map ?h (map fst (ByName d)))" by simp
  have "distinct (map snd (sortedHashes sha1 ord d p))"
    using assms(2) mset_eq_imp_distinct_iff [OF ms] by (simp add: no_collision_def o_def)
  moreover have "sorted (map snd (sortedHashes sha1 ord d p))" unfolding sh by (rule hashcmp.SortFunc_sorted)
  ultimately show "sorted_wrt (<) (map snd (sortedHashes sha1 ord d p))" by (simp add: strict_sorted_iff)
  show "set (map snd (sortedHashes sha1 ord d p)) = name_hashes sha1 d p"
    using mset_eq_setD [OF ms] by (simp add: name_hashes_def image_image)
  show "length (sortedHashes sha1 ord d p) = length (ByName d)"
    using mset_eq_length [OF ms] by simp
qed

lemma BuildNSEC3Chain_Inr:
  assumes "BuildNSEC3Chain uni uup sha1 ord d p = Inr (c, param)"
  shows "ByName d \<noteq> []" "Params c = p" "param = PARAM_AsRR p (Zone d) (nsec3TTL d)"
    "Records c = map (\<lambda>i. NSEC3_AsRR uni uup (nsec3At d p (sortedHashes sha1 ord d p) i)
        (snd (sortedHashes sha1 ord d p ! i)) (Zone d) (nsec3TTL d)) [0..<length (sortedHashes sha1 ord d p)]"
    "byHash c = foldl (\<lambda>m i. mapPut (ToLower uni (ToUpper uup (EncodeToString (snd (sortedHashes sha1 ord d p ! i)))))
        (nsec3At d p (sortedHashes sha1 ord d p) i) m) [] [0..<length (sortedHashes sha1 ord d p)]"
proof -
  show "ByName d \<noteq> []" using assms by (auto simp: BuildNSEC3Chain_def split: if_splits)
  show "Params c = p" "param = PARAM_AsRR p (Zone d) (nsec3TTL d)"
    "Records c = map (\<lambda>i. NSEC3_AsRR uni uup (nsec3At d p (sortedHashes sha1 ord d p) i)
        (snd (sortedHashes sha1 ord d p ! i)) (Zone d) (nsec3TTL d)) [0..<length (sortedHashes sha1 ord d p)]"
    using assms by (auto simp: BuildNSEC3Chain_def Let_def split: if_splits)
  have "foldl (\<lambda>m i. mapPut (f i) (map g [0..<n] ! i) m) x [0..<n] = foldl (\<lambda>m i. mapPut (f i) (g i) m) x [0..<n]"
    for f :: "nat \<Rightarrow> gostring" and g :: "nat \<Rightarrow> NSEC3Record" and n x
    by (rule foldl_cong) auto
  then show "byHash c = foldl (\<lambda>m i. mapPut (ToLower uni (ToUpper uup (EncodeToString (snd (sortedHashes sha1 ord d p ! i)))))
        (nsec3At d p (sortedHashes sha1 ord d p) i) m) [] [0..<length (sortedHashes sha1 ord d p)]"
    using assms by (auto simp: BuildNSEC3Chain_def Let_def split: if_splits)
qed

lemma chain_covers:
  assumes b: "BuildNSEC3Chain uni uup sha1 ord d p = Inr (c, param)"
    and z: "is_ascii (Zone d)" and o: "\<And>ns. mset (ord ns) = mset ns" and nc: "no_collision sha1 d p"
  shows "(\<exists>rr \<in> set (Records c). recordCovers uup t rr) \<longleftrightarrow> t \<notin> name_hashes sha1 d p"
proof -
  let ?H = "sortedHashes sha1 ord d p"
  let ?hs = "map snd ?H"
  note f = sortedHashes_facts [OF o nc]
  have ne: "?hs \<noteq> []" using BuildNSEC3Chain_Inr(1) [OF b] f(3) by auto
  have "(\<exists>rr \<in> set (Records c). recordCovers uup t rr) \<longleftrightarrow>
      (\<exists>i < length ?H. covers (snd (?H ! i)) (snd (?H ! ((i + 1) mod length ?H))) t)"
    unfolding BuildNSEC3Chain_Inr(4) [OF b]
    by (auto simp: recordCovers_AsRR [OF z] nsec3At_def)
  also have "\<dots> \<longleftrightarrow> (\<exists>i < length ?hs. covers (?hs ! i) (?hs ! ((i + 1) mod length ?hs)) t)"
    using ne by (intro ex_cong1 conj_cong) auto
  also have "\<dots> \<longleftrightarrow> t \<notin> set ?hs"
    using ring_covers_none [OF f(1)] ring_covers_some [OF f(1) ne] by blast
  finally show ?thesis by (simp only: f(2))
qed

lemma findCovering_iff:
  "(\<exists>rr. findCovering uup c t = Inr rr) \<longleftrightarrow> (\<exists>rr \<in> set (Records c). recordCovers uup t rr)"
proof (cases "find (recordCovers uup t) (Records c)")
  case None
  then have "\<not> list_ex (recordCovers uup t) (Records c)" by (simp add: find_None_ex)
  with None show ?thesis by (simp add: findCovering_def list_ex_iff)
next
  case (Some rr)
  then have "list_ex (recordCovers uup t) (Records c)" using find_None_ex by (metis option.distinct(1))
  with Some show ?thesis by (simp add: findCovering_def list_ex_iff)
qed

lemma findCovering_Inr: "findCovering uup c t = Inr rr \<Longrightarrow> rr \<in> set (Records c) \<and> recordCovers uup t rr"
  by (auto simp: findCovering_def find_Some_iff in_set_conv_nth split: option.splits)

subsection \<open>Reconstruction by the slave\<close>

interpretation namecmp: three_way "\<lambda>a b. Compare (Name a) (Name b)" "\<lambda>a :: RR. Name a"
  by unfold_locales auto

text \<open>What the loop enters for a record: the label of the owner and the copied fields.\<close>

definition rebuildEntry :: "RR \<Rightarrow> gostring \<times> NSEC3Record" where
  "rebuildEntry rr = (take (the (IndexByte (Name rr) dot)) (Name rr),
     \<lparr> nHashAlgorithm = HashAlgorithm (Opts rr), nFlags = NSEC3_Flags (Opts rr), nIterations = Iterations (Opts rr),
       nSalt = Salt (Opts rr), nNextHash = NextHash (Opts rr), nTypes = Types (Opts rr) \<rparr>)"

definition is_nsec3 :: "RR \<Rightarrow> bool" where
  "is_nsec3 rr \<longleftrightarrow> (\<exists>a f i s n t. Opts rr = RRoptsNSEC3 a f i s n t) \<and> dot \<in> set (Name rr)"

lemma rebuildByHash_ok:
  assumes "list_all is_nsec3 rrs"
  shows "rebuildByHash m rrs = Inr (foldl (\<lambda>m e. mapPut (fst e) (snd e) m) m (map rebuildEntry rrs))"
  using assms
proof (induction rrs arbitrary: m)
  case (Cons rr rrs)
  then obtain i where "IndexByte (Name rr) dot = Some i"
    using IndexByte_None [of "Name rr" dot] by (auto simp: is_nsec3_def)
  with Cons show ?case by (auto simp: is_nsec3_def rebuildEntry_def)
qed simp

lemma map_of_foldl_mapPut:
  assumes "distinct (map fst es)"
  shows "map_of (foldl (\<lambda>m e. mapPut (fst e) (snd e) m) m es) k =
    (case map_of es k of None \<Rightarrow> map_of m k | Some v \<Rightarrow> Some v)"
  using assms
proof (induction es arbitrary: m)
  case (Cons e es)
  obtain j v where e: "e = (j, v)" by (cases e)
  have IH: "map_of (foldl (\<lambda>m e. mapPut (fst e) (snd e) m) (mapPut j v m) es) k =
      (case map_of es k of None \<Rightarrow> map_of (mapPut j v m) k | Some v \<Rightarrow> Some v)"
    using Cons by simp
  show ?case
  proof (cases "j = k")
    case True
    then have "map_of es k = None" using Cons.prems e by (simp add: map_of_eq_None_iff)
    then show ?thesis using IH e True by (simp add: map_of_mapPut)
  next
    case False
    then show ?thesis using IH e by (cases "map_of es k") (simp_all add: map_of_mapPut)
  qed
qed simp

lemma keys_foldl_mapPut: "fst ` set (foldl (\<lambda>m e. mapPut (fst e) (snd e) m) m es) = fst ` set m \<union> fst ` set es"
  by (induction es arbitrary: m) (auto simp: keys_mapPut)

lemma AsRR_entry:
  assumes "is_ascii zone"
  shows "is_nsec3 (NSEC3_AsRR uni uup n h zone ttl)"
    and "rebuildEntry (NSEC3_AsRR uni uup n h zone ttl) = (map lower_byte (EncodeToString h), n)"
proof -
  have o: "Opts (NSEC3_AsRR uni uup n h zone ttl) = RRoptsNSEC3 (nHashAlgorithm n) (nFlags n) (nIterations n)
      (nSalt n) (nNextHash n) (nTypes n)" by (simp add: NSEC3_AsRR_def Let_def)
  then show "is_nsec3 (NSEC3_AsRR uni uup n h zone ttl)" by (simp add: is_nsec3_def NSEC3_AsRR_name [OF assms])
  show "rebuildEntry (NSEC3_AsRR uni uup n h zone ttl) = (map lower_byte (EncodeToString h), n)"
    using o owner_prefix [of h "map lower_byte zone"]
    by (simp add: rebuildEntry_def NSEC3_AsRR_name [OF assms] del: take_append)
qed

lemma chain_entries:
  assumes b: "BuildNSEC3Chain uni uup sha1 ord d p = Inr (c, param)" and z: "is_ascii (Zone d)"
    and o: "\<And>ns. mset (ord ns) = mset ns" and nc: "no_collision sha1 d p"
  shows "list_all is_nsec3 (Records c)" "distinct (map fst (map rebuildEntry (Records c)))"
    "byHash c = foldl (\<lambda>m e. mapPut (fst e) (snd e) m) [] (map rebuildEntry (Records c))"
    "fst ` set (map rebuildEntry (Records c)) = (\<lambda>h. map lower_byte (EncodeToString h)) ` name_hashes sha1 d p"
proof -
  let ?H = "sortedHashes sha1 ord d p"
  have R: "map rebuildEntry (Records c) =
      map (\<lambda>i. (map lower_byte (EncodeToString (snd (?H ! i))), nsec3At d p ?H i)) [0..<length ?H]"
    unfolding BuildNSEC3Chain_Inr(4) [OF b] by (simp add: AsRR_entry [OF z])
  show "list_all is_nsec3 (Records c)"
    unfolding BuildNSEC3Chain_Inr(4) [OF b] by (simp add: list_all_iff AsRR_entry [OF z])
  have keys: "map fst (map rebuildEntry (Records c)) = map (\<lambda>h. map lower_byte (EncodeToString h)) (map snd ?H)"
    unfolding R by (rule nth_equalityI) auto
  have "distinct (map snd ?H)" using sortedHashes_facts(1) [OF o nc] by (simp add: strict_sorted_iff)
  then show "distinct (map fst (map rebuildEntry (Records c)))"
    unfolding keys by (subst distinct_map) (auto simp: inj_on_def encoded_lower_inj simp del: map_map)
  show "byHash c = foldl (\<lambda>m e. mapPut (fst e) (snd e) m) [] (map rebuildEntry (Records c))"
    unfolding R BuildNSEC3Chain_Inr(5) [OF b] by (simp add: foldl_map)
  show "fst ` set (map rebuildEntry (Records c)) = (\<lambda>h. map lower_byte (EncodeToString h)) ` name_hashes sha1 d p"
  proof -
    have "fst ` set (map rebuildEntry (Records c)) = set (map fst (map rebuildEntry (Records c)))"
      by (simp only: set_map)
    also have "\<dots> = (\<lambda>h. map lower_byte (EncodeToString h)) ` set (map snd ?H)" by (simp only: keys set_map)
    finally show ?thesis by (simp only: sortedHashes_facts(2) [OF o nc])
  qed
qed

lemma Rebuild_chain:
  assumes b: "BuildNSEC3Chain uni uup sha1 ord d p = Inr (c, param)" and z: "is_ascii (Zone d)"
    and o: "\<And>ns. mset (ord ns) = mset ns" and nc: "no_collision sha1 d p"
    and n: "mset (mapGet (ByType d') TypeNSEC3) = mset (Records c)"
    and pr: "mapGet (ByType d') TypeNSEC3PARAM = [param]"
  obtains c' where "RebuildNSEC3Chain d' = Inr c'" "Params c' = Params c" "mset (Records c') = mset (Records c)"
    "map_of (byHash c') = map_of (byHash c)"
proof -
  let ?s = "SortFunc (\<lambda>a b. Compare (Name a) (Name b)) (mapGet (ByType d') TypeNSEC3)"
  note e = chain_entries [OF b z o nc]
  have ms: "mset ?s = mset (Records c)" using n by (simp add: namecmp.SortFunc_sort)
  then have all: "list_all is_nsec3 ?s" using e(1) mset_eq_setD [OF ms] by (simp add: list_all_iff)
  have msE: "mset (map rebuildEntry ?s) = mset (map rebuildEntry (Records c))" using ms by simp
  have d1: "distinct (map fst (map rebuildEntry ?s))"
    using e(2) msE by (metis mset_eq_imp_distinct_iff mset_map)
  have mo: "map_of (map rebuildEntry ?s) = map_of (map rebuildEntry (Records c))"
    using e(2) d1 mset_eq_setD [OF msE] by (intro map_of_inject_set [THEN iffD2])
  let ?bh = "foldl (\<lambda>m e. mapPut (fst e) (snd e) m) [] (map rebuildEntry ?s)"
  have "map_of ?bh = map_of (byHash c)"
    unfolding e(3) using map_of_foldl_mapPut [OF d1, of "[]"] map_of_foldl_mapPut [OF e(2), of "[]"] mo
    by (intro ext) simp
  moreover have "RebuildNSEC3Chain d' = Inr \<lparr> Params = p, Records = ?s, byHash = ?bh \<rparr>"
    using rebuildByHash_ok [OF all, of "[]"] pr BuildNSEC3Chain_Inr(3) [OF b]
    by (simp add: RebuildNSEC3Chain_def Let_def PARAM_AsRR_def)
  ultimately show thesis using that ms BuildNSEC3Chain_Inr(2) [OF b] by simp
qed

subsection \<open>Candidates and the closest encloser\<close>

lemma findIdx_bound: "findIdx P xs = Some i \<Longrightarrow> i < length xs \<and> P (xs ! i) \<and> (\<forall>j < i. \<not> P (xs ! j))"
proof (induction xs arbitrary: i)
  case (Cons x xs)
  then show ?case by (cases i) (auto split: if_splits simp: less_Suc_eq_0_disj)
qed simp

lemma findIdx_None: "findIdx P xs = None \<longleftrightarrow> (\<forall>x \<in> set xs. \<not> P x)"
  by (induction xs) auto

lemma Join_no_trailing_dot:
  assumes "fitting_labels ls" "ls \<noteq> []" shows "Join [dot] ls \<noteq> [] \<and> last (Join [dot] ls) \<noteq> dot"
  using assms
proof (induction ls)
  case (Cons l ls)
  then have "l \<noteq> []" "dot \<notin> set l" by auto
  then have "last l \<noteq> dot" by (metis last_in_set)
  show ?case
  proof (cases "ls = []")
    case False
    then show ?thesis using Cons by (simp add: Join_Cons)
  qed (use \<open>l \<noteq> []\<close> \<open>last l \<noteq> dot\<close> in simp)
qed simp

lemma buildCandidates_labels:
  assumes "fitting_labels ls" "ls \<noteq> []" "wf_name zone"
  shows "buildCandidates (fqdn_of ls @ zone) zone = map (\<lambda>i. fqdn_of (drop i ls) @ zone) [0..<length ls]"
proof -
  note j = Join_no_trailing_dot [OF assms(1,2)]
  have "fqdn_of ls @ zone = Join [dot] ls @ [dot] @ zone" using assms(2) by (simp add: fqdn_of_Join)
  then have r1: "TrimSuffix (fqdn_of ls @ zone) (lit ''.'' @ zone) = Join [dot] ls"
    by (simp only: lit_dot_eq TrimSuffix_append)
  have "\<not> HasSuffix (Join [dot] ls) [dot]" using j by (auto simp: HasSuffix_iff)
  then have r2: "TrimSuffix (Join [dot] ls) (lit ''.'') = Join [dot] ls" by (simp add: lit_dot_eq TrimSuffix_not)
  have "Join [dot] ls \<noteq> zone" using j assms(3) by (auto simp: wf_name_def)
  moreover have "Split dot (Join [dot] ls) = ls"
    using assms by (intro Split_Join) (auto simp: fitting_labels_def)
  moreover have "Join [dot] (drop i ls) @ [dot] @ zone = fqdn_of (drop i ls) @ zone" if "i < length ls" for i
    using that by (simp add: fqdn_of_Join)
  ultimately show ?thesis
    using j r1 r2 by (auto simp: buildCandidates_def Let_def lit_dot_eq)
qed

lemma closestEncloser_total:
  "candidates \<noteq> [] \<Longrightarrow> \<exists>r. closestEncloser uni sha1 c queried zone candidates = Some r"
proof (cases "findIdx (\<lambda>cand. mapHas (byHash c) (hashLabel uni sha1 c cand)) candidates")
  case (Some i)
  then have "i < length candidates" using findIdx_bound by blast
  with Some show ?thesis by (simp add: closestEncloser_def)
qed (simp add: closestEncloser_def)

lemma encloserRecords_total:
  assumes "LookupByType uni d (hashLabel uni sha1 c ce @ lit ''.'' @ zone) TypeNSEC3 = Some l"
  shows "\<exists>r. encloserRecords uni uup sha1 c zone d ce nc = Some r"
  using assms by (cases l) (auto simp: encloserRecords_def Let_def split: sum.splits)

lemma wf_hash_owner: "wf_name zone \<Longrightarrow> wf_name (h @ lit ''.'' @ zone)"
  by (cases "zone = []") (simp_all add: wf_name_def lit_def dot_def)

lemma ClosestEncloserProof_total:
  assumes "keeps_dot uni" "names_ok rs" "wf_name zone"
  shows "\<exists>r. ClosestEncloserProof uni uup sha1 c queried zone (NewDB z rs \<lparr> DNSSECEnabled := b \<rparr>) = Some r"
proof (cases "buildCandidates queried zone = []")
  case False
  let ?db = "NewDB z rs \<lparr> DNSSECEnabled := b \<rparr>"
  have look: "\<exists>l. LookupByType uni ?db (h @ lit ''.'' @ zone) TypeNSEC3 = Some l" for h
    using LookupByType_NewDB [OF assms(1) wf_hash_owner [OF assms(3)] assms(2)] by blast
  have enc: "\<exists>r. encloserRecords uni uup sha1 c zone ?db ce nc = Some r" for ce nc
    using look [of "hashLabel uni sha1 c ce"] encloserRecords_total by blast
  obtain r where "closestEncloser uni sha1 c queried zone (buildCandidates queried zone) = Some r"
    using closestEncloser_total [OF False] by blast
  then show ?thesis using False enc by (auto simp: ClosestEncloserProof_def Let_def split: sum.splits)
qed (simp add: ClosestEncloserProof_def Let_def)

text \<open>What a returned proof consists of.\<close>

lemma encloserRecords_Inr:
  assumes "encloserRecords uni uup sha1 c zone d ce nc = Some (Inr pf)"
  shows "\<exists>l. LookupByType uni d (hashLabel uni sha1 c ce @ lit ''.'' @ zone) TypeNSEC3 = Some (ClosestEncloser pf # l)"
    "findCovering uup c (HashName sha1 nc (pIterations (Params c)) (pSalt (Params c))) = Inr (NextCloser pf)"
    "findCovering uup c (HashName sha1 (lit ''*.'' @ ce) (pIterations (Params c)) (pSalt (Params c)))
       = Inr (WildcardAtCE pf)"
proof -
  obtain ceRR where l: "LookupByType uni d (hashLabel uni sha1 c ce @ lit ''.'' @ zone) TypeNSEC3 = Some ceRR"
    using assms by (auto simp: encloserRecords_def Let_def bind_eq_Some_conv)
  obtain x xs where x: "ceRR = x # xs" using assms l by (cases ceRR) (auto simp: encloserRecords_def Let_def)
  show "\<exists>l. LookupByType uni d (hashLabel uni sha1 c ce @ lit ''.'' @ zone) TypeNSEC3 = Some (ClosestEncloser pf # l)"
    "findCovering uup c (HashName sha1 nc (pIterations (Params c)) (pSalt (Params c))) = Inr (NextCloser pf)"
    "findCovering uup c (HashName sha1 (lit ''*.'' @ ce) (pIterations (Params c)) (pSalt (Params c)))
       = Inr (WildcardAtCE pf)"
    using assms l x by (auto simp: encloserRecords_def Let_def split: sum.splits)
qed

lemma ClosestEncloserProof_Inr:
  assumes "ClosestEncloserProof uni uup sha1 c queried zone d = Some (Inr pf)"
  obtains ce nc where
    "closestEncloser uni sha1 c queried zone (buildCandidates queried zone) = Some (Inr (ce, nc))"
    "encloserRecords uni uup sha1 c zone d ce nc = Some (Inr pf)"
proof -
  obtain y where y: "closestEncloser uni sha1 c queried zone (buildCandidates queried zone) = Some y"
    "(case y of Inl err \<Rightarrow> Some (Inl err)
      | Inr (ceName, ncName) \<Rightarrow> encloserRecords uni uup sha1 c zone d ceName ncName) = Some (Inr pf)"
    using assms by (auto simp: ClosestEncloserProof_def Let_def bind_eq_Some_conv split: if_splits)
  then show thesis using that by (cases y) auto
qed

lemma closestEncloser_Inr:
  assumes "closestEncloser uni sha1 c queried zone cands = Some (Inr (ce, nc))"
  shows "\<exists>i < length cands. nc = cands ! i \<and> \<not> mapHas (byHash c) (hashLabel uni sha1 c nc)
    \<and> (\<forall>j \<le> i. \<not> mapHas (byHash c) (hashLabel uni sha1 c (cands ! j)))
    \<and> mapHas (byHash c) (hashLabel uni sha1 c ce)
    \<and> ce = (if Suc i = length cands then zone else cands ! Suc i)"
proof (cases "findIdx (\<lambda>cand. mapHas (byHash c) (hashLabel uni sha1 c cand)) cands")
  case None
  have f: "cands \<noteq> []" "mapHas (byHash c) (hashLabel uni sha1 c zone)" "ce = zone" "nc = cands ! (length cands - 1)"
    using assms unfolding closestEncloser_def None by (auto split: if_splits)
  have "\<forall>x \<in> set cands. \<not> mapHas (byHash c) (hashLabel uni sha1 c x)" using None by (simp add: findIdx_None)
  then have "\<forall>j < length cands. \<not> mapHas (byHash c) (hashLabel uni sha1 c (cands ! j))" by simp
  with f show ?thesis by (intro exI [of _ "length cands - 1"]) (auto simp: le_diff_conv2 Suc_le_eq)
next
  case (Some i)
  note b = findIdx_bound [OF Some]
  have i: "0 < i" using assms unfolding closestEncloser_def Some by (cases i) auto
  have "ce = cands ! i" "nc = cands ! (i - 1)"
    using assms b i unfolding closestEncloser_def Some by auto
  with b i show ?thesis by (intro exI [of _ "i - 1"]) auto
qed

subsection \<open>Properties\<close>

text \<open>C6: The chain is a ring without gaps: for a database whose names have distinct hashes,
  \<open>findCovering\<close> finds a record for a hash exactly when no name of the database has that
  hash. So every name that is not in the zone can be denied, and no name of the zone is
  ever denied, whatever order the names are visited in.\<close>

theorem NSEC3_chain_covers_exactly_absent:
  assumes "BuildNSEC3Chain uni uup sha1 ord d p = Inr (c, param)"
    and "is_ascii (Zone d)" "\<And>ns. mset (ord ns) = mset ns" "no_collision sha1 d p"
  shows "(\<exists>rr. findCovering uup c t = Inr rr) \<longleftrightarrow>
    t \<notin> (\<lambda>n. HashName sha1 n (pIterations p) (pSalt p)) ` fst ` set (ByName d)"
  using chain_covers [OF assms] by (simp add: findCovering_iff name_hashes_def)

text \<open>A toy hash for concrete runs: the last bytes of the name, padded to four.\<close>

definition toy_hash :: hashfun where
  "toy_hash bs = take 4 bs @ replicate (4 - length bs) 0"

lemma Build_sample:
  obtains c param where "BuildNSEC3Chain uni uup toy_hash ord (NewDB (lit ''example.'') sample_records)
    DefaultNSEC3PARAMRecord = Inr (c, param)"
proof -
  have "ByName (NewDB (lit ''example.'') sample_records) \<noteq> []" by code_simp
  then show thesis using that by (simp add: BuildNSEC3Chain_def Let_def)
qed

lemma sample_facts:
  "is_ascii (Zone (NewDB (lit ''example.'') sample_records))"
  "no_collision toy_hash (NewDB (lit ''example.'') sample_records) DefaultNSEC3PARAMRecord"
  "[1, 2, 3, 4] \<notin> (\<lambda>n. HashName toy_hash n (pIterations DefaultNSEC3PARAMRecord) (pSalt DefaultNSEC3PARAMRecord))
     ` fst ` set (ByName (NewDB (lit ''example.'') sample_records))"
  by code_simp+

theorem NSEC3_chain_covers_exactly_absent_witness:
  "\<exists>c param. BuildNSEC3Chain (\<lambda>s. s) (\<lambda>s. s) toy_hash rev (NewDB (lit ''example.'') sample_records)
      DefaultNSEC3PARAMRecord = Inr (c, param)
    \<and> (\<exists>rr. findCovering (\<lambda>s. s) c [1, 2, 3, 4] = Inr rr)"
proof -
  obtain c param where c: "BuildNSEC3Chain (\<lambda>s. s) (\<lambda>s. s) toy_hash rev (NewDB (lit ''example.'') sample_records)
      DefaultNSEC3PARAMRecord = Inr (c, param)"
    by (rule Build_sample)
  from NSEC3_chain_covers_exactly_absent [OF c sample_facts(1) _ sample_facts(2), of "[1, 2, 3, 4]"] sample_facts(3) c
  show ?thesis by auto
qed

text \<open>The slave reconstructs the chain the master built: from a database that holds the
  chain's records in any order and the parameter record, \<open>RebuildNSEC3Chain\<close> returns a
  chain with the same parameters, the same records and the same hash index.\<close>

theorem RebuildNSEC3Chain_restores:
  assumes "BuildNSEC3Chain uni uup sha1 ord d p = Inr (c, param)"
    and "is_ascii (Zone d)" "\<And>ns. mset (ord ns) = mset ns" "no_collision sha1 d p"
    and "mset (mapGet (ByType d') TypeNSEC3) = mset (Records c)"
    and "mapGet (ByType d') TypeNSEC3PARAM = [param]"
  shows "\<exists>c'. RebuildNSEC3Chain d' = Inr c' \<and> Params c' = Params c
    \<and> mset (Records c') = mset (Records c) \<and> (\<forall>k. map_of (byHash c') k = map_of (byHash c) k)"
  using Rebuild_chain [OF assms] by metis

theorem RebuildNSEC3Chain_restores_witness:
  "\<exists>c param c'. BuildNSEC3Chain (\<lambda>s. s) (\<lambda>s. s) toy_hash (\<lambda>ns. ns) (NewDB (lit ''example.'') sample_records)
      DefaultNSEC3PARAMRecord = Inr (c, param)
    \<and> RebuildNSEC3Chain (NewDB (lit ''example.'') (sample_records @ Records c @ [param])) = Inr c'
    \<and> mset (Records c') = mset (Records c)"
proof -
  let ?d = "NewDB (lit ''example.'') sample_records" and ?p = DefaultNSEC3PARAMRecord
  obtain c param where c: "BuildNSEC3Chain (\<lambda>s. s) (\<lambda>s. s) toy_hash (\<lambda>ns. ns) ?d ?p = Inr (c, param)"
    by (rule Build_sample)
  let ?d' = "NewDB (lit ''example.'') (sample_records @ Records c @ [param])"
  have t: "list_all (\<lambda>rr. RRtype rr = TypeNSEC3) (Records c)" "RRtype param = TypeNSEC3PARAM"
    unfolding BuildNSEC3Chain_Inr(3,4) [OF c] by (auto simp: list_all_iff NSEC3_AsRR_def PARAM_AsRR_def Let_def)
  have s: "filter (\<lambda>rr. RRtype rr = TypeNSEC3) sample_records = []"
    "filter (\<lambda>rr. RRtype rr = TypeNSEC3PARAM) sample_records = []" by code_simp+
  have "mapGet (ByType ?d') TypeNSEC3 = Records c" "mapGet (ByType ?d') TypeNSEC3PARAM = [param]"
    unfolding by_type.get_NewDB filter_append s using t
    by (auto simp: list_all_iff filter_id_conv filter_empty_conv)
  then show ?thesis
    using RebuildNSEC3Chain_restores [OF c sample_facts(1) _ sample_facts(2), of ?d'] c by auto
qed

text \<open>C31: A closest-encloser proof is right: for a name made of labels above the zone apex, the
  records returned are the NSEC3 record of an ancestor (or the apex) whose hash is in the
  chain, a record covering the hash of the name one label below it on the way to the
  queried name, with no name in between in the chain, and a record covering the hash of
  the wildcard below the ancestor.\<close>

theorem ClosestEncloserProof_sound:
  assumes "ClosestEncloserProof uni uup sha1 c (fqdn_of ls @ zone) zone d = Some (Inr pf)"
    and "fitting_labels ls" "ls \<noteq> []" "wf_name zone"
  shows "\<exists>i < length ls. (\<forall>j \<le> i. \<not> mapHas (byHash c) (hashLabel uni sha1 c (fqdn_of (drop j ls) @ zone)))
    \<and> mapHas (byHash c) (hashLabel uni sha1 c (fqdn_of (drop (Suc i) ls) @ zone))
    \<and> (\<exists>l. LookupByType uni d (hashLabel uni sha1 c (fqdn_of (drop (Suc i) ls) @ zone) @ lit ''.'' @ zone) TypeNSEC3
           = Some (ClosestEncloser pf # l))
    \<and> recordCovers uup (HashName sha1 (fqdn_of (drop i ls) @ zone) (pIterations (Params c)) (pSalt (Params c)))
        (NextCloser pf)
    \<and> recordCovers uup (HashName sha1 (lit ''*.'' @ fqdn_of (drop (Suc i) ls) @ zone)
        (pIterations (Params c)) (pSalt (Params c))) (WildcardAtCE pf)"
proof -
  obtain ce nc where
    c: "closestEncloser uni sha1 c (fqdn_of ls @ zone) zone (buildCandidates (fqdn_of ls @ zone) zone) = Some (Inr (ce, nc))"
    and e: "encloserRecords uni uup sha1 c zone d ce nc = Some (Inr pf)"
    using ClosestEncloserProof_Inr [OF assms(1)] .
  let ?cands = "map (\<lambda>i. fqdn_of (drop i ls) @ zone) [0..<length ls]"
  obtain i where i: "i < length ?cands" "nc = ?cands ! i"
    "\<forall>j \<le> i. \<not> mapHas (byHash c) (hashLabel uni sha1 c (?cands ! j))"
    "mapHas (byHash c) (hashLabel uni sha1 c ce)" "ce = (if Suc i = length ?cands then zone else ?cands ! Suc i)"
    using closestEncloser_Inr [OF c [unfolded buildCandidates_labels [OF assms(2-4)]]] by blast
  have nc: "nc = fqdn_of (drop i ls) @ zone" and ce: "ce = fqdn_of (drop (Suc i) ls) @ zone"
    using i(1,2,5) by auto
  have "\<forall>j \<le> i. \<not> mapHas (byHash c) (hashLabel uni sha1 c (fqdn_of (drop j ls) @ zone))"
    using i(1,3) by auto
  then show ?thesis
    using i(1,4) encloserRecords_Inr [OF e] findCovering_Inr unfolding nc ce by (intro exI [of _ i]) auto
qed

definition sample_chain :: NSEC3Chain where
  "sample_chain =
     (let h = HashName toy_hash (lit ''example.'') 0 [];
          n = \<lparr> nHashAlgorithm = 1, nFlags = 0, nIterations = 0, nSalt = [], nNextHash = h, nTypes = [2] \<rparr>
      in \<lparr> Params = DefaultNSEC3PARAMRecord,
           Records = [NSEC3_AsRR (\<lambda>s. s) (\<lambda>s. s) n h (lit ''example.'') 300],
           byHash = [(map lower_byte (EncodeToString h), n)] \<rparr>)"

theorem ClosestEncloserProof_sound_witness:
  "\<exists>pf i. ClosestEncloserProof (\<lambda>s. s) (\<lambda>s. s) toy_hash sample_chain (lit ''x.y.example.'') (lit ''example.'')
        (NewDB (lit ''example.'') (Records sample_chain)) = Some (Inr pf)
    \<and> recordCovers (\<lambda>s. s) (HashName toy_hash (fqdn_of (drop i [lit ''x'', lit ''y'']) @ lit ''example.'')
        (pIterations (Params sample_chain)) (pSalt (Params sample_chain))) (NextCloser pf)"
proof -
  have "ok_result (ClosestEncloserProof (\<lambda>s. s) (\<lambda>s. s) toy_hash sample_chain (lit ''x.y.example.'')
         (lit ''example.'') (NewDB (lit ''example.'') (Records sample_chain)))"
    by code_simp
  then obtain pf where pf: "ClosestEncloserProof (\<lambda>s. s) (\<lambda>s. s) toy_hash sample_chain (lit ''x.y.example.'')
         (lit ''example.'') (NewDB (lit ''example.'') (Records sample_chain)) = Some (Inr pf)"
    by (rule ok_resultE)
  have n: "lit ''x.y.example.'' = fqdn_of [lit ''x'', lit ''y''] @ lit ''example.''"
    and f: "fitting_labels [lit ''x'', lit ''y'']" "[lit ''x'', lit ''y''] \<noteq> []" "wf_name (lit ''example.'')"
    by code_simp+
  from ClosestEncloserProof_sound [OF pf [unfolded n] f] pf show ?thesis by blast
qed

end
