(* ===== verification/DNS_Response.thy ===== *)
theory DNS_Response
  imports RR_Types
begin

text \<open>
  Building response messages, after \<^verbatim>\<open>internal/dns/response/response.go\<close>: the
  header with its flags and counts, the sections, the minimal error and truncation responses,
  and the EDNS OPT record appended at the end.
\<close>

subsection \<open>Constants\<close>

definition FlagQR :: "16 word" where "FlagQR = push_bit 15 1"
definition FlagAA :: "16 word" where "FlagAA = push_bit 10 1"
definition FlagTC :: "16 word" where "FlagTC = push_bit 9 1"
definition FlagRD :: "16 word" where "FlagRD = push_bit 8 1"

definition RcodeNoError :: "16 word" where "RcodeNoError = 0"
definition RcodeServFail :: "16 word" where "RcodeServFail = 2"
definition RcodeNXDomain :: "16 word" where "RcodeNXDomain = 3"
definition RcodeRefused :: "16 word" where "RcodeRefused = 5"

definition optType :: "16 word" where "optType = 41"
definition optUDPSize :: "16 word" where "optUDPSize = 4096"
definition ednsVersion :: byte where "ednsVersion = 0"
definition EDNSDOBit :: "16 word" where "EDNSDOBit = 0x8000"

lemmas rcode_defs = RcodeNoError_def RcodeServFail_def RcodeNXDomain_def RcodeRefused_def

subsection \<open>The code\<close>

text \<open>One section: the records one after the other; a record of unknown type panics.\<close>

fun writeSection :: "unilower \<Rightarrow> RR list \<Rightarrow> bytes go" where
  "writeSection uni [] = Some []"
| "writeSection uni (rr # rrs) =
     (case BinaryWrite uni rr of
        (b, Some err) \<Rightarrow> None
      | (b, None) \<Rightarrow> do { rest \<leftarrow> writeSection uni rrs; Some (b @ rest) })"

text \<open>The question is \<open>None\<close> for \<open>nil\<close>; only then is \<open>QDCOUNT\<close> zero.\<close>

definition BuildResponse ::
  "unilower \<Rightarrow> 16 word \<Rightarrow> 16 word \<Rightarrow> bytes option \<Rightarrow> RR list \<Rightarrow> RR list \<Rightarrow> RR list \<Rightarrow> 16 word \<Rightarrow> bytes go" where
  "BuildResponse uni txid queryFlags question answers additional authority rcode = do {
     let rd = queryFlags AND FlagRD;
     let respFlags = FlagQR OR FlagAA OR rd OR (rcode AND 0xf);
     let qdCount = (if question \<noteq> None then 1 else 0);
     an \<leftarrow> writeSection uni answers;
     ns \<leftarrow> writeSection uni authority;
     ar \<leftarrow> writeSection uni additional;
     Some (put16 txid @ put16 respFlags @ put16 qdCount @ put16 (u16_of (length answers))
           @ put16 (u16_of (length authority)) @ put16 (u16_of (length additional))
           @ (case question of None \<Rightarrow> [] | Some q \<Rightarrow> q) @ an @ ns @ ar)
   }"

definition RefusedResponse :: "unilower \<Rightarrow> 16 word \<Rightarrow> 16 word \<Rightarrow> bytes go" where
  "RefusedResponse uni txid queryFlags = BuildResponse uni txid queryFlags None [] [] [] RcodeRefused"

definition ServfailResponse :: "unilower \<Rightarrow> 16 word \<Rightarrow> 16 word \<Rightarrow> bytes go" where
  "ServfailResponse uni txid queryFlags = BuildResponse uni txid queryFlags None [] [] [] RcodeServFail"

definition TruncatedResponse :: "16 word \<Rightarrow> 16 word \<Rightarrow> bool \<Rightarrow> bytes" where
  "TruncatedResponse txid queryFlags aa =
     (let rd = queryFlags AND FlagRD;
          flags = FlagQR OR FlagTC OR rd;
          flags' = (if aa then flags OR FlagAA else flags)
      in put16 txid @ put16 flags' @ replicate 8 0)"

definition AppendOPT :: "bytes \<Rightarrow> bool \<Rightarrow> byte \<Rightarrow> bytes go" where
  "AppendOPT msg doBit extRcodeHigh =
     (if length msg < 12 then Some msg
      else do {
        arCount \<leftarrow> be16 msg 10;
        let flags = (if doBit then EDNSDOBit else 0);
        Some (take 10 msg @ put16 (arCount + 1) @ drop 12 msg
              @ [0] @ put16 optType @ put16 optUDPSize @ [extRcodeHigh, ednsVersion]
              @ put16 flags @ put16 0)
      })"

subsection \<open>Layout\<close>

definition known_type :: "RR \<Rightarrow> bool" where
  "known_type rr \<longleftrightarrow> RRtypeToWire (RRtype rr) \<noteq> None"

lemma BinaryWrite_known: "known_type rr \<longleftrightarrow> snd (BinaryWrite uni rr) = None"
  by (auto simp: known_type_def BinaryWrite_def Let_def split: option.splits)

lemma writeSection_known:
  assumes "list_all known_type rrs"
  shows "writeSection uni rrs = Some (concat (map (\<lambda>rr. fst (BinaryWrite uni rr)) rrs))"
  using assms
proof (induction rrs)
  case (Cons rr rrs)
  then have "snd (BinaryWrite uni rr) = None" using BinaryWrite_known by simp
  then have "BinaryWrite uni rr = (fst (BinaryWrite uni rr), None)" by (metis prod.collapse)
  with Cons show ?case by (auto split: prod.splits)
qed simp

lemma writeSection_total: "list_all known_type rrs \<Longrightarrow> writeSection uni rrs \<noteq> None"
  by (simp add: writeSection_known)

lemma BuildResponse_known:
  assumes "list_all known_type answers" "list_all known_type additional" "list_all known_type authority"
  shows "\<exists>body. BuildResponse uni txid qf question answers additional authority rcode =
    Some (put16 txid @ put16 (FlagQR OR FlagAA OR (qf AND FlagRD) OR (rcode AND 0xf))
      @ put16 (if question = None then 0 else 1) @ put16 (u16_of (length answers))
      @ put16 (u16_of (length authority)) @ put16 (u16_of (length additional)) @ body)"
  using assms by (auto simp: BuildResponse_def writeSection_known Let_def)

lemma BuildResponse_length:
  "BuildResponse uni txid qf question answers additional authority rcode = Some resp \<Longrightarrow> 12 \<le> length resp"
  by (auto simp: BuildResponse_def Let_def bind_eq_Some_conv)

lemma RefusedResponse_eq:
  "RefusedResponse uni txid qf =
     Some (put16 txid @ put16 (FlagQR OR FlagAA OR (qf AND FlagRD) OR 5) @ replicate 8 0)"
proof -
  have "(5 :: 16 word) AND 0xf = 5" "put16 0 @ put16 0 @ put16 0 @ put16 0 = replicate 8 0" by code_simp+
  then show ?thesis by (simp add: RefusedResponse_def BuildResponse_def RcodeRefused_def Let_def)
qed

lemma AppendOPT_total: "12 \<le> length msg \<Longrightarrow> \<exists>r. AppendOPT msg d e = Some r \<and> length r = length msg + 11"
  by (simp add: AppendOPT_def be16_def Let_def)

text \<open>The flag word: which bits a response sets.\<close>

lemma flag_bits:
  "bit (FlagQR OR FlagAA OR (qf AND FlagRD) OR (rcode AND 0xf)) 15"
  "bit (FlagQR OR FlagAA OR (qf AND FlagRD) OR (rcode AND 0xf)) 10"
  "bit (FlagQR OR FlagAA OR (qf AND FlagRD) OR (rcode AND 0xf)) 8 \<longleftrightarrow> bit qf 8"
  "\<not> bit (FlagQR OR FlagAA OR (qf AND FlagRD) OR (rcode AND 0xf)) 9"
  "take_bit 4 (FlagQR OR FlagAA OR (qf AND FlagRD) OR (rcode AND 0xf)) = take_bit 4 rcode"
proof -
  have m: "rcode AND 0xf = take_bit 4 rcode" by (simp add: take_bit_eq_mask mask_eq_exp_minus_1)
  show "bit (FlagQR OR FlagAA OR (qf AND FlagRD) OR (rcode AND 0xf)) 15"
    "bit (FlagQR OR FlagAA OR (qf AND FlagRD) OR (rcode AND 0xf)) 10"
    "bit (FlagQR OR FlagAA OR (qf AND FlagRD) OR (rcode AND 0xf)) 8 \<longleftrightarrow> bit qf 8"
    "\<not> bit (FlagQR OR FlagAA OR (qf AND FlagRD) OR (rcode AND 0xf)) 9"
    unfolding m FlagQR_def FlagAA_def FlagRD_def by (auto simp: bit_simps)
  show "take_bit 4 (FlagQR OR FlagAA OR (qf AND FlagRD) OR (rcode AND 0xf)) = take_bit 4 rcode"
    unfolding m FlagQR_def FlagAA_def FlagRD_def by (rule bit_word_eqI) (auto simp: bit_simps)
qed

subsection \<open>Properties\<close>

text \<open>A response to a query is a message with the transaction id of the query, marked as an
  authoritative response (QR and AA set, TC clear), with the recursion-desired bit of the
  query and the response code in the low four bits; the counts are those of the sections,
  and the sections follow in the order question, answer, authority, additional. Building
  it does not panic when the types of the records are known.\<close>

theorem BuildResponse_layout:
  assumes "list_all known_type answers" "list_all known_type additional" "list_all known_type authority"
  shows "\<exists>flags. BuildResponse uni txid qf (Some question) answers additional authority rcode =
    Some (put16 txid @ put16 flags @ put16 1 @ put16 (u16_of (length answers))
      @ put16 (u16_of (length authority)) @ put16 (u16_of (length additional)) @ question
      @ concat (map (\<lambda>rr. fst (BinaryWrite uni rr)) (answers @ authority @ additional)))
    \<and> bit flags 15 \<and> bit flags 10 \<and> \<not> bit flags 9 \<and> (bit flags 8 \<longleftrightarrow> bit qf 8)
    \<and> take_bit 4 flags = take_bit 4 rcode"
  using assms flag_bits [of qf rcode]
  by (intro exI [of _ "FlagQR OR FlagAA OR (qf AND FlagRD) OR (rcode AND 0xf)"])
    (simp add: BuildResponse_def writeSection_known Let_def)

theorem BuildResponse_layout_witness:
  "\<exists>flags. BuildResponse (\<lambda>s. s) 7 0x100 (Some [1, 2]) [NewRR (lit ''a.'') (RRoptsA [192, 0, 2, 1])] [] [] 0 =
    Some (put16 7 @ put16 flags @ put16 1 @ put16 1 @ put16 0 @ put16 0 @ [1, 2]
      @ fst (BinaryWrite (\<lambda>s. s) (NewRR (lit ''a.'') (RRoptsA [192, 0, 2, 1])))) \<and> bit flags 8"
proof -
  have "list_all known_type [NewRR (lit ''a.'') (RRoptsA [192, 0, 2, 1])]" "list_all known_type []" by code_simp+
  note BuildResponse_layout [OF this(1,2,2), of "\<lambda>s. s" 7 "0x100" "[1, 2]" 0]
  moreover have "bit (0x100 :: 16 word) 8" by code_simp
  ultimately show ?thesis by auto
qed

text \<open>\<open>AppendOPT\<close> adds exactly one eleven-byte OPT record at the end of a message, adds one
  to its additional count (modulo 2 to the 16), and changes nothing else; the record carries
  UDP size 4096, EDNS version 0, the extended response code and the DO bit.\<close>

theorem AppendOPT_adds_one_record:
  assumes "length h = 10"
  shows "AppendOPT (h @ put16 n @ rest) d ext =
    Some (h @ put16 (n + 1) @ rest @ [0] @ put16 41 @ put16 4096 @ [ext, 0]
          @ put16 (if d then 0x8000 else 0) @ put16 0)"
proof -
  have "be16 (h @ put16 n @ rest) 10 = Some n" using be16_put16 [of h n rest] assms by simp
  with assms show ?thesis
    by (simp add: AppendOPT_def Let_def optType_def optUDPSize_def ednsVersion_def EDNSDOBit_def)
qed

theorem AppendOPT_adds_one_record_witness:
  "AppendOPT (replicate 10 7 @ put16 0xFFFF) True 1 =
    Some (replicate 10 7 @ put16 0 @ [0] @ put16 41 @ put16 4096 @ [1, 0] @ put16 0x8000 @ put16 0)"
proof -
  have "(0xFFFF :: 16 word) + 1 = 0" by code_simp
  then show ?thesis using AppendOPT_adds_one_record [of "replicate 10 7" "0xFFFF" "[]" True 1]
    by (simp only: append_Nil2 append_Nil length_replicate if_True)
qed

end
