(* ===== verification/Slave_Lookup.thy ===== *)
theory Slave_Lookup
  imports NSEC3 DNS_Response
begin

text \<open>
  Answering from the database, after \<^verbatim>\<open>internal/slave/response.go\<close>: the lookup with
  CNAME and wildcard handling, the DNSSEC records and the authority section of negative
  answers. The lemmas say which answer each case gets, that every record of a response comes
  from the database (up to the owner name of a wildcard expansion), and that no lookup panics
  on a well-formed database.
\<close>

subsection \<open>The code\<close>

text \<open>From \<open>dns.go\<close>: copies of the wildcard's records with the queried name as owner.\<close>

definition synthesiseAnswers :: "RR list \<Rightarrow> Domain \<Rightarrow> RR list" where
  "synthesiseAnswers wildcardRRs queriedName = map (\<lambda>rr. rr \<lparr> Name := queriedName \<rparr>) wildcardRRs"

text \<open>The part of \<open>lookupRRset\<close> after an exact match has failed: wildcard expansion.\<close>

definition lookupWildcard :: "unilower \<Rightarrow> DB \<Rightarrow> Domain \<Rightarrow> RRtype \<Rightarrow> (16 word \<times> RR list \<times> RR list \<times> Domain) go" where
  "lookupWildcard uni currDB name rrtype =
     (let (wildcardOwner, wildcardRRs) = WildcardLookup currDB name (Zone currDB) rrtype
      in if wildcardOwner = [] then Some (RcodeNXDomain, [], [], name)
         else if length wildcardRRs = 0
         then (let cnames = (if rrtype \<noteq> TypeCNAME then LookupByName currDB wildcardOwner TypeCNAME else [])
               in if length cnames > 0
                  then do {
                    let answers = synthesiseAnswers cnames name;
                    additional \<leftarrow> LookupAdditional uni currDB answers TypeCNAME;
                    Some (RcodeNoError, answers, additional, wildcardOwner)
                  }
                  else Some (RcodeNoError, [], [], wildcardOwner))
         else do {
           let answers = synthesiseAnswers wildcardRRs name;
           additional \<leftarrow> LookupAdditional uni currDB answers rrtype;
           Some (RcodeNoError, answers, additional, wildcardOwner)
         })"

definition lookupRRset :: "unilower \<Rightarrow> DB \<Rightarrow> Domain \<Rightarrow> RRtype \<Rightarrow> (16 word \<times> RR list \<times> RR list \<times> Domain) go" where
  "lookupRRset uni currDB name rrtype = do {
     answers \<leftarrow> LookupByType uni currDB name rrtype;
     (if length answers > 0
      then do {
        additional \<leftarrow> LookupAdditional uni currDB answers rrtype;
        Some (RcodeNoError, answers, additional, name)
      }
      else do {
        cnames \<leftarrow> (if rrtype \<noteq> TypeCNAME then LookupByType uni currDB name TypeCNAME else Some []);
        (if length cnames > 0
         then do {
           additional \<leftarrow> LookupAdditional uni currDB cnames TypeCNAME;
           Some (RcodeNoError, cnames, additional, name)
         }
         else if mapHas (ByName currDB) name then Some (RcodeNoError, [], [], name)
         else lookupWildcard uni currDB name rrtype)
      })
   }"

text \<open>The RRSIG records of an owner that cover a type; a record with other data is skipped.\<close>

definition covering :: "16 word \<Rightarrow> RR list \<Rightarrow> RR list" where
  "covering typeCovered rrsigs =
     filter (\<lambda>rr. case Opts rr of RRoptsRRSIG tc _ _ _ _ _ _ _ _ \<Rightarrow> tc = typeCovered | _ \<Rightarrow> False) rrsigs"

definition rrsigsFor :: "unilower \<Rightarrow> DB \<Rightarrow> Domain \<Rightarrow> 16 word \<Rightarrow> RR list go" where
  "rrsigsFor uni currDB owner typeCovered =
     map_option (covering typeCovered) (LookupByType uni currDB owner TypeRRSIG)"

text \<open>The type that the signatures must cover: that of the first answer that is not an RRSIG.\<close>

fun coveredType :: "16 word \<Rightarrow> RR list \<Rightarrow> 16 word" where
  "coveredType qtype [] = qtype"
| "coveredType qtype (answer # answers) =
     (if RRtype answer = TypeRRSIG then coveredType qtype answers
      else case RRtypeToWire (RRtype answer) of Some wireType \<Rightarrow> wireType | None \<Rightarrow> qtype)"

fun dedupByName :: "Domain list \<Rightarrow> RR list \<Rightarrow> RR list" where
  "dedupByName seen [] = []"
| "dedupByName seen (rr # rrs) =
     (if Name rr \<in> set seen then dedupByName seen rrs
      else rr # dedupByName (Name rr # seen) rrs)"

fun proofSignatures :: "unilower \<Rightarrow> DB \<Rightarrow> RR list \<Rightarrow> RR list go" where
  "proofSignatures uni currDB [] = Some []"
| "proofSignatures uni currDB (rr # rrs) = do {
     sigs \<leftarrow> rrsigsFor uni currDB (Name rr) (the (RRtypeToWire TypeNSEC3));
     rest \<leftarrow> proofSignatures uni currDB rrs;
     Some (sigs @ rest)
   }"

definition appendDNSSEC ::
  "unilower \<Rightarrow> unilower \<Rightarrow> hashfun \<Rightarrow> DB \<Rightarrow> NSEC3Chain option \<Rightarrow> Domain \<Rightarrow> Domain \<Rightarrow> 16 word \<Rightarrow> 16 word
    \<Rightarrow> RR list \<Rightarrow> RR list \<Rightarrow> bool \<Rightarrow> (RR list \<times> RR list \<times> nsec3_error option) go" where
  "appendDNSSEC uni uup sha1 currDB chain name effectiveOwner qtype rcode answers authority doBit =
     (if \<not> doBit \<or> \<not> DNSSECEnabled currDB then Some (answers, authority, None)
      else if rcode = RcodeNoError
      then (if length answers > 0
            then do {
              sigs \<leftarrow> rrsigsFor uni currDB effectiveOwner (coveredType qtype answers);
              Some (answers @ sigs, authority, None)
            }
            else Some (answers, authority, None))
      else if rcode = RcodeNXDomain
      then (case chain of
              None \<Rightarrow> Some (answers, authority, None)
            | Some c \<Rightarrow> do {
                r \<leftarrow> ClosestEncloserProof uni uup sha1 c name (Zone currDB) currDB;
                (case r of
                   Inl err \<Rightarrow> Some (answers, authority, Some err)
                 | Inr proof \<Rightarrow> do {
                     let proofRRs = dedupByName [] [ClosestEncloser proof, NextCloser proof, WildcardAtCE proof];
                     sigs \<leftarrow> proofSignatures uni currDB proofRRs;
                     Some (answers, authority @ proofRRs @ sigs, None)
                   })
              })
      else Some (answers, authority, None))"

definition appendNegativeAuthority ::
  "unilower \<Rightarrow> DB \<Rightarrow> 16 word \<Rightarrow> RR list \<Rightarrow> RR list \<Rightarrow> bool \<Rightarrow> RR list go" where
  "appendNegativeAuthority uni currDB rcode answers authority doBit =
     (if rcode \<noteq> RcodeNXDomain \<and> \<not> (rcode = RcodeNoError \<and> length answers = 0) then Some authority
      else do {
        soaRRs \<leftarrow> LookupByType uni currDB (Zone currDB) TypeSOA;
        sigs \<leftarrow> (if doBit \<and> DNSSECEnabled currDB
                 then rrsigsFor uni currDB (Zone currDB) (the (RRtypeToWire TypeSOA)) else Some []);
        Some (authority @ soaRRs @ sigs)
      })"

subsection \<open>Databases a slave serves\<close>

definition served_zone :: "unilower \<Rightarrow> Domain \<Rightarrow> RR list \<Rightarrow> bool" where
  "served_zone uni z rs \<longleftrightarrow> keeps_dot uni \<and> wf_name z \<and> names_ok rs \<and> list_all known_type rs \<and>
     (\<forall>rr \<in> set rs. \<forall>t. additionalTarget (Opts rr) = Some t \<longrightarrow> wf_name t)"

text \<open>A record of the zone, possibly with another owner name.\<close>

definition of_zone :: "RR list \<Rightarrow> RR \<Rightarrow> bool" where
  "of_zone rs rr \<longleftrightarrow> (\<exists>r \<in> set rs. \<exists>n. rr = r \<lparr> Name := n \<rparr>)"

lemma of_zone_member: "rr \<in> set rs \<Longrightarrow> of_zone rs rr"
  unfolding of_zone_def by (intro bexI [of _ rr] exI [of _ "Name rr"]) simp_all

lemma of_zone_target:
  "served_zone uni z rs \<Longrightarrow> of_zone rs rr \<Longrightarrow> additionalTarget (Opts rr) = Some t \<Longrightarrow> wf_name t"
  by (auto simp: served_zone_def of_zone_def)

lemma of_zone_known: "served_zone uni z rs \<Longrightarrow> \<forall>rr \<in> set xs. of_zone rs rr \<Longrightarrow> list_all known_type xs"
  by (fastforce simp: served_zone_def of_zone_def list_all_iff known_type_def)

abbreviation zone_db :: "Domain \<Rightarrow> RR list \<Rightarrow> bool \<Rightarrow> DB" where
  "zone_db z rs b \<equiv> NewDB z rs \<lparr> DNSSECEnabled := b \<rparr>"

lemma zone_db_sel [simp]:
  "Zone (zone_db z rs b) = z" "DNSSECEnabled (zone_db z rs b) = b"
  "ByName (zone_db z rs b) = ByName (NewDB z rs)" "ByType (zone_db z rs b) = ByType (NewDB z rs)"
  by (simp_all add: NewDB_def)

lemma served_lookup:
  assumes "served_zone uni z rs" "wf_name n"
  shows "LookupByType uni (zone_db z rs b) n t =
    Some (filter (\<lambda>rr. ToLower uni (Name rr) = ToLower uni n \<and> RRtype rr = t) rs)"
  using assms by (intro LookupByType_NewDB) (auto simp: served_zone_def)

lemma served_additional:
  assumes "served_zone uni z rs" "\<forall>rr \<in> set answers. of_zone rs rr"
  shows "\<exists>extra. LookupAdditional uni (zone_db z rs b) answers t = Some extra \<and> set extra \<subseteq> set rs"
proof -
  have "keeps_dot uni" "names_ok rs" using assms(1) by (auto simp: served_zone_def)
  then show ?thesis
    using LookupAdditional_facts [where uni = uni and rs = rs and answers = answers and z = z and b = b and t = t]
      of_zone_target [OF assms(1)] assms(2) by blast
qed

lemma wildcardLoop_owner:
  "wildcardLoop db name zone t cur = (wc, rrs) \<Longrightarrow>
    (wc = [] \<and> rrs = []) \<or> (mapHas (ByName db) wc \<and> rrs = LookupByName db wc t)"
proof (induction db name zone t cur rule: wildcardLoop.induct)
  case (1 db name zone t cur)
  from 1(2) show ?case
    by (subst (asm) wildcardLoop.simps) (auto simp: Let_def split: option.splits if_splits dest!: 1(1))
qed

lemma WildcardLookup_owner:
  "WildcardLookup db name zone t = (wc, rrs) \<Longrightarrow>
    (wc = [] \<and> rrs = []) \<or> (mapHas (ByName db) wc \<and> rrs = LookupByName db wc t)"
  by (auto simp: WildcardLookup_def wildcardLoop_owner split: if_splits)

lemma owner_wf: "served_zone uni z rs \<Longrightarrow> mapHas (ByName (NewDB z rs)) n \<Longrightarrow> wf_name n"
  by (auto simp: by_name.has_iff served_zone_def names_ok_def)

lemma synthesised: "\<forall>rr \<in> set xs. rr \<in> set rs \<Longrightarrow> rr \<in> set (synthesiseAnswers xs n) \<Longrightarrow> of_zone rs rr"
  by (auto simp: synthesiseAnswers_def of_zone_def)

lemma lookupWildcard_ok:
  assumes "served_zone uni z rs" "wf_name name"
  shows "\<exists>rcode answers additional owner.
    lookupWildcard uni (zone_db z rs b) name t = Some (rcode, answers, additional, owner)
    \<and> rcode \<in> {RcodeNoError, RcodeNXDomain} \<and> (\<forall>rr \<in> set answers. of_zone rs rr) \<and> set additional \<subseteq> set rs
    \<and> wf_name owner"
proof -
  let ?db = "zone_db z rs b"
  obtain wc rrs where w: "WildcardLookup ?db name z t = (wc, rrs)" by fastforce
  have mem: "\<forall>rr \<in> set (LookupByName ?db n ty). rr \<in> set rs" for n ty
    by (simp add: LookupByName_NewDB)
  show ?thesis
  proof (cases "wc = []")
    case True
    then show ?thesis using w assms(2) by (simp add: lookupWildcard_def Let_def)
  next
    case False
    with WildcardLookup_owner [OF w] have wc: "mapHas (ByName (NewDB z rs)) wc" "rrs = LookupByName ?db wc t" by auto
    have owner: "wf_name wc" using owner_wf [OF assms(1) wc(1)] .
    have ans: "\<forall>rr \<in> set (synthesiseAnswers (LookupByName ?db wc ty) name). of_zone rs rr" for ty
      using synthesised mem by blast
    have add: "\<exists>extra. LookupAdditional uni ?db (synthesiseAnswers (LookupByName ?db wc ty) name) ty' = Some extra
        \<and> set extra \<subseteq> set rs" for ty ty'
      using served_additional [OF assms(1) ans] .
    show ?thesis
      using False w wc(2) owner ans [of t] ans [of TypeCNAME] add [of t t] add [of TypeCNAME TypeCNAME]
      by (auto simp: lookupWildcard_def Let_def)
  qed
qed

text \<open>The records of a name, compared without regard to case, that have a type.\<close>

definition records_at :: "unilower \<Rightarrow> RR list \<Rightarrow> Domain \<Rightarrow> RRtype \<Rightarrow> RR list" where
  "records_at uni rs name t = filter (\<lambda>rr. ToLower uni (Name rr) = ToLower uni name \<and> RRtype rr = t) rs"

lemma records_at_zone: "\<forall>rr \<in> set (records_at uni rs name t). of_zone rs rr"
  by (auto simp: records_at_def intro: of_zone_member)

lemma lookupRRset_cases:
  assumes "served_zone uni z rs" "wf_name name"
  obtains e1 e2 where "set e1 \<subseteq> set rs" "set e2 \<subseteq> set rs"
    "lookupRRset uni (zone_db z rs b) name t =
       (if records_at uni rs name t \<noteq> [] then Some (RcodeNoError, records_at uni rs name t, e1, name)
        else if t \<noteq> TypeCNAME \<and> records_at uni rs name TypeCNAME \<noteq> []
        then Some (RcodeNoError, records_at uni rs name TypeCNAME, e2, name)
        else if \<exists>rr \<in> set rs. Name rr = name then Some (RcodeNoError, [], [], name)
        else lookupWildcard uni (zone_db z rs b) name t)"
proof -
  obtain e1 where e1: "LookupAdditional uni (zone_db z rs b) (records_at uni rs name t) t = Some e1" "set e1 \<subseteq> set rs"
    using served_additional [OF assms(1) records_at_zone] by blast
  obtain e2 where e2: "LookupAdditional uni (zone_db z rs b) (records_at uni rs name TypeCNAME) TypeCNAME = Some e2"
    "set e2 \<subseteq> set rs"
    using served_additional [OF assms(1) records_at_zone] by blast
  show thesis
    using that [OF e1(2) e2(2)] e1(1) e2(1)
    by (simp add: lookupRRset_def served_lookup [OF assms] by_name.has_iff flip: records_at_def)
qed

lemma lookupRRset_ok:
  assumes "served_zone uni z rs" "wf_name name"
  shows "\<exists>rcode answers additional owner.
    lookupRRset uni (zone_db z rs b) name t = Some (rcode, answers, additional, owner)
    \<and> rcode \<in> {RcodeNoError, RcodeNXDomain} \<and> (\<forall>rr \<in> set answers. of_zone rs rr) \<and> set additional \<subseteq> set rs
    \<and> wf_name owner"
proof -
  obtain e1 e2 where e: "set e1 \<subseteq> set rs" "set e2 \<subseteq> set rs" and
    l: "lookupRRset uni (zone_db z rs b) name t =
       (if records_at uni rs name t \<noteq> [] then Some (RcodeNoError, records_at uni rs name t, e1, name)
        else if t \<noteq> TypeCNAME \<and> records_at uni rs name TypeCNAME \<noteq> []
        then Some (RcodeNoError, records_at uni rs name TypeCNAME, e2, name)
        else if \<exists>rr \<in> set rs. Name rr = name then Some (RcodeNoError, [], [], name)
        else lookupWildcard uni (zone_db z rs b) name t)"
    using lookupRRset_cases [OF assms] .
  show ?thesis
    unfolding l using e lookupWildcard_ok [OF assms, of b t] records_at_zone [of uni rs name t]
      records_at_zone [of uni rs name TypeCNAME] assms(2) by (cases "t = TypeCNAME") simp_all
qed

subsection \<open>DNSSEC and negative answers\<close>

lemma rrsigsFor_ok:
  assumes "served_zone uni z rs" "wf_name n"
  shows "\<exists>sigs. rrsigsFor uni (zone_db z rs b) n tc = Some sigs \<and> set sigs \<subseteq> set rs"
  using served_lookup [OF assms, of b TypeRRSIG] by (auto simp: rrsigsFor_def covering_def)

lemma proofSignatures_ok:
  assumes "served_zone uni z rs" "\<forall>rr \<in> set xs. wf_name (Name rr)"
  shows "\<exists>sigs. proofSignatures uni (zone_db z rs b) xs = Some sigs \<and> set sigs \<subseteq> set rs"
  using assms(2)
proof (induction xs)
  case (Cons x xs)
  then show ?case using rrsigsFor_ok [OF assms(1), of "Name x" b "the (RRtypeToWire TypeNSEC3)"] by fastforce
qed simp

lemma dedupByName_subset: "set (dedupByName seen xs) \<subseteq> set xs"
  by (induction seen xs rule: dedupByName.induct) auto

text \<open>The slave's chain holds records of its own database.\<close>

definition chain_of :: "RR list \<Rightarrow> NSEC3Chain option \<Rightarrow> bool" where
  "chain_of rs chain \<longleftrightarrow> (case chain of None \<Rightarrow> True | Some c \<Rightarrow> set (Records c) \<subseteq> set rs)"

lemma encloser_of_zone:
  assumes "served_zone uni z rs" "set (Records c) \<subseteq> set rs"
    and "ClosestEncloserProof uni uup sha1 c name z (zone_db z rs b) = Some (Inr pf)"
  shows "ClosestEncloser pf \<in> set rs" "NextCloser pf \<in> set rs" "WildcardAtCE pf \<in> set rs"
proof -
  obtain ce nc where e: "encloserRecords uni uup sha1 c z (zone_db z rs b) ce nc = Some (Inr pf)"
    using ClosestEncloserProof_Inr [OF assms(3)] by blast
  note r = encloserRecords_Inr [OF e]
  have "wf_name (hashLabel uni sha1 c ce @ lit ''.'' @ z)"
    using assms(1) wf_hash_owner by (simp add: served_zone_def)
  then show "ClosestEncloser pf \<in> set rs"
    using r(1) served_lookup [OF assms(1)] by (metis (no_types, lifting) filter_is_subset list.set_intros(1) option.inject subsetD)
  show "NextCloser pf \<in> set rs" "WildcardAtCE pf \<in> set rs"
    using r(2,3) findCovering_Inr assms(2) by blast+
qed

lemma appendDNSSEC_ok:
  assumes "served_zone uni z rs" "chain_of rs chain" "wf_name owner" "\<forall>rr \<in> set answers. of_zone rs rr"
    "set authority \<subseteq> set rs"
  shows "\<exists>answers' authority' err.
    appendDNSSEC uni uup sha1 (zone_db z rs b) chain name owner qtype rcode answers authority d =
      Some (answers', authority', err)
    \<and> (\<forall>rr \<in> set answers'. of_zone rs rr) \<and> set authority' \<subseteq> set rs
    \<and> (\<exists>sigs. answers' = answers @ sigs) \<and> (answers = [] \<longrightarrow> answers' = [])"
proof (cases "chain \<noteq> None \<and> d \<and> b \<and> rcode = RcodeNXDomain")
  case False
  obtain sigs where "rrsigsFor uni (zone_db z rs b) owner (coveredType qtype answers) = Some sigs" "set sigs \<subseteq> set rs"
    using rrsigsFor_ok [OF assms(1,3)] by blast
  then have "rrsigsFor uni (zone_db z rs b) owner (coveredType qtype answers) = Some sigs"
    "\<forall>x \<in> set sigs. of_zone rs x" using of_zone_member by blast+
  with False assms(4,5) show ?thesis by (auto simp: appendDNSSEC_def)
next
  case True
  then obtain c where c: "chain = Some c" "set (Records c) \<subseteq> set rs" using assms(2) by (auto simp: chain_of_def)
  have nx: "RcodeNXDomain \<noteq> RcodeNoError" by (simp add: rcode_defs)
  obtain r where r: "ClosestEncloserProof uni uup sha1 c name z (zone_db z rs b) = Some r"
    using ClosestEncloserProof_total [where uni = uni and rs = rs and zone = z and z = z and b = b and uup = uup
      and ?sha1.0 = sha1 and c = c and queried = name] assms(1) by (auto simp: served_zone_def)
  show ?thesis
  proof (cases r)
    case (Inl err)
    then show ?thesis using True c(1) r nx assms(4,5) by (simp add: appendDNSSEC_def)
  next
    case (Inr pf)
    let ?ps = "dedupByName [] [ClosestEncloser pf, NextCloser pf, WildcardAtCE pf]"
    have ps: "set ?ps \<subseteq> set rs"
      using encloser_of_zone [OF assms(1) c(2) r [unfolded Inr]]
        dedupByName_subset [of "[]" "[ClosestEncloser pf, NextCloser pf, WildcardAtCE pf]"] by auto
    then have "\<forall>rr \<in> set ?ps. wf_name (Name rr)" using assms(1) by (auto simp: served_zone_def names_ok_def)
    then obtain sigs where "proofSignatures uni (zone_db z rs b) ?ps = Some sigs" "set sigs \<subseteq> set rs"
      using proofSignatures_ok [OF assms(1)] by blast
    then show ?thesis using True c(1) r nx Inr ps assms(4,5)
      by (auto simp: appendDNSSEC_def Let_def simp del: dedupByName.simps)
  qed
qed

lemma appendNegativeAuthority_ok:
  assumes "served_zone uni z rs" "set authority \<subseteq> set rs"
  shows "\<exists>sigs. set sigs \<subseteq> set rs \<and> appendNegativeAuthority uni (zone_db z rs b) rcode answers authority d =
    Some (if rcode = RcodeNXDomain \<or> rcode = RcodeNoError \<and> answers = []
          then authority @ records_at uni rs z TypeSOA @ sigs else authority)"
proof -
  have z: "wf_name z" using assms(1) by (simp add: served_zone_def)
  obtain sigs where "rrsigsFor uni (zone_db z rs b) z (the (RRtypeToWire TypeSOA)) = Some sigs" "set sigs \<subseteq> set rs"
    using rrsigsFor_ok [OF assms(1) z] by blast
  then show ?thesis
    by (intro exI [of _ "if d \<and> b then sigs else []"])
      (auto simp: appendNegativeAuthority_def served_lookup [OF assms(1) z] records_at_def)
qed

lemma lookupWildcard_NX:
  assumes "lookupWildcard uni db name t = Some (rcode, answers, additional, owner)"
  shows "rcode = RcodeNXDomain \<longleftrightarrow> fst (WildcardLookup db name (Zone db) t) = []"
    and "rcode = RcodeNXDomain \<Longrightarrow> answers = [] \<and> additional = []"
    and "\<forall>a \<in> set answers. Name a = name"
proof -
  have nx: "RcodeNoError \<noteq> RcodeNXDomain" by (simp add: rcode_defs)
  obtain wc rrs where w: "WildcardLookup db name (Zone db) t = (wc, rrs)" by fastforce
  show "rcode = RcodeNXDomain \<longleftrightarrow> fst (WildcardLookup db name (Zone db) t) = []"
    "rcode = RcodeNXDomain \<Longrightarrow> answers = [] \<and> additional = []"
    "\<forall>a \<in> set answers. Name a = name"
    using assms nx w
    by (auto simp: lookupWildcard_def Let_def bind_eq_Some_conv synthesiseAnswers_def split: if_splits)
qed

lemma lookupWildcard_types:
  assumes "lookupWildcard uni (zone_db z rs b) name t = Some (rcode, answers, additional, owner)"
  shows "\<forall>a \<in> set answers. RRtype a = t \<or> RRtype a = TypeCNAME"
proof -
  obtain wc rrs where w: "WildcardLookup (zone_db z rs b) name z t = (wc, rrs)" by fastforce
  have "\<forall>a \<in> set rrs. RRtype a = t" using WildcardLookup_owner [OF w] by (auto simp: LookupByName_NewDB)
  moreover have "\<forall>a \<in> set (LookupByName (zone_db z rs b) wc TypeCNAME). RRtype a = TypeCNAME"
    by (simp add: LookupByName_NewDB)
  ultimately show ?thesis
    using assms w
    by (auto simp: lookupWildcard_def Let_def bind_eq_Some_conv synthesiseAnswers_def split: if_splits)
qed

subsection \<open>Properties\<close>

text \<open>The answer to a lookup. On a well-formed database \<open>lookupRRset\<close> does not panic. The
  code is NXDOMAIN exactly when the name has no record of the type and no CNAME, is not the
  owner of any record and no wildcard applies, and then there is nothing in the answer. If
  the name has records of the type, they are the answer. Every answer has the queried type
  or is a CNAME and carries the data of a record of the zone; every additional record is a
  record of the zone.\<close>

theorem lookupRRset_answers:
  assumes "served_zone uni z rs" "wf_name name"
  shows "\<exists>rcode answers additional owner.
    lookupRRset uni (zone_db z rs b) name t = Some (rcode, answers, additional, owner)
    \<and> rcode \<in> {RcodeNoError, RcodeNXDomain}
    \<and> (rcode = RcodeNXDomain \<longleftrightarrow> records_at uni rs name t = []
         \<and> (t = TypeCNAME \<or> records_at uni rs name TypeCNAME = [])
         \<and> (\<forall>rr \<in> set rs. Name rr \<noteq> name) \<and> fst (WildcardLookup (zone_db z rs b) name z t) = [])
    \<and> (rcode = RcodeNXDomain \<longrightarrow> answers = [] \<and> additional = [])
    \<and> (records_at uni rs name t \<noteq> [] \<longrightarrow> answers = records_at uni rs name t)
    \<and> (\<forall>a \<in> set answers. (RRtype a = t \<or> RRtype a = TypeCNAME) \<and> of_zone rs a)
    \<and> set additional \<subseteq> set rs"
proof -
  obtain e1 e2 where e: "set e1 \<subseteq> set rs" "set e2 \<subseteq> set rs" and
    l: "lookupRRset uni (zone_db z rs b) name t =
       (if records_at uni rs name t \<noteq> [] then Some (RcodeNoError, records_at uni rs name t, e1, name)
        else if t \<noteq> TypeCNAME \<and> records_at uni rs name TypeCNAME \<noteq> []
        then Some (RcodeNoError, records_at uni rs name TypeCNAME, e2, name)
        else if \<exists>rr \<in> set rs. Name rr = name then Some (RcodeNoError, [], [], name)
        else lookupWildcard uni (zone_db z rs b) name t)"
    using lookupRRset_cases [OF assms] .
  obtain rcode answers additional owner where
    w: "lookupWildcard uni (zone_db z rs b) name t = Some (rcode, answers, additional, owner)"
    "rcode \<in> {RcodeNoError, RcodeNXDomain}" "\<forall>rr \<in> set answers. of_zone rs rr" "set additional \<subseteq> set rs"
    using lookupWildcard_ok [OF assms, of b t] by blast
  have nx: "RcodeNoError \<noteq> RcodeNXDomain" by (simp add: rcode_defs)
  have ty: "\<forall>a \<in> set (records_at uni rs name ty). RRtype a = ty" for ty by (simp add: records_at_def)
  consider "records_at uni rs name t \<noteq> []"
    | "records_at uni rs name t = []" "t \<noteq> TypeCNAME" "records_at uni rs name TypeCNAME \<noteq> []"
    | "records_at uni rs name t = []" "t = TypeCNAME \<or> records_at uni rs name TypeCNAME = []"
      "\<exists>rr \<in> set rs. Name rr = name"
    | "records_at uni rs name t = []" "t = TypeCNAME \<or> records_at uni rs name TypeCNAME = []"
      "\<forall>rr \<in> set rs. Name rr \<noteq> name" by blast
  then show ?thesis
  proof cases
    case 1
    then show ?thesis unfolding l using e nx ty [of t] records_at_zone [of uni rs name t] by simp
  next
    case 2
    then show ?thesis unfolding l using e nx ty [of TypeCNAME] records_at_zone [of uni rs name TypeCNAME] by simp
  next
    case 3
    then show ?thesis unfolding l using nx by auto
  next
    case 4
    then have l4: "lookupRRset uni (zone_db z rs b) name t = Some (rcode, answers, additional, owner)"
      unfolding l using w(1) by auto
    show ?thesis
      unfolding l4 using 4 w(2-) lookupWildcard_NX(1,2) [OF w(1)] lookupWildcard_types [OF w(1)] by auto
  qed
qed

definition sample_zone :: "RR list" where
  "sample_zone = NewRR (lit ''example.'') (RRoptsSOA (lit ''ns.example.'') (lit ''admin.example.'') 1 2 3 4 5)
     # sample_records"

lemma served_sample: "served_zone (\<lambda>s. s) (lit ''example.'') sample_zone"
proof -
  have "list_all (\<lambda>rr. wf_name (Name rr)) sample_zone" "list_all known_type sample_zone"
    "list_all (\<lambda>rr. case additionalTarget (Opts rr) of None \<Rightarrow> True | Some t \<Rightarrow> wf_name t) sample_zone"
    "wf_name (lit ''example.'')"
    by code_simp+
  then show ?thesis by (fastforce simp: served_zone_def names_ok_def list_all_iff split: option.splits)
qed

theorem lookupRRset_answers_witness:
  "\<exists>answers additional owner. lookupRRset (\<lambda>s. s) (zone_db (lit ''example.'') sample_zone True)
      (lit ''ns.example.'') TypeA = Some (RcodeNoError, answers, additional, owner) \<and> answers \<noteq> []"
proof -
  have w: "wf_name (lit ''ns.example.'')"
    and r: "records_at (\<lambda>s. s) sample_zone (lit ''ns.example.'') TypeA \<noteq> []" by code_simp+
  from lookupRRset_answers [OF served_sample w, of True TypeA] r show ?thesis by auto
qed

text \<open>A negative answer carries the SOA: when the code is NXDOMAIN, or NOERROR without
  answers, \<open>appendNegativeAuthority\<close> adds all SOA records of the apex after what is
  already in the authority section, and only records of the zone; every other response
  keeps its authority section. It does not panic on a well-formed database.\<close>

theorem negative_answer_carries_SOA:
  assumes "served_zone uni z rs" "set authority \<subseteq> set rs"
  shows "\<exists>sigs. set sigs \<subseteq> set rs \<and> appendNegativeAuthority uni (zone_db z rs b) rcode answers authority d =
    Some (if rcode = RcodeNXDomain \<or> rcode = RcodeNoError \<and> answers = []
          then authority @ filter (\<lambda>rr. ToLower uni (Name rr) = ToLower uni z \<and> RRtype rr = TypeSOA) rs @ sigs
          else authority)"
  using appendNegativeAuthority_ok [OF assms, where b = b and rcode = rcode and answers = answers and d = d]
  unfolding records_at_def .

theorem negative_answer_carries_SOA_witness:
  "\<exists>sigs. set sigs \<subseteq> set sample_zone
    \<and> appendNegativeAuthority (\<lambda>s. s) (zone_db (lit ''example.'') sample_zone False) RcodeNXDomain [] [] True =
      Some (filter (\<lambda>rr. ToLower (\<lambda>s. s) (Name rr) = ToLower (\<lambda>s. s) (lit ''example.'') \<and> RRtype rr = TypeSOA)
              sample_zone @ sigs)"
  using negative_answer_carries_SOA [OF served_sample, of "[]" False RcodeNXDomain "[]" True] by simp

text \<open>For a wildcard expansion the synthesised answers carry the queried name, but the
  signature that is added to them keeps the wildcard as its owner name, so it is not a
  signature of the answer's record set.\<close>

definition signed_wildcard :: "RR list" where
  "signed_wildcard =
     [NewRR (lit ''*.example.'') (RRoptsA [192, 0, 2, 2]),
      NewRR (lit ''*.example.'') (RRoptsRRSIG 1 13 1 300 0 0 7 (lit ''example.'') [1, 2, 3])]"

theorem wildcard_signature_owner:
  "lookupRRset (\<lambda>s. s) (zone_db (lit ''example.'') signed_wildcard True) (lit ''x.example.'') TypeA =
     Some (RcodeNoError, [NewRR (lit ''x.example.'') (RRoptsA [192, 0, 2, 2])], [], lit ''*.example.'')
   \<and> appendDNSSEC (\<lambda>s. s) (\<lambda>s. s) sha1 (zone_db (lit ''example.'') signed_wildcard True) None
       (lit ''x.example.'') (lit ''*.example.'') 1 RcodeNoError
       [NewRR (lit ''x.example.'') (RRoptsA [192, 0, 2, 2])] [] True =
     Some ([NewRR (lit ''x.example.'') (RRoptsA [192, 0, 2, 2]),
            NewRR (lit ''*.example.'') (RRoptsRRSIG 1 13 1 300 0 0 7 (lit ''example.'') [1, 2, 3])], [], None)"
proof
  show "lookupRRset (\<lambda>s. s) (zone_db (lit ''example.'') signed_wildcard True) (lit ''x.example.'') TypeA =
     Some (RcodeNoError, [NewRR (lit ''x.example.'') (RRoptsA [192, 0, 2, 2])], [], lit ''*.example.'')"
    by code_simp
  have "rrsigsFor (\<lambda>s. s) (zone_db (lit ''example.'') signed_wildcard True) (lit ''*.example.'')
      (coveredType 1 [NewRR (lit ''x.example.'') (RRoptsA [192, 0, 2, 2])]) =
    Some [NewRR (lit ''*.example.'') (RRoptsRRSIG 1 13 1 300 0 0 7 (lit ''example.'') [1, 2, 3])]"
    by code_simp
  then show "appendDNSSEC (\<lambda>s. s) (\<lambda>s. s) sha1 (zone_db (lit ''example.'') signed_wildcard True) None
       (lit ''x.example.'') (lit ''*.example.'') 1 RcodeNoError
       [NewRR (lit ''x.example.'') (RRoptsA [192, 0, 2, 2])] [] True =
     Some ([NewRR (lit ''x.example.'') (RRoptsA [192, 0, 2, 2]),
            NewRR (lit ''*.example.'') (RRoptsRRSIG 1 13 1 300 0 0 7 (lit ''example.'') [1, 2, 3])], [], None)"
    by (simp add: appendDNSSEC_def)
qed

end
