(* ===== verification/Slave_DNS.thy ===== *)
theory Slave_DNS
  imports Config DNS_Query Slave_Lookup
begin

text \<open>
  The query path of the slave, after \<^verbatim>\<open>internal/slave/wire.go\<close> and
  \<^verbatim>\<open>internal/slave/dns.go\<close>: the scan for the EDNS record, \<open>handleDNS\<close>, and what the
  UDP and TCP servers send for one message. Reading the socket and logging are not modelled;
  the argument is the message that was read and the result is what is written, if anything.
\<close>

subsection \<open>State and messages\<close>

text \<open>The fields of \<open>Slave\<close> that requests read and write; \<open>dbSyncs\<close> and \<open>queries\<close> are the
  label values of the counter increments, latest first.\<close>

record Slave =
  slaveCfg :: DNSConfigSpec
  currDB :: "DB option"
  nsec3Chain :: "NSEC3Chain option"
  ready :: bool
  dbSyncs :: "gostring list"

record queryInfo =
  qiQname :: gostring
  qiRRtype :: RRtype
  qiRcode :: "16 word"
  qiDnssec :: bool
  qiUdpSize :: "16 word"
  qiSupported :: bool

record ednsInfo =
  ednsPresent :: bool
  ednsDo :: bool
  ednsVer :: byte
  ednsUdpSize :: "16 word"

definition zeroQueryInfo :: queryInfo where
  "zeroQueryInfo = \<lparr> qiQname = [], qiRRtype = [], qiRcode = 0, qiDnssec = False, qiUdpSize = 0,
     qiSupported = False \<rparr>"

definition zeroEdns :: ednsInfo where
  "zeroEdns = \<lparr> ednsPresent = False, ednsDo = False, ednsVer = 0, ednsUdpSize = 0 \<rparr>"

definition maxTCPResponseSize :: nat where "maxTCPResponseSize = 8 * 1024"
definition maxUDPMsgSize :: nat where "maxUDPMsgSize = 4096"
definition opcodeQuery :: byte where "opcodeQuery = 0"
definition qtypeAXFR :: "16 word" where "qtypeAXFR = 252"
definition qtypeIXFR :: "16 word" where "qtypeIXFR = 251"

definition rcodeName :: "16 word \<Rightarrow> gostring" where
  "rcodeName rcode =
     (if rcode = 0 then lit ''NOERROR'' else if rcode = 2 then lit ''SERVFAIL''
      else if rcode = 3 then lit ''NXDOMAIN'' else if rcode = 5 then lit ''REFUSED''
      else lit ''RCODE'' @ FormatNat (unat rcode))"

subsection \<open>EDNS\<close>

function skipName :: "bytes \<Rightarrow> nat \<Rightarrow> nat" where
  "skipName msg pos =
     (if pos < length msg
      then (let length' = msg ! pos
            in if length' = 0 then pos + 1
               else if length' AND 0xC0 = 0xC0 then pos + 2
               else skipName msg (pos + (1 + unat length')))
      else pos)"
  by pat_completeness auto
termination
  by (relation "measure (\<lambda>(msg, pos). length msg - pos)") auto

declare skipName.simps [simp del]

text \<open>The first loop of \<open>parseOPT\<close>: \<open>n\<close> records are still to be skipped. \<open>None\<close> inside stands
  for the early return of the zero \<open>ednsInfo\<close>.\<close>

fun skipRRs :: "bytes \<Rightarrow> nat \<Rightarrow> nat \<Rightarrow> nat option go" where
  "skipRRs msg 0 pos = Some (Some pos)"
| "skipRRs msg (Suc n) pos =
     (if pos < length msg
      then (let pos' = skipName msg pos
            in if length msg < pos' + 10 then Some None
               else do {
                 rdlen \<leftarrow> be16 msg (pos' + 8);
                 skipRRs msg n (pos' + (10 + unat rdlen))
               })
      else Some (Some pos))"

text \<open>The second loop: the scan of the additional section.\<close>

fun scanOPT :: "bytes \<Rightarrow> nat \<Rightarrow> nat \<Rightarrow> ednsInfo go" where
  "scanOPT msg 0 pos = Some zeroEdns"
| "scanOPT msg (Suc n) pos =
     (if pos < length msg
      then (let pos' = skipName msg pos
            in if length msg < pos' + 10 then Some zeroEdns
               else do {
                 rrtype \<leftarrow> be16 msg pos';
                 (if rrtype = 41
                  then do {
                    udpSize \<leftarrow> be16 msg (pos' + 2);
                    version \<leftarrow> goindex msg (pos' + 5);
                    extFlags \<leftarrow> be16 msg (pos' + 6);
                    Some \<lparr> ednsPresent = True, ednsDo = (extFlags AND EDNSDOBit \<noteq> 0), ednsVer = version,
                           ednsUdpSize = udpSize \<rparr>
                  }
                  else do {
                    rdlen \<leftarrow> be16 msg (pos' + 8);
                    scanOPT msg n (pos' + (10 + unat rdlen))
                  })
               })
      else Some zeroEdns)"

definition parseOPT :: "bytes \<Rightarrow> nat \<Rightarrow> ednsInfo go" where
  "parseOPT msg pos =
     (if length msg < 12 then Some zeroEdns
      else do {
        anCount \<leftarrow> be16 msg 6;
        nsCount \<leftarrow> be16 msg 8;
        arCount \<leftarrow> be16 msg 10;
        r \<leftarrow> skipRRs msg (unat anCount + unat nsCount) pos;
        (case r of None \<Rightarrow> Some zeroEdns | Some pos' \<Rightarrow> scanOPT msg (unat arCount) pos')
      })"

subsection \<open>One query\<close>

text \<open>The lookup part of \<open>handleDNS\<close>: code, answers, additional and authority records.\<close>

definition answerQuery ::
  "unilower \<Rightarrow> unilower \<Rightarrow> hashfun \<Rightarrow> Slave \<Rightarrow> gostring \<Rightarrow> 16 word \<Rightarrow> RRtype \<Rightarrow> bool
    \<Rightarrow> (16 word \<times> RR list \<times> RR list \<times> RR list) go" where
  "answerQuery uni uup sha1 s qname qtype rrtype doBit =
     (case currDB s of
        None \<Rightarrow> Some (RcodeRefused, [], [], [])
      | Some db \<Rightarrow>
          (case NewDomain uni qname of
             Inl err \<Rightarrow> Some (RcodeRefused, [], [], [])
           | Inr name \<Rightarrow> do {
               (rcode, answers, additional, effectiveOwner) \<leftarrow> lookupRRset uni db name rrtype;
               (answers', authority, err) \<leftarrow>
                 appendDNSSEC uni uup sha1 db (nsec3Chain s) name effectiveOwner qtype rcode answers [] doBit;
               authority' \<leftarrow> appendNegativeAuthority uni db rcode answers' authority doBit;
               Some (rcode, answers', additional, authority')
             }))"

text \<open>\<open>handleDNS\<close> after the checks of opcode and zone transfer.\<close>

definition handleQuery ::
  "unilower \<Rightarrow> unilower \<Rightarrow> hashfun \<Rightarrow> Slave \<Rightarrow> bytes \<Rightarrow> Request \<Rightarrow> (bytes \<times> queryInfo) go" where
  "handleQuery uni uup sha1 s msg req = do {
     txid \<leftarrow> ID req;
     flags \<leftarrow> Flags req;
     let pos = QuestionEnd req;
     edns \<leftarrow> parseOPT msg pos;
     question \<leftarrow> goslice msg 12 pos;
     (case RRtypeFromWire (QType req) of
        None \<Rightarrow> do {
          resp \<leftarrow> BuildResponse uni txid flags (Some question) [] [] [] RcodeNoError;
          resp' \<leftarrow> (if ednsPresent edns then AppendOPT resp (ednsDo edns) 0 else Some resp);
          Some (resp', zeroQueryInfo \<lparr> qiQname := QName req, qiRRtype := FormatNat (unat (QType req)),
                         qiUdpSize := ednsUdpSize edns \<rparr>)
        }
      | Some rrtype \<Rightarrow>
          (if ednsPresent edns \<and> ednsVer edns \<noteq> 0
           then do {
             resp \<leftarrow> BuildResponse uni txid flags (Some question) [] [] [] RcodeNoError;
             resp' \<leftarrow> AppendOPT resp False 1;
             Some (resp', \<lparr> qiQname = QName req, qiRRtype = rrtype, qiRcode = 16, qiDnssec = False,
                            qiUdpSize = ednsUdpSize edns, qiSupported = True \<rparr>)
           }
           else do {
             (rcode, answers, additional, authority) \<leftarrow>
               answerQuery uni uup sha1 s (QName req) (QType req) rrtype (ednsDo edns);
             resp \<leftarrow> BuildResponse uni txid flags (Some question) answers additional authority rcode;
             resp' \<leftarrow> (if ednsPresent edns then AppendOPT resp (ednsDo edns) 0 else Some resp);
             Some (resp', \<lparr> qiQname = QName req, qiRRtype = rrtype, qiRcode = rcode, qiDnssec = ednsDo edns,
                            qiUdpSize = ednsUdpSize edns, qiSupported = True \<rparr>)
           }))
   }"

definition handleDNS ::
  "unilower \<Rightarrow> unilower \<Rightarrow> hashfun \<Rightarrow> Slave \<Rightarrow> bytes \<Rightarrow> (Request \<times> bytes \<times> queryInfo) option go" where
  "handleDNS uni uup sha1 s msg = do {
     r \<leftarrow> New msg;
     (case r of
        Inl err \<Rightarrow> Some None
      | Inr req \<Rightarrow> do {
          txid \<leftarrow> ID req;
          flags \<leftarrow> Flags req;
          (if Opcode req \<noteq> opcodeQuery
           then do {
             resp \<leftarrow> RefusedResponse uni txid flags;
             Some (Some (req, resp, zeroQueryInfo))
           }
           else if QType req = qtypeAXFR \<or> QType req = qtypeIXFR
           then do {
             resp \<leftarrow> RefusedResponse uni txid flags;
             Some (Some (req, resp, zeroQueryInfo \<lparr> qiQname := QName req,
                     qiRRtype := FormatNat (unat (QType req)), qiRcode := RcodeRefused \<rparr>))
           }
           else do {
             (resp, qi) \<leftarrow> handleQuery uni uup sha1 s msg req;
             Some (Some (req, resp, qi))
           })
        })
   }"

subsection \<open>The servers\<close>

text \<open>The body of the goroutine of \<open>serveUDP\<close>: the datagram sent back, and the labels of the
  query counter when it is incremented.\<close>

definition queryLabels :: "queryInfo \<Rightarrow> gostring list option" where
  "queryLabels qi =
     (if qiRRtype qi \<noteq> []
      then Some [qiRRtype qi, rcodeName (qiRcode qi), if qiSupported qi then lit ''true'' else lit ''false'']
      else None)"

definition maxUDP :: "queryInfo \<Rightarrow> nat" where
  "maxUDP qi =
     (let m = (if 512 < qiUdpSize qi then unat (qiUdpSize qi) else 512)
      in if maxUDPMsgSize < m then maxUDPMsgSize else m)"

definition truncateTo :: "nat \<Rightarrow> Request \<Rightarrow> bytes \<Rightarrow> bytes go" where
  "truncateTo limit req resp =
     (if limit < length resp
      then do { txid \<leftarrow> ID req; flags \<leftarrow> Flags req; Some (TruncatedResponse txid flags True) }
      else Some resp)"

definition serveUDP ::
  "unilower \<Rightarrow> unilower \<Rightarrow> hashfun \<Rightarrow> Slave \<Rightarrow> bytes \<Rightarrow> (bytes \<times> gostring list option) option go" where
  "serveUDP uni uup sha1 s query = do {
     r \<leftarrow> handleDNS uni uup sha1 s query;
     (case r of
        None \<Rightarrow> Some None
      | Some (req, resp, qi) \<Rightarrow> do {
          out \<leftarrow> truncateTo (maxUDP qi) req resp;
          Some (Some (out, queryLabels qi))
        })
   }"

text \<open>\<open>handleTCPConn\<close> on the bytes the connection delivers: the two-byte length, the message,
  and what is written back. A short read ends the connection.\<close>

definition handleTCPConn ::
  "unilower \<Rightarrow> unilower \<Rightarrow> hashfun \<Rightarrow> Slave \<Rightarrow> bytes \<Rightarrow> (bytes \<times> gostring list option) option go" where
  "handleTCPConn uni uup sha1 s stream =
     (if length stream < 2 then Some None
      else do {
        msgLen \<leftarrow> be16 stream 0;
        (if length stream < 2 + unat msgLen then Some None
         else do {
           query \<leftarrow> goslice stream 2 (2 + unat msgLen);
           r \<leftarrow> handleDNS uni uup sha1 s query;
           (case r of
              None \<Rightarrow> Some None
            | Some (req, resp, qi) \<Rightarrow> do {
                out \<leftarrow> truncateTo maxTCPResponseSize req resp;
                Some (Some (put16 (u16_of (length out)) @ out, queryLabels qi))
              })
         })
      })"

subsection \<open>The EDNS scan\<close>

lemma skipRRs_total: "\<exists>r. skipRRs msg n pos = Some r"
  by (induction msg n pos rule: skipRRs.induct) (auto simp: Let_def be16_def)

lemma scanOPT_total: "\<exists>r. scanOPT msg n pos = Some r"
  by (induction msg n pos rule: scanOPT.induct) (auto simp: Let_def be16_def)

lemma parseOPT_total: "\<exists>r. parseOPT msg pos = Some r"
proof -
  obtain r where "skipRRs msg (unat (mk16 (msg ! 6) (msg ! 7)) + unat (mk16 (msg ! 8) (msg ! 9))) pos = Some r"
    using skipRRs_total by blast
  then show ?thesis using scanOPT_total by (auto simp: parseOPT_def be16_def split: option.splits)
qed

lemma parseOPT_none:
  assumes "12 \<le> length msg" "be16 msg 6 = Some 0" "be16 msg 8 = Some 0" "be16 msg 10 = Some 0"
  shows "parseOPT msg pos = Some zeroEdns"
  using assms by (simp add: parseOPT_def)

lemma skipName_root: "skipName (pre @ 0 # post) (length pre) = length pre + 1"
  by (subst skipName.simps) simp

text \<open>An OPT record that is the only record after the question is found, with its fields.\<close>

lemma parseOPT_finds:
  assumes "12 \<le> length pre" "be16 pre 6 = Some 0" "be16 pre 8 = Some 0" "be16 pre 10 = Some n" "n \<noteq> 0"
  shows "parseOPT (pre @ [0] @ put16 41 @ put16 sz @ [ext, ver] @ put16 fl @ put16 rdlen @ rest) (length pre) =
    Some \<lparr> ednsPresent = True, ednsDo = (fl AND 0x8000 \<noteq> 0), ednsVer = ver, ednsUdpSize = sz \<rparr>"
proof -
  let ?o = "put16 41 @ put16 sz @ [ext, ver] @ put16 fl @ put16 rdlen @ rest"
  let ?msg = "pre @ [0] @ ?o"
  have b: "be16 ?msg i = be16 pre i" if "i + 2 \<le> 12" for i
    using that assms(1) by (simp add: be16_def nth_append)
  have r: "be16 ?msg (length (pre @ [0]) + i) = be16 ?o i" "goindex ?msg (length (pre @ [0]) + i) = goindex ?o i" for i
    using be16_append [of "pre @ [0]" ?o i] by (simp, simp add: goindex_def nth_append)
  have at: "be16 (xs @ put16 w @ ys) i = Some w" if "length xs = i" for xs ys w i
    using be16_put16 [of xs w ys] that by simp
  have o: "be16 ?o 0 = Some 41" "be16 ?o 2 = Some sz" "be16 ?o 6 = Some fl" "goindex ?o 5 = Some ver"
    using at [of "[]" 0 41 "put16 sz @ [ext, ver] @ put16 fl @ put16 rdlen @ rest"]
      at [of "put16 41" 2 sz "[ext, ver] @ put16 fl @ put16 rdlen @ rest"]
      at [of "put16 41 @ put16 sz @ [ext, ver]" 6 fl "put16 rdlen @ rest"]
    by (simp, simp, simp, simp add: put16_def)
  obtain m where m: "unat n = Suc m" using assms(5) by (cases "unat n") (auto simp: unat_eq_0)
  have "scanOPT ?msg (unat n) (length pre) =
    Some \<lparr> ednsPresent = True, ednsDo = (fl AND EDNSDOBit \<noteq> 0), ednsVer = ver, ednsUdpSize = sz \<rparr>"
    using r(1) [of 0] r(1) [of 2] r(1) [of 6] r(2) [of 5] o skipName_root [of pre ?o] unfolding m
    by (simp add: Let_def)
  then show ?thesis using assms b by (auto simp: parseOPT_def EDNSDOBit_def)
qed

subsection \<open>Responses of a served state\<close>

definition slave_ok :: "unilower \<Rightarrow> Slave \<Rightarrow> bool" where
  "slave_ok uni s \<longleftrightarrow> (\<forall>db. currDB s = Some db \<longrightarrow>
     (\<exists>z rs b. db = zone_db z rs b \<and> served_zone uni z rs \<and> chain_of rs (nsec3Chain s)))"

lemma slave_okI:
  "currDB s = Some (zone_db z rs b) \<Longrightarrow> served_zone uni z rs \<Longrightarrow> chain_of rs (nsec3Chain s) \<Longrightarrow> slave_ok uni s"
  unfolding slave_ok_def by (metis option.inject)

lemma answerQuery_ok:
  assumes "slave_ok uni s"
  shows "\<exists>rcode answers additional authority.
    answerQuery uni uup sha1 s qname qtype t d = Some (rcode, answers, additional, authority)
    \<and> rcode \<in> {RcodeNoError, RcodeNXDomain, RcodeRefused}
    \<and> list_all known_type answers \<and> list_all known_type additional \<and> list_all known_type authority"
proof (cases "currDB s")
  case None
  then show ?thesis by (simp add: answerQuery_def)
next
  case (Some db)
  then obtain z rs b where db: "db = zone_db z rs b" and sv: "served_zone uni z rs"
    and ch: "chain_of rs (nsec3Chain s)" using assms by (auto simp: slave_ok_def)
  show ?thesis
  proof (cases "NewDomain uni qname")
    case (Inl err)
    then show ?thesis using Some by (simp add: answerQuery_def)
  next
    case (Inr name)
    then have "valid_domain name" using NewDomain_Inr_iff by blast
    then have "wf_name name" by simp
    then obtain rcode answers additional owner where
      l: "lookupRRset uni db name t = Some (rcode, answers, additional, owner)"
      "rcode \<in> {RcodeNoError, RcodeNXDomain}" "\<forall>rr \<in> set answers. of_zone rs rr" "set additional \<subseteq> set rs"
      "wf_name owner"
      using lookupRRset_ok [OF sv, of name b t] unfolding db by blast
    obtain answers' authority err where
      d: "appendDNSSEC uni uup sha1 db (nsec3Chain s) name owner qtype rcode answers [] d =
        Some (answers', authority, err)"
      "\<forall>rr \<in> set answers'. of_zone rs rr" "set authority \<subseteq> set rs"
      using appendDNSSEC_ok [OF sv ch l(5,3), where authority = "[]" and b = b and uup = uup and ?sha1.0 = sha1
        and name = name and qtype = qtype and rcode = rcode and d = d] unfolding db by auto
    obtain sigs where sg: "set sigs \<subseteq> set rs" and
      na: "appendNegativeAuthority uni db rcode answers' authority d =
        Some (if rcode = RcodeNXDomain \<or> rcode = RcodeNoError \<and> answers' = []
              then authority @ records_at uni rs z TypeSOA @ sigs else authority)"
      using appendNegativeAuthority_ok [OF sv d(3), where b = b and rcode = rcode and answers = answers' and d = d]
      unfolding db by blast
    have k: "list_all known_type xs" if "set xs \<subseteq> set rs" for xs
      using that of_zone_known [OF sv] of_zone_member by blast
    have "set (records_at uni rs z TypeSOA) \<subseteq> set rs" by (auto simp: records_at_def)
    then have "list_all known_type (if rcode = RcodeNXDomain \<or> rcode = RcodeNoError \<and> answers' = []
              then authority @ records_at uni rs z TypeSOA @ sigs else authority)"
      using k d(3) sg by auto
    then show ?thesis
      using Some Inr l(1,2) d(1) na of_zone_known [OF sv d(2)] k [OF l(4)] by (auto simp: answerQuery_def simp del: if_split)
  qed
qed

lemma New_request:
  assumes "New msg = Some (Inr req)"
  shows "raw req = msg" "ID req = be16 msg 0" "Flags req = be16 msg 2"
    "12 \<le> questionEnd req" "questionEnd req \<le> length msg"
proof -
  obtain pos name flags where p: "12 \<le> length msg" "be16 msg 2 = Some flags" "be16 msg 4 = Some 1"
    "parseQName msg 12 [] 0 = Some (Inr (name, pos))" "pos + 4 \<le> length msg" "be16 msg pos = Some (QType req)"
    and req: "req = \<lparr> raw = msg, questionEnd = pos + 4, Opcode = ucast (drop_bit 11 flags AND 0xf),
             QName = name @ lit ''.'', QType = QType req \<rparr>"
    using assms by (rule New_Inr)
  have "12 \<le> pos" using parseQName_sound [OF p(4,1)] p(1) by auto
  moreover have q: "raw req = msg" "questionEnd req = pos + 4"
    using arg_cong [OF req, of raw] arg_cong [OF req, of questionEnd] by simp_all
  ultimately show "raw req = msg" "ID req = be16 msg 0" "Flags req = be16 msg 2"
    "12 \<le> questionEnd req" "questionEnd req \<le> length msg"
    using p(5) by (simp_all add: ID_def Flags_def)
qed

text \<open>A response: at least a header, the id of the query, marked as an authoritative response.\<close>

definition answers_to :: "bytes \<Rightarrow> bytes \<Rightarrow> bool" where
  "answers_to msg resp \<longleftrightarrow> 12 \<le> length resp \<and> be16 resp 0 = be16 msg 0 \<and>
     (\<exists>flags. be16 resp 2 = Some flags \<and> bit flags 15 \<and> bit flags 10)"

lemma answers_to_head:
  assumes "be16 msg 0 = Some txid" "bit flags 15" "bit flags 10" "8 \<le> length rest"
  shows "answers_to msg (put16 txid @ put16 flags @ rest)"
  using assms be16_put16 [of "[]" txid "put16 flags @ rest"] be16_put16 [of "put16 txid" flags rest]
  by (simp add: answers_to_def)

lemma answers_to_BuildResponse:
  assumes "be16 msg 0 = Some txid" "BuildResponse uni txid qf q an ar ns rcode = Some resp"
  shows "answers_to msg resp"
proof -
  obtain rest where r: "resp = put16 txid @ put16 (FlagQR OR FlagAA OR (qf AND FlagRD) OR (rcode AND 0xf)) @ rest"
    "8 \<le> length rest"
    using assms(2) by (auto simp: BuildResponse_def Let_def bind_eq_Some_conv)
  show ?thesis
    unfolding r(1) by (rule answers_to_head [OF assms(1) flag_bits(1) flag_bits(2) r(2)])
qed

lemma answers_to_AppendOPT:
  assumes "answers_to msg resp" "AppendOPT resp d e = Some resp'"
  shows "answers_to msg resp'"
  using assms by (auto simp: answers_to_def AppendOPT_def be16_def Let_def nth_append split: if_splits)

lemma handleQuery_ok:
  assumes "slave_ok uni s" "New msg = Some (Inr req)"
  shows "\<exists>resp qi. handleQuery uni uup sha1 s msg req = Some (resp, qi) \<and> answers_to msg resp"
proof -
  note n = New_request [OF assms(2)]
  obtain txid flags where h: "be16 msg 0 = Some txid" "be16 msg 2 = Some flags" using n(4,5) by (simp add: be16_def)
  obtain edns where e: "parseOPT msg (QuestionEnd req) = Some edns" using parseOPT_total by blast
  obtain q where q: "goslice msg 12 (QuestionEnd req) = Some q" using n(4,5) by (simp add: QuestionEnd_def)
  have build: "\<exists>resp. BuildResponse uni txid flags (Some q) an ar ns rcode = Some resp \<and> answers_to msg resp \<and>
      12 \<le> length resp"
    if "list_all known_type an" "list_all known_type ar" "list_all known_type ns" for an ar ns rcode
    using BuildResponse_known [OF that, of uni txid flags "Some q" rcode] answers_to_BuildResponse [OF h(1)]
      BuildResponse_length by metis
  have opt: "\<exists>r. AppendOPT resp d e' = Some r \<and> answers_to msg r" if "12 \<le> length resp" "answers_to msg resp" for resp d e'
    using AppendOPT_total [OF that(1)] answers_to_AppendOPT [OF that(2)] by blast
  obtain r0 where r0: "BuildResponse uni txid flags (Some q) [] [] [] RcodeNoError = Some r0"
    "answers_to msg r0" "12 \<le> length r0" using build [of "[]" "[]" "[]"] by auto
  note base = n(2,3) h e q
  show ?thesis
  proof (cases "RRtypeFromWire (QType req)")
    case None
    then show ?thesis using base r0 opt [OF r0(3,2), of "ednsDo edns" 0] by (auto simp: handleQuery_def Let_def)
  next
    case (Some t)
    obtain rcode an ar ns where a: "answerQuery uni uup sha1 s (QName req) (QType req) t (ednsDo edns) = Some (rcode, an, ar, ns)"
      "list_all known_type an" "list_all known_type ar" "list_all known_type ns"
      using answerQuery_ok [OF assms(1)] by blast
    obtain r1 where r1: "BuildResponse uni txid flags (Some q) an ar ns rcode = Some r1"
      "answers_to msg r1" "12 \<le> length r1" using build [OF a(2-4)] by blast
    show ?thesis
      using Some base r0 r1 a(1) opt [OF r0(3,2), of False 1] opt [OF r1(3,2), of "ednsDo edns" 0]
      by (auto simp: handleQuery_def Let_def)
  qed
qed

lemma handleDNS_ok:
  assumes "slave_ok uni s"
  shows "(\<exists>err. New msg = Some (Inl err)) \<and> handleDNS uni uup sha1 s msg = Some None
    \<or> (\<exists>req resp qi. New msg = Some (Inr req) \<and> handleDNS uni uup sha1 s msg = Some (Some (req, resp, qi))
         \<and> answers_to msg resp)"
proof -
  obtain r where r: "New msg = Some r" using New_total by blast
  show ?thesis
  proof (cases r)
    case (Inl err)
    then show ?thesis using r by (simp add: handleDNS_def)
  next
    case (Inr req)
    note n = New_request [OF r [unfolded Inr]]
    obtain txid flags where h: "be16 msg 0 = Some txid" "be16 msg 2 = Some flags" using n(4,5) by (simp add: be16_def)
    obtain resp where ref: "RefusedResponse uni txid flags = Some resp" by (simp add: RefusedResponse_eq)
    then have "answers_to msg resp" using answers_to_BuildResponse [OF h(1)] by (simp add: RefusedResponse_def)
    with ref show ?thesis
      using r Inr n(2,3) h handleQuery_ok [OF assms r [unfolded Inr], of uup sha1] by (auto simp: handleDNS_def)
  qed
qed

lemma truncateTo_ok:
  assumes "New msg = Some (Inr req)" "answers_to msg resp" "12 \<le> limit"
  shows "\<exists>out. truncateTo limit req resp = Some out \<and> length out \<le> limit \<and> answers_to msg out
    \<and> (length resp \<le> limit \<longrightarrow> out = resp)
    \<and> (limit < length resp \<longrightarrow> length out = 12 \<and> (\<exists>flags. be16 out 2 = Some flags \<and> bit flags 9))"
proof -
  note n = New_request [OF assms(1)]
  obtain txid flags where h: "be16 msg 0 = Some txid" "be16 msg 2 = Some flags" using n(4,5) by (simp add: be16_def)
  let ?f = "(FlagQR OR FlagTC OR (flags AND FlagRD)) OR FlagAA"
  have f: "bit ?f 15" "bit ?f 10" "bit ?f 9"
    by (simp_all add: FlagQR_def FlagTC_def FlagRD_def FlagAA_def bit_simps)
  have "TruncatedResponse txid flags True = put16 txid @ put16 ?f @ replicate 8 0"
    by (simp add: TruncatedResponse_def Let_def)
  moreover have "answers_to msg (put16 txid @ put16 ?f @ replicate 8 0)"
    by (rule answers_to_head [OF h(1) f(1,2)]) simp
  moreover have "be16 (put16 txid @ put16 ?f @ replicate 8 0) 2 = Some ?f"
    using be16_put16 [of "put16 txid" ?f "replicate 8 0"] by simp
  ultimately show ?thesis using assms(2,3) f(3) h n(2,3) by (auto simp: truncateTo_def)
qed

lemma maxUDP_bounds: "512 \<le> maxUDP qi" "maxUDP qi \<le> 4096" "maxUDP qi \<le> max 512 (unat (qiUdpSize qi))"
  by (auto simp: maxUDP_def Let_def maxUDPMsgSize_def word_less_nat_alt)

subsection \<open>A plain query\<close>

text \<open>A query with one question, no other records and no OPT record.\<close>

definition query_message :: "16 word \<Rightarrow> 16 word \<Rightarrow> gostring list \<Rightarrow> 16 word \<Rightarrow> 16 word \<Rightarrow> bytes" where
  "query_message txid flags ls qtype qclass =
     put16 txid @ put16 flags @ put16 1 @ put16 0 @ put16 0 @ put16 0 @ wire_of ls @ put16 qtype @ put16 qclass"

lemma query_header:
  "be16 (query_message txid flags ls qtype qclass) 0 = Some txid"
  "be16 (query_message txid flags ls qtype qclass) 2 = Some flags"
  "be16 (query_message txid flags ls qtype qclass) 6 = Some 0"
  "be16 (query_message txid flags ls qtype qclass) 8 = Some 0"
  "be16 (query_message txid flags ls qtype qclass) 10 = Some 0"
proof -
  let ?q = "wire_of ls @ put16 qtype @ put16 qclass"
  show "be16 (query_message txid flags ls qtype qclass) 0 = Some txid"
    using be16_at [of "[]" 0 txid] by (simp add: query_message_def)
  show "be16 (query_message txid flags ls qtype qclass) 2 = Some flags"
    using be16_at [of "put16 txid" 2 flags] by (simp add: query_message_def)
  show "be16 (query_message txid flags ls qtype qclass) 6 = Some 0"
    using be16_at [of "put16 txid @ put16 flags @ put16 1" 6 0 "put16 0 @ put16 0 @ ?q"]
    by (simp add: query_message_def)
  show "be16 (query_message txid flags ls qtype qclass) 8 = Some 0"
    using be16_at [of "put16 txid @ put16 flags @ put16 1 @ put16 0" 8 0 "put16 0 @ ?q"]
    by (simp add: query_message_def)
  show "be16 (query_message txid flags ls qtype qclass) 10 = Some 0"
    using be16_at [of "put16 txid @ put16 flags @ put16 1 @ put16 0 @ put16 0" 10 0 ?q]
    by (simp add: query_message_def)
qed

lemma New_query_message:
  assumes "sized_labels ls" "length (wire_of ls) \<le> 255"
  shows "New (query_message txid flags ls qtype qclass) =
    Some (Inr \<lparr> raw = query_message txid flags ls qtype qclass, questionEnd = 12 + length (wire_of ls) + 4,
                Opcode = ucast (drop_bit 11 flags AND 0xf),
                QName = (if ls = [] then [dot] else fqdn_of ls), QType = qtype \<rparr>)"
proof -
  let ?h = "put16 txid @ put16 flags @ put16 1 @ put16 0 @ put16 0 @ put16 0"
  have "be16 ?h 2 = Some flags" using be16_at [of "put16 txid" 2 flags] by simp
  moreover have "be16 ?h 4 = Some 1"
    using be16_at [of "put16 txid @ put16 flags" 4 1 "put16 0 @ put16 0 @ put16 0"] by simp
  ultimately show ?thesis
    using New_wire [of ?h flags ls qtype qclass "[]"] assms by (simp add: query_message_def)
qed

lemma transfer_types: "RRtypeToWire t \<noteq> Some qtypeAXFR" "RRtypeToWire t \<noteq> Some qtypeIXFR"
proof -
  have "qtypeAXFR \<notin> snd ` set rrtype_table" "qtypeIXFR \<notin> snd ` set rrtype_table" by code_simp+
  then show "RRtypeToWire t \<noteq> Some qtypeAXFR" "RRtypeToWire t \<noteq> Some qtypeIXFR"
    by (force simp: RRtypeToWire_def dest: map_of_SomeD)+
qed

lemma handleDNS_plain:
  assumes "sized_labels ls" "ls \<noteq> []" "length (wire_of ls) \<le> 255" "RRtypeToWire t = Some qtype"
    "drop_bit 11 flags AND 0xf = 0"
    and "answerQuery uni uup sha1 s (fqdn_of ls) qtype t False = Some (rcode, answers, additional, authority)"
    and "BuildResponse uni txid flags (Some (wire_of ls @ put16 qtype @ put16 qclass)) answers additional authority rcode
      = Some resp"
  shows "\<exists>req qi. handleDNS uni uup sha1 s (query_message txid flags ls qtype qclass) = Some (Some (req, resp, qi))
    \<and> qiRcode qi = rcode \<and> qiRRtype qi = t"
proof -
  let ?m = "query_message txid flags ls qtype qclass"
  define req where "req = \<lparr> raw = ?m, questionEnd = 12 + length (wire_of ls) + 4,
    Opcode = 0 :: byte, QName = fqdn_of ls, QType = qtype \<rparr>"
  have req: "New ?m = Some (Inr req)" "raw req = ?m" "questionEnd req = 12 + length (wire_of ls) + 4"
    "Opcode req = 0" "QName req = fqdn_of ls" "QType req = qtype"
    using New_query_message [OF assms(1,3), of txid flags qtype qclass] assms(2,5) by (simp_all add: req_def)
  have sl: "goslice ?m 12 (12 + length (wire_of ls) + 4) = Some (wire_of ls @ put16 qtype @ put16 qclass)"
    using goslice_append [of "put16 txid @ put16 flags @ put16 1 @ put16 0 @ put16 0 @ put16 0"
      "wire_of ls @ put16 qtype @ put16 qclass" "[]"] by (simp add: query_message_def)
  have "RRtypeFromWire qtype = Some t" using assms(4) RRtype_wire_inverse by simp
  moreover have "parseOPT ?m (12 + length (wire_of ls) + 4) = Some zeroEdns"
    by (rule parseOPT_none) (simp_all add: query_header, simp add: query_message_def)
  ultimately have "handleQuery uni uup sha1 s ?m req = Some (resp, \<lparr> qiQname = fqdn_of ls, qiRRtype = t,
      qiRcode = rcode, qiDnssec = False, qiUdpSize = 0, qiSupported = True \<rparr>)"
    using assms(6,7) sl req(2-)
    by (simp add: handleQuery_def ID_def Flags_def query_header QuestionEnd_def zeroEdns_def Let_def)
  moreover have "qtype \<noteq> qtypeAXFR" "qtype \<noteq> qtypeIXFR" using assms(4) transfer_types by auto
  ultimately show ?thesis
    using req by (simp add: handleDNS_def ID_def Flags_def query_header opcodeQuery_def)
qed

subsection \<open>Properties\<close>

text \<open>C14: No message makes the slave panic: on every state whose database is well formed,
  \<open>handleDNS\<close> returns for every byte sequence. It stays silent exactly on the messages that
  the query parser rejects; to every other one it gives a response with the id of the query,
  the response bit and the authoritative bit.\<close>

theorem handleDNS_never_panics:
  assumes "slave_ok uni s"
  shows "\<exists>r. handleDNS uni uup sha1 s msg = Some r
    \<and> (r = None \<longleftrightarrow> (\<exists>err. New msg = Some (Inl err)))
    \<and> (\<forall>req resp qi. r = Some (req, resp, qi) \<longrightarrow> New msg = Some (Inr req) \<and> answers_to msg resp)"
  using handleDNS_ok [OF assms, of msg uup sha1] by fastforce

definition sample_slave :: Slave where
  "sample_slave = \<lparr> slaveCfg = zeroConfig, currDB = Some (zone_db (lit ''example.'') sample_zone False),
     nsec3Chain = None, ready = True, dbSyncs = [] \<rparr>"

lemma sample_slave_ok: "slave_ok (\<lambda>s. s) sample_slave"
proof -
  have "currDB sample_slave = Some (zone_db (lit ''example.'') sample_zone False)"
    "chain_of sample_zone (nsec3Chain sample_slave)"
    unfolding sample_slave_def by (simp_all add: chain_of_def del: DB.update_convs)
  then show ?thesis using served_sample by (intro slave_okI)
qed

lemma sample_query_accepted: "\<exists>req. New sample_query = Some (Inr req)"
proof -
  have "ok_result (New sample_query)" by code_simp
  then show ?thesis by (auto elim: ok_resultE)
qed

theorem handleDNS_never_panics_witness:
  "handleDNS (\<lambda>s. s) (\<lambda>s. s) toy_hash sample_slave [1, 2, 3] = Some None
   \<and> (\<exists>r. handleDNS (\<lambda>s. s) (\<lambda>s. s) toy_hash sample_slave sample_query = Some (Some r))"
proof -
  have "New [1, 2, 3] = Some (Inl ErrTooShort)" by code_simp
  then show ?thesis using sample_query_accepted
    using handleDNS_never_panics [OF sample_slave_ok, of "\<lambda>s. s" toy_hash sample_query]
      handleDNS_never_panics [OF sample_slave_ok, of "\<lambda>s. s" toy_hash "[1, 2, 3]"] by auto
qed

text \<open>C20: End to end, a positive answer. A query for a name and type that the zone has is
  answered by a message with the query's id, the flags QR, AA and the query's RD, code 0, the
  question as it was asked, all records of that name and type in the wire form as the answer
  section, an empty authority section, and additional records that come from the zone.\<close>

theorem handleDNS_positive_answer:
  assumes "currDB s = Some (zone_db z rs b)" "served_zone uni z rs" "sized_labels ls" "ls \<noteq> []"
    and "length (wire_of ls) \<le> 255" "NewDomain uni (fqdn_of ls) = Inr name" "RRtypeToWire t = Some qtype"
    and "drop_bit 11 flags AND 0xf = 0" "records_at uni rs name t \<noteq> []"
  shows "\<exists>additional req qi. set additional \<subseteq> set rs \<and>
    handleDNS uni uup sha1 s (query_message txid flags ls qtype qclass) =
      Some (Some (req,
        put16 txid @ put16 (FlagQR OR FlagAA OR (flags AND FlagRD)) @ put16 1
          @ put16 (u16_of (length (records_at uni rs name t))) @ put16 0 @ put16 (u16_of (length additional))
          @ wire_of ls @ put16 qtype @ put16 qclass
          @ concat (map (\<lambda>rr. fst (BinaryWrite uni rr)) (records_at uni rs name t @ additional)), qi))"
proof -
  have "valid_domain name" using assms(6) NewDomain_Inr_iff by blast
  then have "wf_name name" by simp
  then obtain e1 e2 where e: "set e1 \<subseteq> set rs"
    "lookupRRset uni (zone_db z rs b) name t = Some (RcodeNoError, records_at uni rs name t, e1, name)"
    using lookupRRset_cases [OF assms(2), of name b t] assms(9) by metis
  have a: "answerQuery uni uup sha1 s (fqdn_of ls) qtype t False = Some (RcodeNoError, records_at uni rs name t, e1, [])"
    using assms(1,6,9) e(2)
    by (simp add: answerQuery_def appendDNSSEC_def appendNegativeAuthority_def rcode_defs)
  have k: "list_all known_type (records_at uni rs name t)" "list_all known_type e1"
    using of_zone_known [OF assms(2)] records_at_zone [of uni rs name t] e(1) of_zone_member by blast+
  show ?thesis
    using handleDNS_plain [OF assms(3-5,7,8) a, of txid qclass] e(1) k
    by (fastforce simp: BuildResponse_def writeSection_known Let_def rcode_defs)
qed

theorem handleDNS_positive_answer_witness:
  "\<exists>resp req qi. handleDNS (\<lambda>s. s) (\<lambda>s. s) toy_hash sample_slave
      (query_message 7 0x100 [lit ''NS'', lit ''example''] 1 1) = Some (Some (req, resp, qi))
    \<and> take 8 resp = put16 7 @ put16 0x8500 @ put16 1 @ put16 1"
proof -
  let ?ls = "[lit ''NS'', lit ''example'']" and ?z = "lit ''example.''" and ?n = "lit ''ns.example.''"
  have db: "currDB sample_slave = Some (zone_db ?z sample_zone False)"
    by (simp add: sample_slave_def del: DB.update_convs)
  have h: "sized_labels ?ls" "?ls \<noteq> []" "length (wire_of ?ls) \<le> 255" "NewDomain (\<lambda>s. s) (fqdn_of ?ls) = Inr ?n"
    "RRtypeToWire TypeA = Some 1" "drop_bit 11 (0x100 :: 16 word) AND 0xf = 0"
    "records_at (\<lambda>s. s) sample_zone ?n TypeA \<noteq> []"
    and r: "length (records_at (\<lambda>s. s) sample_zone ?n TypeA) = 1"
    "FlagQR OR FlagAA OR (0x100 AND FlagRD) = 0x8500"
    by code_simp+
  from handleDNS_positive_answer [OF db served_sample h, of "\<lambda>s. s" toy_hash 7 1] show ?thesis
    unfolding r by (auto simp: put16_def)
qed

text \<open>C21: End to end, a name error. A query for a name that has no record of the type and no
  CNAME, owns no record and is not below a wildcard that applies is answered with code 3, no
  answers and no additional records, and with the SOA records of the zone in the authority
  section.\<close>

theorem handleDNS_name_error:
  assumes "currDB s = Some (zone_db z rs b)" "served_zone uni z rs" "sized_labels ls" "ls \<noteq> []"
    and "length (wire_of ls) \<le> 255" "NewDomain uni (fqdn_of ls) = Inr name" "RRtypeToWire t = Some qtype"
    and "drop_bit 11 flags AND 0xf = 0" "records_at uni rs name t = []" "records_at uni rs name TypeCNAME = []"
    and "\<forall>rr \<in> set rs. Name rr \<noteq> name" "fst (WildcardLookup (zone_db z rs b) name z t) = []"
  shows "\<exists>req qi. handleDNS uni uup sha1 s (query_message txid flags ls qtype qclass) =
      Some (Some (req,
        put16 txid @ put16 (FlagQR OR FlagAA OR (flags AND FlagRD) OR 3) @ put16 1
          @ put16 0 @ put16 (u16_of (length (records_at uni rs z TypeSOA))) @ put16 0
          @ wire_of ls @ put16 qtype @ put16 qclass
          @ concat (map (\<lambda>rr. fst (BinaryWrite uni rr)) (records_at uni rs z TypeSOA)), qi))"
proof -
  have "valid_domain name" using assms(6) NewDomain_Inr_iff by blast
  then have "wf_name name" by simp
  moreover have "\<not> (\<exists>rr \<in> set rs. Name rr = name)" using assms(11) by blast
  ultimately have "lookupRRset uni (zone_db z rs b) name t = lookupWildcard uni (zone_db z rs b) name t"
    using lookupRRset_cases [OF assms(2), of name b t] assms(9,10) by metis
  moreover have "lookupWildcard uni (zone_db z rs b) name t = Some (RcodeNXDomain, [], [], name)"
    using assms(12) by (cases "WildcardLookup (zone_db z rs b) name z t") (simp add: lookupWildcard_def)
  moreover have "LookupByType uni (zone_db z rs b) z TypeSOA = Some (records_at uni rs z TypeSOA)"
    using served_lookup [OF assms(2), of z b TypeSOA] assms(2) by (simp add: served_zone_def records_at_def)
  ultimately have a: "answerQuery uni uup sha1 s (fqdn_of ls) qtype t False =
      Some (RcodeNXDomain, [], [], records_at uni rs z TypeSOA)"
    using assms(1,6) by (simp add: answerQuery_def appendDNSSEC_def appendNegativeAuthority_def)
  have k: "list_all known_type (records_at uni rs z TypeSOA)"
    using of_zone_known [OF assms(2)] records_at_zone by blast
  have three: "(3 :: 16 word) AND 0xf = 3" by code_simp
  show ?thesis
    using handleDNS_plain [OF assms(3-5,7,8) a, of txid qclass] k three
    by (fastforce simp: BuildResponse_def writeSection_known Let_def RcodeNXDomain_def)
qed

theorem handleDNS_name_error_witness:
  "\<exists>resp req qi. handleDNS (\<lambda>s. s) (\<lambda>s. s) toy_hash sample_slave
      (query_message 7 0 [lit ''a'', lit ''ns'', lit ''example''] 28 1) = Some (Some (req, resp, qi))
    \<and> take 10 resp = put16 7 @ put16 0x8403 @ put16 1 @ put16 0 @ put16 1"
proof -
  let ?ls = "[lit ''a'', lit ''ns'', lit ''example'']" and ?z = "lit ''example.''" and ?n = "lit ''a.ns.example.''"
  have db: "currDB sample_slave = Some (zone_db ?z sample_zone False)"
    by (simp add: sample_slave_def del: DB.update_convs)
  have h: "sized_labels ?ls" "?ls \<noteq> []" "length (wire_of ?ls) \<le> 255" "NewDomain (\<lambda>s. s) (fqdn_of ?ls) = Inr ?n"
    "RRtypeToWire TypeAAAA = Some 28" "drop_bit 11 (0 :: 16 word) AND 0xf = 0"
    "records_at (\<lambda>s. s) sample_zone ?n TypeAAAA = []" "records_at (\<lambda>s. s) sample_zone ?n TypeCNAME = []"
    "\<forall>rr \<in> set sample_zone. Name rr \<noteq> ?n"
    "fst (WildcardLookup (zone_db ?z sample_zone False) ?n ?z TypeAAAA) = []"
    and r: "length (records_at (\<lambda>s. s) sample_zone ?z TypeSOA) = 1"
    "FlagQR OR FlagAA OR (0 AND FlagRD) OR 3 = 0x8403"
    by code_simp+
  from handleDNS_name_error [OF db served_sample h, of "\<lambda>s. s" toy_hash 7 1] show ?thesis
    unfolding r by (auto simp: put16_def)
qed

text \<open>A UDP reply fits the advertised size: it is the response, or its truncated header.\<close>

lemma serveUDP_sizes:
  assumes "slave_ok uni s"
  shows "\<exists>r. serveUDP uni uup sha1 s query = Some r \<and>
       (\<forall>out labels. r = Some (out, labels) \<longrightarrow>
          (\<exists>req resp qi. handleDNS uni uup sha1 s query = Some (Some (req, resp, qi))
             \<and> answers_to query out \<and> length out \<le> 4096 \<and> length out \<le> max 512 (unat (qiUdpSize qi))
             \<and> (out = resp \<or> length out = 12 \<and> (\<exists>flags. be16 out 2 = Some flags \<and> bit flags 9))))"
  using handleDNS_ok [OF assms, of query uup sha1]
proof (elim disjE exE conjE)
  fix req resp qi
  assume h: "New query = Some (Inr req)" "handleDNS uni uup sha1 s query = Some (Some (req, resp, qi))"
    "answers_to query resp"
  have "12 \<le> maxUDP qi" using maxUDP_bounds(1) [of qi] by simp
  then obtain out where "truncateTo (maxUDP qi) req resp = Some out" "length out \<le> maxUDP qi" "answers_to query out"
    "out = resp \<or> length out = 12 \<and> (\<exists>flags. be16 out 2 = Some flags \<and> bit flags 9)"
    using truncateTo_ok [OF h(1,3)] by (meson not_le)
  then show ?thesis using h(2) maxUDP_bounds(2,3) [of qi] by (auto simp: serveUDP_def)
qed (simp add: serveUDP_def)

text \<open>A TCP reply is framed with its length.\<close>

lemma handleTCPConn_sizes:
  assumes "slave_ok uni s"
  shows "\<exists>r. handleTCPConn uni uup sha1 s stream = Some r \<and>
       (\<forall>framed labels. r = Some (framed, labels) \<longrightarrow>
          (\<exists>out. framed = put16 (u16_of (length out)) @ out \<and> length out \<le> 8192
             \<and> unat (u16_of (length out)) = length out
             \<and> answers_to (take (length stream - 2) (drop 2 stream)) out))"
proof (cases "2 \<le> length stream \<and> 2 + unat (mk16 (stream ! 0) (stream ! 1)) \<le> length stream")
  case False
  then show ?thesis by (auto simp: handleTCPConn_def be16_def)
next
  case True
  let ?n = "unat (mk16 (stream ! 0) (stream ! 1))"
  let ?q = "take ?n (drop 2 stream)"
  have start: "be16 ?q 0 = be16 (take (length stream - 2) (drop 2 stream)) 0" if "2 \<le> length ?q"
    using that True by (simp add: be16_def)
  have red: "handleTCPConn uni uup sha1 s stream =
    do { r \<leftarrow> handleDNS uni uup sha1 s ?q;
         (case r of None \<Rightarrow> Some None
          | Some (req, resp, qi) \<Rightarrow> do {
              out \<leftarrow> truncateTo maxTCPResponseSize req resp;
              Some (Some (put16 (u16_of (length out)) @ out, queryLabels qi)) }) }"
    using True by (simp add: handleTCPConn_def be16_def)
  show ?thesis
    using handleDNS_ok [OF assms, of ?q uup sha1]
  proof (elim disjE exE conjE)
    fix req resp qi
    assume h: "New ?q = Some (Inr req)" "handleDNS uni uup sha1 s ?q = Some (Some (req, resp, qi))"
      "answers_to ?q resp"
    obtain out where o: "truncateTo maxTCPResponseSize req resp = Some out" "length out \<le> 8192" "answers_to ?q out"
      using truncateTo_ok [OF h(1,3), of maxTCPResponseSize] by (auto simp: maxTCPResponseSize_def)
    have "2 \<le> length ?q" using New_request(4,5) [OF h(1)] by linarith
    then have "answers_to (take (length stream - 2) (drop 2 stream)) out"
      using o(3) start unfolding answers_to_def by metis
    moreover have "unat (u16_of (length out)) = length out" using o(2) by (simp add: unat_of_nat)
    ultimately show ?thesis unfolding red using h(2) o(1,2) by auto
  qed (simp add: red)
qed

text \<open>C34: Sizes of what is sent. Whatever a client sends, a UDP reply has at least 12 and at
  most 4096 bytes, and at most 512 unless the client advertised more in its OPT record; a
  response that does not fit is replaced by a 12-byte one with the TC bit set. A TCP reply is
  a two-byte length followed by exactly that many bytes, at most 8192.\<close>

theorem reply_sizes:
  assumes "slave_ok uni s"
  shows "(\<exists>r. serveUDP uni uup sha1 s query = Some r \<and>
       (\<forall>out labels. r = Some (out, labels) \<longrightarrow>
          (\<exists>req resp qi. handleDNS uni uup sha1 s query = Some (Some (req, resp, qi))
             \<and> answers_to query out \<and> length out \<le> 4096 \<and> length out \<le> max 512 (unat (qiUdpSize qi))
             \<and> (out = resp \<or> length out = 12 \<and> (\<exists>flags. be16 out 2 = Some flags \<and> bit flags 9)))))
   \<and> (\<exists>r. handleTCPConn uni uup sha1 s stream = Some r \<and>
       (\<forall>framed labels. r = Some (framed, labels) \<longrightarrow>
          (\<exists>out. framed = put16 (u16_of (length out)) @ out \<and> length out \<le> 8192
             \<and> unat (u16_of (length out)) = length out
             \<and> answers_to (take (length stream - 2) (drop 2 stream)) out)))"
  using serveUDP_sizes [OF assms, of uup sha1 query] handleTCPConn_sizes [OF assms, of uup sha1 stream] by (rule conjI)

theorem reply_sizes_witness:
  "(\<exists>out labels. serveUDP (\<lambda>s. s) (\<lambda>s. s) toy_hash sample_slave sample_query = Some (Some (out, labels))
      \<and> length out \<le> 4096 \<and> answers_to sample_query out)
   \<and> (\<exists>r. handleTCPConn (\<lambda>s. s) (\<lambda>s. s) toy_hash sample_slave [0] = Some r)"
proof -
  obtain req resp qi where "handleDNS (\<lambda>s. s) (\<lambda>s. s) toy_hash sample_slave sample_query = Some (Some (req, resp, qi))"
    using handleDNS_ok [OF sample_slave_ok, of sample_query "\<lambda>s. s" toy_hash] sample_query_accepted by auto
  then have "serveUDP (\<lambda>s. s) (\<lambda>s. s) toy_hash sample_slave sample_query \<noteq> Some None"
    by (auto simp: serveUDP_def bind_eq_Some_conv)
  then show ?thesis
    using reply_sizes [OF sample_slave_ok, of "\<lambda>s. s" toy_hash sample_query "[0]"] by fastforce
qed

text \<open>The version check of EDNS comes after the branch for unknown types: a query of type
  65 with an OPT record of version 1 gets a plain NOERROR response whose OPT record has the
  extended code 0, not BADVERS, whereas the same query of type A gets the extended code 1.\<close>

definition edns_query :: "16 word \<Rightarrow> bytes" where
  "edns_query qtype = put16 7 @ put16 0 @ put16 1 @ put16 0 @ put16 0 @ put16 1 @ wire_of [lit ''x'']
     @ put16 qtype @ put16 1 @ [0] @ put16 41 @ put16 4096 @ [0, 1] @ put16 0 @ put16 0"

theorem BADVERS_only_for_known_types:
  "map_option (map_option (\<lambda>(req, resp, qi). (drop (length resp - 11) resp, qiRcode qi)))
     (handleDNS (\<lambda>s. s) (\<lambda>s. s) toy_hash sample_slave (edns_query 65)) =
     Some (Some ([0, 0, 41, 16, 0, 0, 0, 0, 0, 0, 0], 0))
   \<and> map_option (map_option (\<lambda>(req, resp, qi). (drop (length resp - 11) resp, qiRcode qi)))
     (handleDNS (\<lambda>s. s) (\<lambda>s. s) toy_hash sample_slave (edns_query 1)) =
     Some (Some ([0, 0, 41, 16, 0, 1, 0, 0, 0, 0, 0], 16))"
  by code_simp

end
