(* ===== verification/Slave_Sync.thy ===== *)
theory Slave_Sync
  imports Slave_DNS
begin

text \<open>
  How a slave gets its database, after \<^verbatim>\<open>internal/slave/slave.go\<close>,
  \<^verbatim>\<open>sync.go\<close> and \<^verbatim>\<open>snapshot.go\<close>: pushes and polls, the swap of the database with
  the rebuild of the NSEC3 chain, and the snapshot file.

  The JSON codec is a parameter (\<open>enc\<close>, \<open>dec\<close>; \<open>enc\<close> may fail), and so is the order of map
  iteration (\<open>ord\<close>). The file system is a map from paths to contents; what can go wrong in a
  system call is an explicit argument, and an operation returns every state the file system
  passes through, so that a crash is a stop at one of them. The network is the list of
  outcomes of the attempts.
\<close>

subsection \<open>The snapshot file\<close>

type_synonym filesystem = "gostring \<rightharpoonup> bytes"

datatype sync_error =
    ErrSnapshotCorrupt | EncodeFailed | ReadFailed | WriteFailed | RenameFailed
  | GetFailed "sync_error option" | StatusCode nat | NetworkError | BodyReadFailed | PollTooLarge int | UnmarshalFailed

definition parseSnapshot :: "(bytes \<Rightarrow> dbWire option) \<Rightarrow> bytes \<Rightarrow> sync_error + DB" where
  "parseSnapshot dec data = (case UnmarshalJSON dec data of None \<Rightarrow> Inl ErrSnapshotCorrupt | Some d \<Rightarrow> Inr d)"

definition encodeSnapshot :: "(dbWire \<Rightarrow> bytes option) \<Rightarrow> maporder \<Rightarrow> DB \<Rightarrow> sync_error + bytes" where
  "encodeSnapshot enc ord d = (case MarshalJSON enc ord d of None \<Rightarrow> Inl EncodeFailed | Some data \<Rightarrow> Inr data)"

text \<open>\<open>os.ReadFile\<close> fails for a missing file; \<open>readable\<close> is false when it fails otherwise.\<close>

definition loadSnapshot :: "(bytes \<Rightarrow> dbWire option) \<Rightarrow> bool \<Rightarrow> filesystem \<Rightarrow> gostring \<Rightarrow> sync_error + DB" where
  "loadSnapshot dec readable fs path =
     (case (if readable then fs path else None) of
        None \<Rightarrow> Inl ReadFailed
      | Some data \<Rightarrow> parseSnapshot dec data)"

text \<open>\<open>os.WriteFile\<close> truncates the file and writes the data piece by piece; it may fail after
  \<open>k\<close> bytes (\<open>Some k\<close>). The result lists the states of the file system in order.\<close>

definition WriteFile :: "nat option \<Rightarrow> gostring \<Rightarrow> bytes \<Rightarrow> filesystem \<Rightarrow> sync_error option \<times> filesystem list" where
  "WriteFile fault path data fs =
     (let upto = (case fault of None \<Rightarrow> length data | Some k \<Rightarrow> min k (length data))
      in (if fault = None then None else Some WriteFailed,
          map (\<lambda>k. fs(path \<mapsto> take k data)) [0..<Suc upto]))"

text \<open>\<open>os.Rename\<close> replaces the target in one step, or fails and changes nothing.\<close>

definition Rename :: "bool \<Rightarrow> gostring \<Rightarrow> gostring \<Rightarrow> filesystem \<Rightarrow> sync_error option \<times> filesystem" where
  "Rename ok from to fs = (if ok then (None, (fs(to := fs from))(from := None)) else (Some RenameFailed, fs))"

record io_faults =
  writeFault :: "nat option"
  renameOk :: bool

definition saveSnapshot ::
  "(dbWire \<Rightarrow> bytes option) \<Rightarrow> maporder \<Rightarrow> io_faults \<Rightarrow> gostring \<Rightarrow> DB \<Rightarrow> filesystem
    \<Rightarrow> sync_error option \<times> filesystem list" where
  "saveSnapshot enc ord io path d fs =
     (case encodeSnapshot enc ord d of
        Inl err \<Rightarrow> (Some err, [fs])
      | Inr data \<Rightarrow>
          (let tmp = path @ lit ''.tmp'';
               (werr, written) = WriteFile (writeFault io) tmp data fs
           in case werr of
                Some err \<Rightarrow> (Some err, fs # written)
              | None \<Rightarrow>
                  (let (rerr, fs') = Rename (renameOk io) tmp path (last written)
                   in (rerr, fs # written @ [fs']))))"

subsection \<open>Swapping the database\<close>

definition swapDB ::
  "(dbWire \<Rightarrow> bytes option) \<Rightarrow> maporder \<Rightarrow> io_faults \<Rightarrow> Slave \<Rightarrow> filesystem \<Rightarrow> DB \<Rightarrow> Slave \<times> filesystem list" where
  "swapDB enc ord io s fs newDB =
     (let chain = (if DNSSECEnabled newDB
                   then (case RebuildNSEC3Chain newDB of Inl err \<Rightarrow> None | Inr c \<Rightarrow> Some c)
                   else None);
          s' = s \<lparr> currDB := Some newDB, nsec3Chain := chain, ready := True \<rparr>;
          path = SnapshotLocation (cfgSlave (slaveCfg s))
      in if path \<noteq> [] then (s', snd (saveSnapshot enc ord io path newDB fs)) else (s', [fs]))"

text \<open>\<open>maxDBBodyBytes\<close>: the product is an \<open>int64\<close>.\<close>

definition maxDBBodyBytes :: "Slave \<Rightarrow> int" where
  "maxDBBodyBytes s =
     (let maxRecords = (if MaxRecords (cfgMaster (slaveCfg s)) \<le> 0 then 100000 else MaxRecords (cfgMaster (slaveCfg s)));
          numKeys = int (length (Keys (cfgDNSSEC (slaveCfg s))))
      in sint (word_of_int maxRecords * word_of_int (numKeys + 2) * 1024 :: 64 word))"

subsection \<open>Push, dump and poll\<close>

text \<open>\<open>handleDBPush\<close>: \<open>body\<close> is what the connection delivers, \<open>None\<close> when reading fails;
  \<open>MaxBytesReader\<close> turns a longer body into a read error and
  takes a negative limit as 0. The result is the HTTP status.\<close>

definition handleDBPush ::
  "(dbWire \<Rightarrow> bytes option) \<Rightarrow> (bytes \<Rightarrow> dbWire option) \<Rightarrow> maporder \<Rightarrow> io_faults \<Rightarrow> Slave \<Rightarrow> filesystem
    \<Rightarrow> gostring \<Rightarrow> bytes option \<Rightarrow> nat \<times> Slave \<times> filesystem list" where
  "handleDBPush enc dec ord io s fs method body =
     (if method \<noteq> lit ''POST'' then (405, s, [fs])
      else case body of
        None \<Rightarrow> (400, s, [fs])
      | Some data \<Rightarrow>
          (if max 0 (maxDBBodyBytes s) < int (length data) then (400, s, [fs])
           else case UnmarshalJSON dec data of
             None \<Rightarrow> (400, s, [fs])
           | Some newDB \<Rightarrow>
               (let (s', fss) = swapDB enc ord io s fs newDB
                in (204, s' \<lparr> dbSyncs := lit ''push'' # dbSyncs s' \<rparr>, fss))))"

definition handleDBDump :: "(dbWire \<Rightarrow> bytes option) \<Rightarrow> maporder \<Rightarrow> Slave \<Rightarrow> nat \<times> bytes option" where
  "handleDBDump enc ord s =
     (case currDB s of
        None \<Rightarrow> (503, None)
      | Some d \<Rightarrow> (case MarshalJSON enc ord d of None \<Rightarrow> (500, None) | Some data \<Rightarrow> (200, Some data)))"

text \<open>One HTTP attempt: a transport error, or a status with a body; the body is \<open>None\<close> when
  reading it fails. \<open>io.ReadAll\<close> reads through a limit of one byte more than allowed.\<close>

datatype attempt = HttpError | HttpStatus nat "bytes option"

definition maxAttempts :: nat where "maxAttempts = 10"

text \<open>The loop of \<open>poll\<close> from attempt \<open>i\<close> on; the result is the response, or the last error.\<close>

function pollLoop :: "(nat \<Rightarrow> attempt) \<Rightarrow> nat \<Rightarrow> sync_error option \<Rightarrow> sync_error option + bytes option" where
  "pollLoop attempts i lastErr =
     (if i < maxAttempts
      then (case attempts i of
              HttpStatus code body \<Rightarrow>
                (if code = 200 then Inr body else pollLoop attempts (i + 1) (Some (StatusCode code)))
            | HttpError \<Rightarrow> pollLoop attempts (i + 1) (Some NetworkError))
      else Inl lastErr)"
  by pat_completeness auto
termination
  by (relation "measure (\<lambda>(attempts, i, e). maxAttempts - i)") auto

declare pollLoop.simps [simp del]

definition poll ::
  "(dbWire \<Rightarrow> bytes option) \<Rightarrow> (bytes \<Rightarrow> dbWire option) \<Rightarrow> maporder \<Rightarrow> io_faults \<Rightarrow> (nat \<Rightarrow> attempt)
    \<Rightarrow> Slave \<Rightarrow> filesystem \<Rightarrow> sync_error option \<times> Slave \<times> filesystem list" where
  "poll enc dec ord io attempts s fs =
     (case pollLoop attempts 0 None of
        Inl err \<Rightarrow> (Some (GetFailed err), s, [fs])
      | Inr None \<Rightarrow> (Some BodyReadFailed, s, [fs])
      | Inr (Some body) \<Rightarrow>
          (let limit = maxDBBodyBytes s;
               data = take (nat (limit + 1)) body
           in if limit < int (length data) then (Some (PollTooLarge limit), s, [fs])
              else case UnmarshalJSON dec data of
                None \<Rightarrow> (Some UnmarshalFailed, s, [fs])
              | Some newDB \<Rightarrow>
                  (let (s', fss) = swapDB enc ord io s fs newDB
                   in (None, s' \<lparr> dbSyncs := lit ''poll'' # dbSyncs s' \<rparr>, fss))))"

subsection \<open>Start, readiness\<close>

definition NewSlave :: "DNSConfigSpec \<Rightarrow> Slave" where
  "NewSlave cfg = \<lparr> slaveCfg = cfg, currDB = None, nsec3Chain = None, ready = False, dbSyncs = [] \<rparr>"

definition Ready :: "Slave \<Rightarrow> bool" where
  "Ready s = ready s"

text \<open>The first part of \<open>MainLoop\<close>: the snapshot, then the initial poll. An error ends the process.\<close>

definition warmUp ::
  "(dbWire \<Rightarrow> bytes option) \<Rightarrow> (bytes \<Rightarrow> dbWire option) \<Rightarrow> maporder \<Rightarrow> io_faults \<Rightarrow> bool
    \<Rightarrow> Slave \<Rightarrow> filesystem \<Rightarrow> bool \<times> Slave \<times> filesystem list" where
  "warmUp enc dec ord io readable s fs =
     (let path = SnapshotLocation (cfgSlave (slaveCfg s))
      in if path = [] then (False, s, [fs])
         else case loadSnapshot dec readable fs path of
           Inl err \<Rightarrow> (False, s, [fs])
         | Inr d \<Rightarrow> (True, swapDB enc ord io s fs d))"

definition startUp ::
  "(dbWire \<Rightarrow> bytes option) \<Rightarrow> (bytes \<Rightarrow> dbWire option) \<Rightarrow> maporder \<Rightarrow> io_faults \<Rightarrow> bool \<Rightarrow> (nat \<Rightarrow> attempt)
    \<Rightarrow> Slave \<Rightarrow> filesystem \<Rightarrow> sync_error + Slave \<times> filesystem list" where
  "startUp enc dec ord io readable attempts s fs =
     (let (snapshotLoaded, s1, fss1) = warmUp enc dec ord io readable s fs;
          (err, s2, fss2) = poll enc dec ord io attempts s1 (last fss1)
      in case err of
           Some e \<Rightarrow> (if \<not> snapshotLoaded then Inl e else Inr (s2, fss1 @ fss2))
         | None \<Rightarrow> Inr (s2, fss1 @ fss2))"

subsection \<open>The snapshot is atomic\<close>

lemma WriteFile_states:
  assumes "WriteFile fault tmp data fs = (err, states)"
  shows "states \<noteq> []" "\<forall>fs' \<in> set states. \<forall>q. q \<noteq> tmp \<longrightarrow> fs' q = fs q"
    "err = None \<Longrightarrow> last states = fs(tmp \<mapsto> data)"
  using assms by (auto simp: WriteFile_def Let_def split: option.splits)

lemma saveSnapshot_states:
  assumes "saveSnapshot enc ord io path d fs = (err, states)"
  shows "states \<noteq> []"
    and "\<forall>fs' \<in> set states. fs' path = fs path
          \<or> (\<exists>data. encodeSnapshot enc ord d = Inr data \<and> fs' path = Some data)"
    and "\<forall>fs' \<in> set states. \<forall>q. q \<noteq> path \<and> q \<noteq> path @ lit ''.tmp'' \<longrightarrow> fs' q = fs q"
    and "err = None \<Longrightarrow> \<exists>data. encodeSnapshot enc ord d = Inr data \<and> last states path = Some data"
    and "err \<noteq> None \<Longrightarrow> last states path = fs path"
proof -
  have tmp: "path \<noteq> path @ lit ''.tmp''" by (simp add: lit_def)
  have "states \<noteq> [] \<and> (\<forall>fs' \<in> set states. fs' path = fs path
          \<or> (\<exists>data. encodeSnapshot enc ord d = Inr data \<and> fs' path = Some data))
    \<and> (\<forall>fs' \<in> set states. \<forall>q. q \<noteq> path \<and> q \<noteq> path @ lit ''.tmp'' \<longrightarrow> fs' q = fs q)
    \<and> (err = None \<longrightarrow> (\<exists>data. encodeSnapshot enc ord d = Inr data \<and> last states path = Some data))
    \<and> (err \<noteq> None \<longrightarrow> last states path = fs path)"
  proof (cases "encodeSnapshot enc ord d")
    case (Inl e)
    then show ?thesis using assms by (auto simp: saveSnapshot_def)
  next
    case (Inr data)
    obtain werr written where w: "WriteFile (writeFault io) (path @ lit ''.tmp'') data fs = (werr, written)" by fastforce
    note ws = WriteFile_states [OF w]
    have lw: "last written \<in> set written" "last written path = fs path" using ws(1,2) tmp by simp_all
    have "states = fs # written @ (if werr = None then [snd (Rename (renameOk io) (path @ lit ''.tmp'') path (last written))] else [])"
      "err = (if werr = None then fst (Rename (renameOk io) (path @ lit ''.tmp'') path (last written)) else werr)"
      using assms Inr w by (auto simp: saveSnapshot_def Let_def split: option.splits prod.splits)
    then show ?thesis using Inr ws tmp lw by (auto simp: Rename_def)
  qed
  then show "states \<noteq> []"
    and "\<forall>fs' \<in> set states. fs' path = fs path
          \<or> (\<exists>data. encodeSnapshot enc ord d = Inr data \<and> fs' path = Some data)"
    and "\<forall>fs' \<in> set states. \<forall>q. q \<noteq> path \<and> q \<noteq> path @ lit ''.tmp'' \<longrightarrow> fs' q = fs q"
    and "err = None \<Longrightarrow> \<exists>data. encodeSnapshot enc ord d = Inr data \<and> last states path = Some data"
    and "err \<noteq> None \<Longrightarrow> last states path = fs path" by blast+
qed

subsection \<open>The swap\<close>

lemma RebuildNSEC3Chain_records:
  assumes "RebuildNSEC3Chain (zone_db z rs b) = Inr c" shows "set (Records c) \<subseteq> set rs"
proof -
  have "Records c = SortFunc (\<lambda>a b. Compare (Name a) (Name b)) (mapGet (ByType (zone_db z rs b)) TypeNSEC3)"
    using assms by (auto simp: RebuildNSEC3Chain_def Let_def split: option.splits sum.splits)
  then have "set (Records c) = set (mapGet (ByType (zone_db z rs b)) TypeNSEC3)"
    using namecmp.SortFunc_set by simp
  then show ?thesis by (auto simp: by_type.get_NewDB)
qed

text \<open>What holds of a slave between two events: it is ready exactly when it has a database, the
  chain belongs to that database, and the database is well formed.\<close>

definition synced :: "unilower \<Rightarrow> Slave \<Rightarrow> bool" where
  "synced uni s \<longleftrightarrow> (ready s \<longleftrightarrow> currDB s \<noteq> None) \<and> slave_ok uni s \<and>
     (\<forall>d. currDB s = Some d \<longrightarrow>
        nsec3Chain s = (if DNSSECEnabled d
          then (case RebuildNSEC3Chain d of Inl _ \<Rightarrow> None | Inr c \<Rightarrow> Some c) else None))"

definition decodes_served :: "unilower \<Rightarrow> (bytes \<Rightarrow> dbWire option) \<Rightarrow> bool" where
  "decodes_served uni dec \<longleftrightarrow> (\<forall>data w. dec data = Some w \<longrightarrow> served_zone uni (wZone w) (wRecords w))"

lemma swapDB_synced:
  assumes "decodes_served uni dec" "UnmarshalJSON dec data = Some d" "swapDB enc ord io s fs d = (s', fss)"
  shows "synced uni s'" "ready s'" "fss \<noteq> []" "slaveCfg s' = slaveCfg s" "dbSyncs s' = dbSyncs s" "currDB s' = Some d"
proof -
  obtain w where w: "dec data = Some w" "d = zone_db (wZone w) (wRecords w) (wDNSSECEnabled w)"
    using assms(2) by (auto simp: UnmarshalJSON_def split: option.splits)
  let ?chain = "if DNSSECEnabled d then (case RebuildNSEC3Chain d of Inl _ \<Rightarrow> None | Inr c \<Rightarrow> Some c) else None"
  have s': "s' = s \<lparr> currDB := Some d, nsec3Chain := ?chain, ready := True \<rparr>"
    using assms(3) by (auto simp: swapDB_def Let_def split: if_splits)
  have ch: "chain_of (wRecords w) ?chain"
    using RebuildNSEC3Chain_records w(2) by (auto simp: chain_of_def split: sum.splits)
  have "slave_ok uni s'"
    by (rule slave_okI [where z = "wZone w" and rs = "wRecords w" and b = "wDNSSECEnabled w"])
      (use assms(1) w ch s' in \<open>auto simp: decodes_served_def simp del: DB.update_convs\<close>)
  then show "synced uni s'" using s' by (auto simp: synced_def)
  show "ready s'" "slaveCfg s' = slaveCfg s" "dbSyncs s' = dbSyncs s" "currDB s' = Some d" using s' by simp_all
  show "fss \<noteq> []"
    using assms(3) saveSnapshot_states(1) [of enc ord io "SnapshotLocation (cfgSlave (slaveCfg s))" d fs]
    by (cases "saveSnapshot enc ord io (SnapshotLocation (cfgSlave (slaveCfg s))) d fs")
      (auto simp: swapDB_def Let_def split: if_splits)
qed

lemma synced_dbSyncs [simp]: "synced uni (s \<lparr> dbSyncs := x \<rparr>) = synced uni s"
  by (simp add: synced_def slave_ok_def)

lemma handleDBPush_cases:
  assumes "handleDBPush enc dec ord io s fs method body = (status, s', fss)"
  obtains "status \<noteq> 204" "s' = s" "fss = [fs]"
  | data d s1 where "status = 204" "body = Some data" "method = lit ''POST''" "UnmarshalJSON dec data = Some d"
      "swapDB enc ord io s fs d = (s1, fss)" "s' = s1 \<lparr> dbSyncs := lit ''push'' # dbSyncs s1 \<rparr>"
  using assms by (auto simp: handleDBPush_def Let_def split: if_splits option.splits prod.splits)

lemma poll_cases:
  assumes "poll enc dec ord io attempts s fs = (err, s', fss)"
  obtains "err \<noteq> None" "s' = s" "fss = [fs]"
  | data d s1 where "err = None" "pollLoop attempts 0 None = Inr (Some data)" "int (length data) \<le> maxDBBodyBytes s"
      "UnmarshalJSON dec data = Some d"
      "swapDB enc ord io s fs d = (s1, fss)" "s' = s1 \<lparr> dbSyncs := lit ''poll'' # dbSyncs s1 \<rparr>"
proof (cases "pollLoop attempts 0 None")
  case (Inr body)
  show thesis
  proof (cases body)
    case (Some data)
    let ?l = "maxDBBodyBytes s"
    have full: "take (nat (?l + 1)) data = data" "int (length data) \<le> ?l" if "\<not> ?l < int (length (take (nat (?l + 1)) data))"
      using that by (auto simp: min_def split: if_splits)
    show thesis
      using assms Inr Some that full
      by (auto simp: poll_def Let_def split: if_splits option.splits prod.splits)
  qed (use assms Inr that in \<open>auto simp: poll_def\<close>)
qed (use assms that in \<open>auto simp: poll_def\<close>)

subsection \<open>Runs of a slave\<close>

text \<open>The states of a slave process and its file system: after the start, after pushes and
  after polls, with any faults and any network behaviour.\<close>

inductive slave_reachable ::
  "(dbWire \<Rightarrow> bytes option) \<Rightarrow> (bytes \<Rightarrow> dbWire option) \<Rightarrow> DNSConfigSpec \<Rightarrow> Slave \<Rightarrow> filesystem \<Rightarrow> bool"
  for enc dec cfg where
  start: "startUp enc dec ord io readable attempts (NewSlave cfg) fs = Inr (s, fss)
    \<Longrightarrow> slave_reachable enc dec cfg s (last fss)"
| push: "slave_reachable enc dec cfg s fs \<Longrightarrow> handleDBPush enc dec ord io s fs method body = (status, s', fss)
    \<Longrightarrow> slave_reachable enc dec cfg s' (last fss)"
| polled: "slave_reachable enc dec cfg s fs \<Longrightarrow> poll enc dec ord io attempts s fs = (err, s', fss)
    \<Longrightarrow> slave_reachable enc dec cfg s' (last fss)"

lemma push_synced:
  assumes "decodes_served uni dec" "synced uni s" "handleDBPush enc dec ord io s fs method body = (status, s', fss)"
  shows "synced uni s'" "ready s \<Longrightarrow> ready s'" "slaveCfg s' = slaveCfg s"
  using assms(3) by (cases rule: handleDBPush_cases; use assms(2) swapDB_synced [OF assms(1)] in auto)+

lemma poll_synced:
  assumes "decodes_served uni dec" "synced uni s" "poll enc dec ord io attempts s fs = (err, s', fss)"
  shows "synced uni s'" "ready s \<or> err = None \<Longrightarrow> ready s'" "slaveCfg s' = slaveCfg s"
  using assms(3) by (cases rule: poll_cases; use assms(2) swapDB_synced [OF assms(1)] in auto)+

lemma startUp_synced:
  assumes "decodes_served uni dec" "startUp enc dec ord io readable attempts (NewSlave cfg) fs = Inr (s, fss)"
  shows "synced uni s" "ready s" "slaveCfg s = cfg"
proof -
  obtain l s1 fss1 where w: "warmUp enc dec ord io readable (NewSlave cfg) fs = (l, s1, fss1)" by (metis prod_cases3)
  obtain err s2 fss2 where p: "poll enc dec ord io attempts s1 (last fss1) = (err, s2, fss2)" by (metis prod_cases3)
  have init: "synced uni (NewSlave cfg)" by (simp add: synced_def slave_ok_def NewSlave_def)
  have s1: "synced uni s1 \<and> slaveCfg s1 = cfg \<and> (l \<longrightarrow> ready s1)"
  proof (cases l)
    case True
    then obtain data d where "UnmarshalJSON dec data = Some d" "swapDB enc ord io (NewSlave cfg) fs d = (s1, fss1)"
      using w by (auto simp: warmUp_def Let_def loadSnapshot_def parseSnapshot_def
        split: if_splits option.splits sum.splits)
    from swapDB_synced [OF assms(1) this] show ?thesis by (simp add: NewSlave_def)
  next
    case False
    then have "s1 = NewSlave cfg" using w by (auto simp: warmUp_def Let_def split: if_splits sum.splits)
    then show ?thesis using init False by (simp add: NewSlave_def)
  qed
  have "s = s2" "err = None \<or> l"
    using assms(2) w p by (auto simp: startUp_def split: option.splits if_splits)
  then show "synced uni s" "ready s" "slaveCfg s = cfg" using poll_synced [OF assms(1) _ p] s1 by auto
qed

lemma reachable_synced:
  "slave_reachable enc dec cfg s fs \<Longrightarrow> decodes_served uni dec \<Longrightarrow> synced uni s \<and> ready s \<and> slaveCfg s = cfg"
proof (induction rule: slave_reachable.induct)
  case (start ord io readable attempts fs s fss)
  then show ?case using startUp_synced [OF start.prems start.hyps] by simp
next
  case (push s fs ord io meth payload status s' fss)
  then show ?case using push_synced [OF push.prems _ push.hyps(2)] by auto
next
  case (polled s fs ord io attempts err s' fss)
  then show ?case using poll_synced [OF polled.prems _ polled.hyps(2)] by auto
qed

subsection \<open>Which polls succeed\<close>

text \<open>Attempt \<open>k\<close> is the first one, from \<open>i\<close> on, that gets status 200.\<close>

definition firstOK :: "(nat \<Rightarrow> attempt) \<Rightarrow> nat \<Rightarrow> nat \<Rightarrow> bytes option \<Rightarrow> bool" where
  "firstOK attempts i k body \<longleftrightarrow> i \<le> k \<and> k < maxAttempts \<and> attempts k = HttpStatus 200 body
     \<and> (\<forall>j. i \<le> j \<and> j < k \<longrightarrow> (\<forall>b. attempts j \<noteq> HttpStatus 200 b))"

lemma firstOK_skip:
  assumes "\<forall>b. attempts i \<noteq> HttpStatus 200 b"
  shows "firstOK attempts i k body \<longleftrightarrow> firstOK attempts (i + 1) k body"
proof -
  have "i \<le> k \<and> attempts k = HttpStatus 200 body \<longleftrightarrow> i + 1 \<le> k \<and> attempts k = HttpStatus 200 body"
    using assms by (cases "i = k") auto
  moreover have "i \<le> j \<longleftrightarrow> j = i \<or> i + 1 \<le> j" for j by auto
  ultimately show ?thesis using assms unfolding firstOK_def by auto
qed

lemma firstOK_here: "attempts i = HttpStatus 200 b \<Longrightarrow> firstOK attempts i k body \<longleftrightarrow> k = i \<and> i < maxAttempts \<and> body = b"
  by (cases "k = i") (auto simp: firstOK_def)

lemma pollLoop_Inr: "pollLoop attempts i e = Inr body \<longleftrightarrow> (\<exists>k. firstOK attempts i k body)"
proof (induction attempts i e rule: pollLoop.induct)
  case (1 attempts i e)
  show ?case
  proof (cases "attempts i")
    case HttpError
    then have "(\<exists>k. firstOK attempts i k body) \<longleftrightarrow> (\<exists>k. firstOK attempts (i + 1) k body)"
      using firstOK_skip [of attempts i] by simp
    then show ?thesis using HttpError 1(1) by (subst pollLoop.simps) (auto simp: firstOK_def)
  next
    case (HttpStatus code b)
    show ?thesis
    proof (cases "code = 200")
      case True
      then show ?thesis using HttpStatus firstOK_here [of attempts i b] by (subst pollLoop.simps) (auto simp: firstOK_def)
    next
      case False
      then have "(\<exists>k. firstOK attempts i k body) \<longleftrightarrow> (\<exists>k. firstOK attempts (i + 1) k body)"
        using HttpStatus firstOK_skip [of attempts i] by simp
      then show ?thesis using HttpStatus False 1(2) by (subst pollLoop.simps) (auto simp: firstOK_def)
    qed
  qed
qed

lemma sint_word_of_int_eq_self: "0 \<le> n \<Longrightarrow> n < 2 ^ 63 \<Longrightarrow> sint (word_of_int n :: 64 word) = n"
  by (simp add: sint_sbintrunc' signed_take_bit_int_eq_self)

subsection \<open>Properties\<close>

text \<open>C29: The snapshot file is never corrupt. In every state the file system passes through
  while \<open>saveSnapshot\<close> runs, so also after a crash at any point or a failed system call, the
  snapshot path holds either what it held before or the complete encoding of the new
  database; only the temporary file changes besides it. If no error is reported, it holds the
  new encoding at the end; if one is, it holds the old content.\<close>

theorem saveSnapshot_atomic:
  assumes "saveSnapshot enc ord io path d fs = (err, states)"
  shows "(\<forall>fs' \<in> set states. (fs' path = fs path
            \<or> (\<exists>data. encodeSnapshot enc ord d = Inr data \<and> fs' path = Some data))
          \<and> (\<forall>q. q \<noteq> path \<and> q \<noteq> path @ lit ''.tmp'' \<longrightarrow> fs' q = fs q))
    \<and> (err = None \<longrightarrow> (\<exists>data. encodeSnapshot enc ord d = Inr data \<and> last states path = Some data))
    \<and> (err \<noteq> None \<longrightarrow> last states path = fs path)"
  using saveSnapshot_states [OF assms] by blast

theorem saveSnapshot_atomic_witness:
  "list_all (\<lambda>fs'. fs' (lit ''s'') = Some [1, 2, 3] \<or> fs' (lit ''s'') = Some (lit ''example.''))
     (snd (saveSnapshot (\<lambda>w. Some (wZone w)) (\<lambda>m. m) \<lparr> writeFault = Some 2, renameOk = True \<rparr> (lit ''s'')
       (NewDB (lit ''example.'') []) [lit ''s'' \<mapsto> [1, 2, 3]]))"
proof -
  let ?r = "saveSnapshot (\<lambda>w. Some (wZone w)) (\<lambda>m. m) \<lparr> writeFault = Some 2, renameOk = True \<rparr> (lit ''s'')
       (NewDB (lit ''example.'') []) [lit ''s'' \<mapsto> [1, 2, 3]]"
  have "?r = (fst ?r, snd ?r)" by simp
  from saveSnapshot_atomic [OF this] show ?thesis
    by (auto simp: list_all_iff encodeSnapshot_def MarshalJSON_def NewDB_def)
qed


definition sample_dec :: "bytes \<Rightarrow> dbWire option" where
  "sample_dec data = (if data = [1] then Some \<lparr> wZone = lit ''example.'', wRecords = sample_zone, wDNSSECEnabled = False \<rparr>
     else None)"


text \<open>A poll installs a database exactly when one of the ten attempts gets status 200 (the
  first such response counts) with a body that is within the size limit and decodes; then the
  slave serves that database. In every other case it reports an error and the state of the
  slave and the file system are unchanged.\<close>

theorem poll_installs_iff:
  assumes "poll enc dec ord io attempts s fs = (err, s', fss)"
  shows "(err = None \<longleftrightarrow> (\<exists>k data d. k < 10 \<and> attempts k = HttpStatus 200 (Some data)
        \<and> (\<forall>j < k. \<forall>b. attempts j \<noteq> HttpStatus 200 b)
        \<and> int (length data) \<le> maxDBBodyBytes s \<and> UnmarshalJSON dec data = Some d \<and> currDB s' = Some d))
    \<and> (err \<noteq> None \<longrightarrow> s' = s \<and> fss = [fs])"
  using assms
proof (cases rule: poll_cases)
  case 1
  have False if "attempts k = HttpStatus 200 (Some data)" "k < 10" "\<forall>j < k. \<forall>b. attempts j \<noteq> HttpStatus 200 b"
    "int (length data) \<le> maxDBBodyBytes s" "UnmarshalJSON dec data = Some d" for k data d
  proof -
    have "pollLoop attempts 0 None = Inr (Some data)" unfolding pollLoop_Inr using that by (auto simp: maxAttempts_def firstOK_def)
    moreover have "take (nat (maxDBBodyBytes s + 1)) data = data" using that(4) by simp
    ultimately have "fst (poll enc dec ord io attempts s fs) = None"
      using that(4,5) by (simp add: poll_def Let_def split: prod.splits)
    then show False using assms 1(1) by simp
  qed
  then show ?thesis using 1 by blast
next
  case (2 data d s1)
  have "currDB s' = Some d" using 2(5,6) by (auto simp: swapDB_def Let_def split: if_splits)
  moreover obtain k where "k < 10" "attempts k = HttpStatus 200 (Some data)" "\<forall>j < k. \<forall>b. attempts j \<noteq> HttpStatus 200 b"
    using 2(2) unfolding pollLoop_Inr by (auto simp: maxAttempts_def firstOK_def)
  ultimately show ?thesis using 2 by blast
qed

theorem poll_installs_iff_witness:
  "fst (poll (\<lambda>w. None) sample_dec (\<lambda>m. m) \<lparr> writeFault = None, renameOk = True \<rparr> (\<lambda>i. HttpStatus 500 None)
      (NewSlave zeroConfig) Map.empty) \<noteq> None"
proof -
  let ?r = "poll (\<lambda>w. None) sample_dec (\<lambda>m. m) \<lparr> writeFault = None, renameOk = True \<rparr> (\<lambda>i. HttpStatus 500 None)
      (NewSlave zeroConfig) Map.empty"
  have "?r = (fst ?r, fst (snd ?r), snd (snd ?r))" by simp
  from poll_installs_iff [OF this] show ?thesis by auto
qed

text \<open>The size limit does not wrap around for configurations with up to \<open>2 ^ 40\<close> records and
  \<open>1000\<close> keys: it is records times (keys + 2) times 1024, with 100000 records as the default.\<close>

theorem maxDBBodyBytes_exact:
  assumes "MaxRecords (cfgMaster (slaveCfg s)) \<le> 2 ^ 40" "length (Keys (cfgDNSSEC (slaveCfg s))) \<le> 1000"
  shows "maxDBBodyBytes s = (if MaxRecords (cfgMaster (slaveCfg s)) \<le> 0 then 100000
      else MaxRecords (cfgMaster (slaveCfg s))) * (int (length (Keys (cfgDNSSEC (slaveCfg s)))) + 2) * 1024"
proof -
  define m where "m = (if MaxRecords (cfgMaster (slaveCfg s)) \<le> 0 then 100000 else MaxRecords (cfgMaster (slaveCfg s)))"
  define k where "k = int (length (Keys (cfgDNSSEC (slaveCfg s)))) + 2"
  have b: "0 \<le> m" "m \<le> 2 ^ 40" "0 \<le> k" "k \<le> 1002" using assms by (auto simp: m_def k_def)
  then have p: "0 \<le> m * k * 1024" "m * k * 1024 \<le> 2 ^ 40 * 1002 * 1024"
    by (simp, intro mult_mono) (auto intro: mult_mono)
  have "maxDBBodyBytes s = sint (word_of_int m * word_of_int k * word_of_int 1024 :: 64 word)"
    by (simp add: maxDBBodyBytes_def m_def k_def Let_def)
  also have "\<dots> = sint (word_of_int (m * k * 1024) :: 64 word)" by (simp only: wi_hom_mult)
  also have "\<dots> = m * k * 1024" using p by (intro sint_word_of_int_eq_self) auto
  finally show ?thesis by (simp add: m_def k_def)
qed

theorem maxDBBodyBytes_exact_witness: "maxDBBodyBytes (NewSlave zeroConfig) = 204800000"
proof -
  have "MaxRecords (cfgMaster (slaveCfg (NewSlave zeroConfig))) \<le> 2 ^ 40"
    "length (Keys (cfgDNSSEC (slaveCfg (NewSlave zeroConfig)))) \<le> 1000"
    by (simp_all add: NewSlave_def zeroConfig_def)
  from maxDBBodyBytes_exact [OF this] show ?thesis by (simp add: NewSlave_def zeroConfig_def)
qed

end
