(* ===== verification/IP_Addr.thy ===== *)
theory IP_Addr
  imports Go_Base
begin

text \<open>
  IP addresses, networks and the rate-limit key of an address, after
  \<^verbatim>\<open>internal/ratelimit/prefix.go\<close> and the parts of the package \<open>net\<close> it uses: \<open>To4\<close>,
  \<open>To16\<close>, \<open>String\<close> and \<open>IPNet.Contains\<close>. A \<open>net.IP\<close> is a byte slice of any length, with
  \<open>None\<close> for a \<open>nil\<close> result.
\<close>

subsection \<open>Addresses\<close>

definition To4 :: "bytes \<Rightarrow> bytes option" where
  "To4 ip =
     (if length ip = 4 then Some ip
      else if length ip = 16 \<and> list_all (\<lambda>b. b = 0) (take 10 ip) \<and> ip ! 10 = 0xFF \<and> ip ! 11 = 0xFF
      then Some (drop 12 ip) else None)"

definition To16 :: "bytes \<Rightarrow> bytes option" where
  "To16 ip =
     (if length ip = 4 then Some (replicate 10 0 @ [0xFF, 0xFF] @ ip)
      else if length ip = 16 then Some ip else None)"

definition hexDigit :: "nat \<Rightarrow> byte" where
  "hexDigit n = (if n < 10 then of_nat (48 + n) else of_nat (87 + n))"

text \<open>A 16-bit group in hexadecimal without leading zeros.\<close>

fun hexNat :: "nat \<Rightarrow> gostring" where
  "hexNat n = (if n < 16 then [hexDigit n] else hexNat (n div 16) @ [hexDigit (n mod 16)])"

declare hexNat.simps [simp del]

definition groups :: "bytes \<Rightarrow> nat list" where
  "groups ip = map (\<lambda>i. unat (mk16 (ip ! (2 * i)) (ip ! (2 * i + 1)))) [0..<8]"

text \<open>The longest run of at least two zero groups; the first one if several are longest.\<close>

definition zeroRun :: "nat list \<Rightarrow> nat \<times> nat" where
  "zeroRun gs =
     foldl (\<lambda>(s, e) i. let l = length (takeWhile (\<lambda>g. g = 0) (drop i gs))
                        in if 2 \<le> l \<and> e - s < l then (i, i + l) else (s, e)) (255, 255) [0..<8]"

text \<open>The text form of a 16-byte address that is not an IPv4-mapped one.\<close>

definition string6 :: "bytes \<Rightarrow> gostring" where
  "string6 ip =
     (let gs = groups ip; (s, e) = zeroRun gs
      in if s < 8
         then Join (lit '':'') (map hexNat (take s gs)) @ lit ''::'' @ Join (lit '':'') (map hexNat (drop e gs))
         else Join (lit '':'') (map hexNat gs))"

definition stringOther :: "bytes \<Rightarrow> gostring" where
  "stringOther ip =
     (if ip = [] then lit ''<nil>''
      else lit ''?'' @ concat (map (\<lambda>b. [hexDigit (unat b div 16), hexDigit (unat b mod 16)]) ip))"

subsection \<open>Networks\<close>

record IPNet =
  netIP :: bytes
  netMask :: bytes

definition networkNumberAndMask :: "IPNet \<Rightarrow> bytes \<times> bytes" where
  "networkNumberAndMask n =
     (let ip = (case To4 (netIP n) of Some x \<Rightarrow> x | None \<Rightarrow> netIP n)
      in if length ip \<noteq> 4 \<and> length ip \<noteq> 16 then ([], [])
         else if length (netMask n) = 4 then (if length ip \<noteq> 4 then ([], []) else (ip, netMask n))
         else if length (netMask n) = 16 then (ip, if length ip = 4 then drop 12 (netMask n) else netMask n)
         else ([], []))"

definition Contains :: "IPNet \<Rightarrow> bytes \<Rightarrow> bool" where
  "Contains n ip =
     (let (nn, m) = networkNumberAndMask n;
          x = (case To4 ip of Some y \<Rightarrow> y | None \<Rightarrow> ip)
      in length x = length nn \<and> list_all (\<lambda>i. nn ! i AND m ! i = x ! i AND m ! i) [0..<length x])"

subsection \<open>The key of an address\<close>

definition prefixKey :: "bytes \<Rightarrow> gostring" where
  "prefixKey ip =
     (case To4 ip of
        Some v4 \<Rightarrow>
          FormatNat (unat (v4 ! 0)) @ lit ''.'' @ FormatNat (unat (v4 ! 1)) @ lit ''.''
            @ FormatNat (unat (v4 ! 2)) @ lit ''.0/24''
      | None \<Rightarrow>
          (case To16 ip of
             None \<Rightarrow> stringOther ip
           | Some v6 \<Rightarrow> string6 (take 6 v6 @ replicate 10 0) @ lit ''/48''))"

subsection \<open>Which addresses share a key\<close>

lemma FormatNat_digits: "b \<in> set (FormatNat n) \<Longrightarrow> 48 \<le> b \<and> b \<le> 57"
proof (induction n rule: FormatNat.induct)
  case (1 n)
  have d: "48 \<le> (of_nat (48 + k) :: byte) \<and> (of_nat (48 + k) :: byte) \<le> 57" if "k < 10" for k :: nat
  proof -
    have "k \<in> {0, 1, 2, 3, 4, 5, 6, 7, 8, 9}" using that by auto
    then show ?thesis by auto
  qed
  show ?case using 1 d [of n] d [of "n mod 10"] by (subst (asm) (2) FormatNat.simps) (auto split: if_splits)
qed

text \<open>Reading a decimal number back.\<close>

definition readDec :: "gostring \<Rightarrow> nat" where
  "readDec s = foldl (\<lambda>n b. 10 * n + (unat b - 48)) 0 s"

lemma readDec_FormatNat: "readDec (FormatNat n) = n"
proof (induction n rule: FormatNat.induct)
  case (1 n)
  have d: "unat (of_nat (48 + k) :: byte) - 48 = k" if "k < 10" for k :: nat
    using that by (subst unat_byte_of) auto
  show ?case
    using 1 d [of n] d [of "n mod 10"] by (subst FormatNat.simps) (auto simp: readDec_def)
qed

lemma FormatNat_inj: "FormatNat m = FormatNat n \<longleftrightarrow> m = n"
  by (metis readDec_FormatNat)

lemma FormatNat_no_dot: "dot \<notin> set (FormatNat n)"
  using FormatNat_digits [of dot n] by (auto simp: dot_def)

lemma split_at_dot:
  assumes "dot \<notin> set a" "dot \<notin> set c" "a @ dot # b = c @ dot # d" shows "a = c \<and> b = d"
  using assms by (induction a arbitrary: c) (auto simp: Cons_eq_append_conv)

lemma To4_length: "To4 ip = Some v \<Longrightarrow> length v = 4"
  by (auto simp: To4_def split: if_splits)

subsection \<open>Properties\<close>

text \<open>Two IPv4 addresses, each given in the 4-byte or in the IPv4-mapped 16-byte form, have
  the same rate-limit key exactly when their first three bytes agree, that is when they are in
  the same /24. IPv6 addresses whose first six bytes agree, that is in the same /48, share
  their key.\<close>

theorem prefixKey_by_network:
  assumes "To4 ip1 = Some a" "To4 ip2 = Some b"
    and "length ip3 = 16" "To4 ip3 = None" "length ip4 = 16" "To4 ip4 = None" "take 6 ip3 = take 6 ip4"
  shows "(prefixKey ip1 = prefixKey ip2 \<longleftrightarrow> take 3 a = take 3 b) \<and> prefixKey ip3 = prefixKey ip4"
proof
  obtain a0 a1 a2 a3 where a: "a = [a0, a1, a2, a3]" using To4_length [OF assms(1)]
    by (auto simp: length_Suc_conv numeral_eq_Suc)
  obtain b0 b1 b2 b3 where b: "b = [b0, b1, b2, b3]" using To4_length [OF assms(2)]
    by (auto simp: length_Suc_conv numeral_eq_Suc)
  have dl: "lit ''.'' = [dot]" "lit ''.0/24'' = dot # lit ''0/24''" by (simp_all add: lit_def dot_def)
  have key: "prefixKey ip = FormatNat (unat x) @ dot # FormatNat (unat y) @ dot # FormatNat (unat z) @ dot # lit ''0/24''"
    if "To4 ip = Some [x, y, z, u]" for ip x y z u
    using that by (simp add: prefixKey_def dl)
  show "prefixKey ip1 = prefixKey ip2 \<longleftrightarrow> take 3 a = take 3 b"
  proof
    assume "prefixKey ip1 = prefixKey ip2"
    then have eq: "FormatNat (unat a0) @ dot # FormatNat (unat a1) @ dot # FormatNat (unat a2) @ dot # lit ''0/24'' =
        FormatNat (unat b0) @ dot # FormatNat (unat b1) @ dot # FormatNat (unat b2) @ dot # lit ''0/24''"
      using key assms(1,2) a b by simp
    note e1 = split_at_dot [OF FormatNat_no_dot FormatNat_no_dot eq]
    note e2 = split_at_dot [OF FormatNat_no_dot FormatNat_no_dot conjunct2 [OF e1]]
    note e3 = split_at_dot [OF FormatNat_no_dot FormatNat_no_dot conjunct2 [OF e2]]
    show "take 3 a = take 3 b" using e1 e2 e3 by (simp add: a b FormatNat_inj numeral_eq_Suc flip: word_unat_eq_iff)
  next
    assume "take 3 a = take 3 b"
    then show "prefixKey ip1 = prefixKey ip2" using key assms(1,2) a b by (simp add: numeral_eq_Suc)
  qed
  show "prefixKey ip3 = prefixKey ip4" using assms(3-) by (simp add: prefixKey_def To16_def)
qed

theorem prefixKey_by_network_witness:
  "prefixKey [192, 0, 2, 1] = prefixKey (replicate 10 0 @ [0xFF, 0xFF, 192, 0, 2, 77])
   \<and> prefixKey ([0x20, 1, 0xd, 0xb8, 0, 0] @ replicate 10 1) = prefixKey ([0x20, 1, 0xd, 0xb8, 0, 0] @ replicate 10 0)"
proof -
  have h: "To4 [192, 0, 2, 1] = Some [192, 0, 2, 1]"
    "To4 (replicate 10 0 @ [0xFF, 0xFF, 192, 0, 2, 77]) = Some [192, 0, 2, 77]"
    "length ([0x20, 1, 0xd, 0xb8, 0, 0] @ replicate 10 1 :: bytes) = 16"
    "To4 ([0x20, 1, 0xd, 0xb8, 0, 0] @ replicate 10 1) = None"
    "length ([0x20, 1, 0xd, 0xb8, 0, 0] @ replicate 10 0 :: bytes) = 16"
    "To4 ([0x20, 1, 0xd, 0xb8, 0, 0] @ replicate 10 0) = None"
    "take 6 ([0x20, 1, 0xd, 0xb8, 0, 0] @ replicate 10 1 :: bytes) = take 6 ([0x20, 1, 0xd, 0xb8, 0, 0] @ replicate 10 0)"
    by code_simp+
  from prefixKey_by_network [OF h] show ?thesis by simp
qed

end
