(* ===== verification/Rate_Limit.thy ===== *)
theory Rate_Limit
  imports Complex_Main IP_Addr
begin

text \<open>
  The rate limiter, after \<^verbatim>\<open>internal/ratelimit/limiter.go\<close>, \<^verbatim>\<open>bucket.go\<close> and
  \<^verbatim>\<open>gc.go\<close>.

  \<^item> Times and durations are integers (nanoseconds); \<open>now\<close> is an argument, as in \<open>checkAt\<close>
    and \<open>allowAt\<close>. A difference of times saturates at the bounds of \<open>int64\<close>.
  \<^item> A \<open>float64\<close> is a real number, and every floating-point operation is followed by the
    rounding \<open>rnd\<close>, a parameter. \<open>float64_rounding\<close> says of it what the theorems use of
    rounding to nearest: it is monotone and keeps the multiples of one quarter whose
    numerator has at most 53 bits.
  \<^item> The table of buckets is a map. \<open>sort.Slice\<close> over the entries in map order is not
    stable, so its result is a parameter \<open>srt\<close> with the law \<open>sorts_slice\<close>.
  \<^item> The model runs the operations one after the other, as the mutexes do for one bucket.
\<close>

type_synonym time = int
type_synonym duration = int

record bucket =
  tokens :: real
  lastFill :: time
  createdAt :: time
  drops :: "64 word"

record LimiterConfig =
  BurstSize :: int
  RatePerSec :: real
  SlipRatio :: int
  MaxBuckets :: int
  MaxAge :: duration
  Allowlist :: "IPNet list"

record Limiter =
  limCfg :: LimiterConfig
  buckets :: "(gostring \<times> bucket) list"
  lastGC :: time

datatype Decision = Allow | Slip | Drop
datatype limit_error = ErrRateLimited | ErrTableFull
datatype Addr = UDPAddr bytes | OtherAddr

definition gcInterval :: duration where "gcInterval = 60 * 10 ^ 9"

subsection \<open>Durations and floating point\<close>

definition Sub :: "time \<Rightarrow> time \<Rightarrow> duration" where
  "Sub a b = max (- (2 ^ 63)) (min (2 ^ 63 - 1) (a - b))"

text \<open>\<open>Duration.Seconds\<close>: whole seconds plus the rest, with Go's truncating division.\<close>

definition Seconds :: "(real \<Rightarrow> real) \<Rightarrow> duration \<Rightarrow> real" where
  "Seconds rnd d =
     (let sec = sgn d * (\<bar>d\<bar> div 10 ^ 9); nsec = d - sec * 10 ^ 9
      in rnd (rnd (of_int sec) + rnd (of_int nsec / 10 ^ 9)))"

definition float64_rounding :: "(real \<Rightarrow> real) \<Rightarrow> bool" where
  "float64_rounding rnd \<longleftrightarrow> mono rnd \<and> (\<forall>n :: int. \<bar>n\<bar> \<le> 2 ^ 53 \<longrightarrow> rnd (of_int n / 4) = of_int n / 4)"

subsection \<open>One bucket\<close>

definition NewLimiter :: "LimiterConfig \<Rightarrow> time \<Rightarrow> Limiter" where
  "NewLimiter cfg now =
     (let cfg1 = (if BurstSize cfg \<le> 0 then cfg \<lparr> BurstSize := 200 \<rparr> else cfg);
          cfg2 = (if RatePerSec cfg1 \<le> 0 then cfg1 \<lparr> RatePerSec := 50 \<rparr> else cfg1);
          cfg3 = (if MaxAge cfg2 \<le> 0 then cfg2 \<lparr> MaxAge := 5 * 60 * 10 ^ 9 \<rparr> else cfg2)
      in \<lparr> limCfg = cfg3, buckets = [], lastGC = now \<rparr>)"

definition refill :: "(real \<Rightarrow> real) \<Rightarrow> LimiterConfig \<Rightarrow> bucket \<Rightarrow> time \<Rightarrow> bucket" where
  "refill rnd cfg b now =
     (let elapsed = Seconds rnd (Sub now (lastFill b))
      in if 0 < elapsed
         then (let t = rnd (tokens b + rnd (elapsed * RatePerSec cfg));
                   t' = (if rnd (of_int (BurstSize cfg)) < t then rnd (of_int (BurstSize cfg)) else t)
               in b \<lparr> tokens := t', lastFill := now \<rparr>)
         else b)"

definition consume :: "(real \<Rightarrow> real) \<Rightarrow> LimiterConfig \<Rightarrow> bucket \<Rightarrow> time \<Rightarrow> bool \<times> bucket" where
  "consume rnd cfg b now =
     (let b' = refill rnd cfg b now
      in if 1 \<le> tokens b' then (True, b' \<lparr> tokens := rnd (tokens b' - 1) \<rparr>) else (False, b'))"

definition allowlisted :: "LimiterConfig \<Rightarrow> bytes \<Rightarrow> bool" where
  "allowlisted cfg ip = list_ex (\<lambda>n. Contains n ip) (Allowlist cfg)"

subsection \<open>Garbage collection\<close>

definition normalGC :: "Limiter \<Rightarrow> time \<Rightarrow> Limiter" where
  "normalGC l now =
     l \<lparr> buckets := filter (\<lambda>e. \<not> MaxAge (limCfg l) < Sub now (createdAt (snd e))) (buckets l) \<rparr>"

type_synonym slice_sort = "(gostring \<times> time) list \<Rightarrow> (gostring \<times> time) list"

definition sorts_slice :: "slice_sort \<Rightarrow> bool" where
  "sorts_slice srt \<longleftrightarrow> (\<forall>xs. mset (srt xs) = mset xs \<and> sorted (map snd (srt xs)))"

definition forceGC :: "slice_sort \<Rightarrow> Limiter \<Rightarrow> Limiter go" where
  "forceGC srt l = do {
     let entries = srt (map (\<lambda>e. (fst e, createdAt (snd e))) (buckets l));
     let toEvict = max (length entries div 4) 1;
     victims \<leftarrow> goslice entries 0 toEvict;
     Some (l \<lparr> buckets := filter (\<lambda>e. fst e \<notin> fst ` set victims) (buckets l) \<rparr>)
   }"

text \<open>The fill test \<open>float64(len(l.buckets)) >= float64(l.cfg.MaxBuckets)*gcForceThreshold\<close>.\<close>

definition nearlyFull :: "(real \<Rightarrow> real) \<Rightarrow> Limiter \<Rightarrow> bool" where
  "nearlyFull rnd l \<longleftrightarrow> 0 < MaxBuckets (limCfg l) \<and>
     rnd (rnd (of_int (MaxBuckets (limCfg l))) * (3 / 4)) \<le> rnd (of_nat (length (buckets l)))"

definition runGC :: "(real \<Rightarrow> real) \<Rightarrow> slice_sort \<Rightarrow> Limiter \<Rightarrow> time \<Rightarrow> Limiter go" where
  "runGC rnd srt l now =
     (let l' = l \<lparr> lastGC := now \<rparr>
      in if nearlyFull rnd l' then forceGC srt l' else Some (normalGC l' now))"

definition maybeGC :: "(real \<Rightarrow> real) \<Rightarrow> slice_sort \<Rightarrow> Limiter \<Rightarrow> time \<Rightarrow> Limiter go" where
  "maybeGC rnd srt l now =
     (if Sub now (lastGC l) < gcInterval then Some l else runGC rnd srt l now)"

subsection \<open>The limiter\<close>

text \<open>\<open>getOrCreate\<close> returns the limiter with the bucket of the key in its table, or no bucket.\<close>

definition getOrCreate ::
  "(real \<Rightarrow> real) \<Rightarrow> slice_sort \<Rightarrow> Limiter \<Rightarrow> gostring \<Rightarrow> time \<Rightarrow> (Limiter \<times> bucket option) go" where
  "getOrCreate rnd srt l key now = do {
     l1 \<leftarrow> (if nearlyFull rnd l then runGC rnd srt l now else maybeGC rnd srt l now);
     (case map_of (buckets l1) key of
        Some b \<Rightarrow> Some (l1, Some b)
      | None \<Rightarrow>
          (if 0 < MaxBuckets (limCfg l1) \<and> MaxBuckets (limCfg l1) \<le> int (length (buckets l1)) then Some (l1, None)
           else (let b = \<lparr> tokens = rnd (of_int (BurstSize (limCfg l1))), lastFill = now, createdAt = now, drops = 0 \<rparr>
                 in Some (l1 \<lparr> buckets := mapPut key b (buckets l1) \<rparr>, Some b))))
   }"

definition allowAt ::
  "(real \<Rightarrow> real) \<Rightarrow> slice_sort \<Rightarrow> Limiter \<Rightarrow> bytes \<Rightarrow> time \<Rightarrow> (limit_error option \<times> Limiter) go" where
  "allowAt rnd srt l ip now =
     (if allowlisted (limCfg l) ip then Some (None, l)
      else let key = prefixKey ip in do {
        (l1, r) \<leftarrow> getOrCreate rnd srt l key now;
        (case r of
           None \<Rightarrow> Some (Some ErrTableFull, l1)
         | Some b \<Rightarrow>
             (case consume rnd (limCfg l1) b now of
                (True, b') \<Rightarrow> Some (None, l1 \<lparr> buckets := mapPut key b' (buckets l1) \<rparr>)
              | (False, b') \<Rightarrow>
                  Some (Some ErrRateLimited,
                        l1 \<lparr> buckets := mapPut key (b' \<lparr> drops := drops b' + 1 \<rparr>) (buckets l1) \<rparr>)))
      })"

definition checkAt ::
  "(real \<Rightarrow> real) \<Rightarrow> slice_sort \<Rightarrow> Limiter \<Rightarrow> Addr \<Rightarrow> time \<Rightarrow> (Decision \<times> Limiter) go" where
  "checkAt rnd srt l addr now =
     (case addr of
        OtherAddr \<Rightarrow> Some (Allow, l)
      | UDPAddr ip \<Rightarrow>
          (if allowlisted (limCfg l) ip then Some (Allow, l)
           else let key = prefixKey ip in do {
             (l1, r) \<leftarrow> getOrCreate rnd srt l key now;
             (case r of
                None \<Rightarrow> Some (Drop, l1)
              | Some b \<Rightarrow>
                  (case consume rnd (limCfg l1) b now of
                     (True, b') \<Rightarrow> Some (Allow, l1 \<lparr> buckets := mapPut key b' (buckets l1) \<rparr>)
                   | (False, b') \<Rightarrow>
                       (let b'' = b' \<lparr> drops := drops b' + 1 \<rparr>;
                            l2 = l1 \<lparr> buckets := mapPut key b'' (buckets l1) \<rparr>
                        in Some (if 0 < SlipRatio (limCfg l1) \<and> SlipRatio (limCfg l1) dvd sint (drops b'')
                                 then Slip else Drop, l2))))
           }))"

definition ActiveBuckets :: "Limiter \<Rightarrow> nat" where
  "ActiveBuckets l = length (buckets l)"

subsection \<open>Laws of the rounding\<close>

lemma rnd_mono: "float64_rounding rnd \<Longrightarrow> x \<le> y \<Longrightarrow> rnd x \<le> rnd y"
  by (auto simp: float64_rounding_def dest: monoD)

lemma rnd_quarter: "float64_rounding rnd \<Longrightarrow> \<bar>n\<bar> \<le> 2 ^ 53 \<Longrightarrow> rnd (of_int n / 4) = of_int n / 4"
  by (simp add: float64_rounding_def)

lemma rnd_int: "float64_rounding rnd \<Longrightarrow> \<bar>n\<bar> \<le> 2 ^ 51 \<Longrightarrow> rnd (of_int n) = of_int n"
  using rnd_quarter [of rnd "4 * n"] by simp

lemma rnd_0 [simp]: "float64_rounding rnd \<Longrightarrow> rnd 0 = 0"
  using rnd_int [of rnd 0] by simp

lemma rnd_1 [simp]: "float64_rounding rnd \<Longrightarrow> rnd 1 = 1"
  using rnd_int [of rnd 1] by simp

lemma rnd_nonneg: "float64_rounding rnd \<Longrightarrow> 0 \<le> x \<Longrightarrow> 0 \<le> rnd x"
  using rnd_mono [of rnd 0 x] by simp

lemma float64_rounding_id: "float64_rounding (\<lambda>x. x)"
  by (simp add: float64_rounding_def mono_def)

lemma Sub_same [simp]: "Sub t t = 0"
  by (simp add: Sub_def)

lemma Seconds_0 [simp]: "float64_rounding rnd \<Longrightarrow> Seconds rnd 0 = 0"
  by (simp add: Seconds_def)

lemma Seconds_exact: "Seconds (\<lambda>x. x) d = of_int d / 10 ^ 9"
  by (simp add: Seconds_def Let_def field_simps)

subsection \<open>The invariant\<close>

definition config_ok :: "LimiterConfig \<Rightarrow> bool" where
  "config_ok cfg \<longleftrightarrow> 0 < BurstSize cfg \<and> BurstSize cfg \<le> 2 ^ 51 \<and> 0 < RatePerSec cfg \<and> MaxBuckets cfg \<le> 2 ^ 51"

definition bucket_ok :: "LimiterConfig \<Rightarrow> bucket \<Rightarrow> bool" where
  "bucket_ok cfg b \<longleftrightarrow> 0 \<le> tokens b \<and> tokens b \<le> of_int (BurstSize cfg)"

definition limiter_ok :: "Limiter \<Rightarrow> bool" where
  "limiter_ok l \<longleftrightarrow> config_ok (limCfg l) \<and> distinct (map fst (buckets l))
     \<and> (\<forall>(key, b) \<in> set (buckets l). bucket_ok (limCfg l) b)
     \<and> (0 < MaxBuckets (limCfg l) \<longrightarrow> int (length (buckets l)) \<le> MaxBuckets (limCfg l))"

lemma consume_ok:
  assumes "float64_rounding rnd" "config_ok cfg" "bucket_ok cfg b" "consume rnd cfg b now = (ok, b')"
  shows "bucket_ok cfg b'" "createdAt b' = createdAt b" "drops b' = drops b"
proof -
  have bs: "rnd (of_int (BurstSize cfg)) = of_int (BurstSize cfg)"
    using assms(2) by (intro rnd_int [OF assms(1)]) (auto simp: config_ok_def)
  have rf: "bucket_ok cfg (refill rnd cfg b now)"
  proof (cases "0 < Seconds rnd (Sub now (lastFill b))")
    case True
    let ?t = "rnd (tokens b + rnd (Seconds rnd (Sub now (lastFill b)) * RatePerSec cfg))"
    have "0 \<le> rnd (Seconds rnd (Sub now (lastFill b)) * RatePerSec cfg)"
      using True assms(2) by (intro rnd_nonneg [OF assms(1)]) (auto simp: config_ok_def)
    then have "0 \<le> ?t" using assms(3) by (intro rnd_nonneg [OF assms(1)]) (auto simp: bucket_ok_def)
    then show ?thesis using True bs assms(2) by (auto simp: refill_def bucket_ok_def config_ok_def Let_def)
  next
    case False
    then show ?thesis using assms(3) by (simp add: refill_def Let_def)
  qed
  have dec: "0 \<le> rnd (tokens x - 1)" "rnd (tokens x - 1) \<le> of_int (BurstSize cfg)"
    if "1 \<le> tokens x" "bucket_ok cfg x" for x
  proof -
    show "0 \<le> rnd (tokens x - 1)" using that by (intro rnd_nonneg [OF assms(1)]) auto
    have "rnd (tokens x - 1) \<le> rnd (of_int (BurstSize cfg))"
      using that by (intro rnd_mono [OF assms(1)]) (auto simp: bucket_ok_def)
    then show "rnd (tokens x - 1) \<le> of_int (BurstSize cfg)" using bs by simp
  qed
  show "bucket_ok cfg b'"
    using assms(4) rf dec by (auto simp: consume_def bucket_ok_def Let_def split: if_splits)
  show "createdAt b' = createdAt b" "drops b' = drops b"
    using assms(4) by (auto simp: consume_def refill_def Let_def split: if_splits)
qed

lemma filter_buckets_ok:
  assumes "limiter_ok l"
  shows "limiter_ok (l \<lparr> buckets := filter P (buckets l) \<rparr>)"
proof -
  have "int (length (filter P (buckets l))) \<le> int (length (buckets l))" by simp
  then have "int (length (buckets l)) \<le> m \<Longrightarrow> int (length (filter P (buckets l))) \<le> m" for m by linarith
  then show ?thesis using assms by (auto simp: limiter_ok_def distinct_map_filter)
qed

lemma entries_set:
  assumes "sorts_slice srt"
  shows "set (srt (map (\<lambda>e. (fst e, createdAt (snd e))) bs)) = (\<lambda>e. (fst e, createdAt (snd e))) ` set bs"
    "length (srt (map (\<lambda>e. (fst e, createdAt (snd e))) bs)) = length bs"
proof -
  have m: "mset (srt xs) = mset xs" for xs using assms by (simp add: sorts_slice_def)
  show "set (srt (map (\<lambda>e. (fst e, createdAt (snd e))) bs)) = (\<lambda>e. (fst e, createdAt (snd e))) ` set bs"
    using mset_eq_setD [OF m] by simp
  show "length (srt (map (\<lambda>e. (fst e, createdAt (snd e))) bs)) = length bs" using mset_eq_length [OF m] by simp
qed

text \<open>What \<open>forceGC\<close> does when the table is not empty.\<close>

lemma forceGC_evicts:
  assumes "sorts_slice srt" "buckets l \<noteq> []" "distinct (map fst (buckets l))"
  obtains victims where
    "forceGC srt l = Some (l \<lparr> buckets := filter (\<lambda>e. fst e \<notin> fst ` set victims) (buckets l) \<rparr>)"
    "victims = take (max (length (buckets l) div 4) 1) (srt (map (\<lambda>e. (fst e, createdAt (snd e))) (buckets l)))"
    "length (filter (\<lambda>e. fst e \<notin> fst ` set victims) (buckets l)) =
       length (buckets l) - max (length (buckets l) div 4) 1"
proof -
  let ?es = "srt (map (\<lambda>e. (fst e, createdAt (snd e))) (buckets l))"
  let ?n = "max (length (buckets l) div 4) 1"
  define victims where "victims = take ?n ?es"
  note es = entries_set [OF assms(1), of "buckets l"]
  have "1 \<le> length (buckets l)" using assms(2) by (cases "buckets l") simp_all
  then have n: "?n \<le> length (buckets l)" by simp
  have "distinct (map fst ?es)"
  proof -
    have "mset (map fst ?es) = mset (map fst (buckets l))"
      using assms(1) unfolding sorts_slice_def mset_map by (simp add: multiset.map_comp comp_def)
    then show ?thesis using assms(3) mset_eq_imp_distinct_iff by blast
  qed
  then have dv: "distinct (map fst victims)" by (simp add: victims_def distinct_take flip: take_map)
  then have cv: "card (fst ` set victims) = ?n"
    using n es(2) distinct_card [OF dv] by (simp add: victims_def del: max.bounded_iff)
  have sub: "fst ` set victims \<subseteq> fst ` set (buckets l)"
    using set_take_subset [of ?n ?es] es(1) by (force simp: victims_def)
  have "length (filter (\<lambda>e. fst e \<notin> fst ` set victims) (buckets l)) =
      length (filter (\<lambda>k. k \<notin> fst ` set victims) (map fst (buckets l)))"
    by (simp add: filter_map comp_def)
  also have "\<dots> = card (fst ` set (buckets l) - fst ` set victims)"
    using distinct_card [OF distinct_filter [OF assms(3), of "\<lambda>k. k \<notin> fst ` set victims"]]
    by (simp add: set_diff_eq)
  also have "\<dots> = length (buckets l) - ?n"
    using cv sub card_Diff_subset [OF _ sub] distinct_card [OF assms(3)] by simp
  finally have "length (filter (\<lambda>e. fst e \<notin> fst ` set victims) (buckets l)) = length (buckets l) - ?n" .
  moreover have "forceGC srt l = Some (l \<lparr> buckets := filter (\<lambda>e. fst e \<notin> fst ` set victims) (buckets l) \<rparr>)"
    using n es(2) by (simp add: forceGC_def Let_def victims_def)
  ultimately show thesis using that victims_def by blast
qed

lemma nearlyFull_nonempty:
  assumes "float64_rounding rnd" "nearlyFull rnd l" "config_ok (limCfg l)" shows "buckets l \<noteq> []"
proof
  assume "buckets l = []"
  then have le: "rnd (rnd (of_int (MaxBuckets (limCfg l))) * (3 / 4)) \<le> 0" and m: "0 < MaxBuckets (limCfg l)"
    using assms(1,2) by (auto simp: nearlyFull_def)
  have r: "rnd (of_int (MaxBuckets (limCfg l))) = of_int (MaxBuckets (limCfg l))"
    using m assms(3) by (intro rnd_int [OF assms(1)]) (auto simp: config_ok_def)
  have "rnd (1 / 4) \<le> rnd (of_int (MaxBuckets (limCfg l)) * (3 / 4))"
    using m by (intro rnd_mono [OF assms(1)]) auto
  then show False using le r rnd_quarter [OF assms(1), of 1] by simp
qed

lemma full_nearlyFull:
  assumes "float64_rounding rnd" "config_ok (limCfg l)" "0 < MaxBuckets (limCfg l)"
    "MaxBuckets (limCfg l) \<le> int (length (buckets l))"
  shows "nearlyFull rnd l"
proof -
  have r: "rnd (of_int (MaxBuckets (limCfg l))) = of_int (MaxBuckets (limCfg l))"
    using assms(2,3) by (intro rnd_int [OF assms(1)]) (auto simp: config_ok_def)
  have "real_of_int (MaxBuckets (limCfg l)) * (3 / 4) \<le> real_of_int (MaxBuckets (limCfg l))" using assms(3) by simp
  also have "\<dots> \<le> real (length (buckets l))" using assms(4) by linarith
  finally have "rnd (real_of_int (MaxBuckets (limCfg l)) * (3 / 4)) \<le> rnd (real (length (buckets l)))"
    by (rule rnd_mono [OF assms(1)])
  then show ?thesis using assms(3) r by (simp add: nearlyFull_def)
qed

text \<open>After the collection at the start of \<open>getOrCreate\<close> there is room for one more bucket.\<close>

lemma collect_ok:
  assumes "float64_rounding rnd" "sorts_slice srt" "limiter_ok l"
  obtains l1 where "(if nearlyFull rnd l then runGC rnd srt l now else maybeGC rnd srt l now) = Some l1"
    "limiter_ok l1" "limCfg l1 = limCfg l" "set (buckets l1) \<subseteq> set (buckets l)"
    "0 < MaxBuckets (limCfg l) \<Longrightarrow> int (length (buckets l1)) < MaxBuckets (limCfg l)"
proof -
  let ?r = "if nearlyFull rnd l then runGC rnd srt l now else maybeGC rnd srt l now"
  let ?l = "l \<lparr> lastGC := now \<rparr>"
  have ok': "limiter_ok ?l" and nf: "nearlyFull rnd ?l = nearlyFull rnd l"
    using assms(3) by (simp_all add: limiter_ok_def nearlyFull_def)
  have cfg: "config_ok (limCfg l)" using assms(3) by (simp add: limiter_ok_def)
  show thesis
  proof (cases "nearlyFull rnd l")
    case True
    have ne: "buckets ?l \<noteq> []" "distinct (map fst (buckets ?l))"
      using nearlyFull_nonempty [OF assms(1) True cfg] assms(3) by (simp_all add: limiter_ok_def)
    obtain victims where v: "forceGC srt ?l = Some (?l \<lparr> buckets := filter (\<lambda>e. fst e \<notin> fst ` set victims) (buckets ?l) \<rparr>)"
      "victims = take (max (length (buckets ?l) div 4) 1) (srt (map (\<lambda>e. (fst e, createdAt (snd e))) (buckets ?l)))"
      "length (filter (\<lambda>e. fst e \<notin> fst ` set victims) (buckets ?l)) = length (buckets ?l) - max (length (buckets ?l) div 4) 1"
      using forceGC_evicts [OF assms(2) ne] .
    have "1 \<le> length (buckets l)" using ne(1) by (cases "buckets l") simp_all
    then have "int (length (filter (\<lambda>e. fst e \<notin> fst ` set victims) (buckets l))) < int (length (buckets l))"
      using v(3) by simp
    then show thesis
      using that [OF _ filter_buckets_ok [OF ok', of "\<lambda>e. fst e \<notin> fst ` set victims"]] True nf v(1) assms(3)
      by (auto simp: runGC_def limiter_ok_def)
  next
    case False
    have room: "int (length (buckets l)) < MaxBuckets (limCfg l)" if "0 < MaxBuckets (limCfg l)"
      using full_nearlyFull [OF assms(1) cfg that] False by linarith
    have sub: "int (length (filter P (buckets l))) < MaxBuckets (limCfg l)" if "0 < MaxBuckets (limCfg l)" for P
      using room [OF that] length_filter_le [of P "buckets l"] by linarith
    show thesis
    proof (cases "Sub now (lastGC l) < gcInterval")
      case True
      then show thesis using that [of l] False assms(3) room by (simp add: maybeGC_def)
    next
      case late: False
      then have "?r = Some (normalGC ?l now)" using False nf by (simp add: maybeGC_def runGC_def)
      then show thesis
        using that [of "normalGC ?l now"] filter_buckets_ok [OF ok'] sub by (auto simp: normalGC_def)
    qed
  qed
qed

lemma new_bucket_ok:
  assumes "float64_rounding rnd" "config_ok cfg"
  shows "bucket_ok cfg \<lparr> tokens = rnd (of_int (BurstSize cfg)), lastFill = now, createdAt = now, drops = 0 \<rparr>"
    "rnd (of_int (BurstSize cfg)) = of_int (BurstSize cfg)"
proof -
  show "rnd (of_int (BurstSize cfg)) = of_int (BurstSize cfg)"
    using assms(2) by (intro rnd_int [OF assms(1)]) (auto simp: config_ok_def)
  then show "bucket_ok cfg \<lparr> tokens = rnd (of_int (BurstSize cfg)), lastFill = now, createdAt = now, drops = 0 \<rparr>"
    using assms(2) by (simp add: bucket_ok_def config_ok_def)
qed

lemma mapPut_ok:
  assumes "limiter_ok l" "bucket_ok (limCfg l) b"
    "key \<in> fst ` set (buckets l) \<or> (0 < MaxBuckets (limCfg l) \<longrightarrow> int (length (buckets l)) < MaxBuckets (limCfg l))"
  shows "limiter_ok (l \<lparr> buckets := mapPut key b (buckets l) \<rparr>)"
proof -
  have len: "length (mapPut key b (buckets l)) \<le> (if key \<in> fst ` set (buckets l) then length (buckets l) else Suc (length (buckets l)))"
  proof (cases "key \<in> fst ` set (buckets l)")
    case True
    then have "length (filter (\<lambda>e. fst e \<noteq> key) (buckets l)) < length (buckets l)"
      by (auto intro: length_filter_less)
    then show ?thesis using True by (simp add: mapPut_def)
  qed (simp add: mapPut_def)
  have "0 < MaxBuckets (limCfg l) \<longrightarrow> int (length (mapPut key b (buckets l))) \<le> MaxBuckets (limCfg l)"
    using len assms(1,3) by (auto simp: limiter_ok_def split: if_splits)
  moreover have "distinct (map fst (mapPut key b (buckets l)))"
    using assms(1) by (simp add: limiter_ok_def distinct_mapPut)
  moreover have "\<forall>(k, x) \<in> set (mapPut key b (buckets l)). bucket_ok (limCfg l) x"
    using assms(1,2) by (auto simp: limiter_ok_def mapPut_def)
  ultimately show ?thesis using assms(1) by (simp add: limiter_ok_def)
qed

text \<open>\<open>getOrCreate\<close> always finds or makes a bucket; one it makes is full.\<close>

lemma getOrCreate_ok:
  assumes "float64_rounding rnd" "sorts_slice srt" "limiter_ok l"
  obtains l1 b where "getOrCreate rnd srt l key now = Some (l1, Some b)" "limiter_ok l1" "limCfg l1 = limCfg l"
    "key \<in> fst ` set (buckets l1)" "bucket_ok (limCfg l) b"
    "key \<notin> fst ` set (buckets l) \<Longrightarrow> lastFill b = now \<and> tokens b = of_int (BurstSize (limCfg l))"
proof -
  obtain l1 where l1: "(if nearlyFull rnd l then runGC rnd srt l now else maybeGC rnd srt l now) = Some l1"
    "limiter_ok l1" "limCfg l1 = limCfg l" "set (buckets l1) \<subseteq> set (buckets l)"
    "0 < MaxBuckets (limCfg l) \<Longrightarrow> int (length (buckets l1)) < MaxBuckets (limCfg l)"
    using collect_ok [OF assms] by metis
  show thesis
  proof (cases "map_of (buckets l1) key")
    case (Some b)
    then have "(key, b) \<in> set (buckets l1)" by (rule map_of_SomeD)
    moreover have "bucket_ok (limCfg l) b" using calculation l1(2,3) by (auto simp: limiter_ok_def)
    ultimately show thesis using that [of l1 b] Some l1 by (force simp: getOrCreate_def)
  next
    case None
    let ?b = "\<lparr> tokens = rnd (of_int (BurstSize (limCfg l1))), lastFill = now, createdAt = now, drops = 0 \<rparr>"
    have cfg: "config_ok (limCfg l1)" using l1(2) by (simp add: limiter_ok_def)
    note nb = new_bucket_ok(1) [OF assms(1) cfg, of now] new_bucket_ok(2) [OF assms(1) cfg]
    have "limiter_ok (l1 \<lparr> buckets := mapPut key ?b (buckets l1) \<rparr>)"
      using l1(2,3,5) nb(1) by (intro mapPut_ok) auto
    moreover have "getOrCreate rnd srt l key now = Some (l1 \<lparr> buckets := mapPut key ?b (buckets l1) \<rparr>, Some ?b)"
      using l1(1,3,5) None by (auto simp: getOrCreate_def Let_def)
    ultimately show thesis
      using that [of "l1 \<lparr> buckets := mapPut key ?b (buckets l1) \<rparr>" ?b] nb l1(3) by (simp add: keys_mapPut)
  qed
qed

lemma consume_full:
  assumes "float64_rounding rnd" "config_ok cfg" "lastFill b = now" "tokens b = of_int (BurstSize cfg)"
  shows "fst (consume rnd cfg b now)"
  using assms by (simp add: consume_def refill_def Let_def config_ok_def)

lemma after_consume:
  assumes "float64_rounding rnd" "limiter_ok l1" "key \<in> fst ` set (buckets l1)" "bucket_ok (limCfg l1) b"
    "consume rnd (limCfg l1) b now = (ok, b')"
  shows "limiter_ok (l1 \<lparr> buckets := mapPut key b' (buckets l1) \<rparr>)"
    "limiter_ok (l1 \<lparr> buckets := mapPut key (b' \<lparr> drops := n \<rparr>) (buckets l1) \<rparr>)"
proof -
  have "bucket_ok (limCfg l1) b'" using consume_ok(1) [OF assms(1) _ assms(4,5)] assms(2) by (simp add: limiter_ok_def)
  then show "limiter_ok (l1 \<lparr> buckets := mapPut key b' (buckets l1) \<rparr>)"
    "limiter_ok (l1 \<lparr> buckets := mapPut key (b' \<lparr> drops := n \<rparr>) (buckets l1) \<rparr>)"
    using assms(2,3) by (auto intro!: mapPut_ok simp: bucket_ok_def)
qed

lemma allowAt_ok:
  assumes "float64_rounding rnd" "sorts_slice srt" "limiter_ok l"
  shows "\<exists>err l'. allowAt rnd srt l ip now = Some (err, l') \<and> limiter_ok l' \<and> limCfg l' = limCfg l
    \<and> err \<noteq> Some ErrTableFull \<and> (prefixKey ip \<notin> fst ` set (buckets l) \<longrightarrow> err = None)"
proof -
  obtain l1 b where g: "getOrCreate rnd srt l (prefixKey ip) now = Some (l1, Some b)" "limiter_ok l1" "limCfg l1 = limCfg l"
    "prefixKey ip \<in> fst ` set (buckets l1)" "bucket_ok (limCfg l) b"
    "prefixKey ip \<notin> fst ` set (buckets l) \<Longrightarrow> lastFill b = now \<and> tokens b = of_int (BurstSize (limCfg l))"
    using getOrCreate_ok [OF assms] by metis
  obtain ok b' where c: "consume rnd (limCfg l) b now = (ok, b')" by fastforce
  have "prefixKey ip \<notin> fst ` set (buckets l) \<Longrightarrow> ok"
    using consume_full [OF assms(1) _ , of "limCfg l" b now] g(6) c assms(3) by (simp add: limiter_ok_def)
  then show ?thesis
    using g c assms(3) after_consume(1) [OF assms(1) g(2,4), of b now ok b']
      after_consume(2) [OF assms(1) g(2,4), of b now ok b' "drops b' + 1"]
    by (cases ok) (auto simp: allowAt_def Let_def)
qed

lemma checkAt_ok:
  assumes "float64_rounding rnd" "sorts_slice srt" "limiter_ok l"
  shows "\<exists>d l'. checkAt rnd srt l addr now = Some (d, l') \<and> limiter_ok l' \<and> limCfg l' = limCfg l
    \<and> (\<forall>ip. addr = UDPAddr ip \<and> prefixKey ip \<notin> fst ` set (buckets l) \<longrightarrow> d = Allow)"
proof (cases addr)
  case OtherAddr
  then show ?thesis using assms(3) by (simp add: checkAt_def)
next
  case (UDPAddr ip)
  obtain l1 b where g: "getOrCreate rnd srt l (prefixKey ip) now = Some (l1, Some b)" "limiter_ok l1" "limCfg l1 = limCfg l"
    "prefixKey ip \<in> fst ` set (buckets l1)" "bucket_ok (limCfg l) b"
    "prefixKey ip \<notin> fst ` set (buckets l) \<Longrightarrow> lastFill b = now \<and> tokens b = of_int (BurstSize (limCfg l))"
    using getOrCreate_ok [OF assms] by metis
  obtain ok b' where c: "consume rnd (limCfg l) b now = (ok, b')" by fastforce
  have "prefixKey ip \<notin> fst ` set (buckets l) \<Longrightarrow> ok"
    using consume_full [OF assms(1) _ , of "limCfg l" b now] g(6) c assms(3) by (simp add: limiter_ok_def)
  then show ?thesis
    using UDPAddr g c assms(3) after_consume(1) [OF assms(1) g(2,4), of b now ok b']
      after_consume(2) [OF assms(1) g(2,4), of b now ok b' "drops b' + 1"]
    by (cases ok) (auto simp: checkAt_def Let_def)
qed

subsection \<open>Runs of a limiter\<close>

text \<open>What a front end relies on: on a limiter that satisfies the invariant both operations return, and
  the invariant holds afterwards.\<close>

locale query_limiter =
  fixes inv :: "'l \<Rightarrow> bool"
    and check :: "'l \<Rightarrow> Addr \<Rightarrow> time \<Rightarrow> (Decision \<times> 'l) go"
    and allow :: "'l \<Rightarrow> bytes \<Rightarrow> time \<Rightarrow> (limit_error option \<times> 'l) go"
  assumes check_inv: "inv l \<Longrightarrow> \<exists>d l'. check l addr now = Some (d, l') \<and> inv l'"
    and allow_inv: "inv l \<Longrightarrow> \<exists>err l'. allow l ip now = Some (err, l') \<and> inv l' \<and> err \<noteq> Some ErrTableFull"
begin

lemma checkE:
  assumes "inv l"
  obtains d l' where "check l addr now = Some (d, l')" "inv l'"
  using check_inv [OF assms] by blast

lemma allowE:
  assumes "inv l"
  obtains err l' where "allow l ip now = Some (err, l')" "inv l'" "err \<noteq> Some ErrTableFull"
  using allow_inv [OF assms] by blast

end

definition limiter_inv :: "(real \<Rightarrow> real) \<Rightarrow> slice_sort \<Rightarrow> Limiter \<Rightarrow> bool" where
  "limiter_inv rnd srt l \<longleftrightarrow> float64_rounding rnd \<and> sorts_slice srt \<and> limiter_ok l"

interpretation buckets_limiter: query_limiter "limiter_inv rnd srt" "checkAt rnd srt" "allowAt rnd srt" for rnd srt
proof
  show "\<exists>d l'. checkAt rnd srt l addr now = Some (d, l') \<and> limiter_inv rnd srt l'" if "limiter_inv rnd srt l" for l addr now
    using that checkAt_ok [of rnd srt l addr now] unfolding limiter_inv_def by blast
  show "\<exists>err l'. allowAt rnd srt l ip now = Some (err, l') \<and> limiter_inv rnd srt l' \<and> err \<noteq> Some ErrTableFull"
    if "limiter_inv rnd srt l" for l ip now
    using that allowAt_ok [of rnd srt l ip now] unfolding limiter_inv_def by blast
qed

inductive limiter_reachable :: "(real \<Rightarrow> real) \<Rightarrow> LimiterConfig \<Rightarrow> Limiter \<Rightarrow> bool" for rnd cfg where
  new: "limiter_reachable rnd cfg (NewLimiter cfg now)"
| check: "limiter_reachable rnd cfg l \<Longrightarrow> sorts_slice srt \<Longrightarrow> checkAt rnd srt l addr now = Some (d, l')
    \<Longrightarrow> limiter_reachable rnd cfg l'"
| allow: "limiter_reachable rnd cfg l \<Longrightarrow> sorts_slice srt \<Longrightarrow> allowAt rnd srt l ip now = Some (err, l')
    \<Longrightarrow> limiter_reachable rnd cfg l'"

lemma NewLimiter_cfg:
  "limCfg (NewLimiter cfg now) = cfg \<lparr> BurstSize := (if BurstSize cfg \<le> 0 then 200 else BurstSize cfg),
     RatePerSec := (if RatePerSec cfg \<le> 0 then 50 else RatePerSec cfg),
     MaxAge := (if MaxAge cfg \<le> 0 then 300000000000 else MaxAge cfg) \<rparr>"
  by (simp add: NewLimiter_def Let_def)

lemma NewLimiter_ok:
  assumes "BurstSize cfg \<le> 2 ^ 51" "MaxBuckets cfg \<le> 2 ^ 51" shows "limiter_ok (NewLimiter cfg now)"
proof -
  have "buckets (NewLimiter cfg now) = []" by (simp add: NewLimiter_def Let_def)
  then show ?thesis using assms by (simp add: limiter_ok_def config_ok_def NewLimiter_cfg)
qed

lemma reachable_ok:
  assumes "limiter_reachable rnd cfg l" "float64_rounding rnd" "BurstSize cfg \<le> 2 ^ 51" "MaxBuckets cfg \<le> 2 ^ 51"
  shows "limiter_ok l \<and> MaxBuckets (limCfg l) = MaxBuckets cfg"
  using assms
proof (induction rule: limiter_reachable.induct)
  case (new now)
  then show ?case by (simp add: NewLimiter_ok NewLimiter_cfg)
next
  case (check l srt addr now d l')
  then show ?case using checkAt_ok [OF check.prems(1) check.hyps(2), of l addr now] by auto
next
  case (allow l srt ip now err l')
  then show ?case using allowAt_ok [OF allow.prems(1) allow.hyps(2), of l ip now] by auto
qed

subsection \<open>The token bucket\<close>

text \<open>How many of the queries at the given times one bucket lets through, with exact arithmetic.\<close>

fun allowedCount :: "LimiterConfig \<Rightarrow> bucket \<Rightarrow> time list \<Rightarrow> nat" where
  "allowedCount cfg b [] = 0"
| "allowedCount cfg b (t # ts) =
     (case consume (\<lambda>x. x) cfg b t of (ok, b') \<Rightarrow> (if ok then 1 else 0) + allowedCount cfg b' ts)"

lemma consume_exact:
  assumes "consume (\<lambda>x. x) cfg b now = (ok, b')" "0 \<le> RatePerSec cfg"
  shows "lastFill b \<le> lastFill b'" "lastFill b' \<le> max (lastFill b) now"
    "tokens b' + (if ok then 1 else 0) \<le> tokens b + RatePerSec cfg * of_int (lastFill b' - lastFill b) / 10 ^ 9"
    "0 \<le> tokens b \<Longrightarrow> 0 \<le> BurstSize cfg \<Longrightarrow> 0 \<le> tokens b'"
proof -
  let ?e = "Seconds (\<lambda>x. x) (Sub now (lastFill b))"
  have pos: "0 < ?e \<longleftrightarrow> lastFill b < now" by (auto simp: Seconds_exact Sub_def less_max_iff_disj)
  have le: "?e \<le> of_int (now - lastFill b) / 10 ^ 9" if "lastFill b < now"
    using that by (auto simp: Seconds_exact Sub_def intro!: divide_right_mono)
  then have add: "?e * RatePerSec cfg \<le> RatePerSec cfg * of_int (now - lastFill b) / 10 ^ 9" if "lastFill b < now"
    using mult_right_mono [OF le [OF that] assms(2)] that by (simp add: mult.commute)
  show "lastFill b \<le> lastFill b'" "lastFill b' \<le> max (lastFill b) now"
    using assms(1) pos by (auto simp: consume_def refill_def Let_def split: if_splits)
  show "tokens b' + (if ok then 1 else 0) \<le> tokens b + RatePerSec cfg * of_int (lastFill b' - lastFill b) / 10 ^ 9"
    using assms(1) add pos by (auto simp: consume_def refill_def Let_def split: if_splits)
  show "0 \<le> tokens b'" if "0 \<le> tokens b" "0 \<le> BurstSize cfg"
  proof -
    have "0 \<le> ?e * RatePerSec cfg" if "lastFill b < now" using that pos assms(2) by simp
    then show ?thesis using assms(1) pos that by (auto simp: consume_def refill_def Let_def split: if_splits)
  qed
qed

lemma allowedCount_bound:
  assumes "0 \<le> RatePerSec cfg" "0 \<le> BurstSize cfg" "0 \<le> tokens b" "\<forall>t \<in> set ts. t \<le> T" "lastFill b \<le> T"
  shows "allowedCount cfg b ts \<le> tokens b + RatePerSec cfg * of_int (T - lastFill b) / 10 ^ 9"
  using assms(3-)
proof (induction ts arbitrary: b)
  case Nil
  then show ?case using assms(1) by simp
next
  case (Cons t ts)
  obtain ok b' where c: "consume (\<lambda>x. x) cfg b t = (ok, b')" by fastforce
  note ce = consume_exact [OF c assms(1)]
  have "lastFill b' \<le> T" using ce(2) Cons.prems by auto
  then have ih: "allowedCount cfg b' ts \<le> tokens b' + RatePerSec cfg * of_int (T - lastFill b') / 10 ^ 9"
    using Cons.IH [of b'] Cons.prems ce(4) assms(2) by simp
  have split: "RatePerSec cfg * of_int (lastFill b' - lastFill b) / 10 ^ 9 + RatePerSec cfg * of_int (T - lastFill b') / 10 ^ 9 =
      RatePerSec cfg * of_int (T - lastFill b) / 10 ^ 9"
    by (simp add: field_simps)
  have "real (allowedCount cfg b (t # ts)) = (if ok then 1 else 0) + real (allowedCount cfg b' ts)" using c by simp
  also have "\<dots> \<le> tokens b + RatePerSec cfg * of_int (T - lastFill b) / 10 ^ 9"
    using ih ce(3) split by linarith
  finally show ?case .
qed

subsection \<open>Properties\<close>

text \<open>C26: Over every run of a limiter, the table never holds more than \<open>MaxBuckets\<close> prefixes (if
  that is set), every bucket has between 0 and \<open>BurstSize\<close> tokens, no call panics,
  \<open>ErrTableFull\<close> is never returned, and the first query from a prefix that has no bucket is
  always let through.\<close>

theorem limiter_bounded:
  assumes "limiter_reachable rnd cfg l" "float64_rounding rnd" "sorts_slice srt"
    and "BurstSize cfg \<le> 2 ^ 51" "MaxBuckets cfg \<le> 2 ^ 51"
  shows "(0 < MaxBuckets cfg \<longrightarrow> int (ActiveBuckets l) \<le> MaxBuckets cfg)
    \<and> (\<forall>(key, b) \<in> set (buckets l). 0 \<le> tokens b \<and> tokens b \<le> of_int (BurstSize (limCfg l)))
    \<and> (\<exists>err l'. allowAt rnd srt l ip now = Some (err, l') \<and> err \<noteq> Some ErrTableFull
         \<and> (prefixKey ip \<notin> fst ` set (buckets l) \<longrightarrow> err = None))
    \<and> (\<exists>d l'. checkAt rnd srt l (UDPAddr ip) now = Some (d, l')
         \<and> (prefixKey ip \<notin> fst ` set (buckets l) \<longrightarrow> d = Allow))"
proof -
  have ok: "limiter_ok l" "MaxBuckets (limCfg l) = MaxBuckets cfg"
    using reachable_ok [OF assms(1,2,4,5)] by simp_all
  then have "0 < MaxBuckets cfg \<longrightarrow> int (ActiveBuckets l) \<le> MaxBuckets cfg"
    "\<forall>(key, b) \<in> set (buckets l). 0 \<le> tokens b \<and> tokens b \<le> of_int (BurstSize (limCfg l))"
    by (auto simp: limiter_ok_def bucket_ok_def ActiveBuckets_def)
  then show ?thesis
    using allowAt_ok [OF assms(2,3) ok(1), of ip now] checkAt_ok [OF assms(2,3) ok(1), of "UDPAddr ip" now] by blast
qed

definition sample_limits :: LimiterConfig where
  "sample_limits = \<lparr> BurstSize = 5, RatePerSec = 10, SlipRatio = 2, MaxBuckets = 3, MaxAge = 0, Allowlist = [] \<rparr>"

lemma sorts_by_time: "sorts_slice (sort_key snd)"
  by (simp add: sorts_slice_def)

theorem limiter_bounded_witness:
  "\<exists>err l'. allowAt (\<lambda>x. x) (sort_key snd) (NewLimiter sample_limits 0) [192, 0, 2, 1] 1 = Some (err, l') \<and> err = None"
proof -
  have "BurstSize sample_limits \<le> 2 ^ 51" "MaxBuckets sample_limits \<le> 2 ^ 51" by (simp_all add: sample_limits_def)
  from limiter_bounded [OF limiter_reachable.new float64_rounding_id sorts_by_time this, of 0 "[192, 0, 2, 1]" 1]
  show ?thesis by (auto simp: NewLimiter_def Let_def)
qed



text \<open>A forced collection removes a quarter of the buckets, at least one, and no bucket that
  stays is older than one that is removed.\<close>

theorem forceGC_evicts_oldest:
  assumes "sorts_slice srt" "buckets l \<noteq> []" "distinct (map fst (buckets l))"
  shows "\<exists>l'. forceGC srt l = Some l' \<and> length (buckets l') = length (buckets l) - max (length (buckets l) div 4) 1
    \<and> set (buckets l') \<subseteq> set (buckets l)
    \<and> (\<forall>e \<in> set (buckets l) - set (buckets l'). \<forall>k \<in> set (buckets l'). createdAt (snd e) \<le> createdAt (snd k))"
proof -
  let ?es = "srt (map (\<lambda>e. (fst e, createdAt (snd e))) (buckets l))" and ?n = "max (length (buckets l) div 4) 1"
  obtain victims where v:
    "forceGC srt l = Some (l \<lparr> buckets := filter (\<lambda>e. fst e \<notin> fst ` set victims) (buckets l) \<rparr>)"
    "victims = take ?n ?es"
    "length (filter (\<lambda>e. fst e \<notin> fst ` set victims) (buckets l)) = length (buckets l) - ?n"
    using forceGC_evicts [OF assms] .
  have sorted: "sorted (map snd (take ?n ?es @ drop ?n ?es))"
    using assms(1) by (simp add: sorts_slice_def)
  note es = entries_set(1) [OF assms(1), of "buckets l"]
  have "createdAt (snd e) \<le> createdAt (snd k)"
    if e: "e \<in> set (buckets l)" "fst e \<in> fst ` set victims" and k: "k \<in> set (buckets l)" "fst k \<notin> fst ` set victims" for e k
  proof -
    obtain t where t: "(fst e, t) \<in> set victims" using e(2) by force
    then have "(fst e, t) \<in> set ?es" using v(2) set_take_subset by fastforce
    then obtain e' where e': "e' \<in> set (buckets l)" "fst e' = fst e" "t = createdAt (snd e')" using es by auto
    then have "e' = e" using e(1) assms(3) by (metis eq_key_imp_eq_value prod.collapse)
    then have ve: "(fst e, createdAt (snd e)) \<in> set (take ?n ?es)" using t e'(3) v(2) by simp
    have "(fst k, createdAt (snd k)) \<in> set ?es" using k(1) es by auto
    then have "(fst k, createdAt (snd k)) \<in> set (take ?n ?es) \<or> (fst k, createdAt (snd k)) \<in> set (drop ?n ?es)"
      using set_append [of "take ?n ?es" "drop ?n ?es"] unfolding append_take_drop_id by blast
    then have "(fst k, createdAt (snd k)) \<in> set (drop ?n ?es)" using k(2) v(2) by force
    moreover have "\<forall>x \<in> set (take ?n ?es). \<forall>y \<in> set (drop ?n ?es). snd x \<le> snd y"
      using sorted unfolding map_append sorted_append by simp
    ultimately show ?thesis using ve by fastforce
  qed
  then show ?thesis using v(1,3) by auto
qed

theorem forceGC_evicts_oldest_witness:
  "\<exists>l'. forceGC (sort_key snd) ((NewLimiter sample_limits 0)
       \<lparr> buckets := [([1], \<lparr> tokens = 0, lastFill = 9, createdAt = 9, drops = 0 \<rparr>),
                     ([2], \<lparr> tokens = 0, lastFill = 9, createdAt = 3, drops = 0 \<rparr>)] \<rparr>) = Some l'
     \<and> length (buckets l') = 1"
proof -
  let ?l = "(NewLimiter sample_limits 0)
       \<lparr> buckets := [([1], \<lparr> tokens = 0, lastFill = 9, createdAt = 9, drops = 0 \<rparr>),
                     ([2], \<lparr> tokens = 0, lastFill = 9, createdAt = 3, drops = 0 \<rparr>)] \<rparr>"
  have "buckets ?l \<noteq> []" "distinct (map fst (buckets ?l))" by simp_all
  from forceGC_evicts_oldest [OF sorts_by_time this] show ?thesis by auto
qed

end
