(* ===== verification/IP_Parse.thy ===== *)
theory IP_Parse
  imports IP_Addr
begin

text \<open>
  Reading addresses: \<open>net.ParseIP\<close>, \<open>net.ParseCIDR\<close> and \<open>net.SplitHostPort\<close> of Go's standard library as
  far as \<^verbatim>\<open>internal/router/ratelimit.go\<close> uses them, and \<open>remoteIP\<close>, \<open>parseAllowlist\<close> and the
  default allow list of that file. The errors of the library functions are not told apart.
\<close>

subsection \<open>Addresses\<close>

definition is_digit :: "byte \<Rightarrow> bool" where
  "is_digit b \<longleftrightarrow> 48 \<le> b \<and> b \<le> 57"

definition decNat :: "gostring \<Rightarrow> nat" where
  "decNat s = foldl (\<lambda>n b. 10 * n + (unat b - 48)) 0 s"

text \<open>One field of an IPv4 address: decimal, no leading zero, at most 255.\<close>

definition parseOctet :: "gostring \<Rightarrow> byte option" where
  "parseOctet s =
     (if s \<noteq> [] \<and> list_all is_digit s \<and> length s \<le> 3 \<and> (length s = 1 \<or> hd s \<noteq> 48) \<and> decNat s \<le> 255
      then Some (of_nat (decNat s)) else None)"

definition parseIPv4 :: "gostring \<Rightarrow> bytes option" where
  "parseIPv4 s = (let fs = map parseOctet (Split 46 s)
     in if length fs = 4 \<and> list_all (\<lambda>f. f \<noteq> None) fs then Some (map the fs) else None)"

definition hexVal :: "byte \<Rightarrow> nat option" where
  "hexVal b =
     (if is_digit b then Some (unat b - 48)
      else if 97 \<le> b \<and> b \<le> 102 then Some (unat b - 87)
      else if 65 \<le> b \<and> b \<le> 70 then Some (unat b - 55) else None)"

definition hexNum :: "gostring \<Rightarrow> nat" where
  "hexNum s = foldl (\<lambda>n b. 16 * n + the (hexVal b)) 0 s"

text \<open>The loop of \<open>parseIPv6\<close>: the bytes read so far, the position of the ellipsis, the rest of the
  text. \<open>k\<close> counts the at most eight rounds.\<close>

fun parseIPv6Loop :: "nat \<Rightarrow> bytes \<Rightarrow> nat option \<Rightarrow> gostring \<Rightarrow> (bytes \<times> nat option \<times> gostring) option" where
  "parseIPv6Loop 0 acc ellipsis s = Some (acc, ellipsis, s)"
| "parseIPv6Loop (Suc k) acc ellipsis s =
     (let digits = takeWhile (\<lambda>b. hexVal b \<noteq> None) s; rest = dropWhile (\<lambda>b. hexVal b \<noteq> None) s
      in if digits = [] \<or> 4 < length digits then None
         else if rest \<noteq> [] \<and> hd rest = 46
         then (if ellipsis = None \<and> length acc \<noteq> 12 then None
               else if 16 < length acc + 4 then None
               else case parseIPv4 s of None \<Rightarrow> None | Some v4 \<Rightarrow> Some (acc @ v4, ellipsis, []))
         else let acc' = acc @ [of_nat (hexNum digits div 256), of_nat (hexNum digits)]
              in if rest = [] then Some (acc', ellipsis, [])
                 else if hd rest \<noteq> 58 \<or> length rest = 1 then None
                 else let s' = tl rest
                      in if hd s' = 58
                         then (if ellipsis \<noteq> None then None
                               else if tl s' = [] then Some (acc', Some (length acc'), [])
                               else parseIPv6Loop k acc' (Some (length acc')) (tl s'))
                         else parseIPv6Loop k acc' ellipsis s')"

text \<open>An address without a zone.\<close>

definition parseIPv6 :: "gostring \<Rightarrow> bytes option" where
  "parseIPv6 s =
     (let (ellipsis, s') = (if 2 \<le> length s \<and> take 2 s = [58, 58] then (Some 0, drop 2 s) else (None, s))
      in if ellipsis = Some 0 \<and> s' = [] then Some (replicate 16 0)
         else case parseIPv6Loop 8 [] ellipsis s' of
           None \<Rightarrow> None
         | Some (acc, ell, rest) \<Rightarrow>
             (if rest \<noteq> [] then None
              else case ell of
                None \<Rightarrow> if length acc < 16 then None else Some acc
              | Some e \<Rightarrow> if length acc < 16 then Some (take e acc @ replicate (16 - length acc) 0 @ drop e acc) else None))"

text \<open>\<open>netip.ParseAddr\<close>, addresses with a zone left out: whether the first separator is a dot or a
  colon decides. The first component says that it is an IPv4 address.\<close>

definition ParseAddr :: "gostring \<Rightarrow> (bool \<times> bytes) option" where
  "ParseAddr s =
     (if 37 \<in> set s then None
      else case filter (\<lambda>b. b = 46 \<or> b = 58) s of
        [] \<Rightarrow> None
      | b # _ \<Rightarrow> if b = 46 then map_option (Pair True) (parseIPv4 s) else map_option (Pair False) (parseIPv6 s))"

definition v4InV6Prefix :: bytes where
  "v4InV6Prefix = replicate 10 0 @ [0xFF, 0xFF]"

definition ParseIP :: "gostring \<Rightarrow> bytes option" where
  "ParseIP s = map_option (\<lambda>(v4, ip). if v4 then v4InV6Prefix @ ip else ip) (ParseAddr s)"

subsection \<open>Networks\<close>

text \<open>\<open>net.CIDRMask\<close>: \<open>ones\<close> one bits out of \<open>n\<close> bytes.\<close>

definition CIDRMask :: "nat \<Rightarrow> nat \<Rightarrow> bytes" where
  "CIDRMask ones n = map (\<lambda>i. NOT (mask (8 - min 8 (ones - 8 * i)))) [0..<n]"

definition maskBytes :: "bytes \<Rightarrow> bytes \<Rightarrow> bytes" where
  "maskBytes ip m = map2 (AND) ip m"

definition ParseCIDR :: "gostring \<Rightarrow> IPNet option" where
  "ParseCIDR s =
     (case IndexByte s 47 of
        None \<Rightarrow> None
      | Some i \<Rightarrow>
          (let addr = take i s; m = drop (Suc i) s
           in case ParseAddr addr of
             None \<Rightarrow> None
           | Some (v4, ip) \<Rightarrow>
               (if m = [] \<or> \<not> list_all is_digit m \<or> (if v4 then 32 else 128) < decNat m then None
                else let msk = CIDRMask (decNat m) (length ip)
                     in Some \<lparr> netIP = maskBytes ip msk, netMask = msk \<rparr>)))"

subsection \<open>The allow list of the router\<close>

definition defaultAllowlistCIDRs :: "gostring list" where
  "defaultAllowlistCIDRs = [lit ''127.0.0.0/8'', lit ''10.0.0.0/8'', lit ''172.16.0.0/12'', lit ''192.168.0.0/16'',
     lit ''169.254.0.0/16'', lit ''100.64.0.0/10'', lit ''::1/128'', lit ''fc00::/7'', lit ''fe80::/10'']"

definition parseAllowlist :: "gostring list \<Rightarrow> IPNet list" where
  "parseAllowlist entries =
     List.map_filter ParseCIDR (if entries = [] then defaultAllowlistCIDRs else entries)"

subsection \<open>The address of a peer\<close>

text \<open>\<open>net.SplitHostPort\<close>; only the host is used.\<close>

definition SplitHostPort :: "gostring \<Rightarrow> gostring option" where
  "SplitHostPort s =
     (if 58 \<notin> set s then None
      else let i = length s - 1 - length (takeWhile (\<lambda>b. b \<noteq> 58) (rev s))
           in if hd s = 91
              then (case IndexByte s 93 of
                      None \<Rightarrow> None
                    | Some e \<Rightarrow> if e + 1 = i \<and> 91 \<notin> set (drop 1 s) \<and> 93 \<notin> set (drop (e + 1) s)
                                then Some (take (e - 1) (drop 1 s)) else None)
              else let host = take i s
                   in if 58 \<in> set host \<or> 91 \<in> set s \<or> 93 \<in> set s then None else Some host)"

definition remoteIP :: "gostring \<Rightarrow> bytes option" where
  "remoteIP addr = (case SplitHostPort addr of None \<Rightarrow> None | Some host \<Rightarrow> ParseIP host)"

subsection \<open>The default networks\<close>

lemmas cidr_eval = ParseCIDR_def lit_def ParseAddr_def parseIPv4_def parseIPv6_def parseOctet_def is_digit_def decNat_def
  CIDRMask_def maskBytes_def mask_eq_exp_minus_1 hexVal_def hexNum_def upt_rec

lemma default_v4:
  "ParseCIDR (lit ''127.0.0.0/8'') = Some \<lparr> netIP = [127, 0, 0, 0], netMask = [255, 0, 0, 0] \<rparr>"
  "ParseCIDR (lit ''10.0.0.0/8'') = Some \<lparr> netIP = [10, 0, 0, 0], netMask = [255, 0, 0, 0] \<rparr>"
  "ParseCIDR (lit ''172.16.0.0/12'') = Some \<lparr> netIP = [172, 16, 0, 0], netMask = [255, 240, 0, 0] \<rparr>"
  "ParseCIDR (lit ''192.168.0.0/16'') = Some \<lparr> netIP = [192, 168, 0, 0], netMask = [255, 255, 0, 0] \<rparr>"
  "ParseCIDR (lit ''169.254.0.0/16'') = Some \<lparr> netIP = [169, 254, 0, 0], netMask = [255, 255, 0, 0] \<rparr>"
  "ParseCIDR (lit ''100.64.0.0/10'') = Some \<lparr> netIP = [100, 64, 0, 0], netMask = [255, 192, 0, 0] \<rparr>"
  by (simp_all add: cidr_eval)

lemmas parseIPv6Loop_numeral = parseIPv6Loop.simps(2) [of "pred_numeral v" for v, folded numeral_eq_Suc]

lemma replicate_numeral: "replicate (numeral v) x = x # replicate (pred_numeral v) x"
  by (simp add: numeral_eq_Suc)

lemma default_v6:
  "ParseCIDR (lit ''::1/128'') = Some \<lparr> netIP = replicate 15 0 @ [1], netMask = replicate 16 255 \<rparr>"
  "ParseCIDR (lit ''fc00::/7'') = Some \<lparr> netIP = 252 # replicate 15 0, netMask = 254 # replicate 15 0 \<rparr>"
  "ParseCIDR (lit ''fe80::/10'') = Some \<lparr> netIP = 254 # 128 # replicate 14 0, netMask = 255 # 192 # replicate 14 0 \<rparr>"
  by (simp_all add: cidr_eval parseIPv6Loop_numeral replicate_numeral)

lemma masked_range:
  "(b :: byte) AND 240 = 16 \<longleftrightarrow> 16 \<le> b \<and> b \<le> 31" "b AND 192 = 64 \<longleftrightarrow> 64 \<le> b \<and> b \<le> 127"
  "b AND 254 = 252 \<longleftrightarrow> b = 252 \<or> b = 253" "b AND 192 = 128 \<longleftrightarrow> 128 \<le> b \<and> b \<le> 191"
proof -
  let ?P = "\<lambda>b :: byte. (b AND 240 = 16 \<longleftrightarrow> 16 \<le> b \<and> b \<le> 31) \<and> (b AND 192 = 64 \<longleftrightarrow> 64 \<le> b \<and> b \<le> 127)
    \<and> (b AND 254 = 252 \<longleftrightarrow> b = 252 \<or> b = 253) \<and> (b AND 192 = 128 \<longleftrightarrow> 128 \<le> b \<and> b \<le> 191)"
  have "list_all (\<lambda>i. ?P (word_of_int i)) [0..255]" by code_simp
  then have all: "\<forall>i \<in> set [0..255]. ?P (word_of_int i)" by (simp only: list_all_iff)
  have "uint b \<in> set [0..255]" using uint_range_size [of b] by (simp add: word_size)
  then have "?P (word_of_int (uint b))" by (rule bspec [OF all])
  then show "b AND 240 = 16 \<longleftrightarrow> 16 \<le> b \<and> b \<le> 31" "b AND 192 = 64 \<longleftrightarrow> 64 \<le> b \<and> b \<le> 127"
    "b AND 254 = 252 \<longleftrightarrow> b = 252 \<or> b = 253" "b AND 192 = 128 \<longleftrightarrow> 128 \<le> b \<and> b \<le> 191" by simp_all
qed

lemma parseAllowlist_default:
  "parseAllowlist [] =
     [\<lparr> netIP = [127, 0, 0, 0], netMask = [255, 0, 0, 0] \<rparr>, \<lparr> netIP = [10, 0, 0, 0], netMask = [255, 0, 0, 0] \<rparr>,
      \<lparr> netIP = [172, 16, 0, 0], netMask = [255, 240, 0, 0] \<rparr>, \<lparr> netIP = [192, 168, 0, 0], netMask = [255, 255, 0, 0] \<rparr>,
      \<lparr> netIP = [169, 254, 0, 0], netMask = [255, 255, 0, 0] \<rparr>, \<lparr> netIP = [100, 64, 0, 0], netMask = [255, 192, 0, 0] \<rparr>,
      \<lparr> netIP = replicate 15 0 @ [1], netMask = replicate 16 255 \<rparr>,
      \<lparr> netIP = 252 # replicate 15 0, netMask = 254 # replicate 15 0 \<rparr>,
      \<lparr> netIP = 254 # 128 # replicate 14 0, netMask = 255 # 192 # replicate 14 0 \<rparr>]"
  by (simp add: parseAllowlist_def defaultAllowlistCIDRs_def List.map_filter_simps default_v4 default_v6)

lemma Contains_v4:
  "Contains \<lparr> netIP = [n0, n1, n2, n3], netMask = [m0, m1, m2, m3] \<rparr> [a, b, c, d] \<longleftrightarrow>
     n0 AND m0 = a AND m0 \<and> n1 AND m1 = b AND m1 \<and> n2 AND m2 = c AND m2 \<and> n3 AND m3 = d AND m3"
  by (simp add: Contains_def networkNumberAndMask_def To4_def upt_rec)

lemma Contains_v6_v4: "length ip = 16 \<Longrightarrow> hd ip \<noteq> 0 \<or> ip ! 10 \<noteq> 0xFF \<Longrightarrow> \<not> Contains \<lparr> netIP = ip, netMask = m \<rparr> [a, b, c, d]"
  by (cases ip) (auto simp: Contains_def networkNumberAndMask_def To4_def Let_def split: if_splits)

lemma default_nets_v4:
  "Contains \<lparr> netIP = [127, 0, 0, 0], netMask = [255, 0, 0, 0] \<rparr> [a, b, c, d] \<longleftrightarrow> a = 127"
  "Contains \<lparr> netIP = [10, 0, 0, 0], netMask = [255, 0, 0, 0] \<rparr> [a, b, c, d] \<longleftrightarrow> a = 10"
  "Contains \<lparr> netIP = [172, 16, 0, 0], netMask = [255, 240, 0, 0] \<rparr> [a, b, c, d] \<longleftrightarrow> a = 172 \<and> 16 \<le> b \<and> b \<le> 31"
  "Contains \<lparr> netIP = [192, 168, 0, 0], netMask = [255, 255, 0, 0] \<rparr> [a, b, c, d] \<longleftrightarrow> a = 192 \<and> b = 168"
  "Contains \<lparr> netIP = [169, 254, 0, 0], netMask = [255, 255, 0, 0] \<rparr> [a, b, c, d] \<longleftrightarrow> a = 169 \<and> b = 254"
  "Contains \<lparr> netIP = [100, 64, 0, 0], netMask = [255, 192, 0, 0] \<rparr> [a, b, c, d] \<longleftrightarrow> a = 100 \<and> 64 \<le> b \<and> b \<le> 127"
proof -
  have ff: "x AND 255 = x" for x :: byte
    using take_bit_word_eq_self [of 8 x] by (simp add: take_bit_eq_mask mask_eq_exp_minus_1)
  show "Contains \<lparr> netIP = [127, 0, 0, 0], netMask = [255, 0, 0, 0] \<rparr> [a, b, c, d] \<longleftrightarrow> a = 127"
    "Contains \<lparr> netIP = [10, 0, 0, 0], netMask = [255, 0, 0, 0] \<rparr> [a, b, c, d] \<longleftrightarrow> a = 10"
    "Contains \<lparr> netIP = [192, 168, 0, 0], netMask = [255, 255, 0, 0] \<rparr> [a, b, c, d] \<longleftrightarrow> a = 192 \<and> b = 168"
    "Contains \<lparr> netIP = [169, 254, 0, 0], netMask = [255, 255, 0, 0] \<rparr> [a, b, c, d] \<longleftrightarrow> a = 169 \<and> b = 254"
    unfolding Contains_v4 ff by auto
  show "Contains \<lparr> netIP = [172, 16, 0, 0], netMask = [255, 240, 0, 0] \<rparr> [a, b, c, d] \<longleftrightarrow> a = 172 \<and> 16 \<le> b \<and> b \<le> 31"
    unfolding Contains_v4 ff using masked_range(1) [of b] by auto
  show "Contains \<lparr> netIP = [100, 64, 0, 0], netMask = [255, 192, 0, 0] \<rparr> [a, b, c, d] \<longleftrightarrow> a = 100 \<and> 64 \<le> b \<and> b \<le> 127"
    unfolding Contains_v4 ff using masked_range(2) [of b] by auto
qed

text \<open>Without a configured allow list the router exempts exactly the private, loopback, link-local
  and carrier-grade NAT ranges of IPv4 from rate limiting; every other IPv4 address is limited.\<close>

theorem default_allowlist_IPv4:
  "list_ex (\<lambda>n. Contains n [a, b, c, d]) (parseAllowlist []) \<longleftrightarrow>
     a = 127 \<or> a = 10 \<or> a = 172 \<and> 16 \<le> b \<and> b \<le> 31 \<or> a = 192 \<and> b = 168 \<or> a = 169 \<and> b = 254
     \<or> a = 100 \<and> 64 \<le> b \<and> b \<le> 127"
  unfolding parseAllowlist_default by (simp add: default_nets_v4 Contains_v6_v4 nth_append)

end
