(* ===== verification/Base64.thy ===== *)
theory Base64
  imports Base32_Hex
begin

text \<open>
  \<open>encoding/base64\<close> of Go's standard library as far as the program uses it: \<open>StdEncoding\<close> (keys
  and secrets; padded) and \<open>RawURLEncoding\<close> (DNS over HTTPS; not padded). The decoders drop line
  breaks, take only characters of the alphabet, reject a last group of one character, and
  \<open>StdEncoding\<close> asks for the padding that fills the last group and nothing after it. The encoders
  are the inverse that the lemmas are about.
\<close>

definition stdAlphabet :: gostring where
  "stdAlphabet = lit ''ABCDEFGHIJKLMNOPQRSTUVWXYZabcdefghijklmnopqrstuvwxyz0123456789+/''"

definition urlAlphabet :: gostring where
  "urlAlphabet = lit ''ABCDEFGHIJKLMNOPQRSTUVWXYZabcdefghijklmnopqrstuvwxyz0123456789-_''"

definition sixBits :: "nat \<Rightarrow> bool list" where
  "sixBits n = map (bit n) [5, 4, 3, 2, 1, 0]"

definition decode64Char :: "gostring \<Rightarrow> byte \<Rightarrow> bool list option" where
  "decode64Char alphabet c = map_option sixBits (IndexByte alphabet c)"

text \<open>The characters without padding: every character gives six bits, and the bits of the last
  group beyond whole bytes are dropped.\<close>

definition decode64 :: "gostring \<Rightarrow> gostring \<Rightarrow> bytes option" where
  "decode64 alphabet body =
     (if length body mod 4 \<noteq> 1 \<and> list_all (\<lambda>c. decode64Char alphabet c \<noteq> None) body
      then Some (map bitsByte (pieces 8 (take (8 * (6 * length body div 8))
             (concat (map (\<lambda>c. the (decode64Char alphabet c)) body)))))
      else None)"

definition padLen :: "nat \<Rightarrow> nat" where
  "padLen n = (if n mod 4 = 0 then 0 else 4 - n mod 4)"

definition StdDecodeString :: "gostring \<Rightarrow> bytes option" where
  "StdDecodeString s =
     (let src = filter (\<lambda>c. c \<noteq> 10 \<and> c \<noteq> 13) s;
          body = takeWhile (\<lambda>c. c \<noteq> 61) src
      in if dropWhile (\<lambda>c. c \<noteq> 61) src = replicate (padLen (length body)) 61
         then decode64 stdAlphabet body else None)"

definition RawURLDecodeString :: "gostring \<Rightarrow> bytes option" where
  "RawURLDecodeString s = decode64 urlAlphabet (filter (\<lambda>c. c \<noteq> 10 \<and> c \<noteq> 13) s)"

definition encode64 :: "gostring \<Rightarrow> bytes \<Rightarrow> gostring" where
  "encode64 alphabet src = map (\<lambda>p. alphabet ! bitsNat p) (pieces 6 (concat (map byteBits src)))"

definition StdEncodeToString :: "bytes \<Rightarrow> gostring" where
  "StdEncodeToString src = (let b = encode64 stdAlphabet src in b @ replicate (padLen (length b)) 61)"

subsection \<open>Round trip\<close>

lemma bits_six: "length bs = 6 \<Longrightarrow> sixBits (bitsNat bs) = bs"
proof -
  assume "length bs = 6"
  then obtain a b c d e f where "bs = [a, b, c, d, e, f]"
    by (auto simp: numeral_eq_Suc length_Suc_conv)
  moreover have "sixBits (bitsNat [a, b, c, d, e, f]) = [a, b, c, d, e, f]"
    by (cases a; cases b; cases c; cases d; cases e; cases f; hypsubst?; simp only: simp_thms; code_simp)
  ultimately show ?thesis by simp
qed

text \<open>What the proofs need of an alphabet.\<close>

definition alphabet64 :: "gostring \<Rightarrow> bool" where
  "alphabet64 alphabet \<longleftrightarrow> length alphabet = 64 \<and> list_all (\<lambda>n. IndexByte alphabet (alphabet ! n) = Some n) [0..<64]
     \<and> list_all (\<lambda>c. c \<noteq> 10 \<and> c \<noteq> 13 \<and> c \<noteq> 61) alphabet"

lemma alphabets: "alphabet64 stdAlphabet" "alphabet64 urlAlphabet"
  by code_simp+

lemma decode_encode64Char:
  assumes "alphabet64 alphabet" "length p = 6"
  shows "decode64Char alphabet (alphabet ! bitsNat p) = Some p"
    "alphabet ! bitsNat p \<noteq> 10 \<and> alphabet ! bitsNat p \<noteq> 13 \<and> alphabet ! bitsNat p \<noteq> 61"
  using assms bitsNat_less [of p]
  by (simp_all add: alphabet64_def decode64Char_def bits_six list_all_iff list_all_length)

lemma encode64_length:
  "\<exists>k < 6. 6 * length (encode64 alphabet src) = 8 * length src + k"
proof -
  let ?bits = "concat (map byteBits src)"
  obtain k where k: "k < 6" "concat (pieces 6 ?bits) = ?bits @ replicate k False"
    using concat_pieces [of 6 ?bits] by auto
  have "length (concat (pieces 6 ?bits)) = 6 * length (pieces 6 ?bits)"
    using piece_length [of 6] by (intro length_concat_const) auto
  moreover have "length ?bits = 8 * length src" by (subst length_concat_const [of _ 8]) auto
  ultimately show ?thesis using k by (auto simp: encode64_def)
qed

lemma group64:
  fixes n m j :: nat
  assumes "j < 6" "6 * m = 8 * n + j"
  shows "m mod 4 \<noteq> 1" "6 * m div 8 = n"
proof -
  show "m mod 4 \<noteq> 1"
  proof
    assume "m mod 4 = 1"
    then have "m = 4 * (m div 4) + 1" using mult_div_mod_eq [of 4 m] by simp
    then have "8 * (3 * (m div 4)) + 6 = 8 * n + j" using assms(2) by linarith
    then show False using assms(1) by presburger
  qed
  show "6 * m div 8 = n" unfolding assms(2) using assms(1) by simp
qed

lemma decode_encode64:
  assumes "alphabet64 alphabet"
  shows "decode64 alphabet (encode64 alphabet src) = Some src"
proof -
  let ?bits = "concat (map byteBits src)" and ?s = "encode64 alphabet src"
  have six: "\<forall>p \<in> set (pieces 6 ?bits). length p = 6" using piece_length [of 6] by auto
  have dec: "map (\<lambda>c. the (decode64Char alphabet c)) ?s = pieces 6 ?bits"
    using six assms by (simp add: encode64_def decode_encode64Char map_idI)
  have ok: "list_all (\<lambda>c. decode64Char alphabet c \<noteq> None) ?s"
    using six assms by (auto simp: encode64_def list_all_iff decode_encode64Char)
  obtain k where k: "concat (pieces 6 ?bits) = ?bits @ replicate k False"
    using concat_pieces [of 6 ?bits] by auto
  have lb: "length ?bits = 8 * length src" by (subst length_concat_const [of _ 8]) auto
  obtain j where j: "j < 6" "6 * length ?s = 8 * length src + j" using encode64_length by blast
  have m: "length ?s mod 4 \<noteq> 1" "6 * length ?s div 8 = length src" using group64 [OF j] by simp_all
  have "take (8 * (6 * length ?s div 8)) (concat (pieces 6 ?bits)) = ?bits" unfolding m(2) k using lb by simp
  then have "decode64 alphabet ?s = Some (map bitsByte (pieces 8 ?bits))"
    using ok m(1) by (simp add: decode64_def dec)
  moreover have "pieces 8 ?bits = map byteBits src" by (rule pieces_concat) auto
  ultimately show ?thesis by (simp add: bitsByte_byteBits o_def)
qed

lemma encoded64_plain:
  assumes "alphabet64 alphabet" "c \<in> set (encode64 alphabet src)"
  shows "c \<noteq> 10 \<and> c \<noteq> 13 \<and> c \<noteq> 61"
  using assms piece_length [of 6] by (auto simp: encode64_def decode_encode64Char)

lemma RawURLDecode_Encode: "RawURLDecodeString (encode64 urlAlphabet src) = Some src"
proof -
  have "filter (\<lambda>c. c \<noteq> 10 \<and> c \<noteq> 13) (encode64 urlAlphabet src) = encode64 urlAlphabet src"
    using encoded64_plain [OF alphabets(2)] by (auto simp: filter_id_conv)
  then show ?thesis by (simp add: RawURLDecodeString_def decode_encode64 alphabets)
qed

lemma StdDecode_Encode: "StdDecodeString (StdEncodeToString src) = Some src"
proof -
  let ?b = "encode64 stdAlphabet src"
  have plain: "\<forall>c \<in> set ?b. c \<noteq> 10 \<and> c \<noteq> 13 \<and> c \<noteq> 61" using encoded64_plain [OF alphabets(1)] by blast
  then have f: "filter (\<lambda>c. c \<noteq> 10 \<and> c \<noteq> 13) (StdEncodeToString src) = StdEncodeToString src"
    by (auto simp: StdEncodeToString_def Let_def filter_id_conv)
  have t: "takeWhile (\<lambda>c. c \<noteq> 61) (?b @ replicate n 61) = ?b" "dropWhile (\<lambda>c. c \<noteq> 61) (?b @ replicate n 61) = replicate n 61" for n
    using plain by (auto simp: takeWhile_append dropWhile_append)
  show ?thesis
    unfolding StdDecodeString_def f
    by (simp add: StdEncodeToString_def Let_def t decode_encode64 alphabets)
qed

end
