(* ===== verification/Router.thy ===== *)
theory Router
  imports Slave_DNS Rate_Limit IP_Parse Base64 Config
begin

text \<open>
  The router, after \<^verbatim>\<open>internal/router\<close>: the client-facing proxy for DNS over UDP, TCP,
  TLS and HTTPS. It parses and screens a query, limits its sender, forwards its bytes to the slaves
  and relays the first response.

  The network is an argument of a query (\<open>upstream\<close>): what the resolver returns for the discovery
  record, how the connection to each slave behaves, and the order in which the responses, the
  deadline and a cancellation come. Of a connection the model has the bytes that arrive; TLS and
  HTTP parsing are below it. \<open>time.ParseDuration\<close> is a parameter.
\<close>

subsection \<open>State\<close>

definition rtOpcodeQuery :: byte where "rtOpcodeQuery = 0"
definition rtQtypeAXFR :: "16 word" where "rtQtypeAXFR = 252"
definition rtQtypeIXFR :: "16 word" where "rtQtypeIXFR = 251"
definition maxDoHBodySize :: nat where "maxDoHBodySize = 4096"
definition rtMaxUDPMsgSize :: nat where "rtMaxUDPMsgSize = 4096"
definition defaultMaxConnections :: nat where "defaultMaxConnections = 10000"

record router_env =
  rtUni :: unilower
  rtRnd :: "real \<Rightarrow> real"
  rtSort :: slice_sort
  rtParseDuration :: "gostring \<Rightarrow> duration option"

datatype proto = UDP | TCP | DoH | DoT

fun protoName :: "proto \<Rightarrow> gostring" where
  "protoName UDP = lit ''udp''"
| "protoName TCP = lit ''tcp''"
| "protoName DoH = lit ''doh''"
| "protoName DoT = lit ''dot''"

text \<open>The limiters and the semaphores (capacity and number of tokens held) by protocol; the
  counters as the lists of their labels, the gauge of active buckets by protocol.\<close>

record Router =
  rtCfg :: DNSConfigSpec
  rtQueries :: "(RRtype \<times> gostring) list"
  rlDrops :: "gostring list"
  rlSlips :: nat
  rlActiveBucket :: "gostring \<rightharpoonup> nat"
  maxConnRejects :: "gostring list"
  limiters :: "proto \<Rightarrow> Limiter option"
  semCap :: "proto \<Rightarrow> nat"
  semHeld :: "proto \<Rightarrow> nat"

subsection \<open>Construction\<close>

definition newLimiter ::
  "router_env \<Rightarrow> time \<Rightarrow> RateLimitConfig \<Rightarrow> IPNet list \<Rightarrow> int \<Rightarrow> Limiter option" where
  "newLimiter env now cfg allow defaultMaxBuckets =
     (if \<not> Enabled cfg then None
      else let maxBuckets = (if rlMaxBuckets cfg \<le> 0 then defaultMaxBuckets else rlMaxBuckets cfg);
               age = (if rlMaxAge cfg \<noteq> []
                      then (case rtParseDuration env (rlMaxAge cfg) of Some d \<Rightarrow> d | None \<Rightarrow> 5 * 60 * 10 ^ 9)
                      else 5 * 60 * 10 ^ 9)
           in Some (NewLimiter \<lparr> BurstSize = rlBurstSize cfg, RatePerSec = rlRatePerSec cfg,
                SlipRatio = rlSlipRatio cfg, MaxBuckets = maxBuckets, MaxAge = age, Allowlist = allow \<rparr> now))"

definition maxConns :: "int \<Rightarrow> nat" where
  "maxConns n = (if n \<le> 0 then defaultMaxConnections else nat n)"

definition NewRouter :: "router_env \<Rightarrow> time \<Rightarrow> DNSConfigSpec \<Rightarrow> Router" where
  "NewRouter env now cfg =
     (let rl = RateLimits (cfgRouter cfg); conns = MaxConnections (cfgRouter cfg);
          allow = parseAllowlist (rlAllowlist rl)
      in \<lparr> rtCfg = cfg, rtQueries = [], rlDrops = [], rlSlips = 0, rlActiveBucket = Map.empty,
           maxConnRejects = [],
           limiters = (\<lambda>p. case p of
                UDP \<Rightarrow> newLimiter env now (rlUDP rl) allow 500000
              | TCP \<Rightarrow> newLimiter env now (rlTCP rl) allow 100000
              | DoH \<Rightarrow> newLimiter env now (rlDoH rl) allow 100000
              | DoT \<Rightarrow> newLimiter env now (rlDoT rl) allow 100000),
           semCap = (\<lambda>p. case p of
                UDP \<Rightarrow> 0 | TCP \<Rightarrow> maxConns (connTCP conns) | DoH \<Rightarrow> maxConns (connDoH conns) | DoT \<Rightarrow> maxConns (connDoT conns)),
           semHeld = (\<lambda>p. 0) \<rparr>)"

subsection \<open>Forwarding\<close>

text \<open>How the connection to a slave behaves: whether it opens, whether the query can be written, and
  the bytes that arrive before it fails or the deadline passes (for UDP, the first datagram).\<close>

record slave_conn =
  dialOk :: bool
  writeOk :: bool
  arrived :: "bytes option"

text \<open>What is written to a slave.\<close>

definition sentQuery :: "bool \<Rightarrow> bytes \<Rightarrow> bytes" where
  "sentQuery useTCP query = (if useTCP then put16 (u16_of (length query)) @ query else query)"

definition forwardTo :: "bool \<Rightarrow> slave_conn \<Rightarrow> bytes option" where
  "forwardTo useTCP conn =
     (if \<not> dialOk conn \<or> \<not> writeOk conn then None
      else case arrived conn of
        None \<Rightarrow> None
      | Some inp \<Rightarrow>
          (if useTCP
           then (case be16 inp 0 of
                   None \<Rightarrow> None
                 | Some respLen \<Rightarrow> if length inp < 2 + unat respLen then None
                                   else Some (take (unat respLen) (drop 2 inp)))
           else Some (take rtMaxUDPMsgSize inp)))"

datatype forward_error = ResolveFailed | ForwardTimeout | ForwardCancelled

text \<open>The goroutine of the \<open>i\<close>-th address is done, the deadline fires, the context is cancelled.\<close>

datatype forward_event = Arrives nat | DeadlineFires | CtxDone

text \<open>The \<open>select\<close> at the end of \<open>forward\<close>; the deadline comes if nothing else does.\<close>

fun firstResponse :: "(nat \<Rightarrow> bytes option) \<Rightarrow> forward_event list \<Rightarrow> forward_error + bytes" where
  "firstResponse f [] = Inl ForwardTimeout"
| "firstResponse f (Arrives i # evs) = (case f i of Some resp \<Rightarrow> Inr resp | None \<Rightarrow> firstResponse f evs)"
| "firstResponse f (DeadlineFires # evs) = Inl ForwardTimeout"
| "firstResponse f (CtxDone # evs) = Inl ForwardCancelled"

record upstream =
  lookupHost :: "gostring \<Rightarrow> gostring list option"
  connectTo :: "gostring \<Rightarrow> bytes \<Rightarrow> slave_conn"
  eventsOf :: "forward_event list"

definition Itoa :: "int \<Rightarrow> gostring" where
  "Itoa n = (if n < 0 then lit ''-'' @ FormatNat (nat (- n)) else FormatNat (nat n))"

definition JoinHostPort :: "gostring \<Rightarrow> gostring \<Rightarrow> gostring" where
  "JoinHostPort host port =
     (if 58 \<in> set host then lit ''['' @ host @ lit '']:'' @ port else host @ lit '':'' @ port)"

definition forward :: "Router \<Rightarrow> upstream \<Rightarrow> bytes \<Rightarrow> bool \<Rightarrow> forward_error + bytes" where
  "forward rt up query useTCP =
     (case lookupHost up (routerDiscoveryRecord (cfgRouter (rtCfg rt))) of
        None \<Rightarrow> Inl ResolveFailed
      | Some addrs \<Rightarrow>
          (if addrs = [] then Inl ResolveFailed
           else let port = (if SlavePort (cfgRouter (rtCfg rt)) = 0 then 5353 else SlavePort (cfgRouter (rtCfg rt)));
                    reply = (\<lambda>i. if i < length addrs
                      then forwardTo useTCP (connectTo up (JoinHostPort (addrs ! i) (Itoa port)) (sentQuery useTCP query))
                      else None)
                in firstResponse reply (eventsOf up)))"

subsection \<open>Screening and counting\<close>

definition checkReject :: "router_env \<Rightarrow> Request \<Rightarrow> bytes option go" where
  "checkReject env req =
     (if Opcode req \<noteq> rtOpcodeQuery \<or> QType req = rtQtypeAXFR \<or> QType req = rtQtypeIXFR
      then do { txid \<leftarrow> ID req; flags \<leftarrow> Flags req; resp \<leftarrow> RefusedResponse (rtUni env) txid flags; Some (Some resp) }
      else Some None)"

definition recordQuery :: "Router \<Rightarrow> Request \<Rightarrow> proto \<Rightarrow> Router" where
  "recordQuery rt req p =
     (case RRtypeFromWire (QType req) of
        None \<Rightarrow> rt
      | Some rrtype \<Rightarrow> rt \<lparr> rtQueries := (rrtype, protoName p) # rtQueries rt \<rparr>)"

text \<open>What every front end does with an admitted query: the REFUSED response, the response of a
  slave, or SERVFAIL.\<close>

definition resolve :: "router_env \<Rightarrow> Router \<Rightarrow> upstream \<Rightarrow> proto \<Rightarrow> Request \<Rightarrow> (bytes \<times> Router) go" where
  "resolve env rt up p req = do {
     reject \<leftarrow> checkReject env req;
     (case reject of
        Some resp \<Rightarrow> Some (resp, rt)
      | None \<Rightarrow>
          (let rt' = recordQuery rt req p
           in case forward rt' up (Bytes req) (p \<noteq> UDP) of
                Inr resp \<Rightarrow> Some (resp, rt')
              | Inl err \<Rightarrow> do {
                  txid \<leftarrow> ID req; flags \<leftarrow> Flags req;
                  resp \<leftarrow> ServfailResponse (rtUni env) txid flags;
                  Some (resp, rt')
                }))
   }"

text \<open>Storing a limiter and setting the gauge of its buckets.\<close>

definition setLimiter :: "proto \<Rightarrow> Limiter \<Rightarrow> Router \<Rightarrow> Router" where
  "setLimiter p l rt = rt \<lparr> limiters := (limiters rt)(p := Some l),
     rlActiveBucket := (rlActiveBucket rt)(protoName p \<mapsto> ActiveBuckets l) \<rparr>"

definition countDrop :: "proto \<Rightarrow> Router \<Rightarrow> Router" where
  "countDrop p rt = rt \<lparr> rlDrops := protoName p # rlDrops rt \<rparr>"

subsection \<open>UDP\<close>

text \<open>One round of \<open>serveUDP\<close> with its goroutine; the result is the datagram that is sent back.\<close>

definition serveUDPPacket ::
  "router_env \<Rightarrow> Router \<Rightarrow> time \<Rightarrow> upstream \<Rightarrow> Addr \<Rightarrow> bytes \<Rightarrow> (bytes option \<times> Router) go" where
  "serveUDPPacket env rt now up addr datagram = do {
     r \<leftarrow> New (take rtMaxUDPMsgSize datagram);
     (case r of
        Inl err \<Rightarrow> Some (None, rt)
      | Inr req \<Rightarrow> do {
          (decision, rt1) \<leftarrow> (case limiters rt UDP of
             None \<Rightarrow> Some (Allow, rt)
           | Some l \<Rightarrow> do { (d, l') \<leftarrow> checkAt (rtRnd env) (rtSort env) l addr now; Some (d, setLimiter UDP l' rt) });
          (case decision of
             Slip \<Rightarrow> do {
               txid \<leftarrow> ID req; flags \<leftarrow> Flags req;
               Some (Some (TruncatedResponse txid flags False), rt1 \<lparr> rlSlips := rlSlips rt1 + 1 \<rparr>)
             }
           | Drop \<Rightarrow> Some (None, countDrop UDP rt1)
           | Allow \<Rightarrow> do { (resp, rt2) \<leftarrow> resolve env rt1 up UDP req; Some (Some resp, rt2) })
        })
   }"

subsection \<open>Connections\<close>

text \<open>The non-blocking send to the semaphore, and the deferred receive from it.\<close>

definition acquire :: "proto \<Rightarrow> Router \<Rightarrow> Router option" where
  "acquire p rt =
     (if semHeld rt p < semCap rt p then Some (rt \<lparr> semHeld := (semHeld rt)(p := semHeld rt p + 1) \<rparr>) else None)"

definition release :: "proto \<Rightarrow> Router \<Rightarrow> Router" where
  "release p rt = rt \<lparr> semHeld := (semHeld rt)(p := semHeld rt p - 1) \<rparr>"

definition countReject :: "proto \<Rightarrow> Router \<Rightarrow> Router" where
  "countReject p rt = rt \<lparr> maxConnRejects := protoName p # maxConnRejects rt \<rparr>"

definition limitPeer ::
  "router_env \<Rightarrow> Router \<Rightarrow> time \<Rightarrow> proto \<Rightarrow> gostring \<Rightarrow> (limit_error option \<times> Router) go" where
  "limitPeer env rt now p remote =
     (case limiters rt p of
        None \<Rightarrow> Some (None, rt)
      | Some l \<Rightarrow>
          (case remoteIP remote of
             None \<Rightarrow> Some (None, rt)
           | Some ip \<Rightarrow> do {
               (err, l') \<leftarrow> allowAt (rtRnd env) (rtSort env) l ip now;
               Some (err, setLimiter p l' (if err \<noteq> None then countDrop p rt else rt))
             }))"

definition handleDNSStreamConn ::
  "router_env \<Rightarrow> Router \<Rightarrow> upstream \<Rightarrow> proto \<Rightarrow> bytes \<Rightarrow> (bytes option \<times> Router) go" where
  "handleDNSStreamConn env rt up p inp =
     (case be16 inp 0 of
        None \<Rightarrow> Some (None, rt)
      | Some msgLen \<Rightarrow>
          (if length inp < 2 + unat msgLen then Some (None, rt)
           else do {
             r \<leftarrow> New (take (unat msgLen) (drop 2 inp));
             (case r of
                Inl err \<Rightarrow> Some (None, rt)
              | Inr req \<Rightarrow> do {
                  (resp, rt') \<leftarrow> resolve env rt up p req;
                  Some (Some (put16 (u16_of (length resp)) @ resp), rt')
                })
           }))"

text \<open>\<open>handleTCPConn\<close> and \<open>handleDoTConn\<close> differ in the protocol only.\<close>

definition handleStreamConn ::
  "router_env \<Rightarrow> Router \<Rightarrow> time \<Rightarrow> upstream \<Rightarrow> proto \<Rightarrow> gostring \<Rightarrow> bytes \<Rightarrow> (bytes option \<times> Router) go" where
  "handleStreamConn env rt now up p remote inp =
     (case acquire p rt of
        None \<Rightarrow> Some (None, countReject p rt)
      | Some rt1 \<Rightarrow> do {
          (err, rt2) \<leftarrow> limitPeer env rt1 now p remote;
          (if err \<noteq> None then Some (None, release p rt2)
           else do {
             (out, rt3) \<leftarrow> handleDNSStreamConn env rt2 up p inp;
             Some (out, release p rt3)
           })
        })"

subsection \<open>DNS over HTTPS\<close>

text \<open>The request as the handler reads it: the value of the query parameter \<open>dns\<close> (empty if there is
  none) and the body (none if reading it fails).\<close>

record doh_request =
  dohMethod :: gostring
  dohParam :: gostring
  dohContentType :: gostring
  dohBody :: "bytes option"
  dohRemote :: gostring

datatype doh_reply = HttpError nat | DnsMessage bytes

definition dohMessage :: "doh_request \<Rightarrow> nat + bytes" where
  "dohMessage r =
     (if dohMethod r = lit ''GET''
      then (if dohParam r = [] then Inl 400
            else case RawURLDecodeString (dohParam r) of None \<Rightarrow> Inl 400 | Some msg \<Rightarrow> Inr msg)
      else if dohMethod r = lit ''POST''
      then (if dohContentType r \<noteq> lit ''application/dns-message'' then Inl 415
            else case dohBody r of
              None \<Rightarrow> Inl 400
            | Some body \<Rightarrow> (let msg = take (maxDoHBodySize + 1) body
                             in if maxDoHBodySize < length msg then Inl 413 else Inr msg))
      else Inl 405)"

definition handleDoH ::
  "router_env \<Rightarrow> Router \<Rightarrow> time \<Rightarrow> upstream \<Rightarrow> doh_request \<Rightarrow> (doh_reply \<times> Router) go" where
  "handleDoH env rt now up r =
     (case acquire DoH rt of
        None \<Rightarrow> Some (HttpError 503, countReject DoH rt)
      | Some rt1 \<Rightarrow> do {
          (err, rt2) \<leftarrow> limitPeer env rt1 now DoH (dohRemote r);
          (case err of
             Some ErrTableFull \<Rightarrow> Some (HttpError 503, release DoH rt2)
           | Some ErrRateLimited \<Rightarrow> Some (HttpError 429, release DoH rt2)
           | None \<Rightarrow>
               (case dohMessage r of
                  Inl status \<Rightarrow> Some (HttpError status, release DoH rt2)
                | Inr msg \<Rightarrow> do {
                    q \<leftarrow> New msg;
                    (case q of
                       Inl err \<Rightarrow> Some (HttpError 400, release DoH rt2)
                     | Inr req \<Rightarrow> do {
                         (resp, rt3) \<leftarrow> resolve env rt2 up DoH req;
                         Some (DnsMessage resp, release DoH rt3)
                       })
                  }))
        })"

subsection \<open>Every query is resolved\<close>

lemma ServfailResponse_eq:
  "ServfailResponse uni txid qf =
     Some (put16 txid @ put16 (FlagQR OR FlagAA OR (qf AND FlagRD) OR 2) @ replicate 8 0)"
proof -
  have "(2 :: 16 word) AND 0xf = 2" "put16 0 @ put16 0 @ put16 0 @ put16 0 = replicate 8 0" by code_simp+
  then show ?thesis by (simp add: ServfailResponse_def BuildResponse_def RcodeServFail_def Let_def)
qed

text \<open>The query is one the router does not forward.\<close>

definition refused :: "Request \<Rightarrow> bool" where
  "refused req \<longleftrightarrow> Opcode req \<noteq> rtOpcodeQuery \<or> QType req = rtQtypeAXFR \<or> QType req = rtQtypeIXFR"

text \<open>The response the standard header and a code make up, without a question.\<close>

definition minimal :: "16 word \<Rightarrow> 16 word \<Rightarrow> 16 word \<Rightarrow> bytes" where
  "minimal txid qf rcode = put16 txid @ put16 (FlagQR OR FlagAA OR (qf AND FlagRD) OR rcode) @ replicate 8 0"

lemma New_header:
  assumes "New msg = Some (Inr req)"
  obtains txid flags where "be16 msg 0 = Some txid" "be16 msg 2 = Some flags" "ID req = Some txid" "Flags req = Some flags"
    "Bytes req = msg" "12 \<le> length msg"
proof -
  note n = New_request [OF assms]
  have "12 \<le> length msg" using n(4,5) by simp
  then show ?thesis using that n by (simp add: be16_def Bytes_def)
qed

definition answer :: "Router \<Rightarrow> upstream \<Rightarrow> proto \<Rightarrow> Request \<Rightarrow> 16 word \<Rightarrow> 16 word \<Rightarrow> bytes" where
  "answer rt up p req txid flags =
     (if refused req then minimal txid flags 5
      else case forward rt up (raw req) (p \<noteq> UDP) of Inr resp \<Rightarrow> resp | Inl err \<Rightarrow> minimal txid flags 2)"

lemma recordQuery_frame [simp]:
  "limiters (recordQuery rt req p) = limiters rt" "semHeld (recordQuery rt req p) = semHeld rt"
  "semCap (recordQuery rt req p) = semCap rt" "rtCfg (recordQuery rt req p) = rtCfg rt"
  by (simp_all add: recordQuery_def split: option.split)

lemma forward_cfg: "rtCfg rt' = rtCfg rt \<Longrightarrow> forward rt' up q t = forward rt up q t"
  unfolding forward_def by (simp only:)

lemma forward_recorded [simp]: "forward (recordQuery rt req p) up q t = forward rt up q t"
  by (rule forward_cfg) simp

lemma resolve_eq:
  assumes "ID req = Some txid" "Flags req = Some flags"
  shows "resolve env rt up p req = Some (answer rt up p req txid flags, if refused req then rt else recordQuery rt req p)"
  using assms
  by (auto simp: resolve_def checkReject_def refused_def answer_def minimal_def RefusedResponse_eq ServfailResponse_eq
      Bytes_def Let_def split: sum.split)

subsection \<open>The invariant\<close>

definition router_ok :: "router_env \<Rightarrow> Router \<Rightarrow> bool" where
  "router_ok env rt \<longleftrightarrow> (\<forall>p l. limiters rt p = Some l \<longrightarrow> limiter_inv (rtRnd env) (rtSort env) l)
     \<and> (\<forall>p. semHeld rt p \<le> semCap rt p)"

text \<open>What a front end may change of the router besides its counters: the limiter of the protocol.\<close>

definition same_conns :: "Router \<Rightarrow> Router \<Rightarrow> bool" where
  "same_conns rt rt' \<longleftrightarrow> semHeld rt' = semHeld rt \<and> semCap rt' = semCap rt \<and> rtCfg rt' = rtCfg rt"

lemma same_conns_refl [simp]: "same_conns rt rt"
  by (simp add: same_conns_def)

lemma setLimiter_frame [simp]:
  "limiters (setLimiter p l rt) = (limiters rt)(p := Some l)" "semHeld (setLimiter p l rt) = semHeld rt"
  "semCap (setLimiter p l rt) = semCap rt" "rtCfg (setLimiter p l rt) = rtCfg rt"
  by (simp_all add: setLimiter_def)

lemma count_frame [simp]:
  "limiters (countDrop p rt) = limiters rt" "semHeld (countDrop p rt) = semHeld rt"
  "semCap (countDrop p rt) = semCap rt" "rtCfg (countDrop p rt) = rtCfg rt"
  "limiters (countReject p rt) = limiters rt" "semHeld (countReject p rt) = semHeld rt"
  "semCap (countReject p rt) = semCap rt" "rtCfg (countReject p rt) = rtCfg rt"
  by (simp_all add: countDrop_def countReject_def)

lemma serveUDPPacket_ok:
  assumes "router_ok env rt"
  shows "\<exists>out rt'. serveUDPPacket env rt now up addr datagram = Some (out, rt') \<and> router_ok env rt' \<and> same_conns rt rt'"
proof -
  obtain r where r: "New (take rtMaxUDPMsgSize datagram) = Some r" using New_total by blast
  show ?thesis
  proof (cases r)
    case (Inl err)
    then show ?thesis using r assms by (simp add: serveUDPPacket_def)
  next
    case (Inr req)
    obtain txid flags where i: "ID req = Some txid" "Flags req = Some flags"
      using New_header [OF r [unfolded Inr]] by metis
    obtain d rt1 where lim: "(case limiters rt UDP of None \<Rightarrow> Some (Allow, rt)
        | Some l \<Rightarrow> do { (d, l') \<leftarrow> checkAt (rtRnd env) (rtSort env) l addr now; Some (d, setLimiter UDP l' rt) }) = Some (d, rt1)"
      and rt1: "router_ok env rt1" "same_conns rt rt1"
    proof (cases "limiters rt UDP")
      case None
      then show ?thesis using that assms by simp
    next
      case (Some l)
      then have "limiter_inv (rtRnd env) (rtSort env) l" using assms by (simp add: router_ok_def)
      then obtain d l' where c: "checkAt (rtRnd env) (rtSort env) l addr now = Some (d, l')" "limiter_inv (rtRnd env) (rtSort env) l'"
        by (rule buckets_limiter.checkE)
      show ?thesis using that [of d "setLimiter UDP l' rt"] Some c assms by (simp add: router_ok_def same_conns_def)
    qed
    show ?thesis
      using r Inr lim rt1 resolve_eq [OF i] i
      by (cases d) (auto simp: serveUDPPacket_def router_ok_def same_conns_def)
  qed
qed

lemma limitPeer_ok:
  assumes "router_ok env rt"
  obtains err rt' where "limitPeer env rt now p remote = Some (err, rt')" "router_ok env rt'" "same_conns rt rt'"
    "err \<noteq> Some ErrTableFull"
proof (cases "limiters rt p")
  case None
  then show ?thesis using that assms by (simp add: limitPeer_def)
next
  case (Some l)
  show ?thesis
  proof (cases "remoteIP remote")
    case None
    then show ?thesis using that assms Some by (simp add: limitPeer_def)
  next
    case (Some ip)
    have "limiter_inv (rtRnd env) (rtSort env) l" using assms \<open>limiters rt p = Some l\<close> by (simp add: router_ok_def)
    then obtain err l' where "allowAt (rtRnd env) (rtSort env) l ip now = Some (err, l')" "limiter_inv (rtRnd env) (rtSort env) l'"
      "err \<noteq> Some ErrTableFull" by (rule buckets_limiter.allowE)
    then show ?thesis
      using that [of err "setLimiter p l' (if err \<noteq> None then countDrop p rt else rt)"] assms Some \<open>limiters rt p = Some l\<close>
      by (simp add: limitPeer_def router_ok_def same_conns_def)
  qed
qed

lemma handleDNSStreamConn_ok:
  assumes "router_ok env rt"
  obtains out rt' where "handleDNSStreamConn env rt up p inp = Some (out, rt')" "router_ok env rt'" "same_conns rt rt'"
proof (cases "2 \<le> length inp \<and> 2 + unat (mk16 (inp ! 0) (inp ! 1)) \<le> length inp")
  case False
  then show ?thesis using that [of None rt] assms by (auto simp: handleDNSStreamConn_def be16_def)
next
  case True
  define msg where "msg = take (unat (mk16 (inp ! 0) (inp ! 1))) (drop 2 inp)"
  obtain r where r: "New msg = Some r" using New_total by blast
  have eq: "handleDNSStreamConn env rt up p inp = (case r of Inl err \<Rightarrow> Some (None, rt)
      | Inr req \<Rightarrow> do { (resp, rt') \<leftarrow> resolve env rt up p req; Some (Some (put16 (u16_of (length resp)) @ resp), rt') })"
    using True r by (simp add: handleDNSStreamConn_def be16_def msg_def)
  show ?thesis
  proof (cases r)
    case (Inl err)
    then show ?thesis using that [of None rt] assms eq by simp
  next
    case (Inr req)
    obtain txid flags where i: "ID req = Some txid" "Flags req = Some flags" using New_header [OF r [unfolded Inr]] by metis
    show ?thesis
      using that assms Inr eq resolve_eq [OF i] by (auto simp: router_ok_def same_conns_def)
  qed
qed

text \<open>The connections of one protocol: a token is taken and given back.\<close>

lemma acquire_Some:
  assumes "acquire p rt = Some rt1" "router_ok env rt"
  shows "semHeld rt p < semCap rt p" "router_ok env rt1" "semHeld rt1 = (semHeld rt)(p := semHeld rt p + 1)"
    "semCap rt1 = semCap rt" "rtCfg rt1 = rtCfg rt" "limiters rt1 = limiters rt"
  using assms by (auto simp: acquire_def router_ok_def split: if_splits)

lemma release_back:
  assumes "acquire p rt = Some rt1" "same_conns rt1 rt2" "router_ok env rt" "router_ok env rt2"
  shows "same_conns rt (release p rt2)" "router_ok env (release p rt2)"
  using assms by (auto simp: acquire_def release_def same_conns_def router_ok_def fun_eq_iff split: if_splits)

lemma router_ok_reject: "router_ok env rt \<Longrightarrow> router_ok env (countReject p rt)" "same_conns rt (countReject p rt)"
  by (simp_all add: router_ok_def same_conns_def)

lemma same_conns_trans: "same_conns a b \<Longrightarrow> same_conns b c \<Longrightarrow> same_conns a c"
  by (simp add: same_conns_def)

lemma handleStreamConn_ok:
  assumes "router_ok env rt"
  shows "\<exists>out rt'. handleStreamConn env rt now up p remote inp = Some (out, rt') \<and> router_ok env rt' \<and> same_conns rt rt'"
proof (cases "acquire p rt")
  case None
  then show ?thesis using router_ok_reject assms by (simp add: handleStreamConn_def)
next
  case (Some rt1)
  note a = acquire_Some [OF Some assms]
  obtain err rt2 where l: "limitPeer env rt1 now p remote = Some (err, rt2)" "router_ok env rt2" "same_conns rt1 rt2"
    using limitPeer_ok [OF a(2)] by metis
  obtain out rt3 where h: "handleDNSStreamConn env rt2 up p inp = Some (out, rt3)" "router_ok env rt3" "same_conns rt2 rt3"
    using handleDNSStreamConn_ok [OF l(2)] by metis
  note b = release_back [OF Some l(3) assms l(2)] release_back [OF Some same_conns_trans [OF l(3) h(3)] assms h(2)]
  show ?thesis using Some l h b by (auto simp: handleStreamConn_def)
qed

lemma handleDoH_ok:
  assumes "router_ok env rt"
  shows "\<exists>out rt'. handleDoH env rt now up r = Some (out, rt') \<and> router_ok env rt' \<and> same_conns rt rt'"
proof (cases "acquire DoH rt")
  case None
  then show ?thesis using router_ok_reject assms by (simp add: handleDoH_def)
next
  case (Some rt1)
  note a = acquire_Some [OF Some assms]
  obtain err rt2 where l: "limitPeer env rt1 now DoH (dohRemote r) = Some (err, rt2)" "router_ok env rt2" "same_conns rt1 rt2"
    "err \<noteq> Some ErrTableFull" using limitPeer_ok [OF a(2)] by metis
  note b = release_back [OF Some l(3) assms l(2)]
  have rec: "router_ok env (release DoH (recordQuery rt2 req DoH))" "same_conns rt (release DoH (recordQuery rt2 req DoH))" for req
    using b by (simp_all add: router_ok_def same_conns_def release_def)
  have m: "\<exists>out rt'. (case dohMessage r of Inl status \<Rightarrow> Some (HttpError status, release DoH rt2)
      | Inr msg \<Rightarrow> do { q \<leftarrow> New msg; (case q of Inl err \<Rightarrow> Some (HttpError 400, release DoH rt2)
          | Inr req \<Rightarrow> do { (resp, rt3) \<leftarrow> resolve env rt2 up DoH req; Some (DnsMessage resp, release DoH rt3) }) })
      = Some (out, rt') \<and> router_ok env rt' \<and> same_conns rt rt'"
  proof (cases "dohMessage r")
    case (Inr msg)
    obtain q where q: "New msg = Some q" using New_total by blast
    show ?thesis
    proof (cases q)
      case (Inr req)
      obtain txid flags where i: "ID req = Some txid" "Flags req = Some flags" using New_header [OF q [unfolded Inr]] by metis
      show ?thesis using \<open>dohMessage r = Inr msg\<close> q Inr resolve_eq [OF i] b rec by simp
    qed (use Inr q b in simp)
  qed (use b in simp)
  show ?thesis
  proof (cases err)
    case None
    then show ?thesis using m Some l(1) by (simp add: handleDoH_def)
  next
    case (Some e)
    then show ?thesis using \<open>acquire DoH rt = Some rt1\<close> l b by (cases e) (auto simp: handleDoH_def)
  qed
qed

subsection \<open>Runs\<close>

text \<open>A run of the router with any number of connections at a time: \<open>opn\<close> counts, by protocol, the
  connections that hold a token. The handlers of open connections take their steps in any order.\<close>

inductive router_reachable :: "router_env \<Rightarrow> DNSConfigSpec \<Rightarrow> (proto \<Rightarrow> nat) \<Rightarrow> Router \<Rightarrow> bool" for env cfg where
  start: "router_reachable env cfg (\<lambda>p. 0) (NewRouter env now cfg)"
| packet: "router_reachable env cfg opn rt \<Longrightarrow> serveUDPPacket env rt now up addr datagram = Some (out, rt')
    \<Longrightarrow> router_reachable env cfg opn rt'"
| accept: "router_reachable env cfg opn rt \<Longrightarrow> acquire p rt = Some rt' \<Longrightarrow> router_reachable env cfg (opn(p := opn p + 1)) rt'"
| refuse: "router_reachable env cfg opn rt \<Longrightarrow> acquire p rt = None \<Longrightarrow> router_reachable env cfg opn (countReject p rt)"
| limit: "router_reachable env cfg opn rt \<Longrightarrow> limitPeer env rt now p remote = Some (err, rt') \<Longrightarrow> router_reachable env cfg opn rt'"
| serve: "router_reachable env cfg opn rt \<Longrightarrow> handleDNSStreamConn env rt up p inp = Some (out, rt') \<Longrightarrow> router_reachable env cfg opn rt'"
| query: "router_reachable env cfg opn rt \<Longrightarrow> New msg = Some (Inr req) \<Longrightarrow> resolve env rt up p req = Some (resp, rt')
    \<Longrightarrow> router_reachable env cfg opn rt'"
| close: "router_reachable env cfg opn rt \<Longrightarrow> 0 < opn p \<Longrightarrow> router_reachable env cfg (opn(p := opn p - 1)) (release p rt)"

definition limit_ok :: "RateLimitConfig \<Rightarrow> bool" where
  "limit_ok c \<longleftrightarrow> rlBurstSize c \<le> 2 ^ 51 \<and> rlMaxBuckets c \<le> 2 ^ 51"

definition limits_ok :: "DNSConfigSpec \<Rightarrow> bool" where
  "limits_ok cfg \<longleftrightarrow> (let rl = RateLimits (cfgRouter cfg)
     in limit_ok (rlUDP rl) \<and> limit_ok (rlTCP rl) \<and> limit_ok (rlDoH rl) \<and> limit_ok (rlDoT rl))"

lemma newLimiter_ok:
  assumes "newLimiter env now c allow n = Some l" "limit_ok c" "n \<le> 2 ^ 51" "float64_rounding (rtRnd env)" "sorts_slice (rtSort env)"
  shows "limiter_inv (rtRnd env) (rtSort env) l"
  using assms by (auto simp: newLimiter_def limiter_inv_def limit_ok_def Let_def split: if_splits intro!: NewLimiter_ok)

lemma NewRouter_ok:
  assumes "float64_rounding (rtRnd env)" "sorts_slice (rtSort env)" "limits_ok cfg"
  shows "router_ok env (NewRouter env now cfg)"
proof -
  have "limiter_inv (rtRnd env) (rtSort env) l" if "limiters (NewRouter env now cfg) p = Some l" for p l
    using that assms newLimiter_ok
    by (cases p) (auto simp: NewRouter_def Let_def limits_ok_def)
  then show ?thesis by (simp add: router_ok_def NewRouter_def Let_def)
qed

lemma resolve_ok:
  assumes "New msg = Some (Inr req)" "resolve env rt up p req = Some (resp, rt')"
  shows "limiters rt' = limiters rt" "same_conns rt rt'"
proof -
  obtain txid flags where i: "ID req = Some txid" "Flags req = Some flags" using New_header [OF assms(1)] by metis
  show "limiters rt' = limiters rt" "same_conns rt rt'"
    using assms(2) unfolding resolve_eq [OF i] by (auto simp: same_conns_def split: if_splits)
qed

lemma reachable_inv:
  assumes "router_reachable env cfg opn rt" "float64_rounding (rtRnd env)" "sorts_slice (rtSort env)" "limits_ok cfg"
  shows "router_ok env rt \<and> semHeld rt = opn \<and> semCap rt = semCap (NewRouter env 0 cfg)"
  using assms
proof (induction rule: router_reachable.induct)
  case (start now)
  then show ?case using NewRouter_ok by (simp add: NewRouter_def Let_def)
next
  case (packet opn rt now up addr datagram out rt')
  then show ?case using serveUDPPacket_ok [of env rt now up addr datagram] by (auto simp: same_conns_def)
next
  case (accept opn rt p rt')
  then show ?case using acquire_Some [of p rt rt' env] by simp
next
  case (refuse opn rt p)
  then show ?case using router_ok_reject by (simp add: same_conns_def)
next
  case (limit opn rt now p remote err rt')
  then show ?case using limitPeer_ok [of env rt now p remote] by (metis (no_types, lifting) Pair_inject option.inject same_conns_def)
next
  case (serve opn rt up p inp out rt')
  then show ?case using handleDNSStreamConn_ok [of env rt up p inp]
    by (metis (no_types, lifting) Pair_inject option.inject same_conns_def)
next
  case (query opn rt msg req up p resp rt')
  then show ?case using resolve_ok [OF query.hyps(2,3)] by (auto simp: router_ok_def same_conns_def)
next
  case (close opn rt p)
  then have "semHeld rt q \<le> semCap rt q" for q by (auto simp: router_ok_def)
  then show ?case using close by (auto simp: release_def router_ok_def intro: le_trans [OF diff_le_self])
qed

subsection \<open>Relaying\<close>

text \<open>The connection to the address whose response arrives first.\<close>

definition firstSlave :: "Router \<Rightarrow> upstream \<Rightarrow> (bytes \<Rightarrow> slave_conn) option" where
  "firstSlave rt up =
     (case (lookupHost up (routerDiscoveryRecord (cfgRouter (rtCfg rt))), eventsOf up) of
        (Some addrs, Arrives i # evs) \<Rightarrow>
          (if i < length addrs
           then Some (connectTo up (JoinHostPort (addrs ! i)
                  (Itoa (if SlavePort (cfgRouter (rtCfg rt)) = 0 then 5353 else SlavePort (cfgRouter (rtCfg rt))))))
           else None)
      | _ \<Rightarrow> None)"

text \<open>A slave at the other end of the connection: what it writes for what it reads.\<close>

definition slaveConn :: "unilower \<Rightarrow> unilower \<Rightarrow> hashfun \<Rightarrow> Slave \<Rightarrow> bool \<Rightarrow> bytes \<Rightarrow> slave_conn" where
  "slaveConn uni uup sha1 s useTCP inp = \<lparr> dialOk = True, writeOk = True,
     arrived = (case (if useTCP then handleTCPConn uni uup sha1 s inp else serveUDP uni uup sha1 s inp) of
                  Some (Some (out, labels)) \<Rightarrow> Some out | _ \<Rightarrow> None) \<rparr>"

lemma forward_first:
  assumes "firstSlave rt up = Some conn" "forwardTo useTCP (conn (sentQuery useTCP q)) = Some resp"
  shows "forward rt up q useTCP = Inr resp"
proof -
  obtain addrs i evs where a: "lookupHost up (routerDiscoveryRecord (cfgRouter (rtCfg rt))) = Some addrs"
    "eventsOf up = Arrives i # evs" "i < length addrs"
    and c: "conn = connectTo up (JoinHostPort (addrs ! i)
                  (Itoa (if SlavePort (cfgRouter (rtCfg rt)) = 0 then 5353 else SlavePort (cfgRouter (rtCfg rt)))))"
    using assms(1) by (auto simp: firstSlave_def split: option.splits list.splits forward_event.splits if_splits)
  then have "addrs \<noteq> []" by auto
  then show ?thesis using a assms(2) unfolding c forward_def by (simp only: option.case if_False Let_def firstResponse.simps if_True)
qed

lemma frame_message:
  assumes "length msg \<le> 65535"
  shows "be16 (put16 (u16_of (length msg)) @ msg) 0 = Some (u16_of (length msg))" "unat (u16_of (length msg)) = length msg"
    "take (length msg) (drop 2 (put16 (u16_of (length msg)) @ msg)) = msg"
    "goslice (put16 (u16_of (length msg)) @ msg) 2 (2 + length msg) = Some msg"
proof -
  show "be16 (put16 (u16_of (length msg)) @ msg) 0 = Some (u16_of (length msg))"
    using be16_at [of "[]" 0 "u16_of (length msg)" msg] by simp
  show "unat (u16_of (length msg)) = length msg" using assms by (simp add: unat_of_nat)
  show "take (length msg) (drop 2 (put16 (u16_of (length msg)) @ msg)) = msg" by simp
  show "goslice (put16 (u16_of (length msg)) @ msg) 2 (2 + length msg) = Some msg"
    using goslice_at [of "put16 (u16_of (length msg))" 2 msg "2 + length msg" "[]"] by simp
qed

lemma slave_answers_UDP:
  assumes "slave_ok uni s" "New msg = Some (Inr req)"
  obtains out labels where "serveUDP uni uup sha1 s msg = Some (Some (out, labels))" "length out \<le> 4096"
proof -
  obtain resp qi where h: "handleDNS uni uup sha1 s msg = Some (Some (req, resp, qi))"
    using handleDNS_ok [OF assms(1), of msg uup sha1] assms(2) by auto
  obtain txid flags where i: "ID req = Some txid" "Flags req = Some flags" using New_header [OF assms(2)] by metis
  have "maxUDP qi \<le> 4096" by (simp add: maxUDP_def Let_def maxUDPMsgSize_def)
  then show ?thesis
    using that h i by (cases "maxUDP qi < length resp") (auto simp: serveUDP_def truncateTo_def TruncatedResponse_def Let_def)
qed

lemma slave_answers_TCP:
  assumes "slave_ok uni s" "New msg = Some (Inr req)" "length msg \<le> 65535"
  obtains out labels where "handleTCPConn uni uup sha1 s (put16 (u16_of (length msg)) @ msg) =
      Some (Some (put16 (u16_of (length out)) @ out, labels))" "length out \<le> 8192"
proof -
  obtain resp qi where h: "handleDNS uni uup sha1 s msg = Some (Some (req, resp, qi))"
    using handleDNS_ok [OF assms(1), of msg uup sha1] assms(2) by auto
  obtain txid flags where i: "ID req = Some txid" "Flags req = Some flags" using New_header [OF assms(2)] by metis
  note f = frame_message [OF assms(3)]
  show ?thesis
    using that h i f by (cases "maxTCPResponseSize < length resp")
      (auto simp: handleTCPConn_def truncateTo_def TruncatedResponse_def Let_def maxTCPResponseSize_def)
qed

text \<open>The limiter of UDP lets the query pass.\<close>

definition passes :: "router_env \<Rightarrow> Router \<Rightarrow> Addr \<Rightarrow> time \<Rightarrow> bool" where
  "passes env rt addr now =
     (case limiters rt UDP of
        None \<Rightarrow> True
      | Some l \<Rightarrow> (case checkAt (rtRnd env) (rtSort env) l addr now of Some (Allow, l') \<Rightarrow> True | _ \<Rightarrow> False))"

lemma serveUDPPacket_passed:
  assumes "New datagram = Some (Inr req)" "length datagram \<le> 4096" "passes env rt addr now"
    and "be16 datagram 0 = Some txid" "be16 datagram 2 = Some flags"
  shows "\<exists>rt'. serveUDPPacket env rt now up addr datagram = Some (Some (answer rt up UDP req txid flags), rt')"
proof -
  have i: "ID req = Some txid" "Flags req = Some flags" using New_request [OF assms(1)] assms(4,5) by simp_all
  have t: "take rtMaxUDPMsgSize datagram = datagram" using assms(2) by (simp add: rtMaxUDPMsgSize_def)
  have ans: "answer (setLimiter UDP l rt) up UDP req txid flags = answer rt up UDP req txid flags" for l
    unfolding answer_def using forward_cfg [of "setLimiter UDP l rt" rt] by simp
  show ?thesis
  proof (cases "limiters rt UDP")
    case None
    then show ?thesis using assms(1) t by (simp add: serveUDPPacket_def resolve_eq [OF i])
  next
    case (Some l)
    then obtain l' where "checkAt (rtRnd env) (rtSort env) l addr now = Some (Allow, l')"
      using assms(3) by (auto simp: passes_def split: option.splits Decision.splits)
    then show ?thesis using Some assms(1) t by (simp add: serveUDPPacket_def resolve_eq [OF i] ans)
  qed
qed

lemma stream_eq:
  assumes "New msg = Some (Inr req)" "length msg \<le> 65535" "be16 msg 0 = Some txid" "be16 msg 2 = Some flags"
  shows "\<exists>rt'. handleDNSStreamConn env rt up p (put16 (u16_of (length msg)) @ msg) =
    Some (Some (put16 (u16_of (length (answer rt up p req txid flags))) @ answer rt up p req txid flags), rt')"
proof -
  have i: "ID req = Some txid" "Flags req = Some flags" using New_request [OF assms(1)] assms(3,4) by simp_all
  show ?thesis using frame_message [OF assms(2)] assms(1) by (simp add: handleDNSStreamConn_def resolve_eq [OF i])
qed

subsection \<open>Samples\<close>

definition sample_renv :: router_env where
  "sample_renv = \<lparr> rtUni = (\<lambda>s. s), rtRnd = (\<lambda>x. x), rtSort = sort_key snd, rtParseDuration = (\<lambda>s. None) \<rparr>"

definition sample_router :: Router where
  "sample_router = NewRouter sample_renv 0 zeroConfig"

definition sample_upstream :: "bool \<Rightarrow> upstream" where
  "sample_upstream useTCP = \<lparr> lookupHost = (\<lambda>name. Some [lit ''10.0.0.1'']),
     connectTo = (\<lambda>addr. slaveConn (\<lambda>s. s) (\<lambda>s. s) toy_hash sample_slave useTCP), eventsOf = [Arrives 0] \<rparr>"

lemma sample_passes: "passes sample_renv sample_router addr now"
  by (simp add: passes_def sample_router_def NewRouter_def zeroConfig_def zeroRateLimit_def newLimiter_def Let_def)

lemma sample_first: "firstSlave sample_router (sample_upstream t) = Some (slaveConn (\<lambda>s. s) (\<lambda>s. s) toy_hash sample_slave t)"
  by (simp add: firstSlave_def sample_upstream_def)

lemma sample_query_plain:
  assumes "New sample_query = Some (Inr req)"
  shows "\<not> refused req" "length sample_query \<le> 4096"
proof -
  have "(case New sample_query of Some (Inr req) \<Rightarrow> \<not> refused req | _ \<Rightarrow> False)" by code_simp
  then show "\<not> refused req" using assms by simp
  have "length sample_query < 50" by code_simp
  then show "length sample_query \<le> 4096" by simp
qed

lemma sample_env_ok: "float64_rounding (rtRnd sample_renv)" "sorts_slice (rtSort sample_renv)" "limits_ok zeroConfig"
  by (simp_all add: sample_renv_def float64_rounding_id sorts_by_time limits_ok_def limit_ok_def zeroConfig_def zeroRateLimit_def Let_def)

subsection \<open>Properties\<close>

text \<open>C15: The router is a transparent proxy. If the first response comes from a slave whose database
  is in order, then a well-formed query (at most 4096 bytes, not refused, not limited) gets over UDP
  exactly the bytes the slave answers, and over TCP exactly the framed message the slave writes: the
  router neither changes nor truncates an answer.\<close>

theorem router_relays_slave:
  assumes "slave_ok uni s" "New msg = Some (Inr req)" "\<not> refused req" "length msg \<le> 4096"
  shows "(passes env rt addr now \<and> firstSlave rt up = Some (slaveConn uni uup sha1 s False) \<longrightarrow>
      (\<exists>out labels rt'. serveUDP uni uup sha1 s msg = Some (Some (out, labels))
         \<and> serveUDPPacket env rt now up addr msg = Some (Some out, rt')))
    \<and> (firstSlave rt up = Some (slaveConn uni uup sha1 s True) \<longrightarrow>
      (\<exists>framed labels rt'. handleTCPConn uni uup sha1 s (put16 (u16_of (length msg)) @ msg) = Some (Some (framed, labels))
         \<and> handleDNSStreamConn env rt up TCP (put16 (u16_of (length msg)) @ msg) = Some (Some framed, rt')))"
proof -
  obtain txid flags where h: "be16 msg 0 = Some txid" "be16 msg 2 = Some flags" "Bytes req = msg"
    using New_header [OF assms(2)] by metis
  have len: "length msg \<le> 65535" using assms(4) by simp
  obtain out labels where u: "serveUDP uni uup sha1 s msg = Some (Some (out, labels))" "length out \<le> 4096"
    using slave_answers_UDP [OF assms(1,2)] by metis
  obtain out' labels' where t: "handleTCPConn uni uup sha1 s (put16 (u16_of (length msg)) @ msg) =
      Some (Some (put16 (u16_of (length out')) @ out', labels'))" "length out' \<le> 8192"
    using slave_answers_TCP [OF assms(1,2) len] by metis
  have fu: "forwardTo False (slaveConn uni uup sha1 s False (sentQuery False msg)) = Some out"
    using u by (simp add: forwardTo_def slaveConn_def sentQuery_def rtMaxUDPMsgSize_def)
  have ft: "forwardTo True (slaveConn uni uup sha1 s True (sentQuery True msg)) = Some out'"
    using t frame_message [of out'] by (simp add: forwardTo_def slaveConn_def sentQuery_def)
  have "answer rt up UDP req txid flags = out" if "firstSlave rt up = Some (slaveConn uni uup sha1 s False)"
    using forward_first [OF that fu] assms(3) h(3) by (simp add: answer_def Bytes_def)
  moreover have "answer rt up TCP req txid flags = out'" if "firstSlave rt up = Some (slaveConn uni uup sha1 s True)"
    using forward_first [OF that ft] assms(3) h(3) by (simp add: answer_def Bytes_def)
  ultimately show ?thesis
    using u t serveUDPPacket_passed [OF assms(2,4) _ h(1,2), of env rt addr now up]
      stream_eq [OF assms(2) len h(1,2), of env rt up TCP] by auto
qed

theorem router_relays_slave_witness:
  "(\<exists>out labels rt'. serveUDP (\<lambda>s. s) (\<lambda>s. s) toy_hash sample_slave sample_query = Some (Some (out, labels))
      \<and> serveUDPPacket sample_renv sample_router 0 (sample_upstream False) OtherAddr sample_query = Some (Some out, rt'))"
proof -
  obtain req where r: "New sample_query = Some (Inr req)" using sample_query_accepted by blast
  from router_relays_slave [OF sample_slave_ok r sample_query_plain [OF r], of sample_renv sample_router OtherAddr 0 "sample_upstream False"]
  show ?thesis using sample_passes sample_first by blast
qed



text \<open>C22: Over every run, with any number of connections being served at a time, at most the
  configured number of TCP, HTTPS and TLS connections hold a token, the limiters satisfy their
  invariant, and every front end returns for every input.\<close>

theorem router_reachable_serves:
  assumes "router_reachable env cfg opn rt" "float64_rounding (rtRnd env)" "sorts_slice (rtSort env)" "limits_ok cfg"
  shows "opn TCP \<le> maxConns (connTCP (MaxConnections (cfgRouter cfg)))
    \<and> opn DoH \<le> maxConns (connDoH (MaxConnections (cfgRouter cfg)))
    \<and> opn DoT \<le> maxConns (connDoT (MaxConnections (cfgRouter cfg)))
    \<and> (\<exists>out rt'. serveUDPPacket env rt now up addr datagram = Some (out, rt'))
    \<and> (\<exists>out rt'. handleStreamConn env rt now up p remote inp = Some (out, rt'))
    \<and> (\<exists>reply rt'. handleDoH env rt now up r = Some (reply, rt'))"
proof -
  have ok: "router_ok env rt" "semHeld rt = opn" "semCap rt = semCap (NewRouter env 0 cfg)"
    using reachable_inv [OF assms] by simp_all
  have "opn q \<le> semCap (NewRouter env 0 cfg) q" for q using ok by (auto simp: router_ok_def)
  from this [of TCP] this [of DoH] this [of DoT] show ?thesis
    using serveUDPPacket_ok [OF ok(1)] handleStreamConn_ok [OF ok(1)] handleDoH_ok [OF ok(1)]
    by (simp add: NewRouter_def Let_def) blast
qed

theorem router_reachable_serves_witness:
  "\<exists>opn rt out rt'. router_reachable sample_renv zeroConfig opn rt \<and> opn TCP = 1
     \<and> serveUDPPacket sample_renv rt 0 (sample_upstream False) OtherAddr [] = Some (out, rt')"
proof -
  obtain rt where "acquire TCP sample_router = Some rt"
    by (simp add: acquire_def sample_router_def NewRouter_def zeroConfig_def maxConns_def defaultMaxConnections_def Let_def)
  then have r: "router_reachable sample_renv zeroConfig ((\<lambda>p. 0)(TCP := 0 + 1)) rt"
    using router_reachable.accept [OF router_reachable.start] by (simp add: sample_router_def)
  from router_reachable_serves [OF r sample_env_ok, where up = "sample_upstream False" and addr = OtherAddr and datagram = "[]" and now = 0]
  show ?thesis using r by (metis fun_upd_same add_0)
qed

text \<open>A query gets the same answer over HTTPS, whether it is sent by GET (in base64url) or by POST, and
  over TCP, where it is framed.\<close>

theorem doh_same_as_tcp:
  assumes "New msg = Some (Inr req)" "length msg \<le> 4096" "acquire DoH rt = Some rt1" "limiters rt DoH = None"
  shows "\<exists>resp rt2 rt3. handleDoH env rt now up \<lparr> dohMethod = lit ''GET'', dohParam = encode64 urlAlphabet msg,
        dohContentType = ct, dohBody = b, dohRemote = peer \<rparr> = Some (DnsMessage resp, rt2)
    \<and> handleDoH env rt now up \<lparr> dohMethod = lit ''POST'', dohParam = q,
        dohContentType = lit ''application/dns-message'', dohBody = Some msg, dohRemote = peer \<rparr> = Some (DnsMessage resp, rt2)
    \<and> handleDNSStreamConn env rt up TCP (put16 (u16_of (length msg)) @ msg)
        = Some (Some (put16 (u16_of (length resp)) @ resp), rt3)"
proof -
  obtain txid flags where h: "be16 msg 0 = Some txid" "be16 msg 2 = Some flags" "ID req = Some txid" "Flags req = Some flags"
    using New_header [OF assms(1)] by metis
  have cfg: "rtCfg rt1 = rtCfg rt" "limiters rt1 = limiters rt" using assms(3) by (auto simp: acquire_def split: if_splits)
  have lim: "limitPeer env rt1 now DoH peer = Some (None, rt1)" using assms(4) cfg(2) by (simp add: limitPeer_def)
  have ans: "answer rt1 up DoH req txid flags = answer rt up TCP req txid flags"
    unfolding answer_def using forward_cfg [OF cfg(1)] by simp
  have ne: "encode64 urlAlphabet msg \<noteq> []"
  proof
    assume "encode64 urlAlphabet msg = []"
    then have "Some msg = decode64 urlAlphabet []" using decode_encode64 [OF alphabets(2), of msg] by simp
    then have "msg = []" by (simp add: decode64_def pieces.simps)
    then show False using assms(1) h by (simp add: be16_def)
  qed
  have "dohMessage \<lparr> dohMethod = lit ''GET'', dohParam = encode64 urlAlphabet msg, dohContentType = ct, dohBody = b, dohRemote = peer \<rparr> = Inr msg"
    using ne by (simp add: dohMessage_def RawURLDecode_Encode)
  moreover have "dohMessage \<lparr> dohMethod = lit ''POST'', dohParam = q, dohContentType = lit ''application/dns-message'',
      dohBody = Some msg, dohRemote = peer \<rparr> = Inr msg"
    using assms(2) by (simp add: dohMessage_def maxDoHBodySize_def Let_def lit_def)
  ultimately show ?thesis
    using stream_eq [OF assms(1) _ h(1,2), of env rt up TCP] assms(1,2,3) lim ans
    by (auto simp: handleDoH_def resolve_eq [OF h(3,4)])
qed

theorem doh_same_as_tcp_witness:
  "\<exists>resp rt2. handleDoH sample_renv sample_router 0 (sample_upstream True) \<lparr> dohMethod = lit ''GET'',
     dohParam = encode64 urlAlphabet sample_query, dohContentType = [], dohBody = None, dohRemote = lit ''192.0.2.1:5'' \<rparr>
     = Some (DnsMessage resp, rt2)"
proof -
  obtain req where r: "New sample_query = Some (Inr req)" using sample_query_accepted by blast
  obtain rt1 where a: "acquire DoH sample_router = Some rt1"
    by (simp add: acquire_def sample_router_def NewRouter_def zeroConfig_def maxConns_def defaultMaxConnections_def Let_def)
  have l: "limiters sample_router DoH = None"
    by (simp add: sample_router_def NewRouter_def zeroConfig_def zeroRateLimit_def newLimiter_def Let_def)
  from doh_same_as_tcp [OF r sample_query_plain(2) [OF r] a l, of sample_renv 0 "sample_upstream True" "[]" None] show ?thesis by blast
qed

end
