(* ===== verification/Update_Wire.thy ===== *)
theory Update_Wire
  imports DNS_Query
begin

text \<open>
  The wire format of DNS UPDATE messages, after \<^verbatim>\<open>internal/rfc2136/wire.go\<close>: names
  with compression pointers, questions, records, the four sections with the TSIG record split
  off, and the 12-byte response. Every read is a checked one. The struct \<open>RR\<close> of this package
  is \<open>WireRR\<close>, \<open>Header\<close> is \<open>UHeader\<close> and \<open>Message\<close> is \<open>UMessage\<close>.
\<close>

subsection \<open>Constants and data\<close>

definition OpcodeUpdate :: byte where "OpcodeUpdate = 5"
definition URcodeNoError :: byte where "URcodeNoError = 0"
definition URcodeServFail :: byte where "URcodeServFail = 2"
definition URcodeNotimp :: byte where "URcodeNotimp = 4"
definition URcodeRefused :: byte where "URcodeRefused = 5"
definition URcodeNotZone :: byte where "URcodeNotZone = 10"
definition ClassIN :: "16 word" where "ClassIN = 1"
definition ClassANY :: "16 word" where "ClassANY = 255"
definition ClassNONE :: "16 word" where "ClassNONE = 254"
definition TypeTSIG :: "16 word" where "TypeTSIG = 250"

datatype wire_error =
    MessageTooShort | QuestionTruncated | RRHeaderTruncated | RRRdataTruncated
  | NameOverrun | PointerTruncated | PointerLoop | InvalidLabelByte byte | LabelOverrun

record UHeader =
  hID :: "16 word"
  hQR :: bool
  hOpcode :: byte
  hAA :: bool
  hTC :: bool
  hRD :: bool
  hRA :: bool
  hZ :: byte
  hRcode :: byte
  hQDCount :: "16 word"
  hANCount :: "16 word"
  hNSCount :: "16 word"
  hARCount :: "16 word"

record WireRR =
  uName :: gostring
  uType :: "16 word"
  uClass :: "16 word"
  uTTL :: "32 word"
  uRdlength :: "16 word"
  uRdata :: bytes

record UMessage =
  mHeader :: UHeader
  mZone :: "WireRR option"
  mPrerequisites :: "WireRR list"
  mUpdates :: "WireRR list"
  mAdditional :: "WireRR list"
  mTSIG :: "WireRR option"
  mRaw :: bytes

subsection \<open>Names\<close>

text \<open>\<open>encodeName\<close>: the labels of the name without its trailing dot, each with its length.\<close>

definition encodeName :: "gostring \<Rightarrow> bytes" where
  "encodeName fqdn =
     (if fqdn = lit ''.'' \<or> fqdn = [] then [0]
      else let fqdn' = (if last fqdn = dot then butlast fqdn else fqdn)
           in concat (map (\<lambda>label. byte_of (length label) # label) (Split dot fqdn')) @ [0])"

text \<open>The loop of \<open>parseName\<close>: the position \<open>visited\<close>, the name so far, the number of bytes
  counted so far, and the pointer targets seen.\<close>

function nameLoop ::
  "bytes \<Rightarrow> nat \<Rightarrow> nat \<Rightarrow> gostring \<Rightarrow> nat \<Rightarrow> nat list \<Rightarrow> (wire_error + gostring \<times> nat) go" where
  "nameLoop data offset visited name consumed seen =
     (if length data \<le> visited then Some (Inl NameOverrun)
      else do {
        b \<leftarrow> goindex data visited;
        (if b = 0
         then Some (Inr (name,
                (if consumed = 0 then 1
                 else if offset + consumed \<le> visited then visited - offset + 1 else consumed)))
         else if b AND 0xC0 = 0xC0
         then (if length data \<le> visited + 1 then Some (Inl PointerTruncated)
               else do {
                 w \<leftarrow> be16 data visited;
                 (let ptr = unat (w AND 0x3FFF)
                  in if ptr \<in> set seen then Some (Inl PointerLoop)
                     else nameLoop data offset ptr name
                            (if consumed = 0 then visited - offset + 2 else consumed) (ptr # seen))
               })
         else if b AND 0xC0 \<noteq> 0 then Some (Inl (InvalidLabelByte b))
         else if length data < visited + 1 + unat b then Some (Inl LabelOverrun)
         else do {
           label \<leftarrow> goslice data (visited + 1) (visited + 1 + unat b);
           nameLoop data offset (visited + 1 + unat b)
             ((if name \<noteq> [] then name @ [dot] else name) @ label)
             (if consumed = 0 \<or> offset + consumed \<le> visited + 1 + unat b
              then visited + 1 + unat b - offset + 1 else consumed) seen
         })
      })"
  by pat_completeness auto

lemma pointer_bound: "unat ((w :: 16 word) AND 0x3FFF) < 16384"
proof -
  have "w AND 0x3FFF = take_bit 14 w" by (simp add: take_bit_eq_mask mask_eq_exp_minus_1)
  then have "unat (w AND 0x3FFF) = take_bit 14 (unat w)" by (simp add: unsigned_take_bit_eq)
  then show ?thesis by (simp add: take_bit_eq_mod)
qed

text \<open>A new pointer target uses up one of the 16384 possible ones; between two pointers the
  position advances.\<close>

lemma pointer_progress:
  fixes ptr :: nat
  assumes "ptr < 16384" "ptr \<notin> set seen"
  shows "16384 - card (set (ptr # seen) \<inter> {..<16384}) < 16384 - card (set seen \<inter> {..<16384})"
proof -
  let ?S = "set seen \<inter> {..<16384}"
  have "card (insert ptr ?S) \<le> card {..<16384 :: nat}" using assms(1) by (intro card_mono) auto
  moreover have "card (insert ptr ?S) = Suc (card ?S)" using assms(2) by simp
  moreover have "set (ptr # seen) \<inter> {..<16384} = insert ptr ?S" using assms(1) by auto
  ultimately show ?thesis by simp
qed

termination nameLoop
  by (relation "measures [\<lambda>(data, offset, visited, name, consumed, seen). 16384 - card (set seen \<inter> {..<16384}),
        \<lambda>(data, offset, visited, name, consumed, seen). length data - visited]")
    (use pointer_progress pointer_bound in \<open>auto simp del: set_simps\<close>)

declare nameLoop.simps [simp del]

definition parseName :: "bytes \<Rightarrow> nat \<Rightarrow> (wire_error + gostring \<times> nat) go" where
  "parseName data offset =
     tryE (nameLoop data offset offset [] 0 []) (\<lambda>(name, consumed).
       Some (Inr (if name = [] then lit ''.'' else name @ lit ''.'', consumed)))"

subsection \<open>Questions and records\<close>

definition parseQuestion :: "bytes \<Rightarrow> nat \<Rightarrow> (wire_error + WireRR \<times> nat) go" where
  "parseQuestion data start =
     tryE (parseName data start) (\<lambda>(name, n).
       let offset = start + n
       in if length data < offset + 4 then Some (Inl QuestionTruncated)
          else do {
            qtype \<leftarrow> be16 data offset;
            qclass \<leftarrow> be16 data (offset + 2);
            Some (Inr (\<lparr> uName = name, uType = qtype, uClass = qclass, uTTL = 0, uRdlength = 0, uRdata = [] \<rparr>,
                       offset + 4 - start))
          })"

definition parseRR :: "bytes \<Rightarrow> nat \<Rightarrow> (wire_error + WireRR \<times> nat) go" where
  "parseRR data start =
     tryE (parseName data start) (\<lambda>(name, n).
       let offset = start + n
       in if length data < offset + 10 then Some (Inl RRHeaderTruncated)
          else do {
            rrtype \<leftarrow> be16 data offset;
            cls \<leftarrow> be16 data (offset + 2);
            ttl \<leftarrow> be32 data (offset + 4);
            rdlength \<leftarrow> be16 data (offset + 8);
            (if length data < offset + 10 + unat rdlength then Some (Inl RRRdataTruncated)
             else do {
               rdata \<leftarrow> goslice data (offset + 10) (offset + 10 + unat rdlength);
               Some (Inr (\<lparr> uName = name, uType = rrtype, uClass = cls, uTTL = ttl, uRdlength = rdlength,
                            uRdata = rdata \<rparr>,
                          offset + 10 + unat rdlength - start))
             })
          })"

subsection \<open>Messages\<close>

definition parseHeader :: "bytes \<Rightarrow> UHeader go" where
  "parseHeader data = do {
     idv \<leftarrow> be16 data 0;
     flags \<leftarrow> be16 data 2;
     qd \<leftarrow> be16 data 4;
     an \<leftarrow> be16 data 6;
     ns \<leftarrow> be16 data 8;
     ar \<leftarrow> be16 data 10;
     Some \<lparr> hID = idv,
            hQR = (drop_bit 15 flags AND 1 = 1),
            hOpcode = ucast (drop_bit 11 flags AND 0xf),
            hAA = (drop_bit 10 flags AND 1 = 1),
            hTC = (drop_bit 9 flags AND 1 = 1),
            hRD = (drop_bit 8 flags AND 1 = 1),
            hRA = (drop_bit 7 flags AND 1 = 1),
            hZ = ucast (drop_bit 4 flags AND 0x7),
            hRcode = ucast (flags AND 0xf),
            hQDCount = qd, hANCount = an, hNSCount = ns, hARCount = ar \<rparr>
   }"

text \<open>The loops over the zone section and over a section of records: \<open>n\<close> entries are left.\<close>

fun parseQuestions :: "bytes \<Rightarrow> nat \<Rightarrow> nat \<Rightarrow> (wire_error + WireRR list \<times> nat) go" where
  "parseQuestions data 0 offset = Some (Inr ([], offset))"
| "parseQuestions data (Suc n) offset =
     tryE (parseQuestion data offset) (\<lambda>(rr, k).
       tryE (parseQuestions data n (offset + k)) (\<lambda>(rrs, off). Some (Inr (rr # rrs, off))))"

fun parseRRs :: "bytes \<Rightarrow> nat \<Rightarrow> nat \<Rightarrow> (wire_error + WireRR list \<times> nat) go" where
  "parseRRs data 0 offset = Some (Inr ([], offset))"
| "parseRRs data (Suc n) offset =
     tryE (parseRR data offset) (\<lambda>(rr, k).
       tryE (parseRRs data n (offset + k)) (\<lambda>(rrs, off). Some (Inr (rr # rrs, off))))"

text \<open>The message without the TSIG record at \<open>at\<close>, with the additional count one lower.\<close>

definition stripTSIG :: "bytes \<Rightarrow> nat \<Rightarrow> bytes go" where
  "stripTSIG data at = do {
     raw' \<leftarrow> goslice data 0 at;
     arcount \<leftarrow> be16 raw' 10;
     Some (if arcount > 0 then take 10 raw' @ put16 (arcount - 1) @ drop 12 raw' else raw')
   }"

text \<open>The loop over the additional section: \<open>n\<close> records are left, the last of which may be a
  TSIG record. The result is the other records, and the TSIG record with the stripped message.\<close>

fun parseAdditional :: "bytes \<Rightarrow> nat \<Rightarrow> nat \<Rightarrow> (wire_error + WireRR list \<times> (WireRR \<times> bytes) option) go" where
  "parseAdditional data 0 offset = Some (Inr ([], None))"
| "parseAdditional data (Suc n) offset =
     tryE (parseRR data offset) (\<lambda>(rr, k).
       if uType rr = TypeTSIG \<and> n = 0
       then do {
         raw' \<leftarrow> stripTSIG data (offset + k - k);
         Some (Inr ([], Some (rr, raw')))
       }
       else tryE (parseAdditional data n (offset + k)) (\<lambda>(rrs, t). Some (Inr (rr # rrs, t))))"

definition ParseMessage :: "bytes \<Rightarrow> (wire_error + UMessage) go" where
  "ParseMessage data =
     (if length data < 12 then Some (Inl MessageTooShort)
      else do {
        hdr \<leftarrow> parseHeader data;
        tryE (parseQuestions data (unat (hQDCount hdr)) 12) (\<lambda>(zones, off1).
        tryE (parseRRs data (unat (hANCount hdr)) off1) (\<lambda>(prereqs, off2).
        tryE (parseRRs data (unat (hNSCount hdr)) off2) (\<lambda>(updates, off3).
        tryE (parseAdditional data (unat (hARCount hdr)) off3) (\<lambda>(additional, tsig).
          Some (Inr \<lparr> mHeader = hdr,
                      mZone = (case zones of [] \<Rightarrow> None | z # _ \<Rightarrow> Some z),
                      mPrerequisites = prereqs, mUpdates = updates,
                      mAdditional = additional, mTSIG = map_option fst tsig,
                      mRaw = (case tsig of None \<Rightarrow> data | Some (_, raw') \<Rightarrow> raw') \<rparr>)))))
      })"

definition UBuildResponse :: "UMessage \<Rightarrow> byte \<Rightarrow> bytes" where
  "UBuildResponse msg rcode =
     (let flags = push_bit 15 1 OR push_bit 11 (ucast (hOpcode (mHeader msg))) OR (ucast rcode AND 0xf)
      in put16 (hID (mHeader msg)) @ put16 flags @ replicate 8 0)"

subsection \<open>Termination and totality\<close>

lemma nameLoop_total: "\<exists>r. nameLoop data offset visited name consumed seen = Some r"
proof (induction data offset visited name consumed seen rule: nameLoop.induct)
  case (1 data offset visited name consumed seen)
  show ?case
  proof (cases "visited < length data")
    case True
    then show ?thesis using 1 by (subst nameLoop.simps) (auto simp: Let_def be16_def)
  next
    case False
    then show ?thesis by (subst nameLoop.simps) simp
  qed
qed

lemma parseName_total: "parseName data offset \<noteq> None"
  using nameLoop_total [of data offset offset "[]" 0 "[]"] by (auto simp: parseName_def tryE_None)

lemma parseQuestion_total: "parseQuestion data start \<noteq> None"
  using parseName_total [of data start] by (auto simp: parseQuestion_def tryE_None Let_def be16_def split: if_splits)

lemma parseRR_total: "parseRR data start \<noteq> None"
  using parseName_total [of data start]
  by (auto simp: parseRR_def tryE_None Let_def be16_def be32_def split: if_splits)

lemma parseRR_inside:
  assumes "parseRR data start = Some (Inr (rr, k))" shows "start + k \<le> length data"
  using assms by (auto simp: parseRR_def tryE_Inr Let_def bind_eq_Some_conv split: if_splits)

lemma parseQuestions_total: "parseQuestions data n offset \<noteq> None"
  by (induction n arbitrary: offset) (auto simp: tryE_None parseQuestion_total simp del: not_None_eq)

lemma parseRRs_total: "parseRRs data n offset \<noteq> None"
  by (induction n arbitrary: offset) (auto simp: tryE_None parseRR_total simp del: not_None_eq)

lemma parseQuestions_offset: "parseQuestions data n offset = Some (Inr (rrs, off)) \<Longrightarrow> offset \<le> off"
  by (induction n arbitrary: offset rrs) (auto simp: tryE_Inr dest: add_leD1)

lemma parseRRs_offset: "parseRRs data n offset = Some (Inr (rrs, off)) \<Longrightarrow> offset \<le> off"
  by (induction n arbitrary: offset rrs) (auto simp: tryE_Inr dest: add_leD1)

lemma stripTSIG_total: "12 \<le> at \<Longrightarrow> at \<le> length data \<Longrightarrow> stripTSIG data at \<noteq> None"
  by (simp add: stripTSIG_def be16_def)

lemma parseAdditional_total: "12 \<le> offset \<Longrightarrow> parseAdditional data n offset \<noteq> None"
proof (induction n arbitrary: offset)
  case (Suc n)
  show ?case
  proof
    assume "parseAdditional data (Suc n) offset = None"
    then obtain rr k where r: "parseRR data offset = Some (Inr (rr, k))"
      and n: "stripTSIG data offset = None \<or> parseAdditional data n (offset + k) = None"
      using parseRR_total [of data offset] by (auto simp: tryE_None bind_eq_None_conv split: if_splits)
    have "stripTSIG data offset \<noteq> None" using stripTSIG_total [OF Suc.prems] parseRR_inside [OF r] by simp
    then show False using n Suc.IH [of "offset + k"] Suc.prems by simp
  qed
qed simp

subsection \<open>Uncompressed names\<close>

lemma label_byte:
  assumes "1 \<le> n" "n \<le> 63"
  shows "byte_of n \<noteq> 0" "byte_of n AND 0xC0 = 0" "unat (byte_of n) = n"
  using assms by (simp_all add: byte_of_eq_0 label_byte_plain unat_byte_of del: of_nat_eq_0_iff)

lemma nameLoop_wire:
  assumes "sized_labels ls" "offset \<le> length pre"
    "consumed = (if length pre = offset then 0 else length pre - offset + 1)"
  shows "nameLoop (pre @ wire_of ls @ post) offset (length pre) name consumed seen =
    Some (Inr (addLabels name ls, length pre - offset + length (wire_of ls)))"
  using assms
proof (induction ls arbitrary: pre name consumed)
  case Nil
  then show ?case by (subst nameLoop.simps) auto
next
  case (Cons l ls)
  let ?msg = "pre @ wire_of (l # ls) @ post" and ?pre' = "pre @ byte_of (length l) # l"
  have len: "1 \<le> length l" "length l \<le> 63" using Cons.prems by auto
  note lb = label_byte [OF len]
  have sl: "goslice ?msg (length pre + 1) (length pre + 1 + length l) = Some l"
    using goslice_append [of "pre @ [byte_of (length l)]" l "wire_of ls @ post"] by simp
  have c: "(if consumed = 0 \<or> offset + consumed \<le> length pre + 1 + length l
      then length pre + 1 + length l - offset + 1 else consumed) = length ?pre' - offset + 1"
    using Cons.prems(2,3) len by auto
  have "nameLoop ?msg offset (length pre) name consumed seen =
      nameLoop ?msg offset (length ?pre') ((if 0 < length name then name @ [dot] else name) @ l)
        (length ?pre' - offset + 1) seen"
    unfolding c [symmetric] using lb sl by (subst nameLoop.simps) (simp del: of_nat_eq_0_iff)
  also have "\<dots> = Some (Inr (addLabels name (l # ls), length pre - offset + length (wire_of (l # ls))))"
    using Cons.IH [of ?pre' "length ?pre' - offset + 1"] Cons.prems by simp
  finally show ?case .
qed

lemma addLabels_empty: "sized_labels ls \<Longrightarrow> addLabels [] ls = [] \<longleftrightarrow> ls = []"
proof (cases ls)
  case (Cons l ls')
  assume "sized_labels ls"
  then have "addLabels [] ls @ [dot] = fqdn_of ls" "1 \<le> length l" using addLabels_fqdn [of ls] Cons by auto
  then have "length (addLabels [] ls) + 1 = length (fqdn_of ls)" "1 \<le> length l"
    by (metis length_append_singleton Suc_eq_plus1, simp)
  then show ?thesis using Cons by auto
qed simp

lemma parseName_wire:
  assumes "sized_labels ls"
  shows "parseName (pre @ wire_of ls @ post) (length pre) =
    Some (Inr (if ls = [] then [dot] else fqdn_of ls, length (wire_of ls)))"
proof -
  have "addLabels [] ls = [] \<longleftrightarrow> ls = []" using addLabels_empty [OF assms] .
  then show ?thesis
    using nameLoop_wire [OF assms, of "length pre" pre 0 post "[]" "[]"] addLabels_fqdn [OF assms]
    by (auto simp: parseName_def lit_dot)
qed

interpretation update_name: name_reader parseName
proof unfold_locales
  fix ls :: "gostring list" and pre post :: bytes
  assume "fitting_labels ls" "ls \<noteq> []"
  then show "parseName (pre @ wire_of ls @ post) (length pre) = Some (Inr (fqdn_of ls, length (wire_of ls)))"
    using parseName_wire [OF fitting_sized] by simp
qed

lemma encodeName_wire:
  assumes "fitting_labels ls" "ls \<noteq> []" shows "encodeName (fqdn_of ls) = wire_of ls"
proof -
  have f: "fqdn_of ls = Join [dot] ls @ [dot]" using fqdn_of_Join assms(2) by blast
  obtain l ls' where ls: "ls = l # ls'" using assms(2) by (cases ls) auto
  then have "l \<noteq> []" "dot \<notin> set l" using assms(1) by auto
  then have "fqdn_of ls \<noteq> lit ''.''" "fqdn_of ls \<noteq> []" using ls
    by (auto simp: lit_dot append_eq_Cons_conv)
  moreover have "Split dot (Join [dot] ls) = ls"
  proof -
    have "Split dot (fqdn_of ls @ []) = ls @ [[]]" using Split_fqdn_of [of ls "[]"] assms(1) by simp
    moreover have "Split dot (Join [dot] ls @ dot # []) = Split dot (Join [dot] ls) @ [[]]"
      using Split_append [of dot "Join [dot] ls" "[]"] by simp
    ultimately show ?thesis using f by simp
  qed
  ultimately show ?thesis using f by (simp add: encodeName_def wire_of_def)
qed

lemma ParseMessage_not_None: "ParseMessage data \<noteq> None"
proof
  assume a: "ParseMessage data = None"
  then have l: "12 \<le> length data" by (auto simp: ParseMessage_def split: if_splits)
  then obtain hdr where h: "parseHeader data = Some hdr" by (simp add: parseHeader_def be16_def)
  obtain zones off1 prereqs off2 updates off3 where
    z: "parseQuestions data (unat (hQDCount hdr)) 12 = Some (Inr (zones, off1))"
    and p: "parseRRs data (unat (hANCount hdr)) off1 = Some (Inr (prereqs, off2))"
    and u: "parseRRs data (unat (hNSCount hdr)) off2 = Some (Inr (updates, off3))"
    and n: "parseAdditional data (unat (hARCount hdr)) off3 = None"
    using a l h parseQuestions_total parseRRs_total
    by (auto simp: ParseMessage_def tryE_None simp del: not_None_eq)
  have "12 \<le> off3" using parseQuestions_offset [OF z] parseRRs_offset [OF p] parseRRs_offset [OF u] by simp
  then show False using parseAdditional_total n by blast
qed

text \<open>A name that is one compression pointer to an uncompressed name.\<close>

lemma pointer_word:
  assumes "ptr < 16384"
  shows "unat (((0xC000 :: 16 word) OR of_nat ptr) AND 0x3FFF) = ptr"
    "ucast (drop_bit 8 ((0xC000 :: 16 word) OR of_nat ptr)) AND (0xC0 :: byte) = 0xC0"
proof -
  have t: "(of_nat ptr :: 16 word) = take_bit 14 (of_nat ptr)"
  proof -
    have "take_bit 14 ptr = ptr" using assms by (simp add: take_bit_eq_mod)
    then show ?thesis by (simp only: take_bit_of_nat)
  qed
  have c: "(0xC000 :: 16 word) = push_bit 14 (mask 2)" "(0x3FFF :: 16 word) = mask 14" "(0xC0 :: byte) = push_bit 6 (mask 2)"
    by (simp_all add: mask_eq_exp_minus_1 push_bit_eq_mult)
  have "(push_bit 14 (mask 2) OR of_nat ptr) AND mask 14 = (of_nat ptr :: 16 word)"
    by (subst (1 2) t) (rule bit_word_eqI, auto simp: bit_simps)
  then show "unat (((0xC000 :: 16 word) OR of_nat ptr) AND 0x3FFF) = ptr"
    unfolding c using assms by (simp add: unat_of_nat)
  show "ucast (drop_bit 8 ((0xC000 :: 16 word) OR of_nat ptr)) AND (0xC0 :: byte) = 0xC0"
    unfolding c by (rule bit_word_eqI) (auto simp: bit_simps)
qed

text \<open>After a pointer the count is fixed as long as the labels lie before it.\<close>

lemma nameLoop_behind:
  assumes "sized_labels ls" "length pre + length (wire_of ls) \<le> offset" "0 < consumed"
  shows "nameLoop (pre @ wire_of ls @ post) offset (length pre) name consumed seen =
    Some (Inr (addLabels name ls, consumed))"
  using assms
proof (induction ls arbitrary: pre name)
  case Nil
  then show ?case by (subst nameLoop.simps) auto
next
  case (Cons l ls)
  let ?msg = "pre @ wire_of (l # ls) @ post" and ?pre' = "pre @ byte_of (length l) # l"
  have len: "1 \<le> length l" "length l \<le> 63" using Cons.prems by auto
  note lb = label_byte [OF len]
  have sl: "goslice ?msg (length pre + 1) (length pre + 1 + length l) = Some l"
    using goslice_append [of "pre @ [byte_of (length l)]" l "wire_of ls @ post"] by simp
  have "nameLoop ?msg offset (length pre) name consumed seen =
      nameLoop ?msg offset (length ?pre') ((if 0 < length name then name @ [dot] else name) @ l) consumed seen"
    using lb sl Cons.prems(2,3) by (subst nameLoop.simps) (simp del: of_nat_eq_0_iff)
  also have "\<dots> = Some (Inr (addLabels name (l # ls), consumed))"
    using Cons.IH [of ?pre'] Cons.prems by simp
  finally show ?case .
qed

lemma parseName_pointer:
  assumes "sized_labels ls" "length pre < 16384"
  shows "parseName (pre @ wire_of ls @ mid @ put16 (0xC000 OR of_nat (length pre)) @ post)
      (length pre + length (wire_of ls) + length mid) =
    Some (Inr (if ls = [] then [dot] else fqdn_of ls, 2))"
proof -
  let ?w = "(0xC000 :: 16 word) OR of_nat (length pre)"
  let ?msg = "pre @ wire_of ls @ mid @ put16 ?w @ post" and ?off = "length pre + length (wire_of ls) + length mid"
  have w: "be16 ?msg ?off = Some ?w" using be16_at [of "pre @ wire_of ls @ mid" ?off ?w post] by simp
  have b: "goindex ?msg ?off = Some (ucast (drop_bit 8 ?w))"
    using goindex_at [of "pre @ wire_of ls @ mid" ?off "ucast (drop_bit 8 ?w)" "ucast ?w # post"]
    by (simp add: put16_def)
  have nz: "ucast (drop_bit 8 ?w) \<noteq> (0 :: byte)" using pointer_word(2) [OF assms(2)] by auto
  have "nameLoop ?msg ?off ?off [] 0 [] = nameLoop ?msg ?off (length pre) [] 2 [length pre]"
    using w b nz pointer_word [OF assms(2)] by (subst nameLoop.simps) (simp add: Let_def numeral_2_eq_2)
  also have "\<dots> = Some (Inr (addLabels [] ls, 2))"
    using nameLoop_behind [OF assms(1), of pre ?off 2 "mid @ put16 ?w @ post"] by simp
  finally show ?thesis
    using addLabels_fqdn [OF assms(1)] addLabels_empty [OF assms(1)] by (auto simp: parseName_def lit_dot)
qed

subsection \<open>Properties\<close>

text \<open>C37: Parsing an UPDATE message always ends and never reads outside the message, whatever the
  bytes are. Compression pointers cannot make it loop, since a pointer target is followed at
  most once and there are 16384 of them.\<close>

theorem ParseMessage_total: "\<exists>r. ParseMessage data = Some r"
  using ParseMessage_not_None [of data] by blast

text \<open>A name written by \<open>encodeName\<close> is read back, with its exact length, wherever it stands
  in the message; and a compression pointer to it, later in the message, is read as the same
  name with two bytes consumed.\<close>

theorem parseName_roundtrip:
  assumes "fitting_labels ls" "ls \<noteq> []" "length pre < 16384"
  shows "parseName (pre @ encodeName (fqdn_of ls) @ post) (length pre) =
      Some (Inr (fqdn_of ls, length (encodeName (fqdn_of ls))))
    \<and> parseName (pre @ encodeName (fqdn_of ls) @ mid @ put16 (0xC000 OR of_nat (length pre)) @ post)
        (length pre + length (encodeName (fqdn_of ls)) + length mid) = Some (Inr (fqdn_of ls, 2))"
  using parseName_wire [OF fitting_sized [OF assms(1)]] parseName_pointer [OF fitting_sized [OF assms(1)] assms(3)]
    assms(2) by (simp add: encodeName_wire [OF assms(1,2)])

theorem parseName_roundtrip_witness:
  "parseName ([9] @ encodeName (lit ''www.example.'') @ [] @ put16 (0xC000 OR of_nat 1) @ [7])
     (1 + length (encodeName (lit ''www.example.''))) = Some (Inr (lit ''www.example.'', 2))"
proof -
  have h: "fitting_labels [lit ''www'', lit ''example'']" "[lit ''www'', lit ''example''] \<noteq> []" "length [9 :: byte] < 16384"
    and f: "fqdn_of [lit ''www'', lit ''example''] = lit ''www.example.''"
    by code_simp+
  from conjunct2 [OF parseName_roundtrip [OF h, where mid = "[]" and post = "[7]"]] show ?thesis
    unfolding f by simp
qed

text \<open>After a label, a compression pointer is counted as one byte instead of two: the name
  \<open>a\<close> followed by a pointer takes four bytes, but the parser reports three, so that the
  fields after such a name are read one byte too early.\<close>

theorem parseName_label_pointer_short:
  "parseName ([3, 99, 111, 109, 0] @ [1, 97] @ [0xC0, 0] @ [0, 1]) 5 = Some (Inr (lit ''a.com.'', 3))"
  by (simp add: parseName_def nameLoop.simps goindex_def goslice_def be16_def mk16_def lit_def dot_def)

end
