(* ===== verification/Update_TSIG.thy ===== *)
theory Update_TSIG
  imports Update_Wire
begin

text \<open>
  TSIG authentication, after \<^verbatim>\<open>internal/rfc2136/tsig.go\<close>. HMAC-SHA256 is the parameter
  \<open>hmac\<close> (secret, then data), and the current time in Unix seconds is the argument \<open>now\<close>.
\<close>

subsection \<open>Data\<close>

definition algorithmHMACSHA256 :: gostring where "algorithmHMACSHA256 = lit ''hmac-sha256.''"
definition tsigFudgeDefault :: "16 word" where "tsigFudgeDefault = 300"

type_synonym hmacfun = "bytes \<Rightarrow> bytes \<Rightarrow> bytes"

record TSIGRecord =
  tAlgorithm :: gostring
  tTimeSigned :: "64 word"
  tFudge :: "16 word"
  tMAC :: bytes
  tOrigID :: "16 word"
  tError :: "16 word"
  tOtherData :: bytes

datatype tsig_error =
    ErrTSIGMissing | ErrTSIGBadAlgorithm gostring | ErrTSIGBadSignature | ErrTSIGTimeWindowViolation
  | ErrTSIGName wire_error | ErrTSIGFixedTruncated | ErrTSIGMACTruncated | ErrTSIGTailTruncated | ErrTSIGOtherTruncated

subsection \<open>Reading the record data\<close>

text \<open>The loop over the six bytes of the time, most significant first.\<close>

definition timeOf :: "bytes \<Rightarrow> 64 word" where
  "timeOf bs = foldl (\<lambda>t b. push_bit 8 t OR ucast b) 0 bs"

definition ParseTSIGRdata :: "unilower \<Rightarrow> WireRR \<Rightarrow> (tsig_error + TSIGRecord) go" where
  "ParseTSIGRdata uni rr =
     (let data = uRdata rr
      in case parseName data 0 of
        None \<Rightarrow> None
      | Some (Inl err) \<Rightarrow> Some (Inl (ErrTSIGName err))
      | Some (Inr (algo, n)) \<Rightarrow>
          (if length data < n + 10 then Some (Inl ErrTSIGFixedTruncated)
           else do {
             timeBytes \<leftarrow> goslice data n (n + 6);
             fudge \<leftarrow> be16 data (n + 6);
             macSize \<leftarrow> be16 data (n + 8);
             let offset = n + 10;
             (if length data < offset + unat macSize then Some (Inl ErrTSIGMACTruncated)
              else do {
                mac \<leftarrow> goslice data offset (offset + unat macSize);
                let offset' = offset + unat macSize;
                (if length data < offset' + 6 then Some (Inl ErrTSIGTailTruncated)
                 else do {
                   origID \<leftarrow> be16 data offset';
                   tsigError \<leftarrow> be16 data (offset' + 2);
                   otherLen \<leftarrow> be16 data (offset' + 4);
                   (if 0 < unat otherLen \<and> length data < offset' + 6 + unat otherLen
                    then Some (Inl ErrTSIGOtherTruncated)
                    else do {
                      other \<leftarrow> goslice data (offset' + 6) (offset' + 6 + unat otherLen);
                      Some (Inr \<lparr> tAlgorithm = ToLower uni algo, tTimeSigned = timeOf timeBytes, tFudge = fudge,
                                  tMAC = mac, tOrigID = origID, tError = tsigError, tOtherData = other \<rparr>)
                    })
                 })
              })
           }))"

subsection \<open>Writing\<close>

definition put48 :: "64 word \<Rightarrow> bytes" where
  "put48 t = map (\<lambda>i. ucast (drop_bit (i * 8) t)) [5, 4, 3, 2, 1, 0]"

definition buildTSIGVariables ::
  "gostring \<Rightarrow> gostring \<Rightarrow> 64 word \<Rightarrow> 16 word \<Rightarrow> 16 word \<Rightarrow> bytes \<Rightarrow> bytes" where
  "buildTSIGVariables keyName algo timeSigned fudge tsigError otherData =
     encodeName keyName @ put16 ClassANY @ [0, 0, 0, 0] @ encodeName algo @ put48 timeSigned
     @ put16 fudge @ put16 tsigError @ put16 (u16_of (length otherData)) @ otherData"

definition encodeTSIGRdata ::
  "gostring \<Rightarrow> 64 word \<Rightarrow> 16 word \<Rightarrow> bytes \<Rightarrow> 16 word \<Rightarrow> 16 word \<Rightarrow> bytes \<Rightarrow> bytes" where
  "encodeTSIGRdata algo timeSigned fudge mac origID tsigError otherData =
     encodeName algo @ put48 timeSigned @ put16 fudge @ put16 (u16_of (length mac)) @ mac
     @ put16 origID @ put16 tsigError @ put16 (u16_of (length otherData)) @ otherData"

definition encodeRR :: "gostring \<Rightarrow> 16 word \<Rightarrow> 16 word \<Rightarrow> 32 word \<Rightarrow> bytes \<Rightarrow> bytes" where
  "encodeRR name rrtype cls ttl rdata =
     encodeName name @ put16 rrtype @ put16 cls @ put32 ttl @ put16 (u16_of (length rdata)) @ rdata"

definition encodeMACWire :: "bytes \<Rightarrow> bytes" where
  "encodeMACWire mac = put16 (u16_of (length mac)) @ mac"

definition computeMAC :: "hmacfun \<Rightarrow> bytes \<Rightarrow> bytes \<Rightarrow> WireRR \<Rightarrow> TSIGRecord \<Rightarrow> bytes" where
  "computeMAC hmac secret msgBytes tsigRR tsig =
     hmac secret (msgBytes @ buildTSIGVariables (uName tsigRR) (tAlgorithm tsig) (tTimeSigned tsig)
       (tFudge tsig) (tError tsig) (tOtherData tsig))"

subsection \<open>Validation\<close>

definition outsideWindow :: "64 word \<Rightarrow> 64 word \<Rightarrow> 16 word \<Rightarrow> bool" where
  "outsideWindow nowSec timeSigned fudge \<longleftrightarrow>
     nowSec > timeSigned + ucast fudge \<or> (timeSigned > nowSec \<and> timeSigned - nowSec > ucast fudge)"

definition ValidateTSIG :: "unilower \<Rightarrow> hmacfun \<Rightarrow> UMessage \<Rightarrow> bytes \<Rightarrow> 64 word \<Rightarrow> (tsig_error + unit) go" where
  "ValidateTSIG uni hmac msg secret nowSec =
     (case mTSIG msg of
        None \<Rightarrow> Some (Inl ErrTSIGMissing)
      | Some tsigRR \<Rightarrow>
          tryE (ParseTSIGRdata uni tsigRR) (\<lambda>tsig.
            if tAlgorithm tsig \<noteq> algorithmHMACSHA256 then Some (Inl (ErrTSIGBadAlgorithm (tAlgorithm tsig)))
            else
              (let fudge = (if tFudge tsig = 0 then tsigFudgeDefault else tFudge tsig)
               in if outsideWindow nowSec (tTimeSigned tsig) fudge
                  then Some (Inl ErrTSIGTimeWindowViolation)
                  else if computeMAC hmac secret (mRaw msg) tsigRR tsig \<noteq> tMAC tsig
                  then Some (Inl ErrTSIGBadSignature)
                  else Some (Inr ()))))"

subsection \<open>Responses\<close>

text \<open>A message with its additional count one higher and a record at its end.\<close>

definition appendAdditional :: "bytes \<Rightarrow> bytes \<Rightarrow> bytes go" where
  "appendAdditional buf rr = do {
     arcount \<leftarrow> be16 buf 10;
     Some (take 10 buf @ put16 (arcount + 1) @ drop 12 buf @ rr)
   }"

definition appendUnsignedTSIG :: "unilower \<Rightarrow> bytes \<Rightarrow> WireRR \<Rightarrow> 64 word \<Rightarrow> bytes go" where
  "appendUnsignedTSIG uni buf requestTSIG now = do {
     r \<leftarrow> ParseTSIGRdata uni requestTSIG;
     let algo = (case r of Inl _ \<Rightarrow> algorithmHMACSHA256 | Inr tsig \<Rightarrow> tAlgorithm tsig);
     idv \<leftarrow> be16 buf 0;
     let rdata = encodeTSIGRdata algo now tsigFudgeDefault [] idv (ucast URcodeRefused) [];
     appendAdditional buf (encodeRR (uName requestTSIG) TypeTSIG ClassANY 0 rdata)
   }"

definition SignResponse :: "unilower \<Rightarrow> hmacfun \<Rightarrow> bytes \<Rightarrow> WireRR \<Rightarrow> bytes \<Rightarrow> 64 word \<Rightarrow> bytes go" where
  "SignResponse uni hmac responseBuf requestTSIG secret now = do {
     r \<leftarrow> ParseTSIGRdata uni requestTSIG;
     (case r of
        Inl _ \<Rightarrow> appendUnsignedTSIG uni responseBuf requestTSIG now
      | Inr tsig \<Rightarrow> do {
          let fudge = (if tFudge tsig = 0 then tsigFudgeDefault else tFudge tsig);
          let signBuf = encodeMACWire (tMAC tsig) @ responseBuf
                @ buildTSIGVariables (uName requestTSIG) (tAlgorithm tsig) now fudge 0 [];
          let mac = hmac secret signBuf;
          idv \<leftarrow> be16 responseBuf 0;
          let rdata = encodeTSIGRdata (tAlgorithm tsig) now fudge mac idv 0 [];
          appendAdditional responseBuf (encodeRR (uName requestTSIG) TypeTSIG ClassANY 0 rdata)
        })
   }"

subsection \<open>The time field\<close>

lemma length_put48 [simp]: "length (put48 t) = 6"
  by (simp add: put48_def)

lemma timeOf_bits:
  "bit (timeOf bs) n \<longleftrightarrow> n < 64 \<and> n div 8 < length bs \<and> bit (bs ! (length bs - 1 - n div 8)) (n mod 8)"
proof (induction bs arbitrary: n rule: rev_induct)
  case Nil
  then show ?case by (simp add: timeOf_def)
next
  case (snoc b bs)
  have t: "timeOf (bs @ [b]) = push_bit 8 (timeOf bs) OR ucast b" by (simp add: timeOf_def)
  show ?case
  proof (cases "n < 8")
    case True
    then show ?thesis unfolding t by (auto simp: bit_simps)
  next
    case False
    then have d: "n div 8 = Suc ((n - 8) div 8)" "n mod 8 = (n - 8) mod 8" by (simp_all add: le_div_geq le_mod_geq)
    have nb: "\<not> bit b n" using False by (auto dest: bit_imp_le_length)
    show ?thesis unfolding t using False nb d snoc [of "n - 8"]
      by (auto simp: bit_simps nth_append)
  qed
qed

lemma timeOf_put48: "timeOf (put48 t) = take_bit 48 t"
proof (rule bit_word_eqI)
  fix n assume "n < LENGTH(64)"
  then have n: "n < 64" by simp
  have "bit (put48 t ! (5 - n div 8)) (n mod 8) \<longleftrightarrow> bit t n" if "n < 48"
  proof -
    have "n div 8 \<in> {0, 1, 2, 3, 4, 5}" using that by auto
    then have "put48 t ! (5 - n div 8) = ucast (drop_bit (n div 8 * 8) t)" by (auto simp: put48_def)
    then show ?thesis by (simp add: bit_simps)
  qed
  then show "bit (timeOf (put48 t)) n \<longleftrightarrow> bit (take_bit 48 t) n"
    using n by (auto simp: timeOf_bits bit_simps)
qed

lemma timeOf_48: "length bs \<le> 6 \<Longrightarrow> unat (timeOf bs) < 2 ^ 48"
proof -
  assume "length bs \<le> 6"
  then have "timeOf bs = take_bit 48 (timeOf bs)"
    by (intro bit_word_eqI) (auto simp: timeOf_bits bit_simps)
  then have "unat (timeOf bs) = take_bit 48 (unat (timeOf bs))" by (metis unsigned_take_bit_eq)
  then show ?thesis by (metis take_bit_nat_less_exp)
qed

subsection \<open>Reading what was written\<close>

definition fitting_name :: "gostring \<Rightarrow> bool" where
  "fitting_name s \<longleftrightarrow> fitting_labels (domainLabels s) \<and> domainLabels s \<noteq> [] \<and> fqdn_of (domainLabels s) = s"

lemma parseName_encodeName:
  assumes "fitting_name s"
  shows "parseName (pre @ encodeName s @ post) (length pre) = Some (Inr (s, length (encodeName s)))"
  using assms parseName_wire [OF fitting_sized, of "domainLabels s" pre post] encodeName_wire [of "domainLabels s"]
  by (simp add: fitting_name_def)

lemma ParseTSIGRdata_total: "ParseTSIGRdata uni rr \<noteq> None"
proof -
  obtain r where r: "parseName (uRdata rr) 0 = Some r" using parseName_total by blast
  show ?thesis
  proof (cases r)
    case (Inr x)
    obtain algo n where x: "x = (algo, n)" by fastforce
    show ?thesis using r Inr x by (auto simp: ParseTSIGRdata_def Let_def be16_def)
  qed (simp add: ParseTSIGRdata_def r)
qed

lemma ParseTSIGRdata_encode:
  assumes "fitting_name algo" "length mac < 65536" "length other < 65536"
  shows "ParseTSIGRdata uni (rr \<lparr> uRdata := encodeTSIGRdata algo t fudge mac origID err other \<rparr>) =
    Some (Inr \<lparr> tAlgorithm = ToLower uni algo, tTimeSigned = take_bit 48 t, tFudge = fudge, tMAC = mac,
                tOrigID = origID, tError = err, tOtherData = other \<rparr>)"
proof -
  let ?e = "encodeName algo"
  let ?d = "encodeTSIGRdata algo t fudge mac origID err other"
  let ?n = "length ?e"
  have d: "?d = ?e @ put48 t @ put16 fudge @ put16 (u16_of (length mac)) @ mac
     @ put16 origID @ put16 err @ put16 (u16_of (length other)) @ other" by (simp add: encodeTSIGRdata_def)
  have name: "parseName ?d 0 = Some (Inr (algo, ?n))"
    using parseName_encodeName [OF assms(1), of "[]"] by (simp add: d)
  have um: "unat (u16_of (length mac)) = length mac" "unat (u16_of (length other)) = length other"
    using assms(2,3) by (simp_all add: unat_of_nat)
  have "goslice ?d ?n (?n + 6) = Some (put48 t)"
    using goslice_at [of ?e ?n "put48 t" "?n + 6"] by (simp add: d)
  moreover have "be16 ?d (?n + 6) = Some fudge"
    using be16_at [of "?e @ put48 t" "?n + 6" fudge] by (simp add: d)
  moreover have "be16 ?d (?n + 8) = Some (u16_of (length mac))"
    using be16_at [of "?e @ put48 t @ put16 fudge" "?n + 8" "u16_of (length mac)"] by (simp add: d)
  moreover have "goslice ?d (?n + 10) (?n + 10 + length mac) = Some mac"
    using goslice_at [of "?e @ put48 t @ put16 fudge @ put16 (u16_of (length mac))" "?n + 10" mac "?n + 10 + length mac"]
    by (simp add: d)
  moreover have "be16 ?d (?n + 10 + length mac) = Some origID"
    using be16_at [of "?e @ put48 t @ put16 fudge @ put16 (u16_of (length mac)) @ mac" "?n + 10 + length mac" origID]
    by (simp add: d)
  moreover have "be16 ?d (?n + 10 + length mac + 2) = Some err"
    using be16_at [of "?e @ put48 t @ put16 fudge @ put16 (u16_of (length mac)) @ mac @ put16 origID"
      "?n + 10 + length mac + 2" err] by (simp add: d)
  moreover have "be16 ?d (?n + 10 + length mac + 4) = Some (u16_of (length other))"
    using be16_at [of "?e @ put48 t @ put16 fudge @ put16 (u16_of (length mac)) @ mac @ put16 origID @ put16 err"
      "?n + 10 + length mac + 4" "u16_of (length other)"] by (simp add: d)
  moreover have "goslice ?d (?n + 10 + length mac + 6) (?n + 10 + length mac + 6 + length other) = Some other"
    using goslice_at [of "?e @ put48 t @ put16 fudge @ put16 (u16_of (length mac)) @ mac @ put16 origID @ put16 err
      @ put16 (u16_of (length other))" "?n + 10 + length mac + 6" other "?n + 10 + length mac + 6 + length other" "[]"]
    by (simp add: d)
  moreover have "length ?d = ?n + 10 + length mac + 6 + length other" by (simp add: d)
  ultimately show ?thesis
    using name um by (simp add: ParseTSIGRdata_def timeOf_put48)
qed

text \<open>A record whose name and length fields fit, and its wire form.\<close>

definition wire_ok :: "WireRR \<Rightarrow> bool" where
  "wire_ok rr \<longleftrightarrow> fitting_name (uName rr) \<and> length (uRdata rr) < 65536 \<and> uRdlength rr = u16_of (length (uRdata rr))"

definition encodeWire :: "WireRR \<Rightarrow> bytes" where
  "encodeWire rr = encodeRR (uName rr) (uType rr) (uClass rr) (uTTL rr) (uRdata rr)"

lemma parseRR_encodeWire:
  assumes "wire_ok rr"
  shows "parseRR (pre @ encodeWire rr @ post) (length pre) = Some (Inr (rr, length (encodeWire rr)))"
proof -
  let ?e = "encodeName (uName rr)" and ?len = "u16_of (length (uRdata rr))"
  let ?d = "pre @ encodeWire rr @ post" and ?n = "length pre + length (encodeName (uName rr))"
  have d: "?d = pre @ ?e @ put16 (uType rr) @ put16 (uClass rr) @ put32 (uTTL rr) @ put16 ?len @ uRdata rr @ post"
    by (simp add: encodeWire_def encodeRR_def)
  have name: "parseName ?d (length pre) = Some (Inr (uName rr, length ?e))"
    using parseName_encodeName [of "uName rr" pre] assms by (simp add: d wire_ok_def)
  have u: "unat ?len = length (uRdata rr)" using assms by (simp add: wire_ok_def unat_of_nat)
  have "be16 ?d ?n = Some (uType rr)" using be16_at [of "pre @ ?e" ?n "uType rr"] by (simp add: d)
  moreover have "be16 ?d (?n + 2) = Some (uClass rr)"
    using be16_at [of "pre @ ?e @ put16 (uType rr)" "?n + 2" "uClass rr"] by (simp add: d)
  moreover have "be32 ?d (?n + 4) = Some (uTTL rr)"
    using be32_at [of "pre @ ?e @ put16 (uType rr) @ put16 (uClass rr)" "?n + 4" "uTTL rr"] by (simp add: d)
  moreover have "be16 ?d (?n + 8) = Some ?len"
    using be16_at [of "pre @ ?e @ put16 (uType rr) @ put16 (uClass rr) @ put32 (uTTL rr)" "?n + 8" ?len]
    by (simp add: d)
  moreover have "goslice ?d (?n + 10) (?n + 10 + length (uRdata rr)) = Some (uRdata rr)"
    using goslice_at [of "pre @ ?e @ put16 (uType rr) @ put16 (uClass rr) @ put32 (uTTL rr) @ put16 ?len" "?n + 10"
      "uRdata rr" "?n + 10 + length (uRdata rr)"] by (simp add: d)
  moreover have "?n + 10 + length (uRdata rr) \<le> length ?d" by (simp add: d)
  moreover have "uRdlength rr = ?len" using assms by (simp add: wire_ok_def)
  ultimately show ?thesis
    using name u by (simp add: parseRR_def Let_def encodeWire_def encodeRR_def)
qed

lemma parseRRs_encodeWire:
  assumes "list_all wire_ok rrs"
  shows "parseRRs (pre @ concat (map encodeWire rrs) @ post) (length rrs) (length pre) =
    Some (Inr (rrs, length pre + length (concat (map encodeWire rrs))))"
  using assms
proof (induction rrs arbitrary: pre)
  case (Cons rr rrs)
  have "parseRR (pre @ encodeWire rr @ concat (map encodeWire rrs) @ post) (length pre) = Some (Inr (rr, length (encodeWire rr)))"
    using parseRR_encodeWire [of rr pre "concat (map encodeWire rrs) @ post"] Cons.prems by simp
  then show ?case using Cons.IH [of "pre @ encodeWire rr"] Cons.prems by (simp add: add.assoc)
qed simp

subsection \<open>What is accepted\<close>

lemma ParseTSIGRdata_time:
  assumes "ParseTSIGRdata uni rr = Some (Inr tsig)" shows "unat (tTimeSigned tsig) < 2 ^ 48"
proof -
  obtain n where "tTimeSigned tsig = timeOf (take 6 (drop n (uRdata rr)))"
    using assms by (auto simp: ParseTSIGRdata_def Let_def bind_eq_Some_conv split: option.splits sum.splits if_splits)
  then show ?thesis using timeOf_48 [of "take 6 (drop n (uRdata rr))"] by simp
qed

text \<open>The window test on 64-bit words is the one on integers, since a signed time has 48 bits.\<close>

lemma window_exact:
  assumes "unat t < 2 ^ 48"
  shows "\<not> outsideWindow nowSec t f
    \<longleftrightarrow> unat nowSec \<le> unat t + unat f \<and> unat t \<le> unat nowSec + unat f"
proof -
  have lt: "unat f < 2 ^ 16" using unsigned_less [of f] by simp
  then have uf: "unat (ucast f :: 64 word) = unat f" by (simp add: unsigned_ucast_eq take_bit_nat_eq_self)
  have add: "unat (t + ucast f) = unat t + unat f" using assms uf lt by (subst unat_add_lem [THEN iffD1]) auto
  have sub: "unat (t - nowSec) = unat t - unat nowSec" if "nowSec < t" using that by (simp add: unat_sub word_le_nat_alt word_less_nat_alt)
  show ?thesis
  proof (cases "nowSec < t")
    case True
    then show ?thesis using add sub uf by (auto simp: outsideWindow_def word_less_nat_alt)
  next
    case False
    then show ?thesis using add by (auto simp: outsideWindow_def word_less_nat_alt)
  qed
qed

definition effectiveFudge :: "TSIGRecord \<Rightarrow> nat" where
  "effectiveFudge tsig = (if tFudge tsig = 0 then 300 else unat (tFudge tsig))"

lemma ValidateTSIG_total: "ValidateTSIG uni hmac msg secret nowSec \<noteq> None"
proof (cases "mTSIG msg")
  case (Some rr)
  then show ?thesis
    using ParseTSIGRdata_total [of uni rr] by (auto simp: ValidateTSIG_def tryE_None Let_def split: if_splits)
qed (simp add: ValidateTSIG_def)

lemma ValidateTSIG_accepts:
  "ValidateTSIG uni hmac msg secret nowSec = Some (Inr ()) \<longleftrightarrow>
    (\<exists>rr tsig. mTSIG msg = Some rr \<and> ParseTSIGRdata uni rr = Some (Inr tsig)
       \<and> tAlgorithm tsig = algorithmHMACSHA256
       \<and> unat nowSec \<le> unat (tTimeSigned tsig) + effectiveFudge tsig
       \<and> unat (tTimeSigned tsig) \<le> unat nowSec + effectiveFudge tsig
       \<and> tMAC tsig = computeMAC hmac secret (mRaw msg) rr tsig)"
proof (cases "mTSIG msg")
  case None
  then show ?thesis by (simp add: ValidateTSIG_def)
next
  case (Some rr)
  obtain r where r: "ParseTSIGRdata uni rr = Some r" using ParseTSIGRdata_total by blast
  show ?thesis
  proof (cases r)
    case (Inl e)
    then show ?thesis using Some r by (simp add: ValidateTSIG_def)
  next
    case (Inr tsig)
    let ?f = "if tFudge tsig = 0 then tsigFudgeDefault else tFudge tsig"
    have "unat (300 :: 16 word) = 300" by simp
    then have ef: "effectiveFudge tsig = unat ?f" by (simp add: effectiveFudge_def tsigFudgeDefault_def)
    have w: "\<not> outsideWindow nowSec (tTimeSigned tsig) ?f
        \<longleftrightarrow> unat nowSec \<le> unat (tTimeSigned tsig) + effectiveFudge tsig
          \<and> unat (tTimeSigned tsig) \<le> unat nowSec + effectiveFudge tsig"
      unfolding ef by (rule window_exact [OF ParseTSIGRdata_time [OF r [unfolded Inr]]])
    have "ValidateTSIG uni hmac msg secret nowSec = Some (Inr ()) \<longleftrightarrow>
        tAlgorithm tsig = algorithmHMACSHA256 \<and> \<not> outsideWindow nowSec (tTimeSigned tsig) ?f
        \<and> tMAC tsig = computeMAC hmac secret (mRaw msg) rr tsig"
      using Some r Inr by (auto simp: ValidateTSIG_def Let_def)
    then show ?thesis unfolding w using Some r Inr by auto
  qed
qed

subsection \<open>A signed update message\<close>

text \<open>An UPDATE message as a client builds it: one zone entry, the updates, nothing else.\<close>

definition update_message :: "16 word \<Rightarrow> gostring \<Rightarrow> WireRR list \<Rightarrow> bytes" where
  "update_message txid zone updates =
     put16 txid @ put16 (push_bit 11 5) @ put16 1 @ put16 0 @ put16 (u16_of (length updates)) @ put16 0
     @ encodeName zone @ put16 6 @ put16 ClassIN @ concat (map encodeWire updates)"

definition signed_rdata :: "hmacfun \<Rightarrow> bytes \<Rightarrow> gostring \<Rightarrow> 64 word \<Rightarrow> 16 word \<Rightarrow> bytes \<Rightarrow> 16 word \<Rightarrow> bytes" where
  "signed_rdata hmac secret key time fudge msg txid =
     encodeTSIGRdata algorithmHMACSHA256 time fudge
       (hmac secret (msg @ buildTSIGVariables key algorithmHMACSHA256 time fudge 0 [])) txid 0 []"

definition sign_update :: "hmacfun \<Rightarrow> bytes \<Rightarrow> gostring \<Rightarrow> 64 word \<Rightarrow> 16 word \<Rightarrow> 16 word \<Rightarrow> gostring \<Rightarrow> WireRR list \<Rightarrow> bytes go" where
  "sign_update hmac secret key time fudge txid zone updates =
     (let msg = update_message txid zone updates
      in appendAdditional msg (encodeRR key TypeTSIG ClassANY 0 (signed_rdata hmac secret key time fudge msg txid)))"

lemma algorithm_name: "fitting_name algorithmHMACSHA256" "ToLower uni algorithmHMACSHA256 = algorithmHMACSHA256"
proof -
  show "fitting_name algorithmHMACSHA256" by code_simp
  have "is_ascii algorithmHMACSHA256" "map lower_byte algorithmHMACSHA256 = algorithmHMACSHA256" by code_simp+
  then show "ToLower uni algorithmHMACSHA256 = algorithmHMACSHA256" by (simp add: ToLower_def)
qed

lemma opcode_flags:
  "ucast (drop_bit 11 (push_bit 11 5 :: 16 word) AND 0xf) = OpcodeUpdate"
  by (simp add: OpcodeUpdate_def)

text \<open>The message up to the records: with additional count \<open>ar\<close>.\<close>

definition update_head :: "16 word \<Rightarrow> nat \<Rightarrow> 16 word \<Rightarrow> bytes" where
  "update_head txid n ar = put16 txid @ put16 (push_bit 11 5) @ put16 1 @ put16 0 @ put16 (u16_of n) @ put16 ar"

definition update_body :: "gostring \<Rightarrow> WireRR list \<Rightarrow> bytes" where
  "update_body zone updates = encodeName zone @ put16 6 @ put16 ClassIN @ concat (map encodeWire updates)"

lemma update_message_split: "update_message txid zone updates = update_head txid (length updates) 0 @ update_body zone updates"
  by (simp add: update_message_def update_head_def update_body_def)

lemma length_update_head [simp]: "length (update_head txid n ar) = 12"
  by (simp add: update_head_def)

lemma update_head_fields:
  "be16 (update_head txid n ar @ rest) 0 = Some txid"
  "be16 (update_head txid n ar @ rest) 2 = Some (push_bit 11 5)"
  "be16 (update_head txid n ar @ rest) 4 = Some 1"
  "be16 (update_head txid n ar @ rest) 6 = Some 0"
  "be16 (update_head txid n ar @ rest) 8 = Some (u16_of n)"
  "be16 (update_head txid n ar @ rest) 10 = Some ar"
  using be16_at [of "[]" 0 txid] be16_at [of "put16 txid" 2 "push_bit 11 5"]
    be16_at [of "put16 txid @ put16 (push_bit 11 5)" 4 1]
    be16_at [of "put16 txid @ put16 (push_bit 11 5) @ put16 1" 6 0]
    be16_at [of "put16 txid @ put16 (push_bit 11 5) @ put16 1 @ put16 0" 8 "u16_of n"]
    be16_at [of "put16 txid @ put16 (push_bit 11 5) @ put16 1 @ put16 0 @ put16 (u16_of n)" 10 ar]
  by (simp_all add: update_head_def)

lemma take_update_head: "take 10 (update_head txid n ar @ rest) = take 10 (update_head txid n ar)"
  "drop 12 (update_head txid n ar @ rest) = rest"
  "take 10 (update_head txid n ar) @ put16 ar' = update_head txid n ar'"
  by (simp_all add: update_head_def)

lemma sign_update_bytes:
  "sign_update hmac secret key time fudge txid zone updates =
    Some (update_head txid (length updates) 1 @ update_body zone updates
      @ encodeRR key TypeTSIG ClassANY 0 (signed_rdata hmac secret key time fudge (update_message txid zone updates) txid))"
proof -
  have "take 10 (update_head txid (length updates) 0) @ put16 1 @ rest = update_head txid (length updates) 1 @ rest" for rest
    using take_update_head(3) [of txid "length updates" 0 1] by (metis append_assoc)
  then show ?thesis
    by (simp add: sign_update_def Let_def appendAdditional_def update_message_split update_head_fields take_update_head)
qed

lemma parse_zone:
  assumes "fitting_name zone"
  shows "parseQuestion (pre @ encodeName zone @ put16 ty @ put16 cl @ post) (length pre) =
    Some (Inr (\<lparr> uName = zone, uType = ty, uClass = cl, uTTL = 0, uRdlength = 0, uRdata = [] \<rparr>,
      length (encodeName zone) + 4))"
proof -
  let ?n = "length pre + length (encodeName zone)"
  let ?d = "pre @ encodeName zone @ put16 ty @ put16 cl @ post"
  have "parseName ?d (length pre) = Some (Inr (zone, length (encodeName zone)))"
    using parseName_encodeName [OF assms, of pre "put16 ty @ put16 cl @ post"] by simp
  moreover have "be16 ?d ?n = Some ty" using be16_at [of "pre @ encodeName zone" ?n ty] by simp
  moreover have "be16 ?d (?n + 2) = Some cl" using be16_at [of "pre @ encodeName zone @ put16 ty" "?n + 2" cl] by simp
  ultimately show ?thesis by (simp add: parseQuestion_def Let_def)
qed

lemma ParseMessage_signed:
  assumes "fitting_name zone" "list_all wire_ok updates" "length updates < 65536" "wire_ok tsig" "uType tsig = TypeTSIG"
  shows "\<exists>hdr. ParseMessage (update_head txid (length updates) 1 @ update_body zone updates @ encodeWire tsig) =
    Some (Inr \<lparr> mHeader = hdr,
        mZone = Some \<lparr> uName = zone, uType = 6, uClass = ClassIN, uTTL = 0, uRdlength = 0, uRdata = [] \<rparr>,
        mPrerequisites = [], mUpdates = updates, mAdditional = [], mTSIG = Some tsig,
        mRaw = update_message txid zone updates \<rparr>) \<and> hOpcode hdr = OpcodeUpdate \<and> hID hdr = txid"
proof -
  let ?h = "update_head txid (length updates) 1" and ?b = "update_body zone updates"
  let ?us = "concat (map encodeWire updates)"
  let ?d = "?h @ ?b @ encodeWire tsig"
  let ?z = "\<lparr> uName = zone, uType = 6, uClass = ClassIN, uTTL = 0, uRdlength = 0, uRdata = [] \<rparr>"
  let ?off1 = "12 + (length (encodeName zone) + 4)"
  obtain hdr where hdr: "parseHeader ?d = Some hdr" "hQDCount hdr = 1" "hANCount hdr = 0"
    "hNSCount hdr = u16_of (length updates)" "hARCount hdr = 1" "hOpcode hdr = OpcodeUpdate" "hID hdr = txid"
    using opcode_flags by (simp add: parseHeader_def update_head_fields)
  have z: "parseQuestions ?d 1 12 = Some (Inr ([?z], ?off1))"
    using parse_zone [OF assms(1), of ?h 6 ClassIN "?us @ encodeWire tsig"] by (simp add: update_body_def)
  have "parseRRs (?h @ encodeName zone @ put16 6 @ put16 ClassIN @ ?us @ encodeWire tsig) (length updates) ?off1 =
      Some (Inr (updates, ?off1 + length ?us))"
    using parseRRs_encodeWire [OF assms(2), of "?h @ encodeName zone @ put16 6 @ put16 ClassIN" "encodeWire tsig"] by simp
  then have u: "parseRRs ?d (length updates) ?off1 = Some (Inr (updates, length ?h + length ?b))"
    by (simp add: update_body_def)
  have t: "parseRR ?d (length ?h + length ?b) = Some (Inr (tsig, length (encodeWire tsig)))"
    using parseRR_encodeWire [OF assms(4), of "?h @ ?b" "[]"] by simp
  have s: "stripTSIG ?d (length ?h + length ?b) = Some (update_message txid zone updates)"
  proof -
    have "goslice ?d 0 (length ?h + length ?b) = Some (?h @ ?b)" by simp
    moreover have "take 10 (?h @ ?b) @ put16 0 @ drop 12 (?h @ ?b) = update_message txid zone updates"
      using take_update_head [of txid "length updates" 1] unfolding update_message_split by (metis append_assoc)
    ultimately show ?thesis by (simp add: stripTSIG_def update_head_fields)
  qed
  have un: "unat (u16_of (length updates)) = length updates" using assms(3) by (simp add: unat_of_nat)
  have a: "parseAdditional ?d 1 (length ?h + length ?b) = Some (Inr ([], Some (tsig, update_message txid zone updates)))"
    using t s assms(5) by simp
  show ?thesis
    using hdr z u a un by (intro exI [of _ hdr]) (simp add: ParseMessage_def)
qed

lemma signed_update_validates:
  assumes "\<forall>k d. length (hmac k d) = 32" "fitting_name key" "fitting_name zone"
    and "list_all wire_ok updates" "length updates < 65536" "unat time < 2 ^ 48" "fudge \<noteq> 0"
    and "unat nowSec \<le> unat time + unat fudge" "unat time \<le> unat nowSec + unat fudge"
  shows "\<exists>data m. sign_update hmac secret key time fudge txid zone updates = Some data
    \<and> ParseMessage data = Some (Inr m) \<and> mUpdates m = updates \<and> mPrerequisites m = []
    \<and> hOpcode (mHeader m) = OpcodeUpdate \<and> hID (mHeader m) = txid \<and> map_option uName (mZone m) = Some zone
    \<and> mRaw m = update_message txid zone updates
    \<and> ValidateTSIG uni hmac m secret nowSec = Some (Inr ())"
proof -
  let ?msg = "update_message txid zone updates"
  let ?mac = "hmac secret (?msg @ buildTSIGVariables key algorithmHMACSHA256 time fudge 0 [])"
  let ?rd = "signed_rdata hmac secret key time fudge ?msg txid"
  let ?rr = "\<lparr> uName = key, uType = TypeTSIG, uClass = ClassANY, uTTL = 0, uRdlength = u16_of (length ?rd), uRdata = ?rd \<rparr>"
  have "length (encodeName algorithmHMACSHA256) = 13" by code_simp
  then have "length ?rd < 65536" using assms(1) by (simp add: signed_rdata_def encodeTSIGRdata_def)
  then have ok: "wire_ok ?rr" using assms(2) by (simp add: wire_ok_def)
  have "take_bit 48 time = time"
    using assms(6) by (metis take_bit_nat_eq_self unsigned_take_bit_eq unsigned_word_eqI)
  then have p: "ParseTSIGRdata uni ?rr = Some (Inr \<lparr> tAlgorithm = algorithmHMACSHA256, tTimeSigned = time,
      tFudge = fudge, tMAC = ?mac, tOrigID = txid, tError = 0, tOtherData = [] \<rparr>)"
    using ParseTSIGRdata_encode [OF algorithm_name(1), where mac = ?mac and other = "[]" and uni = uni and rr = ?rr
      and t = time and fudge = fudge and origID = txid and err = 0] assms(1)
    by (simp add: signed_rdata_def algorithm_name(2))
  obtain hdr where m: "ParseMessage (update_head txid (length updates) 1 @ update_body zone updates @ encodeWire ?rr) =
    Some (Inr \<lparr> mHeader = hdr,
        mZone = Some \<lparr> uName = zone, uType = 6, uClass = ClassIN, uTTL = 0, uRdlength = 0, uRdata = [] \<rparr>,
        mPrerequisites = [], mUpdates = updates, mAdditional = [], mTSIG = Some ?rr, mRaw = ?msg \<rparr>)"
    and opc: "hOpcode hdr = OpcodeUpdate" "hID hdr = txid"
    using ParseMessage_signed [OF assms(3-5) ok] by auto
  have v: "ValidateTSIG uni hmac (m' :: UMessage) secret nowSec = Some (Inr ())"
    if "mTSIG m' = Some ?rr" "mRaw m' = ?msg" for m'
    unfolding ValidateTSIG_accepts using that p assms(7-9)
    by (auto simp: computeMAC_def effectiveFudge_def)
  show ?thesis
    unfolding sign_update_bytes using m v opc by (auto simp: encodeWire_def)
qed

subsection \<open>Properties\<close>

text \<open>C25: \<open>ValidateTSIG\<close> accepts a message exactly when it carries a TSIG record as its last
  record that parses, names HMAC-SHA256, was signed within the fudge (300 seconds if the field
  is 0) before or after now, and has as MAC the keyed hash of the message without the TSIG
  record followed by the TSIG variables. It never panics, and no time makes the arithmetic
  wrap.\<close>

theorem ValidateTSIG_accepts_iff:
  "(\<exists>r. ValidateTSIG uni hmac msg secret nowSec = Some r) \<and>
   (ValidateTSIG uni hmac msg secret nowSec = Some (Inr ()) \<longleftrightarrow>
    (\<exists>rr tsig. mTSIG msg = Some rr \<and> ParseTSIGRdata uni rr = Some (Inr tsig)
       \<and> tAlgorithm tsig = lit ''hmac-sha256.''
       \<and> unat nowSec \<le> unat (tTimeSigned tsig) + (if tFudge tsig = 0 then 300 else unat (tFudge tsig))
       \<and> unat (tTimeSigned tsig) \<le> unat nowSec + (if tFudge tsig = 0 then 300 else unat (tFudge tsig))
       \<and> tMAC tsig = hmac secret (mRaw msg @ buildTSIGVariables (uName rr) (tAlgorithm tsig) (tTimeSigned tsig)
           (tFudge tsig) (tError tsig) (tOtherData tsig))))"
proof
  show "\<exists>r. ValidateTSIG uni hmac msg secret nowSec = Some r"
    using ValidateTSIG_total [of uni hmac msg secret nowSec] by blast
qed (simp add: ValidateTSIG_accepts computeMAC_def effectiveFudge_def algorithmHMACSHA256_def)

text \<open>What a client signs is what the gateway checks: an UPDATE message for a zone with any
  list of updates, signed with the shared secret and sent with the TSIG record appended, is
  parsed into exactly those updates and its signature is accepted, as long as the clocks are
  within the fudge. HMAC-SHA256 is only assumed to give 32 bytes.\<close>

theorem signed_update_accepted:
  assumes "\<forall>k d. length (hmac k d) = 32" "fitting_name key" "fitting_name zone"
    and "list_all wire_ok updates" "length updates < 65536" "unat time < 2 ^ 48" "fudge \<noteq> 0"
    and "unat nowSec \<le> unat time + unat fudge" "unat time \<le> unat nowSec + unat fudge"
  shows "\<exists>data m. sign_update hmac secret key time fudge txid zone updates = Some data
    \<and> ParseMessage data = Some (Inr m) \<and> mUpdates m = updates \<and> mPrerequisites m = []
    \<and> mRaw m = update_message txid zone updates
    \<and> ValidateTSIG uni hmac m secret nowSec = Some (Inr ())"
  using signed_update_validates [OF assms, of secret txid uni] by blast

theorem signed_update_accepted_witness:
  "\<exists>data m. sign_update (\<lambda>k d. replicate 32 (last (k @ d))) [1, 2] (lit ''key.'') 1000 300 7 (lit ''example.'') [] = Some data
    \<and> ParseMessage data = Some (Inr m)
    \<and> ValidateTSIG (\<lambda>s. s) (\<lambda>k d. replicate 32 (last (k @ d))) m [1, 2] 1200 = Some (Inr ())"
proof -
  have h: "\<forall>k d. length ((\<lambda>k d. replicate 32 (last (k @ d))) k d :: bytes) = 32" by simp
  have n: "fitting_name (lit ''key.'')" "fitting_name (lit ''example.'')" by code_simp+
  have "list_all wire_ok []" "length ([] :: WireRR list) < 65536" "unat (1000 :: 64 word) < 2 ^ 48" "(300 :: 16 word) \<noteq> 0"
    "unat (1200 :: 64 word) \<le> unat (1000 :: 64 word) + unat (300 :: 16 word)"
    "unat (1000 :: 64 word) \<le> unat (1200 :: 64 word) + unat (300 :: 16 word)"
    by simp_all
  from signed_update_accepted [OF h n this, of "[1, 2]" 7 "\<lambda>s. s"] show ?thesis by blast
qed

end
