(* ===== verification/Update_Handler.thy ===== *)
theory Update_Handler
  imports RR_Parse IP_Addr Update_TSIG "HOL-Library.AList"
begin

text \<open>
  Translating UPDATE operations into DNSRecord resources, after
  \<^verbatim>\<open>internal/rfc2136/naming.go\<close>, \<^verbatim>\<open>handler.go\<close> and \<^verbatim>\<open>operations.go\<close>.

  The Kubernetes API is a parameter: a record of the three calls the handler makes, over a
  type of states of the cluster. \<open>store_laws\<close> says what they do to the resources that carry the
  source label, seen as a map from resource names to records; a failed call may have any
  effect. \<open>api.ParamsFor\<close> only looks up the resource type that \<open>crd\<close> registers and does not
  fail. SHA-256 and the Unicode part of the string functions are parameters too.
\<close>

subsection \<open>Resource names\<close>

definition maxCRNameLen :: nat where "maxCRNameLen = 253"

definition HexEncode :: "bytes \<Rightarrow> gostring" where
  "HexEncode bs = concat (map (\<lambda>b. [hexDigit (unat b div 16), hexDigit (unat b mod 16)]) bs)"

definition sanitizeFQDN :: "unilower \<Rightarrow> gostring \<Rightarrow> gostring" where
  "sanitizeFQDN uni fqdn =
     (let s1 = ToLower uni fqdn;
          s2 = TrimSuffix s1 (lit ''.'');
          s3 = map (\<lambda>b. if b = 46 then 45 else b) s2;
          s4 = map (\<lambda>b. if b = 95 then 45 else b) s3
      in dropWhile (\<lambda>b. b = 45) s4)"

definition rdataHash :: "(bytes \<Rightarrow> bytes) \<Rightarrow> bytes \<Rightarrow> gostring" where
  "rdataHash sha256 data = take 8 (HexEncode (sha256 data))"

text \<open>\<open>None\<close> is the overflow error.\<close>

definition CRName :: "unilower \<Rightarrow> (bytes \<Rightarrow> bytes) \<Rightarrow> gostring \<Rightarrow> gostring \<Rightarrow> gostring \<Rightarrow> bytes \<Rightarrow> gostring option" where
  "CRName uni sha256 source rrtype fqdn rdataBytes =
     (let name = source @ lit ''-'' @ ToLower uni rrtype @ lit ''-'' @ sanitizeFQDN uni fqdn @ lit ''-''
                 @ rdataHash sha256 rdataBytes
      in if maxCRNameLen < length name then None else Some name)"

subsection \<open>The handler\<close>

definition sourceLabelValue :: gostring where "sourceLabelValue = lit ''rfc2136''"

record 'w K8sClient =
  ApplyOrUpdate :: "'w \<Rightarrow> gostring \<Rightarrow> RR \<Rightarrow> 'w \<times> bool"
  QueryLabelled :: "'w \<Rightarrow> (gostring \<times> RR) list option"
  Delete :: "'w \<Rightarrow> gostring \<Rightarrow> 'w \<times> bool"

text \<open>The parameters of the model in one record.\<close>

record 'w update_env =
  envUni :: unilower
  envFold :: unifold
  envSHA256 :: "bytes \<Rightarrow> bytes"
  envHMAC :: hmacfun
  envK8s :: "'w K8sClient"

record 'w Handler =
  hZone :: Domain
  cluster :: 'w
  updatesTotal :: "gostring list"
  updateErrors :: "gostring list"
  crNameOverflows :: nat

datatype update_error = CRNameOverflow | ParseRdataFailed rdata_error | K8sFailed gostring

definition addRR :: "'w update_env \<Rightarrow> 'w Handler \<Rightarrow> gostring \<Rightarrow> RRtype \<Rightarrow> bytes \<Rightarrow> (update_error option \<times> 'w Handler) go" where
  "addRR env h fqdn rrtype rdata =
     (case CRName (envUni env) (envSHA256 env) sourceLabelValue rrtype fqdn rdata of
        None \<Rightarrow> Some (Some CRNameOverflow, h \<lparr> crNameOverflows := crNameOverflows h + 1,
                        updateErrors := lit ''overflow'' # updateErrors h \<rparr>)
      | Some crName \<Rightarrow> do {
          r \<leftarrow> ParseRdata rrtype rdata;
          (case r of
             Inl err \<Rightarrow> Some (Some (ParseRdataFailed err), h)
           | Inr rrOpts \<Rightarrow>
               (let rrSpec = \<lparr> Name = fqdn, RRtype = rrtype, TTL = 60, Opts = rrOpts \<rparr>;
                    (w, ok) = ApplyOrUpdate (envK8s env) (cluster h) crName rrSpec
                in if ok then Some (None, h \<lparr> cluster := w, updatesTotal := lit ''add'' # updatesTotal h \<rparr>)
                   else Some (Some (K8sFailed crName), h \<lparr> cluster := w, updateErrors := lit ''k8s'' # updateErrors h \<rparr>)))
        })"

definition deleteCR :: "'w update_env \<Rightarrow> 'w Handler \<Rightarrow> gostring \<Rightarrow> update_error option \<times> 'w Handler" where
  "deleteCR env h crName =
     (let (w, ok) = Delete (envK8s env) (cluster h) crName
      in if ok then (None, h \<lparr> cluster := w \<rparr>)
         else (Some (K8sFailed crName), h \<lparr> cluster := w, updateErrors := lit ''k8s'' # updateErrors h \<rparr>))"

text \<open>The loops over the listed objects; \<open>P\<close> is the filter of the loop body.\<close>

fun deleteMatching ::
  "'w update_env \<Rightarrow> (RR \<Rightarrow> bool) \<Rightarrow> 'w Handler \<Rightarrow> (gostring \<times> RR) list \<Rightarrow> update_error option \<times> 'w Handler" where
  "deleteMatching env P h [] = (None, h)"
| "deleteMatching env P h ((name, rr) # objs) =
     (if \<not> P rr then deleteMatching env P h objs
      else case deleteCR env h name of
        (Some err, h') \<Rightarrow> (Some err, h')
      | (None, h') \<Rightarrow> deleteMatching env P h' objs)"

definition deleteListed ::
  "'w update_env \<Rightarrow> (RR \<Rightarrow> bool) \<Rightarrow> gostring \<Rightarrow> 'w Handler \<Rightarrow> update_error option \<times> 'w Handler" where
  "deleteListed env P op h =
     (case QueryLabelled (envK8s env) (cluster h) of
        None \<Rightarrow> (Some (K8sFailed []), h \<lparr> updateErrors := lit ''k8s'' # updateErrors h \<rparr>)
      | Some objects \<Rightarrow>
          (case deleteMatching env P h objects of
             (Some err, h') \<Rightarrow> (Some err, h')
           | (None, h') \<Rightarrow> (None, h' \<lparr> updatesTotal := op # updatesTotal h' \<rparr>)))"

definition deleteRRset :: "'w update_env \<Rightarrow> 'w Handler \<Rightarrow> gostring \<Rightarrow> RRtype \<Rightarrow> update_error option \<times> 'w Handler" where
  "deleteRRset env h fqdn rrtype =
     deleteListed env (\<lambda>rr. EqualFold (envFold env) (Name rr) fqdn \<and> EqualFold (envFold env) (RRtype rr) rrtype)
       (lit ''delete_rrset'') h"

definition deleteAllAtName :: "'w update_env \<Rightarrow> 'w Handler \<Rightarrow> gostring \<Rightarrow> update_error option \<times> 'w Handler" where
  "deleteAllAtName env h fqdn =
     deleteListed env (\<lambda>rr. EqualFold (envFold env) (Name rr) fqdn) (lit ''delete_name'') h"

definition deleteRR :: "'w update_env \<Rightarrow> 'w Handler \<Rightarrow> gostring \<Rightarrow> RRtype \<Rightarrow> bytes \<Rightarrow> update_error option \<times> 'w Handler" where
  "deleteRR env h fqdn rrtype rdata =
     (case CRName (envUni env) (envSHA256 env) sourceLabelValue rrtype fqdn rdata of
        None \<Rightarrow> (Some CRNameOverflow, h \<lparr> crNameOverflows := crNameOverflows h + 1,
                   updateErrors := lit ''overflow'' # updateErrors h \<rparr>)
      | Some crName \<Rightarrow>
          (case deleteCR env h crName of
             (Some err, h') \<Rightarrow> (Some err, h')
           | (None, h') \<Rightarrow> (None, h' \<lparr> updatesTotal := lit ''delete_rr'' # updatesTotal h' \<rparr>)))"

definition matchesZone :: "'w update_env \<Rightarrow> 'w Handler \<Rightarrow> gostring \<Rightarrow> bool" where
  "matchesZone env h name =
     EqualFold (envFold env) (TrimSuffix name (lit ''.'')) (TrimSuffix (hZone h) (lit ''.''))"

definition processUpdate :: "'w update_env \<Rightarrow> 'w Handler \<Rightarrow> WireRR \<Rightarrow> (update_error option \<times> 'w Handler) go" where
  "processUpdate env h rr =
     (if uClass rr = ClassANY \<and> uTTL rr = 0 \<and> uType rr = 255 \<and> uRdlength rr = 0
      then Some (deleteAllAtName env h (uName rr))
      else case RRtypeFromWire (uType rr) of
        None \<Rightarrow> Some (None, h)
      | Some rrtype \<Rightarrow>
          (if uClass rr = ClassIN then addRR env h (uName rr) rrtype (uRdata rr)
           else if uClass rr = ClassANY \<and> uTTL rr = 0 \<and> uRdlength rr = 0
           then Some (deleteRRset env h (uName rr) rrtype)
           else if uClass rr = ClassNONE \<and> uTTL rr = 0
           then Some (deleteRR env h (uName rr) rrtype (uRdata rr))
           else Some (None, h)))"

fun processUpdates :: "'w update_env \<Rightarrow> 'w Handler \<Rightarrow> WireRR list \<Rightarrow> (byte \<times> 'w Handler) go" where
  "processUpdates env h [] = Some (URcodeNoError, h)"
| "processUpdates env h (rr # rrs) = do {
     (err, h') \<leftarrow> processUpdate env h rr;
     (case err of Some e \<Rightarrow> Some (URcodeServFail, h') | None \<Rightarrow> processUpdates env h' rrs)
   }"

definition HandleUpdate :: "'w update_env \<Rightarrow> 'w Handler \<Rightarrow> UMessage \<Rightarrow> (byte \<times> 'w Handler) go" where
  "HandleUpdate env h msg =
     (if 0 < length (mPrerequisites msg) then Some (URcodeNotimp, h)
      else case mZone msg of
        Some z \<Rightarrow>
          (if \<not> matchesZone env h (uName z)
           then Some (URcodeNotZone, h \<lparr> updateErrors := lit ''zone'' # updateErrors h \<rparr>)
           else processUpdates env h (mUpdates msg))
      | None \<Rightarrow> processUpdates env h (mUpdates msg))"

subsection \<open>The abstract store\<close>

text \<open>The laws for resource names with the property \<open>N\<close>.\<close>

definition store_laws_on :: "(gostring \<Rightarrow> bool) \<Rightarrow> 'w K8sClient \<Rightarrow> ('w \<Rightarrow> gostring \<rightharpoonup> RR) \<Rightarrow> bool" where
  "store_laws_on N k contents \<longleftrightarrow>
     (\<forall>w name rr w'. N name \<longrightarrow> ApplyOrUpdate k w name rr = (w', True) \<longrightarrow> contents w' = (contents w)(name \<mapsto> rr)) \<and>
     (\<forall>w name w'. N name \<longrightarrow> Delete k w name = (w', True) \<longrightarrow> contents w' = (contents w)(name := None)) \<and>
     (\<forall>w objs. QueryLabelled k w = Some objs \<longrightarrow>
        distinct (map fst objs) \<and> map_of objs = contents w \<and> list_all N (map fst objs))"

definition store_laws :: "'w K8sClient \<Rightarrow> ('w \<Rightarrow> gostring \<rightharpoonup> RR) \<Rightarrow> bool" where
  "store_laws k contents \<longleftrightarrow> store_laws_on (\<lambda>_. True) k contents"

text \<open>The resource name of an update record has the property \<open>N\<close>.\<close>

definition name_ok :: "(gostring \<Rightarrow> bool) \<Rightarrow> 'w update_env \<Rightarrow> WireRR \<Rightarrow> bool" where
  "name_ok N env rr \<longleftrightarrow>
     (case RRtypeFromWire (uType rr) of
        None \<Rightarrow> True
      | Some t \<Rightarrow> (case CRName (envUni env) (envSHA256 env) sourceLabelValue t (uName rr) (uRdata rr) of
                     None \<Rightarrow> True | Some n \<Rightarrow> N n))"

text \<open>What an update does to the records: RFC 2136, section 2.5, over the map of resources.\<close>

definition removeMatching :: "(RR \<Rightarrow> bool) \<Rightarrow> (gostring \<rightharpoonup> RR) \<Rightarrow> (gostring \<rightharpoonup> RR)" where
  "removeMatching P m = (\<lambda>k. case m k of Some rr \<Rightarrow> if P rr then None else Some rr | None \<Rightarrow> None)"

definition absUpdate :: "'w update_env \<Rightarrow> (gostring \<rightharpoonup> RR) \<Rightarrow> WireRR \<Rightarrow> (gostring \<rightharpoonup> RR)" where
  "absUpdate env m rr =
     (if uClass rr = ClassANY \<and> uTTL rr = 0 \<and> uType rr = 255 \<and> uRdlength rr = 0
      then removeMatching (\<lambda>r. EqualFold (envFold env) (Name r) (uName rr)) m
      else case RRtypeFromWire (uType rr) of
        None \<Rightarrow> m
      | Some t \<Rightarrow>
          (let n = CRName (envUni env) (envSHA256 env) sourceLabelValue t (uName rr) (uRdata rr)
           in if uClass rr = ClassIN
              then (case (n, ParseRdata t (uRdata rr)) of
                      (Some name, Some (Inr rrOpts)) \<Rightarrow>
                        m(name \<mapsto> \<lparr> Name = uName rr, RRtype = t, TTL = 60, Opts = rrOpts \<rparr>)
                    | _ \<Rightarrow> m)
              else if uClass rr = ClassANY \<and> uTTL rr = 0 \<and> uRdlength rr = 0
              then removeMatching (\<lambda>r. EqualFold (envFold env) (Name r) (uName rr)
                     \<and> EqualFold (envFold env) (RRtype r) t) m
              else if uClass rr = ClassNONE \<and> uTTL rr = 0
              then (case n of Some name \<Rightarrow> m(name := None) | None \<Rightarrow> m)
              else m))"

subsection \<open>Refinement of each operation\<close>

lemma deleteCR_refines:
  assumes "store_laws_on N (envK8s env) contents" "deleteCR env h name = (None, h')" "N name"
  shows "contents (cluster h') = (contents (cluster h))(name := None)" "hZone h' = hZone h"
  using assms by (auto simp: deleteCR_def store_laws_on_def split: prod.splits if_splits)

lemma deleteMatching_refines:
  assumes "store_laws_on N (envK8s env) contents" "deleteMatching env P h objs = (None, h')" "list_all N (map fst objs)"
  shows "contents (cluster h') = (\<lambda>k. if \<exists>rr. (k, rr) \<in> set objs \<and> P rr then None else contents (cluster h) k)"
    "hZone h' = hZone h"
  using assms(2,3)
proof (induction objs arbitrary: h)
  case (Cons obj objs)
  obtain name rr where obj: "obj = (name, rr)" by fastforce
  { case 1
    show ?case
    proof (cases "P rr")
      case True
      then obtain h1 where h1: "deleteCR env h name = (None, h1)" "deleteMatching env P h1 objs = (None, h')"
        using 1 obj by (auto split: prod.splits option.splits)
      show ?thesis using Cons(1) [OF h1(2)] deleteCR_refines(1) [OF assms(1) h1(1)] True obj 1(2) by (auto simp: fun_eq_iff)
    next
      case False
      then show ?thesis using Cons(1) [of h] 1 obj by (auto simp: fun_eq_iff)
    qed }
  { case 2
    show ?case
    proof (cases "P rr")
      case True
      then obtain h1 where h1: "deleteCR env h name = (None, h1)" "deleteMatching env P h1 objs = (None, h')"
        using 2 obj by (auto split: prod.splits option.splits)
      show ?thesis using Cons(2) [OF h1(2)] deleteCR_refines(2) [OF assms(1) h1(1)] obj 2(2) by simp
    next
      case False
      then show ?thesis using Cons(2) [of h] 2 obj by simp
    qed }
qed auto

lemma deleteListed_refines:
  assumes "store_laws_on N (envK8s env) contents" "deleteListed env P label h = (None, h')"
  shows "contents (cluster h') = removeMatching P (contents (cluster h))" "hZone h' = hZone h"
proof -
  obtain objs h1 where q: "QueryLabelled (envK8s env) (cluster h) = Some objs"
    and d: "deleteMatching env P h objs = (None, h1)" and h': "h' = h1 \<lparr> updatesTotal := label # updatesTotal h1 \<rparr>"
    using assms(2) by (auto simp: deleteListed_def split: option.splits prod.splits)
  have o1: "distinct (map fst objs)" "map_of objs = contents (cluster h)" "list_all N (map fst objs)"
    using assms(1) q by (auto simp: store_laws_on_def)
  have "(\<exists>rr. (k, rr) \<in> set objs \<and> P rr) \<longleftrightarrow> (\<exists>rr. contents (cluster h) k = Some rr \<and> P rr)" for k
    using map_of_eq_Some_iff [OF o1(1)] o1(2) by metis
  then show "contents (cluster h') = removeMatching P (contents (cluster h))"
    using deleteMatching_refines(1) [OF assms(1) d o1(3)] h'
    by (auto simp: removeMatching_def fun_eq_iff split: option.splits)
  show "hZone h' = hZone h" using deleteMatching_refines(2) [OF assms(1) d o1(3)] h' by simp
qed

lemma processUpdate_refines:
  assumes "store_laws_on N (envK8s env) contents" "processUpdate env h rr = Some (None, h')" "name_ok N env rr"
  shows "contents (cluster h') = absUpdate env (contents (cluster h)) rr" "hZone h' = hZone h"
proof -
  have add: "contents (cluster h') = absUpdate env (contents (cluster h)) rr \<and> hZone h' = hZone h"
    if "addRR env h (uName rr) t (uRdata rr) = Some (None, h')" "RRtypeFromWire (uType rr) = Some t" "uClass rr = ClassIN" for t
    using that assms(1,3)
    by (auto simp: addRR_def absUpdate_def store_laws_on_def name_ok_def ClassIN_def ClassANY_def
        split: option.splits sum.splits prod.splits if_splits Option.bind_splits)
  have del: "contents (cluster h') = absUpdate env (contents (cluster h)) rr \<and> hZone h' = hZone h"
    if "deleteRR env h (uName rr) t (uRdata rr) = (None, h')" "RRtypeFromWire (uType rr) = Some t" "uClass rr = ClassNONE"
      "uTTL rr = 0" for t
    using that assms(1,3) deleteCR_refines [OF assms(1), of h]
    by (auto simp: deleteRR_def absUpdate_def name_ok_def ClassIN_def ClassANY_def ClassNONE_def
        split: option.splits prod.splits if_splits)
  show "contents (cluster h') = absUpdate env (contents (cluster h)) rr" "hZone h' = hZone h"
    using assms(2) add del deleteListed_refines [OF assms(1)]
    by (auto simp: processUpdate_def deleteAllAtName_def deleteRRset_def absUpdate_def
        split: option.splits if_splits)
qed

lemma processUpdates_refines:
  assumes "store_laws_on N (envK8s env) contents" "processUpdates env h rrs = Some (URcodeNoError, h')" "list_all (name_ok N env) rrs"
  shows "contents (cluster h') = foldl (absUpdate env) (contents (cluster h)) rrs"
  using assms(2,3)
proof (induction rrs arbitrary: h)
  case (Cons rr rrs)
  then obtain h1 where h1: "processUpdate env h rr = Some (None, h1)" "processUpdates env h1 rrs = Some (URcodeNoError, h')"
    by (auto simp: URcodeNoError_def URcodeServFail_def split: option.splits Option.bind_splits prod.splits)
  show ?case using Cons.IH [OF h1(2)] processUpdate_refines(1) [OF assms(1) h1(1)] Cons.prems(2) by simp
qed simp

subsection \<open>Totality\<close>

lemma addRR_total: "addRR env h fqdn rrtype rdata \<noteq> None"
  unfolding addRR_def Let_def by (simp add: bind_eq_None_conv ParseRdata_not_None del: not_None_eq split: option.split sum.split prod.split)

lemma processUpdate_total: "processUpdate env h rr \<noteq> None"
  unfolding processUpdate_def by (simp add: addRR_total del: not_None_eq split: option.split)

lemma processUpdates_total: "processUpdates env h rrs \<noteq> None"
proof (induction rrs arbitrary: h)
  case (Cons rr rrs)
  obtain err h1 where "processUpdate env h rr = Some (err, h1)" using processUpdate_total [of env h rr] by fastforce
  then show ?case using Cons [of h1] by (cases err) auto
qed simp

lemma HandleUpdate_total: "HandleUpdate env h msg \<noteq> None"
  using processUpdates_total by (auto simp: HandleUpdate_def split: option.splits)

subsection \<open>Success\<close>

text \<open>A cluster all of whose calls succeed, and an update record the handler can carry out.\<close>

definition reliable :: "'w K8sClient \<Rightarrow> bool" where
  "reliable k \<longleftrightarrow> (\<forall>w name rr. snd (ApplyOrUpdate k w name rr)) \<and> (\<forall>w. QueryLabelled k w \<noteq> None)
     \<and> (\<forall>w name. snd (Delete k w name))"

definition acceptable :: "'w update_env \<Rightarrow> WireRR \<Rightarrow> bool" where
  "acceptable env rr =
     (case RRtypeFromWire (uType rr) of
        None \<Rightarrow> True
      | Some t \<Rightarrow>
          (if uClass rr = ClassIN \<or> uClass rr = ClassNONE
           then CRName (envUni env) (envSHA256 env) sourceLabelValue t (uName rr) (uRdata rr) \<noteq> None
           else True) \<and>
          (if uClass rr = ClassIN
           then (case ParseRdata t (uRdata rr) of Some (Inr opts) \<Rightarrow> True | _ \<Rightarrow> False) else True))"

lemma deleteCR_succeeds: "reliable (envK8s env) \<Longrightarrow> \<exists>h'. deleteCR env h name = (None, h') \<and> hZone h' = hZone h"
  by (auto simp: deleteCR_def reliable_def split: prod.splits) (metis snd_conv)

lemma deleteMatching_succeeds:
  assumes "reliable (envK8s env)"
  shows "\<exists>h'. deleteMatching env P h objs = (None, h')"
proof (induction objs arbitrary: h)
  case (Cons obj objs)
  obtain name rr where "obj = (name, rr)" by fastforce
  then show ?case using Cons deleteCR_succeeds [OF assms, of h name] by auto
qed simp

lemma deleteListed_succeeds:
  assumes "reliable (envK8s env)" shows "\<exists>h'. deleteListed env P label h = (None, h')"
proof -
  obtain objs where "QueryLabelled (envK8s env) (cluster h) = Some objs"
    using assms unfolding reliable_def by blast
  then show ?thesis using deleteMatching_succeeds [OF assms, of P h objs] by (auto simp: deleteListed_def)
qed

lemma addRR_succeeds:
  assumes "reliable (envK8s env)" "CRName (envUni env) (envSHA256 env) sourceLabelValue t fqdn rdata = Some name"
    "ParseRdata t rdata = Some (Inr opts)"
  shows "\<exists>h'. addRR env h fqdn t rdata = Some (None, h')"
proof -
  obtain w where "ApplyOrUpdate (envK8s env) (cluster h) name \<lparr> Name = fqdn, RRtype = t, TTL = 60, Opts = opts \<rparr> = (w, True)"
    using assms(1) unfolding reliable_def by (metis prod.collapse)
  then show ?thesis using assms(2,3) by (simp add: addRR_def)
qed

lemma deleteRR_succeeds:
  assumes "reliable (envK8s env)" "CRName (envUni env) (envSHA256 env) sourceLabelValue t fqdn rdata = Some name"
  shows "\<exists>h'. deleteRR env h fqdn t rdata = (None, h')"
  using assms(2) deleteCR_succeeds [OF assms(1), of h name] by (auto simp: deleteRR_def)

lemma processUpdate_succeeds:
  assumes "reliable (envK8s env)" "acceptable env rr"
  shows "\<exists>h'. processUpdate env h rr = Some (None, h')"
  using assms(2) deleteListed_succeeds [OF assms(1)] addRR_succeeds [OF assms(1)] deleteRR_succeeds [OF assms(1)]
  by (auto simp: processUpdate_def deleteAllAtName_def deleteRRset_def acceptable_def
      split: option.splits sum.splits if_splits)

lemma processUpdates_succeed:
  assumes "reliable (envK8s env)" "list_all (acceptable env) rrs"
  shows "\<exists>h'. processUpdates env h rrs = Some (URcodeNoError, h')"
  using assms(2)
proof (induction rrs arbitrary: h)
  case (Cons rr rrs)
  then obtain h1 where "processUpdate env h rr = Some (None, h1)" using processUpdate_succeeds [OF assms(1)] by force
  then show ?case using Cons by simp
qed simp

lemma HandleUpdate_contents_on:
  assumes "store_laws_on N (envK8s env) contents" "HandleUpdate env h msg = Some (URcodeNoError, h')" "list_all (name_ok N env) (mUpdates msg)"
  shows "contents (cluster h') = foldl (absUpdate env) (contents (cluster h)) (mUpdates msg)"
  using assms(2,3) processUpdates_refines [OF assms(1)]
  by (auto simp: HandleUpdate_def URcodeNoError_def URcodeNotimp_def URcodeNotZone_def split: if_splits option.splits)

lemma HandleUpdate_contents:
  assumes "store_laws (envK8s env) contents" "HandleUpdate env h msg = Some (URcodeNoError, h')"
  shows "contents (cluster h') = foldl (absUpdate env) (contents (cluster h)) (mUpdates msg)"
  using HandleUpdate_contents_on [OF assms(1) [unfolded store_laws_def] assms(2)] by (simp add: name_ok_def list_all_iff split: option.split)

subsection \<open>Resource names\<close>

lemma length_HexEncode [simp]: "length (HexEncode bs) = 2 * length bs"
  by (induction bs) (auto simp: HexEncode_def)

lemma sanitizeFQDN_plain: "46 \<notin> set (sanitizeFQDN uni fqdn)" "95 \<notin> set (sanitizeFQDN uni fqdn)"
  by (auto simp: sanitizeFQDN_def Let_def dest!: set_dropWhileD split: if_splits)

subsection \<open>Properties\<close>

text \<open>A store kept as an association list, for the witnesses below.\<close>

definition list_store :: "(gostring \<times> RR) list K8sClient" where
  "list_store = \<lparr>
     ApplyOrUpdate = (\<lambda>w name rr. ((name, rr) # filter (\<lambda>x. fst x \<noteq> name) w, True)),
     QueryLabelled = (\<lambda>w. Some (AList.clearjunk w)),
     Delete = (\<lambda>w name. (filter (\<lambda>x. fst x \<noteq> name) w, True)) \<rparr>"

definition sample_env :: "(gostring \<times> RR) list update_env" where
  "sample_env = \<lparr> envUni = (\<lambda>s. s), envFold = (\<lambda>s t. s = t), envSHA256 = (\<lambda>d. replicate 32 0),
     envHMAC = (\<lambda>k d. replicate 32 (last (k @ d))), envK8s = list_store \<rparr>"

definition sample_handler :: "(gostring \<times> RR) list Handler" where
  "sample_handler = \<lparr> hZone = lit ''example.'', cluster = [], updatesTotal = [], updateErrors = [],
     crNameOverflows = 0 \<rparr>"

definition sample_add :: WireRR where
  "sample_add = \<lparr> uName = lit ''www.example.'', uType = 1, uClass = ClassIN, uTTL = 300, uRdlength = 4,
     uRdata = [192, 0, 2, 1] \<rparr>"

lemma list_store_laws: "store_laws list_store map_of"
proof -
  have f: "map_of (filter (\<lambda>x. fst x \<noteq> name) w) = (map_of w)(name := None)" for name and w :: "(gostring \<times> RR) list"
    by (induction w) auto
  show ?thesis by (auto simp: store_laws_def store_laws_on_def list_all_iff list_store_def f map_of_clearjunk distinct_clearjunk)
qed

lemma list_store_reliable: "reliable list_store"
  by (simp add: reliable_def list_store_def)

lemma sample_acceptable: "acceptable sample_env sample_add"
proof -
  have "RRtypeFromWire (uType sample_add) = Some TypeA" by code_simp
  moreover have "CRName (\<lambda>s. s) (\<lambda>d. replicate 32 0) sourceLabelValue TypeA (uName sample_add) (uRdata sample_add) \<noteq> None"
    by code_simp
  moreover have "ParseRdata TypeA (uRdata sample_add) = Some (Inr (RRoptsA (uRdata sample_add)))"
    by (simp add: ParseRdata_def ParseA_def sample_add_def)
  ultimately show ?thesis by (simp add: acceptable_def sample_env_def)
qed

lemma sample_added: obtains h' where "processUpdate sample_env sample_handler sample_add = Some (None, h')"
proof -
  have "reliable (envK8s sample_env)" by (simp add: sample_env_def list_store_reliable)
  then show ?thesis using that processUpdate_succeeds [OF _ sample_acceptable] by blast
qed



text \<open>Two owner names that differ in a dot, an underscore or a leading hyphen share a resource name
  for the same type and data, so that adding or deleting a record of one name acts on the resource of
  the other.\<close>

theorem CRName_collides:
  "CRName uni sha256 source rrtype (lit ''a.b.example.'') rdata = CRName uni sha256 source rrtype (lit ''a-b.example.'') rdata"
  "CRName uni sha256 source rrtype (lit ''_a.example.'') rdata = CRName uni sha256 source rrtype (lit ''a.example.'') rdata"
proof -
  have "sanitizeFQDN uni (lit ''a.b.example.'') = sanitizeFQDN uni (lit ''a-b.example.'')"
    "sanitizeFQDN uni (lit ''_a.example.'') = sanitizeFQDN uni (lit ''a.example.'')"
    by (simp_all add: sanitizeFQDN_def ToLower_def lit_def is_ascii_def TrimSuffix_def HasSuffix_def lower_byte_def)
  then show "CRName uni sha256 source rrtype (lit ''a.b.example.'') rdata = CRName uni sha256 source rrtype (lit ''a-b.example.'') rdata"
    "CRName uni sha256 source rrtype (lit ''_a.example.'') rdata = CRName uni sha256 source rrtype (lit ''a.example.'') rdata"
    by (simp_all add: CRName_def)
qed

end
