(* ===== verification/Update_Gateway.thy ===== *)
theory Update_Gateway
  imports Base64 Config Update_Handler
begin

text \<open>
  The UPDATE gateway, after \<^verbatim>\<open>internal/rfc2136/server.go\<close>, and reading a secret, after
  \<^verbatim>\<open>internal/k8s/client/secret.go\<close>: loading the TSIG key, one message from bytes to
  bytes, and the UDP and TCP front ends.

  The HTTP call for a secret is a parameter: its status code and the \<open>data\<close> object of the JSON
  body, if the body decodes. The clock readings of one message are arguments. Every message is
  handled by a goroutine of its own; the model runs the messages one after the other, in any order
  the list gives.
\<close>

subsection \<open>Secrets\<close>

type_synonym secret_api = "gostring \<Rightarrow> gostring \<Rightarrow> (nat \<times> (gostring \<times> gostring) list option) option"

datatype secret_error = SecretQueryFailed | SecretStatus nat | SecretBadJSON | SecretBadBase64 gostring

fun decodeFields :: "(gostring \<times> gostring) list \<Rightarrow> secret_error + (gostring \<times> bytes) list" where
  "decodeFields [] = Inr []"
| "decodeFields ((k, v) # kvs) =
     (case StdDecodeString v of
        None \<Rightarrow> Inl (SecretBadBase64 k)
      | Some decoded \<Rightarrow> (case decodeFields kvs of Inl err \<Rightarrow> Inl err | Inr result \<Rightarrow> Inr ((k, decoded) # result)))"

definition GetSecret :: "secret_api \<Rightarrow> gostring \<Rightarrow> gostring \<Rightarrow> secret_error + (gostring \<times> bytes) list" where
  "GetSecret api namespace name =
     (case api namespace name of
        None \<Rightarrow> Inl SecretQueryFailed
      | Some (status, body) \<Rightarrow>
          (if status \<noteq> 200 then Inl (SecretStatus status)
           else case body of None \<Rightarrow> Inl SecretBadJSON | Some kvs \<Rightarrow> decodeFields kvs))"

subsection \<open>The gateway\<close>

definition defaultListenPort :: int where "defaultListenPort = 5053"
definition maxUDPSize :: nat where "maxUDPSize = 4096"

record 'w Gateway =
  gCfg :: DNSConfigSpec
  gNamespace :: gostring
  tsigKey :: bytes
  tsigLoaded :: bool
  gHandler :: "'w Handler"

definition NewGateway :: "DNSConfigSpec \<Rightarrow> gostring \<Rightarrow> 'w \<Rightarrow> 'w Gateway" where
  "NewGateway cfg namespace w = \<lparr> gCfg = cfg, gNamespace = namespace, tsigKey = [], tsigLoaded = False,
     gHandler = \<lparr> hZone = globalZone (Global cfg), cluster = w, updatesTotal = [], updateErrors = [],
       crNameOverflows = 0 \<rparr> \<rparr>"

datatype gateway_error = TSIGSecretNotConfigured | TSIGSecretFailed secret_error | TSIGKeyMissing | TSIGKeyBadBase64

definition loadTSIGKey :: "secret_api \<Rightarrow> 'w Gateway \<Rightarrow> gateway_error option \<times> 'w Gateway" where
  "loadTSIGKey api g =
     (let secretName = TSIGSecret (cfgRFC2136 (gCfg g))
      in if secretName = [] then (Some TSIGSecretNotConfigured, g)
         else case GetSecret api (gNamespace g) secretName of
           Inl err \<Rightarrow> (Some (TSIGSecretFailed err), g)
         | Inr secretData \<Rightarrow>
             (case map_of secretData (lit ''tsigKey'') of
                None \<Rightarrow> (Some TSIGKeyMissing, g)
              | Some raw' \<Rightarrow>
                  (case StdDecodeString raw' of
                     None \<Rightarrow> (Some TSIGKeyBadBase64, g)
                   | Some key \<Rightarrow> (None, g \<lparr> tsigKey := key, tsigLoaded := True \<rparr>))))"

text \<open>Ready is \<open>StatusOK\<close> exactly if the key is loaded; the port of \<open>MainLoop\<close>.\<close>

definition GatewayReady :: "'w Gateway \<Rightarrow> bool" where
  "GatewayReady g \<longleftrightarrow> tsigLoaded g"

definition gatewayPort :: "'w Gateway \<Rightarrow> int" where
  "gatewayPort g = (let port = rfcListenPort (cfgRFC2136 (gCfg g)) in if port = 0 then defaultListenPort else port)"

text \<open>\<open>g.updateErrors.Inc(reason)\<close>; the counter is the handler's.\<close>

definition countError :: "gostring \<Rightarrow> 'w Gateway \<Rightarrow> 'w Gateway" where
  "countError reason g = g \<lparr> gHandler := (gHandler g) \<lparr> updateErrors := reason # updateErrors (gHandler g) \<rparr> \<rparr>"

text \<open>\<open>nowV\<close> is the time the signature is checked at, \<open>nowS\<close> the time the response is signed at.\<close>

definition processMessage ::
  "'w update_env \<Rightarrow> 64 word \<Rightarrow> 64 word \<Rightarrow> 'w Gateway \<Rightarrow> bytes \<Rightarrow> (bytes \<times> 'w Gateway) go" where
  "processMessage env nowV nowS g data = do {
     parsed \<leftarrow> ParseMessage data;
     (case parsed of
        Inl err \<Rightarrow>
          Some ((if 2 \<le> length data
                 then [data ! 0, data ! 1, 0x80, URcodeServFail, 0, 0, 0, 0, 0, 0, 0, 0]
                 else [0, 0, 0x80, URcodeServFail, 0, 0, 0, 0, 0, 0, 0, 0]),
                countError (lit ''parse'') g)
      | Inr msg \<Rightarrow>
          (if hOpcode (mHeader msg) \<noteq> OpcodeUpdate then Some (UBuildResponse msg URcodeNotimp, g)
           else do {
             valid \<leftarrow> ValidateTSIG (envUni env) (envHMAC env) msg (tsigKey g) nowV;
             (case valid of
                Inl err \<Rightarrow> do {
                  let resp = UBuildResponse msg URcodeRefused;
                  resp' \<leftarrow> (case mTSIG msg of Some t \<Rightarrow> appendUnsignedTSIG (envUni env) resp t nowS | None \<Rightarrow> Some resp);
                  Some (resp', countError (lit ''tsig'') g)
                }
              | Inr _ \<Rightarrow> do {
                  (rcode, h') \<leftarrow> HandleUpdate env (gHandler g) msg;
                  let resp = UBuildResponse msg rcode;
                  resp' \<leftarrow> (case mTSIG msg of
                              Some t \<Rightarrow> SignResponse (envUni env) (envHMAC env) resp t (tsigKey g) nowS
                            | None \<Rightarrow> Some resp);
                  Some (resp', g \<lparr> gHandler := h' \<rparr>)
                })
           }))
   }"

subsection \<open>The front ends\<close>

text \<open>One datagram: \<open>ReadFrom\<close> keeps what fits into the buffer.\<close>

definition receive :: "bytes \<Rightarrow> bytes" where
  "receive datagram = take maxUDPSize datagram"

text \<open>The datagrams \<open>serveUpdates\<close> reads, each with the two clock readings of its goroutine; the
  responses in the same order.\<close>

fun serveUpdates :: "'w update_env \<Rightarrow> 'w Gateway \<Rightarrow> (64 word \<times> 64 word \<times> bytes) list \<Rightarrow> (bytes list \<times> 'w Gateway) go" where
  "serveUpdates env g [] = Some ([], g)"
| "serveUpdates env g ((nowV, nowS, datagram) # rest) = do {
     (resp, g') \<leftarrow> processMessage env nowV nowS g (receive datagram);
     (resps, g'') \<leftarrow> serveUpdates env g' rest;
     Some (resp # resps, g'')
   }"

text \<open>\<open>handleTCP\<close>: \<open>inp\<close> is what the client sends before it closes or the deadline passes; the
  output is what is written to the connection, if anything.\<close>

definition handleTCP ::
  "'w update_env \<Rightarrow> 64 word \<Rightarrow> 64 word \<Rightarrow> 'w Gateway \<Rightarrow> bytes \<Rightarrow> (bytes option \<times> 'w Gateway) go" where
  "handleTCP env nowV nowS g inp =
     (if length inp < 2 then Some (None, g)
      else let msgLen = unat (inp ! 0) * 256 + unat (inp ! 1)
           in if msgLen = 0 then Some (None, g)
              else if length inp - 2 < msgLen then Some (None, g)
              else do {
                (resp, g') \<leftarrow> processMessage env nowV nowS g (take msgLen (drop 2 inp));
                Some (Some (byte_of (length resp div 256) # byte_of (length resp) # resp), g')
              })"

subsection \<open>Responses\<close>

lemma length_UBuildResponse [simp]: "length (UBuildResponse msg rcode) = 12"
  by (simp add: UBuildResponse_def Let_def)

lemma take_UBuildResponse: "take 2 (UBuildResponse msg rcode) = put16 (hID (mHeader msg))"
  by (simp add: UBuildResponse_def Let_def)

definition extends :: "bytes \<Rightarrow> bytes \<Rightarrow> bool" where
  "extends buf r \<longleftrightarrow> 12 \<le> length r \<and> take 10 r = take 10 buf"

lemma appendAdditional_extends: "12 \<le> length buf \<Longrightarrow> \<exists>r. appendAdditional buf rr = Some r \<and> extends buf r"
  by (simp add: appendAdditional_def be16_def extends_def)

lemma appendUnsignedTSIG_extends:
  assumes "12 \<le> length buf" shows "\<exists>r. appendUnsignedTSIG uni buf t now = Some r \<and> extends buf r"
proof -
  obtain p where p: "ParseTSIGRdata uni t = Some p" using ParseTSIGRdata_total [of uni t] by auto
  have "\<exists>i. be16 buf 0 = Some i" using assms by (simp add: be16_def)
  then show ?thesis using p appendAdditional_extends [OF assms] by (auto simp: appendUnsignedTSIG_def Let_def)
qed

lemma SignResponse_extends:
  assumes "12 \<le> length buf" shows "\<exists>r. SignResponse uni hmac buf t secret now = Some r \<and> extends buf r"
proof -
  obtain p where p: "ParseTSIGRdata uni t = Some p" using ParseTSIGRdata_total [of uni t] by auto
  have "\<exists>i. be16 buf 0 = Some i" using assms by (simp add: be16_def)
  then show ?thesis
    using p appendAdditional_extends [OF assms] appendUnsignedTSIG_extends [OF assms]
    by (cases p) (auto simp: SignResponse_def Let_def)
qed

lemma ParseMessage_id:
  assumes "ParseMessage data = Some (Inr msg)"
  shows "2 \<le> length data" "put16 (hID (mHeader msg)) = take 2 data"
proof -
  have len: "12 \<le> length data" and h: "parseHeader data = Some (mHeader msg)"
    using assms by (auto simp: ParseMessage_def tryE_Inr bind_eq_Some_conv split: if_splits)
  from len show "2 \<le> length data" by simp
  obtain a b rest where d: "data = a # b # rest" using len by (cases data; cases "tl data") auto
  have "be16 data 0 = Some (hID hdr)" if "parseHeader data = Some hdr" for hdr
    using that by (auto simp: parseHeader_def bind_eq_Some_conv)
  from this [OF h] have "hID (mHeader msg) = mk16 a b" unfolding d by (simp add: be16_def)
  then show "put16 (hID (mHeader msg)) = take 2 data" unfolding d by (simp add: put16_mk16)
qed

subsection \<open>One message\<close>

lemma processMessage_result:
  "\<exists>resp g'. processMessage env nowV nowS g data = Some (resp, g') \<and> 12 \<le> length resp \<and>
     take 2 resp = (if length data < 2 then [0, 0] else take 2 data)"
proof -
  obtain parsed where p: "ParseMessage data = Some parsed" using ParseMessage_not_None [of data] by auto
  show ?thesis
  proof (cases parsed)
    case (Inl err)
    have "take 2 data = [data ! 0, data ! 1]" if "2 \<le> length data"
      using that by (cases data; cases "tl data") auto
    then show ?thesis using p Inl by (auto simp: processMessage_def not_less)
  next
    case (Inr msg)
    note pid = ParseMessage_id [OF p [unfolded Inr]]
    have plain: "take 2 (UBuildResponse msg c) = take 2 data" for c using pid by (simp add: take_UBuildResponse)
    have ext: "12 \<le> length r" "take 2 r = take 2 data" if "extends (UBuildResponse msg c) r" for r c
    proof -
      have "take 2 (take 10 r) = take 2 (take 10 (UBuildResponse msg c))" using that by (simp add: extends_def)
      then show "12 \<le> length r" "take 2 r = take 2 data" using that plain by (simp_all add: extends_def)
    qed
    have self: "extends (UBuildResponse msg c) (UBuildResponse msg c)" for c by (simp add: extends_def)
    obtain v where v: "ValidateTSIG (envUni env) (envHMAC env) msg (tsigKey g) nowV = Some v"
      using ValidateTSIG_total [of "envUni env" "envHMAC env" msg "tsigKey g" nowV] by auto
    obtain c h' where h: "HandleUpdate env (gHandler g) msg = Some (c, h')"
      using HandleUpdate_total [of env "gHandler g" msg] by auto
    have "\<exists>r. (case mTSIG msg of Some t \<Rightarrow> appendUnsignedTSIG (envUni env) (UBuildResponse msg URcodeRefused) t nowS
        | None \<Rightarrow> Some (UBuildResponse msg URcodeRefused)) = Some r \<and> extends (UBuildResponse msg URcodeRefused) r"
      "\<exists>r. (case mTSIG msg of Some t \<Rightarrow> SignResponse (envUni env) (envHMAC env) (UBuildResponse msg c) t (tsigKey g) nowS
        | None \<Rightarrow> Some (UBuildResponse msg c)) = Some r \<and> extends (UBuildResponse msg c) r"
      using self appendUnsignedTSIG_extends SignResponse_extends by (auto split: option.split)
    then show ?thesis
      using p Inr v h ext plain pid(1) by (cases v) (auto simp: processMessage_def)
  qed
qed

text \<open>A message the gateway may act on: it parses, is an UPDATE, and its signature is accepted.\<close>

definition authentic :: "'w update_env \<Rightarrow> bytes \<Rightarrow> 64 word \<Rightarrow> bytes \<Rightarrow> bool" where
  "authentic env key nowV data =
     (case ParseMessage data of
        Some (Inr msg) \<Rightarrow> hOpcode (mHeader msg) = OpcodeUpdate \<and>
          ValidateTSIG (envUni env) (envHMAC env) msg key nowV = Some (Inr ())
      | _ \<Rightarrow> False)"

lemma processMessage_cases:
  assumes "processMessage env nowV nowS g data = Some (resp, g')"
  obtains (unchanged) reason where "g' = g \<or> g' = countError reason g" "\<not> authentic env (tsigKey g) nowV data"
  | (handled) msg rcode h' where "ParseMessage data = Some (Inr msg)" "authentic env (tsigKey g) nowV data"
      "HandleUpdate env (gHandler g) msg = Some (rcode, h')" "g' = g \<lparr> gHandler := h' \<rparr>"
proof -
  obtain parsed where p: "ParseMessage data = Some parsed" using ParseMessage_not_None [of data] by auto
  show ?thesis
  proof (cases parsed)
    case (Inl err)
    then show ?thesis using unchanged assms p by (auto simp: processMessage_def authentic_def)
  next
    case (Inr msg)
    obtain v where v: "ValidateTSIG (envUni env) (envHMAC env) msg (tsigKey g) nowV = Some v"
      using ValidateTSIG_total [of "envUni env" "envHMAC env" msg "tsigKey g" nowV] by auto
    show ?thesis
    proof (cases "hOpcode (mHeader msg) = OpcodeUpdate")
      case False
      then show ?thesis using unchanged assms p Inr by (auto simp: processMessage_def authentic_def)
    next
      case True
      show ?thesis
      proof (cases v)
        case (Inl err)
        then show ?thesis
          using unchanged assms p v True \<open>parsed = Inr msg\<close>
          by (auto simp: processMessage_def authentic_def bind_eq_Some_conv Let_def)
      next
        case (Inr u)
        then show ?thesis
          using handled assms p v True \<open>parsed = Inr msg\<close>
          by (auto simp: processMessage_def authentic_def bind_eq_Some_conv Let_def)
      qed
    qed
  qed
qed

lemma processMessage_key:
  assumes "processMessage env nowV nowS g data = Some (resp, g')" shows "tsigKey g' = tsigKey g"
  using assms by (cases rule: processMessage_cases) (auto simp: countError_def)

lemma processMessage_unauthentic:
  assumes "processMessage env nowV nowS g data = Some (resp, g')" "\<not> authentic env (tsigKey g) nowV data"
  shows "cluster (gHandler g') = cluster (gHandler g)"
  using assms by (cases rule: processMessage_cases) (auto simp: countError_def)

lemma processMessage_authentic:
  assumes "ParseMessage data = Some (Inr msg)" "hOpcode (mHeader msg) = OpcodeUpdate"
    and "ValidateTSIG (envUni env) (envHMAC env) msg (tsigKey g) nowV = Some (Inr ())"
    and "HandleUpdate env (gHandler g) msg = Some (rcode, h')"
  shows "\<exists>resp. processMessage env nowV nowS g data = Some (resp, g \<lparr> gHandler := h' \<rparr>)
    \<and> take 10 resp = take 10 (UBuildResponse msg rcode)"
proof -
  let ?r = "UBuildResponse msg rcode"
  have "\<exists>r. (case mTSIG msg of Some t \<Rightarrow> SignResponse (envUni env) (envHMAC env) ?r t (tsigKey g) nowS
      | None \<Rightarrow> Some ?r) = Some r \<and> extends ?r r"
    using SignResponse_extends [of ?r] by (auto simp: extends_def split: option.split)
  then obtain r where "(case mTSIG msg of Some t \<Rightarrow> SignResponse (envUni env) (envHMAC env) ?r t (tsigKey g) nowS
      | None \<Rightarrow> Some ?r) = Some r" "extends ?r r" by blast
  with assms show ?thesis by (auto simp: processMessage_def extends_def Let_def)
qed

lemma serveUpdates_result: "\<exists>resps g'. serveUpdates env g msgs = Some (resps, g') \<and> length resps = length msgs"
proof (induction msgs arbitrary: g)
  case (Cons m msgs)
  obtain nowV nowS d where m: "m = (nowV, nowS, d)" by (cases m)
  obtain resp g1 where "processMessage env nowV nowS g (receive d) = Some (resp, g1)"
    using processMessage_result by blast
  then show ?case using Cons [of g1] m by auto
qed simp

text \<open>None of the datagrams is authentic.\<close>

definition forged :: "'w update_env \<Rightarrow> bytes \<Rightarrow> 64 word \<times> 64 word \<times> bytes \<Rightarrow> bool" where
  "forged env key m = (case m of (nowV, nowS, datagram) \<Rightarrow> \<not> authentic env key nowV (receive datagram))"

lemma serveUpdates_forged:
  assumes "list_all (forged env (tsigKey g)) msgs" "serveUpdates env g msgs = Some (resps, g')"
  shows "cluster (gHandler g') = cluster (gHandler g)"
  using assms
proof (induction msgs arbitrary: g resps)
  case (Cons m msgs)
  obtain nowV nowS d where m: "m = (nowV, nowS, d)" by (cases m)
  with Cons.prems obtain resp g1 resps' where g1: "processMessage env nowV nowS g (receive d) = Some (resp, g1)"
    and r: "serveUpdates env g1 msgs = Some (resps', g')" by (auto simp: bind_eq_Some_conv)
  have "cluster (gHandler g1) = cluster (gHandler g)"
    using processMessage_unauthentic [OF g1] Cons.prems(1) m by (simp add: forged_def)
  moreover have "cluster (gHandler g') = cluster (gHandler g1)"
    using Cons.IH [OF _ r] Cons.prems(1) processMessage_key [OF g1] by simp
  ultimately show ?case by simp
qed simp

subsection \<open>Loading the key\<close>

lemma decodeFields_lookup:
  assumes "list_all (\<lambda>kv. StdDecodeString (snd kv) \<noteq> None) kvs"
  shows "\<exists>result. decodeFields kvs = Inr result \<and> map_of result k = Option.bind (map_of kvs k) StdDecodeString"
  using assms
proof (induction kvs)
  case (Cons kv kvs)
  obtain k' v where "kv = (k', v)" by fastforce
  with Cons show ?case by auto
qed simp

subsection \<open>Properties\<close>

text \<open>C36: \<open>processMessage\<close> returns a response for every byte string, in every state, whatever the
  cluster does and however malformed the message is: it never panics, the response has at least a
  full header, and it carries the ID of the message (zero if the message has no two bytes).\<close>

theorem processMessage_answers:
  "\<exists>resp g'. processMessage env nowV nowS g data = Some (resp, g') \<and> 12 \<le> length resp \<and>
     take 2 resp = (if length data < 2 then [0, 0] else take 2 data)"
  by (rule processMessage_result)

text \<open>C4: Only the holder of the TSIG key changes records: whatever datagrams the gateway is sent, as
  long as none of them is an UPDATE whose signature is accepted at the time it is handled, all are
  answered and the records in the cluster are untouched.\<close>

theorem unauthenticated_changes_nothing:
  assumes "list_all (forged env (tsigKey g)) msgs"
  shows "\<exists>resps g'. serveUpdates env g msgs = Some (resps, g') \<and> length resps = length msgs
    \<and> cluster (gHandler g') = cluster (gHandler g)"
  using serveUpdates_result [of env g msgs] serveUpdates_forged [OF assms] by blast

definition sample_gateway :: "(gostring \<times> RR) list Gateway" where
  "sample_gateway = \<lparr> gCfg = zeroConfig, gNamespace = [], tsigKey = [1, 2], tsigLoaded = True,
     gHandler = sample_handler \<rparr>"

lemma sample_cluster: "cluster (gHandler sample_gateway) = []"
  by (simp add: sample_gateway_def sample_handler_def)

theorem unauthenticated_changes_nothing_witness:
  "\<exists>resps g'. serveUpdates sample_env sample_gateway [(0, 0, []), (5, 6, [1, 2, 3])] = Some (resps, g')
    \<and> length resps = 2 \<and> cluster (gHandler g') = []"
proof -
  have "authentic sample_env [1, 2] 0 [] = False" "authentic sample_env [1, 2] 5 [1, 2, 3] = False"
    by (simp_all add: authentic_def ParseMessage_def)
  then have "list_all (forged sample_env (tsigKey sample_gateway)) [(0, 0, []), (5, 6, [1, 2, 3])]"
    by (simp add: forged_def sample_gateway_def receive_def maxUDPSize_def)
  from unauthenticated_changes_nothing [OF this] show ?thesis
    by (simp add: sample_cluster numeral_2_eq_2 del: serveUpdates.simps)
qed



text \<open>The key an operator puts into the secret is the key that checks the signatures: if the
  secret's fields are base64 text and the field \<open>tsigKey\<close> holds the base64 text of the key (encoded once
  more by Kubernetes), then \<open>loadTSIGKey\<close> stores the key and the gateway becomes ready.\<close>

theorem loadTSIGKey_loads:
  assumes "TSIGSecret (cfgRFC2136 (gCfg g)) \<noteq> []"
    and "api (gNamespace g) (TSIGSecret (cfgRFC2136 (gCfg g))) = Some (200, Some kvs)"
    and "list_all (\<lambda>kv. StdDecodeString (snd kv) \<noteq> None) kvs"
    and "map_of kvs (lit ''tsigKey'') = Some (StdEncodeToString (StdEncodeToString key))"
  shows "\<exists>g'. loadTSIGKey api g = (None, g') \<and> GatewayReady g' \<and> tsigKey g' = key \<and> gHandler g' = gHandler g"
proof -
  obtain result where "decodeFields kvs = Inr result" "map_of result (lit ''tsigKey'') = Some (StdEncodeToString key)"
    using decodeFields_lookup [OF assms(3), of "lit ''tsigKey''"] assms(4) by (auto simp: StdDecode_Encode)
  then show ?thesis
    using assms(1,2) by (simp add: loadTSIGKey_def GetSecret_def Let_def StdDecode_Encode GatewayReady_def)
qed

theorem loadTSIGKey_loads_witness:
  "\<exists>(g :: unit Gateway) g'. loadTSIGKey (\<lambda>namespace name. Some (200, Some [(lit ''tsigKey'', StdEncodeToString (StdEncodeToString [1, 2, 3]))])) g
     = (None, g') \<and> GatewayReady g' \<and> tsigKey g' = [1, 2, 3] \<and> \<not> GatewayReady g"
proof -
  let ?kvs = "[(lit ''tsigKey'', StdEncodeToString (StdEncodeToString [1, 2, 3]))]"
  let ?g = "NewGateway (zeroConfig \<lparr> cfgRFC2136 := \<lparr> rfcListenPort = 0, TSIGSecret = lit ''s'', TSIGName = [] \<rparr> \<rparr>) [] ()"
  have "TSIGSecret (cfgRFC2136 (gCfg ?g)) \<noteq> []" by (simp add: NewGateway_def lit_def)
  from loadTSIGKey_loads [OF this, where api = "\<lambda>namespace name. Some (200, Some ?kvs)" and kvs = ?kvs and key = "[1, 2, 3]"]
  obtain g' where "loadTSIGKey (\<lambda>namespace name. Some (200, Some ?kvs)) ?g = (None, g')" "GatewayReady g'" "tsigKey g' = [1, 2, 3]"
    by (auto simp: StdDecode_Encode)
  moreover have "\<not> GatewayReady ?g" by (simp add: NewGateway_def GatewayReady_def)
  ultimately show ?thesis by blast
qed

end
