(* ===== verification/DNSSEC_Keys.thy ===== *)
theory DNSSEC_Keys
  imports Base64 Config RR_Types
begin

text \<open>
  Keys, after \<^verbatim>\<open>internal/crypto/dnskey.go\<close>, \<^verbatim>\<open>internal/crypto/private.go\<close> and
  \<^verbatim>\<open>internal/dnssec/keys.go\<close>: the presentation format of DNSKEY records, BIND private-key files, key
  tags, and loading the signing keys.

  The arithmetic behind a key is a parameter (\<open>key_algebra\<close>): whether a scalar is a valid private
  key of a curve, and the public key of a seed or scalar. What \<open>strings.Fields\<close> and
  \<open>strings.TrimSpace\<close> do to strings that are not ASCII is decided by the Unicode tables and a
  parameter as well.
\<close>

subsection \<open>White space and numbers\<close>

record text_tables =
  uniFields :: "gostring \<Rightarrow> gostring list"
  uniTrim :: "gostring \<Rightarrow> gostring"
  uniFold :: unifold

definition is_space :: "byte \<Rightarrow> bool" where
  "is_space b \<longleftrightarrow> b = 32 \<or> (9 \<le> b \<and> b \<le> 13)"

text \<open>The maximal runs of characters that are not white space.\<close>

function fieldsOf :: "gostring \<Rightarrow> gostring list" where
  "fieldsOf s =
     (let s' = dropWhile is_space s
      in if s' = [] then [] else takeWhile (\<lambda>b. \<not> is_space b) s' # fieldsOf (dropWhile (\<lambda>b. \<not> is_space b) s'))"
  by pat_completeness auto
termination
proof (relation "measure length", simp)
  fix s s' :: gostring
  assume s': "s' = dropWhile is_space s" "s' \<noteq> []"
  then have "\<not> is_space (hd s')" by (metis hd_dropWhile)
  then have "length (dropWhile (\<lambda>b. \<not> is_space b) s') < length s'"
    using s'(2) by (cases s') (auto simp: le_imp_less_Suc length_dropWhile_le)
  also have "length s' \<le> length s" unfolding s'(1) by (rule length_dropWhile_le)
  finally show "(dropWhile (\<lambda>b. \<not> is_space b) s', s) \<in> measure length" by simp
qed

declare fieldsOf.simps [simp del]

definition Fields :: "text_tables \<Rightarrow> gostring \<Rightarrow> gostring list" where
  "Fields tt s = (if is_ascii s then fieldsOf s else uniFields tt s)"

definition TrimSpace :: "text_tables \<Rightarrow> gostring \<Rightarrow> gostring" where
  "TrimSpace tt s =
     (if is_ascii s then rev (dropWhile is_space (rev (dropWhile is_space s))) else uniTrim tt s)"

definition digit :: "byte \<Rightarrow> bool" where
  "digit b \<longleftrightarrow> 48 \<le> b \<and> b \<le> 57"

definition decimal :: "gostring \<Rightarrow> nat" where
  "decimal s = foldl (\<lambda>n b. 10 * n + (unat b - 48)) 0 s"

text \<open>\<open>strconv.ParseUint(s, 10, bits)\<close>.\<close>

definition ParseUint :: "gostring \<Rightarrow> nat \<Rightarrow> nat option" where
  "ParseUint s bits =
     (if s \<noteq> [] \<and> list_all digit s \<and> decimal s < 2 ^ bits then Some (decimal s) else None)"

definition HasPrefix :: "gostring \<Rightarrow> gostring \<Rightarrow> bool" where
  "HasPrefix s p \<longleftrightarrow> take (length p) s = p"

subsection \<open>DNSKEY records\<close>

record DNSKEYRecord =
  kOwner :: gostring
  kTTL :: "32 word"
  kFlags :: "16 word"
  kProtocol :: byte
  kAlgorithm :: byte
  kPublicKey :: bytes

datatype dnskey_error =
    DNSKEYTooFewFields nat | DNSKEYBadClass gostring | DNSKEYBadType gostring | DNSKEYBadFlags gostring
  | DNSKEYBadProtocol gostring | DNSKEYBadAlgorithm gostring | DNSKEYBadKey

definition ParseDNSKEY :: "text_tables \<Rightarrow> gostring \<Rightarrow> dnskey_error + DNSKEYRecord" where
  "ParseDNSKEY tt str =
     (let fs = Fields tt (filter (\<lambda>b. b \<noteq> 40 \<and> b \<noteq> 41) str)
      in if length fs < 7 then Inl (DNSKEYTooFewFields (length fs))
         else let (ttl, i) = (case ParseUint (fs ! 1) 32 of Some n \<Rightarrow> (n, 2) | None \<Rightarrow> (0, 1))
              in if length fs < i + 6 then Inl (DNSKEYTooFewFields (length fs))
                 else if \<not> EqualFold (uniFold tt) (fs ! i) (lit ''IN'') then Inl (DNSKEYBadClass (fs ! i))
                 else if \<not> EqualFold (uniFold tt) (fs ! (i + 1)) (lit ''DNSKEY'') then Inl (DNSKEYBadType (fs ! (i + 1)))
                 else case ParseUint (fs ! (i + 2)) 16 of
                   None \<Rightarrow> Inl (DNSKEYBadFlags (fs ! (i + 2)))
                 | Some flags \<Rightarrow>
                     (case ParseUint (fs ! (i + 3)) 8 of
                        None \<Rightarrow> Inl (DNSKEYBadProtocol (fs ! (i + 3)))
                      | Some proto \<Rightarrow>
                          (case ParseUint (fs ! (i + 4)) 8 of
                             None \<Rightarrow> Inl (DNSKEYBadAlgorithm (fs ! (i + 4)))
                           | Some alg \<Rightarrow>
                               (let keyParts = takeWhile (\<lambda>f. \<not> HasPrefix f (lit '';'')) (drop (i + 5) fs)
                                in case StdDecodeString (concat keyParts) of
                                  None \<Rightarrow> Inl DNSKEYBadKey
                                | Some pubKey \<Rightarrow>
                                    Inr \<lparr> kOwner = fs ! 0, kTTL = of_nat ttl, kFlags = of_nat flags,
                                          kProtocol = of_nat proto, kAlgorithm = of_nat alg, kPublicKey = pubKey \<rparr>))))"

definition IsKSK :: "DNSKEYRecord \<Rightarrow> bool" where "IsKSK k \<longleftrightarrow> kFlags k = 257"
definition IsZSK :: "DNSKEYRecord \<Rightarrow> bool" where "IsZSK k \<longleftrightarrow> kFlags k = 256"

text \<open>The checksum loop: \<open>ev\<close> tells the parity of the index.\<close>

fun keyTagSum :: "bool \<Rightarrow> 32 word \<Rightarrow> bytes \<Rightarrow> 32 word" where
  "keyTagSum ev ac [] = ac"
| "keyTagSum ev ac (b # bs) = keyTagSum (\<not> ev) (ac + (if ev then push_bit 8 (ucast b) else ucast b)) bs"

definition KeyTag :: "DNSKEYRecord \<Rightarrow> 16 word" where
  "KeyTag k =
     (if kAlgorithm k = 1
      then (let n = length (kPublicKey k)
            in if n < 2 then 0 else mk16 (kPublicKey k ! (n - 2)) (kPublicKey k ! (n - 1)))
      else let ac = keyTagSum True 0 (put16 (kFlags k) @ [kProtocol k, kAlgorithm k] @ kPublicKey k);
               ac' = ac + drop_bit 16 ac
           in ucast (ac' AND 0xFFFF))"

subsection \<open>Private keys\<close>

datatype Curve = P256 | P384

datatype Signer =
    Ed25519Key bytes
  | ECDSAKey Curve bytes
  | RSAKey nat int nat "nat list" "nat list"

record PrivateKey =
  pkAlgorithm :: byte
  pkKey :: Signer

text \<open>What the model takes from the arithmetic of the key types.\<close>

record key_algebra =
  edPublic :: "bytes \<Rightarrow> bytes"
  ecValid :: "Curve \<Rightarrow> bytes \<Rightarrow> bool"
  ecPublic :: "Curve \<Rightarrow> bytes \<Rightarrow> nat \<times> nat"

datatype key_error =
    MissingFormat | BadFormat gostring | MissingAlgorithm | BadAlgorithm gostring | UnsupportedAlgorithm byte
  | MissingField gostring | BadBase64 gostring | BadSeed nat | BadScalar byte | BadKeyType gostring

text \<open>The lines of the file, read into a map; a later line of the same key wins.\<close>

fun parseKVLines :: "text_tables \<Rightarrow> (gostring \<rightharpoonup> gostring) \<Rightarrow> gostring list \<Rightarrow> (gostring \<rightharpoonup> gostring)" where
  "parseKVLines tt m [] = m"
| "parseKVLines tt m (l # ls) =
     (let line = TrimSpace tt l
      in if line = [] \<or> HasPrefix line (lit '';'') then parseKVLines tt m ls
         else case IndexByte line 58 of
           None \<Rightarrow> parseKVLines tt m ls
         | Some idx \<Rightarrow>
             parseKVLines tt (m(TrimSpace tt (take idx line) \<mapsto> TrimSpace tt (drop (Suc idx) line))) ls)"

definition parseKV :: "text_tables \<Rightarrow> gostring \<Rightarrow> (gostring \<rightharpoonup> gostring)" where
  "parseKV tt s = parseKVLines tt Map.empty (Split 10 s)"

text \<open>\<open>fmt.Sscanf\<close> with the verb \<open>%d\<close> for a \<open>uint8\<close>: the leading digits; what follows is ignored.\<close>

definition parseAlgNum :: "text_tables \<Rightarrow> gostring \<Rightarrow> key_error + byte" where
  "parseAlgNum tt s =
     (case Fields tt s of
        [] \<Rightarrow> Inl (BadAlgorithm [])
      | tok # _ \<Rightarrow>
          (let ds = takeWhile digit tok
           in if ds = [] \<or> 256 \<le> decimal ds then Inl (BadAlgorithm tok) else Inr (of_nat (decimal ds))))"

definition decodeB64Field :: "(gostring \<rightharpoonup> gostring) \<Rightarrow> gostring \<Rightarrow> key_error + bytes" where
  "decodeB64Field fs name =
     (case fs name of
        None \<Rightarrow> Inl (MissingField name)
      | Some v \<Rightarrow> (case StdDecodeString v of None \<Rightarrow> Inl (BadBase64 name) | Some b \<Rightarrow> Inr b))"

text \<open>\<open>big.Int.SetBytes\<close> and \<open>big.Int.Bytes\<close>.\<close>

definition SetBytes :: "bytes \<Rightarrow> nat" where
  "SetBytes bs = foldl (\<lambda>n b. 256 * n + unat b) 0 bs"

fun natBytes :: "nat \<Rightarrow> bytes" where
  "natBytes n = (if n = 0 then [] else natBytes (n div 256) @ [of_nat (n mod 256)])"

declare natBytes.simps [simp del]

definition decodeBigInt :: "(gostring \<rightharpoonup> gostring) \<Rightarrow> gostring \<Rightarrow> key_error + nat" where
  "decodeBigInt fs name = map_sum id SetBytes (decodeB64Field fs name)"

definition bindE :: "'e + 'a \<Rightarrow> ('a \<Rightarrow> 'e + 'b) \<Rightarrow> 'e + 'b" where
  "bindE r f = (case r of Inl e \<Rightarrow> Inl e | Inr x \<Rightarrow> f x)"

lemma bindE_simps [simp]: "bindE (Inl e) f = Inl e" "bindE (Inr x) f = f x"
  by (simp_all add: bindE_def)

lemma bindE_Inr: "bindE r f = Inr y \<longleftrightarrow> (\<exists>x. r = Inr x \<and> f x = Inr y)"
  by (cases r) simp_all

definition parseED25519 :: "(gostring \<rightharpoonup> gostring) \<Rightarrow> key_error + PrivateKey" where
  "parseED25519 fs = bindE (decodeB64Field fs (lit ''PrivateKey'')) (\<lambda>seed.
     if length seed \<noteq> 32 then Inl (BadSeed (length seed)) else Inr \<lparr> pkAlgorithm = 15, pkKey = Ed25519Key seed \<rparr>)"

definition parseECDSA :: "key_algebra \<Rightarrow> (gostring \<rightharpoonup> gostring) \<Rightarrow> Curve \<Rightarrow> byte \<Rightarrow> key_error + PrivateKey" where
  "parseECDSA ka fs curve alg = bindE (decodeB64Field fs (lit ''PrivateKey'')) (\<lambda>scalar.
     if \<not> ecValid ka curve scalar then Inl (BadScalar alg) else Inr \<lparr> pkAlgorithm = alg, pkKey = ECDSAKey curve scalar \<rparr>)"

text \<open>\<open>int(ePub.Int64())\<close> keeps the low 64 bits as a signed number.\<close>

definition parseRSA :: "(gostring \<rightharpoonup> gostring) \<Rightarrow> key_error + PrivateKey" where
  "parseRSA fs =
     bindE (decodeBigInt fs (lit ''Modulus'')) (\<lambda>n.
     bindE (decodeBigInt fs (lit ''PublicExponent'')) (\<lambda>ePub.
     bindE (decodeBigInt fs (lit ''PrivateExponent'')) (\<lambda>d.
     bindE (decodeBigInt fs (lit ''Prime1'')) (\<lambda>p1.
     bindE (decodeBigInt fs (lit ''Prime2'')) (\<lambda>p2.
     bindE (decodeBigInt fs (lit ''Exponent1'')) (\<lambda>exp1.
     bindE (decodeBigInt fs (lit ''Exponent2'')) (\<lambda>exp2.
     bindE (decodeBigInt fs (lit ''Coefficient'')) (\<lambda>coeff.
       Inr \<lparr> pkAlgorithm = 8, pkKey = RSAKey n (sint (of_nat ePub :: 64 word)) d [p1, p2] [exp1, exp2, coeff] \<rparr>))))))))"

definition ParsePrivateKey :: "text_tables \<Rightarrow> key_algebra \<Rightarrow> gostring \<Rightarrow> key_error + PrivateKey" where
  "ParsePrivateKey tt ka s =
     (let fs = parseKV tt s
      in case fs (lit ''Private-key-format'') of
        None \<Rightarrow> Inl MissingFormat
      | Some fmtVal \<Rightarrow>
          (if \<not> HasPrefix fmtVal (lit ''v1'') then Inl (BadFormat fmtVal)
           else case fs (lit ''Algorithm'') of
             None \<Rightarrow> Inl MissingAlgorithm
           | Some algStr \<Rightarrow>
               bindE (parseAlgNum tt algStr) (\<lambda>algNum.
                 if algNum = 15 then parseED25519 fs
                 else if algNum = 13 then parseECDSA ka fs P256 13
                 else if algNum = 14 then parseECDSA ka fs P384 14
                 else if algNum = 8 then parseRSA fs
                 else Inl (UnsupportedAlgorithm algNum))))"

subsection \<open>Signing keys\<close>

definition dnskeyTTL :: "32 word" where "dnskeyTTL = 3600"

record SigningKey =
  skDNSKEY :: DNSKEYRecord
  skPrivateKey :: PrivateKey

record KeySecret =
  secKeyType :: gostring
  secPrivateKey :: gostring

text \<open>A number right-aligned in \<open>sz\<close> bytes; a longer number is a slice out of bounds.\<close>

definition alignRight :: "nat \<Rightarrow> nat \<Rightarrow> bytes go" where
  "alignRight sz n = (if sz < length (natBytes n) then None else Some (replicate (sz - length (natBytes n)) 0 @ natBytes n))"

definition curveSize :: "Curve \<Rightarrow> nat" where
  "curveSize c = (case c of P256 \<Rightarrow> 32 | P384 \<Rightarrow> 48)"

definition derivedPublicKeyBytes :: "key_algebra \<Rightarrow> PrivateKey \<Rightarrow> (key_error + bytes) go" where
  "derivedPublicKeyBytes ka priv =
     (if pkAlgorithm priv = 15
      then (case pkKey priv of Ed25519Key seed \<Rightarrow> Some (Inr (edPublic ka seed)) | _ \<Rightarrow> Some (Inl (BadKeyType (lit ''ed25519''))))
      else if pkAlgorithm priv = 13 \<or> pkAlgorithm priv = 14
      then (case pkKey priv of
              ECDSAKey curve scalar \<Rightarrow>
                (let sz = (if pkAlgorithm priv = 14 then 48 else 32); (x, y) = ecPublic ka curve scalar
                 in do { xs \<leftarrow> alignRight sz x; ys \<leftarrow> alignRight sz y; Some (Inr (xs @ ys)) })
            | _ \<Rightarrow> Some (Inl (BadKeyType (lit ''ecdsa''))))
      else if pkAlgorithm priv = 8
      then (case pkKey priv of
              RSAKey n e d ps pre \<Rightarrow>
                (let eBytes = natBytes (nat \<bar>e\<bar>)
                 in Some (Inr ((if 255 < length eBytes then 0 # put16 (u16_of (length eBytes)) else [byte_of (length eBytes)])
                               @ eBytes @ natBytes n)))
            | _ \<Rightarrow> Some (Inl (BadKeyType (lit ''rsa''))))
      else Some (Inl (UnsupportedAlgorithm (pkAlgorithm priv))))"

definition parseOneKey :: "text_tables \<Rightarrow> key_algebra \<Rightarrow> KeySecret \<Rightarrow> Domain \<Rightarrow> (key_error + SigningKey) go" where
  "parseOneKey tt ka sec zone =
     (case (if secKeyType sec = lit ''ksk'' then Some 257 else if secKeyType sec = lit ''zsk'' then Some 256 else None) of
        None \<Rightarrow> Some (Inl (BadKeyType (secKeyType sec)))
      | Some flags \<Rightarrow>
          (case ParsePrivateKey tt ka (secPrivateKey sec) of
             Inl err \<Rightarrow> Some (Inl err)
           | Inr priv \<Rightarrow>
               tryE (derivedPublicKeyBytes ka priv) (\<lambda>pubBytes.
                 Some (Inr \<lparr> skDNSKEY = \<lparr> kOwner = zone, kTTL = dnskeyTTL, kFlags = flags, kProtocol = 3,
                              kAlgorithm = pkAlgorithm priv, kPublicKey = pubBytes \<rparr>,
                            skPrivateKey = priv \<rparr>))))"

text \<open>The loop of \<open>LoadKeys\<close>: the keys and the errors, in order.\<close>

fun loadEach :: "text_tables \<Rightarrow> key_algebra \<Rightarrow> Domain \<Rightarrow> KeySecret list \<Rightarrow> (SigningKey list \<times> key_error list) go" where
  "loadEach tt ka zone [] = Some ([], [])"
| "loadEach tt ka zone (sec # secs) = do {
     r \<leftarrow> parseOneKey tt ka sec zone;
     (keys, errs) \<leftarrow> loadEach tt ka zone secs;
     Some (case r of Inl err \<Rightarrow> (keys, err # errs) | Inr key \<Rightarrow> (key # keys, errs))
   }"

definition LoadKeys :: "text_tables \<Rightarrow> key_algebra \<Rightarrow> KeySecret list \<Rightarrow> Domain \<Rightarrow> (key_error list + SigningKey list) go" where
  "LoadKeys tt ka secrets zone = do {
     (keys, errs) \<leftarrow> loadEach tt ka zone secrets;
     Some (if 0 < length errs then Inl errs else Inr keys)
   }"

subsection \<open>Numbers as bytes\<close>

lemma SetBytes_append: "SetBytes (bs @ [b]) = 256 * SetBytes bs + unat b"
  by (simp add: SetBytes_def)

lemma SetBytes_natBytes [simp]: "SetBytes (natBytes n) = n"
proof (induction n rule: natBytes.induct)
  case (1 n)
  show ?case
  proof (cases "n = 0")
    case True
    then show ?thesis by (simp add: natBytes.simps SetBytes_def)
  next
    case False
    have "unat (of_nat (n mod 256) :: byte) = n mod 256" by (simp add: unat_of_nat)
    then show ?thesis using 1 False by (subst natBytes.simps) (simp add: SetBytes_append)
  qed
qed

lemma length_natBytes: "n < 256 ^ k \<Longrightarrow> length (natBytes n) \<le> k"
proof (induction k arbitrary: n)
  case 0
  then show ?case by (simp add: natBytes.simps)
next
  case (Suc k)
  show ?case
  proof (cases "n = 0")
    case False
    have "n div 256 < 256 ^ k" using Suc.prems by (simp add: less_mult_imp_div_less mult.commute)
    then show ?thesis using Suc.IH False by (subst natBytes.simps) simp
  qed (simp add: natBytes.simps)
qed

lemma SetBytes_zeros: "SetBytes (replicate k 0 @ bs) = SetBytes bs"
  by (induction k) (simp_all add: SetBytes_def)

lemma alignRight_Some:
  assumes "n < 256 ^ sz"
  obtains bs where "alignRight sz n = Some bs" "length bs = sz" "SetBytes bs = n"
  using that length_natBytes [OF assms] by (simp add: alignRight_def SetBytes_zeros)

subsection \<open>Loaded keys\<close>

text \<open>The coordinates of a public point fit the size of the field.\<close>

definition curve_laws :: "key_algebra \<Rightarrow> bool" where
  "curve_laws ka \<longleftrightarrow> (\<forall>c scalar. ecValid ka c scalar \<longrightarrow>
     fst (ecPublic ka c scalar) < 256 ^ curveSize c \<and> snd (ecPublic ka c scalar) < 256 ^ curveSize c)"

fun key_matches :: "key_algebra \<Rightarrow> byte \<Rightarrow> Signer \<Rightarrow> bool" where
  "key_matches ka alg (Ed25519Key seed) \<longleftrightarrow> alg = 15 \<and> length seed = 32"
| "key_matches ka alg (ECDSAKey c scalar) \<longleftrightarrow> alg = (case c of P256 \<Rightarrow> 13 | P384 \<Rightarrow> 14) \<and> ecValid ka c scalar"
| "key_matches ka alg (RSAKey n e d ps pre) \<longleftrightarrow> alg = 8"

lemma ParsePrivateKey_matches:
  assumes "ParsePrivateKey tt ka s = Inr priv" shows "key_matches ka (pkAlgorithm priv) (pkKey priv)"
  using assms
  by (auto simp: ParsePrivateKey_def Let_def bindE_Inr parseED25519_def parseECDSA_def parseRSA_def
      split: option.splits if_splits)

lemma derivedPublicKeyBytes_total:
  assumes "key_matches ka (pkAlgorithm priv) (pkKey priv)" "curve_laws ka"
  obtains pub where "derivedPublicKeyBytes ka priv = Some (Inr pub)"
proof (cases "pkKey priv")
  case (ECDSAKey c scalar)
  let ?size = "curveSize c"
  obtain x y where xy: "ecPublic ka c scalar = (x, y)" by fastforce
  have "x < 256 ^ ?size" "y < 256 ^ ?size" using assms ECDSAKey xy by (auto simp: curve_laws_def) (metis fst_conv snd_conv)+
  then obtain xs ys where "alignRight ?size x = Some xs" "alignRight ?size y = Some ys" by (metis alignRight_Some)
  then show ?thesis
    using that assms(1) ECDSAKey xy by (cases c) (auto simp: derivedPublicKeyBytes_def curveSize_def)
qed (use that assms in \<open>auto simp: derivedPublicKeyBytes_def Let_def\<close>)

text \<open>What the signing code may rely on.\<close>

definition signing_key_ok :: "key_algebra \<Rightarrow> Domain \<Rightarrow> SigningKey \<Rightarrow> bool" where
  "signing_key_ok ka zone sk \<longleftrightarrow> key_matches ka (pkAlgorithm (skPrivateKey sk)) (pkKey (skPrivateKey sk))
     \<and> kAlgorithm (skDNSKEY sk) = pkAlgorithm (skPrivateKey sk) \<and> kOwner (skDNSKEY sk) = zone
     \<and> kProtocol (skDNSKEY sk) = 3 \<and> kTTL (skDNSKEY sk) = dnskeyTTL
     \<and> (IsKSK (skDNSKEY sk) \<or> IsZSK (skDNSKEY sk))
     \<and> derivedPublicKeyBytes ka (skPrivateKey sk) = Some (Inr (kPublicKey (skDNSKEY sk)))"

lemma parseOneKey_ok:
  assumes "curve_laws ka"
  shows "\<exists>r. parseOneKey tt ka sec zone = Some r \<and> (\<forall>sk. r = Inr sk \<longrightarrow> signing_key_ok ka zone sk
    \<and> (if secKeyType sec = lit ''ksk'' then IsKSK (skDNSKEY sk) else IsZSK (skDNSKEY sk)))"
proof (cases "ParsePrivateKey tt ka (secPrivateKey sec)")
  case (Inl err)
  then show ?thesis by (auto simp: parseOneKey_def)
next
  case (Inr priv)
  note m = ParsePrivateKey_matches [OF Inr]
  obtain pub where p: "derivedPublicKeyBytes ka priv = Some (Inr pub)"
    using derivedPublicKeyBytes_total [OF m assms] by blast
  show ?thesis
    using Inr m p by (auto simp: parseOneKey_def signing_key_ok_def IsKSK_def IsZSK_def)
qed

lemma loadEach_ok:
  assumes "curve_laws ka"
  shows "\<exists>keys errs. loadEach tt ka zone secs = Some (keys, errs) \<and> list_all (signing_key_ok ka zone) keys
    \<and> length keys + length errs = length secs
    \<and> (errs = [] \<longrightarrow> list_all2 (\<lambda>sec sk. parseOneKey tt ka sec zone = Some (Inr sk)) secs keys)"
proof (induction secs)
  case (Cons sec secs)
  then obtain keys errs where IH: "loadEach tt ka zone secs = Some (keys, errs)" "list_all (signing_key_ok ka zone) keys"
    "length keys + length errs = length secs"
    "errs = [] \<longrightarrow> list_all2 (\<lambda>sec sk. parseOneKey tt ka sec zone = Some (Inr sk)) secs keys" by blast
  obtain r where r: "parseOneKey tt ka sec zone = Some r" "\<forall>sk. r = Inr sk \<longrightarrow> signing_key_ok ka zone sk"
    using parseOneKey_ok [OF assms] by blast
  then show ?case using IH by (cases r) auto
qed simp

subsection \<open>Key files\<close>

lemma TrimSpace_plain:
  assumes "is_ascii s" "s \<noteq> []" "\<not> is_space (hd s)" "\<not> is_space (last s)"
  shows "TrimSpace tt s = s"
proof -
  have "dropWhile is_space s = s" using assms by (cases s) auto
  moreover have "dropWhile is_space (rev s) = rev s" using assms(2,4) by (cases s rule: rev_cases) auto
  ultimately show ?thesis using assms(1) by (simp add: TrimSpace_def)
qed

lemma TrimSpace_space: "is_ascii s \<Longrightarrow> TrimSpace tt (32 # s) = TrimSpace tt s"
  by (simp add: TrimSpace_def is_space_def)

text \<open>A line of the file: a key, a colon, a space and a value.\<close>

definition kvLine :: "gostring \<Rightarrow> gostring \<Rightarrow> gostring" where
  "kvLine k v = k @ lit '': '' @ v"

definition plain_text :: "gostring \<Rightarrow> bool" where
  "plain_text s \<longleftrightarrow> is_ascii s \<and> s \<noteq> [] \<and> \<not> is_space (hd s) \<and> \<not> is_space (last s)"

lemma parseKVLines_line:
  assumes "plain_text k" "58 \<notin> set k" "hd k \<noteq> 59" "plain_text v"
  shows "parseKVLines tt m (kvLine k v # ls) = parseKVLines tt (m(k \<mapsto> v)) ls"
proof -
  have colon: "lit '': '' = [58, 32]" by code_simp
  have a: "is_ascii (kvLine k v)" using assms by (simp add: kvLine_def plain_text_def colon is_ascii_def)
  have l: "TrimSpace tt (kvLine k v) = kvLine k v"
    using a assms(1,4) by (intro TrimSpace_plain) (auto simp: kvLine_def plain_text_def)
  have i: "IndexByte (kvLine k v) 58 = Some (length k)"
    using assms(2) by (simp add: kvLine_def colon IndexByte_append)
  have semi: "\<not> HasPrefix (kvLine k v) (lit '';'')"
    using assms(1,3) by (cases k) (auto simp: HasPrefix_def kvLine_def lit_def plain_text_def)
  have t: "take (length k) (kvLine k v) = k" "drop (Suc (length k)) (kvLine k v) = 32 # v" by (simp_all add: kvLine_def colon)
  have "TrimSpace tt k = k" "TrimSpace tt (32 # v) = v" using assms(1,4) TrimSpace_plain TrimSpace_space by (auto simp: plain_text_def)
  moreover have "kvLine k v \<noteq> []" by (simp add: kvLine_def colon)
  ultimately show ?thesis using i semi t by (simp add: l)
qed

text \<open>The file \<open>dnssec-keygen\<close> writes for an Ed25519 key, as far as the program reads it.\<close>

definition ed25519File :: "bytes \<Rightarrow> gostring" where
  "ed25519File seed = kvLine (lit ''Private-key-format'') (lit ''v1.3'') @ 10 # kvLine (lit ''Algorithm'') (lit ''15 (ED25519)'') @ 10 #
     kvLine (lit ''PrivateKey'') (StdEncodeToString seed) @ 10 # []"

lemma std_text:
  assumes "seed \<noteq> []"
  shows "plain_text (StdEncodeToString seed)" "10 \<notin> set (StdEncodeToString seed)"
proof -
  have "list_all (\<lambda>c. c < 128 \<and> \<not> is_space c) (61 # stdAlphabet)" by code_simp
  then have alpha: "c < 128 \<and> \<not> is_space c" if "c = 61 \<or> c \<in> set stdAlphabet" for c using that by (auto simp: list_all_iff)
  have "set (encode64 stdAlphabet seed) \<subseteq> set stdAlphabet"
  proof
    fix c assume "c \<in> set (encode64 stdAlphabet seed)"
    then obtain q where q: "c = stdAlphabet ! bitsNat q" "length q = 6"
      using piece_length [of 6 _ "concat (map byteBits seed)"] by (auto simp: encode64_def)
    have "length stdAlphabet = 64" using alphabets(1) by (simp add: alphabet64_def)
    then show "c \<in> set stdAlphabet" using q bitsNat_less [of q] by simp
  qed
  then have all: "\<forall>c \<in> set (StdEncodeToString seed). c < 128 \<and> \<not> is_space c"
    using alpha by (auto simp: StdEncodeToString_def Let_def)
  have ne: "StdEncodeToString seed \<noteq> []"
  proof
    assume "StdEncodeToString seed = []"
    then have "StdDecodeString [] = Some seed" using StdDecode_Encode [of seed] by simp
    then show False using assms by (simp add: StdDecodeString_def decode64_def padLen_def pieces.simps)
  qed
  show "plain_text (StdEncodeToString seed)"
    using all ne hd_in_set [OF ne] last_in_set [OF ne] by (auto simp: plain_text_def is_ascii_def list_all_iff)
  show "10 \<notin> set (StdEncodeToString seed)" using all by (auto simp: is_space_def)
qed

lemma parseKV_ed25519File:
  assumes "seed \<noteq> []"
  shows "parseKV tt (ed25519File seed) = [lit ''Private-key-format'' \<mapsto> lit ''v1.3'', lit ''Algorithm'' \<mapsto> lit ''15 (ED25519)'',
     lit ''PrivateKey'' \<mapsto> StdEncodeToString seed]"
proof -
  note t = std_text [OF assms]
  have nl: "10 \<notin> set (kvLine (lit ''Private-key-format'') (lit ''v1.3''))"
    "10 \<notin> set (kvLine (lit ''Algorithm'') (lit ''15 (ED25519)''))" by code_simp+
  have "10 \<notin> set (kvLine (lit ''PrivateKey'') [])" by code_simp
  then have nl3: "10 \<notin> set (kvLine (lit ''PrivateKey'') (StdEncodeToString seed))" using t(2) by (simp add: kvLine_def)
  have keys: "plain_text (lit ''Private-key-format'') \<and> 58 \<notin> set (lit ''Private-key-format'') \<and> hd (lit ''Private-key-format'') \<noteq> 59"
    "plain_text (lit ''Algorithm'') \<and> 58 \<notin> set (lit ''Algorithm'') \<and> hd (lit ''Algorithm'') \<noteq> 59"
    "plain_text (lit ''PrivateKey'') \<and> 58 \<notin> set (lit ''PrivateKey'') \<and> hd (lit ''PrivateKey'') \<noteq> 59"
    "plain_text (lit ''v1.3'')" "plain_text (lit ''15 (ED25519)'')" by code_simp+
  have "Split 10 (ed25519File seed) = [kvLine (lit ''Private-key-format'') (lit ''v1.3''), kvLine (lit ''Algorithm'') (lit ''15 (ED25519)''),
      kvLine (lit ''PrivateKey'') (StdEncodeToString seed), []]"
    unfolding ed25519File_def using nl nl3 by (simp add: Split_append Split_no_sep)
  moreover have "parseKVLines tt m [[]] = m" for m by (simp add: TrimSpace_def is_ascii_def)
  ultimately show ?thesis
    using keys t(1) by (simp add: parseKV_def parseKVLines_line del: parseKVLines.simps(2))
qed

subsection \<open>Properties\<close>

lemma ParsePrivateKey_file:
  assumes "length seed = 32"
  shows "ParsePrivateKey tt ka (ed25519File seed) = Inr \<lparr> pkAlgorithm = 15, pkKey = Ed25519Key seed \<rparr>"
proof -
  have ne: "seed \<noteq> []" using assms by auto
  have f: "fieldsOf (lit ''15 (ED25519)'') = [lit ''15'', lit ''(ED25519)'']" "is_ascii (lit ''15 (ED25519)'')"
    "takeWhile digit (lit ''15'') = lit ''15''" "lit ''15'' \<noteq> []" by code_simp+
  have d: "decimal (lit ''15'') = 15" by (simp add: decimal_def lit_def)
  have a: "parseAlgNum tt (lit ''15 (ED25519)'') = Inr 15" using f(1,2,4) d by (simp add: parseAlgNum_def Fields_def f(3))
  have n: "lit ''Algorithm'' \<noteq> lit ''PrivateKey''" "lit ''Private-key-format'' \<noteq> lit ''PrivateKey''"
    "lit ''Private-key-format'' \<noteq> lit ''Algorithm''" "HasPrefix (lit ''v1.3'') (lit ''v1'')" by code_simp+
  show ?thesis
    using n a assms by (simp add: ParsePrivateKey_def parseKV_ed25519File [OF ne] Let_def parseED25519_def
      decodeB64Field_def StdDecode_Encode)
qed

text \<open>A private-key file in the format of BIND is read back: for every 32-byte seed, the file with the
  format, the algorithm line and the seed in base64 gives the Ed25519 key of that seed.\<close>

theorem ParsePrivateKey_ed25519:
  assumes "length seed = 32"
  shows "ParsePrivateKey tt ka (ed25519File seed) = Inr \<lparr> pkAlgorithm = 15, pkKey = Ed25519Key seed \<rparr>"
  using assms by (rule ParsePrivateKey_file)

theorem ParsePrivateKey_ed25519_witness:
  "ParsePrivateKey \<lparr> uniFields = (\<lambda>s. []), uniTrim = (\<lambda>s. s), uniFold = (\<lambda>s t. False) \<rparr>
     \<lparr> edPublic = (\<lambda>s. s), ecValid = (\<lambda>c s. False), ecPublic = (\<lambda>c s. (0, 0)) \<rparr> (ed25519File (replicate 32 7))
   = Inr \<lparr> pkAlgorithm = 15, pkKey = Ed25519Key (replicate 32 7) \<rparr>"
  by (rule ParsePrivateKey_ed25519) simp

text \<open>\<open>LoadKeys\<close> never panics and loads all keys or none: it returns one error for every secret that
  does not parse, or one key for every secret, in order. A loaded key is consistent: its algorithm is
  that of its private key, the DNSKEY record holds the public key derived from it under the zone's
  name, and it is a KSK or a ZSK as the secret says.\<close>

theorem LoadKeys_all_or_nothing:
  assumes "curve_laws ka"
  shows "\<exists>r. LoadKeys tt ka secrets zone = Some r \<and>
    (case r of
       Inl errs \<Rightarrow> errs \<noteq> [] \<and> length errs \<le> length secrets
     | Inr keys \<Rightarrow> list_all2 (\<lambda>sec sk. parseOneKey tt ka sec zone = Some (Inr sk) \<and> signing_key_ok ka zone sk
          \<and> IsKSK (skDNSKEY sk) = (secKeyType sec = lit ''ksk'')) secrets keys)"
proof -
  obtain keys errs where k: "loadEach tt ka zone secrets = Some (keys, errs)" "length keys + length errs = length secrets"
    "errs = [] \<longrightarrow> list_all2 (\<lambda>sec sk. parseOneKey tt ka sec zone = Some (Inr sk)) secrets keys"
    using loadEach_ok [OF assms] by blast
  have one: "signing_key_ok ka zone sk \<and> IsKSK (skDNSKEY sk) = (secKeyType sec = lit ''ksk'')"
    if "parseOneKey tt ka sec zone = Some (Inr sk)" for sec sk
    using parseOneKey_ok [OF assms, of tt sec zone] that by (auto simp: IsKSK_def IsZSK_def split: if_splits)
  show ?thesis
  proof (cases errs)
    case Nil
    then have "list_all2 (\<lambda>sec sk. parseOneKey tt ka sec zone = Some (Inr sk) \<and> signing_key_ok ka zone sk
          \<and> IsKSK (skDNSKEY sk) = (secKeyType sec = lit ''ksk'')) secrets keys"
      using k(3) one by (auto elim!: list_all2_mono)
    then show ?thesis using k Nil by (simp add: LoadKeys_def)
  qed (use k in \<open>simp add: LoadKeys_def\<close>)
qed

theorem LoadKeys_all_or_nothing_witness:
  "\<exists>r. LoadKeys \<lparr> uniFields = (\<lambda>s. []), uniTrim = (\<lambda>s. s), uniFold = (\<lambda>s t. False) \<rparr>
     \<lparr> edPublic = (\<lambda>s. s), ecValid = (\<lambda>c s. True), ecPublic = (\<lambda>c s. (1, 2)) \<rparr>
     [\<lparr> secKeyType = lit ''ksk'', secPrivateKey = [] \<rparr>] (lit ''example.'') = Some r"
proof -
  have "curve_laws \<lparr> edPublic = (\<lambda>s. s), ecValid = (\<lambda>c s. True), ecPublic = (\<lambda>c s. (1, 2)) \<rparr>"
    by (simp add: curve_laws_def curveSize_def split: Curve.split)
  from LoadKeys_all_or_nothing [OF this] show ?thesis by blast
qed

end
