(* ===== verification/DNSSEC_Sign.thy ===== *)
theory DNSSEC_Sign
  imports DNSSEC_Keys Zone_DB Rate_Limit
begin

text \<open>
  Signing, after \<^verbatim>\<open>internal/dnssec/ecdsa.go\<close>, \<^verbatim>\<open>rrsig.go\<close> and \<^verbatim>\<open>verify.go\<close>: the two formats
  of ECDSA signatures, signing one RRset, signing a database, and verifying a signature.

  The signature schemes and hashes are parameters (\<open>sign_algebra\<close>); \<open>scheme_laws\<close> says that what a key
  signs its public key verifies, and that ECDSA gives two numbers of the size of the field in DER.
  \<open>encoding/asn1\<close> is modelled for a sequence of two integers. \<open>slices.SortFunc\<close> is not stable; the
  records it may exchange have the same data, and \<open>toBeSigned_perm\<close> shows that the bytes that are signed
  do not depend on it.
\<close>

subsection \<open>DER\<close>

definition derLength :: "nat \<Rightarrow> bytes" where
  "derLength n = (if n < 128 then [of_nat n] else of_nat (128 + length (natBytes n)) # natBytes n)"

text \<open>The content of a non-negative INTEGER: a zero byte in front of a set sign bit.\<close>

definition derContent :: "nat \<Rightarrow> bytes" where
  "derContent n = (if n = 0 then [0] else if 128 \<le> hd (natBytes n) then 0 # natBytes n else natBytes n)"

definition derInteger :: "nat \<Rightarrow> bytes" where
  "derInteger n = 2 # derLength (length (derContent n)) @ derContent n"

definition asn1Marshal :: "nat \<times> nat \<Rightarrow> bytes" where
  "asn1Marshal rs =
     (let body = derInteger (fst rs) @ derInteger (snd rs) in 0x30 # derLength (length body) @ body)"

text \<open>An element with the expected tag: its content and what follows it.\<close>

definition derElement :: "byte \<Rightarrow> bytes \<Rightarrow> (bytes \<times> bytes) option" where
  "derElement tag data =
     (case data of
        t # l # rest \<Rightarrow>
          (if t \<noteq> tag then None
           else if l < 128
           then (if length rest < unat l then None else Some (take (unat l) rest, drop (unat l) rest))
           else (let k = unat l - 128; len = SetBytes (take k rest)
                 in if k = 0 \<or> length rest < k \<or> hd rest = 0 \<or> 2 ^ 31 \<le> len \<or> len < 128 \<or> length rest - k < len then None
                    else Some (take len (drop k rest), drop len (drop k rest))))
      | _ \<Rightarrow> None)"

definition derInt :: "bytes \<Rightarrow> int option" where
  "derInt c =
     (if c = [] then None
      else if 1 < length c \<and> (hd c = 0 \<and> c ! 1 < 128 \<or> hd c = 0xFF \<and> 128 \<le> c ! 1) then None
      else Some (int (SetBytes c) - (if 128 \<le> hd c then 256 ^ length c else 0)))"

text \<open>Bytes after the sequence, and elements after the two integers, are ignored.\<close>

definition asn1Unmarshal :: "bytes \<Rightarrow> (int \<times> int) option" where
  "asn1Unmarshal data = do {
     (seq, _) \<leftarrow> derElement 0x30 data;
     (c1, rest) \<leftarrow> derElement 2 seq;
     r \<leftarrow> derInt c1;
     (c2, _) \<leftarrow> derElement 2 rest;
     s \<leftarrow> derInt c2;
     Some (r, s)
   }"

datatype sign_error =
    EmptyRRset | UnknownRRtype RRtype | UnsupportedSignAlgorithm byte | SignFailed | DERFailed
  | SignatureTooLarge byte | BadSignatureLength nat nat | KeyTypeMismatch

definition ecdsaSize :: "byte \<Rightarrow> nat option" where
  "ecdsaSize alg = (if alg = 13 then Some 32 else if alg = 14 then Some 48 else None)"

definition ecdsaDERToFixedSize :: "bytes \<Rightarrow> byte \<Rightarrow> sign_error + bytes" where
  "ecdsaDERToFixedSize derSig algorithm =
     (case asn1Unmarshal derSig of
        None \<Rightarrow> Inl DERFailed
      | Some (r, s) \<Rightarrow>
          (case ecdsaSize algorithm of
             None \<Rightarrow> Inl (UnsupportedSignAlgorithm algorithm)
           | Some sz \<Rightarrow>
               (case (alignRight sz (nat \<bar>r\<bar>), alignRight sz (nat \<bar>s\<bar>)) of
                  (Some rs, Some ss) \<Rightarrow> Inr (rs @ ss)
                | _ \<Rightarrow> Inl (SignatureTooLarge algorithm))))"

definition ECDSAFixedSizeToDER :: "bytes \<Rightarrow> byte \<Rightarrow> sign_error + bytes" where
  "ECDSAFixedSizeToDER fixedSig algorithm =
     (case ecdsaSize algorithm of
        None \<Rightarrow> Inl (UnsupportedSignAlgorithm algorithm)
      | Some sz \<Rightarrow>
          (if length fixedSig \<noteq> sz * 2 then Inl (BadSignatureLength (sz * 2) (length fixedSig))
           else Inr (asn1Marshal (SetBytes (take sz fixedSig), SetBytes (drop sz fixedSig)))))"

subsection \<open>Signing one RRset\<close>

record sign_algebra = key_algebra +
  sha256 :: "bytes \<Rightarrow> bytes"
  sha384 :: "bytes \<Rightarrow> bytes"
  edSign :: "bytes \<Rightarrow> bytes \<Rightarrow> bytes"
  edVerify :: "bytes \<Rightarrow> bytes \<Rightarrow> bytes \<Rightarrow> bool"
  ecSign :: "Curve \<Rightarrow> bytes \<Rightarrow> bytes \<Rightarrow> bytes option"
  ecVerify :: "nat \<times> nat \<Rightarrow> Curve \<Rightarrow> bytes \<Rightarrow> bytes \<Rightarrow> bool"
  rsaSign :: "Signer \<Rightarrow> bytes \<Rightarrow> bytes option"

record RRSIGOpts =
  rsInception :: "32 word"
  rsExpiration :: "32 word"

text \<open>The conversion of the float to \<open>uint32\<close> drops the fraction; it depends on the platform for values
  out of range.\<close>

definition DefaultRRSIGOpts :: "(real \<Rightarrow> real) \<Rightarrow> 32 word \<Rightarrow> duration \<Rightarrow> RRSIGOpts" where
  "DefaultRRSIGOpts rnd now window =
     (let w = (if window \<le> 0 then 7 * 24 * 3600 * 10 ^ 9 else window)
      in \<lparr> rsInception = now, rsExpiration = now + word_of_int \<lfloor>Seconds rnd w\<rfloor> \<rparr>)"

record RRSIGRecord =
  sigTypeCovered :: "16 word"
  sigAlgorithm :: byte
  sigLabels :: byte
  sigOrigTTL :: "32 word"
  sigExpiration :: "32 word"
  sigInception :: "32 word"
  sigKeyTag :: "16 word"
  sigSignerName :: gostring
  sigSignature :: bytes

definition RRSIG_AsRR :: "RRSIGRecord \<Rightarrow> Domain \<Rightarrow> RRttl \<Rightarrow> RR" where
  "RRSIG_AsRR r ownerName ttl =
     \<lparr> Name = ownerName, RRtype = TypeRRSIG, TTL = ttl,
       Opts = RRoptsRRSIG (sigTypeCovered r) (sigAlgorithm r) (sigLabels r) (sigOrigTTL r) (sigExpiration r)
                (sigInception r) (sigKeyTag r) (sigSignerName r) (sigSignature r) \<rparr>"

definition countLabels :: "Domain \<Rightarrow> byte" where
  "countLabels name =
     (let labels = Split dot (TrimSuffix name (lit ''.'')); n = length labels
      in of_nat (if 0 < n \<and> hd labels = lit ''*'' then n - 1 else n))"

text \<open>The fields of the RRSIG data before the signature.\<close>

definition rrsigPrefix :: "RRSIGRecord \<Rightarrow> bytes" where
  "rrsigPrefix r = put16 (sigTypeCovered r) @ [sigAlgorithm r, sigLabels r] @ put32 (sigOrigTTL r)
     @ put32 (sigExpiration r) @ put32 (sigInception r) @ put16 (sigKeyTag r) @ Write (sigSignerName r)"

text \<open>One record in canonical form.\<close>

definition canonicalRR :: "unilower \<Rightarrow> 16 word \<Rightarrow> RRttl \<Rightarrow> RR \<Rightarrow> bytes" where
  "canonicalRR uni wireType ttl rr =
     (let payload = Payload uni (Opts rr)
      in Write (ToLower uni (Name rr)) @ put16 wireType @ put16 1 @ put32 ttl @ put16 (u16_of (length payload)) @ payload)"

definition toBeSigned :: "unilower \<Rightarrow> RRSIGRecord \<Rightarrow> RRttl \<Rightarrow> RR list \<Rightarrow> bytes" where
  "toBeSigned uni r ttl rrset =
     rrsigPrefix r @ concat (map (canonicalRR uni (sigTypeCovered r) ttl) (sort_key (\<lambda>rr. Payload uni (Opts rr)) rrset))"

text \<open>\<open>key.PrivateKey.Key.Sign\<close> on the data or its hash, and the conversion for ECDSA. A private key of
  another type than the algorithm, which \<open>LoadKeys\<close> never makes, counts as a failure.\<close>

definition signData :: "'a sign_algebra_scheme \<Rightarrow> byte \<Rightarrow> Signer \<Rightarrow> bytes \<Rightarrow> sign_error + bytes" where
  "signData sa alg key data =
     (let fin = (\<lambda>sig. case sig of None \<Rightarrow> Inl SignFailed | Some s \<Rightarrow> Inr s);
          hashed = (if alg = 14 then sha384 sa data else sha256 sa data)
      in if alg = 15
         then (case key of Ed25519Key seed \<Rightarrow> Inr (edSign sa seed data) | _ \<Rightarrow> Inl SignFailed)
         else if alg = 13 \<or> alg = 14
         then (case key of
                 ECDSAKey curve scalar \<Rightarrow> bindE (fin (ecSign sa curve scalar hashed)) (\<lambda>sig. ecdsaDERToFixedSize sig alg)
               | _ \<Rightarrow> Inl SignFailed)
         else if alg = 8 then fin (rsaSign sa key hashed)
         else Inl (UnsupportedSignAlgorithm alg))"

definition SignRRset ::
  "unilower \<Rightarrow> 'a sign_algebra_scheme \<Rightarrow> RR list \<Rightarrow> SigningKey \<Rightarrow> RRSIGOpts \<Rightarrow> sign_error + RRSIGRecord" where
  "SignRRset uni sa rrset key opts =
     (case rrset of
        [] \<Rightarrow> Inl EmptyRRset
      | rr # _ \<Rightarrow>
          (case RRtypeToWire (RRtype rr) of
             None \<Rightarrow> Inl (UnknownRRtype (RRtype rr))
           | Some wireType \<Rightarrow>
               (let r = \<lparr> sigTypeCovered = wireType, sigAlgorithm = kAlgorithm (skDNSKEY key), sigLabels = countLabels (Name rr),
                          sigOrigTTL = TTL rr, sigExpiration = rsExpiration opts, sigInception = rsInception opts,
                          sigKeyTag = KeyTag (skDNSKEY key), sigSignerName = ToLower uni (kOwner (skDNSKEY key)),
                          sigSignature = [] \<rparr>
                in bindE (signData sa (kAlgorithm (skDNSKEY key)) (pkKey (skPrivateKey key)) (toBeSigned uni r (TTL rr) rrset))
                     (\<lambda>sig. Inr (r \<lparr> sigSignature := sig \<rparr>)))))"

subsection \<open>Verifying\<close>

definition verifyRRSIG ::
  "unilower \<Rightarrow> 'a sign_algebra_scheme \<Rightarrow> RRSIGRecord \<Rightarrow> RR list \<Rightarrow> SigningKey \<Rightarrow> sign_error + bool" where
  "verifyRRSIG uni sa rrsig rrset key =
     (case rrset of
        [] \<Rightarrow> Inl EmptyRRset
      | rr # _ \<Rightarrow>
          (let data = toBeSigned uni rrsig (TTL rr) rrset; sig = sigSignature rrsig; alg = sigAlgorithm rrsig
           in if alg = 15
              then (case pkKey (skPrivateKey key) of
                      Ed25519Key seed \<Rightarrow> Inr (edVerify sa (edPublic sa seed) data sig)
                    | _ \<Rightarrow> Inl KeyTypeMismatch)
              else if alg = 13 \<or> alg = 14
              then (case pkKey (skPrivateKey key) of
                      ECDSAKey curve scalar \<Rightarrow>
                        bindE (ECDSAFixedSizeToDER sig alg) (\<lambda>derSig.
                          Inr (ecVerify sa (ecPublic sa curve scalar) curve
                                 (if alg = 13 then sha256 sa data else sha384 sa data) derSig))
                    | _ \<Rightarrow> Inl KeyTypeMismatch)
              else Inl (UnsupportedSignAlgorithm alg)))"

subsection \<open>Signing a database\<close>

text \<open>The RRsets in the order in which their first record is met; RRSIG records are skipped.\<close>

definition rrsetsOf :: "RR list \<Rightarrow> ((Domain \<times> RRtype) \<times> RR list) list" where
  "rrsetsOf rrs = foldl (\<lambda>m rr. mapAppend (Name rr, RRtype rr) rr m) [] (filter (\<lambda>rr. RRtype rr \<noteq> TypeRRSIG) rrs)"

fun signEach ::
  "unilower \<Rightarrow> 'a sign_algebra_scheme \<Rightarrow> RRSIGOpts \<Rightarrow> (Domain \<times> RRtype) \<Rightarrow> RR list \<Rightarrow> SigningKey list \<Rightarrow> sign_error + RR list" where
  "signEach uni sa opts k rrset [] = Inr []"
| "signEach uni sa opts k rrset (signer # signers) =
     bindE (SignRRset uni sa rrset signer opts) (\<lambda>rrsig.
       bindE (signEach uni sa opts k rrset signers) (\<lambda>rest.
         Inr (RRSIG_AsRR rrsig (fst k) (case rrset of rr # _ \<Rightarrow> TTL rr | [] \<Rightarrow> 0) # rest)))"

fun signSets ::
  "unilower \<Rightarrow> 'a sign_algebra_scheme \<Rightarrow> RRSIGOpts \<Rightarrow> SigningKey list \<Rightarrow> SigningKey list
     \<Rightarrow> ((Domain \<times> RRtype) \<times> RR list) list \<Rightarrow> sign_error + RR list" where
  "signSets uni sa opts ksks zsks [] = Inr []"
| "signSets uni sa opts ksks zsks ((k, rrset) # sets) =
     bindE (signEach uni sa opts k rrset (if snd k = TypeDNSKEY then ksks else zsks)) (\<lambda>sigs.
       bindE (signSets uni sa opts ksks zsks sets) (\<lambda>rest. Inr (sigs @ rest)))"

text \<open>The keys by role; a single role signs everything.\<close>

definition keyRoles :: "SigningKey list \<Rightarrow> SigningKey list \<times> SigningKey list" where
  "keyRoles keys =
     (let ksks = filter (\<lambda>k. IsKSK (skDNSKEY k)) keys; zsks = filter (\<lambda>k. \<not> IsKSK (skDNSKEY k)) keys;
          ksks' = (if ksks = [] then zsks else ksks); zsks' = (if zsks = [] then ksks' else zsks)
      in (ksks', zsks'))"

definition SignDB ::
  "unilower \<Rightarrow> 'a sign_algebra_scheme \<Rightarrow> maporder \<Rightarrow> DB \<Rightarrow> SigningKey list \<Rightarrow> RRSIGOpts \<Rightarrow> sign_error + RR list" where
  "SignDB uni sa ord d keys opts =
     (let (ksks, zsks) = keyRoles keys
      in signSets uni sa opts ksks zsks (rrsetsOf (concat (map snd (ord (ByType d))))))"

subsection \<open>DER round trip\<close>

lemma natBytes_pos: "0 < n \<Longrightarrow> natBytes n \<noteq> [] \<and> hd (natBytes n) \<noteq> 0"
proof (induction n rule: natBytes.induct)
  case (1 n)
  show ?case
  proof (cases "n div 256 = 0")
    case True
    then have "(of_nat (n mod 256) :: byte) \<noteq> 0" using 1(2) by (simp add: word_of_nat_eq_0_iff) (auto dest: dvd_imp_le)
    with True 1(2) show ?thesis by (simp add: natBytes.simps [of n] natBytes.simps [of 0])
  next
    case False
    with 1 show ?thesis by (subst natBytes.simps, subst natBytes.simps) (auto simp: hd_append)
  qed
qed

lemma SetBytes_zero: "SetBytes (0 # bs) = SetBytes bs"
  using SetBytes_zeros [of 1 bs] by simp

lemma derContent_length: "n < 256 ^ k \<Longrightarrow> length (derContent n) \<le> Suc k"
  using length_natBytes [of n k] by (simp add: derContent_def)

lemma derInt_content: "derInt (derContent n) = Some (int n)"
proof (cases "n = 0")
  case True
  then show ?thesis by (simp add: derInt_def derContent_def SetBytes_def)
next
  case False
  then obtain b bs where b: "natBytes n = b # bs" "b \<noteq> 0" using natBytes_pos [of n] by (cases "natBytes n") auto
  have v: "SetBytes (b # bs) = n" using SetBytes_natBytes [of n] b by simp
  show ?thesis
  proof (cases "128 \<le> b")
    case True
    then show ?thesis using False b v by (auto simp: derInt_def derContent_def SetBytes_zero not_less)
  next
    case lt: False
    then have "b \<noteq> 0xFF" by (auto simp: word_le_nat_alt)
    then show ?thesis using False b v lt by (simp add: derInt_def derContent_def)
  qed
qed

lemma derElement_short:
  assumes "length c < 128"
  shows "derElement tag (tag # derLength (length c) @ c @ rest) = Some (c, rest)"
proof -
  have "unat (of_nat (length c) :: byte) = length c" using assms by (simp add: unat_of_nat)
  moreover from this have "(of_nat (length c) :: byte) < 128" using assms by (simp add: word_less_nat_alt)
  ultimately show ?thesis using assms by (simp add: derElement_def derLength_def)
qed

lemma derInteger_length: "n < 256 ^ 48 \<Longrightarrow> length (derInteger n) \<le> 51"
  using derContent_length [of n 48] by (simp add: derInteger_def derLength_def)

lemma Unmarshal_Marshal:
  assumes "r < 256 ^ 48" "s < 256 ^ 48"
  shows "asn1Unmarshal (asn1Marshal (r, s)) = Some (int r, int s)"
proof -
  let ?body = "derInteger r @ derInteger s"
  have len: "length (derContent r) < 128" "length (derContent s) < 128" "length ?body < 128"
    using derContent_length [OF assms(1)] derContent_length [OF assms(2)] derInteger_length [OF assms(1)] derInteger_length [OF assms(2)]
    by simp_all
  have "derElement 0x30 (asn1Marshal (r, s)) = Some (?body, [])"
    using derElement_short [OF len(3), of "0x30" "[]"] by (simp add: asn1Marshal_def Let_def)
  moreover have "derElement 2 ?body = Some (derContent r, derInteger s)"
    using derElement_short [OF len(1), of 2 "derInteger s"] by (simp add: derInteger_def)
  moreover have "derElement 2 (derInteger s) = Some (derContent s, [])"
    using derElement_short [OF len(2), of 2 "[]"] by (simp add: derInteger_def)
  ultimately show ?thesis by (simp add: asn1Unmarshal_def derInt_content)
qed

lemma fixed_roundtrip:
  assumes "ecdsaSize alg = Some sz" "r < 256 ^ sz" "s < 256 ^ sz"
  obtains sig where "ecdsaDERToFixedSize (asn1Marshal (r, s)) alg = Inr sig" "length sig = 2 * sz"
    "ECDSAFixedSizeToDER sig alg = Inr (asn1Marshal (r, s))"
proof -
  have "sz \<le> 48" using assms(1) by (auto simp: ecdsaSize_def split: if_splits)
  then have "(256 :: nat) ^ sz \<le> 256 ^ 48" by (intro power_increasing) simp_all
  then have u: "asn1Unmarshal (asn1Marshal (r, s)) = Some (int r, int s)" using assms by (intro Unmarshal_Marshal) linarith+
  obtain rs ss where a: "alignRight sz r = Some rs" "length rs = sz" "SetBytes rs = r"
    "alignRight sz s = Some ss" "length ss = sz" "SetBytes ss = s"
    using alignRight_Some [OF assms(2)] alignRight_Some [OF assms(3)] by metis
  show ?thesis using that [of "rs @ ss"] u a assms(1) by (simp add: ecdsaDERToFixedSize_def ECDSAFixedSizeToDER_def)
qed

subsection \<open>The canonical form\<close>

lemma map_sorted_perm:
  fixes f :: "'a \<Rightarrow> 'k :: linorder"
  assumes "mset ys = mset xs" "sorted (map f ys)"
  shows "map f ys = sort (map f xs)"
  using assms by (metis mset_map properties_for_sort)

definition sameOwner :: "unilower \<Rightarrow> RR list \<Rightarrow> bool" where
  "sameOwner uni rrs \<longleftrightarrow> (\<forall>a \<in> set rrs. \<forall>b \<in> set rrs. ToLower uni (Name a) = ToLower uni (Name b))"

text \<open>Every sorted permutation of the records of an RRset gives the same bytes.\<close>

lemma canonical_perm:
  assumes "sameOwner uni xs" "mset ys = mset xs" "sorted (map (\<lambda>rr. Payload uni (Opts rr)) ys)"
  shows "map (canonicalRR uni wt ttl) ys = map (canonicalRR uni wt ttl) (sort_key (\<lambda>rr. Payload uni (Opts rr)) xs)"
proof (cases xs)
  case Nil
  then show ?thesis using assms(2) by simp
next
  case (Cons x xs')
  let ?f = "\<lambda>rr. Payload uni (Opts rr)"
  define g where "g payload = Write (ToLower uni (Name x)) @ put16 wt @ put16 1 @ put32 ttl @ put16 (u16_of (length payload)) @ payload" for payload
  have owner: "canonicalRR uni wt ttl rr = g (?f rr)" if "rr \<in> set xs" for rr
  proof -
    have "ToLower uni (Name rr) = ToLower uni (Name x)" using that assms(1) Cons unfolding sameOwner_def by (metis list.set_intros(1))
    then show ?thesis by (simp add: canonicalRR_def g_def Let_def)
  qed
  have sets: "set ys = set xs" using assms(2) by (metis mset_eq_setD)
  have "map (canonicalRR uni wt ttl) ys = map g (map ?f ys)" using owner sets by simp
  also have "map ?f ys = map ?f (sort_key ?f xs)"
    using map_sorted_perm [of ys xs ?f] map_sorted_perm [of "sort_key ?f xs" xs ?f] assms(2,3) by simp
  also have "map g (map ?f (sort_key ?f xs)) = map (canonicalRR uni wt ttl) (sort_key ?f xs)" using owner by simp
  finally show ?thesis .
qed

lemma toBeSigned_perm:
  assumes "sameOwner uni xs" "mset ys = mset xs"
  shows "toBeSigned uni r ttl ys = toBeSigned uni r ttl xs"
  using canonical_perm [OF assms(1), of "sort_key (\<lambda>rr. Payload uni (Opts rr)) ys"] assms(2) by (simp add: toBeSigned_def)

lemma toBeSigned_signature [simp]: "toBeSigned uni (r \<lparr> sigSignature := sig \<rparr>) ttl xs = toBeSigned uni r ttl xs"
  by (simp add: toBeSigned_def rrsigPrefix_def)

subsection \<open>Signatures verify\<close>

definition scheme_laws :: "'a sign_algebra_scheme \<Rightarrow> bool" where
  "scheme_laws sa \<longleftrightarrow> (\<forall>seed d. edVerify sa (edPublic sa seed) d (edSign sa seed d))
     \<and> (\<forall>c k h sig. ecSign sa c k h = Some sig \<longrightarrow>
          (\<exists>r s. sig = asn1Marshal (r, s) \<and> r < 256 ^ curveSize c \<and> s < 256 ^ curveSize c \<and> ecVerify sa (ecPublic sa c k) c h sig))"

lemma SignRRset_Inr:
  assumes "SignRRset uni sa rrset key opts = Inr rrsig"
  obtains rr wireType where "rrset \<noteq> []" "rr = hd rrset" "RRtypeToWire (RRtype rr) = Some wireType"
    "sigTypeCovered rrsig = wireType" "sigAlgorithm rrsig = kAlgorithm (skDNSKEY key)" "sigLabels rrsig = countLabels (Name rr)"
    "sigOrigTTL rrsig = TTL rr" "sigExpiration rrsig = rsExpiration opts" "sigInception rrsig = rsInception opts"
    "sigKeyTag rrsig = KeyTag (skDNSKEY key)" "sigSignerName rrsig = ToLower uni (kOwner (skDNSKEY key))"
    "signData sa (kAlgorithm (skDNSKEY key)) (pkKey (skPrivateKey key)) (toBeSigned uni rrsig (TTL rr) rrset) = Inr (sigSignature rrsig)"
  using assms by (cases rrset) (auto simp: SignRRset_def Let_def bindE_Inr toBeSigned_def rrsigPrefix_def split: option.splits)

lemma sign_verify:
  assumes "scheme_laws sa" "key_matches ka (kAlgorithm (skDNSKEY key)) (pkKey (skPrivateKey key))" "kAlgorithm (skDNSKEY key) \<noteq> 8"
    and "SignRRset uni sa rrset key opts = Inr rrsig" "sameOwner uni rrset" "mset rrset' = mset rrset" "TTL (hd rrset') = TTL (hd rrset)"
  shows "verifyRRSIG uni sa rrsig rrset' key = Inr True"
proof -
  obtain rr where s: "rrset \<noteq> []" "rr = hd rrset" "sigAlgorithm rrsig = kAlgorithm (skDNSKEY key)"
    "signData sa (kAlgorithm (skDNSKEY key)) (pkKey (skPrivateKey key)) (toBeSigned uni rrsig (TTL rr) rrset) = Inr (sigSignature rrsig)"
    using SignRRset_Inr [OF assms(4)] by metis
  obtain rr' rrs where r': "rrset' = rr' # rrs" using assms(6) s(1) by (cases rrset') auto
  define data where "data = toBeSigned uni rrsig (TTL rr) rrset"
  have data: "toBeSigned uni rrsig (TTL rr') rrset' = data"
    using toBeSigned_perm [OF assms(5,6)] assms(7) r' s(2) by (simp add: data_def)
  have sd: "signData sa (kAlgorithm (skDNSKEY key)) (pkKey (skPrivateKey key)) data = Inr (sigSignature rrsig)"
    using s(4) by (simp add: data_def)
  show ?thesis
  proof (cases "pkKey (skPrivateKey key)")
    case (Ed25519Key seed)
    have "edVerify sa (edPublic sa seed) data (edSign sa seed data)" using assms(1) by (simp add: scheme_laws_def)
    then show ?thesis using Ed25519Key assms(2) sd data r' s(3) by (simp add: verifyRRSIG_def signData_def Let_def)
  next
    case (ECDSAKey c k)
    let ?alg = "kAlgorithm (skDNSKEY key)" and ?sz = "curveSize c"
    have alg: "?alg = 13 \<and> c = P256 \<or> ?alg = 14 \<and> c = P384" using assms(2) ECDSAKey by (cases c) auto
    then have sz: "ecdsaSize ?alg = Some ?sz" by (auto simp: ecdsaSize_def curveSize_def)
    let ?h = "if ?alg = 14 then sha384 sa data else sha256 sa data"
    obtain der where der: "ecSign sa c k ?h = Some der" "ecdsaDERToFixedSize der ?alg = Inr (sigSignature rrsig)"
      using sd alg ECDSAKey by (auto simp: signData_def Let_def bindE_Inr split: option.splits)
    obtain x y where xy: "der = asn1Marshal (x, y)" "x < 256 ^ ?sz" "y < 256 ^ ?sz" "ecVerify sa (ecPublic sa c k) c ?h der"
      using assms(1) der(1) unfolding scheme_laws_def by blast
    have "ECDSAFixedSizeToDER (sigSignature rrsig) ?alg = Inr der"
      using fixed_roundtrip [OF sz xy(2,3)] der(2) xy(1) by (metis sum.inject(2))
    then show ?thesis using ECDSAKey alg xy(4) data r' s(3) by (auto simp: verifyRRSIG_def Let_def)
  next
    case (RSAKey n e d ps pre)
    then show ?thesis using assms(2,3) by simp
  qed
qed

subsection \<open>All RRsets are signed\<close>

lemma signEach_Inr:
  "signEach uni sa opts k rrset signers = Inr sigs \<Longrightarrow>
     list_all2 (\<lambda>signer rr. \<exists>sig. SignRRset uni sa rrset signer opts = Inr sig \<and> rr = RRSIG_AsRR sig (fst k) (TTL (hd rrset))) signers sigs"
proof (induction signers arbitrary: sigs)
  case (Cons signer signers)
  then obtain sig rest where s: "SignRRset uni sa rrset signer opts = Inr sig" "signEach uni sa opts k rrset signers = Inr rest"
    "sigs = RRSIG_AsRR sig (fst k) (case rrset of rr # _ \<Rightarrow> TTL rr | [] \<Rightarrow> 0) # rest" by (auto simp: bindE_Inr)
  moreover have "rrset \<noteq> []" using s(1) by (auto simp: SignRRset_def)
  ultimately show ?case using Cons.IH [OF s(2)] by (cases rrset) auto
qed simp

text \<open>The signers of a type.\<close>

definition signersOf :: "SigningKey list \<Rightarrow> RRtype \<Rightarrow> SigningKey list" where
  "signersOf keys t = (if t = TypeDNSKEY then fst (keyRoles keys) else snd (keyRoles keys))"

lemma signSets_Inr:
  assumes "signSets uni sa opts ksks zsks sets = Inr sigs"
  shows "\<exists>groups. list_all2 (\<lambda>(k, rrset) g. signEach uni sa opts k rrset (if snd k = TypeDNSKEY then ksks else zsks) = Inr g) sets groups
    \<and> sigs = concat groups"
  using assms
proof (induction sets arbitrary: sigs)
  case (Cons x sets)
  obtain k rrset where x: "x = (k, rrset)" by fastforce
  with Cons.prems obtain g rest where g: "signEach uni sa opts k rrset (if snd k = TypeDNSKEY then ksks else zsks) = Inr g"
    "signSets uni sa opts ksks zsks sets = Inr rest" "sigs = g @ rest" by (auto simp: bindE_Inr)
  obtain groups where "list_all2 (\<lambda>(k, rrset) g. signEach uni sa opts k rrset (if snd k = TypeDNSKEY then ksks else zsks) = Inr g) sets groups"
    "rest = concat groups" using Cons.IH [OF g(2)] by blast
  then show ?case using x g by (intro exI [of _ "g # groups"]) simp
qed simp

lemma rrsetsOf_member:
  "(k, rrset) \<in> set (rrsetsOf rrs) \<longleftrightarrow>
     rrset = filter (\<lambda>rr. (Name rr, RRtype rr) = k) (filter (\<lambda>rr. RRtype rr \<noteq> TypeRRSIG) rrs) \<and> rrset \<noteq> []"
proof -
  let ?rs = "filter (\<lambda>rr. RRtype rr \<noteq> TypeRRSIG) rrs"
  let ?key = "\<lambda>rr. (Name rr, RRtype rr)"
  note g = grouping [where key = ?key and m = "[]" and rs = ?rs]
  have d: "distinct (map fst (rrsetsOf rrs))" unfolding rrsetsOf_def by (rule g(3)) simp
  have get: "mapGet (rrsetsOf rrs) k = filter (\<lambda>rr. ?key rr = k) ?rs" unfolding rrsetsOf_def by (simp only: g(1) mapGet_Nil append_Nil)
  have keys: "fst ` set (rrsetsOf rrs) = ?key ` set ?rs" unfolding rrsetsOf_def by (simp only: g(2)) simp
  show ?thesis
  proof
    assume m: "(k, rrset) \<in> set (rrsetsOf rrs)"
    then have eq: "rrset = filter (\<lambda>rr. ?key rr = k) ?rs" using mapGet_in [OF m d] get by simp
    from m have "k \<in> fst ` set (rrsetsOf rrs)" by force
    then have "filter (\<lambda>rr. ?key rr = k) ?rs \<noteq> []" unfolding keys filter_empty_conv by auto
    with eq show "rrset = filter (\<lambda>rr. ?key rr = k) ?rs \<and> rrset \<noteq> []" by simp
  next
    assume r: "rrset = filter (\<lambda>rr. ?key rr = k) ?rs \<and> rrset \<noteq> []"
    then have "hd rrset \<in> set (filter (\<lambda>rr. ?key rr = k) ?rs)" by (metis list.set_sel(1))
    then obtain rr where "rr \<in> set ?rs" "?key rr = k" unfolding set_filter by blast
    then have "k \<in> fst ` set (rrsetsOf rrs)" unfolding keys by auto
    then obtain vs where vs: "(k, vs) \<in> set (rrsetsOf rrs)" by auto
    then have "vs = rrset" using mapGet_in [OF vs d] get r by simp
    with vs show "(k, rrset) \<in> set (rrsetsOf rrs)" by simp
  qed
qed

lemma list_all2_left: "list_all2 P xs ys \<Longrightarrow> x \<in> set xs \<Longrightarrow> \<exists>y \<in> set ys. P x y"
  by (induction xs ys rule: list_all2_induct) auto

lemma list_all2_right: "list_all2 P xs ys \<Longrightarrow> y \<in> set ys \<Longrightarrow> \<exists>x \<in> set xs. P x y"
  by (induction xs ys rule: list_all2_induct) auto

lemma SignDB_Inr:
  assumes "SignDB uni sa ord d keys opts = Inr sigs"
  defines "rrs \<equiv> concat (map snd (ord (ByType d)))"
  shows "sig \<in> set sigs \<longleftrightarrow> (\<exists>k rrset signer r. (k, rrset) \<in> set (rrsetsOf rrs) \<and> signer \<in> set (signersOf keys (snd k))
    \<and> SignRRset uni sa rrset signer opts = Inr r \<and> sig = RRSIG_AsRR r (fst k) (TTL (hd rrset)))" (is ?mem)
    and "\<And>k rrset signer. (k, rrset) \<in> set (rrsetsOf rrs) \<Longrightarrow> signer \<in> set (signersOf keys (snd k)) \<Longrightarrow>
      \<exists>r. SignRRset uni sa rrset signer opts = Inr r"
proof -
  obtain ksks zsks where roles: "keyRoles keys = (ksks, zsks)" by fastforce
  have sg: "(if snd k = TypeDNSKEY then ksks else zsks) = signersOf keys (snd k)" for k :: "Domain \<times> RRtype"
    by (simp add: signersOf_def roles)
  have "signSets uni sa opts ksks zsks (rrsetsOf rrs) = Inr sigs" using assms(1) roles by (simp add: SignDB_def rrs_def)
  then obtain groups where "list_all2 (\<lambda>(k, rrset) g. signEach uni sa opts k rrset (if snd k = TypeDNSKEY then ksks else zsks) = Inr g)
      (rrsetsOf rrs) groups" and sigs: "sigs = concat groups"
    by (blast dest: signSets_Inr)
  from this(1) have g: "list_all2 (\<lambda>(k, rrset) g. signEach uni sa opts k rrset (signersOf keys (snd k)) = Inr g) (rrsetsOf rrs) groups"
    unfolding sg .
  show ex: "\<exists>r. SignRRset uni sa rrset signer opts = Inr r"
    if m: "(k, rrset) \<in> set (rrsetsOf rrs)" "signer \<in> set (signersOf keys (snd k))" for k rrset signer
    using list_all2_left [OF g m(1)] list_all2_left [OF signEach_Inr m(2)] by fastforce
  show ?mem
  proof
    assume "sig \<in> set sigs"
    then obtain grp where grp: "grp \<in> set groups" "sig \<in> set grp" unfolding sigs by auto
    obtain k rrset where k: "(k, rrset) \<in> set (rrsetsOf rrs)" "signEach uni sa opts k rrset (signersOf keys (snd k)) = Inr grp"
      using list_all2_right [OF g grp(1)] by auto
    from list_all2_right [OF signEach_Inr [OF k(2)] grp(2)] k(1)
    show "\<exists>k rrset signer r. (k, rrset) \<in> set (rrsetsOf rrs) \<and> signer \<in> set (signersOf keys (snd k))
      \<and> SignRRset uni sa rrset signer opts = Inr r \<and> sig = RRSIG_AsRR r (fst k) (TTL (hd rrset))" by blast
  next
    assume "\<exists>k rrset signer r. (k, rrset) \<in> set (rrsetsOf rrs) \<and> signer \<in> set (signersOf keys (snd k))
      \<and> SignRRset uni sa rrset signer opts = Inr r \<and> sig = RRSIG_AsRR r (fst k) (TTL (hd rrset))"
    then obtain k rrset signer r where m: "(k, rrset) \<in> set (rrsetsOf rrs)" "signer \<in> set (signersOf keys (snd k))"
      and r: "SignRRset uni sa rrset signer opts = Inr r" "sig = RRSIG_AsRR r (fst k) (TTL (hd rrset))" by blast
    obtain grp where grp: "grp \<in> set groups" "signEach uni sa opts k rrset (signersOf keys (snd k)) = Inr grp"
      using list_all2_left [OF g m(1)] by auto
    from list_all2_left [OF signEach_Inr [OF grp(2)] m(2)] r grp(1) show "sig \<in> set sigs" unfolding sigs by auto
  qed
qed

lemma rrsetsOf_NewDB:
  assumes "\<And>m. mset (ord m) = mset m"
  shows "((n, t), rrset) \<in> set (rrsetsOf (AllRecords ord (NewDB z rs))) \<longleftrightarrow>
    t \<noteq> TypeRRSIG \<and> rrset = LookupByName (NewDB z rs) n t \<and> rrset \<noteq> []"
proof (cases "t = TypeRRSIG")
  case True
  then show ?thesis by (auto simp: rrsetsOf_member filter_empty_conv)
next
  case False
  let ?all = "AllRecords ord (NewDB z rs)"
  have "filter (\<lambda>rr. (Name rr, RRtype rr) = (n, t)) (filter (\<lambda>rr. RRtype rr \<noteq> TypeRRSIG) ?all)
      = filter (\<lambda>rr. Name rr = n) (filter (\<lambda>rr. RRtype rr = t) ?all)"
    unfolding filter_filter using False by (intro filter_cong) auto
  also have "\<dots> = LookupByName (NewDB z rs) n t"
    using AllRecords_filter_type [OF assms, where t = t and z = z and rs = rs and b = False]
      LookupByName_NewDB [where z = z and rs = rs and b = False and n = n and t = t] by (simp add: conj_commute)
  finally show ?thesis using False by (simp add: rrsetsOf_member)
qed

subsection \<open>Properties\<close>

text \<open>C32: What \<open>SignRRset\<close> signs verifies: for an Ed25519 or ECDSA key whose private key belongs to its
  algorithm, \<open>verifyRRSIG\<close> accepts the signature for the same RRset in whatever order its records come,
  although ECDSA signatures are converted from DER to the fixed-size format and back.\<close>

theorem SignRRset_verifies:
  assumes "scheme_laws sa" "key_matches ka (kAlgorithm (skDNSKEY key)) (pkKey (skPrivateKey key))" "kAlgorithm (skDNSKEY key) \<noteq> 8"
    and "SignRRset uni sa rrset key opts = Inr rrsig" "sameOwner uni rrset" "mset rrset' = mset rrset" "TTL (hd rrset') = TTL (hd rrset)"
  shows "verifyRRSIG uni sa rrsig rrset' key = Inr True \<and> sigOrigTTL rrsig = TTL (hd rrset)
    \<and> sigLabels rrsig = countLabels (Name (hd rrset)) \<and> sigKeyTag rrsig = KeyTag (skDNSKEY key)"
  using sign_verify [OF assms] SignRRset_Inr [OF assms(4)] by metis

text \<open>A concrete scheme and key for the witness: a signature names the key and the data.\<close>

definition sample_scheme :: sign_algebra where
  "sample_scheme = \<lparr> edPublic = (\<lambda>s. s), ecValid = (\<lambda>c s. True), ecPublic = (\<lambda>c s. (1, 2)), sha256 = (\<lambda>d. d), sha384 = (\<lambda>d. d),
     edSign = (\<lambda>s d. s @ d), edVerify = (\<lambda>p d sig. sig = p @ d),
     ecSign = (\<lambda>c k h. Some (asn1Marshal (1, 2))), ecVerify = (\<lambda>p c h sig. sig = asn1Marshal (1, 2)), rsaSign = (\<lambda>k h. None) \<rparr>"

definition sample_key :: "32 word \<Rightarrow> byte \<Rightarrow> Signer \<Rightarrow> SigningKey" where
  "sample_key ttl alg k =
     \<lparr> skDNSKEY = \<lparr> kOwner = lit ''example.'', kTTL = ttl, kFlags = 256, kProtocol = 3, kAlgorithm = alg, kPublicKey = [] \<rparr>,
       skPrivateKey = \<lparr> pkAlgorithm = alg, pkKey = k \<rparr> \<rparr>"

definition sample_rrset :: "RR list" where
  "sample_rrset = [\<lparr> Name = lit ''a.'', RRtype = TypeA, TTL = 300, Opts = RRoptsA [10, 0, 0, 2] \<rparr>,
     \<lparr> Name = lit ''a.'', RRtype = TypeA, TTL = 300, Opts = RRoptsA [10, 0, 0, 1] \<rparr>]"

lemma sample_scheme_laws: "scheme_laws sample_scheme"
proof -
  have "(1 :: nat) < 256 ^ curveSize c \<and> (2 :: nat) < 256 ^ curveSize c" for c by (cases c) (simp_all add: curveSize_def)
  then show ?thesis by (auto simp: scheme_laws_def sample_scheme_def intro!: exI)
qed

theorem SignRRset_verifies_witness:
  "\<exists>rrsig. SignRRset (\<lambda>s. s) sample_scheme sample_rrset (sample_key 300 13 (ECDSAKey P256 [])) \<lparr> rsInception = 0, rsExpiration = 9 \<rparr> = Inr rrsig
    \<and> verifyRRSIG (\<lambda>s. s) sample_scheme rrsig (rev sample_rrset) (sample_key 300 13 (ECDSAKey P256 [])) = Inr True"
proof -
  let ?key = "sample_key 300 13 (ECDSAKey P256 [])" and ?opts = "\<lparr> rsInception = 0, rsExpiration = 9 \<rparr>"
  obtain sig where sig: "ecdsaDERToFixedSize (asn1Marshal (1, 2)) 13 = Inr sig"
    using fixed_roundtrip [of 13 32 1 2] by (auto simp: ecdsaSize_def)
  have "RRtypeToWire TypeA = Some 1" by code_simp
  then obtain rrsig where r: "SignRRset (\<lambda>s. s) sample_scheme sample_rrset ?key ?opts = Inr rrsig"
    by (simp add: SignRRset_def sample_rrset_def sample_key_def signData_def sample_scheme_def sig [simplified] Let_def)
  have h: "key_matches (key_algebra.truncate sample_scheme) (kAlgorithm (skDNSKEY ?key)) (pkKey (skPrivateKey ?key))"
    "kAlgorithm (skDNSKEY ?key) \<noteq> 8" by (simp_all add: sample_key_def sample_scheme_def key_algebra.truncate_def)
  have "verifyRRSIG (\<lambda>s. s) sample_scheme rrsig (rev sample_rrset) ?key = Inr True"
    using SignRRset_verifies [OF sample_scheme_laws h r, of "rev sample_rrset"] by (simp add: sameOwner_def sample_rrset_def)
  with r show ?thesis by blast
qed

text \<open>\<open>SignDB\<close> leaves no RRset unsigned and signs nothing else: when it succeeds, every RRset of the
  database but those of type RRSIG has one signature by every key of its role (the KSKs for the DNSKEY
  RRset, the ZSKs for the others, all keys where one role is missing), made over exactly the records that
  a lookup of that name and type returns and carrying their TTL, whatever order the map iteration takes.\<close>

theorem SignDB_signs_every_RRset:
  assumes "SignDB uni sa ord (NewDB z rs) keys opts = Inr sigs" "\<And>m. mset (ord m) = mset m"
  shows "(\<forall>n t signer. t \<noteq> TypeRRSIG \<and> LookupByName (NewDB z rs) n t \<noteq> [] \<and> signer \<in> set (signersOf keys t) \<longrightarrow>
      (\<exists>r. SignRRset uni sa (LookupByName (NewDB z rs) n t) signer opts = Inr r
        \<and> RRSIG_AsRR r n (TTL (hd (LookupByName (NewDB z rs) n t))) \<in> set sigs))
    \<and> (\<forall>sig \<in> set sigs. \<exists>n t signer r. t \<noteq> TypeRRSIG \<and> LookupByName (NewDB z rs) n t \<noteq> [] \<and> signer \<in> set (signersOf keys t)
      \<and> SignRRset uni sa (LookupByName (NewDB z rs) n t) signer opts = Inr r
      \<and> sig = RRSIG_AsRR r n (TTL (hd (LookupByName (NewDB z rs) n t))))"
proof (intro conjI allI impI ballI)
  note S = SignDB_Inr [OF assms(1), folded AllRecords_def]
  fix n t signer assume k: "t \<noteq> TypeRRSIG \<and> LookupByName (NewDB z rs) n t \<noteq> [] \<and> signer \<in> set (signersOf keys t)"
  let ?rrset = "LookupByName (NewDB z rs) n t"
  have m: "((n, t), ?rrset) \<in> set (rrsetsOf (AllRecords ord (NewDB z rs)))" using k by (simp add: rrsetsOf_NewDB [OF assms(2)])
  moreover obtain r where "SignRRset uni sa ?rrset signer opts = Inr r" using S(2) [OF m] k by auto
  ultimately show "\<exists>r. SignRRset uni sa ?rrset signer opts = Inr r \<and> RRSIG_AsRR r n (TTL (hd ?rrset)) \<in> set sigs"
    using k unfolding S(1) by fastforce
next
  fix sig assume "sig \<in> set sigs"
  then obtain n t rrset signer r where "((n, t), rrset) \<in> set (rrsetsOf (AllRecords ord (NewDB z rs)))" "signer \<in> set (signersOf keys t)"
    "SignRRset uni sa rrset signer opts = Inr r" "sig = RRSIG_AsRR r n (TTL (hd rrset))"
    unfolding SignDB_Inr(1) [OF assms(1), folded AllRecords_def] by auto
  then show "\<exists>n t signer r. t \<noteq> TypeRRSIG \<and> LookupByName (NewDB z rs) n t \<noteq> [] \<and> signer \<in> set (signersOf keys t)
      \<and> SignRRset uni sa (LookupByName (NewDB z rs) n t) signer opts = Inr r
      \<and> sig = RRSIG_AsRR r n (TTL (hd (LookupByName (NewDB z rs) n t)))"
    unfolding rrsetsOf_NewDB [OF assms(2)] by blast
qed

theorem SignDB_signs_every_RRset_witness:
  "\<exists>sigs r. SignDB (\<lambda>s. s) sample_scheme rev (NewDB (lit ''a.'') sample_rrset) [sample_key 300 15 (Ed25519Key [])]
      \<lparr> rsInception = 0, rsExpiration = 9 \<rparr> = Inr sigs \<and> RRSIG_AsRR r (lit ''a.'') 300 \<in> set sigs"
proof -
  let ?db = "NewDB (lit ''a.'') sample_rrset" and ?key = "sample_key 300 15 (Ed25519Key [])"
  let ?opts = "\<lparr> rsInception = 0, rsExpiration = 9 \<rparr>"
  have l: "LookupByName ?db (lit ''a.'') TypeA = sample_rrset" by code_simp
  have sets: "rrsetsOf (concat (map snd (rev (ByType ?db)))) = [((lit ''a.'', TypeA), sample_rrset)]" by code_simp
  have "RRtypeToWire TypeA = Some 1" by code_simp
  then obtain r where r: "SignRRset (\<lambda>s. s) sample_scheme sample_rrset ?key ?opts = Inr r"
    by (simp add: SignRRset_def sample_rrset_def sample_key_def signData_def sample_scheme_def Let_def)
  have k: "keyRoles [?key] = ([?key], [?key])" by (simp add: keyRoles_def sample_key_def IsKSK_def Let_def)
  obtain sigs where s: "SignDB (\<lambda>s. s) sample_scheme rev ?db [?key] ?opts = Inr sigs"
    by (simp add: SignDB_def sets k r)
  have h: "?key \<in> set (signersOf [?key] TypeA)" "sample_rrset \<noteq> []" "TTL (hd sample_rrset) = 300" "TypeA \<noteq> TypeRRSIG"
    using rrtypes_distinct by (simp_all add: signersOf_def k) (simp_all add: sample_rrset_def)
  have "mset (rev m) = mset m" for m :: "(RRtype \<times> RR list) list" by simp
  from SignDB_signs_every_RRset [OF s this, THEN conjunct1, rule_format, of TypeA "lit ''a.''" ?key] h s l
  show ?thesis by auto
qed

end
