(* ===== verification/Master.thy ===== *)
theory Master
  imports DNSSEC_Sign NSEC3 Sanity Slave_Sync Update_Gateway
begin

text \<open>
  The master, after \<^verbatim>\<open>internal/master/db.go\<close> and the handlers of \<^verbatim>\<open>internal/master/master.go\<close>:
  building a database from the DNSRecord resources, signing it, publishing it to the slaves, and the
  dump a slave polls.

  Parameters are what the code gets from outside: the list of resources (as decoded records), the
  secrets, the clock readings, the order of every map iteration, the resolver, the JSON encoder, and the
  cryptography of \<open>DNSSEC_Sign\<close>.
\<close>

subsection \<open>State and inputs\<close>

record master_env =
  mvUni :: unilower
  mvUup :: unilower
  mvSha1 :: hashfun
  mvText :: text_tables
  mvScheme :: sign_algebra
  mvRnd :: "real \<Rightarrow> real"
  mvParseDuration :: "gostring \<Rightarrow> duration option"
  mvSecrets :: secret_api

datatype list_result = ListFailed | ErrNoResults | Objects "RR list"

text \<open>What one call of \<open>rebuild\<close> reads: the resources, the clock (Unix seconds) for the serial and for
  the two groups of signatures, and the order of its map iterations.\<close>

record rebuild_input =
  inList :: list_result
  inSerialNow :: int
  inSignNow :: int
  inChainNow :: int
  inOrdCheck :: maporder
  inOrdAll :: maporder
  inOrdSign :: maporder
  inOrdNames :: "Domain list \<Rightarrow> Domain list"

datatype pipeline_error =
    ReadSecretFailed secret_error | LoadKeysFailed "key_error list" | BadValidityWindow gostring
  | SignDBFailed sign_error | ChainFailed nsec3_error | SignNSEC3Failed sign_error | SignNSEC3PARAMFailed sign_error

datatype rebuild_error =
    QueryFailed | TooManyRecords nat int | SanityFailed sanity_error | SigningFailed pipeline_error

record Master =
  mCfg :: DNSConfigSpec
  mNamespace :: gostring
  mCurrent :: "DB option"
  mRebuilds :: nat
  mRebuildErrors :: nat
  mRRCount :: "RRtype \<rightharpoonup> nat"
  mResigns :: nat

definition NewMaster :: "DNSConfigSpec \<Rightarrow> gostring \<Rightarrow> Master" where
  "NewMaster cfg namespace = \<lparr> mCfg = cfg, mNamespace = namespace, mCurrent = None, mRebuilds = 0, mRebuildErrors = 0,
     mRRCount = Map.empty, mResigns = 0 \<rparr>"

definition MasterReady :: "Master \<Rightarrow> bool" where
  "MasterReady ms \<longleftrightarrow> mCurrent ms \<noteq> None"

subsection \<open>Signing a database\<close>

definition mapE :: "('e \<Rightarrow> 'f) \<Rightarrow> 'e + 'a \<Rightarrow> 'f + 'a" where
  "mapE f r = (case r of Inl e \<Rightarrow> Inl (f e) | Inr x \<Rightarrow> Inr x)"

text \<open>A missing field of a secret is an empty string.\<close>

definition secretField :: "(gostring \<times> bytes) list \<Rightarrow> gostring \<Rightarrow> gostring" where
  "secretField secretData k = (case map_of secretData k of Some v \<Rightarrow> v | None \<Rightarrow> [])"

fun readSecrets :: "secret_api \<Rightarrow> gostring \<Rightarrow> KeyRef list \<Rightarrow> secret_error + KeySecret list" where
  "readSecrets api namespace [] = Inr []"
| "readSecrets api namespace (keyRef # refs) =
     bindE (GetSecret api namespace (SecretRef keyRef)) (\<lambda>secretData.
       bindE (readSecrets api namespace refs) (\<lambda>secrets.
         Inr (\<lparr> secKeyType = secretField secretData (lit ''keyType''),
                secPrivateKey = secretField secretData (lit ''privateKey'') \<rparr> # secrets)))"

definition rrSigWindow :: "master_env \<Rightarrow> Master \<Rightarrow> pipeline_error + duration" where
  "rrSigWindow env ms =
     (let s = RRSIGValidityWindow (cfgDNSSEC (mCfg ms))
      in if s = [] then Inr 0
         else case mvParseDuration env s of None \<Rightarrow> Inl (BadValidityWindow s) | Some d \<Rightarrow> Inr d)"

definition dnskeyRR :: "Domain \<Rightarrow> SigningKey \<Rightarrow> RR" where
  "dnskeyRR zone sk = \<lparr> Name = zone, RRtype = TypeDNSKEY, TTL = kTTL (skDNSKEY sk),
     Opts = RRoptsDNSKEY (kFlags (skDNSKEY sk)) (kProtocol (skDNSKEY sk)) (kAlgorithm (skDNSKEY sk)) (kPublicKey (skDNSKEY sk)) \<rparr>"

text \<open>Each record of a list signed as an RRset of its own, by each key.\<close>

fun signRecords :: "unilower \<Rightarrow> 'a sign_algebra_scheme \<Rightarrow> RRSIGOpts \<Rightarrow> SigningKey list \<Rightarrow> RR list \<Rightarrow> sign_error + RR list" where
  "signRecords uni sa opts zsks [] = Inr []"
| "signRecords uni sa opts zsks (rr # rrs) =
     bindE (signEach uni sa opts (Name rr, RRtype rr) [rr] zsks) (\<lambda>sigs.
       bindE (signRecords uni sa opts zsks rrs) (\<lambda>rest. Inr (sigs @ rest)))"

definition chainKeys :: "SigningKey list \<Rightarrow> SigningKey list" where
  "chainKeys keys = (let zsks = filter (\<lambda>k. IsZSK (skDNSKEY k)) keys in if length zsks = 0 then keys else zsks)"

text \<open>Steps 3 to 7 of \<open>signDB\<close>: with the keys.\<close>

definition signWith :: "master_env \<Rightarrow> rebuild_input \<Rightarrow> DB \<Rightarrow> SigningKey list \<Rightarrow> duration \<Rightarrow> pipeline_error + DB" where
  "signWith env inp d keys window =
     (let uni = mvUni env; sa = mvScheme env; zone = Zone d;
          records = AllRecords (inOrdAll inp) d @ map (dnskeyRR zone) keys;
          signOpts = DefaultRRSIGOpts (mvRnd env) (word_of_int (inSignNow inp)) window
      in bindE (mapE SignDBFailed (SignDB uni sa (inOrdSign inp) (NewDB zone records) keys signOpts)) (\<lambda>rrsigs.
         let records1 = records @ rrsigs
         in bindE (mapE ChainFailed (BuildNSEC3Chain uni (mvUup env) (mvSha1 env) (inOrdNames inp) (NewDB zone records1)
                DefaultNSEC3PARAMRecord)) (\<lambda>(chain, nsec3paramRR).
            let records2 = records1 @ Records chain @ [nsec3paramRR]; zsks = chainKeys keys;
                opts = DefaultRRSIGOpts (mvRnd env) (word_of_int (inChainNow inp)) window
            in bindE (mapE SignNSEC3Failed (signRecords uni sa opts zsks (Records chain))) (\<lambda>sigs.
               bindE (mapE SignNSEC3PARAMFailed (signRecords uni sa opts zsks [nsec3paramRR])) (\<lambda>paramSigs.
                 Inr ((NewDB zone (records2 @ sigs @ paramSigs)) \<lparr> DNSSECEnabled := True \<rparr>))))))"

definition signDB :: "master_env \<Rightarrow> Master \<Rightarrow> rebuild_input \<Rightarrow> DB \<Rightarrow> (pipeline_error + DB) go" where
  "signDB env ms inp d =
     (case readSecrets (mvSecrets env) (mNamespace ms) (Keys (cfgDNSSEC (mCfg ms))) of
        Inl err \<Rightarrow> Some (Inl (ReadSecretFailed err))
      | Inr secrets \<Rightarrow> do {
          loaded \<leftarrow> LoadKeys (mvText env) (key_algebra.truncate (mvScheme env)) secrets (globalZone (Global (mCfg ms)));
          Some (bindE (mapE LoadKeysFailed loaded) (\<lambda>keys.
            bindE (rrSigWindow env ms) (\<lambda>window. signWith env inp d keys window)))
        })"

subsection \<open>Rebuilding\<close>

definition defaultMaxRRsize :: int where "defaultMaxRRsize = 100000"

definition maxRecordCount :: "Master \<Rightarrow> int" where
  "maxRecordCount ms =
     (let maxRecords = MaxRecords (cfgMaster (mCfg ms)) in if maxRecords \<le> 0 then defaultMaxRRsize else maxRecords)"

definition setSerial :: "32 word \<Rightarrow> RR \<Rightarrow> RR" where
  "setSerial serial rr =
     (case Opts rr of
        RRoptsSOA mname rname _ refresh retry expire minimum \<Rightarrow> rr \<lparr> Opts := RRoptsSOA mname rname serial refresh retry expire minimum \<rparr>
      | _ \<Rightarrow> rr)"

text \<open>The loop over \<open>newDB.ByType["SOA"]\<close> writes through pointers: the records are the same objects in both
  indexes.\<close>

definition stampSerial :: "32 word \<Rightarrow> DB \<Rightarrow> DB" where
  "stampSerial serial d = d \<lparr>
     ByType := map (\<lambda>(t, rrs). (t, if t = TypeSOA then map (setSerial serial) rrs else rrs)) (ByType d),
     ByName := map (\<lambda>(n, rrs). (n, map (\<lambda>rr. if RRtype rr = TypeSOA then setSerial serial rr else rr) rrs)) (ByName d) \<rparr>"

definition setCounts :: "DB \<Rightarrow> (RRtype \<rightharpoonup> nat) \<Rightarrow> (RRtype \<rightharpoonup> nat)" where
  "setCounts d counts = foldl (\<lambda>m (t, rrs). m(t \<mapsto> length rrs)) counts (ByType d)"

definition failRebuild :: "rebuild_error \<Rightarrow> Master \<Rightarrow> ((rebuild_error + DB) \<times> Master) go" where
  "failRebuild err ms = Some (Inl err, ms \<lparr> mRebuildErrors := mRebuildErrors ms + 1 \<rparr>)"

text \<open>The listed records, with the TTL of the resource replaced.\<close>

definition listedRecords :: "list_result \<Rightarrow> RR list" where
  "listedRecords res = map (\<lambda>rr. rr \<lparr> TTL := DefaultTTL \<rparr>) (case res of Objects objs \<Rightarrow> objs | _ \<Rightarrow> [])"

text \<open>\<open>Inr d\<close>: the database \<open>d\<close> is installed and goes to \<open>pushToSlaves\<close>.\<close>

definition rebuild :: "master_env \<Rightarrow> Master \<Rightarrow> rebuild_input \<Rightarrow> ((rebuild_error + DB) \<times> Master) go" where
  "rebuild env ms0 inp =
     (let ms = ms0 \<lparr> mRebuilds := mRebuilds ms0 + 1 \<rparr>
      in if inList inp = ListFailed then failRebuild QueryFailed ms
         else
           (let records = listedRecords (inList inp); maxRecords = maxRecordCount ms
            in if maxRecords < int (length records) then failRebuild (TooManyRecords (length records) maxRecords) ms
               else
                 (let newDB = stampSerial (word_of_int (inSerialNow inp)) (NewDB (globalZone (Global (mCfg ms))) records)
                  in do {
                       chk \<leftarrow> SanityChecks (mvUni env) (inOrdCheck inp) newDB;
                       case chk of
                         Some err \<Rightarrow> failRebuild (SanityFailed err) ms
                       | None \<Rightarrow> do {
                           signed \<leftarrow> (if 0 < length (Keys (cfgDNSSEC (mCfg ms))) then signDB env ms inp newDB else Some (Inr newDB));
                           case signed of
                             Inl err \<Rightarrow> failRebuild (SigningFailed err) ms
                           | Inr d \<Rightarrow> Some (Inr d, ms \<lparr> mRRCount := setCounts d (mRRCount ms), mCurrent := Some d \<rparr>)
                         }
                     })))"

subsection \<open>Publishing\<close>

text \<open>The POST requests of \<open>pushToSlaves\<close>, each made by a goroutine of its own.\<close>

definition pushToSlaves ::
  "(dbWire \<Rightarrow> bytes option) \<Rightarrow> maporder \<Rightarrow> (gostring \<Rightarrow> gostring list option) \<Rightarrow> Master \<Rightarrow> DB \<Rightarrow> (gostring \<times> bytes) list" where
  "pushToSlaves enc ord lookupHost ms d =
     (case MarshalJSON enc ord d of
        None \<Rightarrow> []
      | Some data \<Rightarrow>
          (case lookupHost (masterDiscoveryRecord (cfgMaster (mCfg ms))) of
             None \<Rightarrow> []
           | Some addrs \<Rightarrow> map (\<lambda>addr. (lit ''http://'' @ addr @ lit '':8080/db'', data)) addrs))"

text \<open>The status code and the JSON body of \<open>GET /db/dump\<close>.\<close>

definition master_handleDBDump :: "(dbWire \<Rightarrow> bytes option) \<Rightarrow> maporder \<Rightarrow> Master \<Rightarrow> nat \<times> bytes option" where
  "master_handleDBDump enc ord ms =
     (case mCurrent ms of
        None \<Rightarrow> (503, None)
      | Some d \<Rightarrow> (case MarshalJSON enc ord d of None \<Rightarrow> (500, None) | Some data \<Rightarrow> (200, Some data)))"

subsection \<open>The serial\<close>

definition stampRR :: "32 word \<Rightarrow> RR \<Rightarrow> RR" where
  "stampRR serial rr = (if RRtype rr = TypeSOA then setSerial serial rr else rr)"

lemma stampRR_sel [simp]: "Name (stampRR s rr) = Name rr" "RRtype (stampRR s rr) = RRtype rr" "TTL (stampRR s rr) = TTL rr"
  by (simp_all add: stampRR_def setSerial_def split: RRopts.split)

lemma mapAppend_map:
  "map (\<lambda>(k, vs). (k, map f vs)) (mapAppend k v m) = mapAppend k (f v) (map (\<lambda>(k, vs). (k, map f vs)) m)"
  by (induction k v m rule: mapAppend.induct) auto

lemma grouping_map:
  assumes "\<And>r. key (f r) = key r"
  shows "map (\<lambda>(k, vs). (k, map f vs)) (foldl (\<lambda>m r. mapAppend (key r) r m) m rs)
    = foldl (\<lambda>m r. mapAppend (key r) r m) (map (\<lambda>(k, vs). (k, map f vs)) m) (map f rs)"
  by (induction rs arbitrary: m) (simp_all add: mapAppend_map assms)

lemma stampSerial_NewDB: "stampSerial s (NewDB z rs) = NewDB z (map (stampRR s) rs)"
proof -
  have "map (\<lambda>(t, rrs). (t, if t = TypeSOA then map (setSerial s) rrs else rrs)) (ByType (NewDB z rs))
      = map (\<lambda>(t, rrs). (t, map (stampRR s) rrs)) (ByType (NewDB z rs))"
    using by_type.group_key [of _ _ z rs] by (auto simp: stampRR_def intro!: map_idI [symmetric])
  also have "\<dots> = ByType (NewDB z (map (stampRR s) rs))" by (simp add: NewDB_def grouping_map)
  finally show ?thesis
    using grouping_map [of Name "stampRR s" "[]" rs, OF stampRR_sel(1)] by (simp add: stampSerial_def NewDB_def stampRR_def [abs_def])
qed

text \<open>The records the master publishes for a list of resources.\<close>

definition published :: "int \<Rightarrow> RR list \<Rightarrow> RR list" where
  "published now objs = map (\<lambda>rr. stampRR (word_of_int now) (rr \<lparr> TTL := DefaultTTL \<rparr>)) objs"

lemma good_record_stamp: "good_record uni rr \<Longrightarrow> good_record uni (stampRR s (rr \<lparr> TTL := t \<rparr>))"
  by (cases "Opts rr") (auto simp: good_record_def stampRR_def setSerial_def names_in_def)

lemma good_zone_published: "good_zone uni z objs \<Longrightarrow> good_zone uni z (published now objs)"
  by (auto simp: good_zone_def published_def list_all_iff good_record_stamp)

lemma newDB_published:
  "stampSerial (word_of_int now) (NewDB z (listedRecords (Objects objs))) = NewDB z (published now objs)"
  by (simp add: stampSerial_NewDB listedRecords_def published_def comp_def)

subsection \<open>Signing keeps the records\<close>

lemma mapE_Inr [simp]: "mapE f r = Inr x \<longleftrightarrow> r = Inr x"
  by (cases r) (simp_all add: mapE_def)

lemma signRecords_Inr:
  "signRecords uni sa opts zsks rrs = Inr sigs \<Longrightarrow>
     (\<forall>rr \<in> set rrs. \<forall>zsk \<in> set zsks. \<exists>r. SignRRset uni sa [rr] zsk opts = Inr r \<and> RRSIG_AsRR r (Name rr) (TTL rr) \<in> set sigs)
     \<and> (\<forall>sig \<in> set sigs. RRtype sig = TypeRRSIG)"
proof (induction rrs arbitrary: sigs)
  case (Cons rr rrs)
  then obtain s rest where s: "signEach uni sa opts (Name rr, RRtype rr) [rr] zsks = Inr s" "signRecords uni sa opts zsks rrs = Inr rest"
    "sigs = s @ rest" by (auto simp: bindE_Inr)
  from signEach_Inr [OF s(1)] have
    "list_all2 (\<lambda>zsk sig. \<exists>r. SignRRset uni sa [rr] zsk opts = Inr r \<and> sig = RRSIG_AsRR r (Name rr) (TTL rr)) zsks s" by simp
  from list_all2_left [OF this] list_all2_right [OF this] Cons.IH [OF s(2)] s(3)
  show ?case by (fastforce simp: RRSIG_AsRR_def)
qed simp

text \<open>The stages of \<open>signWith\<close>.\<close>

lemma signWith_Inr:
  assumes "signWith env inp d keys window = Inr d'"
  defines "records \<equiv> AllRecords (inOrdAll inp) d @ map (dnskeyRR (Zone d)) keys"
    and "opts1 \<equiv> DefaultRRSIGOpts (mvRnd env) (word_of_int (inSignNow inp)) window"
    and "opts2 \<equiv> DefaultRRSIGOpts (mvRnd env) (word_of_int (inChainNow inp)) window"
  obtains rrsigs chain param sigs psigs where
    "SignDB (mvUni env) (mvScheme env) (inOrdSign inp) (NewDB (Zone d) records) keys opts1 = Inr rrsigs"
    "BuildNSEC3Chain (mvUni env) (mvUup env) (mvSha1 env) (inOrdNames inp) (NewDB (Zone d) (records @ rrsigs))
       DefaultNSEC3PARAMRecord = Inr (chain, param)"
    "signRecords (mvUni env) (mvScheme env) opts2 (chainKeys keys) (Records chain) = Inr sigs"
    "signRecords (mvUni env) (mvScheme env) opts2 (chainKeys keys) [param] = Inr psigs"
    "d' = (NewDB (Zone d) (records @ rrsigs @ Records chain @ [param] @ sigs @ psigs)) \<lparr> DNSSECEnabled := True \<rparr>"
  using assms by (auto simp: signWith_def Let_def bindE_Inr simp del: signRecords.simps)

lemma Build_types:
  assumes "BuildNSEC3Chain uni uup sha1 ord d p = Inr (c, param)"
  shows "\<forall>rr \<in> set (Records c). RRtype rr = TypeNSEC3" "param = PARAM_AsRR p (Zone d) (nsec3TTL d)" "Params c = p"
  using assms by (auto simp: BuildNSEC3Chain_def Let_def NSEC3_AsRR_def split: if_splits)

definition dnssecType :: "RRtype \<Rightarrow> bool" where
  "dnssecType t \<longleftrightarrow> t = TypeRRSIG \<or> t = TypeNSEC3 \<or> t = TypeNSEC3PARAM"

lemma chainKeys_signers:
  assumes "\<forall>k \<in> set keys. IsKSK (skDNSKEY k) \<or> IsZSK (skDNSKEY k)" "t \<noteq> TypeDNSKEY"
  shows "signersOf keys t = chainKeys keys"
proof -
  have "IsZSK (skDNSKEY k) \<longleftrightarrow> \<not> IsKSK (skDNSKEY k)" if "k \<in> set keys" for k
    using assms(1) that by (auto simp: IsKSK_def IsZSK_def)
  then have z: "filter (\<lambda>k. IsZSK (skDNSKEY k)) keys = filter (\<lambda>k. \<not> IsKSK (skDNSKEY k)) keys" by (intro filter_cong) auto
  show ?thesis
    using assms(2) by (auto simp: signersOf_def chainKeys_def keyRoles_def z Let_def filter_empty_conv filter_id_conv)
qed

lemma chain_names_distinct:
  assumes "BuildNSEC3Chain uni uup sha1 ord d p = Inr (c, param)" "is_ascii (Zone d)" "\<And>ns. mset (ord ns) = mset ns" "no_collision sha1 d p"
  shows "distinct (map Name (Records c))"
proof -
  have "map fst (map rebuildEntry (Records c)) = map (\<lambda>n. take (the (IndexByte n dot)) n) (map Name (Records c))"
    by (simp add: rebuildEntry_def)
  with chain_entries(2) [OF assms] have "distinct (map (\<lambda>n. take (the (IndexByte n dot)) n) (map Name (Records c)))" by (simp only:)
  then show ?thesis by (rule distinct_map [THEN iffD1, THEN conjunct1])
qed

lemma filter_distinct_name:
  "distinct (map Name rrs) \<Longrightarrow> rr \<in> set rrs \<Longrightarrow> filter (\<lambda>x. Name x = Name rr) rrs = [rr]"
  by (induction rrs) (auto simp: filter_empty_conv image_iff)

lemma verifies:
  assumes "scheme_laws sa" "signing_key_ok ka z key" "kAlgorithm (skDNSKEY key) \<noteq> 8"
    and "SignRRset uni sa rrset key opts = Inr r" "\<forall>rr \<in> set rrset. Name rr = n"
  shows "verifyRRSIG uni sa r rrset key = Inr True"
  using assms by (intro sign_verify [where ka = ka and rrset = rrset]) (auto simp: signing_key_ok_def sameOwner_def)

text \<open>The names of the records; the chain hashes no other name.\<close>

lemma SignDB_names:
  assumes "SignDB uni sa ord (NewDB z rs) keys opts = Inr sigs" "\<And>m. mset (ord m) = mset m" "sig \<in> set sigs"
  shows "Name sig \<in> Name ` set rs" "RRtype sig = TypeRRSIG"
proof -
  obtain n t rrset r where m: "((n, t), rrset) \<in> set (rrsetsOf (AllRecords ord (NewDB z rs)))" "sig = RRSIG_AsRR r n (TTL (hd rrset))"
    using assms(3) unfolding SignDB_Inr(1) [OF assms(1), folded AllRecords_def] by auto
  from m(1) have "LookupByName (NewDB z rs) n t \<noteq> []" unfolding rrsetsOf_NewDB [OF assms(2)] by blast
  then have "filter (\<lambda>rr. Name rr = n \<and> RRtype rr = t) rs \<noteq> []" using LookupByName_NewDB [where b = False] by (metis NewDB_unsigned)
  then show "Name sig \<in> Name ` set rs" "RRtype sig = TypeRRSIG" using m(2) by (auto simp: filter_empty_conv RRSIG_AsRR_def)
qed

lemma no_collision_NewDB:
  assumes "inj_on (\<lambda>n. HashName sha1 n (pIterations p) (pSalt p)) (Name ` set rs)"
  shows "no_collision sha1 (NewDB z rs) p"
  using assms by_name.distinct_NewDB [of z rs] by_name.keys_NewDB [of z rs] unfolding no_collision_def distinct_map [of _ "map fst _"] by (simp add: set_map)

subsection \<open>The signed database\<close>

definition chain_ok :: "hashfun \<Rightarrow> Domain \<Rightarrow> RR list \<Rightarrow> bool" where
  "chain_ok sha1 z rs \<longleftrightarrow> is_ascii z \<and> (\<forall>rr \<in> set rs. \<not> dnssecType (RRtype rr))
     \<and> inj_on (\<lambda>n. HashName sha1 n 0 []) (insert z (Name ` set rs))"

definition orders_ok :: "rebuild_input \<Rightarrow> bool" where
  "orders_ok inp \<longleftrightarrow> (\<forall>m. mset (inOrdCheck inp m) = mset m) \<and> (\<forall>m. mset (inOrdAll inp m) = mset m)
     \<and> (\<forall>m. mset (inOrdSign inp m) = mset m) \<and> (\<forall>ns. mset (inOrdNames inp ns) = mset ns)"

lemma signWith_stages:
  assumes "signWith env inp (NewDB z rs) keys window = Inr d'" "chain_ok (mvSha1 env) z rs" "orders_ok inp"
  obtains records rrsigs chain param sigs psigs opts1 opts2 where
    "mset records = mset (rs @ map (dnskeyRR z) keys)"
    "\<And>n t. LookupByName (NewDB z records) n t = LookupByName (NewDB z (rs @ map (dnskeyRR z) keys)) n t"
    "SignDB (mvUni env) (mvScheme env) (inOrdSign inp) (NewDB z records) keys opts1 = Inr rrsigs"
    "BuildNSEC3Chain (mvUni env) (mvUup env) (mvSha1 env) (inOrdNames inp) (NewDB z (records @ rrsigs))
       DefaultNSEC3PARAMRecord = Inr (chain, param)"
    "signRecords (mvUni env) (mvScheme env) opts2 (chainKeys keys) (Records chain) = Inr sigs"
    "signRecords (mvUni env) (mvScheme env) opts2 (chainKeys keys) [param] = Inr psigs"
    "d' = (NewDB z (records @ rrsigs @ Records chain @ [param] @ sigs @ psigs)) \<lparr> DNSSECEnabled := True \<rparr>"
    "\<forall>sig \<in> set (rrsigs @ sigs @ psigs). RRtype sig = TypeRRSIG"
    "no_collision (mvSha1 env) (NewDB z (records @ rrsigs)) DefaultNSEC3PARAMRecord"
proof -
  let ?records = "AllRecords (inOrdAll inp) (NewDB z rs) @ map (dnskeyRR z) keys"
  have o: "\<And>m. mset (inOrdAll inp m) = mset m" "\<And>m. mset (inOrdSign inp m) = mset m" using assms(3) by (simp_all add: orders_ok_def)
  obtain rrsigs chain param sigs psigs where s:
    "SignDB (mvUni env) (mvScheme env) (inOrdSign inp) (NewDB z ?records) keys
       (DefaultRRSIGOpts (mvRnd env) (word_of_int (inSignNow inp)) window) = Inr rrsigs"
    "BuildNSEC3Chain (mvUni env) (mvUup env) (mvSha1 env) (inOrdNames inp) (NewDB z (?records @ rrsigs))
       DefaultNSEC3PARAMRecord = Inr (chain, param)"
    "signRecords (mvUni env) (mvScheme env) (DefaultRRSIGOpts (mvRnd env) (word_of_int (inChainNow inp)) window)
       (chainKeys keys) (Records chain) = Inr sigs"
    "signRecords (mvUni env) (mvScheme env) (DefaultRRSIGOpts (mvRnd env) (word_of_int (inChainNow inp)) window)
       (chainKeys keys) [param] = Inr psigs"
    "d' = (NewDB z (?records @ rrsigs @ Records chain @ [param] @ sigs @ psigs)) \<lparr> DNSSECEnabled := True \<rparr>"
    by (rule signWith_Inr [OF assms(1), unfolded NewDB_sel]) (rule that)
  have m: "mset ?records = mset (rs @ map (dnskeyRR z) keys)" using mset_AllRecords [OF o(1), where z = z and rs = rs and b = False] by simp
  have l: "LookupByName (NewDB z ?records) n t = LookupByName (NewDB z (rs @ map (dnskeyRR z) keys)) n t" for n t
  proof -
    have f: "filter (\<lambda>rr. RRtype rr = t) ?records = filter (\<lambda>rr. RRtype rr = t) (rs @ map (dnskeyRR z) keys)"
      using AllRecords_filter_type [OF o(1), where z = z and rs = rs and b = False and t = t] by simp
    have g: "LookupByName (NewDB z xs) n t = filter (\<lambda>rr. Name rr = n) (filter (\<lambda>rr. RRtype rr = t) xs)" for xs
      using LookupByName_NewDB [where z = z and rs = xs and b = False and n = n and t = t] by (simp add: conj_commute)
    show ?thesis unfolding g f ..
  qed
  have "set ?records = set rs \<union> dnskeyRR z ` set keys" using mset_eq_setD [OF m] by simp
  then have names: "Name ` set ?records \<subseteq> insert z (Name ` set rs)" by (auto simp: dnskeyRR_def)
  have sub: "Name ` set rrsigs \<subseteq> Name ` set ?records" by (rule image_subsetI) (rule SignDB_names(1) [OF s(1) o(2)])
  have "Name ` set (?records @ rrsigs) \<subseteq> insert z (Name ` set rs)"
    unfolding set_append [of ?records] image_Un [of Name "set ?records"] by (rule Un_least [OF names subset_trans [OF sub names]])
  moreover have "inj_on (\<lambda>n. HashName (mvSha1 env) n 0 []) (insert z (Name ` set rs))"
    using assms(2) by (simp only: chain_ok_def)
  ultimately have "inj_on (\<lambda>n. HashName (mvSha1 env) n 0 []) (Name ` set (?records @ rrsigs))" by (rule inj_on_subset [rotated])
  then have nc: "no_collision (mvSha1 env) (NewDB z (?records @ rrsigs)) DefaultNSEC3PARAMRecord"
    by (intro no_collision_NewDB) (simp add: DefaultNSEC3PARAMRecord_def)
  have "\<forall>sig \<in> set (rrsigs @ sigs @ psigs). RRtype sig = TypeRRSIG"
    using SignDB_names(2) [OF s(1) o(2)] signRecords_Inr [OF s(3)] signRecords_Inr [OF s(4)] by auto
  from that [OF m l s(1-5) this nc] show thesis .
qed

lemma RRSIG_AsRR_name [simp]: "Name (RRSIG_AsRR r n ttl) = n"
  by (simp add: RRSIG_AsRR_def)

lemma zone_records_plain:
  assumes "chain_ok sha1 z rs" "set records = set rs \<union> dnskeyRR z ` set keys" "rr \<in> set records"
  shows "\<not> dnssecType (RRtype rr)"
  using assms rrtypes_distinct unfolding chain_ok_def by (auto simp: dnskeyRR_def dnssecType_def)

lemma Build_record_types:
  assumes "BuildNSEC3Chain uni uup sha1 names d param0 = Inr (chain, param)"
  shows "\<forall>rr \<in> set (Records chain). RRtype rr = TypeNSEC3" "RRtype param = TypeNSEC3PARAM"
  using Build_types(1,2) [OF assms] by (simp_all add: PARAM_AsRR_def)

text \<open>The sets of NSEC3 and NSEC3PARAM records of a name are single records.\<close>

lemma chain_rrset_single:
  assumes "BuildNSEC3Chain uni uup sha1 names d param0 = Inr (chain, param)" "distinct (map Name (Records chain))"
    and "filter (\<lambda>rr. Name rr = n \<and> RRtype rr = t) (Records chain @ [param]) \<noteq> []"
  obtains rr where "filter (\<lambda>rr. Name rr = n \<and> RRtype rr = t) (Records chain @ [param]) = [rr]" "Name rr = n"
    "rr \<in> set (Records chain) \<or> rr = param"
proof (cases "t = TypeNSEC3")
  case True
  then have eq: "filter (\<lambda>rr. Name rr = n \<and> RRtype rr = t) (Records chain @ [param]) = filter (\<lambda>rr. Name rr = n) (Records chain)"
    using Build_record_types [OF assms(1)] rrtypes_distinct by (auto intro!: filter_cong)
  then obtain rr where "rr \<in> set (Records chain)" "Name rr = n" using assms(3) by (auto simp: filter_empty_conv)
  then show thesis using that filter_distinct_name [OF assms(2)] eq by auto
next
  case False
  then have "filter (\<lambda>rr. Name rr = n \<and> RRtype rr = t) (Records chain) = []"
    using Build_record_types [OF assms(1)] by (auto simp: filter_empty_conv)
  then show thesis using that assms(3) by (auto split: if_splits)
qed

lemma signWith_signed:
  assumes "signWith env inp (NewDB z rs) keys window = Inr d'" "chain_ok (mvSha1 env) z rs" "orders_ok inp"
    and "\<forall>k \<in> set keys. IsKSK (skDNSKEY k) \<or> IsZSK (skDNSKEY k)"
    and "t \<noteq> TypeRRSIG" "LookupByName d' n t \<noteq> []" "signer \<in> set (signersOf keys t)"
  shows "\<exists>opts r. SignRRset (mvUni env) (mvScheme env) (LookupByName d' n t) signer opts = Inr r
    \<and> RRSIG_AsRR r n (TTL (hd (LookupByName d' n t))) \<in> set (LookupByName d' n TypeRRSIG)"
  using assms(1-3)
proof (rule signWith_stages)
  fix records rrsigs chain param sigs psigs opts1 opts2
  assume m: "mset records = mset (rs @ map (dnskeyRR z) keys)"
    and S: "SignDB (mvUni env) (mvScheme env) (inOrdSign inp) (NewDB z records) keys opts1 = Inr rrsigs"
    and B: "BuildNSEC3Chain (mvUni env) (mvUup env) (mvSha1 env) (inOrdNames inp) (NewDB z (records @ rrsigs))
       DefaultNSEC3PARAMRecord = Inr (chain, param)"
    and R: "signRecords (mvUni env) (mvScheme env) opts2 (chainKeys keys) (Records chain) = Inr sigs"
    and P: "signRecords (mvUni env) (mvScheme env) opts2 (chainKeys keys) [param] = Inr psigs"
    and d': "d' = (NewDB z (records @ rrsigs @ Records chain @ [param] @ sigs @ psigs)) \<lparr> DNSSECEnabled := True \<rparr>"
    and T: "\<forall>sig \<in> set (rrsigs @ sigs @ psigs). RRtype sig = TypeRRSIG"
    and nc: "no_collision (mvSha1 env) (NewDB z (records @ rrsigs)) DefaultNSEC3PARAMRecord"
  have o: "\<And>m. mset (inOrdSign inp m) = mset m" "\<And>ns. mset (inOrdNames inp ns) = mset ns" using assms(3) by (simp_all add: orders_ok_def)
  have look: "LookupByName d' n t = filter (\<lambda>rr. Name rr = n \<and> RRtype rr = t) (records @ Records chain @ [param])" 
    using T assms(5) by (auto simp: d' LookupByName_NewDB filter_empty_conv)
  have sig: "sig \<in> set (LookupByName d' n TypeRRSIG)" if "sig \<in> set (rrsigs @ sigs @ psigs)" "Name sig = n" for sig
    using that T by (auto simp: d' LookupByName_NewDB)
  have "set records = set rs \<union> dnskeyRR z ` set keys" using mset_eq_setD [OF m] by simp
  note plain = zone_records_plain [OF assms(2) this]
  note bt = Build_record_types [OF B]
  have asc: "is_ascii (Zone (NewDB z (records @ rrsigs)))" using assms(2) by (simp add: chain_ok_def)
  note dn = chain_names_distinct [OF B asc o(2) nc]
  show ?thesis
  proof (cases "dnssecType t")
    case False
    then have l: "LookupByName d' n t = LookupByName (NewDB z records) n t"
      using look bt LookupByName_NewDB [where z = z and rs = records and b = False and n = n and t = t]
      by (auto simp: dnssecType_def filter_empty_conv)
    have mem: "((n, t), LookupByName d' n t) \<in> set (rrsetsOf (AllRecords (inOrdSign inp) (NewDB z records)))"
      unfolding rrsetsOf_NewDB [OF o(1)] using assms(5,6) l by simp
    obtain r where r: "SignRRset (mvUni env) (mvScheme env) (LookupByName d' n t) signer opts1 = Inr r"
      using SignDB_Inr(2) [OF S, folded AllRecords_def, OF mem] assms(7) by auto
    then have "RRSIG_AsRR r n (TTL (hd (LookupByName d' n t))) \<in> set rrsigs"
      unfolding SignDB_Inr(1) [OF S, folded AllRecords_def] using mem assms(7) by fastforce
    with sig have "RRSIG_AsRR r n (TTL (hd (LookupByName d' n t))) \<in> set (LookupByName d' n TypeRRSIG)" by simp
    with r show ?thesis by blast
  next
    case True
    have ck: "signer \<in> set (chainKeys keys)"
      using assms(7) chainKeys_signers [OF assms(4), of t] True rrtypes_distinct by (auto simp: dnssecType_def)
    from look have look': "LookupByName d' n t = filter (\<lambda>rr. Name rr = n \<and> RRtype rr = t) (Records chain @ [param])"
      using True plain by (auto simp: filter_empty_conv)
    obtain rr where rr: "LookupByName d' n t = [rr]" "Name rr = n" "rr \<in> set (Records chain) \<or> rr = param"
      by (rule chain_rrset_single [OF B dn assms(6) [unfolded look'], folded look'])
    from rr(3) obtain r where "SignRRset (mvUni env) (mvScheme env) [rr] signer opts2 = Inr r"
      "RRSIG_AsRR r (Name rr) (TTL rr) \<in> set (rrsigs @ sigs @ psigs)"
      using signRecords_Inr [OF R] signRecords_Inr [OF P] ck by fastforce
    with rr sig show ?thesis by (metis RRSIG_AsRR_name list.sel(1))
  qed
qed

lemma LoadKeys_Inr:
  assumes "curve_laws ka" "LoadKeys tt ka secrets zone = Some (Inr keys)"
  shows "list_all (signing_key_ok ka zone) keys"
  using loadEach_ok [OF assms(1), of tt zone secrets] assms(2) by (auto simp: LoadKeys_def split: if_splits)

lemma LoadKeys_length: "curve_laws ka \<Longrightarrow> LoadKeys tt ka secrets zone = Some (Inr keys) \<Longrightarrow> length keys = length secrets"
  using loadEach_ok [of ka tt zone secrets] by (auto simp: LoadKeys_def split: if_splits)

lemma readSecrets_length: "readSecrets api namespace refs = Inr secrets \<Longrightarrow> length secrets = length refs"
  by (induction refs arbitrary: secrets) (auto simp: bindE_Inr)

lemma LoadKeys_returns: "curve_laws ka \<Longrightarrow> \<exists>r. LoadKeys tt ka secrets zone = Some r"
  using loadEach_ok [of ka tt zone secrets] by (auto simp: LoadKeys_def)

lemma signDB_returns: "curve_laws (key_algebra.truncate (mvScheme env)) \<Longrightarrow> \<exists>r. signDB env ms inp d = Some r"
  using LoadKeys_returns [of "key_algebra.truncate (mvScheme env)"] by (auto simp: signDB_def split: sum.split) (metis bind.bind_lunit)

lemma signDB_Inr:
  assumes "signDB env ms inp d = Some (Inr d')"
  obtains secrets keys window where "readSecrets (mvSecrets env) (mNamespace ms) (Keys (cfgDNSSEC (mCfg ms))) = Inr secrets"
    "LoadKeys (mvText env) (key_algebra.truncate (mvScheme env)) secrets (globalZone (Global (mCfg ms))) = Some (Inr keys)"
    "signWith env inp d keys window = Inr d'"
  using assms by (auto simp: signDB_def bindE_Inr bind_eq_Some_conv split: sum.splits)

lemma signWith_lookup:
  assumes "signWith env inp (NewDB z rs) keys window = Inr d'" "orders_ok inp" "\<not> dnssecType t" "t \<noteq> TypeDNSKEY"
  shows "LookupByName d' n t = filter (\<lambda>rr. Name rr = n \<and> RRtype rr = t) rs" "Zone d' = z" "DNSSECEnabled d'"
proof -
  have o: "\<And>m. mset (inOrdAll inp m) = mset m" "\<And>m. mset (inOrdSign inp m) = mset m" using assms(2) by (simp_all add: orders_ok_def)
  let ?all = "AllRecords (inOrdAll inp) (NewDB z rs)"
  from signWith_Inr [OF assms(1), unfolded NewDB_sel] obtain rrsigs chain param sigs psigs opts1 opts2 where s:
    "SignDB (mvUni env) (mvScheme env) (inOrdSign inp) (NewDB z (?all @ map (dnskeyRR z) keys)) keys opts1 = Inr rrsigs"
    "BuildNSEC3Chain (mvUni env) (mvUup env) (mvSha1 env) (inOrdNames inp) (NewDB z ((?all @ map (dnskeyRR z) keys) @ rrsigs))
       DefaultNSEC3PARAMRecord = Inr (chain, param)"
    "signRecords (mvUni env) (mvScheme env) opts2 (chainKeys keys) (Records chain) = Inr sigs"
    "signRecords (mvUni env) (mvScheme env) opts2 (chainKeys keys) [param] = Inr psigs"
    and d': "d' = (NewDB z ((?all @ map (dnskeyRR z) keys) @ rrsigs @ Records chain @ [param] @ sigs @ psigs)) \<lparr> DNSSECEnabled := True \<rparr>"
    by metis
  have "\<forall>sig \<in> set (rrsigs @ sigs @ psigs). RRtype sig = TypeRRSIG"
    using SignDB_names(2) [OF s(1) o(2)] signRecords_Inr [OF s(3)] signRecords_Inr [OF s(4)] by auto
  moreover have "\<forall>rr \<in> set (Records chain @ [param]). RRtype rr = TypeNSEC3 \<or> RRtype rr = TypeNSEC3PARAM"
    using Build_types(1,2) [OF s(2)] by (auto simp: PARAM_AsRR_def)
  ultimately have "filter (\<lambda>rr. RRtype rr = t) (map (dnskeyRR z) keys @ rrsigs @ Records chain @ [param] @ sigs @ psigs) = []"
    using assms(3,4) by (auto simp: filter_empty_conv dnssecType_def dnskeyRR_def)
  then have "filter (\<lambda>rr. RRtype rr = t) ((?all @ map (dnskeyRR z) keys) @ rrsigs @ Records chain @ [param] @ sigs @ psigs)
      = filter (\<lambda>rr. RRtype rr = t) rs"
    using AllRecords_filter_type [OF o(1), where z = z and rs = rs and b = False and t = t] by simp
  from arg_cong [OF this, of "filter (\<lambda>rr. Name rr = n)"]
  show "LookupByName d' n t = filter (\<lambda>rr. Name rr = n \<and> RRtype rr = t) rs"
    by (simp only: d' LookupByName_NewDB filter_filter conj_commute)
  show "Zone d' = z" "DNSSECEnabled d'" by (simp_all add: d')
qed

subsection \<open>Signing succeeds\<close>

text \<open>Ed25519 signatures cannot fail: with such keys the pipeline succeeds on records of known types.\<close>

definition ed25519_key :: "SigningKey \<Rightarrow> bool" where
  "ed25519_key key \<longleftrightarrow> kAlgorithm (skDNSKEY key) = 15 \<and> (\<exists>seed. pkKey (skPrivateKey key) = Ed25519Key seed)"

definition known_types :: "RR list \<Rightarrow> bool" where
  "known_types rs \<longleftrightarrow> (\<forall>rr \<in> set rs. RRtypeToWire (RRtype rr) \<noteq> None)"

lemma SignRRset_ed25519:
  assumes "ed25519_key key" "rrset \<noteq> []" "known_types rrset" shows "\<exists>r. SignRRset uni sa rrset key opts = Inr r"
  using assms by (cases rrset) (auto simp: SignRRset_def signData_def ed25519_key_def known_types_def Let_def)

lemma signEach_ed25519:
  "list_all ed25519_key keys \<Longrightarrow> rrset \<noteq> [] \<Longrightarrow> known_types rrset \<Longrightarrow> \<exists>s. signEach uni sa opts k rrset keys = Inr s"
proof (induction keys)
  case (Cons key keys)
  then show ?case using SignRRset_ed25519 [of key rrset uni sa opts] by auto
qed simp

lemma signSets_ed25519:
  assumes "list_all ed25519_key ksks" "list_all ed25519_key zsks" "\<forall>(k, rrset) \<in> set sets. rrset \<noteq> [] \<and> known_types rrset"
  shows "\<exists>s. signSets uni sa opts ksks zsks sets = Inr s"
  using assms(3)
proof (induction sets)
  case (Cons x sets)
  obtain k rrset where x: "x = (k, rrset)" by fastforce
  then show ?case
    using Cons signEach_ed25519 [of "if snd k = TypeDNSKEY then ksks else zsks" rrset uni sa opts k] assms(1,2) by (auto split: if_splits)
qed simp

lemma signRecords_ed25519:
  "list_all ed25519_key keys \<Longrightarrow> known_types rrs \<Longrightarrow> \<exists>s. signRecords uni sa opts keys rrs = Inr s"
proof (induction rrs)
  case (Cons rr rrs)
  then show ?case using signEach_ed25519 [of keys "[rr]" uni sa opts "(Name rr, RRtype rr)"] by (auto simp: known_types_def)
qed simp

lemma SignDB_ed25519:
  assumes "list_all ed25519_key keys" "known_types rs" "\<And>m. mset (ord m) = mset m"
  shows "\<exists>s. SignDB uni sa ord (NewDB z rs) keys opts = Inr s"
proof -
  obtain ksks zsks where roles: "keyRoles keys = (ksks, zsks)" by fastforce
  then have k: "list_all ed25519_key ksks" "list_all ed25519_key zsks"
    using assms(1) by (auto simp: keyRoles_def list_all_iff Let_def split: if_splits)
  have "\<forall>(k, rrset) \<in> set (rrsetsOf (AllRecords ord (NewDB z rs))). rrset \<noteq> [] \<and> known_types rrset"
    using assms(2) LookupByName_NewDB [where z = z and rs = rs and b = False]
    by (auto simp: rrsetsOf_NewDB [OF assms(3)] known_types_def)
  from signSets_ed25519 [OF k this] show ?thesis by (simp add: SignDB_def roles AllRecords_def)
qed

lemma signWith_ed25519:
  assumes "list_all ed25519_key keys" "known_types rs" "rs \<noteq> []" "orders_ok inp"
  shows "\<exists>d'. signWith env inp (NewDB z rs) keys window = Inr d'"
proof -
  have o: "\<And>m. mset (inOrdAll inp m) = mset m" "\<And>m. mset (inOrdSign inp m) = mset m" using assms(4) by (simp_all add: orders_ok_def)
  let ?recs = "AllRecords (inOrdAll inp) (NewDB z rs) @ map (dnskeyRR z) keys"
  have m: "mset (AllRecords (inOrdAll inp) (NewDB z rs)) = mset rs" using mset_AllRecords [OF o(1), where b = False] by simp
  have dk: "RRtypeToWire TypeDNSKEY \<noteq> None" "RRtypeToWire TypeNSEC3 \<noteq> None" "RRtypeToWire TypeNSEC3PARAM \<noteq> None" by code_simp+
  have kt: "known_types ?recs" using assms(2) mset_eq_setD [OF m] dk(1) by (auto simp: known_types_def dnskeyRR_def)
  obtain rrsigs where s: "SignDB (mvUni env) (mvScheme env) (inOrdSign inp) (NewDB z ?recs) keys
      (DefaultRRSIGOpts (mvRnd env) (word_of_int (inSignNow inp)) window) = Inr rrsigs"
    using SignDB_ed25519 [OF assms(1) kt o(2)] by blast
  have "?recs @ rrsigs \<noteq> []" using m assms(3) by (metis append_is_Nil_conv mset_zero_iff)
  then have "ByName (NewDB z (?recs @ rrsigs)) \<noteq> []" using by_name.keys_NewDB [of z "?recs @ rrsigs"] by (metis image_is_empty set_empty)
  then obtain c param where b: "BuildNSEC3Chain (mvUni env) (mvUup env) (mvSha1 env) (inOrdNames inp) (NewDB z (?recs @ rrsigs))
      DefaultNSEC3PARAMRecord = Inr (c, param)" by (simp add: BuildNSEC3Chain_def Let_def)
  have "known_types (Records c)" "known_types [param]"
    using Build_types(1,2) [OF b] dk by (auto simp: known_types_def PARAM_AsRR_def)
  moreover have "list_all ed25519_key (chainKeys keys)" using assms(1) by (auto simp: chainKeys_def list_all_iff Let_def)
  ultimately obtain sg ps where "signRecords (mvUni env) (mvScheme env) (DefaultRRSIGOpts (mvRnd env) (word_of_int (inChainNow inp)) window)
       (chainKeys keys) (Records c) = Inr sg"
    "signRecords (mvUni env) (mvScheme env) (DefaultRRSIGOpts (mvRnd env) (word_of_int (inChainNow inp)) window)
       (chainKeys keys) [param] = Inr ps" using signRecords_ed25519 by metis
  then show ?thesis using s b by (simp add: signWith_def Let_def mapE_def del: signRecords.simps)
qed

subsection \<open>Properties\<close>

abbreviation masterZone :: "Master \<Rightarrow> Domain" where
  "masterZone ms \<equiv> globalZone (Global (mCfg ms))"

text \<open>The database \<open>d\<close> serves the records \<open>rs\<close>, apart from the DNSSEC records.\<close>

definition serves_records :: "DB \<Rightarrow> RR list \<Rightarrow> bool" where
  "serves_records d rs \<longleftrightarrow> (\<forall>n t. \<not> dnssecType t \<and> t \<noteq> TypeDNSKEY \<longrightarrow>
     LookupByName d n t = filter (\<lambda>rr. Name rr = n \<and> RRtype rr = t) rs)"

lemma built_serves:
  assumes "(if 0 < length ks then signDB env ms inp (NewDB z rs) else Some (Inr (NewDB z rs))) = Some (Inr d)" "orders_ok inp"
  shows "serves_records d rs \<and> Zone d = z \<and> DNSSECEnabled d = (ks \<noteq> [])"
proof (cases "ks = []")
  case True
  then have "d = NewDB z rs" using assms(1) by simp
  then show ?thesis
    using True LookupByName_NewDB [where z = z and rs = rs and b = False] by (simp add: serves_records_def)
next
  case False
  then obtain secrets keys window where "signWith env inp (NewDB z rs) keys window = Inr d"
    using assms(1) by (auto elim: signDB_Inr)
  note l = signWith_lookup [OF this assms(2)]
  have "\<not> dnssecType TypeA" "TypeA \<noteq> TypeDNSKEY" using rrtypes_distinct by (auto simp: dnssecType_def)
  then show ?thesis using l False by (auto simp: serves_records_def)
qed

lemma rebuild_cases:
  assumes "inList inp = Objects objs \<or> inList inp = ErrNoResults \<and> objs = []"
    and "good_zone (mvUni env) (masterZone ms) objs" "orders_ok inp"
    and "curve_laws (key_algebra.truncate (mvScheme env))"
  shows "\<exists>res ms'. rebuild env ms inp = Some (res, ms') \<and>
    (case res of
       Inl err \<Rightarrow> mCurrent ms' = mCurrent ms \<and> mRebuildErrors ms' = mRebuildErrors ms + 1
     | Inr d \<Rightarrow> mCurrent ms' = Some d \<and> mRebuildErrors ms' = mRebuildErrors ms \<and> Zone d = masterZone ms
         \<and> int (length objs) \<le> maxRecordCount ms \<and> sane_zone (masterZone ms) (published (inSerialNow inp) objs)
         \<and> serves_records d (published (inSerialNow inp) objs) \<and> DNSSECEnabled d = (Keys (cfgDNSSEC (mCfg ms)) \<noteq> []))
    \<and> (Keys (cfgDNSSEC (mCfg ms)) = [] \<longrightarrow>
         (isl res \<longleftrightarrow> \<not> (int (length objs) \<le> maxRecordCount ms \<and> sane_zone (masterZone ms) (published (inSerialNow inp) objs))))"
proof -
  let ?pub = "published (inSerialNow inp) objs" and ?z = "masterZone ms" and ?ks = "Keys (cfgDNSSEC (mCfg ms))"
  let ?ms = "ms \<lparr> mRebuilds := Suc (mRebuilds ms) \<rparr>"
  have lst: "inList inp \<noteq> ListFailed" "listedRecords (inList inp) = listedRecords (Objects objs)"
    using assms(1) by (auto simp: listedRecords_def)
  have len: "length (listedRecords (Objects objs)) = length objs" by (simp add: listedRecords_def)
  have o: "\<And>m. mset (inOrdCheck inp m) = mset m" using assms(3) by (simp add: orders_ok_def)
  note chk = SanityChecks_good [OF good_zone_published [OF assms(2)] o, of "inSerialNow inp"]
  then obtain c where c: "SanityChecks (mvUni env) (inOrdCheck inp) (NewDB ?z ?pub) = Some c" by blast
  have sane: "c = None \<longleftrightarrow> sane_zone ?z ?pub" using chk c by simp
  have mx: "maxRecordCount ?ms = maxRecordCount ms" by (simp add: maxRecordCount_def)
  obtain r where r: "(if 0 < length ?ks then signDB env ?ms inp (NewDB ?z ?pub) else Some (Inr (NewDB ?z ?pub))) = Some r"
    using signDB_returns [OF assms(4), of ?ms inp "NewDB ?z ?pub"] by (cases "?ks = []") auto
  have R: "rebuild env ms inp = (if maxRecordCount ms < int (length objs) then failRebuild (TooManyRecords (length objs) (maxRecordCount ms)) ?ms
      else case c of Some err \<Rightarrow> failRebuild (SanityFailed err) ?ms
      | None \<Rightarrow> (case r of Inl err \<Rightarrow> failRebuild (SigningFailed err) ?ms
         | Inr d \<Rightarrow> Some (Inr d, ?ms \<lparr> mRRCount := setCounts d (mRRCount ms), mCurrent := Some d \<rparr>)))"
    using r c by (simp add: rebuild_def lst newDB_published len mx Let_def split: option.split)
  show ?thesis
  proof (cases "maxRecordCount ms < int (length objs) \<or> c \<noteq> None")
    case True
    then show ?thesis using R sane by (auto simp: failRebuild_def)
  next
    case False
    then show ?thesis
      using R sane r built_serves [of ?ks env ?ms inp ?z ?pub, OF _ assms(3)] by (cases r) (auto simp: failRebuild_def split: if_splits)
  qed
qed

text \<open>C2: A rebuild is all or nothing. For resources whose names are well formed it never panics; if it fails
  it counts an error and the current database stays; if it succeeds the current database serves exactly
  the listed resources (with the default TTL and the new serial), which form a sane zone within the
  record limit, and is marked signed exactly if keys are configured. Without keys, every sane zone within
  the limit is installed.\<close>

theorem rebuild_all_or_nothing:
  assumes "inList inp = Objects objs" "good_zone (mvUni env) (masterZone ms) objs" "orders_ok inp"
    and "curve_laws (key_algebra.truncate (mvScheme env))"
  shows "\<exists>res ms'. rebuild env ms inp = Some (res, ms') \<and>
    (case res of
       Inl err \<Rightarrow> mCurrent ms' = mCurrent ms \<and> mRebuildErrors ms' = mRebuildErrors ms + 1
     | Inr d \<Rightarrow> mCurrent ms' = Some d \<and> mRebuildErrors ms' = mRebuildErrors ms \<and> Zone d = masterZone ms
         \<and> int (length objs) \<le> maxRecordCount ms \<and> sane_zone (masterZone ms) (published (inSerialNow inp) objs)
         \<and> serves_records d (published (inSerialNow inp) objs) \<and> DNSSECEnabled d = (Keys (cfgDNSSEC (mCfg ms)) \<noteq> []))
    \<and> (Keys (cfgDNSSEC (mCfg ms)) = [] \<longrightarrow>
         (isl res \<longleftrightarrow> \<not> (int (length objs) \<le> maxRecordCount ms \<and> sane_zone (masterZone ms) (published (inSerialNow inp) objs))))"
  using assms by (intro rebuild_cases) simp_all

definition sample_menv :: master_env where
  "sample_menv = \<lparr> mvUni = (\<lambda>s. s), mvUup = (\<lambda>s. s), mvSha1 = toy_hash,
     mvText = \<lparr> uniFields = (\<lambda>s. []), uniTrim = (\<lambda>s. s), uniFold = (\<lambda>s t. False) \<rparr>,
     mvScheme = sample_scheme, mvRnd = (\<lambda>x. x), mvParseDuration = (\<lambda>s. None), mvSecrets = (\<lambda>ns n. None) \<rparr>"

definition sample_input :: "RR list \<Rightarrow> rebuild_input" where
  "sample_input objs = \<lparr> inList = Objects objs, inSerialNow = 7, inSignNow = 8, inChainNow = 9, inOrdCheck = rev, inOrdAll = rev,
     inOrdSign = rev, inOrdNames = rev \<rparr>"

definition sample_master :: Master where
  "sample_master = NewMaster (zeroConfig \<lparr> Global := \<lparr> globalZone = lit ''example.'', LogLevel = [] \<rparr> \<rparr>) (lit ''dns'')"

lemma sample_menv_laws: "curve_laws (key_algebra.truncate (mvScheme sample_menv))" "orders_ok (sample_input objs)"
  by (simp_all add: curve_laws_def sample_menv_def sample_scheme_def key_algebra.truncate_def orders_ok_def sample_input_def
      curveSize_def split: Curve.split)

lemma sane_records_good: "good_zone (\<lambda>s. s) (lit ''example.'') sane_records"
proof -
  have "list_all (good_record (\<lambda>s. s)) sane_records" "wf_name (lit ''example.'')" "lowered (\<lambda>s. s) (lit ''example.'')"
    by code_simp+
  then show ?thesis by (simp add: good_zone_def)
qed

theorem rebuild_all_or_nothing_witness:
  "\<exists>d ms'. rebuild sample_menv sample_master (sample_input sane_records) = Some (Inr d, ms') \<and> mCurrent ms' = Some d
    \<and> serves_records d (published 7 sane_records)"
proof -
  have zone: "masterZone sample_master = lit ''example.''" "Keys (cfgDNSSEC (mCfg sample_master)) = []"
    "maxRecordCount sample_master = 100000"
    by (simp_all add: sample_master_def NewMaster_def zeroConfig_def maxRecordCount_def defaultMaxRRsize_def)
  have inp: "inList (sample_input sane_records) = Objects sane_records" "inSerialNow (sample_input sane_records) = 7"
    by (simp_all add: sample_input_def)
  have g: "good_zone (mvUni sample_menv) (masterZone sample_master) sane_records"
    using sane_records_good by (simp add: zone sample_menv_def)
  have "SanityChecks (\<lambda>s. s) (\<lambda>m. m) (NewDB (lit ''example.'') (published 7 sane_records)) = Some None" by code_simp
  then have sane: "sane_zone (lit ''example.'') (published 7 sane_records)"
    using SanityChecks_good [OF good_zone_published [OF sane_records_good], of "\<lambda>m. m" 7] by simp
  have five: "length sane_records = 5" by (simp add: sane_records_def)
  show ?thesis
    using rebuild_all_or_nothing [OF inp(1) g sample_menv_laws(2,1)]
  proof (elim exE conjE)
    fix res ms' assume "rebuild sample_menv sample_master (sample_input sane_records) = Some (res, ms')"
      "case res of Inl err \<Rightarrow> mCurrent ms' = mCurrent sample_master \<and> mRebuildErrors ms' = mRebuildErrors sample_master + 1
       | Inr d \<Rightarrow> mCurrent ms' = Some d \<and> mRebuildErrors ms' = mRebuildErrors sample_master \<and> Zone d = masterZone sample_master
         \<and> int (length sane_records) \<le> maxRecordCount sample_master
         \<and> sane_zone (masterZone sample_master) (published (inSerialNow (sample_input sane_records)) sane_records)
         \<and> serves_records d (published (inSerialNow (sample_input sane_records)) sane_records)
         \<and> DNSSECEnabled d = (Keys (cfgDNSSEC (mCfg sample_master)) \<noteq> [])"
      "Keys (cfgDNSSEC (mCfg sample_master)) = [] \<longrightarrow> (isl res \<longleftrightarrow> \<not> (int (length sane_records) \<le> maxRecordCount sample_master
         \<and> sane_zone (masterZone sample_master) (published (inSerialNow (sample_input sane_records)) sane_records)))"
    then show ?thesis using sane five by (cases res) (auto simp: zone inp(2))
  qed
qed

text \<open>C3: Every RRset of a signed zone carries signatures that verify. When \<open>signDB\<close> succeeds, every set of
  records of one name and type in the resulting database, the injected DNSKEY records and the NSEC3 chain
  included and only RRSIG left out, has for each key of its role a signature among the RRSIG records of
  that name which \<open>verifyRRSIG\<close> accepts for exactly the records a lookup returns. The signing keys are those
  of the configured secrets; RSA keys are left out because \<open>verifyRRSIG\<close> has no case for them.\<close>

theorem signed_zone_verifies:
  assumes "signDB env ms inp (NewDB z rs) = Some (Inr d')" "chain_ok (mvSha1 env) z rs" "orders_ok inp"
    and "scheme_laws (mvScheme env)" "curve_laws (key_algebra.truncate (mvScheme env))"
  shows "\<exists>secrets keys. readSecrets (mvSecrets env) (mNamespace ms) (Keys (cfgDNSSEC (mCfg ms))) = Inr secrets
    \<and> LoadKeys (mvText env) (key_algebra.truncate (mvScheme env)) secrets (masterZone ms) = Some (Inr keys)
    \<and> (\<forall>n t signer. t \<noteq> TypeRRSIG \<and> LookupByName d' n t \<noteq> [] \<and> signer \<in> set (signersOf keys t)
         \<and> kAlgorithm (skDNSKEY signer) \<noteq> 8 \<longrightarrow>
       (\<exists>r. RRSIG_AsRR r n (TTL (hd (LookupByName d' n t))) \<in> set (LookupByName d' n TypeRRSIG)
         \<and> verifyRRSIG (mvUni env) (mvScheme env) r (LookupByName d' n t) signer = Inr True))"
proof -
  obtain secrets keys window where k: "readSecrets (mvSecrets env) (mNamespace ms) (Keys (cfgDNSSEC (mCfg ms))) = Inr secrets"
    "LoadKeys (mvText env) (key_algebra.truncate (mvScheme env)) secrets (masterZone ms) = Some (Inr keys)"
    "signWith env inp (NewDB z rs) keys window = Inr d'" using signDB_Inr [OF assms(1)] by metis
  have ok: "signing_key_ok (key_algebra.truncate (mvScheme env)) (masterZone ms) key" if "key \<in> set keys" for key
    using LoadKeys_Inr [OF assms(5) k(2)] that by (simp add: list_all_iff)
  then have roles: "\<forall>k \<in> set keys. IsKSK (skDNSKEY k) \<or> IsZSK (skDNSKEY k)" by (auto simp: signing_key_ok_def)
  have sub: "set (signersOf keys t) \<subseteq> set keys" for t by (auto simp: signersOf_def keyRoles_def Let_def split: if_splits)
  have "\<exists>r. RRSIG_AsRR r n (TTL (hd (LookupByName d' n t))) \<in> set (LookupByName d' n TypeRRSIG)
      \<and> verifyRRSIG (mvUni env) (mvScheme env) r (LookupByName d' n t) signer = Inr True"
    if h: "t \<noteq> TypeRRSIG" "LookupByName d' n t \<noteq> []" "signer \<in> set (signersOf keys t)" "kAlgorithm (skDNSKEY signer) \<noteq> 8" for n t signer
  proof -
    obtain opts r where r: "SignRRset (mvUni env) (mvScheme env) (LookupByName d' n t) signer opts = Inr r"
      "RRSIG_AsRR r n (TTL (hd (LookupByName d' n t))) \<in> set (LookupByName d' n TypeRRSIG)"
      using signWith_signed [OF k(3) assms(2,3) roles h(1-3)] by blast
    have "\<forall>rr \<in> set (LookupByName d' n t). Name rr = n"
      using assms(2,3) by (rule signWith_stages [OF k(3)]) (auto simp: LookupByName_NewDB)
    from verifies [OF assms(4) ok h(4) r(1) this] r(2) show ?thesis using sub h(3) by blast
  qed
  with k show ?thesis by blast
qed

text \<open>A concrete run: one Ed25519 key in a secret.\<close>

definition sample_secret :: secret_api where
  "sample_secret ns n = Some (200, Some [(lit ''keyType'', StdEncodeToString (lit ''zsk'')),
     (lit ''privateKey'', StdEncodeToString (ed25519File (replicate 32 7)))])"

definition signing_menv :: master_env where
  "signing_menv = sample_menv \<lparr> mvSecrets := sample_secret \<rparr>"

definition signing_master :: Master where
  "signing_master = NewMaster (zeroConfig \<lparr> Global := \<lparr> globalZone = lit ''example.'', LogLevel = [] \<rparr>,
     cfgDNSSEC := \<lparr> Keys = [\<lparr> SecretRef = lit ''zsk-1'' \<rparr>], RRSIGValidityWindow = [] \<rparr> \<rparr>) (lit ''dns'')"

definition sample_zsk :: SigningKey where
  "sample_zsk = \<lparr> skDNSKEY = \<lparr> kOwner = lit ''example.'', kTTL = dnskeyTTL, kFlags = 256, kProtocol = 3, kAlgorithm = 15,
     kPublicKey = replicate 32 7 \<rparr>, skPrivateKey = \<lparr> pkAlgorithm = 15, pkKey = Ed25519Key (replicate 32 7) \<rparr> \<rparr>"

lemma sample_keys:
  "readSecrets (mvSecrets signing_menv) (mNamespace signing_master) (Keys (cfgDNSSEC (mCfg signing_master)))
     = Inr [\<lparr> secKeyType = lit ''zsk'', secPrivateKey = ed25519File (replicate 32 7) \<rparr>]"
  "LoadKeys (mvText signing_menv) (key_algebra.truncate (mvScheme signing_menv))
     [\<lparr> secKeyType = lit ''zsk'', secPrivateKey = ed25519File (replicate 32 7) \<rparr>] (masterZone signing_master) = Some (Inr [sample_zsk])"
proof -
  have ne: "lit ''keyType'' \<noteq> lit ''privateKey''" "lit ''zsk'' \<noteq> lit ''ksk''" by code_simp+
  show "readSecrets (mvSecrets signing_menv) (mNamespace signing_master) (Keys (cfgDNSSEC (mCfg signing_master)))
     = Inr [\<lparr> secKeyType = lit ''zsk'', secPrivateKey = ed25519File (replicate 32 7) \<rparr>]"
    using ne by (simp add: signing_menv_def signing_master_def NewMaster_def GetSecret_def sample_secret_def StdDecode_Encode secretField_def)
  show "LoadKeys (mvText signing_menv) (key_algebra.truncate (mvScheme signing_menv))
     [\<lparr> secKeyType = lit ''zsk'', secPrivateKey = ed25519File (replicate 32 7) \<rparr>] (masterZone signing_master) = Some (Inr [sample_zsk])"
    using ne by (simp add: LoadKeys_def parseOneKey_def ParsePrivateKey_file derivedPublicKeyBytes_def signing_menv_def sample_menv_def
      sample_scheme_def key_algebra.truncate_def signing_master_def NewMaster_def sample_zsk_def)
qed

lemma sample_signed:
  obtains d' where "signDB signing_menv signing_master (sample_input sane_records) (NewDB (lit ''example.'') sane_records) = Some (Inr d')"
    "signWith signing_menv (sample_input sane_records) (NewDB (lit ''example.'') sane_records) [sample_zsk] 0 = Inr d'"
proof -
  have "known_types sane_records" "sane_records \<noteq> []" by code_simp+
  moreover have "list_all ed25519_key [sample_zsk]" by (simp add: ed25519_key_def sample_zsk_def)
  ultimately obtain d' where "signWith signing_menv (sample_input sane_records) (NewDB (lit ''example.'') sane_records) [sample_zsk] 0 = Inr d'"
    using signWith_ed25519 [OF _ _ _ sample_menv_laws(2)] by blast
  moreover have "rrSigWindow signing_menv signing_master = Inr 0"
    by (simp add: rrSigWindow_def signing_master_def NewMaster_def)
  ultimately show thesis using that sample_keys by (simp add: signDB_def mapE_def)
qed

lemma signing_menv_laws:
  "chain_ok (mvSha1 signing_menv) (lit ''example.'') sane_records" "scheme_laws (mvScheme signing_menv)"
  "curve_laws (key_algebra.truncate (mvScheme signing_menv))"
proof -
  have "chain_ok toy_hash (lit ''example.'') sane_records" by code_simp
  then show "chain_ok (mvSha1 signing_menv) (lit ''example.'') sane_records" by (simp add: signing_menv_def sample_menv_def)
  show "scheme_laws (mvScheme signing_menv)" using sample_scheme_laws by (simp add: signing_menv_def sample_menv_def)
  show "curve_laws (key_algebra.truncate (mvScheme signing_menv))" using sample_menv_laws(1) by (simp add: signing_menv_def)
qed

theorem signed_zone_verifies_witness:
  "\<exists>d' r. signDB signing_menv signing_master (sample_input sane_records) (NewDB (lit ''example.'') sane_records) = Some (Inr d')
    \<and> verifyRRSIG (mvUni signing_menv) (mvScheme signing_menv) r (LookupByName d' (lit ''ns.example.'') TypeA) sample_zsk = Inr True"
proof -
  obtain d' where d': "signDB signing_menv signing_master (sample_input sane_records) (NewDB (lit ''example.'') sane_records) = Some (Inr d')"
    "signWith signing_menv (sample_input sane_records) (NewDB (lit ''example.'') sane_records) [sample_zsk] 0 = Inr d'"
    by (rule sample_signed)
  have t: "\<not> dnssecType TypeA" "TypeA \<noteq> TypeDNSKEY" "TypeA \<noteq> TypeRRSIG" using rrtypes_distinct by (auto simp: dnssecType_def)
  have "filter (\<lambda>rr. Name rr = lit ''ns.example.'' \<and> RRtype rr = TypeA) sane_records \<noteq> []" by code_simp
  then have l: "LookupByName d' (lit ''ns.example.'') TypeA \<noteq> []" using signWith_lookup(1) [OF d'(2) sample_menv_laws(2) t(1,2)] by simp
  have s: "sample_zsk \<in> set (signersOf [sample_zsk] TypeA)" "kAlgorithm (skDNSKEY sample_zsk) \<noteq> 8"
    by (simp_all add: signersOf_def keyRoles_def IsKSK_def sample_zsk_def Let_def)
  from signed_zone_verifies [OF d'(1) signing_menv_laws(1) sample_menv_laws(2) signing_menv_laws(2,3)] obtain secrets keys where
    "readSecrets (mvSecrets signing_menv) (mNamespace signing_master) (Keys (cfgDNSSEC (mCfg signing_master))) = Inr secrets"
    "LoadKeys (mvText signing_menv) (key_algebra.truncate (mvScheme signing_menv)) secrets (masterZone signing_master) = Some (Inr keys)"
    and P: "\<And>n t signer. t \<noteq> TypeRRSIG \<Longrightarrow> LookupByName d' n t \<noteq> [] \<Longrightarrow> signer \<in> set (signersOf keys t) \<Longrightarrow>
      kAlgorithm (skDNSKEY signer) \<noteq> 8 \<Longrightarrow> \<exists>r. verifyRRSIG (mvUni signing_menv) (mvScheme signing_menv) r (LookupByName d' n t) signer = Inr True"
    by (elim exE conjE) (rule that, assumption, assumption, blast)
  then have "keys = [sample_zsk]" using sample_keys by simp
  with P [OF t(3) l] s d'(1) show ?thesis by blast
qed

text \<open>Before the chain is added the zone has the names of its records and its apex, which owns the keys.\<close>

lemma signed_names:
  assumes "SignDB uni scheme ord (NewDB z records) keys opts = Inr rrsigs" "\<And>m. mset (ord m) = mset m"
    and "mset records = mset (rs @ map (dnskeyRR z) keys)" "keys \<noteq> []"
  shows "Name ` set (records @ rrsigs) = insert z (Name ` set rs)"
proof -
  have "set records = set rs \<union> dnskeyRR z ` set keys" using mset_eq_setD [OF assms(3)] by simp
  then have "Name ` set records = insert z (Name ` set rs)"
    using assms(4) by (auto simp: dnskeyRR_def image_Un image_image image_constant_conv)
  moreover have "Name ` set rrsigs \<subseteq> Name ` set records" by (rule image_subsetI) (rule SignDB_names(1) [OF assms(1,2)])
  ultimately show ?thesis by auto
qed

text \<open>In a signed database the NSEC3 and NSEC3PARAM records are those that the chain was built with, whatever order the
  JSON text has.\<close>

lemma signed_nsec3_records:
  assumes "BuildNSEC3Chain uni uup sha1 names d param0 = Inr (chain, param)" "chain_ok sha1 z rs"
    and "mset records = mset (rs @ map (dnskeyRR z) keys)" "\<forall>sig \<in> set (rrsigs @ sigs). RRtype sig = TypeRRSIG"
    and "\<And>m. mset (ord m) = mset m"
  defines "s \<equiv> NewDB z (AllRecords ord ((NewDB z (records @ rrsigs @ Records chain @ [param] @ sigs)) \<lparr> DNSSECEnabled := True \<rparr>))"
  shows "mapGet (ByType s) TypeNSEC3 = Records chain" "mapGet (ByType s) TypeNSEC3PARAM = [param]"
proof -
  have "set records = set rs \<union> dnskeyRR z ` set keys" using mset_eq_setD [OF assms(3)] by simp
  note plain = zone_records_plain [OF assms(2) this] and bt = Build_record_types [OF assms(1)]
  have get: "mapGet (ByType s) t = filter (\<lambda>rr. RRtype rr = t) (records @ rrsigs @ Records chain @ [param] @ sigs)" for t
    using AllRecords_filter_type [OF assms(5)] by (simp add: by_type.get_NewDB s_def)
  show "mapGet (ByType s) TypeNSEC3 = Records chain" "mapGet (ByType s) TypeNSEC3PARAM = [param]"
    unfolding get using assms(4) bt plain rrtypes_distinct by (auto simp: dnssecType_def filter_empty_conv filter_id_conv)
qed

text \<open>The chain that a slave rebuilds from the records, in whatever order they come, has a covering record for a hash exactly if no
  name of the zone has that hash.\<close>

lemma signed_chain_rebuilt:
  assumes "signDB env ms inp (NewDB z rs) = Some (Inr d')" "Keys (cfgDNSSEC (mCfg ms)) \<noteq> []"
    and "chain_ok (mvSha1 env) z rs" "orders_ok inp" "curve_laws (key_algebra.truncate (mvScheme env))" "\<And>m. mset (ord m) = mset m"
  shows "\<exists>chain. RebuildNSEC3Chain (NewDB z (AllRecords ord d')) = Inr chain
    \<and> (\<forall>h. (\<exists>rr. findCovering (mvUup env) chain h = Inr rr) \<longleftrightarrow> h \<notin> (\<lambda>n. HashName (mvSha1 env) n 0 []) ` insert z (Name ` set rs))"
proof -
  obtain secrets keys window where k: "readSecrets (mvSecrets env) (mNamespace ms) (Keys (cfgDNSSEC (mCfg ms))) = Inr secrets"
    "LoadKeys (mvText env) (key_algebra.truncate (mvScheme env)) secrets (masterZone ms) = Some (Inr keys)"
    "signWith env inp (NewDB z rs) keys window = Inr d'" using signDB_Inr [OF assms(1)] by metis
  have ne: "keys \<noteq> []" using LoadKeys_length [OF assms(5) k(2)] readSecrets_length [OF k(1)] assms(2) by auto
  show ?thesis
    using k(3) assms(3,4)
  proof (rule signWith_stages)
    fix records rrsigs chain param sigs psigs opts1 opts2
    assume m: "mset records = mset (rs @ map (dnskeyRR z) keys)"
      and S: "SignDB (mvUni env) (mvScheme env) (inOrdSign inp) (NewDB z records) keys opts1 = Inr rrsigs"
      and B: "BuildNSEC3Chain (mvUni env) (mvUup env) (mvSha1 env) (inOrdNames inp) (NewDB z (records @ rrsigs))
         DefaultNSEC3PARAMRecord = Inr (chain, param)"
      and d': "d' = (NewDB z (records @ rrsigs @ Records chain @ [param] @ sigs @ psigs)) \<lparr> DNSSECEnabled := True \<rparr>"
      and T: "\<forall>sig \<in> set (rrsigs @ sigs @ psigs). RRtype sig = TypeRRSIG"
      and nc: "no_collision (mvSha1 env) (NewDB z (records @ rrsigs)) DefaultNSEC3PARAMRecord"
    have o: "\<And>m. mset (inOrdSign inp m) = mset m" "\<And>ns. mset (inOrdNames inp ns) = mset ns" using assms(4) by (simp_all add: orders_ok_def)
    let ?s = "NewDB z (AllRecords ord d')"
    have n3: "mapGet (ByType ?s) TypeNSEC3 = Records chain" "mapGet (ByType ?s) TypeNSEC3PARAM = [param]"
      using signed_nsec3_records [OF B assms(3) m T assms(6)] by (simp_all add: d')
    have asc: "is_ascii (Zone (NewDB z (records @ rrsigs)))" using assms(3) by (simp add: chain_ok_def)
    have n3': "mset (mapGet (ByType ?s) TypeNSEC3) = mset (Records chain)" by (simp only: n3(1))
    from Rebuild_chain [OF B asc o(2) nc n3' n3(2)] obtain c' where
      c': "RebuildNSEC3Chain ?s = Inr c'" "mset (Records c') = mset (Records chain)" by metis
    have "(\<exists>rr. findCovering (mvUup env) c' h = Inr rr) \<longleftrightarrow> h \<notin> (\<lambda>n. HashName (mvSha1 env) n 0 []) ` insert z (Name ` set rs)" for h
      using chain_covers [OF B asc o(2) nc, of h] mset_eq_setD [OF c'(2)] signed_names [OF S o(1) m ne]
      by (simp add: findCovering_iff name_hashes_def by_name.keys_NewDB DefaultNSEC3PARAMRecord_def)
    with c'(1) show ?thesis by auto
  qed
qed

end
