(* ===== verification/Master_Loop.thy ===== *)
theory Master_Loop
  imports Master
begin

text \<open>
  When the master rebuilds, after \<^verbatim>\<open>internal/master/debounce.go\<close> and \<open>MainLoop\<close> of
  \<^verbatim>\<open>internal/master/master.go\<close>: the debouncer, the main loop with its retry timer, and the
  goroutine that rebuilds periodically.

  The three goroutines interleave; the step relation has one rule for each thing one of them can do. A
  rebuild takes two steps, because the other goroutines run between the moment its list of resources is
  read and the moment its database is installed. The environment changes the resources, and every
  change puts an event into the watch channel. Times are nanoseconds; a timer is the time at which it
  fires.
\<close>

subsection \<open>The debouncer\<close>

record debouncer =
  quietTimer :: "time option"
  deadlineTimer :: "time option"
  outPending :: bool

definition newDebouncer :: debouncer where
  "newDebouncer = \<lparr> quietTimer = None, deadlineTimer = None, outPending = False \<rparr>"

text \<open>An event: the quiet timer starts again, the deadline only on the first event of a burst.\<close>

definition onEvent :: "duration \<Rightarrow> duration \<Rightarrow> time \<Rightarrow> debouncer \<Rightarrow> debouncer" where
  "onEvent quiet deadline now d = d \<lparr> quietTimer := Some (now + quiet),
     deadlineTimer := (if deadlineTimer d = None then Some (now + deadline) else deadlineTimer d) \<rparr>"

text \<open>The channel has room for one trigger; a further one is dropped.\<close>

definition fire :: "debouncer \<Rightarrow> debouncer" where
  "fire d = d \<lparr> quietTimer := None, deadlineTimer := None, outPending := True \<rparr>"

definition expired :: "time \<Rightarrow> time option \<Rightarrow> bool" where
  "expired now t \<longleftrightarrow> (case t of None \<Rightarrow> False | Some e \<Rightarrow> e \<le> now)"

subsection \<open>The main loop\<close>

definition quietPeriod :: duration where "quietPeriod = 5 * 10 ^ 9"
definition deadlinePeriod :: duration where "deadlinePeriod = 30 * 10 ^ 9"
definition retryPeriod :: duration where "retryPeriod = 30 * 10 ^ 9"

text \<open>The interval of the periodic rebuild; an interval that does not parse is ignored.\<close>

definition resignInterval :: "master_env \<Rightarrow> Master \<Rightarrow> duration" where
  "resignInterval env ms =
     (let s = ResignInterval (cfgMaster (mCfg ms))
      in if s \<noteq> [] then (case mvParseDuration env s of Some d \<Rightarrow> d | None \<Rightarrow> 24 * 3600 * 10 ^ 9) else 24 * 3600 * 10 ^ 9)"

text \<open>\<open>time.NewTicker\<close> panics for an interval that is not positive. The slave makes its ticker for the poll
  loop in the same way.\<close>

definition NewTicker :: "duration \<Rightarrow> duration go" where
  "NewTicker d = (if d \<le> 0 then None else Some d)"

definition resignTicker :: "master_env \<Rightarrow> Master \<Rightarrow> duration go" where
  "resignTicker env ms = NewTicker (resignInterval env ms)"

definition pollTicker :: "(gostring \<Rightarrow> duration option) \<Rightarrow> Slave \<Rightarrow> duration go" where
  "pollTicker parse s =
     (let p = PollInterval (cfgSlave (slaveCfg s))
      in NewTicker (if p \<noteq> [] then (case parse p of Some d \<Rightarrow> d | None \<Rightarrow> 60 * 10 ^ 9) else 60 * 10 ^ 9))"

text \<open>What \<open>doRebuild\<close> does to the retry timer.\<close>

definition afterRebuild :: "bool \<Rightarrow> time \<Rightarrow> time option \<Rightarrow> time option" where
  "afterRebuild failed now retryTimer =
     (if failed then (if retryTimer = None then Some (now + retryPeriod) else retryTimer) else None)"

text \<open>A job is a rebuild that has read its list.\<close>

record loop_state =
  lNow :: time
  lCluster :: "RR list"
  lEvents :: nat
  lDebounce :: debouncer
  lRetry :: "time option"
  lMainJob :: "list_result option"
  lTickJob :: "list_result option"
  lMaster :: Master

definition listing :: "RR list \<Rightarrow> list_result" where
  "listing objs = (if objs = [] then ErrNoResults else Objects objs)"

text \<open>The list call returns the resources or fails.\<close>

definition listed :: "loop_state \<Rightarrow> list_result \<Rightarrow> bool" where
  "listed s l \<longleftrightarrow> l = listing (lCluster s) \<or> l = ListFailed"

text \<open>The clock is not at a multiple of \<open>2 ^ 32\<close> seconds, where the serial would be 0.\<close>

definition clock_ok :: "rebuild_input \<Rightarrow> bool" where
  "clock_ok inp \<longleftrightarrow> (word_of_int (inSerialNow inp) :: 32 word) \<noteq> 0"

datatype label = Change | Deliver | Quiet | Deadline | Trigger list_result | Retry list_result | MainDone bool
  | Tick list_result | TickDone bool | Wait

inductive mstep :: "master_env \<Rightarrow> label \<Rightarrow> loop_state \<Rightarrow> loop_state \<Rightarrow> bool" for env where
  change: "good_zone (mvUni env) (masterZone (lMaster s)) objs \<Longrightarrow>
    mstep env Change s (s \<lparr> lCluster := objs, lEvents := lEvents s + 1 \<rparr>)"
| deliver: "0 < lEvents s \<Longrightarrow>
    mstep env Deliver s (s \<lparr> lEvents := lEvents s - 1, lDebounce := onEvent quietPeriod deadlinePeriod (lNow s) (lDebounce s) \<rparr>)"
| quiet: "expired (lNow s) (quietTimer (lDebounce s)) \<Longrightarrow> mstep env Quiet s (s \<lparr> lDebounce := fire (lDebounce s) \<rparr>)"
| deadline: "expired (lNow s) (deadlineTimer (lDebounce s)) \<Longrightarrow> mstep env Deadline s (s \<lparr> lDebounce := fire (lDebounce s) \<rparr>)"
| trigger: "lMainJob s = None \<Longrightarrow> outPending (lDebounce s) \<Longrightarrow> listed s l \<Longrightarrow>
    mstep env (Trigger l) s (s \<lparr> lDebounce := (lDebounce s) \<lparr> outPending := False \<rparr>, lMainJob := Some l \<rparr>)"
| retry: "lMainJob s = None \<Longrightarrow> expired (lNow s) (lRetry s) \<Longrightarrow> listed s l \<Longrightarrow>
    mstep env (Retry l) s (s \<lparr> lRetry := None, lMainJob := Some l \<rparr>)"
| main_done: "lMainJob s = Some l \<Longrightarrow> inList inp = l \<Longrightarrow> orders_ok inp \<Longrightarrow> clock_ok inp \<Longrightarrow> rebuild env (lMaster s) inp = Some (res, ms) \<Longrightarrow>
    mstep env (MainDone (isl res)) s
      (s \<lparr> lMainJob := None, lMaster := ms, lRetry := afterRebuild (isl res) (lNow s) (lRetry s) \<rparr>)"
| tick: "lTickJob s = None \<Longrightarrow> listed s l \<Longrightarrow>
    mstep env (Tick l) s (s \<lparr> lTickJob := Some l, lMaster := (lMaster s) \<lparr> mResigns := mResigns (lMaster s) + 1 \<rparr> \<rparr>)"
| tick_done: "lTickJob s = Some l \<Longrightarrow> inList inp = l \<Longrightarrow> orders_ok inp \<Longrightarrow> clock_ok inp \<Longrightarrow> rebuild env (lMaster s) inp = Some (res, ms) \<Longrightarrow>
    mstep env (TickDone (isl res)) s (s \<lparr> lTickJob := None, lMaster := ms \<rparr>)"
| wait: "lNow s \<le> t \<Longrightarrow> mstep env Wait s (s \<lparr> lNow := t \<rparr>)"

text \<open>Before the loop, \<open>MainLoop\<close> rebuilds once, and only logs an error.\<close>

definition startLoop :: "time \<Rightarrow> RR list \<Rightarrow> Master \<Rightarrow> loop_state" where
  "startLoop now objs ms = \<lparr> lNow = now, lCluster = objs, lEvents = 0, lDebounce = newDebouncer, lRetry = None,
     lMainJob = None, lTickJob = None, lMaster = ms \<rparr>"

inductive mreach :: "master_env \<Rightarrow> (label \<Rightarrow> bool) \<Rightarrow> loop_state \<Rightarrow> loop_state \<Rightarrow> bool" for env allowed s0 where
  start: "mreach env allowed s0 s0"
| step: "mreach env allowed s0 s \<Longrightarrow> allowed a \<Longrightarrow> mstep env a s s' \<Longrightarrow> mreach env allowed s0 s'"

inductive_cases mstep_cases: "mstep env a s s'"

text \<open>The installed database is one built from the present resources.\<close>

definition up_to_date :: "loop_state \<Rightarrow> bool" where
  "up_to_date s \<longleftrightarrow> (\<exists>d now. mCurrent (lMaster s) = Some d \<and> serves_records d (published now (lCluster s)))"

text \<open>No event, timer, trigger or rebuild is outstanding.\<close>

definition idle :: "loop_state \<Rightarrow> bool" where
  "idle s \<longleftrightarrow> lEvents s = 0 \<and> quietTimer (lDebounce s) = None \<and> deadlineTimer (lDebounce s) = None
     \<and> \<not> outPending (lDebounce s) \<and> lRetry s = None \<and> lMainJob s = None \<and> lTickJob s = None"

subsection \<open>No change is forgotten\<close>

definition coming :: "loop_state \<Rightarrow> bool" where
  "coming s \<longleftrightarrow> 0 < lEvents s \<or> quietTimer (lDebounce s) \<noteq> None \<or> outPending (lDebounce s)"

text \<open>Either news is on its way, or the main loop works on the present list, or it will try again, or the
  database is up to date. Only the main loop is at work.\<close>

definition loop_inv :: "master_env \<Rightarrow> loop_state \<Rightarrow> bool" where
  "loop_inv env s \<longleftrightarrow> (quietTimer (lDebounce s) = None \<longleftrightarrow> deadlineTimer (lDebounce s) = None)
     \<and> good_zone (mvUni env) (masterZone (lMaster s)) (lCluster s) \<and> lTickJob s = None
     \<and> (coming s \<or> (case lMainJob s of Some l \<Rightarrow> listed s l | None \<Rightarrow> lRetry s \<noteq> None \<or> up_to_date s))"

definition keeps_cfg :: "DNSConfigSpec \<Rightarrow> ((rebuild_error + DB) \<times> Master) go \<Rightarrow> bool" where
  "keeps_cfg cfg r \<longleftrightarrow> (\<forall>x m. r = Some (x, m) \<longrightarrow> mCfg m = cfg)"

lemma keeps_cfgI:
  "mCfg ms = cfg \<Longrightarrow> keeps_cfg cfg (failRebuild err ms)" "mCfg ms = cfg \<Longrightarrow> keeps_cfg cfg (Some (x, ms))"
  "keeps_cfg cfg r1 \<Longrightarrow> keeps_cfg cfg r2 \<Longrightarrow> keeps_cfg cfg (if b then r1 else r2)"
  "(\<And>y. keeps_cfg cfg (f y)) \<Longrightarrow> keeps_cfg cfg (g \<bind> f)"
  "keeps_cfg cfg r1 \<Longrightarrow> (\<And>y. keeps_cfg cfg (f1 y)) \<Longrightarrow> keeps_cfg cfg (case_option r1 f1 oo)"
  "(\<And>y. keeps_cfg cfg (f1 y)) \<Longrightarrow> (\<And>y. keeps_cfg cfg (f2 y)) \<Longrightarrow> keeps_cfg cfg (case_sum f1 f2 ss)"
  by (auto simp: keeps_cfg_def failRebuild_def bind_eq_Some_conv split: option.split sum.split)

lemma rebuild_masterZone: "rebuild env ms inp = Some (res, ms') \<Longrightarrow> mCfg ms' = mCfg ms"
proof -
  have "keeps_cfg (mCfg ms) (rebuild env ms inp)" unfolding rebuild_def Let_def by (intro keeps_cfgI) simp_all
  then show "rebuild env ms inp = Some (res, ms') \<Longrightarrow> mCfg ms' = mCfg ms" by (simp add: keeps_cfg_def)
qed

lemma rebuild_ListFailed: "inList inp = ListFailed \<Longrightarrow> rebuild env ms inp = Some (res, ms') \<Longrightarrow> isl res"
  by (auto simp: rebuild_def failRebuild_def Let_def)

text \<open>Without keys, a sane zone within the limit is installed.\<close>

lemma rebuild_unsigned:
  assumes "inList inp = Objects objs \<or> inList inp = ErrNoResults \<and> objs = []" "good_zone (mvUni env) (masterZone ms) objs"
    and "orders_ok inp" "curve_laws (key_algebra.truncate (mvScheme env))" "Keys (cfgDNSSEC (mCfg ms)) = []"
    and "int (length objs) \<le> maxRecordCount ms" "sane_zone (masterZone ms) (published (inSerialNow inp) objs)"
  shows "\<exists>d ms'. rebuild env ms inp = Some (Inr d, ms') \<and> mCurrent ms' = Some d \<and> serves_records d (published (inSerialNow inp) objs)"
proof -
  obtain res ms' where r: "rebuild env ms inp = Some (res, ms')" using rebuild_cases [OF assms(1-4)] by blast
  then show ?thesis using rebuild_cases [OF assms(1-4)] assms(5-7) by (cases res) auto
qed

text \<open>A rebuild from the present list that succeeds installs a database that is up to date.\<close>

lemma rebuild_fresh:
  assumes "listed s l" "good_zone (mvUni env) (masterZone (lMaster s)) (lCluster s)" "curve_laws (key_algebra.truncate (mvScheme env))"
    and "inList inp = l" "orders_ok inp" "rebuild env (lMaster s) inp = Some (res, ms)" "\<not> isl res"
  shows "\<exists>d. mCurrent ms = Some d \<and> serves_records d (published (inSerialNow inp) (lCluster s))"
proof -
  have "l = listing (lCluster s)" using rebuild_ListFailed [OF _ assms(6)] assms(1,4,7) by (auto simp: listed_def)
  then have "inList inp = Objects (lCluster s) \<or> inList inp = ErrNoResults \<and> lCluster s = []"
    using assms(4) by (auto simp: listing_def split: if_splits)
  from rebuild_cases [OF this assms(2,5,3)] assms(6,7) show ?thesis by (cases res) auto
qed

definition no_tick :: "label \<Rightarrow> bool" where
  "no_tick a \<longleftrightarrow> (case a of Tick l \<Rightarrow> False | TickDone b \<Rightarrow> False | _ \<Rightarrow> True)"

lemma up_to_date_rebuilt:
  assumes "\<exists>d. mCurrent ms = Some d \<and> serves_records d (published now (lCluster s))"
  shows "up_to_date (s \<lparr> lMainJob := j, lMaster := ms, lRetry := r \<rparr>)"
  using assms by (auto simp: up_to_date_def)

lemma mstep_inv:
  assumes "curve_laws (key_algebra.truncate (mvScheme env))" "mstep env a s s'" "no_tick a" "loop_inv env s"
  shows "loop_inv env s'"
  using assms(2)
proof cases
  case (main_done l inp res ms)
  have g: "good_zone (mvUni env) (masterZone (lMaster s)) (lCluster s)" using assms(4) by (simp add: loop_inv_def)
  have z: "masterZone ms = masterZone (lMaster s)" using rebuild_masterZone main_done by metis
  have c: "coming s' = coming s" by (simp add: main_done coming_def)
  have "lRetry s' \<noteq> None \<or> up_to_date s'" if "\<not> coming s"
  proof (cases "isl res")
    case False
    have "listed s l" using that assms(4) main_done by (simp add: loop_inv_def)
    from rebuild_fresh [OF this g assms(1) main_done(4,5,7) False] show ?thesis
      unfolding main_done(2) by (intro disjI2) (rule up_to_date_rebuilt)
  qed (simp add: main_done afterRebuild_def)
  then show ?thesis using assms(4) g z c by (auto simp: loop_inv_def main_done)
qed (use assms(3,4) in \<open>auto simp: loop_inv_def coming_def onEvent_def fire_def expired_def listed_def up_to_date_def no_tick_def
   split: option.splits\<close>)

lemma mreach_inv:
  assumes "curve_laws (key_algebra.truncate (mvScheme env))" "mreach env no_tick s0 s" "loop_inv env s0"
  shows "loop_inv env s"
  using assms(2) by induction (use assms(1,3) mstep_inv in auto)

lemma loop_inv_start:
  "good_zone (mvUni env) (masterZone ms) objs \<Longrightarrow> up_to_date (startLoop now objs ms) \<Longrightarrow> loop_inv env (startLoop now objs ms)"
  by (simp add: loop_inv_def startLoop_def newDebouncer_def)

subsection \<open>The loop comes to rest\<close>

lemma published_again: "published m objs = map (stampRR (word_of_int m)) (published n objs)"
  by (auto simp: published_def stampRR_def setSerial_def split: RRopts.split)

lemma stampRR_Opts [simp]:
  "Opts (stampRR w rr) = RRoptsNS d \<longleftrightarrow> Opts rr = RRoptsNS d"
  "Opts (stampRR w rr) = RRoptsCNAME d \<longleftrightarrow> Opts rr = RRoptsCNAME d"
  by (auto simp: stampRR_def setSerial_def split: RRopts.splits)

lemma resolves_stamp: "resolves z rs d \<Longrightarrow> resolves z (map (stampRR w) rs) d"
proof (induction rule: resolves.induct)
  case (address t)
  then show ?case by (auto simp: has_address_def intro!: resolves.address)
next
  case (hop rr t t')
  then show ?case by - (rule resolves.hop [where rr = "stampRR w rr" and t' = t'], auto)
qed (rule resolves.outside)

text \<open>Another serial keeps a zone sane, if it is not 0.\<close>

lemma sane_zone_stamp:
  assumes "sane_zone z rs" "w \<noteq> 0"
  shows "sane_zone z (map (stampRR w) rs)"
proof -
  obtain soa mname rname serial refresh retry expire minimum where soa:
    "filter (\<lambda>rr. RRtype rr = TypeSOA) rs = [soa]" "Opts soa = RRoptsSOA mname rname serial refresh retry expire minimum"
    "\<exists>ns \<in> set rs. Opts ns = RRoptsNS mname" using assms(1) unfolding sane_zone_def by blast
  have "soa \<in> set (filter (\<lambda>rr. RRtype rr = TypeSOA) rs)" by (simp only: soa(1) list.set_intros)
  then have "RRtype soa = TypeSOA" by simp
  then have o: "Opts (stampRR w soa) = RRoptsSOA mname rname w refresh retry expire minimum"
    using soa(2) by (simp add: stampRR_def setSerial_def)
  have f: "filter (\<lambda>rr. RRtype rr = TypeSOA) (map (stampRR w) rs) = [stampRR w soa]" using soa(1) by (simp add: filter_map comp_def)
  have c: "cnames_of (map (stampRR w) rs) = map (stampRR w) (cnames_of rs)" by (simp add: cnames_of_def filter_map comp_def)
  have h: "has_address (map (stampRR w) rs) = has_address rs" by (auto simp: has_address_def fun_eq_iff)
  note S = assms(1) [unfolded sane_zone_def]
  have 1: "\<exists>soa mname rname serial refresh retry expire minimum. filter (\<lambda>rr. RRtype rr = TypeSOA) (map (stampRR w) rs) = [soa]
      \<and> Opts soa = RRoptsSOA mname rname serial refresh retry expire minimum \<and> serial \<noteq> 0
      \<and> (\<exists>ns \<in> set (map (stampRR w) rs). Opts ns = RRoptsNS mname)"
    unfolding f using o assms(2) soa(3) by simp
  have 2: "\<forall>ns \<in> set (map (stampRR w) rs). \<forall>d. Opts ns = RRoptsNS d \<longrightarrow> has_address rs d" using S by simp
  have 3: "\<forall>c \<in> set (map (stampRR w) (cnames_of rs)). Name c \<noteq> z" using S by simp
  have 4: "distinct (map Name (map (stampRR w) (cnames_of rs)))" using S by (simp add: comp_def)
  have 5: "\<forall>c \<in> set (map (stampRR w) (cnames_of rs)). \<forall>p \<in> set (map (stampRR w) rs). Name p = Name c \<longrightarrow> cnameCompatibleRRtype (RRtype p)"
    using S by simp
  have 6: "\<forall>c \<in> set (map (stampRR w) (cnames_of rs)). Opts c \<noteq> RRoptsCNAME (Name c)" using S by simp
  have 7: "\<forall>c \<in> set (map (stampRR w) (cnames_of rs)). \<forall>d. Opts c = RRoptsCNAME d \<longrightarrow> resolves z (map (stampRR w) rs) d"
    using S resolves_stamp by simp
  show ?thesis unfolding sane_zone_def c h using 1 2 3 4 5 6 7 by (intro conjI)
qed

definition sane_cluster :: "loop_state \<Rightarrow> bool" where
  "sane_cluster s \<longleftrightarrow> sane_zone (masterZone (lMaster s)) (published 1 (lCluster s))
     \<and> int (length (lCluster s)) \<le> maxRecordCount (lMaster s) \<and> Keys (cfgDNSSEC (mCfg (lMaster s))) = []"

text \<open>How much work is outstanding: a rebuild of the present list ends it, one of an old list may fail and
  be tried again.\<close>

definition work :: "loop_state \<Rightarrow> nat" where
  "work s = 5 * lEvents s + (if quietTimer (lDebounce s) = None then 0 else 3) + (if outPending (lDebounce s) then 2 else 0)
     + (if lRetry s = None then 0 else 2)
     + (case lMainJob s of None \<Rightarrow> 0 | Some l \<Rightarrow> if l = listing (lCluster s) then 1 else 3)"

text \<open>The steps of the program while the resources do not change and listing them works.\<close>

definition settling :: "label \<Rightarrow> bool" where
  "settling a \<longleftrightarrow> (case a of Deliver \<Rightarrow> True | Quiet \<Rightarrow> True | Deadline \<Rightarrow> True | Trigger l \<Rightarrow> l \<noteq> ListFailed | Retry l \<Rightarrow> l \<noteq> ListFailed
     | MainDone b \<Rightarrow> True | _ \<Rightarrow> False)"

lemma fresh_succeeds:
  assumes "curve_laws (key_algebra.truncate (mvScheme env))" "good_zone (mvUni env) (masterZone (lMaster s)) (lCluster s)" "sane_cluster s"
    and "inList inp = listing (lCluster s)" "orders_ok inp" "clock_ok inp" "rebuild env (lMaster s) inp = Some (res, ms)"
  shows "\<not> isl res"
proof -
  have "sane_zone (masterZone (lMaster s)) (published (inSerialNow inp) (lCluster s))"
    using assms(3,6) sane_zone_stamp unfolding sane_cluster_def clock_ok_def published_again [of "inSerialNow inp" _ 1] by blast
  moreover have "inList inp = Objects (lCluster s) \<or> inList inp = ErrNoResults \<and> lCluster s = []"
    using assms(4) by (auto simp: listing_def)
  note rebuild_cases [OF this assms(2,5,1)]
  ultimately show ?thesis using assms(3,7) by (auto simp: sane_cluster_def)
qed

lemma settling_work:
  assumes "curve_laws (key_algebra.truncate (mvScheme env))" "loop_inv env s" "sane_cluster s" "settling a" "mstep env a s s'"
  shows "work s' < work s" "sane_cluster s'" "lCluster s' = lCluster s"
proof -
  have g: "good_zone (mvUni env) (masterZone (lMaster s)) (lCluster s)" using assms(2) by (simp add: loop_inv_def)
  have q: "deadlineTimer (lDebounce s) \<noteq> None \<Longrightarrow> quietTimer (lDebounce s) \<noteq> None" using assms(2) by (simp add: loop_inv_def)
  show "work s' < work s"
    using assms(5)
  proof cases
    case (main_done l inp res ms)
    then show ?thesis
      using fresh_succeeds [OF assms(1) g assms(3) _ main_done(5,6,7)] main_done(3,4)
      by (auto simp: work_def afterRebuild_def)
  next
    case deadline
    then show ?thesis using q by (auto simp: work_def fire_def expired_def split: option.splits)
  qed (use assms(4) in \<open>auto simp: work_def onEvent_def fire_def expired_def listed_def settling_def split: option.splits\<close>)
  show "lCluster s' = lCluster s" using assms(5) by cases (use assms(4) in \<open>auto simp: settling_def\<close>)
  have "mCfg (lMaster s') = mCfg (lMaster s)" using assms(5) by cases (auto dest: rebuild_masterZone)
  with \<open>lCluster s' = lCluster s\<close> show "sane_cluster s'" using assms(3) by (simp add: sane_cluster_def maxRecordCount_def)
qed

text \<open>Every timer is at most thirty seconds ahead, and a job holds a list that a rebuild can handle.\<close>

definition soon :: "loop_state \<Rightarrow> time option \<Rightarrow> bool" where
  "soon s t \<longleftrightarrow> (case t of None \<Rightarrow> True | Some e \<Rightarrow> e \<le> lNow s + deadlinePeriod)"

definition progress_inv :: "master_env \<Rightarrow> loop_state \<Rightarrow> bool" where
  "progress_inv env s \<longleftrightarrow> soon s (quietTimer (lDebounce s)) \<and> soon s (deadlineTimer (lDebounce s)) \<and> soon s (lRetry s)
     \<and> (case lMainJob s of None \<Rightarrow> True | Some l \<Rightarrow> l = ListFailed
          \<or> (\<exists>objs. good_zone (mvUni env) (masterZone (lMaster s)) objs \<and> l = listing objs))"

lemmas periods = quietPeriod_def deadlinePeriod_def retryPeriod_def

lemma mstep_progress:
  assumes "mstep env a s s'" "no_tick a" "loop_inv env s" "progress_inv env s"
  shows "progress_inv env s'"
  using assms(1)
proof cases
  case (main_done l inp res ms)
  have "masterZone ms = masterZone (lMaster s)" using rebuild_masterZone main_done by metis
  then show ?thesis
    using assms(4) by (auto simp: main_done progress_inv_def soon_def afterRebuild_def periods split: option.splits)
qed (use assms(2-4) in \<open>auto simp: loop_inv_def progress_inv_def soon_def onEvent_def fire_def listed_def no_tick_def periods split: option.splits\<close>)

lemma rebuild_ListFailed_returns: "inList inp = ListFailed \<Longrightarrow> \<exists>res ms'. rebuild env ms inp = Some (res, ms')"
  by (simp add: rebuild_def failRebuild_def Let_def)

lemma job_ends:
  assumes "curve_laws (key_algebra.truncate (mvScheme env))" "progress_inv env s" "lMainJob s = Some l"
  shows "\<exists>b s'. mstep env (MainDone b) s s'"
proof -
  define inp where "inp = \<lparr> inList = l, inSerialNow = 1, inSignNow = 1, inChainNow = 1, inOrdCheck = (\<lambda>m. m), inOrdAll = (\<lambda>m. m),
    inOrdSign = (\<lambda>m. m), inOrdNames = (\<lambda>ns. ns) \<rparr>"
  have i: "inList inp = l" "orders_ok inp" "clock_ok inp" by (simp_all add: inp_def orders_ok_def clock_ok_def)
  have "\<exists>res ms'. rebuild env (lMaster s) inp = Some (res, ms')"
  proof (cases "l = ListFailed")
    case False
    then obtain objs where o: "good_zone (mvUni env) (masterZone (lMaster s)) objs" "l = listing objs"
      using assms(2,3) by (auto simp: progress_inv_def)
    then have "inList inp = Objects objs \<or> inList inp = ErrNoResults \<and> objs = []" using i(1) by (auto simp: listing_def)
    from rebuild_cases [OF this o(1) i(2) assms(1)] show ?thesis by blast
  qed (use i rebuild_ListFailed_returns in blast)
  then show ?thesis using main_done [OF assms(3) i] by blast
qed

text \<open>Waiting for a timer.\<close>

lemma wait_for:
  assumes "soon s (Some e)"
  obtains t where "mstep env Wait s (s \<lparr> lNow := t \<rparr>)" "t \<le> lNow s + deadlinePeriod" "expired t (Some e)"
  using that [of "max (lNow s) e"] wait [of s "max (lNow s) e" env] assms by (simp add: soon_def expired_def periods)

lemma settling_simps [simp]:
  "settling Deliver" "settling Quiet" "settling Deadline" "settling (MainDone b)"
  "settling (Trigger l) \<longleftrightarrow> l \<noteq> ListFailed" "settling (Retry l) \<longleftrightarrow> l \<noteq> ListFailed"
  by (simp_all add: settling_def)

lemma settling_enabled:
  assumes "curve_laws (key_algebra.truncate (mvScheme env))" "loop_inv env s" "progress_inv env s" "\<not> idle s"
  shows "\<exists>t a s2. mstep env Wait s (s \<lparr> lNow := t \<rparr>) \<and> t \<le> lNow s + deadlinePeriod \<and> settling a \<and> mstep env a (s \<lparr> lNow := t \<rparr>) s2"
proof -
  have now: "?thesis" if "settling a" "mstep env a s s2" for a s2
    using wait [of s "lNow s" env] that by (intro exI [of _ "lNow s"]) (auto simp: periods)
  have inv: "lTickJob s = None" "quietTimer (lDebounce s) = None \<longleftrightarrow> deadlineTimer (lDebounce s) = None"
    using assms(2) by (simp_all add: loop_inv_def)
  have cl: "listing (lCluster s) \<noteq> ListFailed" by (simp add: listing_def)
  show ?thesis
  proof (cases "lMainJob s")
    case (Some l)
    from job_ends [OF assms(1,3) Some] show ?thesis using now settling_simps(4) by blast
  next
    case job: None
    consider "0 < lEvents s" | "outPending (lDebounce s)" | e where "quietTimer (lDebounce s) = Some e" | e where "lRetry s = Some e"
      using assms(4) inv job by (auto simp: idle_def)
    then show ?thesis
    proof cases
      case 1
      from now [OF _ deliver [OF this]] show ?thesis by simp
    next
      case 2
      have "listed s (listing (lCluster s))" by (simp add: listed_def)
      from now [OF _ trigger [OF job 2 this]] cl show ?thesis by simp
    next
      case 3
      then have "soon s (Some e)" using assms(3) by (simp add: progress_inv_def)
      then obtain t where t: "mstep env Wait s (s \<lparr> lNow := t \<rparr>)" "t \<le> lNow s + deadlinePeriod" "expired t (Some e)" by (rule wait_for)
      then have "mstep env Quiet (s \<lparr> lNow := t \<rparr>) ((s \<lparr> lNow := t \<rparr>) \<lparr> lDebounce := fire (lDebounce (s \<lparr> lNow := t \<rparr>)) \<rparr>)"
        using 3 by (intro quiet) simp
      with t(1,2) settling_simps(2) show ?thesis by blast
    next
      case 4
      then have "soon s (Some e)" using assms(3) by (simp add: progress_inv_def)
      then obtain t where t: "mstep env Wait s (s \<lparr> lNow := t \<rparr>)" "t \<le> lNow s + deadlinePeriod" "expired t (Some e)" by (rule wait_for)
      have "\<exists>s2. mstep env (Retry (listing (lCluster s))) (s \<lparr> lNow := t \<rparr>) s2"
        using retry [of "s \<lparr> lNow := t \<rparr>" "listing (lCluster s)" env] 4 job t(3) by (auto simp: listed_def)
      with t(1,2) cl settling_simps(6) show ?thesis by blast
    qed
  qed
qed

text \<open>A run of \<open>n\<close> settling steps, with waiting in between.\<close>

inductive settles :: "master_env \<Rightarrow> loop_state \<Rightarrow> nat \<Rightarrow> loop_state \<Rightarrow> bool" for env s0 where
  none: "settles env s0 0 s0"
| pause: "settles env s0 n s \<Longrightarrow> mstep env Wait s s' \<Longrightarrow> settles env s0 n s'"
| act: "settles env s0 n s \<Longrightarrow> settling a \<Longrightarrow> mstep env a s s' \<Longrightarrow> settles env s0 (Suc n) s'"

lemma settling_no_tick: "settling a \<Longrightarrow> no_tick a"
  by (cases a) (auto simp: settling_def no_tick_def)

lemma wait_sane: "mstep env Wait s s' \<Longrightarrow> work s' = work s \<and> sane_cluster s' = sane_cluster s \<and> lCluster s' = lCluster s"
  by (erule mstep.cases) (auto simp: work_def sane_cluster_def split: option.split)

lemma settles_facts:
  assumes "settles env s0 n s" "curve_laws (key_algebra.truncate (mvScheme env))" "loop_inv env s0" "progress_inv env s0" "sane_cluster s0"
  shows "loop_inv env s" "progress_inv env s" "sane_cluster s" "n + work s \<le> work s0" "lCluster s = lCluster s0"
  using assms(1)
proof induction
  case (pause n s s')
  have "no_tick Wait" by (simp add: no_tick_def)
  note mstep_inv [OF assms(2) pause(2) this] mstep_progress [OF pause(2) this] wait_sane [OF pause(2)]
  { case 1 then show ?case using pause \<open>loop_inv env s \<Longrightarrow> loop_inv env s'\<close> by simp }
  { case 2 then show ?case using pause \<open>loop_inv env s \<Longrightarrow> progress_inv env s \<Longrightarrow> progress_inv env s'\<close> by simp }
  { case 3 then show ?case using pause wait_sane [OF pause(2)] by simp }
  { case 4 then show ?case using pause wait_sane [OF pause(2)] by simp }
  { case 5 then show ?case using pause wait_sane [OF pause(2)] by simp }
next
  case (act n s a s')
  note w = settling_work [OF assms(2) act.IH(1) act.IH(3) act(2,3)]
  { case 1 then show ?case using mstep_inv [OF assms(2) act(3) settling_no_tick [OF act(2)] act.IH(1)] . }
  { case 2 then show ?case using mstep_progress [OF act(3) settling_no_tick [OF act(2)] act.IH(1,2)] . }
  { case 3 then show ?case using w(2) . }
  { case 4 then show ?case using w(1) act.IH(4) by simp }
  { case 5 then show ?case using w(3) act.IH(5) by simp }
qed (use assms in auto)

subsection \<open>The debouncer is on time\<close>

text \<open>A run of the debouncer alone that is never late: time does not pass a timer that is set. The first and
  last event of the open burst and the firings (time, first and last event) are recorded.\<close>

record debounce_run =
  drNow :: time
  drState :: debouncer
  drBurst :: "(time \<times> time) option"
  drFired :: "(time \<times> time \<times> time) list"

inductive prompt :: "duration \<Rightarrow> duration \<Rightarrow> debounce_run \<Rightarrow> bool" for quiet deadline where
  begin_run: "prompt quiet deadline \<lparr> drNow = t0, drState = newDebouncer, drBurst = None, drFired = [] \<rparr>"
| event: "prompt quiet deadline r \<Longrightarrow> prompt quiet deadline (r \<lparr> drState := onEvent quiet deadline (drNow r) (drState r),
    drBurst := Some (case drBurst r of None \<Rightarrow> (drNow r, drNow r) | Some (a, b) \<Rightarrow> (a, drNow r)) \<rparr>)"
| fired: "prompt quiet deadline r \<Longrightarrow> expired (drNow r) (quietTimer (drState r)) \<or> expired (drNow r) (deadlineTimer (drState r)) \<Longrightarrow>
    drBurst r = Some (a, b) \<Longrightarrow>
    prompt quiet deadline (r \<lparr> drState := fire (drState r), drBurst := None, drFired := (drNow r, a, b) # drFired r \<rparr>)"
| taken: "prompt quiet deadline r \<Longrightarrow> prompt quiet deadline (r \<lparr> drState := (drState r) \<lparr> outPending := False \<rparr> \<rparr>)"
| passes: "prompt quiet deadline r \<Longrightarrow> drNow r \<le> t \<Longrightarrow>
    pred_option (\<lambda>e. t \<le> e) (quietTimer (drState r)) \<Longrightarrow> pred_option (\<lambda>e. t \<le> e) (deadlineTimer (drState r)) \<Longrightarrow>
    prompt quiet deadline (r \<lparr> drNow := t \<rparr>)"

lemma prompt_inv:
  assumes "prompt quiet deadline r" "0 \<le> quiet" "0 \<le> deadline"
  shows "(case drBurst r of
      None \<Rightarrow> quietTimer (drState r) = None \<and> deadlineTimer (drState r) = None
    | Some (a, b) \<Rightarrow> quietTimer (drState r) = Some (b + quiet) \<and> deadlineTimer (drState r) = Some (a + deadline)
        \<and> a \<le> b \<and> b \<le> drNow r \<and> drNow r \<le> min (b + quiet) (a + deadline))
    \<and> (\<forall>(t, a, b) \<in> set (drFired r). t = min (b + quiet) (a + deadline))"
  using assms(1)
proof induction
  case (fired r a b)
  then show ?case by (auto simp: fire_def expired_def min_def split: option.splits)
qed (use assms(2,3) in \<open>auto simp: onEvent_def newDebouncer_def split: option.splits\<close>)

subsection \<open>A run\<close>

definition more_records :: "RR list" where
  "more_records = sane_records @ [NewRR (lit ''new.example.'') (RRoptsA [192, 0, 2, 9])]"

lemma sample_clusters:
  assumes "objs = sane_records \<or> objs = more_records"
  shows "good_zone (mvUni sample_menv) (lit ''example.'') objs" "sane_zone (lit ''example.'') (published 1 objs)"
    "int (length objs) \<le> 100000" "objs \<noteq> []"
proof -
  have g: "list_all (good_record (\<lambda>s. s)) sane_records" "list_all (good_record (\<lambda>s. s)) more_records"
    "wf_name (lit ''example.'')" "lowered (\<lambda>s. s) (lit ''example.'')" by code_simp+
  have gz: "good_zone (\<lambda>s. s) (lit ''example.'') objs" using g assms by (auto simp: good_zone_def)
  then show "good_zone (mvUni sample_menv) (lit ''example.'') objs" by (simp add: sample_menv_def)
  have "SanityChecks (\<lambda>s. s) (\<lambda>m. m) (NewDB (lit ''example.'') (published 1 sane_records)) = Some None"
    "SanityChecks (\<lambda>s. s) (\<lambda>m. m) (NewDB (lit ''example.'') (published 1 more_records)) = Some None" by code_simp+
  then show "sane_zone (lit ''example.'') (published 1 objs)"
    using SanityChecks_good [OF good_zone_published [OF gz], of "\<lambda>m. m" 1] assms by auto
  show "int (length objs) \<le> 100000" "objs \<noteq> []" using assms by (auto simp: more_records_def sane_records_def)
qed

lemma sample_cfg:
  assumes "mCfg ms = mCfg sample_master"
  shows "masterZone ms = lit ''example.''" "Keys (cfgDNSSEC (mCfg ms)) = []" "maxRecordCount ms = 100000"
  using assms by (simp_all add: sample_master_def NewMaster_def zeroConfig_def maxRecordCount_def defaultMaxRRsize_def)

lemma sample_rebuild:
  assumes "mCfg ms = mCfg sample_master" "objs = sane_records \<or> objs = more_records"
  obtains d ms' where "rebuild sample_menv ms (sample_input objs) = Some (Inr d, ms')" "mCurrent ms' = Some d"
    "serves_records d (published 7 objs)" "mCfg ms' = mCfg sample_master"
proof -
  note c = sample_cfg [OF assms(1)] and o = sample_clusters [OF assms(2)]
  have "sane_zone (masterZone ms) (published 7 objs)"
    using sane_zone_stamp [OF o(2), of "word_of_int 7"] published_again [of 7 objs 1] c(1) by simp
  moreover have "inList (sample_input objs) = Objects objs \<or> inList (sample_input objs) = ErrNoResults \<and> objs = []"
    "inSerialNow (sample_input objs) = 7" by (simp_all add: sample_input_def)
  moreover have "good_zone (mvUni sample_menv) (masterZone ms) objs" using o(1) c(1) by simp
  ultimately obtain d ms' where r: "rebuild sample_menv ms (sample_input objs) = Some (Inr d, ms')" "mCurrent ms' = Some d"
    "serves_records d (published 7 objs)"
    using rebuild_unsigned [of "sample_input objs" objs sample_menv ms, OF _ _ sample_menv_laws(2,1)] c o(3) by auto
  then show thesis using that rebuild_masterZone [OF r(1)] assms(1) by simp
qed

lemma sample_update:
  assumes "mreach sample_menv allowed s00 s0" "\<And>a. no_tick a \<Longrightarrow> allowed a"
    and "s0 = startLoop 0 sane_records ms \<lparr> lTickJob := tj \<rparr>" "mCfg ms = mCfg sample_master"
  obtains d ms' where "mreach sample_menv allowed s00 (startLoop quietPeriod more_records ms' \<lparr> lTickJob := tj \<rparr>)"
    "mCurrent ms' = Some d" "serves_records d (published 7 more_records)" "mCfg ms' = mCfg sample_master"
proof -
  obtain d ms' where r: "rebuild sample_menv ms (sample_input more_records) = Some (Inr d, ms')" "mCurrent ms' = Some d"
    "serves_records d (published 7 more_records)" "mCfg ms' = mCfg sample_master"
    using sample_rebuild [OF assms(4), of more_records] by auto
  define S where "S now ev db job m = \<lparr> lNow = now, lCluster = more_records, lEvents = ev, lDebounce = db, lRetry = None,
     lMainJob = job, lTickJob = tj, lMaster = m \<rparr>" for now ev db job m
  let ?db = "\<lparr> quietTimer = Some quietPeriod, deadlineTimer = Some deadlinePeriod, outPending = False \<rparr>"
  let ?fired = "\<lparr> quietTimer = None, deadlineTimer = None, outPending = True \<rparr>"
  have l: "Objects more_records = listing more_records" by (simp add: listing_def more_records_def)
  have "mstep sample_menv Change s0 (S 0 1 newDebouncer None ms)"
    using change [of sample_menv s0 more_records] sample_clusters(1) [of more_records] sample_cfg(1) [OF assms(4)]
    by (simp add: assms(3) S_def startLoop_def)
  moreover have "mstep sample_menv Deliver (S 0 1 newDebouncer None ms) (S 0 0 ?db None ms)"
    using deliver [of "S 0 1 newDebouncer None ms" sample_menv] by (simp add: S_def onEvent_def newDebouncer_def)
  moreover have "mstep sample_menv Wait (S 0 0 ?db None ms) (S quietPeriod 0 ?db None ms)"
    using wait [of "S 0 0 ?db None ms" quietPeriod sample_menv] by (simp add: S_def periods)
  moreover have "mstep sample_menv Quiet (S quietPeriod 0 ?db None ms) (S quietPeriod 0 ?fired None ms)"
    using quiet [of "S quietPeriod 0 ?db None ms" sample_menv] by (simp add: S_def expired_def fire_def)
  moreover have "mstep sample_menv (Trigger (Objects more_records)) (S quietPeriod 0 ?fired None ms)
      (S quietPeriod 0 newDebouncer (Some (Objects more_records)) ms)"
    using trigger [of "S quietPeriod 0 ?fired None ms" "Objects more_records" sample_menv] l by (simp add: S_def listed_def newDebouncer_def)
  moreover have "mstep sample_menv (MainDone False) (S quietPeriod 0 newDebouncer (Some (Objects more_records)) ms)
      (startLoop quietPeriod more_records ms' \<lparr> lTickJob := tj \<rparr>)"
    using main_done [of "S quietPeriod 0 newDebouncer (Some (Objects more_records)) ms" "Objects more_records"
        "sample_input more_records" sample_menv "Inr d" ms'] r(1) sample_menv_laws(2)
    by (simp add: S_def sample_input_def clock_ok_def afterRebuild_def startLoop_def)
  moreover have "allowed Change" "allowed Deliver" "allowed Wait" "allowed Quiet" "allowed (Trigger l)" "allowed (MainDone b)" for l b
    by (intro assms(2), simp add: no_tick_def)+
  ultimately have "mreach sample_menv allowed s00 (startLoop quietPeriod more_records ms' \<lparr> lTickJob := tj \<rparr>)"
    using assms(1) by (meson mreach.step)
  with r(2-4) show thesis by (intro that)
qed

subsection \<open>Properties\<close>

text \<open>The debouncer fires on time: over every run in which the goroutine is not late, a burst of events is
  answered by a trigger exactly when its last event is \<open>quiet\<close> ago or its first is \<open>deadline\<close> ago, whichever
  comes first; a burst that is still open has reached neither.\<close>

theorem debounce_fires_on_time:
  assumes "prompt quiet deadline r" "0 \<le> quiet" "0 \<le> deadline"
  shows "(\<forall>(t, a, b) \<in> set (drFired r). t = min (b + quiet) (a + deadline))
    \<and> (\<forall>a b. drBurst r = Some (a, b) \<longrightarrow> drNow r \<le> min (b + quiet) (a + deadline)
        \<and> quietTimer (drState r) = Some (b + quiet) \<and> deadlineTimer (drState r) = Some (a + deadline))"
  using prompt_inv [OF assms] by (auto split: option.splits)

theorem debounce_fires_on_time_witness:
  "\<exists>r t. prompt 5 30 r \<and> drFired r = [(t, 0, 4)] \<and> t = 9"
proof -
  let ?r = "\<lambda>now q b. \<lparr> drNow = now, drState = \<lparr> quietTimer = Some q, deadlineTimer = Some 30, outPending = False \<rparr>, drBurst = Some (0, b), drFired = [] \<rparr>"
  have "prompt 5 30 (?r 0 5 0)" using event [OF begin_run, of 5 30 0] by (simp add: onEvent_def newDebouncer_def)
  from passes [OF this, of 4] have "prompt 5 30 (?r 4 5 0)" by simp
  from event [OF this] have "prompt 5 30 (?r 4 9 4)" by (simp add: onEvent_def)
  from passes [OF this, of 9] have p: "prompt 5 30 (?r 9 9 4)" by simp
  from fired [OF p, of 0 4] obtain r where r: "prompt 5 30 r" "drFired r = [(9, 0, 4)]" by (auto simp: expired_def)
  with debounce_fires_on_time [OF r(1)] show ?thesis by auto
qed



text \<open>The sample master with a database of the first resources.\<close>

lemma startLoop_no_job: "startLoop now objs ms = startLoop now objs ms \<lparr> lTickJob := None \<rparr>"
  by (simp add: startLoop_def)

lemma mreach_one: "allowed a \<Longrightarrow> mstep env a s s' \<Longrightarrow> mreach env allowed s s'"
  by (rule mreach.step [OF mreach.start])

lemma sample_start:
  obtains ms where "mCfg ms = mCfg sample_master" "up_to_date (startLoop 0 sane_records ms)"
    "good_zone (mvUni sample_menv) (masterZone ms) sane_records"
proof -
  obtain d ms where "rebuild sample_menv sample_master (sample_input sane_records) = Some (Inr d, ms)" "mCurrent ms = Some d"
    "serves_records d (published 7 sane_records)" "mCfg ms = mCfg sample_master"
    by (rule sample_rebuild [OF refl disjI1 [OF refl]])
  then show thesis using that sample_clusters(1) [of sane_records] sample_cfg(1)
    by (auto simp: up_to_date_def startLoop_def)
qed



text \<open>The periodic rebuild can undo a change. It reads its list, a change arrives and the main loop
  publishes it, then the periodic rebuild installs the database of its older list: the master is at rest
  and publishes resources that are out of date.\<close>

theorem resign_may_publish_stale:
  "\<exists>env ms s. up_to_date (startLoop 0 sane_records ms) \<and> mreach env (\<lambda>a. True) (startLoop 0 sane_records ms) s
    \<and> idle s \<and> \<not> up_to_date s"
proof -
  obtain ms where ms: "mCfg ms = mCfg sample_master" "up_to_date (startLoop 0 sane_records ms)"
    "good_zone (mvUni sample_menv) (masterZone ms) sane_records" by (rule sample_start)
  let ?s = "startLoop 0 sane_records ms" let ?ms1 = "ms \<lparr> mResigns := mResigns ms + 1 \<rparr>"
  let ?job = "Some (Objects sane_records)"
  have l: "listed ?s (Objects sane_records)" by (simp add: listed_def listing_def startLoop_def sane_records_def)
  have "mstep sample_menv (Tick (Objects sane_records)) ?s (startLoop 0 sane_records ?ms1 \<lparr> lTickJob := ?job \<rparr>)"
    using tick [OF _ l, of sample_menv] by (simp add: startLoop_def)
  then have "mreach sample_menv (\<lambda>a. True) ?s (startLoop 0 sane_records ?ms1 \<lparr> lTickJob := ?job \<rparr>)"
    by (intro mreach_one [where allowed = "\<lambda>a. True"]) simp_all
  then obtain ms2 where r: "mreach sample_menv (\<lambda>a. True) ?s (startLoop quietPeriod more_records ms2 \<lparr> lTickJob := ?job \<rparr>)"
    "mCfg ms2 = mCfg sample_master"
    using sample_update [where allowed = "\<lambda>a. True" and ms = ?ms1 and tj = ?job] ms(1) by (metis Master.select_convs(1) Master.surjective Master.update_convs(7))
  obtain d ms3 where d: "rebuild sample_menv ms2 (sample_input sane_records) = Some (Inr d, ms3)" "mCurrent ms3 = Some d"
    "serves_records d (published 7 sane_records)" using sample_rebuild [OF r(2), of sane_records] by metis
  let ?s3 = "startLoop quietPeriod more_records ms3"
  have "mstep sample_menv (TickDone False) (startLoop quietPeriod more_records ms2 \<lparr> lTickJob := ?job \<rparr>) ?s3"
    using tick_done [of "startLoop quietPeriod more_records ms2 \<lparr> lTickJob := ?job \<rparr>" "Objects sane_records" "sample_input sane_records"
        sample_menv "Inr d" ms3] d(1) sample_menv_laws(2) by (simp add: sample_input_def clock_ok_def startLoop_def)
  then have reach: "mreach sample_menv (\<lambda>a. True) ?s ?s3" using mreach.step [OF r(1), of "TickDone False"] by simp
  have t: "\<not> dnssecType TypeA" "TypeA \<noteq> TypeDNSKEY" using rrtypes_distinct by (auto simp: dnssecType_def)
  have old: "LookupByName d (lit ''new.example.'') TypeA = []"
    using d(3) t by (simp add: serves_records_def published_def filter_empty_conv)
      (simp add: sane_records_def NewRR_def lit_def)
  have new: "filter (\<lambda>rr. Name rr = lit ''new.example.'' \<and> RRtype rr = TypeA) (published now more_records) \<noteq> []" for now
    by (simp add: more_records_def published_def NewRR_def)
  have "\<not> up_to_date ?s3"
  proof
    assume "up_to_date ?s3"
    then obtain now where "serves_records d (published now more_records)" using d(2) by (auto simp: up_to_date_def startLoop_def)
    then show False using old new [of now] t by (simp add: serves_records_def)
  qed
  moreover have "idle ?s3" by (simp add: idle_def startLoop_def newDebouncer_def)
  ultimately show ?thesis using reach ms(2) by blast
qed

text \<open>A configured interval that parses but is not positive ends the process, the master's and the slave's;
  every other setting, also one that does not parse, is accepted.\<close>

theorem tickers_panic_iff:
  "resignTicker env ms = None \<longleftrightarrow> (\<exists>d. ResignInterval (cfgMaster (mCfg ms)) \<noteq> []
     \<and> mvParseDuration env (ResignInterval (cfgMaster (mCfg ms))) = Some d \<and> d \<le> 0)"
  "pollTicker parse s = None \<longleftrightarrow> (\<exists>d. PollInterval (cfgSlave (slaveCfg s)) \<noteq> []
     \<and> parse (PollInterval (cfgSlave (slaveCfg s))) = Some d \<and> d \<le> 0)"
  by (auto simp: resignTicker_def pollTicker_def NewTicker_def resignInterval_def Let_def split: option.splits)

end
