(* ===== verification/Metrics.thy ===== *)
theory Metrics
  imports Complex_Main IP_Addr
begin

text \<open>
  The metrics of \<open>internal/metrics\<close>: counters, gauges and histograms with static and dynamic labels, the
  registry and the text of the metrics page (\<open>metrics/server.go\<close>, \<open>runtime/metrics.go\<close>).

  A metric keeps one series per combination of label values, in a Go map under the key that
  \<open>labelKey\<close> builds. A \<open>uint64\<close> and an \<open>int64\<close> are \<open>64 word\<close>, the latter read by \<open>sint\<close>.
  A \<open>float64\<close> is the real number it stands for; the rounding of an addition is the
  parameter \<open>rnd\<close>, the decimal forms \<open>%g\<close> and \<open>FormatFloat\<close> are the parameter \<open>fmtG\<close>. The order
  in which a map is ranged over is an argument \<open>ord\<close> that permutes its keys.

  The locale \<open>labelled_metric\<close> is the contract the three kinds of metrics share: an
  observation changes the series of its label values and no other one. Its lemma \<open>run_series\<close>
  computes every series after a run of observations; the interpretations discharge the contract for
  \<open>Counter\<close>, \<open>Gauge\<close> and \<open>Histogram\<close>.
\<close>

subsection \<open>Labels\<close>

type_synonym Labels = "(gostring \<times> gostring) list"
type_synonym keyorder = "gostring list \<Rightarrow> gostring list"

definition rangeMap :: "keyorder \<Rightarrow> (gostring \<times> 'v) list \<Rightarrow> (gostring \<times> 'v) list" where
  "rangeMap ord m = List.map_filter (\<lambda>k. map_option (Pair k) (map_of m k)) (ord (map fst m))"

definition labelPair :: "gostring \<times> gostring \<Rightarrow> gostring" where
  "labelPair kv = fst kv @ lit ''='' @ [34] @ snd kv @ [34]"

text \<open>\<open>Labels.string\<close>; since the pieces are sorted, the order of the maps does not matter.\<close>

definition labelsString :: "Labels \<Rightarrow> Labels \<Rightarrow> gostring" where
  "labelsString lbs extra =
     (if length lbs + length extra = 0 then []
      else lit ''{'' @ Join (lit '','') (sort (map labelPair lbs @ map labelPair extra)) @ lit ''}'')"

definition Labels_String :: "Labels \<Rightarrow> gostring" where
  "Labels_String lbs = labelsString lbs []"

definition StringWithExtra :: "Labels \<Rightarrow> Labels \<Rightarrow> gostring" where
  "StringWithExtra lbs extra = labelsString lbs extra"

subsection \<open>The base of a metric\<close>

record metricBase =
  mbName :: gostring
  StaticLabels :: Labels
  LabelKeys :: "gostring list"

text \<open>The index of the first value with a zero byte.\<close>

fun validateLoop :: "nat \<Rightarrow> gostring list \<Rightarrow> nat option" where
  "validateLoop i [] = None"
| "validateLoop i (v # vs) = (if 0 \<in> set v then Some i else validateLoop (i + 1) vs)"

definition validateLabelValues :: "gostring list \<Rightarrow> nat option" where
  "validateLabelValues vs = validateLoop 0 vs"

definition labelKey :: "gostring list \<Rightarrow> gostring" where
  "labelKey vs = Join [0] vs"

text \<open>The loop over the label keys stops counting where the values end, which is what \<open>zip\<close> does.\<close>

definition labelsFor :: "'a metricBase_scheme \<Rightarrow> gostring list \<Rightarrow> Labels" where
  "labelsFor mb vs = foldl (\<lambda>m (k, v). mapPut k v m) (StaticLabels mb) (zip (LabelKeys mb) vs)"

text \<open>The lookup of a series that creates it when it is missing, and its update.\<close>

definition updateSeries :: "gostring \<Rightarrow> 's \<Rightarrow> ('s \<Rightarrow> 's) \<Rightarrow> (gostring \<times> 's) list \<Rightarrow> (gostring \<times> 's) list" where
  "updateSeries key new f m = mapPut key (f (case map_of m key of None \<Rightarrow> new | Some s \<Rightarrow> s)) m"

text \<open>The verb \<open>%d\<close>.\<close>

definition FormatInt :: "int \<Rightarrow> gostring" where
  "FormatInt i = (if i < 0 then lit ''-'' @ FormatNat (nat (- i)) else FormatNat (nat i))"

subsection \<open>Counters\<close>

record counterSeries =
  csLabelValues :: "gostring list"
  csCount :: "64 word"

record Counter = metricBase +
  cSeries :: "(gostring \<times> counterSeries) list"

definition NewCounter :: "gostring \<Rightarrow> Labels \<Rightarrow> gostring list \<Rightarrow> Counter" where
  "NewCounter name static keys = \<lparr> mbName = name, StaticLabels = static, LabelKeys = keys, cSeries = [] \<rparr>"

definition Counter_Add :: "64 word \<Rightarrow> gostring list \<Rightarrow> Counter \<Rightarrow> Counter" where
  "Counter_Add n vs c =
     (if validateLabelValues vs \<noteq> None then c
      else c \<lparr> cSeries := updateSeries (labelKey vs) \<lparr> csLabelValues = vs, csCount = 0 \<rparr>
                            (\<lambda>s. s \<lparr> csCount := csCount s + n \<rparr>) (cSeries c) \<rparr>)"

definition Counter_Inc :: "gostring list \<Rightarrow> Counter \<Rightarrow> Counter" where
  "Counter_Inc vs c = Counter_Add 1 vs c"

definition Counter_Render :: "keyorder \<Rightarrow> Counter \<Rightarrow> gostring list" where
  "Counter_Render ord c =
     (if length (cSeries c) = 0 then [mbName c @ Labels_String (StaticLabels c) @ lit '' 0'']
      else map (\<lambda>(k, s). mbName c @ Labels_String (labelsFor c (csLabelValues s)) @ lit '' '' @ FormatNat (unat (csCount s)))
             (rangeMap ord (cSeries c)))"

subsection \<open>Gauges\<close>

record gaugeSeries =
  gsLabelValues :: "gostring list"
  gsValue :: "64 word"

record Gauge = metricBase +
  gSeries :: "(gostring \<times> gaugeSeries) list"

definition NewGauge :: "gostring \<Rightarrow> Labels \<Rightarrow> gostring list \<Rightarrow> Gauge" where
  "NewGauge name static keys = \<lparr> mbName = name, StaticLabels = static, LabelKeys = keys, gSeries = [] \<rparr>"

definition Gauge_Set :: "64 word \<Rightarrow> gostring list \<Rightarrow> Gauge \<Rightarrow> Gauge" where
  "Gauge_Set v vs g =
     (if validateLabelValues vs \<noteq> None then g
      else g \<lparr> gSeries := updateSeries (labelKey vs) \<lparr> gsLabelValues = vs, gsValue = 0 \<rparr>
                            (\<lambda>s. s \<lparr> gsValue := v \<rparr>) (gSeries g) \<rparr>)"

definition Gauge_Add :: "64 word \<Rightarrow> gostring list \<Rightarrow> Gauge \<Rightarrow> Gauge" where
  "Gauge_Add d vs g =
     (if validateLabelValues vs \<noteq> None then g
      else g \<lparr> gSeries := updateSeries (labelKey vs) \<lparr> gsLabelValues = vs, gsValue = 0 \<rparr>
                            (\<lambda>s. s \<lparr> gsValue := gsValue s + d \<rparr>) (gSeries g) \<rparr>)"

definition Gauge_Inc :: "gostring list \<Rightarrow> Gauge \<Rightarrow> Gauge" where
  "Gauge_Inc vs g = Gauge_Add 1 vs g"

definition Gauge_Dec :: "gostring list \<Rightarrow> Gauge \<Rightarrow> Gauge" where
  "Gauge_Dec vs g = Gauge_Add (- 1) vs g"

definition Gauge_Render :: "keyorder \<Rightarrow> Gauge \<Rightarrow> gostring list" where
  "Gauge_Render ord g =
     (if length (gSeries g) = 0 then [mbName g @ Labels_String (StaticLabels g) @ lit '' 0'']
      else map (\<lambda>(k, s). mbName g @ Labels_String (labelsFor g (gsLabelValues s)) @ lit '' '' @ FormatInt (sint (gsValue s)))
             (rangeMap ord (gSeries g)))"

subsection \<open>Histograms\<close>

record histogramSeries =
  hsLabelValues :: "gostring list"
  Counts :: "64 word list"
  Sum :: real
  Count :: "64 word"

record Histogram = metricBase +
  Buckets :: "real list"
  hSeries :: "(gostring \<times> histogramSeries) list"

definition NewHistogram :: "gostring \<Rightarrow> real list \<Rightarrow> Labels \<Rightarrow> gostring list \<Rightarrow> Histogram" where
  "NewHistogram name buckets static keys =
     \<lparr> mbName = name, StaticLabels = static, LabelKeys = keys, Buckets = buckets, hSeries = [] \<rparr>"

text \<open>The loop over the buckets; \<open>s.Counts[idx]\<close> is a checked access.\<close>

fun countBuckets :: "real \<Rightarrow> nat \<Rightarrow> real list \<Rightarrow> 64 word list \<Rightarrow> 64 word list go" where
  "countBuckets value idx [] counts = Some counts"
| "countBuckets value idx (bv # bvs) counts =
     (if value \<le> bv
      then do { c \<leftarrow> goindex counts idx; countBuckets value (idx + 1) bvs (counts[idx := c + 1]) }
      else countBuckets value (idx + 1) bvs counts)"

definition Observe :: "(real \<Rightarrow> real) \<Rightarrow> real \<Rightarrow> gostring list \<Rightarrow> Histogram \<Rightarrow> Histogram go" where
  "Observe rnd value vs h =
     (if validateLabelValues vs \<noteq> None then Some h
      else (let key = labelKey vs;
                s = (case map_of (hSeries h) key of
                       Some s \<Rightarrow> s
                     | None \<Rightarrow> \<lparr> hsLabelValues = vs, Counts = replicate (length (Buckets h)) 0, Sum = 0, Count = 0 \<rparr>)
            in do {
                 counts \<leftarrow> countBuckets value 0 (Buckets h) (Counts s);
                 Some (h \<lparr> hSeries := mapPut key (s \<lparr> Sum := rnd (Sum s + value), Count := Count s + 1, Counts := counts \<rparr>) (hSeries h) \<rparr>)
               }))"

fun bucketLines :: "(real \<Rightarrow> gostring) \<Rightarrow> gostring \<Rightarrow> Labels \<Rightarrow> 64 word list \<Rightarrow> nat \<Rightarrow> real list \<Rightarrow> gostring list go" where
  "bucketLines fmtG name labels counts i [] = Some []"
| "bucketLines fmtG name labels counts i (ub # ubs) = do {
     c \<leftarrow> goindex counts i;
     rest \<leftarrow> bucketLines fmtG name labels counts (i + 1) ubs;
     Some ((name @ lit ''_bucket'' @ StringWithExtra labels [(lit ''le'', fmtG ub)] @ lit '' '' @ FormatNat (unat c)) # rest)
   }"

definition renderSeries :: "(real \<Rightarrow> gostring) \<Rightarrow> Histogram \<Rightarrow> histogramSeries option \<Rightarrow> Labels \<Rightarrow> gostring list go" where
  "renderSeries fmtG h s labels =
     (let counts = (case s of Some x \<Rightarrow> Counts x | None \<Rightarrow> replicate (length (Buckets h)) 0);
          sm = (case s of Some x \<Rightarrow> Sum x | None \<Rightarrow> 0);
          cnt = (case s of Some x \<Rightarrow> Count x | None \<Rightarrow> 0)
      in do {
           lines \<leftarrow> bucketLines fmtG (mbName h) labels counts 0 (Buckets h);
           Some (lines @
             [mbName h @ lit ''_bucket'' @ StringWithExtra labels [(lit ''le'', lit ''+Inf'')] @ lit '' '' @ FormatNat (unat cnt),
              mbName h @ lit ''_sum'' @ Labels_String labels @ lit '' '' @ fmtG sm,
              mbName h @ lit ''_count'' @ Labels_String labels @ lit '' '' @ FormatNat (unat cnt)])
         })"

fun renderEach :: "(real \<Rightarrow> gostring) \<Rightarrow> Histogram \<Rightarrow> (gostring \<times> histogramSeries) list \<Rightarrow> gostring list go" where
  "renderEach fmtG h [] = Some []"
| "renderEach fmtG h ((k, s) # rest) = do {
     lines \<leftarrow> renderSeries fmtG h (Some s) (labelsFor h (hsLabelValues s));
     more \<leftarrow> renderEach fmtG h rest;
     Some (lines @ more)
   }"

definition Histogram_Render :: "(real \<Rightarrow> gostring) \<Rightarrow> keyorder \<Rightarrow> Histogram \<Rightarrow> gostring list go" where
  "Histogram_Render fmtG ord h =
     (if length (hSeries h) = 0 then renderSeries fmtG h None (StaticLabels h)
      else renderEach fmtG h (rangeMap ord (hSeries h)))"

subsection \<open>The registry and the page\<close>

datatype Metric = MCounter Counter | MGauge Gauge | MHistogram Histogram

fun Metric_Render :: "(real \<Rightarrow> gostring) \<Rightarrow> keyorder \<Rightarrow> Metric \<Rightarrow> gostring list go" where
  "Metric_Render fmtG ord (MCounter c) = Some (Counter_Render ord c)"
| "Metric_Render fmtG ord (MGauge g) = Some (Gauge_Render ord g)"
| "Metric_Render fmtG ord (MHistogram h) = Histogram_Render fmtG ord h"

record Metrics =
  metrics :: "(gostring \<times> Metric) list"

datatype metrics_error = ErrMetricExists gostring | ErrMetricNotExists gostring

definition NewMetrics :: Metrics where
  "NewMetrics = \<lparr> metrics = [] \<rparr>"

definition Register :: "gostring \<Rightarrow> Metric \<Rightarrow> Metrics \<Rightarrow> metrics_error option \<times> Metrics" where
  "Register name mtr m =
     (if mapHas (metrics m) name then (Some (ErrMetricExists name), m)
      else (None, m \<lparr> metrics := mapPut name mtr (metrics m) \<rparr>))"

definition Remove :: "gostring \<Rightarrow> Metrics \<Rightarrow> metrics_error option \<times> Metrics" where
  "Remove name m =
     (if \<not> mapHas (metrics m) name then (Some (ErrMetricNotExists name), m)
      else (None, m \<lparr> metrics := filter (\<lambda>e. fst e \<noteq> name) (metrics m) \<rparr>))"

definition GetMetric :: "gostring \<Rightarrow> Metrics \<Rightarrow> Metric option" where
  "GetMetric name m = map_of (metrics m) name"

fun renderMetrics :: "(real \<Rightarrow> gostring) \<Rightarrow> keyorder \<Rightarrow> (gostring \<times> Metric) list \<Rightarrow> gostring list go" where
  "renderMetrics fmtG ord [] = Some []"
| "renderMetrics fmtG ord ((name, mtr) # rest) = do {
     lines \<leftarrow> Metric_Render fmtG ord mtr;
     more \<leftarrow> renderMetrics fmtG ord rest;
     Some (lines @ more)
   }"

definition RenderAll :: "(real \<Rightarrow> gostring) \<Rightarrow> keyorder \<Rightarrow> Metrics \<Rightarrow> gostring list go" where
  "RenderAll fmtG ord m = renderMetrics fmtG ord (rangeMap ord (metrics m))"

text \<open>The status code, the content type and the text of \<open>GET /metrics\<close>.\<close>

definition handleMetrics :: "(real \<Rightarrow> gostring) \<Rightarrow> keyorder \<Rightarrow> Metrics \<Rightarrow> (nat \<times> gostring \<times> gostring) go" where
  "handleMetrics fmtG ord m = do {
     lines \<leftarrow> RenderAll fmtG ord m;
     Some (200, lit ''text/plain; charset=utf-8'', Join [10] lines @ [10])
   }"

subsection \<open>Keys of label values\<close>

definition nul_free :: "gostring list \<Rightarrow> bool" where
  "nul_free vs \<longleftrightarrow> list_all (\<lambda>v. 0 \<notin> set v) vs"

lemma validate_nul_free: "validateLabelValues vs = None \<longleftrightarrow> nul_free vs"
proof -
  have "validateLoop i vs = None \<longleftrightarrow> nul_free vs" for i by (induction vs arbitrary: i) (auto simp: nul_free_def)
  then show ?thesis by (simp add: validateLabelValues_def)
qed

lemma labelKey_inj:
  assumes "nul_free us" "nul_free vs" "length us = length vs" shows "labelKey us = labelKey vs \<longleftrightarrow> us = vs"
proof (cases "us = []")
  case False
  then have "Split 0 (labelKey us) = us" "Split 0 (labelKey vs) = vs"
    using assms by (auto simp: labelKey_def nul_free_def list_all_iff intro!: Split_Join)
  then show ?thesis by metis
qed (use assms in simp)

definition fits :: "nat \<Rightarrow> gostring list \<Rightarrow> bool" where
  "fits n vs \<longleftrightarrow> nul_free vs \<and> length vs = n"

definition wf_series :: "nat \<Rightarrow> ('s \<Rightarrow> gostring list) \<Rightarrow> (gostring \<times> 's) list \<Rightarrow> bool" where
  "wf_series n lv m \<longleftrightarrow> distinct (map fst m) \<and> (\<forall>(k, s) \<in> set m. k = labelKey (lv s) \<and> fits n (lv s))"

lemma wf_series_Nil [simp]: "wf_series n lv []"
  by (simp add: wf_series_def)

lemma wf_series_put:
  "wf_series n lv m \<Longrightarrow> fits n (lv s) \<Longrightarrow> wf_series n lv (mapPut (labelKey (lv s)) s m)"
  using distinct_mapPut [of m "labelKey (lv s)" s] by (auto simp: wf_series_def mapPut_def)

lemma wf_series_lookup:
  assumes "wf_series n lv m" "fits n vs" "map_of m (labelKey vs) = Some s" shows "lv s = vs"
proof -
  have "labelKey vs = labelKey (lv s)" "fits n (lv s)" using assms(1) map_of_SomeD [OF assms(3)] by (auto simp: wf_series_def)
  then show ?thesis using assms(2) labelKey_inj by (auto simp: fits_def)
qed

lemma lookup_put:
  assumes "fits n us" "fits n vs"
  shows "map_of (mapPut (labelKey vs) s m) (labelKey us) = (if us = vs then Some s else map_of m (labelKey us))"
  using assms by (auto simp: map_of_mapPut labelKey_inj fits_def)

lemma wf_series_values:
  assumes "wf_series n lv m" shows "distinct (map (lv \<circ> snd) m)"
proof -
  have "map fst m = map labelKey (map (lv \<circ> snd) m)" using assms by (auto simp: wf_series_def)
  then have "distinct (map labelKey (map (lv \<circ> snd) m))" using assms unfolding wf_series_def by metis
  then show ?thesis unfolding distinct_map by blast
qed

lemma wf_series_entry:
  assumes "wf_series n lv m" "(k, s) \<in> set m" shows "k = labelKey (lv s)" "fits n (lv s)" "map_of m (labelKey (lv s)) = Some s"
  using assms by (auto simp: wf_series_def)

lemma wf_series_dom:
  assumes wf: "wf_series n lv m" and S: "\<forall>us \<in> set S. fits n us"
    and dom: "\<And>us. fits n us \<Longrightarrow> map_of m (labelKey us) \<noteq> None \<longleftrightarrow> us \<in> set S"
  shows "set (map (lv \<circ> snd) m) = set S"
proof (intro set_eqI iffI)
  fix us assume "us \<in> set (map (lv \<circ> snd) m)"
  then obtain k s where "(k, s) \<in> set m" "us = lv s" by auto
  then show "us \<in> set S" using wf_series_entry [OF wf] dom [of us] by auto
next
  fix us assume us: "us \<in> set S"
  then obtain s where s: "map_of m (labelKey us) = Some s" using S dom [of us] by auto
  then have "lv s = us" using wf_series_lookup [OF wf] S us by blast
  then show "us \<in> set (map (lv \<circ> snd) m)" using map_of_SomeD [OF s] by force
qed

lemma update_series:
  assumes "wf_series n lv m" "fits n vs" "lv new = vs" "\<And>s. lv (f s) = lv s"
  shows "wf_series n lv (updateSeries (labelKey vs) new f m)"
    and "fits n us \<Longrightarrow> map_of (updateSeries (labelKey vs) new f m) (labelKey us) =
      (if us = vs then Some (f (case map_of m (labelKey vs) of None \<Rightarrow> new | Some s \<Rightarrow> s)) else map_of m (labelKey us))"
proof -
  let ?s = "case map_of m (labelKey vs) of None \<Rightarrow> new | Some s \<Rightarrow> s"
  have "lv ?s = vs" using assms(1-3) wf_series_lookup by (auto split: option.split)
  then show "wf_series n lv (updateSeries (labelKey vs) new f m)"
    using wf_series_put [OF assms(1), of "f ?s"] assms(2,4) by (simp add: updateSeries_def)
qed (simp add: updateSeries_def lookup_put [OF _ assms(2)])

definition permutes_keys :: "keyorder \<Rightarrow> bool" where
  "permutes_keys ord \<longleftrightarrow> (\<forall>ks. mset (ord ks) = mset ks)"

lemma rangeMap_mset:
  assumes "permutes_keys ord" "distinct (map fst m)" shows "mset (rangeMap ord m) = mset m"
proof -
  define g where "g k = (k, the (map_of m k))" for k
  have "set (ord (map fst m)) = fst ` set m"
    using assms(1) mset_eq_setD [of "ord (map fst m)" "map fst m"] by (simp add: permutes_keys_def)
  then have some: "map_of m k \<noteq> None" if "k \<in> set (ord (map fst m))" for k using that by (simp add: map_of_eq_None_iff)
  have mf: "List.map_filter (\<lambda>k. map_option (Pair k) (map_of m k)) ks = map g ks" if "\<forall>k \<in> set ks. map_of m k \<noteq> None" for ks
    using that by (induction ks) (auto simp: List.map_filter_simps g_def)
  have "rangeMap ord m = map g (ord (map fst m))" unfolding rangeMap_def using some by (intro mf) simp
  then have "mset (rangeMap ord m) = mset (map g (map fst m))" using assms(1) by (metis mset_map permutes_keys_def)
  moreover have "map g (map fst m) = m" 
    using assms(2) by (auto simp: g_def intro!: map_idI)
  ultimately show ?thesis by argo
qed

subsection \<open>The contract of a labelled metric\<close>

fun runAll :: "('o \<Rightarrow> gostring list \<Rightarrow> 'm \<Rightarrow> 'm go) \<Rightarrow> ('o \<times> gostring list) list \<Rightarrow> 'm \<Rightarrow> 'm go" where
  "runAll observe [] m = Some m"
| "runAll observe ((x, vs) # obs) m = do { m' \<leftarrow> observe x vs m; runAll observe obs m' }"

definition seen :: "nat \<Rightarrow> ('o \<times> gostring list) list \<Rightarrow> gostring list list" where
  "seen n obs = remdups (filter (fits n) (map snd obs))"

definition observedAt :: "gostring list \<Rightarrow> ('o \<times> gostring list) list \<Rightarrow> 'o list" where
  "observedAt us obs = map fst (filter (\<lambda>(x, vs). vs = us) obs)"

lemma observedAt_Nil [simp]: "observedAt us [] = []"
  by (simp add: observedAt_def)

lemma observedAt_Cons [simp]: "observedAt us ((x, vs) # obs) = (if vs = us then [x] else []) @ observedAt us obs"
  by (simp add: observedAt_def)

lemma seen_iff: "us \<in> set (seen n obs) \<longleftrightarrow> fits n us \<and> observedAt us obs \<noteq> []"
  by (force simp: seen_def observedAt_def filter_empty_conv)

lemma seen_facts: "distinct (seen n obs)" "\<forall>us \<in> set (seen n obs). fits n us"
  by (auto simp: seen_def)

locale labelled_metric =
  fixes inv :: "'m \<Rightarrow> bool" and frame :: "'m \<Rightarrow> 'c" and arity :: "'c \<Rightarrow> nat"
    and val :: "'m \<Rightarrow> gostring list \<Rightarrow> 's option"
    and observe :: "'o \<Rightarrow> gostring list \<Rightarrow> 'm \<Rightarrow> 'm go"
    and upd :: "'c \<Rightarrow> 'o \<Rightarrow> 's option \<Rightarrow> 's"
  assumes dropped: "inv m \<Longrightarrow> \<not> nul_free vs \<Longrightarrow> observe x vs m = Some m"
    and observed: "inv m \<Longrightarrow> fits (arity (frame m)) vs \<Longrightarrow>
      \<exists>m'. observe x vs m = Some m' \<and> inv m' \<and> frame m' = frame m \<and>
        (\<forall>us. fits (arity (frame m)) us \<longrightarrow> val m' us = (if us = vs then Some (upd (frame m) x (val m vs)) else val m us))"
begin

lemma run_series:
  assumes "inv m" "\<forall>(x, vs) \<in> set obs. length vs = arity (frame m)"
  shows "\<exists>m'. runAll observe obs m = Some m' \<and> inv m' \<and> frame m' = frame m \<and>
    (\<forall>us. fits (arity (frame m)) us \<longrightarrow>
       val m' us = foldl (\<lambda>s x. Some (upd (frame m) x s)) (val m us) (observedAt us obs))"
  using assms
proof (induction obs arbitrary: m)
  case (Cons e obs)
  obtain x vs where e: "e = (x, vs)" by fastforce
  have len: "length vs = arity (frame m)" using Cons.prems(2) e by simp
  show ?case
  proof (cases "nul_free vs")
    case True
    obtain m1 where m1: "observe x vs m = Some m1" "inv m1" "frame m1 = frame m"
        "\<forall>us. fits (arity (frame m)) us \<longrightarrow> val m1 us = (if us = vs then Some (upd (frame m) x (val m vs)) else val m us)"
      using observed [OF Cons.prems(1), of vs x] True len by (auto simp: fits_def)
    then show ?thesis using Cons.IH [OF m1(2)] Cons.prems(2) e by auto
  next
    case False
    then have "us \<noteq> vs" if "fits (arity (frame m)) us" for us using that by (auto simp: fits_def)
    then show ?thesis using Cons.IH [OF Cons.prems(1)] Cons.prems(2) e dropped [OF Cons.prems(1) False, of x] by auto
  qed
qed simp

lemma run_dom:
  assumes "inv m" "\<forall>(x, vs) \<in> set obs. length vs = arity (frame m)" "\<And>us. val m us = None"
    "runAll observe obs m = Some m'" "fits (arity (frame m)) us"
  shows "val m' us \<noteq> None \<longleftrightarrow> us \<in> set (seen (arity (frame m)) obs)"
proof -
  have "foldl (\<lambda>s x. Some (upd (frame m) x s)) None xs \<noteq> None \<longleftrightarrow> xs \<noteq> []" for xs
    by (cases xs rule: rev_cases) auto
  then show ?thesis using run_series [OF assms(1,2)] assms(3-5) by (auto simp: seen_iff)
qed

end

text \<open>A metric whose series are stored as the three kinds store them.\<close>

locale exposed_metric = labelled_metric inv frame arity val observe upd
  for inv :: "'m \<Rightarrow> bool" and frame :: "'m \<Rightarrow> 'c" and arity :: "'c \<Rightarrow> nat" and val :: "'m \<Rightarrow> gostring list \<Rightarrow> 's option"
    and observe :: "'o \<Rightarrow> gostring list \<Rightarrow> 'm \<Rightarrow> 'm go" and upd :: "'c \<Rightarrow> 'o \<Rightarrow> 's option \<Rightarrow> 's" +
  fixes entries :: "'m \<Rightarrow> (gostring \<times> 'e) list" and lv :: "'e \<Rightarrow> gostring list" and reading :: "'e \<Rightarrow> 's"
  assumes wf: "inv m \<Longrightarrow> wf_series (arity (frame m)) lv (entries m)"
    and val_entry: "val m us = map_option reading (map_of (entries m) (labelKey us))"
begin

lemma run_entries:
  assumes "inv m0" "entries m0 = []" "\<forall>(x, vs) \<in> set obs. length vs = arity (frame m0)" "permutes_keys ord"
  obtains m where "runAll observe obs m0 = Some m" "inv m" "frame m = frame m0"
    "entries m = [] \<longleftrightarrow> seen (arity (frame m0)) obs = []"
    "mset (map (lv \<circ> snd) (rangeMap ord (entries m))) = mset (seen (arity (frame m0)) obs)"
    "\<And>k e. (k, e) \<in> set (rangeMap ord (entries m)) \<Longrightarrow>
       foldl (\<lambda>s x. Some (upd (frame m0) x s)) None (observedAt (lv e) obs) = Some (reading e) \<and> observedAt (lv e) obs \<noteq> []"
proof -
  let ?S = "seen (arity (frame m0)) obs"
  have none: "val m0 us = None" for us using assms(2) by (simp add: val_entry)
  obtain m where m: "runAll observe obs m0 = Some m" "inv m" "frame m = frame m0"
    and v: "\<And>us. fits (arity (frame m0)) us \<Longrightarrow> val m us = foldl (\<lambda>s x. Some (upd (frame m0) x s)) None (observedAt us obs)"
    using run_series [OF assms(1,3)] none by auto
  have w: "wf_series (arity (frame m0)) lv (entries m)" using wf [OF m(2)] m(3) by simp
  have dom: "map_of (entries m) (labelKey us) \<noteq> None \<longleftrightarrow> us \<in> set ?S" if "fits (arity (frame m0)) us" for us
    using run_dom [OF assms(1,3) none m(1) that] by (simp add: val_entry)
  have range: "mset (rangeMap ord (entries m)) = mset (entries m)" using rangeMap_mset [OF assms(4), of "entries m"] w by (simp add: wf_series_def)
  have "set (map (lv \<circ> snd) (entries m)) = set ?S" by (rule wf_series_dom [OF w seen_facts(2) dom])
  then have S: "mset (map (lv \<circ> snd) (entries m)) = mset ?S"
    using wf_series_values [OF w] seen_facts(1) set_eq_iff_mset_eq_distinct by blast
  have entry: "foldl (\<lambda>s x. Some (upd (frame m0) x s)) None (observedAt (lv e) obs) = Some (reading e) \<and> observedAt (lv e) obs \<noteq> []"
    if "(k, e) \<in> set (rangeMap ord (entries m))" for k e
  proof -
    have ke: "(k, e) \<in> set (entries m)" using that range mset_eq_setD by blast
    note e = wf_series_entry [OF w ke]
    have "lv e \<in> set ?S" using dom [of "lv e"] e by simp
    then show ?thesis using e v [of "lv e"] by (simp add: val_entry seen_iff)
  qed
  have "entries m = [] \<longleftrightarrow> ?S = []" using S by (metis map_is_Nil_conv mset_zero_iff)
  moreover have "mset (map (lv \<circ> snd) (rangeMap ord (entries m))) = mset ?S" using S range by (metis mset_map)
  ultimately show thesis using that m entry by blast
qed

end

definition counter_ok :: "Counter \<Rightarrow> bool" where
  "counter_ok c \<longleftrightarrow> wf_series (length (LabelKeys c)) csLabelValues (cSeries c)"

definition counter_val :: "Counter \<Rightarrow> gostring list \<Rightarrow> 64 word option" where
  "counter_val c us = map_option csCount (map_of (cSeries c) (labelKey us))"

definition counter_op :: "64 word \<Rightarrow> gostring list \<Rightarrow> Counter \<Rightarrow> Counter go" where
  "counter_op n vs c = Some (Counter_Add n vs c)"

interpretation ctr: exposed_metric counter_ok metricBase.truncate "length \<circ> LabelKeys" counter_val counter_op
  "\<lambda>_ n s. (case s of None \<Rightarrow> 0 | Some k \<Rightarrow> k) + n" cSeries csLabelValues csCount
proof unfold_locales
  fix m :: Counter and vs x assume "\<not> nul_free vs"
  then show "counter_op x vs m = Some m" by (auto simp: counter_op_def Counter_Add_def validate_nul_free)
next
  fix m :: Counter and vs x assume a: "counter_ok m" "fits ((length \<circ> LabelKeys) (metricBase.truncate m)) vs"
  have f: "fits (length (LabelKeys m)) vs" using a(2) by (simp add: metricBase.truncate_def)
  note up = update_series [OF a(1) [unfolded counter_ok_def] f, of "\<lparr> csLabelValues = vs, csCount = 0 \<rparr>" "\<lambda>s. s \<lparr> csCount := csCount s + x \<rparr>"]
  show "\<exists>m'. counter_op x vs m = Some m' \<and> counter_ok m' \<and> metricBase.truncate m' = metricBase.truncate m \<and>
      (\<forall>us. fits ((length \<circ> LabelKeys) (metricBase.truncate m)) us \<longrightarrow>
        counter_val m' us = (if us = vs then Some ((case counter_val m vs of None \<Rightarrow> 0 | Some k \<Rightarrow> k) + x) else counter_val m us))"
    using up f by (auto simp: counter_op_def Counter_Add_def validate_nul_free fits_def counter_ok_def metricBase.truncate_def
        counter_val_def split: option.split)
qed (simp_all add: counter_ok_def counter_val_def metricBase.truncate_def)

definition gauge_ok :: "Gauge \<Rightarrow> bool" where
  "gauge_ok g \<longleftrightarrow> wf_series (length (LabelKeys g)) gsLabelValues (gSeries g)"

definition gauge_val :: "Gauge \<Rightarrow> gostring list \<Rightarrow> 64 word option" where
  "gauge_val g us = map_option gsValue (map_of (gSeries g) (labelKey us))"

datatype gaugeOp = SetTo "64 word" | AddTo "64 word"

fun gauge_op :: "gaugeOp \<Rightarrow> gostring list \<Rightarrow> Gauge \<Rightarrow> Gauge go" where
  "gauge_op (SetTo v) vs g = Some (Gauge_Set v vs g)"
| "gauge_op (AddTo d) vs g = Some (Gauge_Add d vs g)"

fun gauge_upd :: "gaugeOp \<Rightarrow> 64 word option \<Rightarrow> 64 word" where
  "gauge_upd (SetTo v) s = v"
| "gauge_upd (AddTo d) s = (case s of None \<Rightarrow> 0 | Some k \<Rightarrow> k) + d"

interpretation gge: exposed_metric gauge_ok metricBase.truncate "length \<circ> LabelKeys" gauge_val gauge_op "\<lambda>_. gauge_upd"
  gSeries gsLabelValues gsValue
proof unfold_locales
  fix m :: Gauge and vs x assume "\<not> nul_free vs"
  then show "gauge_op x vs m = Some m" by (cases x) (auto simp: Gauge_Set_def Gauge_Add_def validate_nul_free)
next
  fix m :: Gauge and vs x assume a: "gauge_ok m" "fits ((length \<circ> LabelKeys) (metricBase.truncate m)) vs"
  have f: "fits (length (LabelKeys m)) vs" using a(2) by (simp add: metricBase.truncate_def)
  note up = update_series [OF a(1) [unfolded gauge_ok_def] f, of "\<lparr> gsLabelValues = vs, gsValue = 0 \<rparr>"]
  show "\<exists>m'. gauge_op x vs m = Some m' \<and> gauge_ok m' \<and> metricBase.truncate m' = metricBase.truncate m \<and>
      (\<forall>us. fits ((length \<circ> LabelKeys) (metricBase.truncate m)) us \<longrightarrow>
        gauge_val m' us = (if us = vs then Some (gauge_upd x (gauge_val m vs)) else gauge_val m us))"
  proof (cases x)
    case (SetTo v)
    show ?thesis
      using up [of "\<lambda>s. s \<lparr> gsValue := v \<rparr>"] f
      by (auto simp: SetTo Gauge_Set_def validate_nul_free fits_def gauge_ok_def metricBase.truncate_def gauge_val_def split: option.split)
  next
    case (AddTo d)
    show ?thesis
      using up [of "\<lambda>s. s \<lparr> gsValue := gsValue s + d \<rparr>"] f
      by (auto simp: AddTo Gauge_Add_def validate_nul_free fits_def gauge_ok_def metricBase.truncate_def gauge_val_def split: option.split)
  qed
qed (simp_all add: gauge_ok_def gauge_val_def metricBase.truncate_def)

definition histogram_ok :: "Histogram \<Rightarrow> bool" where
  "histogram_ok h \<longleftrightarrow> wf_series (length (LabelKeys h)) hsLabelValues (hSeries h) \<and>
     (\<forall>(k, s) \<in> set (hSeries h). length (Counts s) = length (Buckets h))"

definition histogram_val :: "Histogram \<Rightarrow> gostring list \<Rightarrow> (64 word list \<times> real \<times> 64 word) option" where
  "histogram_val h us = map_option (\<lambda>s. (Counts s, Sum s, Count s)) (map_of (hSeries h) (labelKey us))"

definition bump :: "real list \<Rightarrow> real \<Rightarrow> 64 word list \<Rightarrow> 64 word list" where
  "bump bvs x counts = map2 (\<lambda>bv c. if x \<le> bv then c + 1 else c) bvs counts"

fun histogram_upd :: "(real \<Rightarrow> real) \<Rightarrow> metricBase \<times> real list \<Rightarrow> real \<Rightarrow> (64 word list \<times> real \<times> 64 word) option \<Rightarrow> 64 word list \<times> real \<times> 64 word" where
  "histogram_upd rnd (b, bvs) x None = (bump bvs x (replicate (length bvs) 0), rnd (0 + x), 1)"
| "histogram_upd rnd (b, bvs) x (Some (counts, sm, n)) = (bump bvs x counts, rnd (sm + x), n + 1)"

lemma countBuckets_bump:
  "length counts = idx + length bvs \<Longrightarrow> countBuckets x idx bvs counts = Some (take idx counts @ bump bvs x (drop idx counts))"
proof (induction bvs arbitrary: idx counts)
  case (Cons bv bvs)
  have d: "drop idx counts = counts ! idx # drop (Suc idx) counts" using Cons.prems by (simp add: Cons_nth_drop_Suc)
  have t: "take (Suc idx) counts = take idx counts @ [counts ! idx]" using Cons.prems by (simp add: take_Suc_conv_app_nth)
  show ?case
    using Cons.IH [of "counts[idx := counts ! idx + 1]" "Suc idx"] Cons.IH [of counts "Suc idx"] Cons.prems
    by (simp add: d t bump_def take_Suc_conv_app_nth)
qed (simp add: bump_def)

lemma length_bump [simp]: "length counts = length bvs \<Longrightarrow> length (bump bvs x counts) = length bvs"
  by (simp add: bump_def)

interpretation hst: exposed_metric histogram_ok "\<lambda>h. (metricBase.truncate h, Buckets h)" "\<lambda>(b, bvs). length (LabelKeys b)"
  histogram_val "Observe rnd" "histogram_upd rnd"
  hSeries hsLabelValues "\<lambda>s. (Counts s, Sum s, Count s)" for rnd
proof unfold_locales
  fix m :: Histogram and vs x assume "\<not> nul_free vs"
  then show "Observe rnd x vs m = Some m" by (auto simp: Observe_def validate_nul_free)
next
  fix m :: Histogram and vs x
  assume a: "histogram_ok m" "fits (case (metricBase.truncate m, Buckets m) of (b, bvs) \<Rightarrow> length (LabelKeys b)) vs"
  have f: "fits (length (LabelKeys m)) vs" using a(2) by (simp add: metricBase.truncate_def)
  let ?new = "\<lparr> hsLabelValues = vs, Counts = replicate (length (Buckets m)) 0, Sum = 0, Count = 0 \<rparr>"
  let ?f = "\<lambda>s. s \<lparr> Sum := rnd (Sum s + x), Count := Count s + 1, Counts := bump (Buckets m) x (Counts s) \<rparr>"
  let ?s = "case map_of (hSeries m) (labelKey vs) of None \<Rightarrow> ?new | Some s \<Rightarrow> s"
  have len: "length (Counts ?s) = length (Buckets m)"
    using a(1) by (auto simp: histogram_ok_def dest: map_of_SomeD split: option.split)
  then have cnt: "countBuckets x 0 (Buckets m) (Counts ?s) = Some (bump (Buckets m) x (Counts ?s))"
    by (simp add: countBuckets_bump)
  have obs: "Observe rnd x vs m = Some (m \<lparr> hSeries := updateSeries (labelKey vs) ?new ?f (hSeries m) \<rparr>)"
    using f cnt by (auto simp: Observe_def validate_nul_free fits_def updateSeries_def Let_def split: option.splits)
  note up = update_series [of "length (LabelKeys m)" hsLabelValues "hSeries m", OF _ f, of ?new ?f]
  have "\<forall>(k, s) \<in> set (updateSeries (labelKey vs) ?new ?f (hSeries m)). length (Counts s) = length (Buckets m)"
    using a(1) len by (auto simp: updateSeries_def mapPut_def histogram_ok_def split: option.splits)
  then show "\<exists>m'. Observe rnd x vs m = Some m' \<and> histogram_ok m' \<and> (metricBase.truncate m', Buckets m') = (metricBase.truncate m, Buckets m) \<and>
      (\<forall>us. fits (case (metricBase.truncate m, Buckets m) of (b, bvs) \<Rightarrow> length (LabelKeys b)) us \<longrightarrow>
        histogram_val m' us = (if us = vs then Some (histogram_upd rnd (metricBase.truncate m, Buckets m) x (histogram_val m vs)) else histogram_val m us))"
    using up a(1) unfolding obs
    by (auto simp: histogram_ok_def metricBase.truncate_def histogram_val_def split: option.split)
qed (simp_all add: histogram_ok_def histogram_val_def metricBase.truncate_def)

subsection \<open>What a metric exposes\<close>

lemma fold_sum: "foldl (\<lambda>s n. Some ((case s of None \<Rightarrow> 0 | Some k \<Rightarrow> k) + n)) (Some k) xs = Some (k + sum_list xs)"
  for k :: "64 word" by (induction xs arbitrary: k) (auto simp: add.assoc)

lemma fold_sum_None:
  "xs \<noteq> [] \<Longrightarrow> foldl (\<lambda>s n. Some ((case s of None \<Rightarrow> 0 | Some k \<Rightarrow> k) + n)) None xs = Some (sum_list xs :: 64 word)"
  by (cases xs) (simp_all add: fold_sum)

definition gaugeValue :: "gaugeOp list \<Rightarrow> 64 word" where
  "gaugeValue ops = foldl (\<lambda>v op. gauge_upd op (Some v)) 0 ops"

lemma fold_gauge: "ops \<noteq> [] \<Longrightarrow> foldl (\<lambda>s op. Some (gauge_upd op s)) None ops = Some (gaugeValue ops)"
proof -
  have "foldl (\<lambda>s op. Some (gauge_upd op s)) (Some v) ops = Some (foldl (\<lambda>v op. gauge_upd op (Some v)) v ops)" for v ops
    by (induction ops arbitrary: v) auto
  moreover have "gauge_upd op None = gauge_upd op (Some 0)" for op by (cases op) auto
  ultimately show "ops \<noteq> [] \<Longrightarrow> ?thesis" by (cases ops) (auto simp: gaugeValue_def)
qed

definition atMost :: "real \<Rightarrow> real list \<Rightarrow> 64 word" where
  "atMost ub xs = of_nat (length (filter (\<lambda>x. x \<le> ub) xs))"

lemma fold_histogram:
  "xs \<noteq> [] \<Longrightarrow> foldl (\<lambda>s x. Some (histogram_upd rnd (b, bvs) x s)) None xs =
     Some (map (\<lambda>ub. atMost ub xs) bvs, foldl (\<lambda>s x. rnd (s + x)) 0 xs, of_nat (length xs))"
proof (induction xs rule: rev_nonempty_induct)
  case (single x)
  have "bump bvs x (replicate (length bvs) 0) = map (\<lambda>ub. atMost ub [x]) bvs"
    by (induction bvs) (auto simp: bump_def atMost_def)
  then show ?case by simp
next
  case (snoc x xs)
  have "bump bvs x (map (\<lambda>ub. atMost ub xs) bvs) = map (\<lambda>ub. atMost ub (xs @ [x])) bvs"
    by (induction bvs) (auto simp: bump_def atMost_def)
  then show ?case using snoc by simp
qed

lemma mset_concat_map: "mset xs = mset ys \<Longrightarrow> mset (concat (map f xs)) = mset (concat (map f ys))"
  by (metis mset_concat mset_map sum_mset_sum_list)

text \<open>The lines of one histogram series with the observations \<open>xs\<close>.\<close>

definition histogramLines :: "(real \<Rightarrow> real) \<Rightarrow> (real \<Rightarrow> gostring) \<Rightarrow> gostring \<Rightarrow> real list \<Rightarrow> Labels \<Rightarrow> real list \<Rightarrow> gostring list" where
  "histogramLines rnd fmtG name bvs labels xs =
     map (\<lambda>ub. name @ lit ''_bucket'' @ StringWithExtra labels [(lit ''le'', fmtG ub)] @ lit '' '' @ FormatNat (unat (atMost ub xs))) bvs @
     [name @ lit ''_bucket'' @ StringWithExtra labels [(lit ''le'', lit ''+Inf'')] @ lit '' '' @ FormatNat (unat (of_nat (length xs) :: 64 word)),
      name @ lit ''_sum'' @ Labels_String labels @ lit '' '' @ fmtG (foldl (\<lambda>s x. rnd (s + x)) 0 xs),
      name @ lit ''_count'' @ Labels_String labels @ lit '' '' @ FormatNat (unat (of_nat (length xs) :: 64 word))]"

lemma bucketLines_map:
  "length counts = i + length bvs \<Longrightarrow> bucketLines fmtG name labels counts i bvs =
     Some (map2 (\<lambda>ub c. name @ lit ''_bucket'' @ StringWithExtra labels [(lit ''le'', fmtG ub)] @ lit '' '' @ FormatNat (unat c)) bvs (drop i counts))"
proof (induction bvs arbitrary: i)
  case (Cons ub bvs)
  have d: "drop i counts = counts ! i # drop (Suc i) counts" using Cons.prems by (simp add: Cons_nth_drop_Suc)
  show ?case using Cons.IH [of "Suc i"] Cons.prems by (simp add: d)
qed simp

lemma map2_map: "map2 f xs (map g xs) = map (\<lambda>x. f x (g x)) xs"
  by (induction xs) auto

lemma renderSeries_lines:
  assumes "Counts s = map (\<lambda>ub. atMost ub xs) (Buckets h)" "Sum s = foldl (\<lambda>s x. rnd (s + x)) 0 xs" "Count s = of_nat (length xs)"
  shows "renderSeries fmtG h (Some s) labels = Some (histogramLines rnd fmtG (mbName h) (Buckets h) labels xs)"
  using assms by (simp add: renderSeries_def bucketLines_map histogramLines_def map2_map Let_def)

lemma renderSeries_none: "renderSeries fmtG h None labels = Some (histogramLines rnd fmtG (mbName h) (Buckets h) labels [])"
proof -
  have "replicate (length (Buckets h)) 0 = map (\<lambda>ub. atMost ub []) (Buckets h)"
    by (simp add: atMost_def map_replicate_const)
  then show ?thesis by (simp add: renderSeries_def bucketLines_map histogramLines_def map2_map Let_def)
qed

lemma renderEach_lines:
  assumes "\<And>k s. (k, s) \<in> set es \<Longrightarrow> renderSeries fmtG h (Some s) (labelsFor h (hsLabelValues s)) = Some (L s)"
  shows "renderEach fmtG h es = Some (concat (map (L \<circ> snd) es))"
  using assms
proof (induction es)
  case (Cons e es)
  obtain k s where e: "e = (k, s)" by fastforce
  have "renderSeries fmtG h (Some s) (labelsFor h (hsLabelValues s)) = Some (L s)" by (rule Cons.prems [of k]) (simp add: e)
  moreover have "renderEach fmtG h es = Some (concat (map (L \<circ> snd) es))" using Cons.IH Cons.prems by (meson list.set_intros(2))
  ultimately show ?case by (simp add: e comp_def)
qed simp

text \<open>After any run of observations a counter exposes exactly one line for every combination of label
  values that was observed (zero bytes excepted, which are dropped), with the sum of the amounts added
  to it, modulo 2 to the 64; before the first observation it exposes one line with the value 0.
  The order of the map does not matter.\<close>

theorem counter_exposes_sums:
  assumes "permutes_keys ord" "\<forall>(n, vs) \<in> set obs. length vs = length keys"
  shows "\<exists>c. runAll counter_op obs (NewCounter name static keys) = Some c \<and>
    mset (Counter_Render ord c) =
      (if seen (length keys) obs = [] then {#name @ Labels_String static @ lit '' 0''#}
       else mset (map (\<lambda>vs. name @ Labels_String (labelsFor (NewCounter name static keys) vs) @ lit '' '' @
                          FormatNat (unat (sum_list (observedAt vs obs)))) (seen (length keys) obs)))"
proof -
  let ?c0 = "NewCounter name static keys" and ?S = "seen (length keys) obs"
  let ?F = "\<lambda>vs. name @ Labels_String (labelsFor ?c0 vs) @ lit '' '' @ FormatNat (unat (sum_list (observedAt vs obs)))"
  have c0: "counter_ok ?c0" "cSeries ?c0 = []" "(length \<circ> LabelKeys) (metricBase.truncate ?c0) = length keys"
    by (simp_all add: NewCounter_def counter_ok_def metricBase.truncate_def)
  let ?n = "(length \<circ> LabelKeys) (metricBase.truncate ?c0)"
  have ar: "\<forall>(n, vs) \<in> set obs. length vs = ?n" using assms(2) c0(3) by simp
  obtain c where c: "runAll counter_op obs ?c0 = Some c" "counter_ok c" "metricBase.truncate c = metricBase.truncate ?c0"
      "cSeries c = [] \<longleftrightarrow> seen ?n obs = []" "mset (map (csLabelValues \<circ> snd) (rangeMap ord (cSeries c))) = mset (seen ?n obs)"
    and v: "\<And>k e. (k, e) \<in> set (rangeMap ord (cSeries c)) \<Longrightarrow>
      foldl (\<lambda>s x. Some ((case s of None \<Rightarrow> 0 | Some k \<Rightarrow> k) + x)) None (observedAt (csLabelValues e) obs) = Some (csCount e) \<and>
      observedAt (csLabelValues e) obs \<noteq> []"
    using ctr.run_entries [OF c0(1,2) ar assms(1)] by blast
  have cnt: "csCount e = sum_list (observedAt (csLabelValues e) obs)" if "(k, e) \<in> set (rangeMap ord (cSeries c))" for k e
    using v [OF that] fold_sum_None [of "observedAt (csLabelValues e) obs"] by (metis option.inject)
  have base: "mbName c = name" "StaticLabels c = static" "LabelKeys c = keys"
    using c(3) by (simp_all add: metricBase.truncate_def NewCounter_def)
  have lf: "labelsFor c vs = labelsFor ?c0 vs" for vs by (simp add: labelsFor_def base NewCounter_def)
  have "Counter_Render ord c = map ?F (map (csLabelValues \<circ> snd) (rangeMap ord (cSeries c)))" if "?S \<noteq> []"
    using that c(4) cnt unfolding c0(3) by (auto simp: Counter_Render_def base lf)
  then show ?thesis using c(1,4,5) unfolding c0(3) by (auto simp: Counter_Render_def base mset_map simp del: map_map)
qed

text \<open>After any run of \<open>Set\<close> and \<open>Add\<close> a gauge exposes exactly one line for every combination of label
  values that was touched, with the value that the operations on it give in order (the last \<open>Set\<close> plus
  what was added since), as a signed number.\<close>

theorem gauge_exposes_values:
  assumes "permutes_keys ord" "\<forall>(x, vs) \<in> set ops. length vs = length keys"
  shows "\<exists>g. runAll gauge_op ops (NewGauge name static keys) = Some g \<and>
    mset (Gauge_Render ord g) =
      (if seen (length keys) ops = [] then {#name @ Labels_String static @ lit '' 0''#}
       else mset (map (\<lambda>vs. name @ Labels_String (labelsFor (NewGauge name static keys) vs) @ lit '' '' @
                          FormatInt (sint (gaugeValue (observedAt vs ops)))) (seen (length keys) ops)))"
proof -
  let ?g0 = "NewGauge name static keys" and ?S = "seen (length keys) ops"
  let ?F = "\<lambda>vs. name @ Labels_String (labelsFor ?g0 vs) @ lit '' '' @ FormatInt (sint (gaugeValue (observedAt vs ops)))"
  have g0: "gauge_ok ?g0" "gSeries ?g0 = []" "(length \<circ> LabelKeys) (metricBase.truncate ?g0) = length keys"
    by (simp_all add: NewGauge_def gauge_ok_def metricBase.truncate_def)
  let ?n = "(length \<circ> LabelKeys) (metricBase.truncate ?g0)"
  have ar: "\<forall>(x, vs) \<in> set ops. length vs = ?n" using assms(2) g0(3) by simp
  obtain g where g: "runAll gauge_op ops ?g0 = Some g" "gauge_ok g" "metricBase.truncate g = metricBase.truncate ?g0"
      "gSeries g = [] \<longleftrightarrow> seen ?n ops = []" "mset (map (gsLabelValues \<circ> snd) (rangeMap ord (gSeries g))) = mset (seen ?n ops)"
    and v: "\<And>k e. (k, e) \<in> set (rangeMap ord (gSeries g)) \<Longrightarrow>
      foldl (\<lambda>s x. Some (gauge_upd x s)) None (observedAt (gsLabelValues e) ops) = Some (gsValue e) \<and>
      observedAt (gsLabelValues e) ops \<noteq> []"
    using gge.run_entries [OF g0(1,2) ar assms(1)] by blast
  have val: "gsValue e = gaugeValue (observedAt (gsLabelValues e) ops)" if "(k, e) \<in> set (rangeMap ord (gSeries g))" for k e
    using v [OF that] fold_gauge [of "observedAt (gsLabelValues e) ops"] by (metis option.inject)
  have base: "mbName g = name" "StaticLabels g = static" "LabelKeys g = keys"
    using g(3) by (simp_all add: metricBase.truncate_def NewGauge_def)
  have lf: "labelsFor g vs = labelsFor ?g0 vs" for vs by (simp add: labelsFor_def base NewGauge_def)
  have "Gauge_Render ord g = map ?F (map (gsLabelValues \<circ> snd) (rangeMap ord (gSeries g)))" if "?S \<noteq> []"
    using that g(4) val unfolding g0(3) by (auto simp: Gauge_Render_def base lf)
  then show ?thesis using g(1,4,5) unfolding g0(3) by (auto simp: Gauge_Render_def base mset_map simp del: map_map)
qed

text \<open>After any run of observations a histogram renders without a panic and exposes, for every combination of
  label values observed, one line per bucket bound with the number of observations at most that bound,
  one for \<open>+Inf\<close> with the number of all observations, their rounded sum and their number; without
  observations it exposes zeros. The counts are modulo 2 to the 64.\<close>

theorem histogram_exposes_counts:
  assumes "permutes_keys ord" "\<forall>(x, vs) \<in> set obs. length vs = length keys"
  shows "\<exists>h lines. runAll (Observe rnd) obs (NewHistogram name buckets static keys) = Some h \<and>
    Histogram_Render fmtG ord h = Some lines \<and>
    mset lines =
      (if seen (length keys) obs = [] then mset (histogramLines rnd fmtG name buckets static [])
       else mset (concat (map (\<lambda>vs. histogramLines rnd fmtG name buckets (labelsFor (NewHistogram name buckets static keys) vs)
                                      (observedAt vs obs)) (seen (length keys) obs))))"
proof -
  let ?h0 = "NewHistogram name buckets static keys" and ?S = "seen (length keys) obs"
  let ?F = "\<lambda>vs. histogramLines rnd fmtG name buckets (labelsFor ?h0 vs) (observedAt vs obs)"
  let ?n = "case (metricBase.truncate ?h0, Buckets ?h0) of (b, bvs) \<Rightarrow> length (LabelKeys b)"
  have h0: "histogram_ok ?h0" "hSeries ?h0 = []" "?n = length keys"
    by (simp_all add: NewHistogram_def histogram_ok_def metricBase.truncate_def)
  have ar: "\<forall>(x, vs) \<in> set obs. length vs = ?n" using assms(2) h0(3) by simp
  obtain h where h: "runAll (Observe rnd) obs ?h0 = Some h" "histogram_ok h"
      "(metricBase.truncate h, Buckets h) = (metricBase.truncate ?h0, Buckets ?h0)"
      "hSeries h = [] \<longleftrightarrow> seen ?n obs = []" "mset (map (hsLabelValues \<circ> snd) (rangeMap ord (hSeries h))) = mset (seen ?n obs)"
    and v: "\<And>k e. (k, e) \<in> set (rangeMap ord (hSeries h)) \<Longrightarrow>
      foldl (\<lambda>s x. Some (histogram_upd rnd (metricBase.truncate ?h0, Buckets ?h0) x s)) None (observedAt (hsLabelValues e) obs) =
        Some (Counts e, Sum e, Count e) \<and> observedAt (hsLabelValues e) obs \<noteq> []"
    using hst.run_entries [OF h0(1,2) ar assms(1)] by blast
  have base: "mbName h = name" "StaticLabels h = static" "LabelKeys h = keys" "Buckets h = buckets"
    using h(3) by (simp_all add: metricBase.truncate_def NewHistogram_def)
  have lf: "labelsFor h vs = labelsFor ?h0 vs" for vs by (simp add: labelsFor_def base NewHistogram_def)
  have ser: "renderSeries fmtG h (Some e) (labelsFor h (hsLabelValues e)) = Some (?F (hsLabelValues e))"
    if "(k, e) \<in> set (rangeMap ord (hSeries h))" for k e
  proof -
    let ?xs = "observedAt (hsLabelValues e) obs"
    have "Counts e = map (\<lambda>ub. atMost ub ?xs) (Buckets h)" "Sum e = foldl (\<lambda>s x. rnd (s + x)) 0 ?xs" "Count e = of_nat (length ?xs)"
      using v [OF that] fold_histogram [of ?xs rnd "metricBase.truncate ?h0" "Buckets ?h0"] h(3) by auto
    then show ?thesis using renderSeries_lines [of e ?xs h rnd fmtG] by (simp add: base lf)
  qed
  have "renderEach fmtG h (rangeMap ord (hSeries h)) = Some (concat (map ?F (map (hsLabelValues \<circ> snd) (rangeMap ord (hSeries h)))))"
    using renderEach_lines [of "rangeMap ord (hSeries h)" fmtG h "?F \<circ> hsLabelValues"] ser by (simp add: comp_assoc)
  moreover have "mset (concat (map ?F (map (hsLabelValues \<circ> snd) (rangeMap ord (hSeries h))))) = mset (concat (map ?F ?S))"
    using h(5) unfolding h0(3) by (rule mset_concat_map)
  ultimately show ?thesis
    using h(1,4) renderSeries_none [of fmtG h static rnd] unfolding h0(3) by (auto simp: Histogram_Render_def base)
qed

subsection \<open>Reading a page\<close>

text \<open>A reader for the lines of the text format that the program writes: a name, optional labels in braces, a
  space and the value. Empty lines are skipped.\<close>

type_synonym sample = "gostring \<times> Labels \<times> gostring"

function readPairs :: "gostring \<Rightarrow> (Labels \<times> gostring) option" where
  "readPairs s =
     (let k = takeWhile (\<lambda>b. b \<noteq> 61) s; r = drop (length k) s
      in if take 2 r \<noteq> [61, 34] then None
         else (let v = takeWhile (\<lambda>b. b \<noteq> 34) (drop 2 r); r2 = drop (length v) (drop 2 r)
               in if take 2 r2 = [34, 44] then map_option (\<lambda>(ps, rest). ((k, v) # ps, rest)) (readPairs (drop 2 r2))
                  else if take 2 r2 = [34, 125] then Some ([(k, v)], drop 2 r2)
                  else None))"
  by pat_completeness auto
termination
proof (relation "measure length")
  fix s :: gostring and k r v r2
  assume "k = takeWhile (\<lambda>b. b \<noteq> 61) s" "r = drop (length k) s" "\<not> take 2 r \<noteq> [61, 34]"
    "v = takeWhile (\<lambda>b. b \<noteq> 34) (drop 2 r)" "r2 = drop (length v) (drop 2 r)" "take 2 r2 = [34, 44]"
  then have "r \<noteq> []" "length r \<le> length s" "length r2 \<le> length r - 2" by auto
  then show "(drop 2 r2, s) \<in> measure length" by (cases r) auto
qed simp

declare readPairs.simps [simp del]

definition readSample :: "gostring \<Rightarrow> sample option" where
  "readSample line =
     (let name = takeWhile (\<lambda>b. b \<noteq> 123 \<and> b \<noteq> 32) line; r = drop (length name) line
      in if take 1 r = [32] then Some (name, [], drop 1 r)
         else if take 1 r = [123] then
           (case readPairs (drop 1 r) of
              Some (ps, rest) \<Rightarrow> (if take 1 rest = [32] then Some (name, ps, drop 1 rest) else None)
            | None \<Rightarrow> None)
         else None)"

definition readPage :: "gostring \<Rightarrow> sample option list" where
  "readPage page = map readSample (filter (\<lambda>l. l \<noteq> []) (Split 10 page))"

definition plain_labels :: "Labels \<Rightarrow> bool" where
  "plain_labels lbs \<longleftrightarrow> list_all (\<lambda>(k, v). 61 \<notin> set k \<and> 10 \<notin> set k \<and> 34 \<notin> set v \<and> 10 \<notin> set v) lbs"

definition plain_sample :: "sample \<Rightarrow> bool" where
  "plain_sample x = (case x of (name, lbs, t) \<Rightarrow>
     123 \<notin> set name \<and> 32 \<notin> set name \<and> 10 \<notin> set name \<and> plain_labels lbs \<and> 10 \<notin> set t)"

definition sampleLine :: "sample \<Rightarrow> gostring" where
  "sampleLine x = (case x of (name, lbs, t) \<Rightarrow> name @ Labels_String lbs @ 32 # t)"

text \<open>The same sample with its labels in the order of the text.\<close>

definition canonical :: "sample \<Rightarrow> sample" where
  "canonical x = (case x of (name, lbs, t) \<Rightarrow> (name, sort_key labelPair lbs, t))"

lemma takeWhile_stop: "c \<notin> set xs \<Longrightarrow> takeWhile (\<lambda>b. b \<noteq> c) (xs @ c # ys) = xs"
  by (induction xs) auto

lemma labelPair_eq [simp]: "labelPair (k, v) = k @ 61 # 34 # v @ [34]"
  by (simp add: labelPair_def lit_def)

lemma readPairs_Join:
  "ps \<noteq> [] \<Longrightarrow> plain_labels ps \<Longrightarrow> readPairs (Join (lit '','') (map labelPair ps) @ 125 # rest) = Some (ps, rest)"
proof (induction ps)
  case (Cons p ps)
  obtain k v where p: "p = (k, v)" by fastforce
  have kv: "61 \<notin> set k" "34 \<notin> set v" "plain_labels ps" using Cons.prems p by (auto simp: plain_labels_def)
  show ?case
  proof (cases ps)
    case Nil
    have "readPairs (k @ 61 # 34 # v @ 34 # 125 # rest) = Some ([(k, v)], rest)"
      using kv takeWhile_stop [of 61 k] takeWhile_stop [of 34 v] by (subst readPairs.simps) (simp add: Let_def)
    then show ?thesis by (simp add: Nil p)
  next
    case (Cons q qs)
    let ?j = "Join (lit '','') (map labelPair ps) @ 125 # rest"
    have "readPairs (k @ 61 # 34 # v @ 34 # 44 # ?j) = Some ((k, v) # ps, rest)"
      using kv takeWhile_stop [of 61 k] takeWhile_stop [of 34 v] Cons.IH Cons
      by (subst readPairs.simps) (simp add: Let_def)
    then show ?thesis by (simp add: Cons p lit_def)
  qed
qed simp

lemma sort_map_key: "sort (map f xs) = map f (sort_key f xs)"
  by (rule properties_for_sort) simp_all

lemma labelsString_eq: "labelsString lbs extra = Labels_String (lbs @ extra)"
  by (simp add: labelsString_def Labels_String_def)

lemma Labels_String_eq:
  "Labels_String lbs = (if lbs = [] then [] else 123 # Join (lit '','') (map labelPair (sort_key labelPair lbs)) @ [125])"
  by (simp add: Labels_String_def labelsString_def sort_map_key) (simp add: lit_def)

lemma readSample_line: "plain_sample x \<Longrightarrow> readSample (sampleLine x) = Some (canonical x)"
proof -
  assume x: "plain_sample x"
  obtain name lbs t where e: "x = (name, lbs, t)" by (cases x) auto
  have n: "takeWhile (\<lambda>b. b \<noteq> 123 \<and> b \<noteq> 32) (name @ c # r) = name" if "c = 123 \<or> c = 32" for c r
    using x that by (auto simp: e plain_sample_def takeWhile_append)
  have pl: "plain_labels (sort_key labelPair lbs)" using x by (auto simp: e plain_sample_def plain_labels_def list_all_iff)
  show ?thesis
  proof (cases "lbs = []")
    case True
    then show ?thesis using n [of 32 t] by (simp add: e readSample_def sampleLine_def canonical_def Labels_String_eq)
  next
    case False
    then have "sort_key labelPair lbs \<noteq> []" by (metis length_0_conv length_sort)
    then show ?thesis
      using False n [of 123] readPairs_Join [OF _ pl, of "32 # t"]
      by (simp add: e readSample_def sampleLine_def canonical_def Labels_String_eq)
  qed
qed

lemma sampleLine_plain: "plain_sample x \<Longrightarrow> 10 \<notin> set (sampleLine x) \<and> sampleLine x \<noteq> []"
proof -
  assume x: "plain_sample x"
  obtain name lbs t where e: "x = (name, lbs, t)" by (cases x) auto
  have "10 \<notin> set (labelPair q)" if "q \<in> set lbs" for q
    using x that by (cases q) (auto simp: e plain_sample_def plain_labels_def list_all_iff)
  moreover have "10 \<notin> set (lit '','')" by (simp add: lit_def)
  ultimately have "10 \<notin> set (Join (lit '','') (map labelPair (sort_key labelPair lbs)))"
    using Join_bytes [of 10 "lit '',''" "map labelPair (sort_key labelPair lbs)"] by (auto simp del: labelPair_eq)
  then have "10 \<notin> set (Labels_String lbs)" by (simp add: Labels_String_eq)
  then show ?thesis using x by (auto simp: e sampleLine_def plain_sample_def)
qed

lemma readPage_lines:
  assumes "list_all plain_sample xs"
  shows "readPage (Join [10] (map sampleLine xs) @ [10]) = map (Some \<circ> canonical) xs"
proof (cases "xs = []")
  case True
  then show ?thesis by (simp add: readPage_def)
next
  case False
  have "Split 10 (Join [10] (map sampleLine xs) @ [10]) = map sampleLine xs @ [[]]"
    using False assms sampleLine_plain by (simp add: Split_append Split_Join list_all_iff)
  moreover have "filter (\<lambda>l. l \<noteq> []) (map sampleLine xs) = map sampleLine xs"
    using assms sampleLine_plain by (auto simp: list_all_iff intro!: filter_True)
  ultimately show ?thesis
    using assms readSample_line by (auto simp: readPage_def list_all_iff)
qed

text \<open>The samples that a metric stands for.\<close>

definition histogramSamples :: "(real \<Rightarrow> gostring) \<Rightarrow> Histogram \<Rightarrow> 64 word list \<times> real \<times> 64 word \<Rightarrow> Labels \<Rightarrow> sample list" where
  "histogramSamples fmtG h v labels = (case v of (counts, sm, n) \<Rightarrow>
     map2 (\<lambda>ub c. (mbName h @ lit ''_bucket'', labels @ [(lit ''le'', fmtG ub)], FormatNat (unat c))) (Buckets h) counts @
     [(mbName h @ lit ''_bucket'', labels @ [(lit ''le'', lit ''+Inf'')], FormatNat (unat n)),
      (mbName h @ lit ''_sum'', labels, fmtG sm),
      (mbName h @ lit ''_count'', labels, FormatNat (unat n))])"

fun samples :: "(real \<Rightarrow> gostring) \<Rightarrow> Metric \<Rightarrow> sample list" where
  "samples fmtG (MCounter c) =
     (if cSeries c = [] then [(mbName c, StaticLabels c, lit ''0'')]
      else map (\<lambda>(k, s). (mbName c, labelsFor c (csLabelValues s), FormatNat (unat (csCount s)))) (cSeries c))"
| "samples fmtG (MGauge g) =
     (if gSeries g = [] then [(mbName g, StaticLabels g, lit ''0'')]
      else map (\<lambda>(k, s). (mbName g, labelsFor g (gsLabelValues s), FormatInt (sint (gsValue s)))) (gSeries g))"
| "samples fmtG (MHistogram h) =
     (if hSeries h = [] then histogramSamples fmtG h (replicate (length (Buckets h)) 0, 0, 0) (StaticLabels h)
      else concat (map (\<lambda>e. histogramSamples fmtG h (Counts (snd e), Sum (snd e), Count (snd e)) (labelsFor h (hsLabelValues (snd e)))) (hSeries h)))"

fun metric_ok :: "Metric \<Rightarrow> bool" where
  "metric_ok (MCounter c) = counter_ok c"
| "metric_ok (MGauge g) = gauge_ok g"
| "metric_ok (MHistogram h) = histogram_ok h"

lemma renderSeries_samples:
  assumes "length counts = length (Buckets h)"
    "s = (if zero then None else Some \<lparr> hsLabelValues = vs, Counts = counts, Sum = sm, Count = n \<rparr>)"
    "zero \<Longrightarrow> counts = replicate (length (Buckets h)) 0 \<and> sm = 0 \<and> n = 0"
  shows "renderSeries fmtG h s labels = Some (map sampleLine (histogramSamples fmtG h (counts, sm, n) labels))"
  using assms by (cases zero)
    (auto simp: renderSeries_def bucketLines_map histogramSamples_def sampleLine_def StringWithExtra_def labelsString_eq Let_def
        lit_def case_prod_beta comp_def)

lemma Metric_Render_samples:
  assumes "metric_ok mtr" "permutes_keys ord"
  shows "\<exists>xs. Metric_Render fmtG ord mtr = Some (map sampleLine xs) \<and> mset xs = mset (samples fmtG mtr)"
proof (cases mtr)
  case (MCounter c)
  have r: "mset (rangeMap ord (cSeries c)) = mset (cSeries c)"
    using assms rangeMap_mset [OF assms(2), of "cSeries c"] by (simp add: MCounter counter_ok_def wf_series_def)
  let ?f = "\<lambda>(k, s). (mbName c, labelsFor c (csLabelValues s), FormatNat (unat (csCount s)))"
  let ?xs = "if cSeries c = [] then [(mbName c, StaticLabels c, lit ''0'')] else map ?f (rangeMap ord (cSeries c))"
  have "Counter_Render ord c = map sampleLine ?xs"
    by (simp add: Counter_Render_def sampleLine_def lit_def case_prod_beta)
  then have "Metric_Render fmtG ord mtr = Some (map sampleLine ?xs) \<and> mset ?xs = mset (samples fmtG mtr)" using r by (simp add: MCounter)
  then show ?thesis by blast
next
  case (MGauge g)
  have r: "mset (rangeMap ord (gSeries g)) = mset (gSeries g)"
    using assms rangeMap_mset [OF assms(2), of "gSeries g"] by (simp add: MGauge gauge_ok_def wf_series_def)
  let ?f = "\<lambda>(k, s). (mbName g, labelsFor g (gsLabelValues s), FormatInt (sint (gsValue s)))"
  let ?xs = "if gSeries g = [] then [(mbName g, StaticLabels g, lit ''0'')] else map ?f (rangeMap ord (gSeries g))"
  have "Gauge_Render ord g = map sampleLine ?xs"
    by (simp add: Gauge_Render_def sampleLine_def lit_def case_prod_beta)
  then have "Metric_Render fmtG ord mtr = Some (map sampleLine ?xs) \<and> mset ?xs = mset (samples fmtG mtr)" using r by (simp add: MGauge)
  then show ?thesis by blast
next
  case (MHistogram h)
  have r: "mset (rangeMap ord (hSeries h)) = mset (hSeries h)"
    using assms rangeMap_mset [OF assms(2), of "hSeries h"] by (simp add: MHistogram histogram_ok_def wf_series_def)
  let ?f = "\<lambda>s. histogramSamples fmtG h (Counts s, Sum s, Count s) (labelsFor h (hsLabelValues s))"
  have "renderSeries fmtG h (Some s) (labelsFor h (hsLabelValues s)) = Some (map sampleLine (?f s))"
    if "(k, s) \<in> set (rangeMap ord (hSeries h))" for k s
  proof -
    have "length (Counts s) = length (Buckets h)"
      using assms(1) that mset_eq_setD [OF r] by (auto simp: MHistogram histogram_ok_def)
    then show ?thesis by (intro renderSeries_samples [where zero = False and vs = "hsLabelValues s"]) simp_all
  qed
  then have "renderEach fmtG h (rangeMap ord (hSeries h)) = Some (map sampleLine (concat (map (?f \<circ> snd) (rangeMap ord (hSeries h)))))"
    using renderEach_lines [of "rangeMap ord (hSeries h)" fmtG h "map sampleLine \<circ> ?f"] by (simp add: map_concat comp_def)
  moreover have "mset (concat (map (?f \<circ> snd) (rangeMap ord (hSeries h)))) = mset (concat (map (?f \<circ> snd) (hSeries h)))"
    using r by (rule mset_concat_map)
  moreover have "renderSeries fmtG h None (StaticLabels h) =
      Some (map sampleLine (histogramSamples fmtG h (replicate (length (Buckets h)) 0, 0, 0) (StaticLabels h)))"
    by (rule renderSeries_samples [where zero = True]) simp_all
  ultimately show ?thesis by (auto simp: MHistogram Histogram_Render_def case_prod_beta comp_def)
qed

lemma renderMetrics_samples:
  assumes "\<forall>e \<in> set es. metric_ok (snd e)" "permutes_keys ord"
  shows "\<exists>xs. renderMetrics fmtG ord es = Some (map sampleLine xs) \<and> mset xs = mset (concat (map (samples fmtG \<circ> snd) es))"
  using assms(1)
proof (induction es)
  case (Cons e es)
  obtain ys where ys: "renderMetrics fmtG ord es = Some (map sampleLine ys)" "mset ys = mset (concat (map (samples fmtG \<circ> snd) es))"
    using Cons.IH Cons.prems by (meson list.set_intros(2))
  obtain xs where xs: "Metric_Render fmtG ord (snd e) = Some (map sampleLine xs)" "mset xs = mset (samples fmtG (snd e))"
    using Metric_Render_samples [OF _ assms(2)] Cons.prems by fastforce
  have "renderMetrics fmtG ord (e # es) = Some (map sampleLine (xs @ ys))" using xs ys by (cases e) simp
  moreover have "mset (xs @ ys) = mset (concat (map (samples fmtG \<circ> snd) (e # es)))" using xs ys by simp
  ultimately show ?case by blast
qed simp

text \<open>C28: The metrics page of a registry is always answered with status 200, and reading its lines back gives
  exactly the samples of the registered metrics, each once, labels included, in some order; provided the
  names, label keys and label values contain none of the characters that delimit them.\<close>

theorem metrics_page_reads_back:
  assumes "permutes_keys ord" "distinct (map fst (metrics m))" "\<forall>e \<in> set (metrics m). metric_ok (snd e)"
    "\<forall>e \<in> set (metrics m). list_all plain_sample (samples fmtG (snd e))"
  shows "\<exists>page. handleMetrics fmtG ord m = Some (200, lit ''text/plain; charset=utf-8'', page) \<and>
    mset (readPage page) = mset (map (Some \<circ> canonical) (concat (map (samples fmtG \<circ> snd) (metrics m))))"
proof -
  have r: "mset (rangeMap ord (metrics m)) = mset (metrics m)" by (rule rangeMap_mset [OF assms(1,2)])
  then have set: "set (rangeMap ord (metrics m)) = set (metrics m)" by (rule mset_eq_setD)
  obtain xs where xs: "RenderAll fmtG ord m = Some (map sampleLine xs)"
      "mset xs = mset (concat (map (samples fmtG \<circ> snd) (rangeMap ord (metrics m))))"
    using renderMetrics_samples [of "rangeMap ord (metrics m)" ord fmtG] assms(1,3) set by (auto simp: RenderAll_def)
  have eq: "mset xs = mset (concat (map (samples fmtG \<circ> snd) (metrics m)))" using xs(2) mset_concat_map [OF r] by metis
  then have "list_all plain_sample xs" using assms(4) mset_eq_setD [OF eq] by (auto simp: list_all_iff)
  then have "readPage (Join [10] (map sampleLine xs) @ [10]) = map (Some \<circ> canonical) xs" by (rule readPage_lines)
  then have "mset (readPage (Join [10] (map sampleLine xs) @ [10])) = mset (map (Some \<circ> canonical) (concat (map (samples fmtG \<circ> snd) (metrics m))))"
    using eq by (simp only: mset_map)
  then show ?thesis using xs(1) by (auto simp: handleMetrics_def)
qed

subsection \<open>Examples\<close>

lemma permutes_id: "permutes_keys (\<lambda>ks. ks)"
  by (simp add: permutes_keys_def)

theorem counter_exposes_sums_witness:
  "\<exists>c. runAll counter_op [(2, [lit ''a'']), (1, [[0]]), (3, [lit ''a''])] (NewCounter (lit ''n'') [] [lit ''k'']) = Some c \<and>
     mset (Counter_Render (\<lambda>ks. ks) c) = {#lit ''n{k='' @ [34] @ lit ''a'' @ [34] @ lit ''} 5''#}"
proof -
  let ?obs = "[(2, [lit ''a'']), (1, [[0]]), (3, [lit ''a''])] :: (64 word \<times> gostring list) list"
  let ?c = "NewCounter (lit ''n'') [] [lit ''k'']"
  have "seen (length [lit ''k'']) ?obs = [[lit ''a'']]" by (simp add: seen_def fits_def nul_free_def lit_def)
  moreover have "observedAt [lit ''a''] ?obs = [2, 3]" by (simp add: lit_def)
  moreover have "lit ''n'' @ Labels_String (labelsFor ?c [lit ''a'']) @ lit '' '' @ FormatNat (unat (sum_list [2, 3] :: 64 word)) =
      lit ''n{k='' @ [34] @ lit ''a'' @ [34] @ lit ''} 5''" by code_simp
  ultimately show ?thesis
    using counter_exposes_sums [OF permutes_id, of ?obs "[lit ''k'']" "lit ''n''" "[]"] by simp
qed

theorem gauge_exposes_values_witness:
  "\<exists>g. runAll gauge_op [(SetTo 7, [lit ''a'']), (AddTo (- 9), [lit ''a''])] (NewGauge (lit ''n'') [] [lit ''k'']) = Some g \<and>
     mset (Gauge_Render (\<lambda>ks. ks) g) = {#lit ''n{k='' @ [34] @ lit ''a'' @ [34] @ lit ''} -2''#}"
proof -
  let ?ops = "[(SetTo 7, [lit ''a'']), (AddTo (- 9), [lit ''a''])]"
  let ?g = "NewGauge (lit ''n'') [] [lit ''k'']"
  have "seen (length [lit ''k'']) ?ops = [[lit ''a'']]" by (simp add: seen_def fits_def nul_free_def lit_def)
  moreover have "observedAt [lit ''a''] ?ops = [SetTo 7, AddTo (- 9)]" by simp
  moreover have "lit ''n'' @ Labels_String (labelsFor ?g [lit ''a'']) @ lit '' '' @ FormatInt (sint (gaugeValue [SetTo 7, AddTo (- 9)])) =
      lit ''n{k='' @ [34] @ lit ''a'' @ [34] @ lit ''} -2''" by code_simp
  ultimately show ?thesis
    using gauge_exposes_values [OF permutes_id, of ?ops "[lit ''k'']" "lit ''n''" "[]"] by simp
qed

theorem histogram_exposes_counts_witness:
  "\<exists>h lines. runAll (Observe (\<lambda>x. x)) [(1, []), (3, [])] (NewHistogram (lit ''n'') [2] [] []) = Some h \<and>
     Histogram_Render (\<lambda>x. lit ''x'') (\<lambda>ks. ks) h = Some lines \<and>
     lit ''n_bucket{le='' @ [34] @ lit ''x'' @ [34] @ lit ''} 1'' \<in> set lines"
proof -
  let ?obs = "[(1, []), (3, [])] :: (real \<times> gostring list) list"
  let ?h = "NewHistogram (lit ''n'') [2] [] []"
  have s: "seen 0 ?obs = [[]]" by (simp add: seen_def fits_def nul_free_def)
  have "lit ''n'' @ lit ''_bucket'' @ StringWithExtra [] [(lit ''le'', lit ''x'')] @ lit '' '' @ FormatNat (unat (1 :: 64 word)) =
      lit ''n_bucket{le='' @ [34] @ lit ''x'' @ [34] @ lit ''} 1''" by code_simp
  then have "lit ''n_bucket{le='' @ [34] @ lit ''x'' @ [34] @ lit ''} 1'' \<in>
      set (histogramLines (\<lambda>x. x) (\<lambda>x. lit ''x'') (lit ''n'') [2] (labelsFor ?h []) [1, 3])"
    by (simp add: histogramLines_def atMost_def labelsFor_def NewHistogram_def)
  then show ?thesis
    using histogram_exposes_counts [OF permutes_id, of ?obs "[]" "\<lambda>x. x" "lit ''n''" "[2]" "[]" "\<lambda>x. lit ''x''"] s
    by (fastforce dest: mset_eq_setD)
qed

text \<open>A registry with one counter that counted one request.\<close>

definition sample_registry :: Metrics where
  "sample_registry = snd (Register (lit ''n'') (MCounter (Counter_Inc [lit ''a''] (NewCounter (lit ''n'') [] [lit ''k'']))) NewMetrics)"

theorem metrics_page_reads_back_witness:
  "\<exists>page. handleMetrics (\<lambda>x. lit ''x'') (\<lambda>ks. ks) sample_registry = Some (200, lit ''text/plain; charset=utf-8'', page) \<and>
     mset (readPage page) = {#Some (lit ''n'', [(lit ''k'', lit ''a'')], lit ''1'')#}"
proof -
  let ?c = "\<lparr> mbName = lit ''n'', StaticLabels = [], LabelKeys = [lit ''k''],
      cSeries = [(lit ''a'', \<lparr> csLabelValues = [lit ''a''], csCount = 1 \<rparr>)] \<rparr>"
  have c: "Counter_Inc [lit ''a''] (NewCounter (lit ''n'') [] [lit ''k'']) = ?c" by code_simp
  have m: "metrics sample_registry = [(lit ''n'', MCounter ?c)]"
    by (simp add: sample_registry_def c Register_def NewMetrics_def mapHas_def mapPut_def)
  have "labelsFor ?c [lit ''a''] = [(lit ''k'', lit ''a'')]" "FormatNat (unat (1 :: 64 word)) = lit ''1''" by (code_simp)+
  then have smp: "samples (\<lambda>x. lit ''x'') (MCounter ?c) = [(lit ''n'', [(lit ''k'', lit ''a'')], lit ''1'')]" by (simp del: unat_1)
  have "counter_ok ?c" by (simp add: counter_ok_def wf_series_def labelKey_def fits_def nul_free_def lit_def)
  moreover have "list_all plain_sample (samples (\<lambda>x. lit ''x'') (MCounter ?c))"
    unfolding smp by (simp add: plain_sample_def plain_labels_def lit_def)
  ultimately show ?thesis
    using metrics_page_reads_back [OF permutes_id, of sample_registry "\<lambda>x. lit ''x''"] 
    by (simp add: m smp canonical_def del: samples.simps)
qed

text \<open>Label values are written as they are: a value with a quotation mark reads as further labels.\<close>

theorem label_values_not_escaped:
  "readSample (mbName c @ Labels_String (labelsFor c [lit ''a'' @ [34] @ lit '',x='' @ [34] @ lit ''b'']) @ lit '' 1'') =
     Some (lit ''n'', [(lit ''k'', lit ''a''), (lit ''x'', lit ''b'')], lit ''1'')"
  if "c = NewCounter (lit ''n'') [] [lit ''k'']"
  unfolding that by code_simp

end
