(* ===== verification/K8s_API.thy ===== *)
theory K8s_API
  imports Go_Base Base32_Hex
begin

text \<open>
  Addressing resources of the Kubernetes API: \<open>internal/k8s/api/params.go\<close>, \<open>registry.go\<close>,
  \<open>k8s/resources/base/resource.go\<close>, \<open>k8s/env/env.go\<close> and the registrations of \<open>crd/crd.go\<close>.

  \<open>path.Clean\<close> and \<open>path.Join\<close> are modelled; parsing and printing of URLs (\<open>net/url\<close>) is the
  parameter \<open>url_lib\<close> with the law \<open>url_laws\<close>: a URL that was parsed, with its path and query
  replaced, is parsed back from its text, a missing slash in front of the path added. A query is an
  association list sorted by key, the form in which \<open>Values.Encode\<close> writes it; every key has one
  value, since the program only uses \<open>Values.Set\<close>. A Go type that is registered is named by a string.
\<close>

subsection \<open>Paths\<close>

definition slash :: byte where "slash = 47"

fun cleanLoop :: "bool \<Rightarrow> gostring list \<Rightarrow> gostring list \<Rightarrow> gostring list" where
  "cleanLoop rooted st [] = rev st"
| "cleanLoop rooted st (c # cs) =
     (if c = [] \<or> c = lit ''.'' then cleanLoop rooted st cs
      else if c = lit ''..'' then
        (case st of
           [] \<Rightarrow> if rooted then cleanLoop rooted [] cs else cleanLoop rooted [c] cs
         | t # ts \<Rightarrow> if t = lit ''..'' then cleanLoop rooted (c # st) cs else cleanLoop rooted ts cs)
      else cleanLoop rooted (c # st) cs)"

definition pathClean :: "gostring \<Rightarrow> gostring" where
  "pathClean p =
     (if p = [] then lit ''.''
      else (let rooted = (hd p = slash); s = Join [slash] (cleanLoop rooted [] (Split slash p))
            in if rooted then slash # s else if s = [] then lit ''.'' else s))"

definition pathJoin :: "gostring list \<Rightarrow> gostring" where
  "pathJoin elems = (if list_all (\<lambda>e. e = []) elems then [] else pathClean (Join [slash] (dropWhile (\<lambda>e. e = []) elems)))"

subsection \<open>URLs\<close>

record URL =
  uScheme :: gostring
  uHost :: gostring
  uPath :: gostring
  uQuery :: "(gostring \<times> gostring) list"

record url_lib =
  urlParse :: "gostring \<Rightarrow> URL option"
  urlString :: "URL \<Rightarrow> gostring"

text \<open>\<open>Values.Set\<close>.\<close>

fun setQuery :: "gostring \<Rightarrow> gostring \<Rightarrow> (gostring \<times> gostring) list \<Rightarrow> (gostring \<times> gostring) list" where
  "setQuery k v [] = [(k, v)]"
| "setQuery k v ((k', v') # q) =
     (if k < k' then (k, v) # (k', v') # q else if k = k' then (k, v) # q else (k', v') # setQuery k v q)"

definition rooted :: "URL \<Rightarrow> URL" where
  "rooted u = (if uPath u \<noteq> [] \<and> hd (uPath u) \<noteq> slash \<and> uHost u \<noteq> [] then u \<lparr> uPath := slash # uPath u \<rparr> else u)"

definition url_laws :: "url_lib \<Rightarrow> bool" where
  "url_laws ul \<longleftrightarrow> (\<forall>s u p q. urlParse ul s = Some u \<longrightarrow>
     urlParse ul (urlString ul (u \<lparr> uPath := p, uQuery := q \<rparr>)) = Some (rooted (u \<lparr> uPath := p, uQuery := q \<rparr>)))"

subsection \<open>Request parameters\<close>

record ApiRequestParams =
  apGroup :: gostring
  apVersion :: gostring
  apNamespace :: gostring
  apResourceType :: gostring
  apName :: gostring
  apWatch :: bool
  apLabelSelector :: "gostring list"
  apFieldSelector :: "gostring list"
  apFieldManager :: gostring

datatype k8s_error = ErrUrlFormat | ErrIllegalApiRequestParam gostring | BadRequest | RequestFailed
  | ErrBadStatusCode int | ReadBodyFailed | MarshalFailed | UnmarshalFailed | NoResults | NotRegistered gostring
  | ErrK8sApiBadEnv gostring

definition pathParts :: "ApiRequestParams \<Rightarrow> gostring list" where
  "pathParts rp =
     (if apGroup rp \<noteq> [] then [lit ''apis'', apGroup rp] else [lit ''api'']) @ [apVersion rp]
     @ (if apNamespace rp \<noteq> [] then [lit ''namespaces'', apNamespace rp] else [])
     @ [apResourceType rp] @ (if apName rp \<noteq> [] then [apName rp] else [])"

definition queryParts :: "ApiRequestParams \<Rightarrow> (gostring \<times> gostring) list \<Rightarrow> (gostring \<times> gostring) list" where
  "queryParts rp q0 =
     (let q1 = (if apWatch rp then setQuery (lit ''watch'') (lit ''true'') q0 else q0);
          q2 = (if 0 < length (apLabelSelector rp) then setQuery (lit ''labelSelector'') (Join (lit '','') (apLabelSelector rp)) q1 else q1);
          q3 = (if 0 < length (apFieldSelector rp) then setQuery (lit ''fieldSelector'') (Join (lit '','') (apFieldSelector rp)) q2 else q2)
      in if apFieldManager rp \<noteq> [] then setQuery (lit ''fieldManager'') (apFieldManager rp) q3 else q3)"

definition params_URL :: "url_lib \<Rightarrow> ApiRequestParams \<Rightarrow> gostring \<Rightarrow> k8s_error + gostring" where
  "params_URL ul rp apiURL =
     (case urlParse ul apiURL of
        None \<Rightarrow> Inl ErrUrlFormat
      | Some u \<Rightarrow>
          (if apVersion rp = [] then Inl (ErrIllegalApiRequestParam (lit ''Version''))
           else if apResourceType rp = [] then Inl (ErrIllegalApiRequestParam (lit ''ResourceType''))
           else Inr (urlString ul (u \<lparr> uPath := pathJoin [uPath u, pathJoin (pathParts rp)], uQuery := queryParts rp (uQuery u) \<rparr>))))"

subsection \<open>The registry of resource types\<close>

record ResourceMeta =
  rmGroup :: gostring
  rmVersion :: gostring
  rmKind :: gostring
  rmResourceType :: gostring
  rmNamespace :: gostring

definition APIVersion :: "ResourceMeta \<Rightarrow> gostring" where
  "APIVersion m = (if rmGroup m = [] then rmVersion m else rmGroup m @ lit ''/'' @ rmVersion m)"

definition ToParams :: "ResourceMeta \<Rightarrow> ApiRequestParams" where
  "ToParams m = \<lparr> apGroup = rmGroup m, apVersion = rmVersion m, apNamespace = rmNamespace m, apResourceType = rmResourceType m,
     apName = [], apWatch = False, apLabelSelector = [], apFieldSelector = [], apFieldManager = [] \<rparr>"

type_synonym registry = "(gostring \<times> ResourceMeta) list"

definition RegisterSpec :: "gostring \<Rightarrow> ResourceMeta \<Rightarrow> registry \<Rightarrow> registry" where
  "RegisterSpec t meta reg = mapPut t meta reg"

definition MetaFor :: "gostring \<Rightarrow> registry \<Rightarrow> ResourceMeta option" where
  "MetaFor t reg = map_of reg t"

definition ParamsFor :: "gostring \<Rightarrow> registry \<Rightarrow> k8s_error + ApiRequestParams" where
  "ParamsFor t reg = (case MetaFor t reg of None \<Rightarrow> Inl (NotRegistered t) | Some meta \<Rightarrow> Inr (ToParams meta))"

text \<open>The registrations that the package \<open>crd\<close> makes when it is loaded.\<close>

definition crd_init :: "registry \<Rightarrow> registry" where
  "crd_init reg =
     RegisterSpec (lit ''crd.DNSConfigSpec'')
       \<lparr> rmGroup = lit ''xfx1.de'', rmVersion = lit ''v2'', rmKind = lit ''DNSConfig'', rmResourceType = lit ''dnsconfigs'', rmNamespace = [] \<rparr>
       (RegisterSpec (lit ''rec.RR'')
          \<lparr> rmGroup = lit ''xfx1.de'', rmVersion = lit ''v2'', rmKind = lit ''DNSRecord'', rmResourceType = lit ''dnsrecords'', rmNamespace = [] \<rparr> reg)"

subsection \<open>Objects\<close>

record Metadata =
  mdName :: gostring
  mdNamespace :: gostring
  mdUID :: gostring
  mdLabels :: "(gostring \<times> gostring) list"
  mdAnnotations :: "(gostring \<times> gostring) list"

record 't Object =
  oAPIVersion :: gostring
  oKind :: gostring
  oMetadata :: Metadata
  oSpec :: 't

text \<open>\<open>None\<close> is the panic for a type that is not registered.\<close>

definition NewObjectWithMetadata :: "registry \<Rightarrow> gostring \<Rightarrow> Metadata \<Rightarrow> 't \<Rightarrow> 't Object go" where
  "NewObjectWithMetadata reg t md spec =
     (case MetaFor t reg of
        None \<Rightarrow> None
      | Some meta \<Rightarrow>
          (let md' = (if mdNamespace md = [] \<and> rmNamespace meta \<noteq> [] then md \<lparr> mdNamespace := rmNamespace meta \<rparr> else md)
           in Some \<lparr> oAPIVersion = APIVersion meta, oKind = rmKind meta, oMetadata = md', oSpec = spec \<rparr>))"

definition NewObject :: "registry \<Rightarrow> gostring \<Rightarrow> gostring \<Rightarrow> gostring \<Rightarrow> 't \<Rightarrow> 't Object go" where
  "NewObject reg t name namespace spec =
     (case MetaFor t reg of
        None \<Rightarrow> None
      | Some meta \<Rightarrow>
          (let ns = (if namespace = [] \<and> rmNamespace meta \<noteq> [] then rmNamespace meta else namespace)
           in Some \<lparr> oAPIVersion = APIVersion meta, oKind = rmKind meta,
                     oMetadata = \<lparr> mdName = name, mdNamespace = ns, mdUID = [], mdLabels = [], mdAnnotations = [] \<rparr>, oSpec = spec \<rparr>))"

text \<open>The address of the API server in a pod; \<open>getenv\<close> gives the empty string for an unset variable.\<close>

definition KubeApiFromEnv :: "(gostring \<Rightarrow> gostring) \<Rightarrow> k8s_error + gostring" where
  "KubeApiFromEnv getenv =
     (let host = getenv (lit ''KUBERNETES_SERVICE_HOST''); port = getenv (lit ''KUBERNETES_SERVICE_PORT'')
      in if host = [] then Inl (ErrK8sApiBadEnv (lit ''KUBERNETES_SERVICE_HOST''))
         else if port = [] then Inl (ErrK8sApiBadEnv (lit ''KUBERNETES_SERVICE_PORT''))
         else Inr (lit ''https://'' @ host @ lit '':'' @ port))"

subsection \<open>Plain segments survive\<close>

definition plain_segment :: "gostring \<Rightarrow> bool" where
  "plain_segment s \<longleftrightarrow> s \<noteq> [] \<and> slash \<notin> set s \<and> s \<noteq> lit ''.'' \<and> s \<noteq> lit ''..''"

lemma cleanLoop_plain: "list_all plain_segment cs \<Longrightarrow> cleanLoop r st cs = rev st @ cs"
  by (induction cs arbitrary: st) (auto simp: plain_segment_def)

lemma Join_nonempty: "ss \<noteq> [] \<Longrightarrow> list_all plain_segment ss \<Longrightarrow> Join [slash] ss \<noteq> [] \<and> hd (Join [slash] ss) \<noteq> slash"
proof (cases ss)
  case (Cons s ss')
  moreover assume "list_all plain_segment ss"
  ultimately obtain b bs where "s = b # bs" "b \<noteq> slash" by (cases s) (auto simp: plain_segment_def)
  then show ?thesis using Cons by (cases ss') auto
qed simp

lemma Split_segments: "ss \<noteq> [] \<Longrightarrow> list_all plain_segment ss \<Longrightarrow> Split slash (Join [slash] ss) = ss"
  by (rule Split_Join) (auto simp: plain_segment_def list_all_iff)

lemma pathJoin_segments:
  assumes "ss \<noteq> []" "list_all plain_segment ss" shows "pathJoin ss = Join [slash] ss"
proof -
  have "dropWhile (\<lambda>e. e = []) ss = ss" "\<not> list_all (\<lambda>e. e = []) ss" using assms by (cases ss; auto simp: plain_segment_def)+
  then show ?thesis
    using Join_nonempty [OF assms] Split_segments [OF assms] cleanLoop_plain [OF assms(2)] by (simp add: pathJoin_def pathClean_def)
qed

text \<open>The outer \<open>path.Join\<close> with the path of the server address, which is empty or the root.\<close>

lemma pathJoin_root:
  assumes "ss \<noteq> []" "list_all plain_segment ss" "base = [] \<or> base = [slash]"
  shows "pathJoin [base, Join [slash] ss] = base @ Join [slash] ss"
proof -
  let ?j = "Join [slash] ss"
  note n = Join_nonempty [OF assms(1,2)]
  have "pathClean (slash # slash # ?j) = slash # ?j"
    using Split_segments [OF assms(1,2)] cleanLoop_plain [OF assms(2)] by (simp add: pathClean_def)
  moreover have "pathClean ?j = ?j" using n Split_segments [OF assms(1,2)] cleanLoop_plain [OF assms(2)] by (simp add: pathClean_def)
  ultimately show ?thesis using assms(3) n by (auto simp: pathJoin_def)
qed

definition plain_params :: "ApiRequestParams \<Rightarrow> bool" where
  "plain_params p \<longleftrightarrow> plain_segment (apVersion p) \<and> plain_segment (apResourceType p) \<and>
     (\<forall>s \<in> {apGroup p, apNamespace p, apName p}. s = [] \<or> plain_segment s)"

definition same_resource :: "ApiRequestParams \<Rightarrow> ApiRequestParams \<Rightarrow> bool" where
  "same_resource p q \<longleftrightarrow> apGroup p = apGroup q \<and> apVersion p = apVersion q \<and> apNamespace p = apNamespace q \<and>
     apResourceType p = apResourceType q \<and> apName p = apName q"

definition server_address :: "url_lib \<Rightarrow> gostring \<Rightarrow> URL \<Rightarrow> bool" where
  "server_address ul api u \<longleftrightarrow> urlParse ul api = Some u \<and> uHost u \<noteq> [] \<and> (uPath u = [] \<or> uPath u = [slash])"

lemma pathParts_plain: "plain_params p \<Longrightarrow> pathParts p \<noteq> [] \<and> list_all plain_segment (pathParts p)"
  by (auto simp: pathParts_def plain_params_def plain_segment_def lit_def slash_def)

lemma pathParts_inj: "pathParts p = pathParts q \<Longrightarrow> same_resource p q"
  by (auto simp: pathParts_def same_resource_def lit_def split: if_splits)

definition resourceURL :: "URL \<Rightarrow> ApiRequestParams \<Rightarrow> URL" where
  "resourceURL u p = u \<lparr> uPath := slash # Join [slash] (pathParts p), uQuery := queryParts p (uQuery u) \<rparr>"

lemma params_URL_parses:
  assumes "url_laws ul" "server_address ul api u" "plain_params p"
  obtains s where "params_URL ul p api = Inr s" "urlParse ul s = Some (resourceURL u p)"
proof -
  note pp = pathParts_plain [OF assms(3)]
  let ?j = "Join [slash] (pathParts p)"
  let ?u = "u \<lparr> uPath := uPath u @ ?j, uQuery := queryParts p (uQuery u) \<rparr>"
  have "apVersion p \<noteq> []" "apResourceType p \<noteq> []" using assms(3) by (auto simp: plain_params_def plain_segment_def)
  then have "params_URL ul p api = Inr (urlString ul ?u)"
    using assms(2) pp pathJoin_segments pathJoin_root by (auto simp: params_URL_def server_address_def)
  moreover have "urlParse ul (urlString ul ?u) = Some (rooted ?u)"
    using assms(1,2) unfolding url_laws_def server_address_def by blast
  moreover have "rooted ?u = resourceURL u p"
    using assms(2) Join_nonempty [of "pathParts p"] pp by (auto simp: rooted_def server_address_def resourceURL_def)
  ultimately show thesis using that by simp
qed


subsection \<open>An instance of the URL functions\<close>

fun flatten :: "(gostring \<times> gostring) list \<Rightarrow> gostring list" where
  "flatten [] = []"
| "flatten ((k, v) # q) = k # v # flatten q"

fun unflatten :: "gostring list \<Rightarrow> (gostring \<times> gostring) list" where
  "unflatten (k # v # r) = (k, v) # unflatten r"
| "unflatten r = []"

definition sample_url_lib :: url_lib where
  "sample_url_lib =
     \<lparr> urlParse = (\<lambda>s. case map (\<lambda>t. the (DecodeString t)) (Split dot s) of
          a # b # c # q \<Rightarrow> Some (rooted \<lparr> uScheme = a, uHost = b, uPath = c, uQuery = unflatten q \<rparr>)
        | _ \<Rightarrow> None),
       urlString = (\<lambda>u. Join [dot] (map EncodeToString (uScheme u # uHost u # uPath u # flatten (uQuery u)))) \<rparr>"

lemma unflatten_flatten: "unflatten (flatten q) = q"
  by (induction q rule: flatten.induct) auto

lemma sample_url_String: "urlParse sample_url_lib (urlString sample_url_lib u) = Some (rooted u)"
proof -
  let ?l = "uScheme u # uHost u # uPath u # flatten (uQuery u)"
  have "dot \<notin> set (EncodeToString s)" for s
    using encoded_no_dot [of s] lower_byte_dot by (metis image_eqI list.set_map)
  then have "Split dot (Join [dot] (map EncodeToString ?l)) = map EncodeToString ?l" by (intro Split_Join) auto
  moreover have "rooted \<lparr> uScheme = uScheme u, uHost = uHost u, uPath = uPath u, uQuery = uQuery u \<rparr> = rooted u" by (cases u) simp
  ultimately show ?thesis by (simp add: sample_url_lib_def Decode_Encode unflatten_flatten comp_def del: Join.simps)
qed

lemma sample_url_laws: "url_laws sample_url_lib"
  unfolding url_laws_def by (simp add: sample_url_String)

definition sample_server :: URL where
  "sample_server = \<lparr> uScheme = lit ''https'', uHost = lit ''10.0.0.1:443'', uPath = [], uQuery = [] \<rparr>"

definition sample_api :: gostring where
  "sample_api = urlString sample_url_lib sample_server"

lemma sample_server_address: "server_address sample_url_lib sample_api sample_server"
  using sample_url_String [of sample_server] by (simp add: server_address_def sample_api_def sample_server_def rooted_def lit_def)

definition record_params :: "gostring \<Rightarrow> gostring \<Rightarrow> ApiRequestParams" where
  "record_params ns name =
     \<lparr> apGroup = lit ''xfx1.de'', apVersion = lit ''v2'', apNamespace = ns, apResourceType = lit ''dnsrecords'', apName = name,
       apWatch = False, apLabelSelector = [], apFieldSelector = [], apFieldManager = [] \<rparr>"

lemma record_params_plain: "ns = [] \<or> plain_segment ns \<Longrightarrow> name = [] \<or> plain_segment name \<Longrightarrow> plain_params (record_params ns name)"
  by (auto simp: plain_params_def record_params_def plain_segment_def lit_def slash_def)


end
