(* ===== verification/K8s_Client.thy ===== *)
theory K8s_Client
  imports K8s_API DNSSEC_Keys
begin

text \<open>
  The Kubernetes client of \<open>internal/k8s/client\<close>: requests (\<open>client.go\<close>, \<open>ping.go\<close>, \<open>const.go\<close>), single and
  paginated exchanges (\<open>do.go\<close>), queries (\<open>query.go\<close>), server-side apply (\<open>apply.go\<close>) and deletion
  (\<open>delete.go\<close>).

  The HTTP transport \<open>Doer\<close> is a field of the client, a function over a type of states of the outside
  world; it answers with a response or fails, and nothing is assumed of it here. Decoding and encoding of
  JSON are parameters. Following the continue tokens of the server may go on for ever, so
  \<open>doPaginated\<close> is a partial function, with \<open>None\<close> for a run that does not end;
  \<open>fetched\<close> describes the exchanges of a complete run, and \<open>QueryApi_exact\<close> shows that a query
  succeeds exactly after such a run, with the items of all its pages.
\<close>

subsection \<open>Requests and responses\<close>

record HttpRequest =
  rqMethod :: gostring
  rqURL :: URL
  rqHeaders :: "(gostring \<times> gostring) list"
  rqBody :: bytes

text \<open>\<open>rsContinue\<close> is the header \<open>Continue\<close>, empty when it is missing; \<open>rsBody\<close> is \<open>None\<close> when reading fails.\<close>

record HttpResponse =
  rsStatus :: int
  rsContinue :: gostring
  rsBody :: "bytes option"

record 'w Client =
  Doer :: "HttpRequest \<Rightarrow> 'w \<Rightarrow> HttpResponse option \<times> 'w"
  apiURL :: gostring
  apiToken :: bytes

text \<open>\<open>jsonItems\<close>: the field \<open>items\<close> of a list, \<open>Some None\<close> when it is null or missing; \<open>jsonContinue\<close>: the
  token in \<open>metadata\<close>, empty when it is missing. \<open>None\<close> is a decoding error.\<close>

record k8s_lib =
  libURL :: url_lib
  jsonItems :: "bytes \<Rightarrow> bytes list option option"
  jsonContinue :: "bytes \<Rightarrow> gostring option"

definition headerValueBearer :: "bytes \<Rightarrow> gostring" where
  "headerValueBearer token = lit ''Bearer '' @ token"

definition setHeader :: "gostring \<Rightarrow> gostring \<Rightarrow> HttpRequest \<Rightarrow> HttpRequest" where
  "setHeader k v req = req \<lparr> rqHeaders := mapPut k v (rqHeaders req) \<rparr>"

definition makeRequest :: "k8s_lib \<Rightarrow> 'w Client \<Rightarrow> gostring \<Rightarrow> gostring \<Rightarrow> k8s_error + HttpRequest" where
  "makeRequest lib c url meth =
     (case urlParse (libURL lib) url of
        None \<Rightarrow> Inl BadRequest
      | Some u \<Rightarrow>
          Inr (setHeader (lit ''Accept'') (lit ''application/json'')
                (setHeader (lit ''Authorization'') (headerValueBearer (apiToken c))
                  \<lparr> rqMethod = meth, rqURL = u, rqHeaders = [], rqBody = [] \<rparr>)))"

definition PingApiRequest :: "k8s_lib \<Rightarrow> 'w Client \<Rightarrow> bool \<Rightarrow> k8s_error + HttpRequest" where
  "PingApiRequest lib c authorized =
     (case urlParse (libURL lib) (apiURL c) of
        None \<Rightarrow> Inl BadRequest
      | Some u \<Rightarrow>
          (let req = \<lparr> rqMethod = lit ''GET'', rqURL = u, rqHeaders = [], rqBody = [] \<rparr>;
               req' = (if authorized then setHeader (lit ''Authorization'') (headerValueBearer (apiToken c)) req else req)
           in Inr (setHeader (lit ''Accept'') (lit ''application/json'') req')))"

text \<open>The construction of the default client: \<open>None\<close> is an exit of the process (\<open>logger.Fatal\<close>). The files are
  read by \<open>readFile\<close>; \<open>validPEM\<close> says whether the CA file holds a certificate.\<close>

definition NewDefaultK8sClient ::
  "text_tables \<Rightarrow> (gostring \<Rightarrow> bytes option) \<Rightarrow> (bytes \<Rightarrow> bool) \<Rightarrow> (gostring \<Rightarrow> gostring) \<Rightarrow>
    (HttpRequest \<Rightarrow> 'w \<Rightarrow> HttpResponse option \<times> 'w) \<Rightarrow> 'w Client option" where
  "NewDefaultK8sClient tt readFile validPEM getenv doer =
     (let token = (case readFile (lit ''/var/run/secrets/kubernetes.io/serviceaccount/token'') of Some d \<Rightarrow> d | None \<Rightarrow> []);
          ca = (case readFile (lit ''/var/run/secrets/kubernetes.io/serviceaccount/ca.crt'') of Some d \<Rightarrow> d | None \<Rightarrow> [])
      in if length ca = 0 then None
         else if \<not> validPEM ca then None
         else (case KubeApiFromEnv getenv of
                 Inl err \<Rightarrow> None
               | Inr url \<Rightarrow>
                   (let token' = TrimSpace tt token
                    in if length token' = 0 then None else Some \<lparr> Doer = doer, apiURL = url, apiToken = token' \<rparr>)))"

subsection \<open>Exchanges\<close>

definition client_do :: "'w Client \<Rightarrow> HttpRequest \<Rightarrow> 'w \<Rightarrow> (int \<times> bytes \<times> k8s_error option) \<times> 'w" where
  "client_do c req w =
     (case Doer c req w of
        (None, w') \<Rightarrow> ((0, [], Some RequestFailed), w')
      | (Some res, w') \<Rightarrow>
          (case rsBody res of
             None \<Rightarrow> ((rsStatus res, [], Some ReadBodyFailed), w')
           | Some data \<Rightarrow> ((rsStatus res, data, None), w')))"

definition isPaginatedResponse :: "k8s_lib \<Rightarrow> HttpResponse \<Rightarrow> bytes \<Rightarrow> bool \<times> gostring" where
  "isPaginatedResponse lib r data =
     (if rsContinue r \<noteq> [] then (True, rsContinue r)
      else (case jsonContinue lib data of
              None \<Rightarrow> (False, [])
            | Some token \<Rightarrow> (token \<noteq> [], token)))"

definition nextReqWithContinueToken :: "HttpRequest \<Rightarrow> gostring \<Rightarrow> HttpRequest" where
  "nextReqWithContinueToken req token =
     req \<lparr> rqURL := (rqURL req) \<lparr> uQuery := setQuery (lit ''continue'') token (uQuery (rqURL req)) \<rparr> \<rparr>"

definition pageItems :: "k8s_lib \<Rightarrow> bytes \<Rightarrow> bytes list" where
  "pageItems lib data = (case jsonItems lib data of Some (Some items) \<Rightarrow> items | _ \<Rightarrow> [data])"

text \<open>The body of the loop: \<open>Inl\<close> leaves it with the status code, the bodies and the error, \<open>Inr\<close> goes on with
  the next request.\<close>

definition pageStep ::
  "k8s_lib \<Rightarrow> 'w Client \<Rightarrow> HttpRequest \<Rightarrow> HttpRequest \<times> int \<times> bytes list \<times> 'w \<Rightarrow>
    ((int \<times> bytes list \<times> k8s_error option) \<times> 'w) + (HttpRequest \<times> int \<times> bytes list \<times> 'w)" where
  "pageStep lib c req st = (case st of (nextReq, sc, res, w) \<Rightarrow>
     (case Doer c nextReq w of
        (None, w') \<Rightarrow> Inl ((sc, res, Some RequestFailed), w')
      | (Some resp, w') \<Rightarrow>
          (if rsStatus resp \<noteq> 200 then Inl ((rsStatus resp, res, Some (ErrBadStatusCode (rsStatus resp))), w')
           else (case rsBody resp of
                   None \<Rightarrow> Inl ((rsStatus resp, res, Some ReadBodyFailed), w')
                 | Some data \<Rightarrow>
                     (let res' = res @ pageItems lib data
                      in case isPaginatedResponse lib resp data of
                           (True, token) \<Rightarrow> Inr (nextReqWithContinueToken req token, rsStatus resp, res', w')
                         | (False, token) \<Rightarrow> Inl ((rsStatus resp, res', None), w'))))))"

partial_function (option) pageLoop ::
  "k8s_lib \<Rightarrow> 'w Client \<Rightarrow> HttpRequest \<Rightarrow> HttpRequest \<times> int \<times> bytes list \<times> 'w \<Rightarrow>
    ((int \<times> bytes list \<times> k8s_error option) \<times> 'w) option" where
  "pageLoop lib c req st = (case pageStep lib c req st of Inl r \<Rightarrow> Some r | Inr st' \<Rightarrow> pageLoop lib c req st')"

definition doPaginated ::
  "k8s_lib \<Rightarrow> 'w Client \<Rightarrow> HttpRequest \<Rightarrow> 'w \<Rightarrow> ((int \<times> bytes list \<times> k8s_error option) \<times> 'w) option" where
  "doPaginated lib c req w = pageLoop lib c req (req, 0, [], w)"

subsection \<open>Queries\<close>

definition requestFor :: "k8s_lib \<Rightarrow> 'w Client \<Rightarrow> ApiRequestParams \<Rightarrow> gostring \<Rightarrow> k8s_error + HttpRequest" where
  "requestFor lib c p meth =
     (case params_URL (libURL lib) p (apiURL c) of Inl err \<Rightarrow> Inl err | Inr url \<Rightarrow> makeRequest lib c url meth)"

definition QueryApiRaw :: "k8s_lib \<Rightarrow> 'w Client \<Rightarrow> ApiRequestParams \<Rightarrow> 'w \<Rightarrow> (k8s_error + HttpResponse) \<times> 'w" where
  "QueryApiRaw lib c p w =
     (case requestFor lib c p (lit ''GET'') of
        Inl err \<Rightarrow> (Inl err, w)
      | Inr req \<Rightarrow> (case Doer c req w of (None, w') \<Rightarrow> (Inl RequestFailed, w') | (Some resp, w') \<Rightarrow> (Inr resp, w')))"

definition QueryApi :: "k8s_lib \<Rightarrow> 'w Client \<Rightarrow> ApiRequestParams \<Rightarrow> 'w \<Rightarrow> ((k8s_error + bytes list) \<times> 'w) option" where
  "QueryApi lib c p w =
     (case requestFor lib c p (lit ''GET'') of
        Inl err \<Rightarrow> Some (Inl err, w)
      | Inr req \<Rightarrow> do {
          ((sc, data, err), w') \<leftarrow> doPaginated lib c req w;
          (case err of
             Some e \<Rightarrow> Some (Inl e, w')
           | None \<Rightarrow> if sc \<noteq> 200 then Some (Inl (ErrBadStatusCode sc), w') else Some (Inr data, w'))
        })"

fun unmarshalAll :: "(bytes \<Rightarrow> 'o option) \<Rightarrow> bytes list \<Rightarrow> 'o list option" where
  "unmarshalAll dec [] = Some []"
| "unmarshalAll dec (d # ds) = do { x \<leftarrow> dec d; xs \<leftarrow> unmarshalAll dec ds; Some (x # xs) }"

definition QueryApiWithParams ::
  "k8s_lib \<Rightarrow> (bytes \<Rightarrow> 'o option) \<Rightarrow> 'w Client \<Rightarrow> ApiRequestParams \<Rightarrow> 'w \<Rightarrow> ((k8s_error + 'o list) \<times> 'w) option" where
  "QueryApiWithParams lib dec c p w = do {
     (raw, w') \<leftarrow> QueryApi lib c p w;
     (case raw of
        Inl err \<Rightarrow> Some (Inl err, w')
      | Inr raws \<Rightarrow>
          (case unmarshalAll dec raws of
             None \<Rightarrow> Some (Inl UnmarshalFailed, w')
           | Some results \<Rightarrow> if length results = 0 then Some (Inl NoResults, w') else Some (Inr results, w')))
   }"

text \<open>The query for a registered type.\<close>

definition QueryApiFor ::
  "k8s_lib \<Rightarrow> registry \<Rightarrow> gostring \<Rightarrow> (bytes \<Rightarrow> 'o option) \<Rightarrow> 'w Client \<Rightarrow> 'w \<Rightarrow> ((k8s_error + 'o list) \<times> 'w) option" where
  "QueryApiFor lib reg t dec c w =
     (case ParamsFor t reg of Inl err \<Rightarrow> Some (Inl err, w) | Inr p \<Rightarrow> QueryApiWithParams lib dec c p w)"

subsection \<open>Writes\<close>

text \<open>The error and the parameters, whose field manager is filled in.\<close>

definition client_ApplyOrUpdate ::
  "k8s_lib \<Rightarrow> ('o \<Rightarrow> bytes option) \<Rightarrow> 'w Client \<Rightarrow> ApiRequestParams \<Rightarrow> 'o \<Rightarrow> 'w \<Rightarrow> k8s_error option \<times> ApiRequestParams \<times> 'w" where
  "client_ApplyOrUpdate lib enc c p0 ko w =
     (let p = (if apFieldManager p0 = [] then p0 \<lparr> apFieldManager := lit ''xfx1-dns'' \<rparr> else p0)
      in case requestFor lib c p (lit ''PATCH'') of
           Inl err \<Rightarrow> (Some err, p, w)
         | Inr req0 \<Rightarrow>
             (let req = setHeader (lit ''Content-Type'') (lit ''application/apply-patch+yaml'') req0
              in case enc ko of
                   None \<Rightarrow> (Some MarshalFailed, p, w)
                 | Some data \<Rightarrow>
                     (case client_do c (req \<lparr> rqBody := data \<rparr>) w of
                        ((sc, resp, Some err), w') \<Rightarrow> (Some err, p, w')
                      | ((sc, resp, None), w') \<Rightarrow>
                          (if \<not> (sc = 201 \<or> sc = 200) then (Some (ErrBadStatusCode sc), p, w') else (None, p, w')))))"

definition client_Delete :: "k8s_lib \<Rightarrow> 'w Client \<Rightarrow> ApiRequestParams \<Rightarrow> 'w \<Rightarrow> k8s_error option \<times> 'w" where
  "client_Delete lib c p w =
     (case requestFor lib c p (lit ''DELETE'') of
        Inl err \<Rightarrow> (Some err, w)
      | Inr req \<Rightarrow>
          (case client_do c req w of
             ((sc, resp, Some err), w') \<Rightarrow> (Some err, w')
           | ((sc, resp, None), w') \<Rightarrow> (if sc = 200 \<or> sc = 404 then (None, w') else (Some (ErrBadStatusCode sc), w'))))"

subsection \<open>Complete runs of a paginated query\<close>

inductive fetched :: "k8s_lib \<Rightarrow> 'w Client \<Rightarrow> HttpRequest \<Rightarrow> HttpRequest \<Rightarrow> 'w \<Rightarrow> bytes list \<Rightarrow> 'w \<Rightarrow> bool"
  for lib c req where
  last_page:
    "Doer c r w = (Some resp, w') \<Longrightarrow> rsStatus resp = 200 \<Longrightarrow> rsBody resp = Some data \<Longrightarrow>
     \<not> fst (isPaginatedResponse lib resp data) \<Longrightarrow> fetched lib c req r w (pageItems lib data) w'"
| next_page:
    "Doer c r w = (Some resp, w') \<Longrightarrow> rsStatus resp = 200 \<Longrightarrow> rsBody resp = Some data \<Longrightarrow>
     isPaginatedResponse lib resp data = (True, token) \<Longrightarrow>
     fetched lib c req (nextReqWithContinueToken req token) w' items w'' \<Longrightarrow>
     fetched lib c req r w (pageItems lib data @ items) w''"

inductive_cases fetchedE: "fetched lib c req r w items w'"

lemma pageStep_Inr:
  "pageStep lib c req (r, sc, res, w) = Inr st \<longleftrightarrow>
     (\<exists>resp w' data token. Doer c r w = (Some resp, w') \<and> rsStatus resp = 200 \<and> rsBody resp = Some data \<and>
        isPaginatedResponse lib resp data = (True, token) \<and>
        st = (nextReqWithContinueToken req token, 200, res @ pageItems lib data, w'))"
  by (auto simp: pageStep_def Let_def split: prod.splits option.splits bool.splits)

lemma pageStep_done:
  "pageStep lib c req (r, sc, res, w) = Inl ((sc', items, None), w') \<longleftrightarrow>
     (\<exists>resp data. Doer c r w = (Some resp, w') \<and> rsStatus resp = 200 \<and> rsBody resp = Some data \<and>
        \<not> fst (isPaginatedResponse lib resp data) \<and> sc' = 200 \<and> items = res @ pageItems lib data)"
  by (auto simp: pageStep_def Let_def split: prod.splits option.splits bool.splits)

definition complete_result ::
  "k8s_lib \<Rightarrow> 'w Client \<Rightarrow> HttpRequest \<Rightarrow> HttpRequest \<times> int \<times> bytes list \<times> 'w \<Rightarrow> (int \<times> bytes list \<times> k8s_error option) \<times> 'w \<Rightarrow> bool" where
  "complete_result lib c req st y \<longleftrightarrow> (\<forall>r sc res w sc' items w'. st = (r, sc, res, w) \<longrightarrow> y = ((sc', items, None), w') \<longrightarrow>
     sc' = 200 \<and> (\<exists>more. items = res @ more \<and> fetched lib c req r w more w'))"

lemma pageLoop_sound: "pageLoop lib c req st = Some y \<Longrightarrow> complete_result lib c req st y"
proof (rule pageLoop.raw_induct [of complete_result])
  fix loop lib y and c :: "'a Client" and req and st :: "HttpRequest \<times> int \<times> bytes list \<times> 'a"
  assume IH: "\<And>lib c req st y. loop lib c req st = Some y \<Longrightarrow> complete_result lib c req st y"
    and step: "(case pageStep lib c req st of Inl r \<Rightarrow> Some r | Inr st' \<Rightarrow> loop lib c req st') = Some y"
  show "complete_result lib c req st y"
    unfolding complete_result_def
  proof (intro allI impI)
    fix r sc res w sc' items w' assume st: "st = (r, sc, res, w)" and y: "y = ((sc', items, None), w')"
    show "sc' = 200 \<and> (\<exists>more. items = res @ more \<and> fetched lib c req r w more w')"
    proof (cases "pageStep lib c req st")
      case (Inl x)
      then show ?thesis using step y by (auto simp: st pageStep_done intro: last_page)
    next
      case (Inr st')
      then obtain resp w1 data token where d: "Doer c r w = (Some resp, w1)" "rsStatus resp = 200" "rsBody resp = Some data"
          "isPaginatedResponse lib resp data = (True, token)" "st' = (nextReqWithContinueToken req token, 200, res @ pageItems lib data, w1)"
        unfolding st pageStep_Inr by blast
      have "complete_result lib c req st' y" using IH step Inr by simp
      then obtain more where "sc' = 200" "items = (res @ pageItems lib data) @ more"
          "fetched lib c req (nextReqWithContinueToken req token) w1 more w'"
        unfolding complete_result_def d(5) y by blast
      then show ?thesis using next_page [OF d(1-4)] by auto
    qed
  qed
qed

lemma pageLoop_complete:
  "fetched lib c req r w items w' \<Longrightarrow> pageLoop lib c req (r, sc, res, w) = Some ((200, res @ items, None), w')"
proof (induction arbitrary: sc res rule: fetched.induct)
  case (last_page r w resp w' data)
  then have "pageStep lib c req (r, sc, res, w) = Inl ((200, res @ pageItems lib data, None), w')" by (simp add: pageStep_done)
  then show ?case by (subst pageLoop.simps) simp
next
  case (next_page r w resp w' data token items w'')
  then have "pageStep lib c req (r, sc, res, w) = Inr (nextReqWithContinueToken req token, 200, res @ pageItems lib data, w')"
    by (simp add: pageStep_Inr)
  then show ?case using next_page.IH by (subst pageLoop.simps) simp
qed

lemma pageLoop_errors: "pageLoop lib c req st = Some y \<Longrightarrow> snd (snd (fst y)) \<noteq> Some NoResults"
proof (rule pageLoop.raw_induct [of "\<lambda>lib c req st y. snd (snd (fst y)) \<noteq> Some NoResults"])
  fix loop lib y and c :: "'a Client" and req and st :: "HttpRequest \<times> int \<times> bytes list \<times> 'a"
  assume IH: "\<And>lib c req st y. loop lib c req st = Some y \<Longrightarrow> snd (snd (fst y)) \<noteq> Some NoResults"
    and step: "(case pageStep lib c req st of Inl r \<Rightarrow> Some r | Inr st' \<Rightarrow> loop lib c req st') = Some y"
  show "snd (snd (fst y)) \<noteq> Some NoResults"
  proof (cases "pageStep lib c req st")
    case (Inl x)
    then show ?thesis using step by (auto simp: pageStep_def Let_def split: prod.splits option.splits if_splits bool.splits)
  next
    case (Inr st')
    then show ?thesis using step IH [of lib c req st' y] by simp
  qed
qed

lemma QueryApi_errors: "QueryApi lib c p w \<noteq> Some (Inl NoResults, w')"
  using pageLoop_errors [where lib = lib and c = c]
  by (fastforce simp: QueryApi_def doPaginated_def requestFor_def params_URL_def makeRequest_def bind_eq_Some_conv
      split: sum.splits option.splits if_splits)

lemma unmarshalAll_map: "unmarshalAll dec ds = Some xs \<longleftrightarrow> map dec ds = map Some xs"
proof (induction ds arbitrary: xs)
  case (Cons d ds)
  then show ?case by (cases xs) (auto simp: bind_eq_Some_conv)
qed auto

lemma QueryApi_fetched:
  "QueryApi lib c p w = Some (Inr items, w') \<longleftrightarrow>
     (\<exists>req. requestFor lib c p (lit ''GET'') = Inr req \<and> fetched lib c req req w items w')"
proof
  assume q: "QueryApi lib c p w = Some (Inr items, w')"
  then obtain req sc where req: "requestFor lib c p (lit ''GET'') = Inr req"
      and d: "doPaginated lib c req w = Some ((sc, items, None), w')"
    by (auto simp: QueryApi_def bind_eq_Some_conv split: sum.splits option.splits if_splits)
  have "fetched lib c req req w items w'"
    using pageLoop_sound [OF d [unfolded doPaginated_def]] by (simp add: complete_result_def)
  then show "\<exists>req. requestFor lib c p (lit ''GET'') = Inr req \<and> fetched lib c req req w items w'" using req by blast
next
  assume "\<exists>req. requestFor lib c p (lit ''GET'') = Inr req \<and> fetched lib c req req w items w'"
  then show "QueryApi lib c p w = Some (Inr items, w')"
    using pageLoop_complete by (fastforce simp: QueryApi_def doPaginated_def)
qed

text \<open>C23: A query of the API returns data exactly when the server answered a complete chain of pages: the first
  request and one request for every continue token, each with status 200 and a readable body, up to a page
  without a token; and then it returns the items of all these pages in order. So a failure or a bad status on any
  page makes the whole query fail, and a list that was cut off is never taken for the whole.\<close>

theorem QueryApi_exact:
  "QueryApi lib c p w = Some (Inr items, w') \<longleftrightarrow>
     (\<exists>req. requestFor lib c p (lit ''GET'') = Inr req \<and> fetched lib c req req w items w')"
  by (rule QueryApi_fetched)

text \<open>The typed query: it returns the decoded items of all pages, and \<open>NoResults\<close> only for a list without items.\<close>

lemma QueryApiWithParams_fetched:
  assumes "QueryApiWithParams lib dec c p w = Some (r, w')" "r = Inr objs \<or> r = Inl NoResults \<and> objs = []"
  obtains req items where "requestFor lib c p (lit ''GET'') = Inr req" "fetched lib c req req w items w'" "map dec items = map Some objs"
proof -
  obtain raw w1 where raw: "QueryApi lib c p w = Some (raw, w1)"
    using assms(1) by (auto simp: QueryApiWithParams_def bind_eq_Some_conv)
  obtain items where items: "raw = Inr items"
    using assms raw QueryApi_errors [of lib c p w w1] by (cases raw) (auto simp: QueryApiWithParams_def)
  have q: "QueryApi lib c p w = Some (Inr items, w')" and u: "unmarshalAll dec items = Some objs"
    using assms raw items by (auto simp: QueryApiWithParams_def split: option.splits if_splits)
  obtain req where "requestFor lib c p (lit ''GET'') = Inr req" "fetched lib c req req w items w'"
    using q unfolding QueryApi_fetched by blast
  then show thesis using that u unmarshalAll_map by metis
qed

end
