(* ===== verification/Cluster.thy ===== *)
theory Cluster
  imports Update_Handler K8s_Client Master_Loop
begin

text \<open>
  The components that use the Kubernetes API, joined to the client that implements it: the three calls that
  the UPDATE handler makes (\<open>rfc2136/operations.go\<close>) and the list that a rebuild of the master
  starts with (\<open>master/db.go\<close>), as HTTP requests.

  The API server is outside the program; \<open>api_server\<close> states what the documentation of the API promises: a
  GET changes nothing, a successful server-side apply stores the object under its name, a deletion
  removes it (404 means that it was not there), and the pages of a list with a label selector hold every
  object with the label once. Under these laws \<open>gatewayClient\<close> satisfies the contract that the proofs
  about the handler rest on.
\<close>

subsection \<open>The calls of the UPDATE handler\<close>

definition sourceLabel :: gostring where "sourceLabel = lit ''dns.xfx1.de/source''"

definition recordObject :: "registry \<Rightarrow> gostring \<Rightarrow> gostring \<Rightarrow> RR \<Rightarrow> RR Object go" where
  "recordObject reg ns name rr =
     NewObjectWithMetadata reg (lit ''rec.RR'')
       \<lparr> mdName = name, mdNamespace = ns, mdUID = [], mdLabels = [(sourceLabel, sourceLabelValue)], mdAnnotations = [] \<rparr> rr"

text \<open>What an error of \<open>ParamsFor\<close> or the panic for a missing registration would end is left out of the
  successful outcomes; \<open>crd_init\<close> registers the type.\<close>

definition applyRecord ::
  "k8s_lib \<Rightarrow> registry \<Rightarrow> (RR Object \<Rightarrow> bytes option) \<Rightarrow> 'w Client \<Rightarrow> gostring \<Rightarrow> 'w \<Rightarrow> gostring \<Rightarrow> RR \<Rightarrow> 'w \<times> bool" where
  "applyRecord lib reg enc c ns w name rr =
     (case ParamsFor (lit ''rec.RR'') reg of
        Inl err \<Rightarrow> (w, False)
      | Inr p \<Rightarrow>
          (case recordObject reg ns name rr of
             None \<Rightarrow> (w, False)
           | Some obj \<Rightarrow>
               (case client_ApplyOrUpdate lib enc c (p \<lparr> apNamespace := ns, apName := name, apFieldManager := lit ''rfc2136'' \<rparr>) obj w of
                  (err, _, w') \<Rightarrow> (w', err = None))))"

definition listRecords ::
  "k8s_lib \<Rightarrow> registry \<Rightarrow> (bytes \<Rightarrow> RR Object option) \<Rightarrow> 'w Client \<Rightarrow> gostring \<Rightarrow> 'w \<Rightarrow> (gostring \<times> RR) list option" where
  "listRecords lib reg dec c ns w =
     (case ParamsFor (lit ''rec.RR'') reg of
        Inl err \<Rightarrow> None
      | Inr p \<Rightarrow>
          (case QueryApiWithParams lib dec c
                  (p \<lparr> apNamespace := ns, apLabelSelector := [sourceLabel @ lit ''='' @ sourceLabelValue] \<rparr>) w of
             Some (Inr objs, w') \<Rightarrow> Some (map (\<lambda>obj. (mdName (oMetadata obj), oSpec obj)) objs)
           | Some (Inl err, w') \<Rightarrow> (if err = NoResults then Some [] else None)
           | None \<Rightarrow> None))"

definition deleteRecord :: "k8s_lib \<Rightarrow> registry \<Rightarrow> 'w Client \<Rightarrow> gostring \<Rightarrow> 'w \<Rightarrow> gostring \<Rightarrow> 'w \<times> bool" where
  "deleteRecord lib reg c ns w name =
     (case ParamsFor (lit ''rec.RR'') reg of
        Inl err \<Rightarrow> (w, False)
      | Inr p \<Rightarrow> (case client_Delete lib c (p \<lparr> apNamespace := ns, apName := name \<rparr>) w of (err, w') \<Rightarrow> (w', err = None)))"

definition gatewayClient ::
  "k8s_lib \<Rightarrow> registry \<Rightarrow> (RR Object \<Rightarrow> bytes option) \<Rightarrow> (bytes \<Rightarrow> RR Object option) \<Rightarrow> 'w Client \<Rightarrow> gostring \<Rightarrow> 'w K8sClient" where
  "gatewayClient lib reg enc dec c ns =
     \<lparr> ApplyOrUpdate = applyRecord lib reg enc c ns, QueryLabelled = listRecords lib reg dec c ns,
       Delete = deleteRecord lib reg c ns \<rparr>"

subsection \<open>The list of the master\<close>

definition masterList :: "((k8s_error + RR Object list) \<times> 'w) option \<Rightarrow> list_result" where
  "masterList q =
     (case q of
        Some (Inr objs, w') \<Rightarrow> Objects (map oSpec objs)
      | Some (Inl err, w') \<Rightarrow> (if err = NoResults then ErrNoResults else ListFailed)
      | None \<Rightarrow> ListFailed)"

subsection \<open>The API server\<close>

definition recordPath :: "gostring \<Rightarrow> gostring \<Rightarrow> gostring" where
  "recordPath ns name = slash # Join [slash] (pathParts (record_params ns name))"

definition api_server ::
  "k8s_lib \<Rightarrow> (RR Object \<Rightarrow> bytes option) \<Rightarrow> (bytes \<Rightarrow> RR Object option) \<Rightarrow> 'w Client \<Rightarrow> gostring \<Rightarrow>
    ('w \<Rightarrow> gostring \<rightharpoonup> RR) \<Rightarrow> bool" where
  "api_server lib enc dec c ns contents \<longleftrightarrow>
     (\<forall>req w r w'. rqMethod req = lit ''GET'' \<longrightarrow> Doer c req w = (r, w') \<longrightarrow> w' = w) \<and>
     (\<forall>req w resp w' obj. rqMethod req = lit ''PATCH'' \<longrightarrow> plain_segment (mdName (oMetadata obj)) \<longrightarrow>
        uPath (rqURL req) = recordPath ns (mdName (oMetadata obj)) \<longrightarrow>
        map_of (rqHeaders req) (lit ''Content-Type'') = Some (lit ''application/apply-patch+yaml'') \<longrightarrow>
        enc obj = Some (rqBody req) \<longrightarrow> (sourceLabel, sourceLabelValue) \<in> set (mdLabels (oMetadata obj)) \<longrightarrow>
        Doer c req w = (Some resp, w') \<longrightarrow> rsStatus resp \<in> {200, 201} \<longrightarrow>
        contents w' = (contents w)(mdName (oMetadata obj) \<mapsto> oSpec obj)) \<and>
     (\<forall>req w resp w' name. rqMethod req = lit ''DELETE'' \<longrightarrow> plain_segment name \<longrightarrow> uPath (rqURL req) = recordPath ns name \<longrightarrow>
        Doer c req w = (Some resp, w') \<longrightarrow> rsStatus resp \<in> {200, 404} \<longrightarrow> contents w' = (contents w)(name := None)) \<and>
     (\<forall>req w items w'. rqMethod req = lit ''GET'' \<longrightarrow> uPath (rqURL req) = recordPath ns [] \<longrightarrow>
        map_of (uQuery (rqURL req)) (lit ''labelSelector'') = Some (sourceLabel @ lit ''='' @ sourceLabelValue) \<longrightarrow>
        fetched lib c req req w items w' \<longrightarrow>
        (\<exists>objs. map dec items = map Some objs \<and> distinct (map (mdName \<circ> oMetadata) objs) \<and>
           map_of (map (\<lambda>obj. (mdName (oMetadata obj), oSpec obj)) objs) = contents w \<and>
           list_all (plain_segment \<circ> mdName \<circ> oMetadata) objs))"

lemma ParamsFor_record: "ParamsFor (lit ''rec.RR'') (crd_init reg) = Inr (record_params [] [])"
  by (simp add: ParamsFor_def MetaFor_def crd_init_def RegisterSpec_def ToParams_def record_params_def map_of_mapPut) (simp add: lit_def)

lemma recordObject_fields:
  assumes "recordObject (crd_init reg) ns name rr = Some obj"
  shows "mdName (oMetadata obj) = name" "oSpec obj = rr" "(sourceLabel, sourceLabelValue) \<in> set (mdLabels (oMetadata obj))"
  using assms by (auto simp: recordObject_def NewObjectWithMetadata_def Let_def split: option.splits if_splits)

lemma setQuery_other: "k \<noteq> j \<Longrightarrow> map_of (setQuery j v q) k = map_of q k"
  by (induction q) auto

lemma setQuery_same: "map_of (setQuery k v q) k = Some v"
  by (induction q) auto

text \<open>Where the requests go.\<close>

lemma requestFor_record:
  assumes "url_laws (libURL lib)" "server_address (libURL lib) (apiURL c) u" "plain_params p"
  shows "\<exists>req. requestFor lib c p meth = Inr req \<and> rqMethod req = meth \<and> rqURL req = resourceURL u p"
proof -
  obtain s where "params_URL (libURL lib) p (apiURL c) = Inr s" "urlParse (libURL lib) s = Some (resourceURL u p)"
    using params_URL_parses [OF assms] .
  then show ?thesis by (simp add: requestFor_def makeRequest_def setHeader_def)
qed

lemma record_update:
  "record_params [] [] \<lparr> apNamespace := ns, apName := name \<rparr> = record_params ns name"
  by (simp add: record_params_def)

lemma recordPath_URL:
  "uPath (resourceURL u (record_params ns name)) = recordPath ns name"
  "uPath (resourceURL u (record_params ns name \<lparr> apFieldManager := fm \<rparr>)) = recordPath ns name"
  "uPath (resourceURL u (record_params ns name \<lparr> apLabelSelector := ls \<rparr>)) = recordPath ns name"
  by (simp_all add: resourceURL_def recordPath_def pathParts_def record_params_def)

lemma client_do_None:
  "client_do c req w = ((sc, d, None), w') \<longleftrightarrow> (\<exists>resp. Doer c req w = (Some resp, w') \<and> rsBody resp = Some d \<and> rsStatus resp = sc)"
  by (auto simp: client_do_def split: prod.splits option.splits)

lemma applyRecord_law:
  assumes laws: "url_laws (libURL lib)" "server_address (libURL lib) (apiURL c) u" "api_server lib enc dec c ns contents"
    and plain: "plain_segment ns" "plain_segment name"
    and ok: "applyRecord lib (crd_init reg) enc c ns w name rr = (w', True)"
  shows "contents w' = (contents w)(name \<mapsto> rr)"
proof -
  let ?p = "record_params ns name \<lparr> apFieldManager := lit ''rfc2136'' \<rparr>"
  obtain obj where obj: "recordObject (crd_init reg) ns name rr = Some obj"
    using ok by (auto simp: applyRecord_def ParamsFor_record split: option.splits)
  have "plain_params ?p" using record_params_plain [of ns name] plain by (simp add: plain_params_def)
  then obtain req where req: "requestFor lib c ?p (lit ''PATCH'') = Inr req" "rqMethod req = lit ''PATCH''" "rqURL req = resourceURL u ?p"
    using requestFor_record [OF laws(1,2)] by blast
  have p: "record_params [] [] \<lparr> apNamespace := ns, apName := name, apFieldManager := lit ''rfc2136'' \<rparr> = ?p" by (simp add: record_params_def)
  have fm: "apFieldManager ?p \<noteq> []" by (simp add: lit_def)
  obtain data sc d where data: "enc obj = Some data" "sc = 201 \<or> sc = 200"
      "client_do c ((setHeader (lit ''Content-Type'') (lit ''application/apply-patch+yaml'') req) \<lparr> rqBody := data \<rparr>) w = ((sc, d, None), w')"
    using ok fm
    by (auto simp: applyRecord_def ParamsFor_record obj p client_ApplyOrUpdate_def req(1) Let_def split: option.splits prod.splits if_splits)
  then obtain resp where resp: "Doer c ((setHeader (lit ''Content-Type'') (lit ''application/apply-patch+yaml'') req) \<lparr> rqBody := data \<rparr>) w = (Some resp, w')"
      "rsStatus resp \<in> {200, 201}"
    unfolding client_do_None by auto
  note f = recordObject_fields [OF obj]
  let ?r = "(setHeader (lit ''Content-Type'') (lit ''application/apply-patch+yaml'') req) \<lparr> rqBody := data \<rparr>"
  have "rqMethod ?r = lit ''PATCH''" "uPath (rqURL ?r) = recordPath ns (mdName (oMetadata obj))"
      "map_of (rqHeaders ?r) (lit ''Content-Type'') = Some (lit ''application/apply-patch+yaml'')" "enc obj = Some (rqBody ?r)"
    using req f(1) data(1) by (simp_all add: setHeader_def map_of_mapPut recordPath_URL)
  then have "contents w' = (contents w)(mdName (oMetadata obj) \<mapsto> oSpec obj)"
    using laws(3) plain(2) f resp unfolding api_server_def by blast
  then show ?thesis using f by simp
qed

lemma deleteRecord_law:
  assumes laws: "url_laws (libURL lib)" "server_address (libURL lib) (apiURL c) u" "api_server lib enc dec c ns contents"
    and plain: "plain_segment ns" "plain_segment name"
    and ok: "deleteRecord lib (crd_init reg) c ns w name = (w', True)"
  shows "contents w' = (contents w)(name := None)"
proof -
  have "plain_params (record_params ns name)" using record_params_plain plain by blast
  then obtain req where req: "requestFor lib c (record_params ns name) (lit ''DELETE'') = Inr req" "rqMethod req = lit ''DELETE''"
      "rqURL req = resourceURL u (record_params ns name)"
    using requestFor_record [OF laws(1,2)] by blast
  obtain sc d where "sc = 200 \<or> sc = 404" "client_do c req w = ((sc, d, None), w')"
    using ok by (auto simp: deleteRecord_def ParamsFor_record record_update client_Delete_def req(1) split: option.splits prod.splits if_splits)
  then obtain resp where resp: "Doer c req w = (Some resp, w')" "rsStatus resp \<in> {200, 404}" unfolding client_do_None by auto
  moreover have "uPath (rqURL req) = recordPath ns name" using req(3) by (simp add: recordPath_URL)
  ultimately show ?thesis using laws(3) plain(2) req(2) unfolding api_server_def by blast
qed

lemma listRecords_law:
  assumes laws: "url_laws (libURL lib)" "server_address (libURL lib) (apiURL c) u" "api_server lib enc dec c ns contents"
    and plain: "plain_segment ns" and q: "uQuery u = []"
    and ok: "listRecords lib (crd_init reg) dec c ns w = Some objs"
  shows "distinct (map fst objs) \<and> map_of objs = contents w \<and> list_all plain_segment (map fst objs)"
proof -
  let ?sel = "sourceLabel @ lit ''='' @ sourceLabelValue"
  let ?p = "record_params ns [] \<lparr> apLabelSelector := [?sel] \<rparr>"
  have p: "record_params [] [] \<lparr> apNamespace := ns, apLabelSelector := [?sel] \<rparr> = ?p" by (simp add: record_params_def)
  have "plain_params ?p" using record_params_plain [of ns "[]"] plain by (simp add: plain_params_def)
  then obtain req where req: "requestFor lib c ?p (lit ''GET'') = Inr req" "rqMethod req = lit ''GET''" "rqURL req = resourceURL u ?p"
    using requestFor_record [OF laws(1,2)] by blast
  obtain r w' os0 where r: "QueryApiWithParams lib dec c ?p w = Some (r, w')" "r = Inr os0 \<or> r = Inl NoResults \<and> os0 = []"
      and objs: "objs = map (\<lambda>obj. (mdName (oMetadata obj), oSpec obj)) os0"
    using ok by (auto simp: listRecords_def ParamsFor_record p split: option.splits prod.splits sum.splits if_splits)
  obtain req' items where "requestFor lib c ?p (lit ''GET'') = Inr req'" and f: "fetched lib c req' req' w items w'" "map dec items = map Some os0"
    using QueryApiWithParams_fetched [OF r] .
  then have items: "fetched lib c req req w items w'" "map dec items = map Some os0" using req(1) by simp_all
  note items(1)
  moreover have "map_of (uQuery (rqURL req)) (lit ''labelSelector'') = Some ?sel"
    using req(3) by (simp add: resourceURL_def queryParts_def record_params_def setQuery_same)
  moreover have "uPath (rqURL req) = recordPath ns []" using req(3) by (simp add: recordPath_URL)
  ultimately obtain os where os: "map dec items = map Some os" "distinct (map (mdName \<circ> oMetadata) os)"
      "map_of (map (\<lambda>obj. (mdName (oMetadata obj), oSpec obj)) os) = contents w" "list_all (plain_segment \<circ> mdName \<circ> oMetadata) os"
    using laws(3) req(2) unfolding api_server_def by blast
  have "map Some os = map Some os0" using os(1) items(2) by simp
  then have "os = os0" by (simp add: inj_map_eq_map)
  then show ?thesis using os objs by (simp add: comp_def list.pred_map)
qed

lemma gatewayClient_laws:
  assumes "url_laws (libURL lib)" "server_address (libURL lib) (apiURL c) u" "uQuery u = []" "plain_segment ns"
    "api_server lib enc dec c ns contents"
  shows "store_laws_on plain_segment (gatewayClient lib (crd_init reg) enc dec c ns) contents"
  unfolding store_laws_on_def gatewayClient_def
  using applyRecord_law [OF assms(1,2,5,4)] deleteRecord_law [OF assms(1,2,5,4)] listRecords_law [OF assms(1,2,5,4,3)]
  by simp

subsection \<open>Properties\<close>


text \<open>C11: The master never publishes part of a list. A rebuild that installs a database has read all pages of
  the list of resources, every item decoded, and the database serves exactly the records of these items.\<close>

theorem rebuild_reads_whole_list:
  assumes "inList inp = masterList (QueryApiWithParams lib dec c p w)" "rebuild env ms inp = Some (Inr d, ms')"
    and "good_zone (mvUni env) (masterZone ms) []" "\<forall>data obj. dec data = Some obj \<longrightarrow> good_record (mvUni env) (oSpec obj)"
    and "orders_ok inp" "curve_laws (key_algebra.truncate (mvScheme env))"
  shows "\<exists>req items objs w'. requestFor lib c p (lit ''GET'') = Inr req \<and> fetched lib c req req w items w' \<and>
    map dec items = map Some objs \<and> serves_records d (published (inSerialNow inp) (map oSpec objs)) \<and> mCurrent ms' = Some d"
proof -
  obtain r w' objs where q: "QueryApiWithParams lib dec c p w = Some (r, w')" "r = Inr objs \<or> r = Inl NoResults \<and> objs = []"
      and l: "inList inp = Objects (map oSpec objs) \<or> inList inp = ErrNoResults \<and> map oSpec objs = []"
  proof -
    have "inList inp \<noteq> ListFailed" using assms(2) by (auto simp: rebuild_def failRebuild_def)
    then show thesis using that assms(1) by (auto simp: masterList_def split: option.splits prod.splits sum.splits if_splits)
  qed
  obtain req items where f: "requestFor lib c p (lit ''GET'') = Inr req" "fetched lib c req req w items w'" "map dec items = map Some objs"
    using QueryApiWithParams_fetched [OF q] .
  have "list_all (good_record (mvUni env)) (map oSpec objs)"
  proof -
    have "\<exists>data. dec data = Some obj" if "obj \<in> set objs" for obj
      using that f(3) by (metis ex_map_conv image_eqI list.set_map)
    then show ?thesis using assms(4) by (auto simp: list_all_iff)
  qed
  then have "good_zone (mvUni env) (masterZone ms) (map oSpec objs)" using assms(3) by (simp add: good_zone_def)
  then show ?thesis using rebuild_cases [OF l _ assms(5,6)] assms(2) f by fastforce
qed

subsection \<open>An instance: a server that holds at most one record\<close>

definition one_name :: gostring where "one_name = lit ''rfc2136-a-www-example-00000000''"

definition one_rr :: RR where
  "one_rr = \<lparr> Name = lit ''www.example.'', RRtype = TypeA, TTL = 60, Opts = RRoptsA [192, 0, 2, 1] \<rparr>"

definition one_object :: "RR Object" where
  "one_object = \<lparr> oAPIVersion = lit ''xfx1.de/v2'', oKind = lit ''DNSRecord'',
     oMetadata = \<lparr> mdName = one_name, mdNamespace = lit ''dns'', mdUID = [], mdLabels = [(sourceLabel, sourceLabelValue)], mdAnnotations = [] \<rparr>,
     oSpec = one_rr \<rparr>"

definition one_enc :: "RR Object \<Rightarrow> bytes option" where "one_enc obj = (if obj = one_object then Some [1] else None)"
definition one_dec :: "bytes \<Rightarrow> RR Object option" where "one_dec d = (if d = [1] then Some one_object else None)"

definition one_lib :: k8s_lib where
  "one_lib = \<lparr> libURL = sample_url_lib, jsonItems = (\<lambda>d. Some (Some (if d = [0] then [] else [d]))), jsonContinue = (\<lambda>d. Some []) \<rparr>"

definition one_doer :: "HttpRequest \<Rightarrow> bool \<Rightarrow> HttpResponse option \<times> bool" where
  "one_doer req w =
     (if rqMethod req = lit ''GET'' then (Some \<lparr> rsStatus = 200, rsContinue = [], rsBody = Some (if w then [1] else [0]) \<rparr>, w)
      else if uPath (rqURL req) \<noteq> recordPath (lit ''dns'') one_name then (Some \<lparr> rsStatus = 404, rsContinue = [], rsBody = Some [] \<rparr>, w)
      else if rqMethod req = lit ''PATCH'' then (Some \<lparr> rsStatus = 201, rsContinue = [], rsBody = Some [] \<rparr>, True)
      else (Some \<lparr> rsStatus = 200, rsContinue = [], rsBody = Some [] \<rparr>, False))"

definition one_client :: "bool Client" where
  "one_client = \<lparr> Doer = one_doer, apiURL = sample_api, apiToken = lit ''t'' \<rparr>"

definition one_contents :: "bool \<Rightarrow> gostring \<rightharpoonup> RR" where
  "one_contents w = (if w then [one_name \<mapsto> one_rr] else Map.empty)"

lemma one_plain: "plain_segment one_name" "plain_segment (lit ''dns'')"
  by (simp_all add: one_name_def plain_segment_def lit_def slash_def)

lemma recordPath_inj:
  assumes "plain_segment ns" "plain_segment m" "plain_segment n" "recordPath ns m = recordPath ns n" shows "m = n"
proof -
  have pl: "pathParts (record_params ns x) \<noteq> [] \<and> list_all plain_segment (pathParts (record_params ns x))" if "plain_segment x" for x
    using pathParts_plain [OF record_params_plain] assms(1) that by blast
  have "Join [slash] (pathParts (record_params ns m)) = Join [slash] (pathParts (record_params ns n))"
    using assms(4) by (simp add: recordPath_def)
  then have "pathParts (record_params ns m) = pathParts (record_params ns n)" using Split_segments pl assms(2,3) by metis
  then show ?thesis using pathParts_inj by (fastforce simp: same_resource_def record_params_def)
qed

lemma one_get:
  "rqMethod req = lit ''GET'' \<Longrightarrow> fetched one_lib one_client req req w items w' \<Longrightarrow> items = (if w then [[1]] else []) \<and> w' = w"
  by (erule fetched.cases)
    (auto simp: one_client_def one_doer_def isPaginatedResponse_def one_lib_def pageItems_def split: if_splits)

lemma one_server: "api_server one_lib one_enc one_dec one_client (lit ''dns'') one_contents"
proof -
  have lits: "lit ''PATCH'' \<noteq> lit ''GET''" "lit ''DELETE'' \<noteq> lit ''GET''" "lit ''DELETE'' \<noteq> lit ''PATCH''" by (simp_all add: lit_def)
  have del: "one_contents w' = (one_contents w)(name := None)"
    if "rqMethod req = lit ''DELETE''" "plain_segment name" "uPath (rqURL req) = recordPath (lit ''dns'') name"
      "Doer one_client req w = (Some resp, w')" for req w resp w' name
    using that lits recordPath_inj [OF one_plain(2) that(2) one_plain(1)]
    by (auto simp: one_client_def one_doer_def one_contents_def split: if_splits)
  have list: "\<exists>objs. map one_dec items = map Some objs \<and> distinct (map (mdName \<circ> oMetadata) objs) \<and>
      map_of (map (\<lambda>obj. (mdName (oMetadata obj), oSpec obj)) objs) = one_contents w \<and> list_all (plain_segment \<circ> mdName \<circ> oMetadata) objs"
    if "rqMethod req = lit ''GET''" "fetched one_lib one_client req req w items w'" for req w items w'
    using one_get [OF that] one_plain
    by (intro exI [of _ "if w then [one_object] else []"]) (auto simp: one_dec_def one_object_def one_contents_def)
  have get: "w' = w" if "rqMethod req = lit ''GET''" "Doer one_client req w = (r, w')" for req w r w'
    using that by (simp add: one_client_def one_doer_def)
  have patch: "one_contents w' = (one_contents w)(mdName (oMetadata obj) \<mapsto> oSpec obj)"
    if "rqMethod req = lit ''PATCH''" "one_enc obj = Some (rqBody req)"
      "Doer one_client req w = (Some resp, w')" "rsStatus resp \<in> {200, 201}" for req w resp w' obj
    using that lits by (auto simp: one_enc_def one_client_def one_doer_def one_object_def one_contents_def split: if_splits)
  show ?thesis
    unfolding api_server_def
    by (intro conjI allI impI) (rule get patch del list, assumption+)+
qed

lemma one_address: "url_laws (libURL one_lib)" "server_address (libURL one_lib) (apiURL one_client) sample_server" "uQuery sample_server = []"
  using sample_url_laws sample_server_address by (simp_all add: one_lib_def one_client_def sample_server_def)

lemma one_applied: "applyRecord one_lib (crd_init []) one_enc one_client (lit ''dns'') False one_name one_rr = (True, True)"
proof -
  let ?p = "record_params (lit ''dns'') one_name \<lparr> apFieldManager := lit ''rfc2136'' \<rparr>"
  have "plain_params ?p" using record_params_plain [of "lit ''dns''" one_name] one_plain by (simp add: plain_params_def)
  then obtain req where req: "requestFor one_lib one_client ?p (lit ''PATCH'') = Inr req" "rqMethod req = lit ''PATCH''"
      "rqURL req = resourceURL sample_server ?p"
    using requestFor_record [OF one_address(1,2)] by blast
  have p: "record_params [] [] \<lparr> apNamespace := lit ''dns'', apName := one_name, apFieldManager := lit ''rfc2136'' \<rparr> = ?p"
    by (simp add: record_params_def)
  have obj: "recordObject (crd_init []) (lit ''dns'') one_name one_rr = Some one_object" by code_simp
  have "one_doer (setHeader h v req \<lparr> rqBody := b \<rparr>) False = (Some \<lparr> rsStatus = 201, rsContinue = [], rsBody = Some [] \<rparr>, True)" for h v b
    using req by (simp add: one_doer_def setHeader_def recordPath_URL) (simp add: lit_def)
  then have cd: "client_do one_client (setHeader h v req \<lparr> rqBody := b \<rparr>) False = ((201, [], None), True)" for h v b
    by (simp add: client_do_def one_client_def)
  have "lit ''rfc2136'' \<noteq> []" by (simp add: lit_def)
  then have "client_ApplyOrUpdate one_lib one_enc one_client ?p one_object False = (None, ?p, True)"
    by (simp add: client_ApplyOrUpdate_def req(1) cd one_enc_def)
  then show ?thesis by (simp add: applyRecord_def ParamsFor_record obj p)
qed

definition http_env :: "bool update_env" where
  "http_env = \<lparr> envUni = (\<lambda>s. s), envFold = (\<lambda>s t. s = t), envSHA256 = (\<lambda>d. replicate 32 0), envHMAC = (\<lambda>k d. []),
     envK8s = gatewayClient one_lib (crd_init []) one_enc one_dec one_client (lit ''dns'') \<rparr>"

definition http_handler :: "bool Handler" where
  "http_handler = \<lparr> hZone = lit ''example.'', cluster = False, updatesTotal = [], updateErrors = [], crNameOverflows = 0 \<rparr>"

definition http_message :: UMessage where
  "http_message = \<lparr> mHeader = \<lparr> hID = 7, hQR = False, hOpcode = 5, hAA = False, hTC = False, hRD = False, hRA = False,
     hZ = 0, hRcode = 0, hQDCount = 0, hANCount = 0, hNSCount = 1, hARCount = 0 \<rparr>, mZone = None,
     mPrerequisites = [], mUpdates = [sample_add], mAdditional = [], mTSIG = None, mRaw = [] \<rparr>"


text \<open>A server that lists the records of the sample zone on one page.\<close>

definition zone_object :: "RR \<Rightarrow> RR Object" where
  "zone_object rr = \<lparr> oAPIVersion = lit ''xfx1.de/v2'', oKind = lit ''DNSRecord'',
     oMetadata = \<lparr> mdName = [], mdNamespace = [], mdUID = [], mdLabels = [], mdAnnotations = [] \<rparr>, oSpec = rr \<rparr>"

definition zone_dec :: "bytes \<Rightarrow> RR Object option" where
  "zone_dec d = (if length d < length sane_records then Some (zone_object (sane_records ! length d)) else None)"

definition zone_lib :: k8s_lib where
  "zone_lib = \<lparr> libURL = sample_url_lib, jsonItems = (\<lambda>d. Some (Some (map (\<lambda>i. replicate i 0) [0..<length sane_records]))),
     jsonContinue = (\<lambda>d. Some []) \<rparr>"

definition zone_client :: "unit Client" where
  "zone_client = \<lparr> Doer = (\<lambda>req w. (Some \<lparr> rsStatus = 200, rsContinue = [], rsBody = Some [] \<rparr>, w)), apiURL = sample_api, apiToken = [] \<rparr>"

lemma zone_listed:
  "QueryApiWithParams zone_lib zone_dec zone_client (record_params (lit ''dns'') []) () = Some (Inr (map zone_object sane_records), ())"
proof -
  let ?p = "record_params (lit ''dns'') []" and ?items = "map (\<lambda>i. replicate i 0) [0..<length sane_records] :: bytes list"
  have "plain_params ?p" using record_params_plain one_plain(2) by blast
  moreover have "url_laws (libURL zone_lib)" "server_address (libURL zone_lib) (apiURL zone_client) sample_server"
    using sample_url_laws sample_server_address by (simp_all add: zone_lib_def zone_client_def)
  ultimately obtain req where req: "requestFor zone_lib zone_client ?p (lit ''GET'') = Inr req" using requestFor_record by blast
  have "fetched zone_lib zone_client req req () (pageItems zone_lib []) ()"
    by (rule last_page [where resp = "\<lparr> rsStatus = 200, rsContinue = [], rsBody = Some [] \<rparr>"])
      (simp_all add: zone_client_def zone_lib_def isPaginatedResponse_def)
  then have "QueryApi zone_lib zone_client ?p () = Some (Inr ?items, ())"
    unfolding QueryApi_fetched using req by (simp add: pageItems_def zone_lib_def)
  moreover have "map zone_dec ?items = map Some (map zone_object sane_records)"
    by (rule nth_equalityI) (simp_all add: zone_dec_def)
  then have "unmarshalAll zone_dec ?items = Some (map zone_object sane_records)" by (simp only: unmarshalAll_map)
  moreover have "sane_records \<noteq> []" by (simp add: sane_records_def)
  ultimately show ?thesis by (simp add: QueryApiWithParams_def)
qed

theorem rebuild_reads_whole_list_witness:
  "\<exists>d ms' req items objs. rebuild sample_menv sample_master (sample_input sane_records) = Some (Inr d, ms') \<and>
     fetched zone_lib zone_client req req () items () \<and> map zone_dec items = map Some objs \<and>
     serves_records d (published 7 (map oSpec objs))"
proof -
  let ?q = "QueryApiWithParams zone_lib zone_dec zone_client (record_params (lit ''dns'') []) ()"
  obtain d ms' where r: "rebuild sample_menv sample_master (sample_input sane_records) = Some (Inr d, ms')"
    using sample_rebuild [where ms = sample_master and objs = sane_records] by blast
  have "masterList ?q = Objects sane_records" by (simp add: zone_listed masterList_def zone_object_def comp_def)
  then have l: "inList (sample_input sane_records) = masterList ?q" by (simp add: sample_input_def)
  have z: "good_zone (mvUni sample_menv) (masterZone sample_master) sane_records"
    using sane_records_good sample_cfg(1) [of sample_master] by (simp add: sample_menv_def)
  then have z0: "good_zone (mvUni sample_menv) (masterZone sample_master) []" by (simp add: good_zone_def)
  have g: "\<forall>data obj. zone_dec data = Some obj \<longrightarrow> good_record (mvUni sample_menv) (oSpec obj)"
    using z by (auto simp: zone_dec_def zone_object_def good_zone_def list_all_length split: if_splits)
  have "inSerialNow (sample_input sane_records) = 7" by (simp add: sample_input_def)
  then show ?thesis using rebuild_reads_whole_list [OF l r z0 g sample_menv_laws(2,1)] r by (metis old.unit.exhaust)
qed

end
