(* ===== verification/Watch.thy ===== *)
theory Watch
  imports K8s_Client "HOL-Library.Sublist"
begin

text \<open>
  The watch of \<open>internal/watch\<close>: \<open>streamOnce\<close> reads one watch stream line by line and sends the events it wants to
  a channel, \<open>Watch\<close> reconnects for ever.

  A stream is the bytes received until it ended. \<open>bufio.Scanner\<close> is modelled with its limit of 64 KiB for a
  line. Decoding of an event is a parameter. The context may be cancelled at any moment: the answers of
  \<open>ctx.Err()\<close> and of the \<open>select\<close> statements are inputs. The channel is unbounded in effect, since a
  send blocks until there is room; the model gives the sequence of the events sent.
\<close>

subsection \<open>Lines\<close>

definition MaxScanTokenSize :: nat where "MaxScanTokenSize = 65536"

definition dropCR :: "bytes \<Rightarrow> bytes" where
  "dropCR l = (if l \<noteq> [] \<and> last l = 13 then butlast l else l)"

text \<open>The lines of a stream, without an empty rest behind the last line break.\<close>

definition streamLines :: "bytes \<Rightarrow> bytes list" where
  "streamLines body = (let parts = Split 10 body in if last parts = [] then butlast parts else parts)"

text \<open>The tokens of \<open>bufio.NewScanner\<close>: it stops at the first line that does not fit into its buffer.\<close>

definition scan :: "bytes \<Rightarrow> bytes list" where
  "scan body = map dropCR (takeWhile (\<lambda>l. length l < MaxScanTokenSize) (streamLines body))"

subsection \<open>One stream\<close>

type_synonym EventType = gostring

definition EventAdded :: EventType where "EventAdded = lit ''ADDED''"
definition EventModified :: EventType where "EventModified = lit ''MODIFIED''"
definition EventDeleted :: EventType where "EventDeleted = lit ''DELETED''"

record 't Event =
  evType :: EventType
  evObject :: "'t Object"

text \<open>The fields \<open>type\<close> and \<open>object\<close> of a line; \<open>None\<close> is a decoding error, a null object is \<open>None\<close> inside.\<close>

type_synonym 't wireDecoder = "bytes \<Rightarrow> (EventType \<times> 't Object option) option"

record cancellation =
  ctxErr :: "nat \<Rightarrow> bool"
  ctxDone :: "nat \<Rightarrow> bool"

fun streamLoop :: "'t wireDecoder \<Rightarrow> cancellation \<Rightarrow> nat \<Rightarrow> bytes list \<Rightarrow> 't Event list \<times> nat" where
  "streamLoop dec cc i [] = ([], 0)"
| "streamLoop dec cc i (line # rest) =
     (if ctxErr cc i then ([], 0)
      else if length line = 0 then streamLoop dec cc (i + 1) rest
      else (case dec line of
              None \<Rightarrow> (case streamLoop dec cc (i + 1) rest of (evs, errs) \<Rightarrow> (evs, errs + 1))
            | Some (ty, obj) \<Rightarrow>
                (if \<not> (ty = EventAdded \<or> ty = EventModified \<or> ty = EventDeleted) then streamLoop dec cc (i + 1) rest
                 else (case obj of
                         None \<Rightarrow> streamLoop dec cc (i + 1) rest
                       | Some ob \<Rightarrow>
                           (if ctxDone cc i then ([], 0)
                            else (case streamLoop dec cc (i + 1) rest of
                                    (evs, errs) \<Rightarrow> (\<lparr> evType = ty, evObject = ob \<rparr> # evs, errs)))))))"

text \<open>The events sent and the number of lines that did not decode. The status code is not looked at.\<close>

definition streamOnce :: "'t wireDecoder \<Rightarrow> cancellation \<Rightarrow> k8s_error + HttpResponse \<Rightarrow> 't Event list \<times> nat" where
  "streamOnce dec cc resp =
     (case resp of
        Inl err \<Rightarrow> ([], 0)
      | Inr r \<Rightarrow> streamLoop dec cc 0 (scan (case rsBody r of Some d \<Rightarrow> d | None \<Rightarrow> [])))"

subsection \<open>The reconnecting loop\<close>

text \<open>One round of the loop: whether the context was cancelled before it, the answer to the request, the answers of the
  context during the stream, and whether it was cancelled during the pause.\<close>

record watch_round =
  wrErr :: bool
  wrResp :: "k8s_error + HttpResponse"
  wrCancel :: cancellation
  wrPause :: bool

fun Watch :: "'t wireDecoder \<Rightarrow> watch_round list \<Rightarrow> 't Event list \<times> nat" where
  "Watch dec [] = ([], 0)"
| "Watch dec (r # rs) =
     (if wrErr r then ([], 0)
      else (case streamOnce dec (wrCancel r) (wrResp r) of
              (evs, errs) \<Rightarrow>
                (if wrPause r then (evs, errs)
                 else (case Watch dec rs of (evs', errs') \<Rightarrow> (evs @ evs', errs + errs')))))"

text \<open>The request of every round: \<open>Watch\<close> is set in a copy of the parameters.\<close>

definition watchParams :: "ApiRequestParams \<Rightarrow> ApiRequestParams" where
  "watchParams p = p \<lparr> apWatch := True \<rparr>"

subsection \<open>What is delivered\<close>

definition wanted :: "'t wireDecoder \<Rightarrow> bytes \<Rightarrow> 't Event option" where
  "wanted dec line =
     (case dec line of
        Some (ty, Some ob) \<Rightarrow>
          (if line \<noteq> [] \<and> ty \<in> {EventAdded, EventModified, EventDeleted} then Some \<lparr> evType = ty, evObject = ob \<rparr> else None)
      | _ \<Rightarrow> None)"

definition bodyOf :: "watch_round \<Rightarrow> bytes" where
  "bodyOf r = (case wrResp r of Inr x \<Rightarrow> (case rsBody x of Some d \<Rightarrow> d | None \<Rightarrow> []) | Inl err \<Rightarrow> [])"

definition quiet :: "watch_round \<Rightarrow> bool" where
  "quiet r \<longleftrightarrow> \<not> wrErr r \<and> \<not> wrPause r \<and> ctxErr (wrCancel r) = (\<lambda>_. False) \<and> ctxDone (wrCancel r) = (\<lambda>_. False)"

lemma streamLoop_prefix: "prefix (fst (streamLoop dec cc i ls)) (List.map_filter (wanted dec) ls)"
  by (induction ls arbitrary: i) (auto simp: List.map_filter_simps wanted_def case_prod_beta split: option.split)

lemma streamLoop_all:
  assumes "ctxErr cc = (\<lambda>_. False)" "ctxDone cc = (\<lambda>_. False)"
  shows "streamLoop dec cc i ls = (List.map_filter (wanted dec) ls, length (filter (\<lambda>l. l \<noteq> [] \<and> dec l = None) ls))"
  using assms by (induction ls arbitrary: i) (auto simp: List.map_filter_simps wanted_def case_prod_beta split: option.split)

lemma scan_Nil: "scan [] = []"
  by (simp add: scan_def streamLines_def)

lemma streamOnce_prefix: "prefix (fst (streamOnce dec cc (wrResp r))) (List.map_filter (wanted dec) (scan (bodyOf r)))"
  using streamLoop_prefix by (auto simp: streamOnce_def bodyOf_def split: sum.split option.split)

lemma streamOnce_quiet:
  assumes "quiet r"
  shows "streamOnce dec (wrCancel r) (wrResp r) =
    (List.map_filter (wanted dec) (scan (bodyOf r)), length (filter (\<lambda>l. l \<noteq> [] \<and> dec l = None) (scan (bodyOf r))))"
  using assms streamLoop_all [of "wrCancel r"]
  by (auto simp: streamOnce_def bodyOf_def quiet_def scan_Nil List.map_filter_simps split: sum.split option.split)

definition received :: "watch_round \<Rightarrow> bytes list" where
  "received r = map dropCR (streamLines (bodyOf r))"

definition short_lines :: "watch_round \<Rightarrow> bool" where
  "short_lines r \<longleftrightarrow> list_all (\<lambda>l. length l < MaxScanTokenSize) (streamLines (bodyOf r))"

lemma scan_prefix: "prefix (scan (bodyOf r)) (received r)"
  by (simp add: scan_def received_def takeWhile_is_prefix map_mono_prefix)

lemma scan_short: "short_lines r \<Longrightarrow> scan (bodyOf r) = received r"
  by (simp add: scan_def received_def short_lines_def list_all_iff takeWhile_eq_all_conv [THEN iffD2])

lemma map_filter_prefix: "prefix xs ys \<Longrightarrow> prefix (List.map_filter f xs) (List.map_filter f ys)"
  by (auto simp: prefix_def List.map_filter_def)

lemma Watch_subseq: "subseq (fst (Watch dec rs)) (concat (map (List.map_filter (wanted dec) \<circ> received) rs))"
proof (induction rs)
  case (Cons r rs)
  have "prefix (fst (streamOnce dec (wrCancel r) (wrResp r))) (List.map_filter (wanted dec) (received r))"
    using streamOnce_prefix map_filter_prefix [OF scan_prefix] prefix_order.trans by blast
  then have s: "subseq (fst (streamOnce dec (wrCancel r) (wrResp r))) (List.map_filter (wanted dec) (received r))"
    by (rule prefix_imp_subseq)
  show ?case using s list_emb_append_mono [OF s Cons.IH] list_emb_append2 [OF s]
    by (auto simp: case_prod_beta)
qed simp

lemma Watch_quiet:
  "list_all quiet rs \<and> list_all short_lines rs \<longrightarrow>
     Watch dec rs = (concat (map (List.map_filter (wanted dec) \<circ> received) rs),
       length (filter (\<lambda>l. l \<noteq> [] \<and> dec l = None) (concat (map received rs))))"
  by (induction rs) (auto simp: streamOnce_quiet scan_short quiet_def)

text \<open>C24: A watch invents, repeats and reorders nothing: whatever the server sends and whenever the context is
  cancelled, the events delivered are a subsequence of the events in the lines received (the lines that
  decode to an added, modified or deleted object), over all connections in order. As long as the context is not
  cancelled and no line exceeds the scanner's limit, every one of these events is delivered, and the parse
  errors counted are the non-empty lines that do not decode.\<close>

theorem Watch_delivers:
  "subseq (fst (Watch dec rs)) (concat (map (List.map_filter (wanted dec) \<circ> received) rs)) \<and>
   (list_all quiet rs \<and> list_all short_lines rs \<longrightarrow>
      Watch dec rs = (concat (map (List.map_filter (wanted dec) \<circ> received) rs),
        length (filter (\<lambda>l. l \<noteq> [] \<and> dec l = None) (concat (map received rs)))))"
  using Watch_subseq Watch_quiet by blast

text \<open>A line beyond the limit ends its stream: nothing behind it is delivered, and the next connection starts anew.\<close>

theorem long_line_ends_stream:
  assumes "MaxScanTokenSize \<le> length l" "10 \<notin> set l" shows "scan (l @ 10 # rest) = []"
proof -
  have "streamLines (l @ 10 # rest) = l # (if last (Split 10 rest) = [] then butlast (Split 10 rest) else Split 10 rest)"
    using assms(2) by (simp add: streamLines_def Split_append Split_no_sep)
  then show ?thesis using assms(1) by (simp add: scan_def)
qed

subsection \<open>An example\<close>

definition sample_dec :: "unit wireDecoder" where
  "sample_dec line =
     (if line = lit ''x'' then None
      else if line = lit ''b'' then Some (lit ''BOOKMARK'', None)
      else Some (EventAdded, Some \<lparr> oAPIVersion = [], oKind = [], oMetadata = \<lparr> mdName = line, mdNamespace = [], mdUID = [], mdLabels = [], mdAnnotations = [] \<rparr>, oSpec = () \<rparr>))"

definition sample_round :: "bytes \<Rightarrow> watch_round" where
  "sample_round body = \<lparr> wrErr = False, wrResp = Inr \<lparr> rsStatus = 200, rsContinue = [], rsBody = Some body \<rparr>,
     wrCancel = \<lparr> ctxErr = (\<lambda>_. False), ctxDone = (\<lambda>_. False) \<rparr>, wrPause = False \<rparr>"

theorem Watch_delivers_witness:
  "Watch sample_dec [sample_round (lit ''a'' @ [10] @ lit ''b'' @ [13, 10] @ lit ''x'' @ [10]), sample_round (lit ''c'')] =
     (List.map_filter (wanted sample_dec) [lit ''a'', lit ''c''], 1)"
proof -
  let ?rs = "[sample_round (lit ''a'' @ [10] @ lit ''b'' @ [13, 10] @ lit ''x'' @ [10]), sample_round (lit ''c'')]"
  have "list_all quiet ?rs" by (simp add: quiet_def sample_round_def)
  moreover have l: "map (streamLines \<circ> bodyOf) ?rs = [[lit ''a'', lit ''b'' @ [13], lit ''x''], [lit ''c'']]"
    by (simp add: bodyOf_def sample_round_def streamLines_def lit_def)
  then have "list_all short_lines ?rs" by (simp add: short_lines_def MaxScanTokenSize_def lit_def)
  moreover have "map received ?rs = [[lit ''a'', lit ''b'', lit ''x''], [lit ''c'']]"
    using l by (simp add: received_def dropCR_def lit_def)
  ultimately show ?thesis
    using Watch_delivers [of sample_dec ?rs] by (simp add: List.map_filter_simps wanted_def sample_dec_def lit_def)
qed

end
