(* ===== verification/Commands.thy ===== *)
theory Commands
  imports Watch Config Rate_Limit
begin

text \<open>
  Starting and reloading the services: the \<open>main\<close> functions of \<open>cmd/master\<close>, \<open>cmd/slave\<close>, \<open>cmd/router\<close> and
  \<open>cmd/rfc2136\<close>, with \<open>log/level.go\<close>, \<open>runtime/config.go\<close> and \<open>runtime/status.go\<close>.

  The environment variables are a function that gives the empty string for an unset variable,
  \<open>time.ParseDuration\<close> and the decoder of the configuration resource are parameters. An exit by
  \<open>log.Fatal\<close> is an error value. One run of \<open>runtime.Run\<close> is an input of the loop: it failed, or it ended
  with a reload pending, or without one; the channels pass the configurations in order.
\<close>

subsection \<open>Log levels\<close>

definition levelNames :: "(int \<times> gostring) list" where
  "levelNames = [(0, lit ''debug''), (1, lit ''info''), (2, lit ''error'')]"

definition levelFromName :: "(gostring \<times> int) list" where
  "levelFromName = [(lit ''debug'', 0), (lit ''info'', 1), (lit ''error'', 2)]"

definition LogLevel_String :: "int \<Rightarrow> gostring" where
  "LogLevel_String l =
     (case map_of levelNames l of Some name \<Rightarrow> name
      | None \<Rightarrow> lit ''unknown('' @ (if l < 0 then lit ''-'' @ FormatNat (nat (- l)) else FormatNat (nat l)) @ lit '')'')"

text \<open>\<open>Inl\<close> carries the name that is not a level.\<close>

definition ReadLogLevelFromEnv :: "unilower \<Rightarrow> (gostring \<Rightarrow> gostring) \<Rightarrow> gostring + int" where
  "ReadLogLevelFromEnv uni getenv =
     (let ll = getenv (lit ''LOG_LEVEL'')
      in if ll = [] then Inr 0
         else (let ll' = ToLower uni ll in case map_of levelFromName ll' of Some level \<Rightarrow> Inr level | None \<Rightarrow> Inl ll'))"

subsection \<open>Runtime configuration and status\<close>

definition badPorts :: "16 word list" where "badPorts = [10250, 10256, 10257, 10259, 10260]"

record rtConfig =
  healthPort :: "16 word"
  metricsPort :: "16 word"
  hasCancelCh :: bool

datatype rtOption = WithHealthPort "16 word" | WithMetricsPort "16 word" | WithLogger | WithCancelChannel

fun applyOption :: "rtConfig \<Rightarrow> rtOption \<Rightarrow> rtConfig" where
  "applyOption c (WithHealthPort hp) = c \<lparr> healthPort := hp \<rparr>"
| "applyOption c (WithMetricsPort mp) = c \<lparr> metricsPort := mp \<rparr>"
| "applyOption c WithLogger = c"
| "applyOption c WithCancelChannel = c \<lparr> hasCancelCh := True \<rparr>"

datatype rt_error = InvalidHealthPort "16 word" | InvalidMetricsPort "16 word" | BadPort "16 word"

definition rtValidate :: "rtConfig \<Rightarrow> rt_error option" where
  "rtValidate c =
     (if healthPort c \<le> 1024 then Some (InvalidHealthPort (healthPort c))
      else if metricsPort c \<noteq> 0 \<and> metricsPort c \<le> 1024 then Some (InvalidMetricsPort (metricsPort c))
      else if healthPort c \<in> set badPorts then Some (BadPort (healthPort c))
      else None)"

text \<open>The configuration \<open>Run\<close> builds from its options, or the error it returns.\<close>

definition runConfig :: "rtOption list \<Rightarrow> rt_error + rtConfig" where
  "runConfig opts =
     (let cfg = foldl applyOption \<lparr> healthPort = 0, metricsPort = 0, hasCancelCh = False \<rparr> opts
      in case rtValidate cfg of Some err \<Rightarrow> Inl err | None \<Rightarrow> Inr cfg)"

record StatusMessage =
  smStatus :: bool
  smMessage :: gostring
  smStatusCode :: nat

definition StatusOK :: "gostring \<Rightarrow> StatusMessage" where "StatusOK msg = \<lparr> smStatus = True, smMessage = msg, smStatusCode = 200 \<rparr>"
definition StatusNotReady :: "gostring \<Rightarrow> StatusMessage" where "StatusNotReady msg = \<lparr> smStatus = False, smMessage = msg, smStatusCode = 503 \<rparr>"
definition StatusUnhealthy :: "gostring \<Rightarrow> StatusMessage" where "StatusUnhealthy msg = \<lparr> smStatus = False, smMessage = msg, smStatusCode = 500 \<rparr>"

definition WriteStatus :: "StatusMessage \<Rightarrow> nat \<times> gostring" where
  "WriteStatus s = (smStatusCode s, smMessage s)"

subsection \<open>Loading and checking the configuration\<close>

datatype start_error = NoNamespace | BadLogLevel gostring | NoClient | ConfigParams k8s_error | ConfigQuery k8s_error | ConfigNotFound
  | NoZone | BadPollInterval gostring | BadForwardTimeout gostring | NoTSIGSecret

definition DNSConfigName :: gostring where "DNSConfigName = lit ''xfx1-dns''"

definition loadDNSConfig ::
  "k8s_lib \<Rightarrow> registry \<Rightarrow> (bytes \<Rightarrow> DNSConfigSpec Object option) \<Rightarrow> 'w Client \<Rightarrow> gostring \<Rightarrow> 'w \<Rightarrow>
    ((start_error + DNSConfigSpec) \<times> 'w) option" where
  "loadDNSConfig lib reg dec c ns w =
     (case ParamsFor (lit ''crd.DNSConfigSpec'') reg of
        Inl err \<Rightarrow> Some (Inl (ConfigParams err), w)
      | Inr p \<Rightarrow> do {
          (r, w') \<leftarrow> QueryApiWithParams lib dec c (p \<lparr> apNamespace := ns, apName := DNSConfigName \<rparr>) w;
          (case r of
             Inl err \<Rightarrow> Some (Inl (ConfigQuery err), w')
           | Inr [] \<Rightarrow> Some (Inl ConfigNotFound, w')
           | Inr (obj # objs) \<Rightarrow>
               (if globalZone (Global (oSpec obj)) = [] then Some (Inl NoZone, w') else Some (Inr (oSpec obj), w')))
        })"

definition validateConfig :: "(gostring \<Rightarrow> duration option) \<Rightarrow> DNSConfigSpec \<Rightarrow> start_error option" where
  "validateConfig parseDuration cfg =
     (if PollInterval (cfgSlave cfg) \<noteq> [] \<and> parseDuration (PollInterval (cfgSlave cfg)) = None
      then Some (BadPollInterval (PollInterval (cfgSlave cfg)))
      else if ForwardTimeout (cfgRouter cfg) \<noteq> [] \<and> parseDuration (ForwardTimeout (cfgRouter cfg)) = None
      then Some (BadForwardTimeout (ForwardTimeout (cfgRouter cfg)))
      else None)"

text \<open>The checks of the four commands on the loaded configuration.\<close>

datatype service = MasterService | SlaveService | RouterService | UpdateService

definition checkSlave :: "(gostring \<Rightarrow> duration option) \<Rightarrow> DNSConfigSpec \<Rightarrow> start_error option" where
  "checkSlave parseDuration cfg =
     (if PollInterval (cfgSlave cfg) \<noteq> [] \<and> parseDuration (PollInterval (cfgSlave cfg)) = None
      then Some (BadPollInterval (PollInterval (cfgSlave cfg))) else None)"

definition checkRouter :: "(gostring \<Rightarrow> duration option) \<Rightarrow> DNSConfigSpec \<Rightarrow> start_error option" where
  "checkRouter parseDuration cfg =
     (if ForwardTimeout (cfgRouter cfg) \<noteq> [] \<and> parseDuration (ForwardTimeout (cfgRouter cfg)) = None
      then Some (BadForwardTimeout (ForwardTimeout (cfgRouter cfg))) else None)"

definition checkUpdate :: "DNSConfigSpec \<Rightarrow> start_error option" where
  "checkUpdate cfg = (if TSIGSecret (cfgRFC2136 cfg) = [] then Some NoTSIGSecret else None)"

definition checkConfig :: "(gostring \<Rightarrow> duration option) \<Rightarrow> service \<Rightarrow> DNSConfigSpec \<Rightarrow> start_error option" where
  "checkConfig parseDuration svc cfg =
     (case svc of
        MasterService \<Rightarrow> validateConfig parseDuration cfg
      | SlaveService \<Rightarrow> checkSlave parseDuration cfg
      | RouterService \<Rightarrow> checkRouter parseDuration cfg
      | UpdateService \<Rightarrow> checkUpdate cfg)"

lemmas check_defs = checkConfig_def validateConfig_def checkSlave_def checkRouter_def checkUpdate_def

text \<open>A command up to the start of its service. \<open>newClient\<close> is the result of \<open>NewDefaultK8sClient\<close>.\<close>

definition start ::
  "unilower \<Rightarrow> (gostring \<Rightarrow> gostring) \<Rightarrow> (gostring \<Rightarrow> duration option) \<Rightarrow> k8s_lib \<Rightarrow> (bytes \<Rightarrow> DNSConfigSpec Object option) \<Rightarrow>
    'w Client option \<Rightarrow> service \<Rightarrow> 'w \<Rightarrow> ((start_error + DNSConfigSpec) \<times> 'w) option" where
  "start uni getenv parseDuration lib dec newClient svc w =
     (let namespace = getenv (lit ''NAMESPACE'')
      in if namespace = [] then Some (Inl NoNamespace, w)
         else (case ReadLogLevelFromEnv uni getenv of
                 Inl l \<Rightarrow> Some (Inl (BadLogLevel l), w)
               | Inr level \<Rightarrow>
                   (case newClient of
                      None \<Rightarrow> Some (Inl NoClient, w)
                    | Some c \<Rightarrow> do {
                        (r, w') \<leftarrow> loadDNSConfig lib (crd_init []) dec c namespace w;
                        (case r of
                           Inl err \<Rightarrow> Some (Inl err, w')
                         | Inr cfg \<Rightarrow>
                             (case checkConfig parseDuration svc cfg of
                                Some err \<Rightarrow> Some (Inl err, w')
                              | None \<Rightarrow> Some (Inr cfg, w')))
                      })))"

subsection \<open>Reloading\<close>

text \<open>What the goroutine that watches the configuration sends to \<open>cfgCh\<close>.\<close>

definition configUpdates :: "'c Event list \<Rightarrow> 'c list" where
  "configUpdates evs = map (\<lambda>ev. oSpec (evObject ev)) (filter (\<lambda>ev. evType ev \<noteq> EventAdded) evs)"

text \<open>The end of one run of a service: it failed, it was asked to reload (with a new configuration, or because of a
  new certificate), or it ended otherwise.\<close>

datatype 'c run_end = RunFailed | ReloadConfig 'c | ReloadCert | RunDone

datatype exit = Fatal | Clean | Running

text \<open>The loop of \<open>main\<close>: the configurations that the service ran with, and how the process ended.\<close>

fun mainLoop :: "'c \<Rightarrow> 'c run_end list \<Rightarrow> 'c list \<times> exit" where
  "mainLoop cfg [] = ([cfg], Running)"
| "mainLoop cfg (r # rs) =
     (case r of
        RunFailed \<Rightarrow> ([cfg], Fatal)
      | RunDone \<Rightarrow> ([cfg], Clean)
      | ReloadConfig cfg' \<Rightarrow> (case mainLoop cfg' rs of (cs, e) \<Rightarrow> (cfg # cs, e))
      | ReloadCert \<Rightarrow> (case mainLoop cfg rs of (cs, e) \<Rightarrow> (cfg # cs, e)))"

subsection \<open>Properties\<close>

lemma level_roundtrip:
  assumes "l \<in> {0, 1, 2}" shows "ReadLogLevelFromEnv uni (\<lambda>v. LogLevel_String l) = Inr l"
proof -
  have "is_ascii (LogLevel_String l) \<and> LogLevel_String l \<noteq> [] \<and> map_of levelFromName (map lower_byte (LogLevel_String l)) = Some l"
    using assms by (auto simp: LogLevel_String_def levelNames_def levelFromName_def lit_def is_ascii_def lower_byte_def)
  then show ?thesis by (simp add: ReadLogLevelFromEnv_def ToLower_ascii)
qed

text \<open>The ports that the commands pass to \<open>Run\<close> are accepted.\<close>

lemma command_ports: "\<exists>cfg. runConfig [WithCancelChannel, WithHealthPort 8081, WithMetricsPort 9090, WithLogger] = Inr cfg"
  by (simp add: runConfig_def rtValidate_def badPorts_def)

text \<open>A service starts only with a configuration that exists and passes its checks: the namespace is set,
  the configuration is the first object that a complete answer of the API decodes to, it names a zone, and the
  durations (or the TSIG secret) that the command relies on are in order.\<close>

theorem start_only_checked:
  assumes "start uni getenv parseDuration lib dec newClient svc w = Some (Inr cfg, w')"
  shows "\<exists>c req items objs. newClient = Some c \<and> getenv (lit ''NAMESPACE'') \<noteq> [] \<and>
    fetched lib c req req w items w' \<and> map dec items = map Some objs \<and> objs \<noteq> [] \<and> cfg = oSpec (hd objs) \<and>
    globalZone (Global cfg) \<noteq> [] \<and> checkConfig parseDuration svc cfg = None"
proof -
  let ?ns = "getenv (lit ''NAMESPACE'')"
  obtain c level where c: "newClient = Some c" "?ns \<noteq> []" "ReadLogLevelFromEnv uni getenv = Inr level"
    using assms by (auto simp: start_def Let_def split: if_splits sum.splits option.splits)
  obtain r w1 where r: "loadDNSConfig lib (crd_init []) dec c ?ns w = Some (r, w1)"
    using assms c by (cases "loadDNSConfig lib (crd_init []) dec c ?ns w") (auto simp: start_def)
  have l: "loadDNSConfig lib (crd_init []) dec c ?ns w = Some (Inr cfg, w')" and k: "checkConfig parseDuration svc cfg = None"
    using assms c r by (auto simp: start_def split: sum.splits option.splits)
  obtain p where p: "ParamsFor (lit ''crd.DNSConfigSpec'') (crd_init []) = Inr p" using l by (auto simp: loadDNSConfig_def split: sum.splits)
  let ?p = "p \<lparr> apNamespace := ?ns, apName := DNSConfigName \<rparr>"
  obtain r2 w2 where q2: "QueryApiWithParams lib dec c ?p w = Some (r2, w2)"
    using l p by (cases "QueryApiWithParams lib dec c ?p w") (auto simp: loadDNSConfig_def)
  obtain objs where q: "QueryApiWithParams lib dec c ?p w = Some (Inr objs, w')"
      and o: "objs \<noteq> []" "cfg = oSpec (hd objs)" "globalZone (Global cfg) \<noteq> []"
    using l p q2 by (auto simp: loadDNSConfig_def split: sum.splits list.splits if_splits)
  obtain req items where "fetched lib c req req w items w'" "map dec items = map Some objs"
    using QueryApiWithParams_fetched [OF q, of objs] by blast
  then show ?thesis using c k o by blast
qed

text \<open>The services follow the configuration. While the watch is undisturbed, the configurations that a service
  runs with are the initial one and then, in order and without gaps, the one of every modification (or
  deletion) event that the API server sent.\<close>

theorem service_follows_config:
  assumes "list_all quiet rs" "list_all short_lines rs"
  shows "mainLoop cfg (map ReloadConfig (configUpdates (fst (Watch dec rs)))) =
    (cfg # map (\<lambda>ev. oSpec (evObject ev))
       (filter (\<lambda>ev. evType ev \<noteq> EventAdded) (concat (map (List.map_filter (wanted dec) \<circ> received) rs))), Running)"
proof -
  have "mainLoop cfg (map ReloadConfig cs) = (cfg # cs, Running)" for cs by (induction cs arbitrary: cfg) auto
  then show ?thesis using Watch_quiet [of rs dec] assms by (simp add: configUpdates_def del: map_map)
qed

subsection \<open>What a reload misses\<close>

text \<open>A stream of events of a configuration resource: the first byte of a line is the event, the rest the text that
  stands for the configuration.\<close>

definition config_dec :: "gostring wireDecoder" where
  "config_dec line =
     (let ob = \<lparr> oAPIVersion = [], oKind = [], oMetadata = \<lparr> mdName = DNSConfigName, mdNamespace = [], mdUID = [], mdLabels = [], mdAnnotations = [] \<rparr>,
                 oSpec = tl line \<rparr>
      in Some (if hd line = 65 then EventAdded else EventModified, Some ob))"

lemma Split_length: "l \<in> set (Split sep s) \<Longrightarrow> length l \<le> length s"
  by (induction s arbitrary: l) (fastforce split: if_splits list.splits)+

lemma short_rounds:
  assumes "\<forall>body \<in> set bodies. length body < 100"
  shows "list_all quiet (map sample_round bodies)" "list_all short_lines (map sample_round bodies)"
proof -
  have "length l < MaxScanTokenSize" if "body \<in> set bodies" "l \<in> set (streamLines body)" for body l
  proof -
    have "l \<in> set (Split 10 body)" using that(2) in_set_butlastD by (fastforce simp: streamLines_def Let_def split: if_splits)
    then have "length l \<le> length body" by (rule Split_length)
    then show ?thesis using assms that(1) by (force simp: MaxScanTokenSize_def)
  qed
  then show "list_all short_lines (map sample_round bodies)"
    by (auto simp: short_lines_def list_all_iff bodyOf_def sample_round_def)
qed (auto simp: list_all_iff quiet_def sample_round_def)

text \<open>A configuration that changes between two connections of the watch is announced by the second one as an added
  object; the command skips such events, so the service keeps the old configuration.\<close>

theorem config_change_between_connections:
  "Watch config_dec [sample_round (lit ''Aold'' @ [10]), sample_round (lit ''Anew'' @ [10])] \<noteq> ([], 0) \<and>
   configUpdates (fst (Watch config_dec [sample_round (lit ''Aold'' @ [10]), sample_round (lit ''Anew'' @ [10])])) = []"
proof -
  let ?rs = "[sample_round (lit ''Aold'' @ [10]), sample_round (lit ''Anew'' @ [10])]"
  have "concat (map (List.map_filter (wanted config_dec) \<circ> received) ?rs) = List.map_filter (wanted config_dec) [lit ''Aold'', lit ''Anew'']"
    by code_simp
  moreover have "List.map_filter (wanted config_dec) [lit ''Aold'', lit ''Anew''] \<noteq> [] \<and>
      configUpdates (List.map_filter (wanted config_dec) [lit ''Aold'', lit ''Anew'']) = []" by code_simp
  ultimately show ?thesis
    using Watch_quiet [of ?rs config_dec] short_rounds [of "[lit ''Aold'' @ [10], lit ''Anew'' @ [10]]"] by (auto simp: lit_def)
qed

text \<open>The checks that a configuration has to pass at the start are not repeated for a reload.\<close>

theorem reload_not_checked:
  "\<exists>cfg. checkConfig (\<lambda>s. None) SlaveService zeroConfig = None \<and> checkConfig (\<lambda>s. None) SlaveService cfg \<noteq> None \<and>
     mainLoop zeroConfig [ReloadConfig cfg] = ([zeroConfig, cfg], Running)"
  by (intro exI [of _ "zeroConfig \<lparr> cfgSlave := (cfgSlave zeroConfig) \<lparr> PollInterval := lit ''soon'' \<rparr> \<rparr>"])
    (simp add: check_defs zeroConfig_def lit_def)

subsection \<open>Examples\<close>

theorem service_follows_config_witness:
  "mainLoop (lit ''old'') (map ReloadConfig (configUpdates (fst (Watch config_dec [sample_round (lit ''Aold'' @ [10] @ lit ''Mnew'' @ [10])])))) =
     ([lit ''old'', lit ''new''], Running)"
proof -
  let ?rs = "[sample_round (lit ''Aold'' @ [10] @ lit ''Mnew'' @ [10])]"
  have "map (\<lambda>ev. oSpec (evObject ev)) (filter (\<lambda>ev. evType ev \<noteq> EventAdded) (concat (map (List.map_filter (wanted config_dec) \<circ> received) ?rs))) =
      [lit ''new'']" by code_simp
  moreover have "list_all quiet ?rs" "list_all short_lines ?rs"
    using short_rounds [of "[lit ''Aold'' @ [10] @ lit ''Mnew'' @ [10]]"] by (simp_all add: lit_def)
  ultimately show ?thesis using service_follows_config [of ?rs "lit ''old''" config_dec] by simp
qed

text \<open>A server that answers every request with one configuration object.\<close>

definition start_cfg :: DNSConfigSpec where
  "start_cfg = zeroConfig \<lparr> Global := \<lparr> globalZone = lit ''example.'', LogLevel = [] \<rparr> \<rparr>"

definition start_object :: "DNSConfigSpec Object" where
  "start_object = \<lparr> oAPIVersion = lit ''xfx1.de/v2'', oKind = lit ''DNSConfig'',
     oMetadata = \<lparr> mdName = DNSConfigName, mdNamespace = lit ''dns'', mdUID = [], mdLabels = [], mdAnnotations = [] \<rparr>, oSpec = start_cfg \<rparr>"

definition start_lib :: k8s_lib where
  "start_lib = \<lparr> libURL = sample_url_lib, jsonItems = (\<lambda>d. Some None), jsonContinue = (\<lambda>d. Some []) \<rparr>"

definition start_client :: "unit Client" where
  "start_client = \<lparr> Doer = (\<lambda>req w. (Some \<lparr> rsStatus = 200, rsContinue = [], rsBody = Some [1] \<rparr>, w)), apiURL = sample_api, apiToken = [] \<rparr>"

lemma started:
  "start (\<lambda>s. s) (\<lambda>v. if v = lit ''NAMESPACE'' then lit ''dns'' else []) (\<lambda>s. None) start_lib (\<lambda>d. Some start_object) (Some start_client)
     RouterService () = Some (Inr start_cfg, ())"
proof -
  let ?p = "\<lparr> apGroup = lit ''xfx1.de'', apVersion = lit ''v2'', apNamespace = lit ''dns'', apResourceType = lit ''dnsconfigs'',
      apName = DNSConfigName, apWatch = False, apLabelSelector = [], apFieldSelector = [], apFieldManager = [] \<rparr>"
  have "plain_params ?p" by (simp add: plain_params_def plain_segment_def lit_def slash_def DNSConfigName_def)
  moreover have "url_laws (libURL start_lib)" "server_address (libURL start_lib) (apiURL start_client) sample_server"
    using sample_url_laws sample_server_address by (simp_all add: start_lib_def start_client_def)
  ultimately obtain s where "params_URL (libURL start_lib) ?p (apiURL start_client) = Inr s" "urlParse (libURL start_lib) s = Some (resourceURL sample_server ?p)"
    using params_URL_parses by blast
  then obtain req where req: "requestFor start_lib start_client ?p (lit ''GET'') = Inr req" by (simp add: requestFor_def makeRequest_def)
  have "fetched start_lib start_client req req () (pageItems start_lib [1]) ()"
    by (rule last_page [where resp = "\<lparr> rsStatus = 200, rsContinue = [], rsBody = Some [1] \<rparr>"])
      (simp_all add: start_client_def start_lib_def isPaginatedResponse_def)
  then have "QueryApi start_lib start_client ?p () = Some (Inr [[1]], ())"
    unfolding QueryApi_fetched using req by (simp add: pageItems_def start_lib_def)
  then have q: "QueryApiWithParams start_lib (\<lambda>d. Some start_object) start_client ?p () = Some (Inr [start_object], ())"
    by (simp add: QueryApiWithParams_def)
  have "ParamsFor (lit ''crd.DNSConfigSpec'') (crd_init []) = Inr (?p \<lparr> apNamespace := [], apName := [] \<rparr>)" by code_simp
  then have "loadDNSConfig start_lib (crd_init []) (\<lambda>d. Some start_object) start_client (lit ''dns'') () = Some (Inr start_cfg, ())"
    using q by (simp add: loadDNSConfig_def) (simp add: start_object_def start_cfg_def lit_def)
  moreover have "checkConfig (\<lambda>s. None) RouterService start_cfg = None" by (simp add: check_defs start_cfg_def zeroConfig_def)
  moreover have "lit ''LOG_LEVEL'' \<noteq> lit ''NAMESPACE''" "lit ''dns'' \<noteq> []" by (simp_all add: lit_def)
  ultimately show ?thesis by (simp add: start_def ReadLogLevelFromEnv_def)
qed

theorem start_only_checked_witness:
  "globalZone (Global start_cfg) = lit ''example.'' \<and>
   (\<exists>req items. fetched start_lib start_client req req () items () \<and> items \<noteq> [])"
proof -
  obtain req items objs where "fetched start_lib start_client req req () items ()" "map (\<lambda>d. Some start_object) items = map Some objs" "objs \<noteq> []"
    using start_only_checked [OF started] by auto
  moreover from this(2,3) have "items \<noteq> []" by (cases items) auto
  ultimately show ?thesis by (auto simp: start_cfg_def)
qed

end
