(* ===== verification/IP_Text.thy ===== *)
theory IP_Text
  imports IP_Parse
begin

text \<open>
  The text form of IP addresses, after \<open>net.IP.String\<close>, \<open>MarshalText\<close> and \<open>UnmarshalText\<close> of Go's standard library,
  which is what the JSON form of A and AAAA records contains. The main lemma is that a printed address parses to
  the same address, in the 16-byte form that \<open>ParseIP\<close> returns.
\<close>

definition string4 :: "bytes \<Rightarrow> gostring" where
  "string4 v4 = Join (lit ''.'') (map (\<lambda>b. FormatNat (unat b)) v4)"

definition IP_String :: "bytes \<Rightarrow> gostring" where
  "IP_String ip =
     (case To4 ip of
        Some v4 \<Rightarrow> string4 v4
      | None \<Rightarrow> if length ip = 16 then string6 ip else stringOther ip)"

definition IP_MarshalText :: "bytes \<Rightarrow> gostring option" where
  "IP_MarshalText ip =
     (if ip = [] then Some [] else if length ip \<noteq> 4 \<and> length ip \<noteq> 16 then None else Some (IP_String ip))"

definition IP_UnmarshalText :: "gostring \<Rightarrow> bytes option" where
  "IP_UnmarshalText text = (if text = [] then Some [] else ParseIP text)"

subsection \<open>Dotted decimal\<close>

lemma decNat_FormatNat: "decNat (FormatNat n) = n"
  using readDec_FormatNat [of n] by (simp add: decNat_def readDec_def)

lemma FormatNat_all_digits: "list_all is_digit (FormatNat n)"
  using FormatNat_digits by (auto simp: list_all_iff is_digit_def)

lemma FormatNat_nonempty [simp]: "FormatNat n \<noteq> []"
  by (subst FormatNat.simps) simp

lemma FormatNat_leading: "length (FormatNat n) = 1 \<or> hd (FormatNat n) \<noteq> 48"
proof (induction n rule: FormatNat.induct)
  case (1 n)
  show ?case
  proof (cases "n < 10")
    case False
    let ?m = "n div 10"
    have "?m \<noteq> 0" using False by auto
    have "hd (FormatNat ?m) \<noteq> 48"
    proof (cases "?m < 10")
      case True
      then have "?m \<in> {1, 2, 3, 4, 5, 6, 7, 8, 9}" using \<open>?m \<noteq> 0\<close> by auto
      then show ?thesis using True by (subst FormatNat.simps) auto
    next
      case m: False
      then have "length (FormatNat ?m) \<noteq> 1" by (subst FormatNat.simps) simp
      then show ?thesis using 1 [OF False] by simp
    qed
    then show ?thesis using False by (subst FormatNat.simps) simp
  qed (subst FormatNat.simps, simp)
qed

lemma FormatNat_length: "n < 1000 \<Longrightarrow> length (FormatNat n) \<le> 3"
proof -
  assume "n < 1000"
  then have "n div 10 div 10 < 10" "n div 10 < 100" by auto
  then show ?thesis by (subst FormatNat.simps, subst FormatNat.simps, subst FormatNat.simps) auto
qed

lemma parseOctet_FormatNat: "parseOctet (FormatNat (unat b)) = Some b"
proof -
  have b: "unat b < 256" using unsigned_less [of b] by simp
  then have "length (FormatNat (unat b)) \<le> 3" by (intro FormatNat_length) linarith
  moreover have "decNat (FormatNat (unat b)) \<le> 255" unfolding decNat_FormatNat using b by linarith
  ultimately show ?thesis
    using FormatNat_leading [of "unat b"] FormatNat_all_digits by (simp add: parseOctet_def decNat_FormatNat del: One_nat_def)
qed

lemma parseIPv4_string4: "length v4 = 4 \<Longrightarrow> parseIPv4 (string4 v4) = Some v4"
proof -
  assume l: "length v4 = 4"
  let ?fs = "map (\<lambda>b. FormatNat (unat b)) v4"
  have "Split 46 (string4 v4) = ?fs"
    using l FormatNat_no_dot Split_Join [of ?fs 46] by (cases v4) (auto simp: string4_def lit_def dot_def)
  moreover have "map parseOctet ?fs = map Some v4" by (simp add: parseOctet_FormatNat)
  ultimately show ?thesis using l unfolding parseIPv4_def Let_def by (simp only: length_map) (simp add: list_all_iff comp_def)
qed

subsection \<open>Groups in hexadecimal\<close>

lemma hexVal_digit: "n < 16 \<Longrightarrow> hexVal (hexDigit n) = Some n"
proof -
  have "\<forall>n < 16. hexVal (hexDigit n) = Some n" by code_simp
  then show "n < 16 \<Longrightarrow> hexVal (hexDigit n) = Some n" by blast
qed

lemma hexNat_nonempty [simp]: "hexNat n \<noteq> []"
  by (subst hexNat.simps) simp

lemma hexNat_hex: "b \<in> set (hexNat n) \<Longrightarrow> hexVal b \<noteq> None"
proof (induction n rule: hexNat.induct)
  case (1 n)
  then show ?case using hexVal_digit [of n] hexVal_digit [of "n mod 16"]
    by (subst (asm) (2) hexNat.simps) (auto split: if_splits)
qed

lemma hexNum_hexNat: "hexNum (hexNat n) = n"
proof (induction n rule: hexNat.induct)
  case (1 n)
  then show ?case using hexVal_digit [of n] hexVal_digit [of "n mod 16"]
    by (subst hexNat.simps) (auto simp: hexNum_def)
qed

lemma hexNat_length: "n < 65536 \<Longrightarrow> length (hexNat n) \<le> 4"
proof -
  assume "n < 65536"
  then have "n div 16 div 16 div 16 < 16" by (simp add: div_mult2_eq [symmetric])
  then show ?thesis by (subst hexNat.simps, subst hexNat.simps, subst hexNat.simps, subst hexNat.simps) auto
qed

lemma hexVal_seps [simp]: "hexVal 58 = None" "hexVal 46 = None" "hexVal 37 = None"
  by (simp_all add: hexVal_def is_digit_def)

lemma hexNat_span:
  assumes "s = [] \<or> hexVal (hd s) = None"
  shows "takeWhile (\<lambda>b. hexVal b \<noteq> None) (hexNat n @ s) = hexNat n" "dropWhile (\<lambda>b. hexVal b \<noteq> None) (hexNat n @ s) = s"
  using assms hexNat_hex by (auto simp: takeWhile_append dropWhile_append takeWhile_eq_Nil_iff dropWhile_eq_self_iff)

subsection \<open>Reading the groups\<close>

definition pairBytes :: "nat list \<Rightarrow> bytes" where
  "pairBytes gs = concat (map (\<lambda>g. [of_nat (g div 256), of_nat g]) gs)"

lemma pairBytes_simps [simp]:
  "pairBytes [] = []" "pairBytes (g # gs) = [of_nat (g div 256), of_nat g] @ pairBytes gs"
  "pairBytes (gs @ hs) = pairBytes gs @ pairBytes hs" "length (pairBytes gs) = 2 * length gs"
  by (induction gs) (simp_all add: pairBytes_def)

text \<open>One round of the loop.\<close>

lemma parseIPv6Loop_group:
  assumes "g < 65536" "s = [] \<or> hd s = 58"
  shows "parseIPv6Loop (Suc k) acc e (hexNat g @ s) =
    (let acc' = acc @ pairBytes [g]
     in if s = [] then Some (acc', e, [])
        else if length s = 1 then None
        else if s ! 1 = 58
        then (if e \<noteq> None then None else if length s = 2 then Some (acc', Some (length acc'), [])
              else parseIPv6Loop k acc' (Some (length acc')) (drop 2 s))
        else parseIPv6Loop k acc' e (tl s))"
proof -
  have "s = [] \<or> hexVal (hd s) = None" using assms(2) by auto
  note sp = hexNat_span [OF this]
  have l: "\<not> 4 < length (hexNat g)" using hexNat_length [OF assms(1)] by simp
  show ?thesis
    unfolding parseIPv6Loop.simps(2) sp
    using l assms(2) by (cases s; cases "tl s") (auto simp: Let_def hexNum_hexNat)
qed

lemma Join_hex_head:
  assumes "gs \<noteq> []" shows "(Join [58] (map hexNat gs) @ s) ! 0 \<noteq> 58" "Join [58] (map hexNat gs) \<noteq> []"
proof -
  obtain g gs' where gs: "gs = g # gs'" using assms by (cases gs) auto
  obtain x y where x: "hexNat g = x # y" using hexNat_nonempty [of g] by (cases "hexNat g") auto
  then have "hexVal x \<noteq> None" using hexNat_hex [of x g] by simp
  then show "(Join [58] (map hexNat gs) @ s) ! 0 \<noteq> 58" "Join [58] (map hexNat gs) \<noteq> []" using gs x by (cases gs'; auto)+
qed

lemma parseIPv6Loop_groups:
  assumes "gs \<noteq> []" "\<forall>g \<in> set gs. g < 65536" "length gs \<le> k"
  shows "parseIPv6Loop k acc e (Join [58] (map hexNat gs)) = Some (acc @ pairBytes gs, e, [])"
  using assms
proof (induction gs arbitrary: k acc)
  case (Cons g gs)
  then obtain k' where k: "k = Suc k'" by (cases k) auto
  show ?case
  proof (cases gs)
    case Nil
    then show ?thesis using parseIPv6Loop_group [of g "[]" k' acc e] Cons.prems k by (simp add: Let_def)
  next
    case (Cons g' gs')
    let ?s = "58 # Join [58] (map hexNat gs)"
    have n: "?s ! 1 \<noteq> 58" "length ?s \<noteq> 1" using Join_hex_head(1) [of gs "[]"] Join_hex_head(2) [of gs] Cons by simp_all
    have "parseIPv6Loop k acc e (hexNat g @ ?s) = parseIPv6Loop k' (acc @ pairBytes [g]) e (Join [58] (map hexNat gs))"
      using parseIPv6Loop_group [of g ?s k' acc e] Cons.prems n k by (simp add: Let_def)
    also have "\<dots> = Some (acc @ pairBytes (g # gs), e, [])"
      using Cons.IH [of k' "acc @ pairBytes [g]"] Cons.prems k Cons by simp
    finally show ?thesis using Cons by simp
  qed
qed simp

lemma parseIPv6Loop_ellipsis:
  assumes "gs \<noteq> []" "\<forall>g \<in> set gs. g < 65536" "\<forall>g \<in> set hs. g < 65536" "length gs + length hs \<le> k"
  shows "parseIPv6Loop k acc None (Join [58] (map hexNat gs) @ [58, 58] @ Join [58] (map hexNat hs)) =
    Some (acc @ pairBytes (gs @ hs), Some (length acc + 2 * length gs), [])"
  using assms
proof (induction gs arbitrary: k acc)
  case (Cons g gs)
  then obtain k' where k: "k = Suc k'" by (cases k) auto
  show ?case
  proof (cases gs)
    case Nil
    let ?s = "[58, 58] @ Join [58] (map hexNat hs)"
    have "parseIPv6Loop k acc None (hexNat g @ ?s) = (let acc' = acc @ pairBytes [g] in
       if hs = [] then Some (acc', Some (length acc'), []) else parseIPv6Loop k' acc' (Some (length acc')) (Join [58] (map hexNat hs)))"
      using parseIPv6Loop_group [of g ?s k' acc None] Cons.prems(2) k Join_hex_head(2) [of hs] by (cases "hs = []") (auto simp: Let_def)
    then show ?thesis using parseIPv6Loop_groups [of hs k'] Cons.prems(3,4) Nil k by (auto simp: Let_def)
  next
    case (Cons g' gs')
    let ?s = "58 # Join [58] (map hexNat gs) @ [58, 58] @ Join [58] (map hexNat hs)"
    have n: "?s ! 1 \<noteq> 58" "length ?s \<noteq> 1" using Join_hex_head(1) [of gs "[58, 58] @ Join [58] (map hexNat hs)"] Cons by simp_all
    have "parseIPv6Loop k acc None (hexNat g @ ?s) =
        parseIPv6Loop k' (acc @ pairBytes [g]) None (Join [58] (map hexNat gs) @ [58, 58] @ Join [58] (map hexNat hs))"
      using parseIPv6Loop_group [of g ?s k' acc None] Cons.prems n k by (simp add: Let_def)
    also have "\<dots> = Some (acc @ pairBytes (g # gs @ hs), Some (length acc + 2 * length (g # gs)), [])"
      using Cons.IH [of k' "acc @ pairBytes [g]"] Cons.prems k Cons by simp
    finally show ?thesis using Cons by simp
  qed
qed simp

subsection \<open>The longest run of zeros\<close>

definition run_at :: "nat list \<Rightarrow> nat \<times> nat \<Rightarrow> bool" where
  "run_at gs r \<longleftrightarrow> r = (255, 255) \<or> fst r + 2 \<le> snd r \<and> snd r \<le> length gs \<and>
     take (snd r - fst r) (drop (fst r) gs) = replicate (snd r - fst r) 0"

lemma zeroRun_run: "length gs = 8 \<Longrightarrow> run_at gs (zeroRun gs)"
proof -
  assume l: "length gs = 8"
  have "run_at gs (foldl (\<lambda>(s, e) i. let l = length (takeWhile (\<lambda>g. g = 0) (drop i gs))
      in if 2 \<le> l \<and> e - s < l then (i, i + l) else (s, e)) r js)" if "run_at gs r" "\<forall>i \<in> set js. i < 8" for r js
    using that
  proof (induction js arbitrary: r)
    case (Cons i js)
    let ?l = "length (takeWhile (\<lambda>g. g = 0) (drop i gs))"
    have "take ?l (drop i gs) = replicate ?l 0"
    proof -
      have "takeWhile (\<lambda>g. g = 0) (drop i gs) = replicate ?l 0"
        by (rule replicate_eqI) (auto dest: set_takeWhileD)
      then show ?thesis by (simp add: takeWhile_eq_take [symmetric])
    qed
    moreover have "i + ?l \<le> 8" using length_takeWhile_le [of "\<lambda>g. g = 0" "drop i gs"] Cons.prems(2) l by auto
    ultimately have "run_at gs (i, i + ?l)" if "2 \<le> ?l" using that l by (simp add: run_at_def)
    then show ?case using Cons by (cases r) (auto simp: Let_def)
  qed simp
  then show ?thesis unfolding zeroRun_def by (simp add: run_at_def)
qed

lemma run_at_split:
  assumes "run_at gs (s, e)" "s < 255"
  shows "take s gs @ replicate (e - s) 0 @ drop e gs = gs" "s + 2 \<le> e" "e \<le> length gs"
proof -
  have r: "s + 2 \<le> e" "e \<le> length gs" "take (e - s) (drop s gs) = replicate (e - s) 0"
    using assms by (auto simp: run_at_def)
  then have "drop s gs = replicate (e - s) 0 @ drop e gs"
    using append_take_drop_id [of "e - s" "drop s gs"] by simp
  then show "take s gs @ replicate (e - s) 0 @ drop e gs = gs" using append_take_drop_id [of s gs] by simp
  show "s + 2 \<le> e" "e \<le> length gs" using r by simp_all
qed

subsection \<open>Printing and parsing\<close>

lemma mk16_bytes: "of_nat (unat (mk16 h l) div 256) = h" "(of_nat (unat (mk16 h l)) :: byte) = l"
proof -
  have p: "ucast (drop_bit 8 (mk16 h l)) = h" "ucast (mk16 h l) = l" using put16_mk16 [of h l] by (simp_all add: put16_def)
  have "unat (drop_bit 8 (mk16 h l)) = unat (mk16 h l) div 256" by (subst unat_drop_bit_eq) (simp add: drop_bit_eq_div)
  then show "of_nat (unat (mk16 h l) div 256) = h" using p(1) by (metis of_nat_unat)
  show "(of_nat (unat (mk16 h l)) :: byte) = l" using p(2) by (metis of_nat_unat)
qed

lemmas mk16_low = mk16_bytes(2) [unfolded of_nat_unat]

lemma pairBytes_groups: "length ip = 16 \<Longrightarrow> pairBytes (groups ip) = ip"
proof -
  have "pairBytes (map (\<lambda>i. unat (mk16 (ip ! (2 * i)) (ip ! (2 * i + 1)))) [0..<n]) = take (2 * n) ip" if "2 * n \<le> length ip" for n
    using that by (induction n) (simp_all add: mk16_bytes mk16_low take_Suc_conv_app_nth)
  from this [of 8] show "length ip = 16 \<Longrightarrow> pairBytes (groups ip) = ip" by (simp add: groups_def)
qed

lemma pairBytes_zeros: "pairBytes (replicate n 0) = replicate (2 * n) 0"
  by (induction n) simp_all

lemma parseIPv6_string6:
  assumes "length ip = 16" shows "parseIPv6 (string6 ip) = Some ip"
proof -
  obtain s e where r: "zeroRun (groups ip) = (s, e)" by (cases "zeroRun (groups ip)") auto
  let ?gs = "groups ip"
  have l: "length ?gs = 8" "\<forall>g \<in> set ?gs. g < 65536" "lit '':'' = [58]" "lit ''::'' = [58, 58]"
    using unsigned_less [of "mk16 h l" for h l] by (auto simp: groups_def lit_def)
  have run: "run_at ?gs (s, e)" using zeroRun_run [OF l(1)] r by simp
  show ?thesis
  proof (cases "s < 8")
    case True
    note sp = run_at_split [OF run]
    have gb: "pairBytes (take s ?gs) @ replicate (2 * (e - s)) 0 @ pairBytes (drop e ?gs) = ip"
      using arg_cong [OF sp(1), of pairBytes] True pairBytes_groups [OF assms] by (simp add: pairBytes_zeros)
    have le: "s + 2 \<le> e" "e \<le> 8" using sp(2,3) True l(1) by auto
    have printed: "string6 ip = Join [58] (map hexNat (take s ?gs)) @ [58, 58] @ Join [58] (map hexNat (drop e ?gs))"
      using True r l(3,4) by (simp add: string6_def Let_def)
    have small: "\<forall>g \<in> set (take s ?gs). g < 65536" "\<forall>g \<in> set (drop e ?gs). g < 65536" using l(2) by (auto dest: in_set_takeD in_set_dropD)
    show ?thesis
    proof (cases "s = 0")
      case s: True
      show ?thesis
      proof (cases "e = 8")
        case True
        then show ?thesis using printed s gb l(1) by (simp add: parseIPv6_def)
      next
        case False
        then have "drop e ?gs \<noteq> []" "16 - 2 * (8 - e) = 2 * e" using le l(1) by simp_all
        then show ?thesis using parseIPv6Loop_groups [OF _ small(2), of 8 "[]" "Some 0"] Join_hex_head(2) [of "drop e ?gs"] printed s gb le l(1)
          by (simp add: parseIPv6_def)
      qed
    next
      case False
      then have ne: "take s ?gs \<noteq> []" using l(1) by auto
      have h: "take 2 (string6 ip) \<noteq> [58, 58]"
        using Join_hex_head [OF ne] printed by (cases "Join [58] (map hexNat (take s ?gs))") auto
      have "parseIPv6Loop 8 [] None (string6 ip) = Some (pairBytes (take s ?gs @ drop e ?gs), Some (2 * s), [])"
        using parseIPv6Loop_ellipsis [OF ne small, of 8 "[]"] printed le l(1) by simp
      moreover have "16 - (2 * s + 2 * (8 - e)) = 2 * (e - s)" "2 * s + 2 * (8 - e) < 16" using le by simp_all
      ultimately show ?thesis using h gb le l(1) by (simp add: parseIPv6_def)
    qed
  next
    case False
    have printed: "string6 ip = Join [58] (map hexNat ?gs)" using False r l(3) by (simp add: string6_def Let_def)
    have ne: "?gs \<noteq> []" using l(1) by auto
    have h: "take 2 (string6 ip) \<noteq> [58, 58]"
      using Join_hex_head [OF ne] printed by (cases "Join [58] (map hexNat ?gs)") auto
    have "parseIPv6Loop 8 [] None (string6 ip) = Some (ip, None, [])"
      using parseIPv6Loop_groups [OF ne l(2), of 8 "[]" None] l(1) printed pairBytes_groups [OF assms] by simp
    then show ?thesis using h assms by (simp add: parseIPv6_def)
  qed
qed

lemma Join_hex_bytes: "b \<in> set (Join [58] (map hexNat gs)) \<Longrightarrow> b = 58 \<or> hexVal b \<noteq> None"
  by (induction gs rule: induct_list012) (use hexNat_hex in auto)

lemma string6_bytes:
  assumes "b \<in> set (string6 ip)" shows "b = 58 \<or> hexVal b \<noteq> None"
proof -
  obtain s e where r: "zeroRun (groups ip) = (s, e)" by (cases "zeroRun (groups ip)") auto
  have "lit '':'' = [58]" "lit ''::'' = [58, 58]" by (simp_all add: lit_def)
  then show ?thesis using assms r Join_hex_bytes by (auto simp: string6_def Let_def split: if_splits)
qed

lemma string6_colon: "58 \<in> set (string6 ip)"
proof -
  obtain s e where r: "zeroRun (groups ip) = (s, e)" by (cases "zeroRun (groups ip)") auto
  have "58 \<in> set (Join [58] (map hexNat (g # g' # gs)))" for g g' gs by simp
  moreover have "groups ip = groups ip ! 0 # groups ip ! 1 # drop 2 (groups ip)" by (simp add: groups_def upt_rec)
  ultimately have "58 \<in> set (Join [58] (map hexNat (groups ip)))" by metis
  then show ?thesis using r by (auto simp: string6_def Let_def lit_def)
qed

text \<open>An address that is printed and parsed again is the same address in its 16-byte form.\<close>

lemma filter_seps:
  assumes "\<forall>b \<in> set s. b = c \<or> is_hex b" "c \<in> set s" "c = 46 \<or> c = 58" "\<forall>b. is_hex b \<longrightarrow> b \<noteq> 46 \<and> b \<noteq> 58"
  shows "\<exists>bs. filter (\<lambda>b. b = 46 \<or> b = 58) s = c # bs"
proof -
  have "filter (\<lambda>b. b = 46 \<or> b = 58) s = filter (\<lambda>b. b = c) s" using assms(1,3,4) by (intro filter_cong) auto
  moreover have "filter (\<lambda>b. b = c) s \<noteq> []" using assms(2) by (auto simp: filter_empty_conv)
  ultimately show ?thesis by (cases "filter (\<lambda>b. b = c) s") (auto dest: filter_eq_ConsD)
qed

lemma digit_no_sep: "is_digit b \<Longrightarrow> b \<noteq> 46 \<and> b \<noteq> 58"
  by (auto simp: is_digit_def)

lemma ParseAddr_string4:
  assumes "length v4 = 4" shows "ParseAddr (string4 v4) = Some (True, v4)"
proof -
  have b: "b = 46 \<or> is_digit b" if "b \<in> set (string4 v4)" for b
    using that FormatNat_all_digits Join_bytes [of b "[46]" "map (\<lambda>b. FormatNat (unat b)) v4"]
    by (auto simp: string4_def lit_def list_all_iff)
  have "46 \<in> set (string4 v4)" using assms by (auto simp: string4_def lit_def length_Suc_conv numeral_eq_Suc)
  then obtain bs where "filter (\<lambda>b. b = 46 \<or> b = 58) (string4 v4) = 46 # bs"
    using filter_seps [of "string4 v4" 46 is_digit] b digit_no_sep by blast
  moreover have "37 \<notin> set (string4 v4)" using b [of 37] by (auto simp: is_digit_def)
  ultimately show ?thesis by (simp add: ParseAddr_def parseIPv4_string4 [OF assms])
qed

lemma ParseAddr_string6:
  assumes "length ip = 16" shows "ParseAddr (string6 ip) = Some (False, ip)"
proof -
  obtain bs where "filter (\<lambda>b. b = 46 \<or> b = 58) (string6 ip) = 58 # bs"
    using filter_seps [of "string6 ip" 58 "\<lambda>b. hexVal b \<noteq> None"] string6_bytes string6_colon hexVal_seps by fastforce
  moreover have "37 \<notin> set (string6 ip)" using string6_bytes [of 37 ip] by auto
  ultimately show ?thesis by (simp add: ParseAddr_def parseIPv6_string6 [OF assms])
qed

lemma mapped_prefix:
  assumes "length ip = 16" "list_all (\<lambda>b. b = 0) (take 10 ip)" "ip ! 10 = 0xFF" "ip ! 11 = 0xFF"
  shows "ip = v4InV6Prefix @ drop 12 ip"
proof -
  have "take 10 ip = replicate 10 0" using assms(1,2) by (intro replicate_eqI) (auto simp: list_all_iff)
  moreover have "take 12 ip = take 10 ip @ [ip ! 10, ip ! 11]"
    using assms(1) take_Suc_conv_app_nth [of 10 ip] take_Suc_conv_app_nth [of 11 ip] by simp
  ultimately have "take 12 ip = v4InV6Prefix" using assms(3,4) by (simp add: v4InV6Prefix_def)
  then show ?thesis by (metis append_take_drop_id)
qed

lemma ParseIP_String:
  assumes "To16 ip = Some v6" shows "ParseIP (IP_String ip) = Some v6"
proof (cases "To4 ip")
  case (Some v4)
  have "v6 = v4InV6Prefix @ v4"
    using assms Some mapped_prefix [of ip] by (auto simp: To16_def To4_def v4InV6Prefix_def split: if_splits)
  then show ?thesis using ParseAddr_string4 [OF To4_length [OF Some]] Some by (simp add: ParseIP_def IP_String_def)
next
  case None
  then have "length ip = 16" "v6 = ip" using assms by (auto simp: To16_def To4_def split: if_splits)
  then show ?thesis using ParseAddr_string6 None by (simp add: ParseIP_def IP_String_def)
qed

lemma IP_text_roundtrip:
  assumes "To16 ip = Some v6"
  shows "IP_MarshalText ip = Some (IP_String ip)" "IP_UnmarshalText (IP_String ip) = Some v6"
proof -
  have "ip \<noteq> []" "length ip = 4 \<or> length ip = 16" using assms by (auto simp: To16_def split: if_splits)
  then show "IP_MarshalText ip = Some (IP_String ip)" by (simp add: IP_MarshalText_def)
  have "IP_String ip \<noteq> []" using ParseIP_String [OF assms] by (auto simp: ParseIP_def ParseAddr_def)
  then show "IP_UnmarshalText (IP_String ip) = Some v6" using ParseIP_String [OF assms] by (simp add: IP_UnmarshalText_def)
qed

text \<open>The 16-byte form has the same 4-byte form, so the record data of an A record does not change.\<close>

lemma To16_normal:
  assumes "To16 ip = Some v6" shows "To4 v6 = To4 ip" "To16 v6 = Some v6"
proof -
  have "list_all (\<lambda>b. b = 0) (replicate 10 (0 :: byte))" by (simp add: list_all_iff)
  then show "To4 v6 = To4 ip" "To16 v6 = Some v6" using assms by (auto simp: To16_def To4_def nth_append split: if_splits)
qed

end
