(* ===== verification/JSON_Text.thy ===== *)
theory JSON_Text
  imports IP_Text
begin

text \<open>
  JSON texts, after \<open>encoding/json\<close> of Go's standard library: what \<open>Marshal\<close> writes (compact, HTML characters
  escaped, bytes that are not UTF-8 replaced) and what \<open>Unmarshal\<close> reads. \<open>Unmarshal\<close> checks the whole text before it
  decodes, so reading is a function from texts to values, with \<open>None\<close> for a syntax error; how a value is stored into the
  program's types is in the theories of these types.

  The reader splits the text into tokens and then runs over them with a stack of open arrays and objects, as the
  scanner of the package does with its stack of parse states, at most 10000 deep. Every step takes a token, so no fuel is
  needed. The main lemma, \<open>jsonParse_jsonText\<close>, says that a written text is read back.
\<close>

subsection \<open>UTF-8\<close>

definition contByte :: "byte \<Rightarrow> byte \<Rightarrow> byte \<Rightarrow> bool" where
  "contByte lo hi b \<longleftrightarrow> lo \<le> b \<and> b \<le> hi"

text \<open>The number of bytes of the encoded character at the front, after \<open>utf8.DecodeRune\<close>; 0 for an invalid one.\<close>

definition runeLen :: "bytes \<Rightarrow> nat" where
  "runeLen s =
     (case s of
        [] \<Rightarrow> 0
      | b # r \<Rightarrow>
          if b < 0x80 then 1
          else if 0xC2 \<le> b \<and> b \<le> 0xDF then (if 1 \<le> length r \<and> contByte 0x80 0xBF (r ! 0) then 2 else 0)
          else if 0xE0 \<le> b \<and> b \<le> 0xEF
          then (if 2 \<le> length r \<and> contByte (if b = 0xE0 then 0xA0 else 0x80) (if b = 0xED then 0x9F else 0xBF) (r ! 0)
                  \<and> contByte 0x80 0xBF (r ! 1) then 3 else 0)
          else if 0xF0 \<le> b \<and> b \<le> 0xF4
          then (if 3 \<le> length r \<and> contByte (if b = 0xF0 then 0x90 else 0x80) (if b = 0xF4 then 0x8F else 0xBF) (r ! 0)
                  \<and> contByte 0x80 0xBF (r ! 1) \<and> contByte 0x80 0xBF (r ! 2) then 4 else 0)
          else 0)"

lemma runeLen_le: "runeLen s \<le> length s"
  by (auto simp: runeLen_def split: list.splits)

definition replacement :: bytes where
  "replacement = [0xEF, 0xBF, 0xBD]"

text \<open>The text with every byte that is not part of an encoded character replaced by U+FFFD.\<close>

function coerceUTF8 :: "bytes \<Rightarrow> bytes" where
  "coerceUTF8 s =
     (if s = [] then []
      else if runeLen s = 0 then replacement @ coerceUTF8 (tl s)
      else take (runeLen s) s @ coerceUTF8 (drop (runeLen s) s))"
  by pat_completeness auto
termination
  by (relation "measure length") auto

declare coerceUTF8.simps [simp del]

function utf8Valid :: "bytes \<Rightarrow> bool" where
  "utf8Valid s = (if s = [] then True else if runeLen s = 0 then False else utf8Valid (drop (runeLen s) s))"
  by pat_completeness auto
termination
  by (relation "measure length") auto

declare utf8Valid.simps [simp del]

text \<open>\<open>utf8.EncodeRune\<close> for a number below 0x110000 that is not a surrogate, else U+FFFD.\<close>

definition encodeRune :: "nat \<Rightarrow> bytes" where
  "encodeRune n =
     (if n < 0x80 then [of_nat n]
      else if n < 0x800 then [of_nat (0xC0 + n div 64), of_nat (0x80 + n mod 64)]
      else if 0xD800 \<le> n \<and> n < 0xE000 \<or> 0x110000 \<le> n then replacement
      else if n < 0x10000 then [of_nat (0xE0 + n div 4096), of_nat (0x80 + n div 64 mod 64), of_nat (0x80 + n mod 64)]
      else [of_nat (0xF0 + n div 262144), of_nat (0x80 + n div 4096 mod 64), of_nat (0x80 + n div 64 mod 64), of_nat (0x80 + n mod 64)])"

subsection \<open>Strings\<close>

definition hex4 :: "nat \<Rightarrow> gostring" where
  "hex4 n = map hexDigit [n div 4096 mod 16, n div 256 mod 16, n div 16 mod 16, n mod 16]"

text \<open>An ASCII character, after \<open>appendString\<close> with \<open>escapeHTML\<close>.\<close>

definition appendChar :: "byte \<Rightarrow> gostring" where
  "appendChar b =
     (if b = 34 \<or> b = 92 then [92, b]
      else if b = 8 then [92, 98]
      else if b = 12 then [92, 102]
      else if b = 10 then [92, 110]
      else if b = 13 then [92, 114]
      else if b = 9 then [92, 116]
      else if b < 32 \<or> b = 60 \<or> b = 62 \<or> b = 38 then [92, 117] @ hex4 (unat b)
      else [b])"

definition appendRune :: "bytes \<Rightarrow> gostring" where
  "appendRune c =
     (if length c = 1 then appendChar (hd c)
      else if c = [0xE2, 0x80, 0xA8] then [92, 117] @ hex4 0x2028
      else if c = [0xE2, 0x80, 0xA9] then [92, 117] @ hex4 0x2029
      else c)"

function appendString :: "gostring \<Rightarrow> gostring" where
  "appendString s =
     (if s = [] then []
      else if runeLen s = 0 then [92, 117] @ hex4 0xFFFD @ appendString (tl s)
      else appendRune (take (runeLen s) s) @ appendString (drop (runeLen s) s))"
  by pat_completeness auto
termination
  by (relation "measure length") auto

declare appendString.simps [simp del]

text \<open>Scanning a literal from behind its opening quotation mark: the text up to the closing one, and the rest. Every
  escape is checked.\<close>

definition isHex :: "byte \<Rightarrow> bool" where
  "isHex b \<longleftrightarrow> hexVal b \<noteq> None"

definition simpleEscape :: "byte \<Rightarrow> bool" where
  "simpleEscape b \<longleftrightarrow> b = 34 \<or> b = 92 \<or> b = 47 \<or> b = 98 \<or> b = 102 \<or> b = 110 \<or> b = 114 \<or> b = 116"

fun scanString :: "bytes \<Rightarrow> (bytes \<times> bytes) option" where
  "scanString [] = None"
| "scanString (b # s) =
     (if b = 34 then Some ([], s)
      else if b = 92
      then (case s of
              [] \<Rightarrow> None
            | e # s1 \<Rightarrow>
                if simpleEscape e then map_option (\<lambda>(r, t). (b # e # r, t)) (scanString s1)
                else if e = 117
                then (case s1 of
                        h1 # h2 # h3 # h4 # s2 \<Rightarrow>
                          if isHex h1 \<and> isHex h2 \<and> isHex h3 \<and> isHex h4
                          then map_option (\<lambda>(r, t). (b # e # h1 # h2 # h3 # h4 # r, t)) (scanString s2) else None
                      | _ \<Rightarrow> None)
                else None)
      else if b < 32 then None
      else map_option (\<lambda>(r, t). (b # r, t)) (scanString s))"

text \<open>\<open>getu4\<close>: the number of an escape \<open>\u\<close> at the front.\<close>

definition getu4 :: "gostring \<Rightarrow> nat option" where
  "getu4 s = (if 6 \<le> length s \<and> s ! 0 = 92 \<and> s ! 1 = 117 \<and> list_all isHex (take 4 (drop 2 s)) then Some (hexNum (take 4 (drop 2 s))) else None)"

definition isSurrogate :: "nat \<Rightarrow> bool" where
  "isSurrogate n \<longleftrightarrow> 0xD800 \<le> n \<and> n < 0xE000"

text \<open>\<open>utf16.DecodeRune\<close>; \<open>None\<close> stands for the replacement character.\<close>

definition decodeSurrogates :: "nat \<Rightarrow> nat \<Rightarrow> nat option" where
  "decodeSurrogates r1 r2 =
     (if 0xD800 \<le> r1 \<and> r1 < 0xDC00 \<and> 0xDC00 \<le> r2 \<and> r2 < 0xE000
      then Some ((r1 - 0xD800) * 1024 + (r2 - 0xDC00) + 0x10000) else None)"

definition unescape :: "byte \<Rightarrow> byte" where
  "unescape e = (if e = 98 then 8 else if e = 102 then 12 else if e = 110 then 10 else if e = 114 then 13 else if e = 116 then 9 else e)"

text \<open>\<open>unquoteBytes\<close> on a scanned literal.\<close>

function unquote :: "bytes \<Rightarrow> gostring" where
  "unquote s =
     (case s of
        [] \<Rightarrow> []
      | b # r \<Rightarrow>
          if b = 92
          then (case getu4 s of
                  Some rr \<Rightarrow>
                    (if isSurrogate rr
                     then (case Option.bind (getu4 (drop 6 s)) (decodeSurrogates rr) of
                             Some n \<Rightarrow> encodeRune n @ unquote (drop 12 s)
                           | None \<Rightarrow> replacement @ unquote (drop 6 s))
                     else encodeRune rr @ unquote (drop 6 s))
                | None \<Rightarrow> (case r of [] \<Rightarrow> [] | e # r' \<Rightarrow> unescape e # unquote r'))
          else if b < 0x80 then b # unquote r
          else if runeLen s = 0 then replacement @ unquote r
          else take (runeLen s) s @ unquote (drop (runeLen s) s))"
  by pat_completeness auto
termination
  by (relation "measure length") (auto simp: getu4_def)

declare unquote.simps [simp del]

subsection \<open>Values and their texts\<close>

datatype json =
    JNull
  | JBool bool
  | JNumber gostring
  | JString gostring
  | JArray "json list"
  | JObject "(gostring \<times> json) list"

definition quoted :: "gostring \<Rightarrow> gostring" where
  "quoted s = 34 # appendString s @ [34]"

fun jsonText :: "json \<Rightarrow> gostring" where
  "jsonText JNull = lit ''null''"
| "jsonText (JBool b) = (if b then lit ''true'' else lit ''false'')"
| "jsonText (JNumber s) = s"
| "jsonText (JString s) = quoted s"
| "jsonText (JArray vs) = 91 # Join [44] (map jsonText vs) @ [93]"
| "jsonText (JObject kvs) = 123 # Join [44] (map (\<lambda>(k, v). quoted k @ 58 # jsonText v) kvs) @ [125]"

subsection \<open>Tokens\<close>

datatype token =
    TLBrace | TRBrace | TLBrack | TRBrack | TColon | TComma | TTrue | TFalse | TNull
  | TString gostring
  | TNumber gostring

definition isSpace :: "byte \<Rightarrow> bool" where
  "isSpace b \<longleftrightarrow> b = 32 \<or> b = 9 \<or> b = 10 \<or> b = 13"

definition punct :: "byte \<Rightarrow> token option" where
  "punct b =
     (if b = 123 then Some TLBrace else if b = 125 then Some TRBrace
      else if b = 91 then Some TLBrack else if b = 93 then Some TRBrack
      else if b = 58 then Some TColon else if b = 44 then Some TComma else None)"

definition word_at :: "bytes \<Rightarrow> token option" where
  "word_at s =
     (if take 4 s = lit ''true'' then Some TTrue else if take 5 s = lit ''false'' then Some TFalse
      else if take 4 s = lit ''null'' then Some TNull else None)"

definition wordLen :: "token \<Rightarrow> nat" where
  "wordLen t = (if t = TFalse then 5 else 4)"

definition digitsOf :: "bytes \<Rightarrow> bytes \<times> bytes" where
  "digitsOf s = (takeWhile is_digit s, dropWhile is_digit s)"

text \<open>The integer, fraction and exponent part of a number; the fraction and the exponent may be missing.\<close>

definition scanInt :: "bytes \<Rightarrow> (bytes \<times> bytes) option" where
  "scanInt s =
     (let (sign, s1) = (if s \<noteq> [] \<and> hd s = 45 then ([45], tl s) else ([], s)); (ds, r) = digitsOf s1
      in if ds = [] then None else if hd ds = 48 then Some (sign @ [48], tl s1) else Some (sign @ ds, r))"

definition scanFrac :: "bytes \<Rightarrow> (bytes \<times> bytes) option" where
  "scanFrac s =
     (if s \<noteq> [] \<and> hd s = 46 then (let (ds, r) = digitsOf (tl s) in if ds = [] then None else Some (46 # ds, r))
      else Some ([], s))"

definition scanExp :: "bytes \<Rightarrow> (bytes \<times> bytes) option" where
  "scanExp s =
     (if s \<noteq> [] \<and> (hd s = 101 \<or> hd s = 69)
      then (let (sign, s1) = (if tl s \<noteq> [] \<and> (hd (tl s) = 43 \<or> hd (tl s) = 45) then ([hd (tl s)], tl (tl s)) else ([], tl s));
                (ds, r) = digitsOf s1
            in if ds = [] then None else Some (hd s # sign @ ds, r))
      else Some ([], s))"

definition scanNumber :: "bytes \<Rightarrow> (bytes \<times> bytes) option" where
  "scanNumber s = do {
     (i, s1) \<leftarrow> scanInt s;
     (f, s2) \<leftarrow> scanFrac s1;
     (e, s3) \<leftarrow> scanExp s2;
     Some (i @ f @ e, s3)
   }"

lemma scanString_length: "scanString s = Some (r, t) \<Longrightarrow> length t < length s"
  by (induction s arbitrary: r t rule: scanString.induct) (fastforce split: if_splits list.splits)+

lemma scanNumber_length: "scanNumber s = Some (r, t) \<Longrightarrow> length t < length s"
proof -
  assume "scanNumber s = Some (r, t)"
  then obtain i s1 f s2 e where n: "scanInt s = Some (i, s1)" "scanFrac s1 = Some (f, s2)" "scanExp s2 = Some (e, t)"
    by (auto simp: scanNumber_def split: bind_splits)
  have d: "length (snd (digitsOf u)) \<le> length u" for u by (simp add: digitsOf_def length_dropWhile_le)
  have d': "length (snd (digitsOf u)) < length u" if "fst (digitsOf u) \<noteq> []" for u
    using that by (cases u) (auto simp: digitsOf_def length_dropWhile_le less_Suc_eq_le split: if_splits)
  have "length s1 < length s"
    using n(1) d' [of s] d' [of "tl s"]
    by (cases s) (auto simp: scanInt_def Let_def digitsOf_def split: if_splits prod.splits)
  moreover have "length s2 \<le> length s1"
    using n(2) d [of "tl s1"] by (auto simp: scanFrac_def digitsOf_def split: if_splits)
  moreover have "length t \<le> length s2"
    using n(3) d [of "tl s2"] d [of "tl (tl s2)"] by (auto simp: scanExp_def Let_def digitsOf_def split: if_splits)
  ultimately show ?thesis by simp
qed

function tokens :: "bytes \<Rightarrow> token list option" where
  "tokens s =
     (case s of
        [] \<Rightarrow> Some []
      | b # r \<Rightarrow>
          if isSpace b then tokens r
          else case punct b of
            Some t \<Rightarrow> map_option (Cons t) (tokens r)
          | None \<Rightarrow>
              if b = 34 then (case scanString r of
                                None \<Rightarrow> None
                              | Some (raw, rest) \<Rightarrow> map_option (Cons (TString (unquote raw))) (tokens rest))
              else case word_at s of
                Some t \<Rightarrow> map_option (Cons t) (tokens (drop (wordLen t) s))
              | None \<Rightarrow>
                  (case scanNumber s of
                     None \<Rightarrow> None
                   | Some (n, rest) \<Rightarrow> map_option (Cons (TNumber n)) (tokens rest)))"
  by pat_completeness auto
termination
  by (relation "measure length") (auto dest: scanString_length scanNumber_length simp: wordLen_def)

declare tokens.simps [simp del]

subsection \<open>Reading\<close>

datatype frame = InArray "json list" | InObject "(gostring \<times> json) list" gostring

datatype expect = BeginValue | ValueOrEnd | KeyOrEnd | BeginKey | ColonAfter gostring | EndValue json

definition maxNestingDepth :: nat where
  "maxNestingDepth = 10000"

definition pushFrame :: "frame \<Rightarrow> expect \<Rightarrow> frame list \<Rightarrow> (frame list \<times> expect) option" where
  "pushFrame f e st = (if length st < maxNestingDepth then Some (f # st, e) else None)"

definition stepBegin :: "token \<Rightarrow> frame list \<Rightarrow> (frame list \<times> expect) option" where
  "stepBegin t st =
     (case t of
        TLBrace \<Rightarrow> pushFrame (InObject [] []) KeyOrEnd st
      | TLBrack \<Rightarrow> pushFrame (InArray []) ValueOrEnd st
      | TTrue \<Rightarrow> Some (st, EndValue (JBool True))
      | TFalse \<Rightarrow> Some (st, EndValue (JBool False))
      | TNull \<Rightarrow> Some (st, EndValue JNull)
      | TString s \<Rightarrow> Some (st, EndValue (JString s))
      | TNumber n \<Rightarrow> Some (st, EndValue (JNumber n))
      | _ \<Rightarrow> None)"

definition stepEnd :: "json \<Rightarrow> token \<Rightarrow> frame list \<Rightarrow> (frame list \<times> expect) option" where
  "stepEnd v t st =
     (case st of
        [] \<Rightarrow> None
      | InArray vs # st' \<Rightarrow>
          (if t = TComma then Some (InArray (vs @ [v]) # st', BeginValue)
           else if t = TRBrack then Some (st', EndValue (JArray (vs @ [v]))) else None)
      | InObject kvs k # st' \<Rightarrow>
          (if t = TComma then Some (InObject (kvs @ [(k, v)]) [] # st', BeginKey)
           else if t = TRBrace then Some (st', EndValue (JObject (kvs @ [(k, v)]))) else None))"

definition stepToken :: "token \<Rightarrow> frame list \<Rightarrow> expect \<Rightarrow> (frame list \<times> expect) option" where
  "stepToken t st e =
     (case e of
        BeginValue \<Rightarrow> stepBegin t st
      | ValueOrEnd \<Rightarrow> if t = TRBrack then Some (tl st, EndValue (JArray [])) else stepBegin t st
      | KeyOrEnd \<Rightarrow> (case t of TString k \<Rightarrow> Some (st, ColonAfter k) | TRBrace \<Rightarrow> Some (tl st, EndValue (JObject [])) | _ \<Rightarrow> None)
      | BeginKey \<Rightarrow> (case t of TString k \<Rightarrow> Some (st, ColonAfter k) | _ \<Rightarrow> None)
      | ColonAfter k \<Rightarrow>
          (case st of InObject kvs k0 # st' \<Rightarrow> if t = TColon then Some (InObject kvs k # st', BeginValue) else None | _ \<Rightarrow> None)
      | EndValue v \<Rightarrow> stepEnd v t st)"

fun runTokens :: "token list \<Rightarrow> frame list \<Rightarrow> expect \<Rightarrow> json option" where
  "runTokens [] st e = (case e of EndValue v \<Rightarrow> if st = [] then Some v else None | _ \<Rightarrow> None)"
| "runTokens (t # ts) st e = (case stepToken t st e of None \<Rightarrow> None | Some (st', e') \<Rightarrow> runTokens ts st' e')"

definition jsonParse :: "bytes \<Rightarrow> json option" where
  "jsonParse data = Option.bind (tokens data) (\<lambda>ts. runTokens ts [] BeginValue)"

subsection \<open>Strings are read back\<close>

lemma hexNum_hex4: "n < 65536 \<Longrightarrow> hexNum (hex4 n) = n"
proof -
  assume n: "n < 65536"
  have "n = 16 * (n div 16) + n mod 16" by simp
  moreover have "n div 16 = 16 * (n div 256) + n div 16 mod 16"
    using mult_div_mod_eq [of 16 "n div 16"] by (simp add: div_mult2_eq [symmetric])
  moreover have "n div 256 = 16 * (n div 4096) + n div 256 mod 16"
    using mult_div_mod_eq [of 16 "n div 256"] by (simp add: div_mult2_eq [symmetric])
  moreover have "n div 4096 mod 16 = n div 4096" using n by simp
  moreover have "hexNum (hex4 n) = 16 * (16 * (16 * (n div 4096 mod 16) + n div 256 mod 16) + n div 16 mod 16) + n mod 16"
    by (simp add: hex4_def hexVal_digit hexNum_def)
  ultimately show ?thesis by (simp only:)
qed

lemma hex4_hex: "list_all isHex (hex4 n) \<and> length (hex4 n) = 4"
  by (simp add: hex4_def isHex_def hexVal_digit)

lemma runeLen_cases:
  assumes "0 < runeLen s"
  obtains (one) b r where "s = b # r" "b < 0x80"
  | (two) b r0 r where "s = b # r0 # r" "0xC2 \<le> b" "b \<le> 0xDF" "contByte 0x80 0xBF r0"
  | (three) b r0 r1 r where "s = b # r0 # r1 # r" "0xE0 \<le> b" "b \<le> 0xEF"
      "contByte (if b = 0xE0 then 0xA0 else 0x80) (if b = 0xED then 0x9F else 0xBF) r0" "contByte 0x80 0xBF r1"
  | (four) b r0 r1 r2 r where "s = b # r0 # r1 # r2 # r" "0xF0 \<le> b" "b \<le> 0xF4"
      "contByte (if b = 0xF0 then 0x90 else 0x80) (if b = 0xF4 then 0x8F else 0xBF) r0" "contByte 0x80 0xBF r1" "contByte 0x80 0xBF r2"
proof -
  obtain b r where s: "s = b # r" using assms by (cases s) (auto simp: runeLen_def)
  have rs: "r = r ! 0 # tl r" if "1 \<le> length r" using that by (cases r) auto
  have rs2: "r = r ! 0 # r ! 1 # drop 2 r" if "2 \<le> length r" using that by (cases r; cases "tl r") auto
  have rs3: "r = r ! 0 # r ! 1 # r ! 2 # drop 3 r" if "3 \<le> length r" using that by (cases r; cases "tl r"; cases "tl (tl r)") auto
  show thesis
    using assms that s rs rs2 rs3 unfolding runeLen_def s list.case by (simp split: if_split_asm)
qed

lemma runeLen_take:
  assumes "0 < runeLen s"
  shows "runeLen (take (runeLen s) s @ t) = runeLen s" "runeLen s = 1 \<longrightarrow> hd s < 0x80"
    "runeLen s \<noteq> 1 \<longrightarrow> (\<forall>b \<in> set (take (runeLen s) s). 0x80 \<le> b)"
proof -
  have lo: "contByte (if P then 0xA0 else 0x80) hi b \<Longrightarrow> 0x80 \<le> b" "contByte (if P then 0x90 else 0x80) hi b \<Longrightarrow> 0x80 \<le> b"
      "contByte 0x80 hi b \<Longrightarrow> 0x80 \<le> b" "0xC2 \<le> b \<Longrightarrow> 0x80 \<le> b" "0xE0 \<le> b \<Longrightarrow> 0x80 \<le> b" "0xF0 \<le> b \<Longrightarrow> 0x80 \<le> b" for P hi and b :: byte
    by (auto simp: contByte_def word_le_nat_alt split: if_splits)
  have hi: "(0xC2 :: byte) \<le> b \<Longrightarrow> \<not> b < 0x80" "(0xE0 :: byte) \<le> b \<Longrightarrow> \<not> b < 0x80 \<and> \<not> b \<le> 0xDF"
    "(0xF0 :: byte) \<le> b \<Longrightarrow> \<not> b < 0x80 \<and> \<not> b \<le> 0xDF \<and> \<not> b \<le> 0xEF" for b
    by (auto simp: word_le_nat_alt word_less_nat_alt)
  from assms have "runeLen (take (runeLen s) s @ t) = runeLen s \<and> (runeLen s = 1 \<longrightarrow> hd s < 0x80) \<and>
      (runeLen s \<noteq> 1 \<longrightarrow> (\<forall>b \<in> set (take (runeLen s) s). 0x80 \<le> b))"
  proof (cases rule: runeLen_cases)
    case (one b r)
    then show ?thesis by (simp add: runeLen_def)
  next
    case (two b r0 r)
    then have n: "runeLen (b # r0 # u) = 2" for u using hi(1) by (simp add: runeLen_def)
    then show ?thesis using two lo by simp
  next
    case (three b r0 r1 r)
    then have n: "runeLen (b # r0 # r1 # u) = 3" for u using hi(2) by (simp add: runeLen_def)
    then show ?thesis using three lo by simp
  next
    case (four b r0 r1 r2 r)
    then have n: "runeLen (b # r0 # r1 # r2 # u) = 4" for u using hi(3) by (simp add: runeLen_def)
    then show ?thesis using four lo by simp
  qed
  then show "runeLen (take (runeLen s) s @ t) = runeLen s" "runeLen s = 1 \<longrightarrow> hd s < 0x80"
    "runeLen s \<noteq> 1 \<longrightarrow> (\<forall>b \<in> set (take (runeLen s) s). 0x80 \<le> b)" by simp_all
qed

text \<open>A piece of a literal is passed by the scanner and unquoted on its own.\<close>

definition reads :: "gostring \<Rightarrow> gostring \<Rightarrow> bool" where
  "reads p c \<longleftrightarrow> (\<forall>t. scanString (p @ t) = (case scanString t of None \<Rightarrow> None | Some (r, u) \<Rightarrow> Some (p @ r, u)) \<and>
     unquote (p @ t) = c @ unquote t)"

lemma reads_append: "reads p c \<Longrightarrow> reads q d \<Longrightarrow> reads (p @ q) (c @ d)"
  by (auto simp: reads_def split: option.splits)

lemma scanString_plain:
  "\<forall>b \<in> set p. 32 \<le> b \<and> b \<noteq> 34 \<and> b \<noteq> 92 \<Longrightarrow>
     scanString (p @ t) = (case scanString t of None \<Rightarrow> None | Some (r, u) \<Rightarrow> Some (p @ r, u))"
  by (induction p) (auto split: option.splits)

lemma reads_unicode:
  assumes "n < 65536" "\<not> isSurrogate n" shows "reads ([92, 117] @ hex4 n) (encodeRune n)"
proof -
  obtain h1 h2 h3 h4 where e: "hex4 n = [h1, h2, h3, h4]" by (simp add: hex4_def)
  then have "getu4 ([92, 117] @ hex4 n @ t) = Some n" for t using hexNum_hex4 [OF assms(1)] hex4_hex [of n] by (simp add: getu4_def)
  then have "unquote ([92, 117] @ hex4 n @ t) = encodeRune n @ unquote t" for t
    using e assms(2) by (subst unquote.simps) simp
  then show ?thesis using e hex4_hex [of n] by (auto simp: reads_def simpleEscape_def split: option.splits)
qed

lemma reads_escape:
  assumes "simpleEscape e" shows "reads [92, e] [unescape e]"
proof -
  have "e \<noteq> 117" using assms by (auto simp: simpleEscape_def)
  then have "unquote (92 # e # t) = unescape e # unquote t" for t by (subst unquote.simps) (simp add: getu4_def)
  then show ?thesis using assms by (auto simp: reads_def split: option.splits)
qed

lemma reads_char:
  assumes "b < 0x80" shows "reads (appendChar b) [b]"
proof -
  have b: "unat b < 0x80" using assms by (simp add: word_less_nat_alt)
  have esc: "reads [92, 34] [34]" "reads [92, 92] [92]" "reads [92, 98] [8]" "reads [92, 102] [12]" "reads [92, 110] [10]"
      "reads [92, 114] [13]" "reads [92, 116] [9]"
    using reads_escape [of 34] reads_escape [of 92] reads_escape [of 98] reads_escape [of 102] reads_escape [of 110]
      reads_escape [of 114] reads_escape [of 116] by (simp_all add: simpleEscape_def unescape_def)
  have u: "reads ([92, 117] @ hex4 (unat b)) [b]"
    using reads_unicode [of "unat b"] b by (simp add: isSurrogate_def encodeRune_def)
  have "unquote (b # t) = b # unquote t" if "b \<noteq> 92" for t using that assms by (subst unquote.simps) simp
  then have "reads [b] [b]" if "\<not> b < 32" "b \<noteq> 34" "b \<noteq> 92" using that scanString_plain [of "[b]"] by (simp add: reads_def)
  with esc u show ?thesis unfolding appendChar_def by (simp split: if_split)
qed

lemma reads_multibyte:
  assumes "0 < runeLen s" "runeLen s \<noteq> 1"
  shows "reads (take (runeLen s) s) (take (runeLen s) s)"
proof -
  let ?c = "take (runeLen s) s"
  have l: "length ?c = runeLen s" using runeLen_le [of s] by simp
  have b: "\<forall>x \<in> set ?c. 0x80 \<le> x" using runeLen_take(3) [OF assms(1)] assms(2) by simp
  have "\<forall>x \<in> set ?c. 32 \<le> x \<and> x \<noteq> 34 \<and> x \<noteq> 92"
  proof
    fix x assume "x \<in> set ?c"
    then have "(0x80 :: byte) \<le> x" using b by blast
    then show "32 \<le> x \<and> x \<noteq> 34 \<and> x \<noteq> 92" by (auto simp: word_le_nat_alt)
  qed
  moreover have "unquote (?c @ t) = ?c @ unquote t" for t
  proof -
    obtain x y where c: "?c = x # y" using l assms(1) by (cases ?c) auto
    then have "(0x80 :: byte) \<le> x" using b by simp
    then have "x \<noteq> 92" "\<not> x < 0x80" by auto
    moreover have "runeLen (x # y @ t) = length (x # y)" using runeLen_take(1) [OF assms(1), of t] l c by simp
    ultimately show ?thesis unfolding c by (subst unquote.simps) simp
  qed
  ultimately show ?thesis using scanString_plain [of ?c] by (simp add: reads_def)
qed

lemma reads_rune:
  assumes "0 < runeLen s" shows "reads (appendRune (take (runeLen s) s)) (take (runeLen s) s)"
proof (cases "runeLen s = 1")
  case True
  then have "take (runeLen s) s = [hd s]" using runeLen_le [of s] by (cases s) auto
  then show ?thesis using reads_char runeLen_take(2) [OF assms] True by (simp add: appendRune_def)
next
  case False
  have e: "encodeRune 0x2028 = [0xE2, 0x80, 0xA8]" "encodeRune 0x2029 = [0xE2, 0x80, 0xA9]" by (simp_all add: encodeRune_def)
  have "length (take (runeLen s) s) \<noteq> 1" using runeLen_le [of s] False by simp
  then show ?thesis
    using reads_multibyte [OF assms False] reads_unicode [of "0x2028"] reads_unicode [of "0x2029"] e
    unfolding appendRune_def by (auto simp: isSurrogate_def)
qed

lemma reads_string: "reads (appendString s) (coerceUTF8 s)"
proof (induction s rule: appendString.induct)
  case (1 s)
  have "encodeRune 0xFFFD = replacement" by (simp add: encodeRune_def replacement_def)
  then have r: "reads ([92, 117] @ hex4 0xFFFD) replacement" using reads_unicode [of "0xFFFD"] by (simp add: isSurrogate_def)
  consider "s = []" | "s \<noteq> []" "runeLen s = 0" | "s \<noteq> []" "0 < runeLen s" by auto
  then show ?case
  proof cases
    case 2
    then show ?thesis using reads_append [OF r 1(1)] unfolding appendString.simps [of s] coerceUTF8.simps [of s] by simp
  next
    case 3
    then show ?thesis using reads_append [OF reads_rune 1(2)] unfolding appendString.simps [of s] coerceUTF8.simps [of s] by simp
  qed (auto simp: appendString.simps coerceUTF8.simps reads_def split: option.splits)
qed

lemma scanString_quoted: "scanString (appendString s @ 34 # t) = Some (appendString s, t)"
  using reads_string [of s] by (simp add: reads_def)

lemma unquote_quoted: "unquote (appendString s) = coerceUTF8 s"
proof -
  have "unquote (appendString s @ []) = coerceUTF8 s @ unquote []" using reads_string [of s] by (simp only: reads_def)
  moreover have "unquote [] = []" by (subst unquote.simps) simp
  ultimately show ?thesis by simp
qed

subsection \<open>Texts are read back\<close>

text \<open>The value with every string made valid UTF-8, and its tokens.\<close>

fun coerceJSON :: "json \<Rightarrow> json" where
  "coerceJSON (JString s) = JString (coerceUTF8 s)"
| "coerceJSON (JArray vs) = JArray (map coerceJSON vs)"
| "coerceJSON (JObject kvs) = JObject (map (\<lambda>(k, v). (coerceUTF8 k, coerceJSON v)) kvs)"
| "coerceJSON v = v"

fun commaSep :: "token list list \<Rightarrow> token list" where
  "commaSep [] = []"
| "commaSep [ts] = ts"
| "commaSep (ts # tss) = ts @ TComma # commaSep tss"

fun toks :: "json \<Rightarrow> token list" where
  "toks JNull = [TNull]"
| "toks (JBool b) = [if b then TTrue else TFalse]"
| "toks (JNumber s) = [TNumber s]"
| "toks (JString s) = [TString (coerceUTF8 s)]"
| "toks (JArray vs) = TLBrack # commaSep (map toks vs) @ [TRBrack]"
| "toks (JObject kvs) = TLBrace # commaSep (map (\<lambda>(k, v). TString (coerceUTF8 k) # TColon # toks v) kvs) @ [TRBrace]"

text \<open>Values whose numbers are decimal and that are nested at most \<open>n\<close> deep.\<close>

fun fits_json :: "nat \<Rightarrow> json \<Rightarrow> bool" where
  "fits_json n (JNumber s) \<longleftrightarrow> (\<exists>k. s = FormatNat k)"
| "fits_json n (JArray vs) \<longleftrightarrow> 0 < n \<and> (\<forall>v \<in> set vs. fits_json (n - 1) v)"
| "fits_json n (JObject kvs) \<longleftrightarrow> 0 < n \<and> (\<forall>e \<in> set kvs. fits_json (n - 1) (snd e))"
| "fits_json n v \<longleftrightarrow> True"

definition delimited :: "bytes \<Rightarrow> bool" where
  "delimited s \<longleftrightarrow> s = [] \<or> hd s = 44 \<or> hd s = 93 \<or> hd s = 125"

definition token_step :: "bytes \<Rightarrow> token list \<Rightarrow> bool" where
  "token_step p ts \<longleftrightarrow> (\<forall>rest. delimited rest \<longrightarrow> tokens (p @ rest) = map_option (append ts) (tokens rest))"

lemma tokens_punct: "punct b = Some t \<Longrightarrow> tokens (b # r) = map_option (Cons t) (tokens r)"
  by (subst tokens.simps) (auto simp: punct_def isSpace_def split: if_splits)

lemma tokens_quoted: "tokens (quoted s @ r) = map_option (Cons (TString (coerceUTF8 s))) (tokens r)"
  by (subst tokens.simps) (simp add: quoted_def isSpace_def punct_def scanString_quoted unquote_quoted)

lemma digits_span:
  assumes "delimited rest"
  shows "takeWhile is_digit (FormatNat k @ rest) = FormatNat k" "dropWhile is_digit (FormatNat k @ rest) = rest"
proof -
  have "rest = [] \<or> \<not> is_digit (hd rest)" using assms by (auto simp: delimited_def is_digit_def)
  moreover have "\<forall>b \<in> set (FormatNat k). is_digit b" using FormatNat_all_digits by (simp add: list_all_iff)
  ultimately show "takeWhile is_digit (FormatNat k @ rest) = FormatNat k" "dropWhile is_digit (FormatNat k @ rest) = rest"
    by (auto simp: takeWhile_append dropWhile_append takeWhile_eq_Nil_iff dropWhile_eq_self_iff)
qed

lemma scanNumber_FormatNat:
  assumes "delimited rest" shows "scanNumber (FormatNat k @ rest) = Some (FormatNat k, rest)"
proof -
  obtain d ds where f: "FormatNat k = d # ds" using FormatNat_nonempty [of k] by (cases "FormatNat k") auto
  have "is_digit d" using FormatNat_all_digits [of k] f by simp
  then have "d \<noteq> 45" by (auto simp: is_digit_def)
  moreover have "ds = []" if "d = 48" using FormatNat_leading [of k] f that by simp
  ultimately have "scanInt (FormatNat k @ rest) = Some (FormatNat k, rest)"
    using digits_span [OF assms, of k] f by (auto simp: scanInt_def digitsOf_def)
  moreover have "rest = [] \<or> hd rest \<noteq> 46 \<and> hd rest \<noteq> 101 \<and> hd rest \<noteq> 69" using assms by (auto simp: delimited_def)
  then have "scanFrac rest = Some ([], rest)" "scanExp rest = Some ([], rest)" by (auto simp: scanFrac_def scanExp_def)
  ultimately show ?thesis by (simp add: scanNumber_def)
qed

lemma tokens_number:
  assumes "delimited rest" shows "tokens (FormatNat k @ rest) = map_option (Cons (TNumber (FormatNat k))) (tokens rest)"
proof -
  obtain d ds where f: "FormatNat k = d # ds" using FormatNat_nonempty [of k] by (cases "FormatNat k") auto
  have "is_digit d" using FormatNat_all_digits [of k] f by simp
  then have d: "48 \<le> d" "d \<le> 57" by (auto simp: is_digit_def)
  then have "\<not> isSpace d" "punct d = None" "d \<noteq> 34" by (auto simp: isSpace_def punct_def)
  moreover have "word_at (d # ds @ rest) = None" using d by (auto simp: word_at_def lit_def)
  ultimately show ?thesis
    using scanNumber_FormatNat [OF assms, of k] f by (subst tokens.simps) simp
qed

lemma tokens_word:
  "tokens (lit ''null'' @ r) = map_option (Cons TNull) (tokens r)"
  "tokens (lit ''true'' @ r) = map_option (Cons TTrue) (tokens r)"
  "tokens (lit ''false'' @ r) = map_option (Cons TFalse) (tokens r)"
  by (subst tokens.simps, simp add: lit_def isSpace_def punct_def word_at_def wordLen_def)+

lemma append_token: "(@) [t] = Cons t" "(@) [] = (\<lambda>ts. ts)"
  by (simp_all add: fun_eq_iff)

lemma token_step_list:
  assumes "\<forall>x \<in> set xs. token_step (p x) (q x)" "delimited rest" "rest \<noteq> []"
  shows "tokens (Join [44] (map p xs) @ rest) = map_option (append (commaSep (map q xs))) (tokens rest)"
  using assms(1)
proof (induction xs rule: induct_list012)
  case (3 x y zs)
  have "tokens (p x @ 44 # Join [44] (map p (y # zs)) @ rest) =
      map_option (append (q x)) (tokens (44 # Join [44] (map p (y # zs)) @ rest))"
    using 3(3) by (simp add: token_step_def delimited_def)
  also have "\<dots> = map_option (append (q x @ TComma # commaSep (map q (y # zs)))) (tokens rest)"
    using 3(2,3) by (subst tokens_punct [of _ TComma]) (simp add: punct_def, cases "tokens rest", simp_all)
  finally show ?case by (cases "tokens rest") simp_all
qed (use assms(2) in \<open>auto simp: token_step_def append_token option.map_ident\<close>)

lemma tokens_jsonText: "fits_json n v \<Longrightarrow> token_step (jsonText v) (toks v)"
proof (induction v arbitrary: n rule: jsonText.induct)
  case (5 vs)
  then have "\<forall>v \<in> set vs. token_step (jsonText v) (toks v)" by auto
  note l = token_step_list [OF this]
  have "tokens (91 # Join [44] (map jsonText vs) @ 93 # rest) = map_option (append (toks (JArray vs))) (tokens rest)" for rest
    using l [of "93 # rest"] by (cases "tokens rest")
      (simp_all add: punct_def delimited_def tokens_punct [of 91 TLBrack] tokens_punct [of 93 TRBrack])
  then show ?case by (simp add: token_step_def)
next
  case (6 kvs)
  let ?p = "\<lambda>(k, v). quoted k @ 58 # jsonText v" and ?q = "\<lambda>(k, v). TString (coerceUTF8 k) # TColon # toks v"
  have "token_step (?p e) (?q e)" if e: "e \<in> set kvs" for e
  proof -
    obtain k v where kv: "e = (k, v)" by (cases e)
    have "token_step (jsonText v) (toks v)" using 6 e kv by fastforce
    then show ?thesis
      using kv by (auto simp: token_step_def tokens_quoted tokens_punct [of 58 TColon] punct_def option.map_comp intro!: option.map_cong)
  qed
  then have l: "\<forall>e \<in> set kvs. token_step (?p e) (?q e)" by blast
  have "tokens (123 # Join [44] (map ?p kvs) @ 125 # rest) = map_option (append (toks (JObject kvs))) (tokens rest)" for rest
    using token_step_list [OF l, of "125 # rest"] by (cases "tokens rest")
      (simp_all add: punct_def delimited_def tokens_punct [of 123 TLBrace] tokens_punct [of 125 TRBrace])
  then show ?case by (simp add: token_step_def)
qed (auto simp: token_step_def tokens_word tokens_quoted tokens_number append_token)

text \<open>The stack machine rebuilds a value from its tokens.\<close>

lemma runTokens_array:
  assumes "\<forall>v \<in> set vs. \<forall>ts st'. length st' = Suc (length st) \<longrightarrow> runTokens (toks v @ ts) st' BeginValue = runTokens ts st' (EndValue (coerceJSON v))"
    "vs \<noteq> []"
  shows "runTokens (commaSep (map toks vs) @ TRBrack # ts) (InArray ws # st) BeginValue =
    runTokens ts st (EndValue (JArray (ws @ map coerceJSON vs)))"
  using assms
  by (induction vs arbitrary: ws rule: induct_list012) (auto simp: stepToken_def stepEnd_def)

lemma runTokens_object:
  assumes "\<forall>e \<in> set kvs. \<forall>ts st'. length st' = Suc (length st) \<longrightarrow>
      runTokens (toks (snd e) @ ts) st' BeginValue = runTokens ts st' (EndValue (coerceJSON (snd e)))" "kvs \<noteq> []"
  shows "runTokens (commaSep (map (\<lambda>(k, v). TString (coerceUTF8 k) # TColon # toks v) kvs) @ TRBrace # ts) (InObject ws k0 # st) BeginKey =
    runTokens ts st (EndValue (JObject (ws @ map (\<lambda>(k, v). (coerceUTF8 k, coerceJSON v)) kvs)))"
  using assms
  by (induction kvs arbitrary: ws k0 rule: induct_list012) (auto simp: stepToken_def stepEnd_def)

lemma begin_or_end: "ts \<noteq> [] \<Longrightarrow> hd ts \<noteq> TRBrack \<Longrightarrow> runTokens ts st ValueOrEnd = runTokens ts st BeginValue"
  by (cases ts) (auto simp: stepToken_def)

lemma toks_head: "toks v \<noteq> [] \<and> hd (toks v) \<noteq> TRBrack"
  by (cases v) auto

lemma runTokens_toks:
  "fits_json n v \<Longrightarrow> length st + n \<le> maxNestingDepth \<Longrightarrow>
     runTokens (toks v @ ts) st BeginValue = runTokens ts st (EndValue (coerceJSON v))"
proof (induction v arbitrary: n st ts rule: toks.induct)
  case (5 vs)
  have IH: "\<forall>v \<in> set vs. \<forall>ts st'. length st' = Suc (length st) \<longrightarrow> runTokens (toks v @ ts) st' BeginValue = runTokens ts st' (EndValue (coerceJSON v))"
    using 5(1) [of _ "n - 1"] 5(2,3) by auto
  have d: "length st < maxNestingDepth" using 5(2,3) by auto
  show ?case
  proof (cases vs)
    case (Cons v vs')
    let ?ts = "commaSep (map toks vs) @ TRBrack # ts"
    have "?ts \<noteq> [] \<and> hd ?ts \<noteq> TRBrack" using toks_head [of v] Cons by (cases vs') auto
    then have "runTokens ?ts (InArray [] # st) ValueOrEnd = runTokens ?ts (InArray [] # st) BeginValue" by (intro begin_or_end) auto
    then show ?thesis using runTokens_array [OF IH, of ts "[]"] Cons d by (simp add: stepToken_def stepBegin_def pushFrame_def)
  qed (simp add: stepToken_def stepBegin_def pushFrame_def d)
next
  case (6 kvs)
  have IH: "\<forall>e \<in> set kvs. \<forall>ts st'. length st' = Suc (length st) \<longrightarrow> runTokens (toks (snd e) @ ts) st' BeginValue = runTokens ts st' (EndValue (coerceJSON (snd e)))"
    using 6(1) [of _ _ _ "n - 1"] 6(2,3) by fastforce
  have d: "length st < maxNestingDepth" using 6(2,3) by auto
  show ?case
  proof (cases kvs)
    case (Cons e kvs')
    let ?ts = "commaSep (map (\<lambda>(k, v). TString (coerceUTF8 k) # TColon # toks v) kvs) @ TRBrace # ts"
    have "\<exists>k us. ?ts = TString k # us" using Cons by (cases e; cases kvs') auto
    then have "runTokens ?ts (InObject [] [] # st) KeyOrEnd = runTokens ?ts (InObject [] [] # st) BeginKey"
      by (auto simp: stepToken_def)
    then show ?thesis using runTokens_object [OF IH, of ts "[]" "[]"] Cons d by (simp add: stepToken_def stepBegin_def pushFrame_def)
  qed (simp add: stepToken_def stepBegin_def pushFrame_def d)
qed (auto simp: stepToken_def stepBegin_def)

text \<open>What \<open>Marshal\<close> writes, \<open>Unmarshal\<close> reads: the same value, with strings made valid UTF-8.\<close>

lemma jsonParse_jsonText:
  assumes "fits_json maxNestingDepth v" shows "jsonParse (jsonText v) = Some (coerceJSON v)"
proof -
  have "tokens (jsonText v @ []) = Some (toks v @ [])"
    using tokens_jsonText [OF assms] by (simp add: token_step_def delimited_def tokens.simps del: append_Nil2)
  then show ?thesis using runTokens_toks [OF assms, of "[]" "[]"] by (simp add: jsonParse_def)
qed

end
