(* ===== verification/RR_JSON.thy ===== *)
theory RR_JSON
  imports JSON_Text DNSSEC_Keys Sanity
begin

text \<open>
  Records in JSON, after the JSON tags of \<^verbatim>\<open>internal/rec/rr.go\<close> and \<^verbatim>\<open>rropts.go\<close>, \<open>Domain.MarshalJSON\<close> and \<open>UnmarshalJSON\<close>
  of \<^verbatim>\<open>domain.go\<close>, \<open>RR.UnmarshalJSON\<close> of \<^verbatim>\<open>rr.go\<close> and the dispatch on the record type in \<^verbatim>\<open>unmarshal_generated.go\<close>.

  Storing a JSON value into a Go variable follows \<open>encoding/json\<close>: \<open>null\<close> leaves numbers, strings and booleans as they
  are and sets slices to nil; members of an object go to the field with that name, else to the one whose name is equal up
  to case, else nowhere; a byte slice is a base64 string or an array of numbers. An error of any kind is \<open>None\<close>. Where a
  key occurs twice the later value wins; the merging of two arrays under one key is not modelled.

  An empty slice is written as \<open>null\<close> when it is nil and as an empty string or array otherwise; the lists of the model do not tell
  these apart, so the writers take a function that says which fields hold a nil slice.
\<close>

subsection \<open>Storing basic values\<close>

definition storeUint :: "json \<Rightarrow> 'a::len word \<Rightarrow> 'a word option" where
  "storeUint v old =
     (case v of
        JNull \<Rightarrow> Some old
      | JNumber s \<Rightarrow> map_option of_nat (ParseUint s LENGTH('a))
      | _ \<Rightarrow> None)"

definition storeString :: "json \<Rightarrow> gostring \<Rightarrow> gostring option" where
  "storeString v old = (case v of JNull \<Rightarrow> Some old | JString s \<Rightarrow> Some s | _ \<Rightarrow> None)"

definition storeBool :: "json \<Rightarrow> bool \<Rightarrow> bool option" where
  "storeBool v old = (case v of JNull \<Rightarrow> Some old | JBool b \<Rightarrow> Some b | _ \<Rightarrow> None)"

text \<open>\<open>Domain.UnmarshalJSON\<close>: also called for \<open>null\<close>, which leaves the empty text.\<close>

definition Domain_UnmarshalJSON :: "unilower \<Rightarrow> json \<Rightarrow> Domain option" where
  "Domain_UnmarshalJSON uni v =
     (case storeString v [] of
        None \<Rightarrow> None
      | Some name \<Rightarrow> (case NewDomain uni name of Inl err \<Rightarrow> None | Inr parsed \<Rightarrow> Some parsed))"

definition Domain_MarshalJSON :: "Domain \<Rightarrow> json" where
  "Domain_MarshalJSON d = JString d"

definition storeIP :: "json \<Rightarrow> netIP option" where
  "storeIP v = (case v of JNull \<Rightarrow> Some [] | JString s \<Rightarrow> IP_UnmarshalText s | _ \<Rightarrow> None)"

definition storeUints :: "json \<Rightarrow> 'a::len word list option" where
  "storeUints v = (case v of JNull \<Rightarrow> Some [] | JArray vs \<Rightarrow> those (map (\<lambda>v. storeUint v 0) vs) | _ \<Rightarrow> None)"

definition storeBytes :: "json \<Rightarrow> bytes option" where
  "storeBytes v = (case v of JString s \<Rightarrow> StdDecodeString s | _ \<Rightarrow> storeUints v)"

subsection \<open>Storing structs\<close>

type_synonym 's field = "gostring \<times> (json \<Rightarrow> 's \<Rightarrow> 's option)"

definition findField :: "unifold \<Rightarrow> 's field list \<Rightarrow> gostring \<Rightarrow> (json \<Rightarrow> 's \<Rightarrow> 's option) option" where
  "findField ufold fs key =
     (case map_of fs key of
        Some f \<Rightarrow> Some f
      | None \<Rightarrow> map_option snd (List.find (\<lambda>(name, f). EqualFold ufold key name) fs))"

fun storeMembers :: "unifold \<Rightarrow> 's field list \<Rightarrow> (gostring \<times> json) list \<Rightarrow> 's \<Rightarrow> 's option" where
  "storeMembers ufold fs [] s = Some s"
| "storeMembers ufold fs ((key, v) # kvs) s =
     (case findField ufold fs key of
        None \<Rightarrow> storeMembers ufold fs kvs s
      | Some f \<Rightarrow> Option.bind (f v s) (storeMembers ufold fs kvs))"

definition storeStruct :: "unifold \<Rightarrow> 's field list \<Rightarrow> json \<Rightarrow> 's \<Rightarrow> 's option" where
  "storeStruct ufold fs v s =
     (case v of JNull \<Rightarrow> Some s | JObject kvs \<Rightarrow> storeMembers ufold fs kvs s | _ \<Rightarrow> None)"

subsection \<open>Record data\<close>

text \<open>The fields of the record data structs by their JSON names, and the zero value of each struct.\<close>

definition optsA :: "RRopts field list" where
  "optsA = [(lit ''address'', \<lambda>v _. map_option RRoptsA (storeIP v))]"

definition optsAAAA :: "RRopts field list" where
  "optsAAAA = [(lit ''address'', \<lambda>v _. map_option RRoptsAAAA (storeIP v))]"

definition optsNS :: "unilower \<Rightarrow> RRopts field list" where
  "optsNS uni = [(lit ''nsdname'', \<lambda>v _. map_option RRoptsNS (Domain_UnmarshalJSON uni v))]"

definition optsCNAME :: "unilower \<Rightarrow> RRopts field list" where
  "optsCNAME uni = [(lit ''cname'', \<lambda>v _. map_option RRoptsCNAME (Domain_UnmarshalJSON uni v))]"

definition optsPTR :: "unilower \<Rightarrow> RRopts field list" where
  "optsPTR uni = [(lit ''ptrdname'', \<lambda>v _. map_option RRoptsPTR (Domain_UnmarshalJSON uni v))]"

definition optsSOA :: "unilower \<Rightarrow> RRopts field list" where
  "optsSOA uni =
     [(lit ''mname'', \<lambda>v opts. map_option (\<lambda>x. RRoptsSOA x (Rname opts) (Serial opts) (Refresh opts) (Retry opts) (Expire opts) (Minimum opts)) (Domain_UnmarshalJSON uni v)),
      (lit ''rname'', \<lambda>v opts. map_option (\<lambda>x. RRoptsSOA (Mname opts) x (Serial opts) (Refresh opts) (Retry opts) (Expire opts) (Minimum opts)) (Domain_UnmarshalJSON uni v)),
      (lit ''serial'', \<lambda>v opts. map_option (\<lambda>x. RRoptsSOA (Mname opts) (Rname opts) x (Refresh opts) (Retry opts) (Expire opts) (Minimum opts)) (storeUint v (Serial opts))),
      (lit ''refresh'', \<lambda>v opts. map_option (\<lambda>x. RRoptsSOA (Mname opts) (Rname opts) (Serial opts) x (Retry opts) (Expire opts) (Minimum opts)) (storeUint v (Refresh opts))),
      (lit ''retry'', \<lambda>v opts. map_option (\<lambda>x. RRoptsSOA (Mname opts) (Rname opts) (Serial opts) (Refresh opts) x (Expire opts) (Minimum opts)) (storeUint v (Retry opts))),
      (lit ''expire'', \<lambda>v opts. map_option (\<lambda>x. RRoptsSOA (Mname opts) (Rname opts) (Serial opts) (Refresh opts) (Retry opts) x (Minimum opts)) (storeUint v (Expire opts))),
      (lit ''minimum'', \<lambda>v opts. map_option (\<lambda>x. RRoptsSOA (Mname opts) (Rname opts) (Serial opts) (Refresh opts) (Retry opts) (Expire opts) x) (storeUint v (Minimum opts)))]"

definition optsMX :: "unilower \<Rightarrow> RRopts field list" where
  "optsMX uni =
     [(lit ''preference'', \<lambda>v opts. map_option (\<lambda>x. RRoptsMX x (Mx opts)) (storeUint v (Preference opts))),
      (lit ''exchange'', \<lambda>v opts. map_option (\<lambda>x. RRoptsMX (Preference opts) x) (Domain_UnmarshalJSON uni v))]"

definition optsTXT :: "RRopts field list" where
  "optsTXT = [(lit ''txtdata'', \<lambda>v opts. map_option RRoptsTXT (storeString v (Txt opts)))]"

definition optsSRV :: "unilower \<Rightarrow> RRopts field list" where
  "optsSRV uni =
     [(lit ''priority'', \<lambda>v opts. map_option (\<lambda>x. RRoptsSRV x (Weight opts) (Port opts) (SRV_Target opts)) (storeUint v (Priority opts))),
      (lit ''weight'', \<lambda>v opts. map_option (\<lambda>x. RRoptsSRV (Priority opts) x (Port opts) (SRV_Target opts)) (storeUint v (Weight opts))),
      (lit ''port'', \<lambda>v opts. map_option (\<lambda>x. RRoptsSRV (Priority opts) (Weight opts) x (SRV_Target opts)) (storeUint v (Port opts))),
      (lit ''target'', \<lambda>v opts. map_option (\<lambda>x. RRoptsSRV (Priority opts) (Weight opts) (Port opts) x) (Domain_UnmarshalJSON uni v))]"

definition optsCAA :: "RRopts field list" where
  "optsCAA =
     [(lit ''flags'', \<lambda>v opts. map_option (\<lambda>x. RRoptsCAA x (Tag opts) (Value opts)) (storeUint v (CAA_Flags opts))),
      (lit ''tag'', \<lambda>v opts. map_option (\<lambda>x. RRoptsCAA (CAA_Flags opts) x (Value opts)) (storeString v (Tag opts))),
      (lit ''value'', \<lambda>v opts. map_option (\<lambda>x. RRoptsCAA (CAA_Flags opts) (Tag opts) x) (storeString v (Value opts)))]"

definition optsRRSIG :: "RRopts field list" where
  "optsRRSIG =
     [(lit ''typeCovered'', \<lambda>v opts. map_option (\<lambda>x. RRoptsRRSIG x (RRSIG_Algorithm opts) (Labels opts) (OrigTTL opts) (Expiration opts) (Inception opts) (RRSIG_KeyTag opts) (SignerName opts) (Signature opts)) (storeUint v (TypeCovered opts))),
      (lit ''algorithm'', \<lambda>v opts. map_option (\<lambda>x. RRoptsRRSIG (TypeCovered opts) x (Labels opts) (OrigTTL opts) (Expiration opts) (Inception opts) (RRSIG_KeyTag opts) (SignerName opts) (Signature opts)) (storeUint v (RRSIG_Algorithm opts))),
      (lit ''labels'', \<lambda>v opts. map_option (\<lambda>x. RRoptsRRSIG (TypeCovered opts) (RRSIG_Algorithm opts) x (OrigTTL opts) (Expiration opts) (Inception opts) (RRSIG_KeyTag opts) (SignerName opts) (Signature opts)) (storeUint v (Labels opts))),
      (lit ''origTTL'', \<lambda>v opts. map_option (\<lambda>x. RRoptsRRSIG (TypeCovered opts) (RRSIG_Algorithm opts) (Labels opts) x (Expiration opts) (Inception opts) (RRSIG_KeyTag opts) (SignerName opts) (Signature opts)) (storeUint v (OrigTTL opts))),
      (lit ''expiration'', \<lambda>v opts. map_option (\<lambda>x. RRoptsRRSIG (TypeCovered opts) (RRSIG_Algorithm opts) (Labels opts) (OrigTTL opts) x (Inception opts) (RRSIG_KeyTag opts) (SignerName opts) (Signature opts)) (storeUint v (Expiration opts))),
      (lit ''inception'', \<lambda>v opts. map_option (\<lambda>x. RRoptsRRSIG (TypeCovered opts) (RRSIG_Algorithm opts) (Labels opts) (OrigTTL opts) (Expiration opts) x (RRSIG_KeyTag opts) (SignerName opts) (Signature opts)) (storeUint v (Inception opts))),
      (lit ''keyTag'', \<lambda>v opts. map_option (\<lambda>x. RRoptsRRSIG (TypeCovered opts) (RRSIG_Algorithm opts) (Labels opts) (OrigTTL opts) (Expiration opts) (Inception opts) x (SignerName opts) (Signature opts)) (storeUint v (RRSIG_KeyTag opts))),
      (lit ''signerName'', \<lambda>v opts. map_option (\<lambda>x. RRoptsRRSIG (TypeCovered opts) (RRSIG_Algorithm opts) (Labels opts) (OrigTTL opts) (Expiration opts) (Inception opts) (RRSIG_KeyTag opts) x (Signature opts)) (storeString v (SignerName opts))),
      (lit ''signature'', \<lambda>v opts. map_option (\<lambda>x. RRoptsRRSIG (TypeCovered opts) (RRSIG_Algorithm opts) (Labels opts) (OrigTTL opts) (Expiration opts) (Inception opts) (RRSIG_KeyTag opts) (SignerName opts) x) (storeBytes v))]"

definition optsDNSKEY :: "RRopts field list" where
  "optsDNSKEY =
     [(lit ''flags'', \<lambda>v opts. map_option (\<lambda>x. RRoptsDNSKEY x (Protocol opts) (DNSKEY_Algorithm opts) (PublicKey opts)) (storeUint v (DNSKEY_Flags opts))),
      (lit ''protocol'', \<lambda>v opts. map_option (\<lambda>x. RRoptsDNSKEY (DNSKEY_Flags opts) x (DNSKEY_Algorithm opts) (PublicKey opts)) (storeUint v (Protocol opts))),
      (lit ''algorithm'', \<lambda>v opts. map_option (\<lambda>x. RRoptsDNSKEY (DNSKEY_Flags opts) (Protocol opts) x (PublicKey opts)) (storeUint v (DNSKEY_Algorithm opts))),
      (lit ''publicKey'', \<lambda>v opts. map_option (\<lambda>x. RRoptsDNSKEY (DNSKEY_Flags opts) (Protocol opts) (DNSKEY_Algorithm opts) x) (storeBytes v))]"

definition optsDS :: "RRopts field list" where
  "optsDS =
     [(lit ''keyTag'', \<lambda>v opts. map_option (\<lambda>x. RRoptsDS x (DS_Algorithm opts) (DigestType opts) (Digest opts)) (storeUint v (DS_KeyTag opts))),
      (lit ''algorithm'', \<lambda>v opts. map_option (\<lambda>x. RRoptsDS (DS_KeyTag opts) x (DigestType opts) (Digest opts)) (storeUint v (DS_Algorithm opts))),
      (lit ''digestType'', \<lambda>v opts. map_option (\<lambda>x. RRoptsDS (DS_KeyTag opts) (DS_Algorithm opts) x (Digest opts)) (storeUint v (DigestType opts))),
      (lit ''digest'', \<lambda>v opts. map_option (\<lambda>x. RRoptsDS (DS_KeyTag opts) (DS_Algorithm opts) (DigestType opts) x) (storeBytes v))]"

definition optsNSEC3 :: "RRopts field list" where
  "optsNSEC3 =
     [(lit ''hashAlgorithm'', \<lambda>v opts. map_option (\<lambda>x. RRoptsNSEC3 x (NSEC3_Flags opts) (Iterations opts) (Salt opts) (NextHash opts) (Types opts)) (storeUint v (HashAlgorithm opts))),
      (lit ''flags'', \<lambda>v opts. map_option (\<lambda>x. RRoptsNSEC3 (HashAlgorithm opts) x (Iterations opts) (Salt opts) (NextHash opts) (Types opts)) (storeUint v (NSEC3_Flags opts))),
      (lit ''iterations'', \<lambda>v opts. map_option (\<lambda>x. RRoptsNSEC3 (HashAlgorithm opts) (NSEC3_Flags opts) x (Salt opts) (NextHash opts) (Types opts)) (storeUint v (Iterations opts))),
      (lit ''salt'', \<lambda>v opts. map_option (\<lambda>x. RRoptsNSEC3 (HashAlgorithm opts) (NSEC3_Flags opts) (Iterations opts) x (NextHash opts) (Types opts)) (storeBytes v)),
      (lit ''nextHash'', \<lambda>v opts. map_option (\<lambda>x. RRoptsNSEC3 (HashAlgorithm opts) (NSEC3_Flags opts) (Iterations opts) (Salt opts) x (Types opts)) (storeBytes v)),
      (lit ''types'', \<lambda>v opts. map_option (\<lambda>x. RRoptsNSEC3 (HashAlgorithm opts) (NSEC3_Flags opts) (Iterations opts) (Salt opts) (NextHash opts) x) (storeUints v))]"

definition optsNSEC3PARAM :: "RRopts field list" where
  "optsNSEC3PARAM =
     [(lit ''hashAlgorithm'', \<lambda>v opts. map_option (\<lambda>x. RRoptsNSEC3PARAM x (PARAM_Flags opts) (PARAM_Iterations opts) (PARAM_Salt opts)) (storeUint v (PARAM_HashAlgorithm opts))),
      (lit ''flags'', \<lambda>v opts. map_option (\<lambda>x. RRoptsNSEC3PARAM (PARAM_HashAlgorithm opts) x (PARAM_Iterations opts) (PARAM_Salt opts)) (storeUint v (PARAM_Flags opts))),
      (lit ''iterations'', \<lambda>v opts. map_option (\<lambda>x. RRoptsNSEC3PARAM (PARAM_HashAlgorithm opts) (PARAM_Flags opts) x (PARAM_Salt opts)) (storeUint v (PARAM_Iterations opts))),
      (lit ''salt'', \<lambda>v opts. map_option (\<lambda>x. RRoptsNSEC3PARAM (PARAM_HashAlgorithm opts) (PARAM_Flags opts) (PARAM_Iterations opts) x) (storeBytes v))]"

definition rroptsUnmarshalJSON :: "unilower \<Rightarrow> unifold \<Rightarrow> RRtype \<Rightarrow> json \<Rightarrow> RRopts option" where
  "rroptsUnmarshalJSON uni ufold rrtype data =
     (if rrtype = TypeA then storeStruct ufold optsA data (RRoptsA [])
      else if rrtype = TypeAAAA then storeStruct ufold optsAAAA data (RRoptsAAAA [])
      else if rrtype = TypeNS then storeStruct ufold (optsNS uni) data (RRoptsNS [])
      else if rrtype = TypeCNAME then storeStruct ufold (optsCNAME uni) data (RRoptsCNAME [])
      else if rrtype = TypeSOA then storeStruct ufold (optsSOA uni) data (RRoptsSOA [] [] 0 0 0 0 0)
      else if rrtype = TypePTR then storeStruct ufold (optsPTR uni) data (RRoptsPTR [])
      else if rrtype = TypeMX then storeStruct ufold (optsMX uni) data (RRoptsMX 0 [])
      else if rrtype = TypeTXT then storeStruct ufold optsTXT data (RRoptsTXT [])
      else if rrtype = TypeSRV then storeStruct ufold (optsSRV uni) data (RRoptsSRV 0 0 0 [])
      else if rrtype = TypeCAA then storeStruct ufold optsCAA data (RRoptsCAA 0 [] [])
      else if rrtype = TypeRRSIG then storeStruct ufold optsRRSIG data (RRoptsRRSIG 0 0 0 0 0 0 0 [] [])
      else if rrtype = TypeDNSKEY then storeStruct ufold optsDNSKEY data (RRoptsDNSKEY 0 0 0 [])
      else if rrtype = TypeDS then storeStruct ufold optsDS data (RRoptsDS 0 0 0 [])
      else if rrtype = TypeNSEC3 then storeStruct ufold optsNSEC3 data (RRoptsNSEC3 0 0 0 [] [] [])
      else if rrtype = TypeNSEC3PARAM then storeStruct ufold optsNSEC3PARAM data (RRoptsNSEC3PARAM 0 0 0 [])
      else None)"

subsection \<open>Records\<close>

text \<open>The anonymous struct of \<open>RR.UnmarshalJSON\<close>: the fields of the record and the raw payload, \<open>None\<close> when there is none.\<close>

record rrAlias =
  aName :: Domain
  aRRtype :: RRtype
  aTTL :: RRttl
  aPayload :: "json option"

definition rrFields :: "unilower \<Rightarrow> rrAlias field list" where
  "rrFields uni =
     [(lit ''name'', \<lambda>v s. map_option (\<lambda>x. s \<lparr> aName := x \<rparr>) (Domain_UnmarshalJSON uni v)),
      (lit ''rrtype'', \<lambda>v s. map_option (\<lambda>x. s \<lparr> aRRtype := x \<rparr>) (storeString v (aRRtype s))),
      (lit ''ttl'', \<lambda>v s. map_option (\<lambda>x. s \<lparr> aTTL := x \<rparr>) (storeUint v (aTTL s))),
      (lit ''payload'', \<lambda>v s. Some (s \<lparr> aPayload := Some v \<rparr>))]"

definition RR_UnmarshalJSON :: "unilower \<Rightarrow> unifold \<Rightarrow> json \<Rightarrow> RR option" where
  "RR_UnmarshalJSON uni ufold data =
     (case storeStruct ufold (rrFields uni) data \<lparr> aName = [], aRRtype = [], aTTL = 0, aPayload = None \<rparr> of
        None \<Rightarrow> None
      | Some s \<Rightarrow>
          (case Option.bind (aPayload s) (rroptsUnmarshalJSON uni ufold (aRRtype s)) of
             None \<Rightarrow> None
           | Some opts \<Rightarrow> Some \<lparr> Name = aName s, RRtype = aRRtype s, TTL = aTTL s, Opts = opts \<rparr>))"

subsection \<open>Writing\<close>

definition jUint :: "'a::len word \<Rightarrow> json" where
  "jUint w = JNumber (FormatNat (unat w))"

definition jBytes :: "bool \<Rightarrow> bytes \<Rightarrow> json" where
  "jBytes isNil bs = (if bs = [] \<and> isNil then JNull else JString (StdEncodeToString bs))"

definition jUints :: "bool \<Rightarrow> 16 word list \<Rightarrow> json" where
  "jUints isNil ws = (if ws = [] \<and> isNil then JNull else JArray (map jUint ws))"

fun RRopts_JSON :: "(gostring \<Rightarrow> bool) \<Rightarrow> RRopts \<Rightarrow> json option" where
  "RRopts_JSON nils (RRoptsA target) = map_option (\<lambda>s. JObject [(lit ''address'', JString s)]) (IP_MarshalText target)"
| "RRopts_JSON nils (RRoptsAAAA target) = map_option (\<lambda>s. JObject [(lit ''address'', JString s)]) (IP_MarshalText target)"
| "RRopts_JSON nils (RRoptsNS ns) = Some (JObject [(lit ''nsdname'', Domain_MarshalJSON ns)])"
| "RRopts_JSON nils (RRoptsCNAME cname) = Some (JObject [(lit ''cname'', Domain_MarshalJSON cname)])"
| "RRopts_JSON nils (RRoptsSOA mname rname serial refresh retry expire minimum) =
     Some (JObject [(lit ''mname'', Domain_MarshalJSON mname), (lit ''rname'', Domain_MarshalJSON rname), (lit ''serial'', jUint serial),
       (lit ''refresh'', jUint refresh), (lit ''retry'', jUint retry), (lit ''expire'', jUint expire), (lit ''minimum'', jUint minimum)])"
| "RRopts_JSON nils (RRoptsPTR ptr) = Some (JObject [(lit ''ptrdname'', Domain_MarshalJSON ptr)])"
| "RRopts_JSON nils (RRoptsMX preference mx) = Some (JObject [(lit ''preference'', jUint preference), (lit ''exchange'', Domain_MarshalJSON mx)])"
| "RRopts_JSON nils (RRoptsTXT txt) = Some (JObject [(lit ''txtdata'', JString txt)])"
| "RRopts_JSON nils (RRoptsSRV priority weight port target) =
     Some (JObject [(lit ''priority'', jUint priority), (lit ''weight'', jUint weight), (lit ''port'', jUint port), (lit ''target'', Domain_MarshalJSON target)])"
| "RRopts_JSON nils (RRoptsCAA flags tag val) = Some (JObject [(lit ''flags'', jUint flags), (lit ''tag'', JString tag), (lit ''value'', JString val)])"
| "RRopts_JSON nils (RRoptsRRSIG typeCovered algorithm labels origTTL expiration inception keyTag signerName signature) =
     Some (JObject [(lit ''typeCovered'', jUint typeCovered), (lit ''algorithm'', jUint algorithm), (lit ''labels'', jUint labels), (lit ''origTTL'', jUint origTTL),
       (lit ''expiration'', jUint expiration), (lit ''inception'', jUint inception), (lit ''keyTag'', jUint keyTag), (lit ''signerName'', JString signerName),
       (lit ''signature'', jBytes (nils (lit ''signature'')) signature)])"
| "RRopts_JSON nils (RRoptsDNSKEY flags protocol algorithm publicKey) =
     Some (JObject [(lit ''flags'', jUint flags), (lit ''protocol'', jUint protocol), (lit ''algorithm'', jUint algorithm),
       (lit ''publicKey'', jBytes (nils (lit ''publicKey'')) publicKey)])"
| "RRopts_JSON nils (RRoptsDS keyTag algorithm digestType digest) =
     Some (JObject [(lit ''keyTag'', jUint keyTag), (lit ''algorithm'', jUint algorithm), (lit ''digestType'', jUint digestType),
       (lit ''digest'', jBytes (nils (lit ''digest'')) digest)])"
| "RRopts_JSON nils (RRoptsNSEC3 hashAlgorithm flags iterations salt nextHash types) =
     Some (JObject [(lit ''hashAlgorithm'', jUint hashAlgorithm), (lit ''flags'', jUint flags), (lit ''iterations'', jUint iterations),
       (lit ''salt'', jBytes (nils (lit ''salt'')) salt), (lit ''nextHash'', jBytes (nils (lit ''nextHash'')) nextHash),
       (lit ''types'', jUints (nils (lit ''types'')) types)])"
| "RRopts_JSON nils (RRoptsNSEC3PARAM hashAlgorithm flags iterations salt) =
     Some (JObject [(lit ''hashAlgorithm'', jUint hashAlgorithm), (lit ''flags'', jUint flags), (lit ''iterations'', jUint iterations),
       (lit ''salt'', jBytes (nils (lit ''salt'')) salt)])"

definition RR_MarshalJSON :: "(gostring \<Rightarrow> bool) \<Rightarrow> RR \<Rightarrow> json option" where
  "RR_MarshalJSON nils rr =
     map_option (\<lambda>payload. JObject [(lit ''name'', Domain_MarshalJSON (Name rr)), (lit ''rrtype'', JString (RRtype rr)), (lit ''ttl'', jUint (TTL rr)),
       (lit ''payload'', payload)]) (RRopts_JSON nils (Opts rr))"

subsection \<open>Basic values are read back\<close>

lemma utf8Valid_coerce: "utf8Valid s \<Longrightarrow> coerceUTF8 s = s"
proof (induction s rule: utf8Valid.induct)
  case (1 s)
  then show ?case by (subst coerceUTF8.simps, subst (asm) (2) utf8Valid.simps) (auto split: if_splits)
qed

lemma ascii_utf8: "is_ascii s \<Longrightarrow> utf8Valid s"
proof (induction s)
  case (Cons b s)
  then have "b < 0x80" "is_ascii s" by (simp_all add: is_ascii_def)
  then show ?case using Cons(1) by (subst utf8Valid.simps) (simp add: runeLen_def)
qed (simp add: utf8Valid.simps)

lemma coerce_ascii [simp]: "is_ascii s \<Longrightarrow> coerceUTF8 s = s"
  by (rule utf8Valid_coerce [OF ascii_utf8])

lemma inj_of_char: "inj (of_char :: char \<Rightarrow> byte)"
proof (rule injI)
  fix c d :: char
  assume "(of_char c :: byte) = of_char d"
  then have "unat (of_char c :: byte) = unat (of_char d :: byte)" by simp
  moreover have "unat (of_char c :: byte) = (of_char c :: nat)" for c
  proof -
    have "(of_char c :: byte) = of_nat (of_char c)" by (rule of_nat_of_char [symmetric])
    moreover have "(of_char c :: nat) < 256" by (rule nat_of_char_less_256)
    ultimately show ?thesis by (simp only: unat_of_nat) simp
  qed
  ultimately have "(of_char c :: nat) = of_char d" by simp
  then show "c = d" by simp
qed

lemma lit_inject [simp]: "lit a = lit b \<longleftrightarrow> a = b"
  unfolding lit_def using inj_of_char by (simp add: inj_map_eq_map)

lemma FormatNat_ascii: "is_ascii (FormatNat n)"
proof -
  have "b < 128" if "b \<in> set (FormatNat n)" for b
  proof -
    have "b \<le> 57" using FormatNat_digits [OF that] by simp
    then show ?thesis by (rule order.strict_trans1) simp
  qed
  then show ?thesis by (simp add: is_ascii_def list_all_iff)
qed

lemma ParseUint_FormatNat: "n < 2 ^ bits \<Longrightarrow> ParseUint (FormatNat n) bits = Some n"
proof -
  assume "n < 2 ^ bits"
  moreover have "decimal (FormatNat n) = n" using readDec_FormatNat [of n] by (simp add: decimal_def readDec_def)
  moreover have "list_all digit (FormatNat n)" using FormatNat_digits by (auto simp: list_all_iff digit_def)
  ultimately show ?thesis by (simp add: ParseUint_def)
qed

lemma storeUint_jUint [simp]: "storeUint (jUint w) old = Some w"
  using ParseUint_FormatNat [OF unsigned_less [of w]] by (simp add: storeUint_def jUint_def)

lemma coerce_jUint [simp]: "coerceJSON (jUint w) = jUint w"
  by (simp add: jUint_def)

lemma base64_ascii: "is_ascii (StdEncodeToString bs)"
proof -
  have "is_ascii stdAlphabet" "length stdAlphabet = 64" by code_simp+
  moreover have "bitsNat p < 64" if "p \<in> set (pieces 6 (concat (map byteBits bs)))" for p
    using bitsNat_less [of p] piece_length [OF _ that] by simp
  ultimately have "is_ascii (encode64 stdAlphabet bs)"
    by (auto simp: encode64_def is_ascii_def list_all_iff intro!: nth_mem)
  then show ?thesis by (auto simp: StdEncodeToString_def Let_def is_ascii_def list_all_iff)
qed

lemma storeBytes_jBytes [simp]: "storeBytes (coerceJSON (jBytes isNil bs)) = Some bs"
  by (simp add: jBytes_def storeBytes_def storeUints_def base64_ascii StdDecode_Encode)

lemma storeUints_jUints [simp]: "storeUints (coerceJSON (jUints isNil ws)) = Some ws"
proof -
  have "those (map (\<lambda>v. storeUint v 0) (map jUint ws)) = Some ws" by (induction ws) simp_all
  then show ?thesis by (simp add: jUints_def storeUints_def comp_def)
qed

definition canonical_name :: "unilower \<Rightarrow> Domain \<Rightarrow> bool" where
  "canonical_name uni d \<longleftrightarrow> NewDomain uni d = Inr d \<and> utf8Valid d"

lemma storeDomain [simp]: "canonical_name uni d \<Longrightarrow> Domain_UnmarshalJSON uni (coerceJSON (Domain_MarshalJSON d)) = Some d"
  by (simp add: Domain_UnmarshalJSON_def Domain_MarshalJSON_def storeString_def canonical_name_def utf8Valid_coerce)

lemma IP_String_ascii:
  assumes "IP_Addr.To16 ip \<noteq> None" shows "is_ascii (IP_String ip)"
proof -
  have "b < 128" if "b \<in> set (string6 ip)" for b
    using string6_bytes [OF that] by (auto simp: hexVal_def is_digit_def word_le_nat_alt word_less_nat_alt split: if_splits)
  moreover have "b < 128" if "b \<in> set (string4 v4)" for b v4
    using that Join_bytes [of b "[46]" "map (\<lambda>b. FormatNat (unat b)) v4"] FormatNat_ascii
    by (auto simp: string4_def lit_def is_ascii_def list_all_iff)
  ultimately show ?thesis
    using assms by (auto simp: IP_String_def is_ascii_def list_all_iff IP_Addr.To16_def IP_Addr.To4_def split: option.splits if_splits)
qed

definition normIP :: "netIP \<Rightarrow> netIP" where
  "normIP ip = (case IP_Addr.To16 ip of Some v6 \<Rightarrow> v6 | None \<Rightarrow> ip)"

lemma storeIP_text:
  assumes "length ip \<in> {0, 4, 16}"
  shows "\<exists>s. IP_MarshalText ip = Some s \<and> storeIP (coerceJSON (JString s)) = Some (normIP ip)"
proof (cases "ip = []")
  case True
  then show ?thesis by (simp add: IP_MarshalText_def storeIP_def IP_UnmarshalText_def normIP_def IP_Addr.To16_def is_ascii_def)
next
  case False
  then obtain v6 where v: "IP_Addr.To16 ip = Some v6" using assms by (auto simp: IP_Addr.To16_def)
  then show ?thesis using IP_text_roundtrip [OF v] IP_String_ascii [of ip] by (simp add: storeIP_def normIP_def)
qed

subsection \<open>Records are read back\<close>

text \<open>Record data that the JSON form can carry: addresses of a legal length, names that \<open>NewDomain\<close> accepts as they
  are, texts in UTF-8.\<close>

fun json_opts_ok :: "unilower \<Rightarrow> RRopts \<Rightarrow> bool" where
  "json_opts_ok uni (RRoptsA ip) \<longleftrightarrow> length ip \<in> {0, 4, 16}"
| "json_opts_ok uni (RRoptsAAAA ip) \<longleftrightarrow> length ip \<in> {0, 4, 16}"
| "json_opts_ok uni (RRoptsTXT txt) \<longleftrightarrow> utf8Valid txt"
| "json_opts_ok uni (RRoptsCAA flags tag val) \<longleftrightarrow> utf8Valid tag \<and> utf8Valid val"
| "json_opts_ok uni (RRoptsRRSIG tc alg labels ttl ex inc tag signer sig) \<longleftrightarrow> utf8Valid signer"
| "json_opts_ok uni opts \<longleftrightarrow> list_all (canonical_name uni) (names_in opts)"

definition json_record_ok :: "unilower \<Rightarrow> RR \<Rightarrow> bool" where
  "json_record_ok uni rr \<longleftrightarrow> RRtype rr = RRtype_of (Opts rr) \<and> canonical_name uni (Name rr) \<and> json_opts_ok uni (Opts rr)"

text \<open>What a reader gets: addresses in their 16-byte form.\<close>

fun normOpts :: "RRopts \<Rightarrow> RRopts" where
  "normOpts (RRoptsA ip) = RRoptsA (normIP ip)"
| "normOpts (RRoptsAAAA ip) = RRoptsAAAA (normIP ip)"
| "normOpts opts = opts"

definition normRR :: "RR \<Rightarrow> RR" where
  "normRR rr = rr \<lparr> Opts := normOpts (Opts rr) \<rparr>"

lemma ascii_lit [simp]: "is_ascii (lit s) \<longleftrightarrow> list_all (\<lambda>c. (of_char c :: byte) < 128) s"
  by (simp add: is_ascii_def lit_def list_all_length)

lemmas store_defs = storeStruct_def findField_def optsA_def optsAAAA_def optsNS_def optsCNAME_def optsPTR_def optsSOA_def optsMX_def
  optsTXT_def optsSRV_def optsCAA_def optsRRSIG_def optsDNSKEY_def optsDS_def optsNSEC3_def optsNSEC3PARAM_def

lemma rropts_roundtrip:
  assumes "json_opts_ok uni opts"
  shows "\<exists>v. RRopts_JSON nils opts = Some v \<and> rroptsUnmarshalJSON uni ufold (RRtype_of opts) (coerceJSON v) = Some (normOpts opts)"
proof (cases opts)
  case (RRoptsA ip)
  then show ?thesis using assms storeIP_text [of ip] by (auto simp: rroptsUnmarshalJSON_def store_defs)
next
  case (RRoptsAAAA ip)
  then show ?thesis using assms storeIP_text [of ip] by (auto simp: rroptsUnmarshalJSON_def store_defs)
qed (use assms in \<open>simp_all add: rroptsUnmarshalJSON_def store_defs names_in_def storeString_def utf8Valid_coerce\<close>)

lemma RR_roundtrip:
  assumes "json_record_ok uni rr"
  shows "\<exists>v. RR_MarshalJSON nils rr = Some v \<and> RR_UnmarshalJSON uni ufold (coerceJSON v) = Some (normRR rr)"
proof -
  obtain p where p: "RRopts_JSON nils (Opts rr) = Some p" "rroptsUnmarshalJSON uni ufold (RRtype_of (Opts rr)) (coerceJSON p) = Some (normOpts (Opts rr))"
    using rropts_roundtrip [of uni "Opts rr" nils ufold] assms by (auto simp: json_record_ok_def)
  have "is_ascii (RRtype_of opts)" for opts by (cases opts) (simp_all add: rrtype_defs)
  then have t: "coerceUTF8 (RRtype rr) = RRtype_of (Opts rr)" using assms by (simp add: json_record_ok_def)
  show ?thesis
    using p t assms
    by (simp add: RR_MarshalJSON_def RR_UnmarshalJSON_def rrFields_def storeStruct_def findField_def storeString_def normRR_def json_record_ok_def)
qed

text \<open>The normal form is the same record on the wire.\<close>

lemma normIP_wire: "length ip \<in> {0, 4, 16} \<Longrightarrow> RR_Types.To4 (normIP ip) = RR_Types.To4 ip \<and> RR_Types.To16 (normIP ip) = RR_Types.To16 ip"
  by (auto simp: normIP_def IP_Addr.To16_def RR_Types.To4_def RR_Types.To16_def RR_Types.v4InV6Prefix_def)

lemma normRR_simps [simp]: "Name (normRR rr) = Name rr" "RRtype (normRR rr) = RRtype rr" "TTL (normRR rr) = TTL rr"
  by (simp_all add: normRR_def)

lemma normRR_wire:
  assumes "json_opts_ok uni (Opts rr)" shows "BinaryWrite uni' (normRR rr) = BinaryWrite uni' rr"
proof -
  have "Payload uni' (normOpts (Opts rr)) = Payload uni' (Opts rr)"
    using assms normIP_wire by (cases "Opts rr") auto
  moreover have "Opts (normRR rr) = normOpts (Opts rr)" by (simp add: normRR_def)
  ultimately show ?thesis by (cases "RRtypeToWire (RRtype rr)") (simp_all add: BinaryWrite_def)
qed

subsection \<open>What is read is well formed\<close>

lemma Domain_UnmarshalJSON_valid: "Domain_UnmarshalJSON uni v = Some d \<Longrightarrow> valid_domain d"
  by (auto simp: Domain_UnmarshalJSON_def NewDomain_Inr_iff split: option.splits sum.splits)

lemma storeMembers_invariant:
  assumes "storeMembers ufold fs kvs s = Some s'" "P s"
    and "\<And>name f v s s'. (name, f) \<in> set fs \<Longrightarrow> f v s = Some s' \<Longrightarrow> P s \<Longrightarrow> P s'"
  shows "P s'"
  using assms(1,2)
proof (induction kvs arbitrary: s)
  case (Cons e kvs)
  obtain key v where e: "e = (key, v)" by (cases e)
  have "\<exists>name. (name, f) \<in> set fs" if "findField ufold fs key = Some f" for f
    using that by (auto simp: findField_def find_Some_iff split: option.splits dest!: map_of_SomeD) (metis nth_mem)
  then show ?case using Cons e assms(3) by (fastforce split: option.splits bind_splits)
qed simp

lemma storeStruct_invariant:
  assumes "storeStruct ufold fs v s = Some s'" "P s"
    and "\<And>name f v s s'. (name, f) \<in> set fs \<Longrightarrow> f v s = Some s' \<Longrightarrow> P s \<Longrightarrow> P s'"
  shows "P s'"
  using assms storeMembers_invariant [of ufold fs _ s s' P] by (auto simp: storeStruct_def split: json.splits)

definition opts_read :: "RRtype \<Rightarrow> RRopts \<Rightarrow> bool" where
  "opts_read t opts \<longleftrightarrow> RRtype_of opts = t \<and> list_all wf_name (names_in opts)"

definition keeps_read :: "RRtype \<Rightarrow> RRopts field list \<Rightarrow> bool" where
  "keeps_read t fs \<longleftrightarrow> (\<forall>(name, f) \<in> set fs. \<forall>v s s'. f v s = Some s' \<longrightarrow> opts_read t s \<longrightarrow> opts_read t s')"

lemma fields_keep_read:
  "keeps_read TypeA optsA" "keeps_read TypeAAAA optsAAAA" "keeps_read TypeNS (optsNS uni)" "keeps_read TypeCNAME (optsCNAME uni)"
  "keeps_read TypePTR (optsPTR uni)" "keeps_read TypeMX (optsMX uni)" "keeps_read TypeTXT optsTXT" "keeps_read TypeSRV (optsSRV uni)"
  "keeps_read TypeCAA optsCAA" "keeps_read TypeRRSIG optsRRSIG" "keeps_read TypeDNSKEY optsDNSKEY" "keeps_read TypeDS optsDS"
  "keeps_read TypeNSEC3 optsNSEC3" "keeps_read TypeNSEC3PARAM optsNSEC3PARAM"
  by (auto simp: keeps_read_def store_defs opts_read_def names_in_def dest!: Domain_UnmarshalJSON_valid split: RRopts.splits)+

lemma SOA_keeps_read: "keeps_read TypeSOA (optsSOA uni)"
proof -
  have "\<exists>m r a b c d e. opts = RRoptsSOA m r a b c d e \<and> wf_name m \<and> wf_name r" if "opts_read TypeSOA opts" for opts
    using that by (cases opts) (auto simp: opts_read_def names_in_def)
  then show ?thesis
    by (fastforce simp: keeps_read_def optsSOA_def opts_read_def names_in_def dest!: Domain_UnmarshalJSON_valid)
qed

lemma storeStruct_read:
  assumes "storeStruct ufold fs v s = Some s'" "keeps_read t fs" "opts_read t s" shows "opts_read t s'"
  using assms storeStruct_invariant [of ufold fs v s s' "opts_read t"] by (fastforce simp: keeps_read_def)

lemma rropts_read: "rroptsUnmarshalJSON uni ufold rrtype v = Some opts \<Longrightarrow> opts_read rrtype opts"
  unfolding rroptsUnmarshalJSON_def
  by (simp split: if_split_asm;
      erule storeStruct_read, rule fields_keep_read SOA_keeps_read, simp add: opts_read_def names_in_def wf_name_def)

lemma RR_UnmarshalJSON_read:
  assumes "RR_UnmarshalJSON uni ufold v = Some rr"
  shows "wf_name (Name rr)" "RRtype rr = RRtype_of (Opts rr)" "list_all wf_name (names_in (Opts rr))"
proof -
  obtain s p where s: "storeStruct ufold (rrFields uni) v \<lparr> aName = [], aRRtype = [], aTTL = 0, aPayload = None \<rparr> = Some s"
      "rroptsUnmarshalJSON uni ufold (aRRtype s) p = Some (Opts rr)" "Name rr = aName s" "RRtype rr = aRRtype s"
    using assms by (auto simp: RR_UnmarshalJSON_def split: option.splits bind_splits)
  have "wf_name (aName s)"
    using s(1) by (rule storeStruct_invariant [where P = "\<lambda>s. wf_name (aName s)"])
      (auto simp: rrFields_def wf_name_def [of "[]"] dest!: Domain_UnmarshalJSON_valid)
  then show "wf_name (Name rr)" using s(3) by simp
  show "RRtype rr = RRtype_of (Opts rr)" "list_all wf_name (names_in (Opts rr))"
    using rropts_read [OF s(2)] s(4) by (simp_all add: opts_read_def)
qed

end
