(* ===== verification/DB_JSON.thy ===== *)
theory DB_JSON
  imports RR_JSON Slave_Sync Master
begin

text \<open>
  The database in JSON, with the codec that \<open>DB.MarshalJSON\<close> and \<open>DB.UnmarshalJSON\<close> of \<^verbatim>\<open>internal/db/db.go\<close> run through
  \<open>encoding/json\<close>: the struct \<open>dbWire\<close>, its fields and the records in it. This instantiates the encoder and the decoder that the theories
  \<open>Zone_DB\<close>, \<open>Slave_Sync\<close> and \<open>Master\<close> are parameterised with, so that the way of a database from the master to a slave is followed byte by byte.
\<close>

subsection \<open>Writing\<close>

text \<open>The function \<open>nils\<close> says which empty slices of the record at a position are nil.\<close>

definition recordsJSON :: "(nat \<Rightarrow> gostring \<Rightarrow> bool) \<Rightarrow> RR list \<Rightarrow> json list option" where
  "recordsJSON nils rs = those (map (\<lambda>(i, rr). RR_MarshalJSON (nils i) rr) (enumerate 0 rs))"

definition dbWireJSON :: "(nat \<Rightarrow> gostring \<Rightarrow> bool) \<Rightarrow> dbWire \<Rightarrow> json option" where
  "dbWireJSON nils w =
     map_option (\<lambda>vs. JObject [(lit ''zone'', Domain_MarshalJSON (wZone w)), (lit ''records'', if vs = [] then JNull else JArray vs),
       (lit ''dnssecEnabled'', JBool (wDNSSECEnabled w))]) (recordsJSON nils (wRecords w))"

definition encodeDB :: "(nat \<Rightarrow> gostring \<Rightarrow> bool) \<Rightarrow> dbWire \<Rightarrow> bytes option" where
  "encodeDB nils w = map_option jsonText (dbWireJSON nils w)"

subsection \<open>Reading\<close>

text \<open>The variable \<open>w\<close> of \<open>DB.UnmarshalJSON\<close>: a record pointer is \<open>None\<close> when it is nil.\<close>

record dbWireVar =
  vZone :: Domain
  vRecords :: "RR option list"
  vDNSSECEnabled :: bool

definition storeRecords :: "unilower \<Rightarrow> unifold \<Rightarrow> json \<Rightarrow> RR option list option" where
  "storeRecords uni ufold v =
     (case v of
        JNull \<Rightarrow> Some []
      | JArray vs \<Rightarrow> those (map (\<lambda>v. if v = JNull then Some None else map_option Some (RR_UnmarshalJSON uni ufold v)) vs)
      | _ \<Rightarrow> None)"

definition dbFields :: "unilower \<Rightarrow> unifold \<Rightarrow> dbWireVar field list" where
  "dbFields uni ufold =
     [(lit ''zone'', \<lambda>v w. map_option (\<lambda>x. w \<lparr> vZone := x \<rparr>) (Domain_UnmarshalJSON uni v)),
      (lit ''records'', \<lambda>v w. map_option (\<lambda>x. w \<lparr> vRecords := x \<rparr>) (storeRecords uni ufold v)),
      (lit ''dnssecEnabled'', \<lambda>v w. map_option (\<lambda>x. w \<lparr> vDNSSECEnabled := x \<rparr>) (storeBool v (vDNSSECEnabled w)))]"

definition readWire :: "unilower \<Rightarrow> unifold \<Rightarrow> bytes \<Rightarrow> dbWireVar option" where
  "readWire uni ufold data =
     Option.bind (jsonParse data)
       (\<lambda>v. storeStruct ufold (dbFields uni ufold) v \<lparr> vZone = [], vRecords = [], vDNSSECEnabled = False \<rparr>)"

text \<open>\<open>DB.UnmarshalJSON\<close>. The loop of \<open>NewDB\<close> reads the type of every record through its pointer, so a nil pointer panics.\<close>

definition DB_UnmarshalJSON :: "unilower \<Rightarrow> unifold \<Rightarrow> bytes \<Rightarrow> DB option go" where
  "DB_UnmarshalJSON uni ufold data =
     (case readWire uni ufold data of
        None \<Rightarrow> Some None
      | Some w \<Rightarrow>
          if None \<in> set (vRecords w) then None
          else Some (Some ((NewDB (vZone w) (map the (vRecords w))) \<lparr> DNSSECEnabled := vDNSSECEnabled w \<rparr>)))"

text \<open>The decoder as the other theories use it: where \<open>DB.UnmarshalJSON\<close> returns, \<open>decodeDB\<close> gives what it has read.\<close>

definition decodeDB :: "unilower \<Rightarrow> unifold \<Rightarrow> bytes \<Rightarrow> dbWire option" where
  "decodeDB uni ufold data =
     (case readWire uni ufold data of
        None \<Rightarrow> None
      | Some w \<Rightarrow>
          if None \<in> set (vRecords w) then None
          else Some \<lparr> wZone = vZone w, wRecords = map the (vRecords w), wDNSSECEnabled = vDNSSECEnabled w \<rparr>)"

lemma DB_UnmarshalJSON_decode:
  "DB_UnmarshalJSON uni ufold data = None \<or> DB_UnmarshalJSON uni ufold data = Some (UnmarshalJSON (decodeDB uni ufold) data)"
  by (auto simp: DB_UnmarshalJSON_def UnmarshalJSON_def decodeDB_def split: option.splits)

subsection \<open>A database is read back\<close>

lemma those_Some: "those (map f xs) = Some ys \<longleftrightarrow> map f xs = map Some ys"
  by (induction xs arbitrary: ys) (auto split: option.splits simp: map_eq_Cons_conv Cons_eq_map_conv)

lemma RR_MarshalJSON_object: "RR_MarshalJSON nils rr = Some v \<Longrightarrow> coerceJSON v \<noteq> JNull"
  by (auto simp: RR_MarshalJSON_def)

lemma recordsJSON_roundtrip:
  assumes "\<forall>rr \<in> set rs. json_record_ok uni rr"
  shows "\<exists>vs. recordsJSON nils rs = Some vs \<and> storeRecords uni ufold (JArray (map coerceJSON vs)) = Some (map (Some \<circ> normRR) rs)"
proof -
  have "\<exists>vs. those (map (\<lambda>(i, rr). RR_MarshalJSON (nils i) rr) (enumerate n rs)) = Some vs \<and>
      storeRecords uni ufold (JArray (map coerceJSON vs)) = Some (map (Some \<circ> normRR) rs)" for n
    using assms
  proof (induction rs arbitrary: n)
    case (Cons rr rs)
    obtain v where v: "RR_MarshalJSON (nils n) rr = Some v" "RR_UnmarshalJSON uni ufold (coerceJSON v) = Some (normRR rr)"
      using RR_roundtrip [of uni rr "nils n" ufold] Cons.prems by auto
    obtain vs where "those (map (\<lambda>(i, rr). RR_MarshalJSON (nils i) rr) (enumerate (Suc n) rs)) = Some vs"
        "storeRecords uni ufold (JArray (map coerceJSON vs)) = Some (map (Some \<circ> normRR) rs)"
      using Cons.IH [of "Suc n"] Cons.prems by auto
    then show ?case using v RR_MarshalJSON_object [OF v(1)] by (simp add: storeRecords_def)
  qed (simp add: storeRecords_def)
  then show ?thesis by (simp add: recordsJSON_def)
qed

text \<open>The values are nested at most five deep.\<close>

lemma fits_json_mono: "fits_json n v \<Longrightarrow> n \<le> m \<Longrightarrow> fits_json m v"
proof (induction n v arbitrary: m rule: fits_json.induct)
  case (2 n vs)
  then show ?case by (auto simp: diff_le_mono)
next
  case (3 n kvs)
  then show ?case by (auto simp: diff_le_mono)
qed auto

lemma fits_basic [simp]: "fits_json n (jUint w)" "fits_json n (jBytes isNil bs)" "fits_json n (Domain_MarshalJSON d)" "fits_json (Suc n) (jUints isNil ws)"
  by (auto simp: jUint_def jBytes_def jUints_def Domain_MarshalJSON_def)

lemma fits_RRopts: "RRopts_JSON nils opts = Some v \<Longrightarrow> fits_json 2 v"
  by (cases opts) (auto simp: numeral_2_eq_2)

lemma fits_RR: "RR_MarshalJSON nils rr = Some v \<Longrightarrow> fits_json 3 v"
  using fits_RRopts by (fastforce simp: RR_MarshalJSON_def)

lemma fits_records: "recordsJSON nils rs = Some vs \<Longrightarrow> \<forall>v \<in> set vs. fits_json 3 v"
proof -
  assume "recordsJSON nils rs = Some vs"
  then have "map (\<lambda>(i, rr). RR_MarshalJSON (nils i) rr) (enumerate 0 rs) = map Some vs" by (simp add: recordsJSON_def those_Some)
  then have "Some v \<in> (\<lambda>(i, rr). RR_MarshalJSON (nils i) rr) ` set (enumerate 0 rs)" if "v \<in> set vs" for v
    using that by (metis image_eqI set_map)
  then show ?thesis using fits_RR by fastforce
qed

lemma fits_dbWire: "dbWireJSON nils w = Some v \<Longrightarrow> fits_json maxNestingDepth v"
proof -
  assume "dbWireJSON nils w = Some v"
  then have "fits_json 5 v" using fits_records by (auto simp: dbWireJSON_def)
  then show ?thesis by (rule fits_json_mono) (simp add: maxNestingDepth_def)
qed

lemma encodeDB_read:
  assumes "canonical_name uni (wZone w)" "\<forall>rr \<in> set (wRecords w). json_record_ok uni rr"
  shows "\<exists>data. encodeDB nils w = Some data \<and> readWire uni ufold data =
    Some \<lparr> vZone = wZone w, vRecords = map (Some \<circ> normRR) (wRecords w), vDNSSECEnabled = wDNSSECEnabled w \<rparr>"
proof -
  obtain vs where vs: "recordsJSON nils (wRecords w) = Some vs"
      "storeRecords uni ufold (JArray (map coerceJSON vs)) = Some (map (Some \<circ> normRR) (wRecords w))"
    using recordsJSON_roundtrip [OF assms(2)] by blast
  obtain v where v: "dbWireJSON nils w = Some v" using vs(1) by (simp add: dbWireJSON_def)
  have "jsonParse (jsonText v) = Some (coerceJSON v)" by (rule jsonParse_jsonText [OF fits_dbWire [OF v]])
  moreover have "storeRecords uni ufold (coerceJSON (if vs = [] then JNull else JArray vs)) = Some (map (Some \<circ> normRR) (wRecords w))"
    using vs(2) by (auto simp: storeRecords_def)
  ultimately show ?thesis
    using v vs(1) assms(1)
    by (auto simp: encodeDB_def dbWireJSON_def readWire_def storeStruct_def dbFields_def findField_def storeBool_def)
qed

text \<open>Two databases that give the same bytes for every lookup.\<close>

definition same_answers :: "unilower \<Rightarrow> DB \<Rightarrow> DB \<Rightarrow> bool" where
  "same_answers uni db db' \<longleftrightarrow> Zone db' = Zone db \<and> DNSSECEnabled db' = DNSSECEnabled db \<and> RRCount db' = RRCount db \<and>
     (\<forall>n t. map (BinaryWrite uni) (LookupByName db' n t) = map (BinaryWrite uni) (LookupByName db n t)) \<and>
     (\<forall>t. map (BinaryWrite uni) (mapGet (ByType db') t) = map (BinaryWrite uni) (mapGet (ByType db) t))"

lemma AllRecords_ok:
  assumes "db = (NewDB z rs) \<lparr> DNSSECEnabled := b \<rparr>" "\<forall>rr \<in> set rs. json_record_ok uni rr" "\<And>m. mset (ord m) = mset m"
  shows "\<forall>rr \<in> set (AllRecords ord db). json_record_ok uni rr"
proof -
  have "mset (AllRecords ord db) = mset rs" using mset_AllRecords [OF assms(3)] assms(1) by simp
  then show ?thesis using assms(2) mset_eq_setD by metis
qed

text \<open>What the reader of the text gets.\<close>

lemma decoded_db:
  assumes "db = (NewDB z rs) \<lparr> DNSSECEnabled := b \<rparr>" "canonical_name uni z" "\<forall>rr \<in> set rs. json_record_ok uni rr" "\<And>m. mset (ord m) = mset m"
  defines "db' \<equiv> (NewDB z (map normRR (AllRecords ord db))) \<lparr> DNSSECEnabled := b \<rparr>"
  shows "\<exists>data. MarshalJSON (encodeDB nils) ord db = Some data \<and> DB_UnmarshalJSON uni ufold data = Some (Some db') \<and>
    UnmarshalJSON (decodeDB uni ufold) data = Some db'"
proof -
  let ?w = "\<lparr> wZone = z, wRecords = AllRecords ord db, wDNSSECEnabled = b \<rparr>"
  obtain data where data: "encodeDB nils ?w = Some data"
      "readWire uni ufold data = Some \<lparr> vZone = z, vRecords = map (Some \<circ> normRR) (AllRecords ord db), vDNSSECEnabled = b \<rparr>"
    using encodeDB_read [of uni ?w nils ufold] assms(2) AllRecords_ok [OF assms(1,3,4)] by auto
  then show ?thesis using assms(1) by (auto simp: db'_def MarshalJSON_def DB_UnmarshalJSON_def UnmarshalJSON_def decodeDB_def comp_def)
qed

lemma normalised_same_answers:
  assumes "db = (NewDB z rs) \<lparr> DNSSECEnabled := b \<rparr>" "\<forall>rr \<in> set rs. json_record_ok uni rr" "\<And>m. mset (ord m) = mset m"
  shows "same_answers uni db ((NewDB z (map normRR (AllRecords ord db))) \<lparr> DNSSECEnabled := b \<rparr>)"
proof -
  let ?all = "AllRecords ord db"
  have m: "mset ?all = mset rs" using mset_AllRecords [OF assms(3)] assms(1) by simp
  have t: "filter (\<lambda>rr. RRtype rr = t) ?all = filter (\<lambda>rr. RRtype rr = t) rs" for t
    using AllRecords_filter_type [OF assms(3)] assms(1) by simp
  have nt: "filter (\<lambda>rr. Name rr = n \<and> RRtype rr = t) ?all = filter (\<lambda>rr. Name rr = n \<and> RRtype rr = t) rs" for n t
    using arg_cong [OF t, of "filter (\<lambda>rr. Name rr = n)" t] by (simp add: conj_commute)
  have wire: "map (BinaryWrite uni) (filter P (map normRR ?all)) = map (BinaryWrite uni) (filter (P \<circ> normRR) ?all)" for P
    using AllRecords_ok [OF assms] normRR_wire by (auto simp: filter_map json_record_ok_def comp_def)
  have "length ?all = length rs" using m by (metis size_mset)
  then show ?thesis
    using wire t nt assms(1) by (simp add: same_answers_def RRCount_def LookupByName_NewDB by_type.get_NewDB comp_def)
qed

lemma decoded_same_answers:
  assumes "db = (NewDB z rs) \<lparr> DNSSECEnabled := b \<rparr>" "canonical_name uni z" "\<forall>rr \<in> set rs. json_record_ok uni rr" "\<And>m. mset (ord m) = mset m"
  shows "\<exists>data db'. MarshalJSON (encodeDB nils) ord db = Some data \<and> DB_UnmarshalJSON uni ufold data = Some (Some db') \<and>
    UnmarshalJSON (decodeDB uni ufold) data = Some db' \<and> same_answers uni db db'"
  using decoded_db [OF assms] normalised_same_answers [OF assms(1,3,4)] by blast

subsection \<open>What is read can be served\<close>

lemma readWire_read:
  assumes "readWire uni ufold data = Some w"
  shows "wf_name (vZone w) \<and> (\<forall>rr. Some rr \<in> set (vRecords w) \<longrightarrow>
    wf_name (Name rr) \<and> RRtype rr = RRtype_of (Opts rr) \<and> list_all wf_name (names_in (Opts rr)))"
proof -
  let ?P = "\<lambda>w. wf_name (vZone w) \<and> (\<forall>rr. Some rr \<in> set (vRecords w) \<longrightarrow>
    wf_name (Name rr) \<and> RRtype rr = RRtype_of (Opts rr) \<and> list_all wf_name (names_in (Opts rr)))"
  have rec: "\<exists>v. RR_UnmarshalJSON uni ufold v = Some rr" if r: "storeRecords uni ufold v = Some rs" "Some rr \<in> set rs" for v rs rr
  proof -
    obtain vs where "v = JNull \<or> v = JArray vs" using r(1) by (auto simp: storeRecords_def split: json.splits)
    then have eq: "map (\<lambda>v. if v = JNull then Some None else map_option Some (RR_UnmarshalJSON uni ufold v)) vs = map Some rs"
      using r by (auto simp: storeRecords_def those_Some)
    have "Some (Some rr) \<in> set (map (\<lambda>v. if v = JNull then Some None else map_option Some (RR_UnmarshalJSON uni ufold v)) vs)"
      unfolding eq using r(2) by simp
    then show ?thesis by (auto simp: eq_commute [of "Some (Some rr)"] split: if_splits)
  qed
  then have good: "\<forall>rr. Some rr \<in> set rs \<longrightarrow> wf_name (Name rr) \<and> RRtype rr = RRtype_of (Opts rr) \<and> list_all wf_name (names_in (Opts rr))"
    if "storeRecords uni ufold v = Some rs" for v rs
    using that RR_UnmarshalJSON_read by blast
  obtain v where "storeStruct ufold (dbFields uni ufold) v \<lparr> vZone = [], vRecords = [], vDNSSECEnabled = False \<rparr> = Some w"
    using assms by (auto simp: readWire_def split: bind_splits)
  then show ?thesis
    by (rule storeStruct_invariant [where P = ?P])
      (auto simp: dbFields_def wf_name_def [of "[]"] dest!: Domain_UnmarshalJSON_valid good)
qed

lemma decodeDB_served:
  assumes "keeps_dot uni" shows "decodes_served uni (decodeDB uni ufold)"
  unfolding decodes_served_def
proof (intro allI impI)
  fix data w
  assume "decodeDB uni ufold data = Some w"
  then obtain v where v: "readWire uni ufold data = Some v" "None \<notin> set (vRecords v)" "wZone w = vZone v" "wRecords w = map the (vRecords v)"
    by (auto simp: decodeDB_def split: option.splits if_splits)
  have rr: "Some rr \<in> set (vRecords v)" if "rr \<in> set (wRecords w)" for rr using that v(2,4) by (auto simp: image_iff) (metis option.collapse)
  have "wf_name t" if "rr \<in> set (wRecords w)" "additionalTarget (Opts rr) = Some t" for rr t
    using readWire_read [OF v(1)] rr [OF that(1)] that(2)
    by (cases "Opts rr") (auto simp: additionalTarget_def names_in_def)
  then show "served_zone uni (wZone w) (wRecords w)"
    using readWire_read [OF v(1)] rr v(3) assms RRtypeToWire_of
    by (auto simp: served_zone_def names_ok_def list_all_iff known_type_def)
qed

subsection \<open>Properties\<close>

text \<open>C9: A database survives its JSON text byte for byte. For every database whose names are in normal form, whose texts are
  UTF-8 and whose addresses have a legal length, \<open>json.Marshal\<close> succeeds, and \<open>json.Unmarshal\<close> of the text, in whatever order the map
  iteration wrote the records and whichever empty slices were nil, gives a database with the same zone, DNSSEC flag and
  number of records that returns for every lookup records with the same wire form in the same order.\<close>

theorem database_survives_JSON:
  assumes "db = (NewDB z rs) \<lparr> DNSSECEnabled := b \<rparr>" "canonical_name uni z" "\<forall>rr \<in> set rs. json_record_ok uni rr" "\<And>m. mset (ord m) = mset m"
  shows "\<exists>data db'. MarshalJSON (encodeDB nils) ord db = Some data \<and> DB_UnmarshalJSON uni ufold data = Some (Some db') \<and> same_answers uni db db'"
  using decoded_same_answers [OF assms] by metis

text \<open>A push of the text that \<open>json.Marshal\<close> wrote.\<close>

lemma pushed:
  assumes "db = (NewDB z rs) \<lparr> DNSSECEnabled := b \<rparr>" "canonical_name uni z" "\<forall>rr \<in> set rs. json_record_ok uni rr" "\<And>m. mset (ord m) = mset m"
    and "(url, data) \<in> set (pushToSlaves (encodeDB nils) ord lookupHost ms db)" "int (length data) \<le> maxDBBodyBytes s"
  defines "db' \<equiv> (NewDB z (map normRR (AllRecords ord db))) \<lparr> DNSSECEnabled := b \<rparr>"
  shows "\<exists>s' fss. handleDBPush (encodeDB nils') (decodeDB uni ufold) ord' io s fs (lit ''POST'') (Some data) = (204, s', fss) \<and>
    currDB s' = Some db' \<and> Ready s' \<and>
    nsec3Chain s' = (if b then case RebuildNSEC3Chain db' of Inl err \<Rightarrow> None | Inr c \<Rightarrow> Some c else None)"
proof -
  obtain data' where d: "MarshalJSON (encodeDB nils) ord db = Some data'" "UnmarshalJSON (decodeDB uni ufold) data' = Some db'"
    using decoded_db [OF assms(1-4)] unfolding db'_def by metis
  have "data = data'" using assms(5) d(1) by (auto simp: pushToSlaves_def split: option.splits)
  obtain s1 fss where s: "swapDB (encodeDB nils') ord' io s fs db' = (s1, fss)" by (cases "swapDB (encodeDB nils') ord' io s fs db'") auto
  then have "currDB s1 = Some db'" "ready s1"
      "nsec3Chain s1 = (if b then case RebuildNSEC3Chain db' of Inl err \<Rightarrow> None | Inr c \<Rightarrow> Some c else None)"
    by (auto simp: swapDB_def Let_def db'_def split: if_splits)
  then show ?thesis using s d \<open>data = data'\<close> assms(6) by (auto simp: handleDBPush_def Ready_def)
qed

text \<open>A push brings the master's database to a slave. Every request that \<open>pushToSlaves\<close> makes carries a text that the
  slave's handler accepts, as long as it is within the size limit: the status is 204, and from then on the slave's database gives the same
  bytes for every lookup as the master's.\<close>

theorem push_delivers_database:
  assumes "db = (NewDB z rs) \<lparr> DNSSECEnabled := b \<rparr>" "canonical_name uni z" "\<forall>rr \<in> set rs. json_record_ok uni rr" "\<And>m. mset (ord m) = mset m"
    and "(url, data) \<in> set (pushToSlaves (encodeDB nils) ord lookupHost ms db)" "int (length data) \<le> maxDBBodyBytes s"
  shows "\<exists>db' s' fss. handleDBPush (encodeDB nils') (decodeDB uni ufold) ord' io s fs (lit ''POST'') (Some data) = (204, s', fss) \<and>
    currDB s' = Some db' \<and> Ready s' \<and> same_answers uni db db'"
  using pushed [OF assms] normalised_same_answers [OF assms(1,3,4)] by metis

text \<open>Whatever texts a slave reads, it keeps serving. With the decoder of the program in place, over every run of starts,
  pushes and polls with any bytes in which no decoding panics (\<open>DB_UnmarshalJSON_decode\<close>), a slave that has started is ready and
  handles every DNS message without a panic: what decodes has names that end in a dot or are empty and types that are known.\<close>

theorem slave_serves_any_JSON:
  assumes "keeps_dot uni" "slave_reachable (encodeDB nils) (decodeDB uni ufold) cfg s fs"
  shows "Ready s \<and> (\<exists>r. handleDNS uni uup sha1 s msg = Some r)"
proof -
  have "synced uni s" "ready s" using reachable_synced [OF assms(2) decodeDB_served [OF assms(1)]] by simp_all
  then show ?thesis using handleDNS_ok [of uni s msg uup sha1] by (auto simp: synced_def Ready_def)
qed

text \<open>A record that is \<open>null\<close> is a nil pointer, which \<open>NewDB\<close> dereferences.\<close>

definition null_record :: bytes where
  "null_record = [123, 34] @ lit ''records'' @ [34, 58, 91] @ lit ''null'' @ [93, 125]"

theorem null_record_panics: "DB_UnmarshalJSON uni ufold null_record = None"
proof -
  have "jsonParse null_record = Some (JObject [(lit ''records'', JArray [JNull])])" by code_simp
  then show ?thesis by (simp add: DB_UnmarshalJSON_def readWire_def storeStruct_def dbFields_def findField_def storeRecords_def)
qed

text \<open>Text that is not UTF-8 does not survive: a TXT record with the byte 255 comes back with the replacement character.\<close>

theorem binary_text_changed:
  "\<exists>v. RR_MarshalJSON nils (NewRR (lit ''a.'') (RRoptsTXT [255])) = Some v \<and>
     RR_UnmarshalJSON (\<lambda>s. s) ufold (coerceJSON v) = Some (NewRR (lit ''a.'') (RRoptsTXT [0xEF, 0xBF, 0xBD]))"
proof -
  have "coerceUTF8 [255] = [0xEF, 0xBF, 0xBD]" "canonical_name (\<lambda>s. s) (lit ''a.'')" "is_ascii TypeTXT" by code_simp+
  then show ?thesis
    by (simp add: NewRR_def RR_MarshalJSON_def RR_UnmarshalJSON_def rrFields_def store_defs storeString_def rroptsUnmarshalJSON_def)
qed

subsection \<open>Examples\<close>

theorem database_survives_JSON_witness:
  "\<exists>data db'. MarshalJSON (encodeDB (\<lambda>_ _. True)) rev ((NewDB (lit ''example.'') sample_records) \<lparr> DNSSECEnabled := True \<rparr>) = Some data \<and>
     DB_UnmarshalJSON (\<lambda>s. s) (\<lambda>_ _. False) data = Some (Some db') \<and>
     same_answers (\<lambda>s. s) ((NewDB (lit ''example.'') sample_records) \<lparr> DNSSECEnabled := True \<rparr>) db'"
proof -
  have "canonical_name (\<lambda>s. s) (lit ''example.'')" "list_all (json_record_ok (\<lambda>s. s)) sample_records" by code_simp+
  then show ?thesis
    using database_survives_JSON [OF refl, of "\<lambda>s. s" "lit ''example.''" sample_records rev "\<lambda>_ _. True" True "\<lambda>_ _. False"]
    by (auto simp: list_all_iff)
qed

definition tiny_zone :: "RR list" where
  "tiny_zone = [NewRR (lit ''example.'') (RRoptsTXT (lit ''hello''))]"

definition tiny_text :: bytes where
  "tiny_text = the (MarshalJSON (encodeDB (\<lambda>_ _. True)) (\<lambda>m. m) ((NewDB (lit ''example.'') tiny_zone) \<lparr> DNSSECEnabled := False \<rparr>))"

lemma tiny_text: "MarshalJSON (encodeDB (\<lambda>_ _. True)) (\<lambda>m. m) ((NewDB (lit ''example.'') tiny_zone) \<lparr> DNSSECEnabled := False \<rparr>) = Some tiny_text"
    "length tiny_text < 1000"
  by code_simp+

lemma tiny_zone_ok: "canonical_name (\<lambda>s. s) (lit ''example.'')" "\<forall>rr \<in> set tiny_zone. json_record_ok (\<lambda>s. s) rr"
proof -
  have "canonical_name (\<lambda>s. s) (lit ''example.'')" "list_all (json_record_ok (\<lambda>s. s)) tiny_zone" by code_simp+
  then show "canonical_name (\<lambda>s. s) (lit ''example.'')" "\<forall>rr \<in> set tiny_zone. json_record_ok (\<lambda>s. s) rr" by (simp_all add: list_all_iff)
qed

lemma tiny_limit: "int (length tiny_text) \<le> maxDBBodyBytes (NewSlave zeroConfig)"
  using tiny_text(2) by (simp add: maxDBBodyBytes_def NewSlave_def zeroConfig_def Let_def)

theorem push_delivers_database_witness:
  "\<exists>db' s' fss. handleDBPush (encodeDB (\<lambda>_ _. True)) (decodeDB (\<lambda>s. s) (\<lambda>_ _. False)) (\<lambda>m. m) \<lparr> writeFault = None, renameOk = True \<rparr>
       (NewSlave zeroConfig) Map.empty (lit ''POST'') (Some tiny_text) = (204, s', fss) \<and>
     currDB s' = Some db' \<and> Ready s' \<and> same_answers (\<lambda>s. s) ((NewDB (lit ''example.'') tiny_zone) \<lparr> DNSSECEnabled := False \<rparr>) db'"
proof -
  have "(lit ''http://10.0.0.1:8080/db'', tiny_text) \<in> set (pushToSlaves (encodeDB (\<lambda>_ _. True)) (\<lambda>m. m) (\<lambda>_. Some [lit ''10.0.0.1''])
      (NewMaster zeroConfig (lit ''dns'')) ((NewDB (lit ''example.'') tiny_zone) \<lparr> DNSSECEnabled := False \<rparr>))"
    unfolding pushToSlaves_def tiny_text(1) option.case by (simp add: lit_def)
  from push_delivers_database [OF refl tiny_zone_ok _ this tiny_limit] show ?thesis by simp
qed

theorem slave_serves_any_JSON_witness:
  "\<exists>s fs. slave_reachable (encodeDB (\<lambda>_ _. True)) (decodeDB (\<lambda>s. s) (\<lambda>_ _. False)) zeroConfig s fs \<and> Ready s
     \<and> (\<exists>r. handleDNS (\<lambda>s. s) (\<lambda>s. s) toy_hash s sample_query = Some r)"
proof -
  let ?enc = "encodeDB (\<lambda>_ _. True)" and ?dec = "decodeDB (\<lambda>s. s) (\<lambda>_ _. False)"
  let ?at = "\<lambda>i. if i = 0 then HttpError else HttpStatus 200 (Some tiny_text)"
  have l: "pollLoop ?at 0 None = Inr (Some tiny_text)" unfolding pollLoop_Inr
    by (rule exI [of _ 1]) (simp add: maxAttempts_def firstOK_def)
  obtain db' where d: "UnmarshalJSON ?dec tiny_text = Some db'"
    using decoded_same_answers [OF refl tiny_zone_ok, of "\<lambda>m. m" "\<lambda>_ _. True" False "\<lambda>_ _. False"] tiny_text(1) by auto
  have p: "SnapshotLocation (cfgSlave zeroConfig) = []" by (simp add: zeroConfig_def)
  have "\<exists>s fss. startUp ?enc ?dec (\<lambda>m. m) \<lparr> writeFault = None, renameOk = True \<rparr> True ?at (NewSlave zeroConfig) Map.empty = Inr (s, fss)"
    using l d p tiny_limit tiny_text(2) by (simp add: startUp_def warmUp_def Let_def poll_def NewSlave_def split: prod.splits)
  then obtain s fss where r: "slave_reachable ?enc ?dec zeroConfig s (last fss)" using slave_reachable.start by blast
  from r slave_serves_any_JSON [OF keeps_dot_id r, of "\<lambda>s. s" toy_hash sample_query] show ?thesis by blast
qed

end
