(* ===== verification/Publish.thy ===== *)
theory Publish
  imports DB_JSON
begin

text \<open>
  From the resources to the slave: the composition of \<open>rebuild\<close> and \<open>signDB\<close> (\<^verbatim>\<open>internal/master/db.go\<close>), \<open>pushToSlaves\<close>
  (\<^verbatim>\<open>internal/master/master.go\<close>), the JSON methods of the database and its records (\<^verbatim>\<open>internal/db/db.go\<close>, \<^verbatim>\<open>internal/rec\<close>) and
  \<open>handleDBPush\<close> and \<open>swapDB\<close> (\<^verbatim>\<open>internal/slave/sync.go\<close>). The records that signing adds have names and data that the JSON form carries,
  so whatever the master installs arrives at a slave unchanged.
\<close>

subsection \<open>The owner names of the chain\<close>

text \<open>The owner of an NSEC3 record has a label of 32 characters in front of the zone.\<close>

definition chain_zone :: "unilower \<Rightarrow> Domain \<Rightarrow> bool" where
  "chain_zone uni z \<longleftrightarrow> canonical_name uni z \<and> is_ascii z \<and> z \<noteq> [dot] \<and> length z \<le> 222"

lemma canonical_ascii: "is_ascii z \<Longrightarrow> canonical_name uni z \<Longrightarrow> map lower_byte z = z \<and> valid_domain z"
  by (auto simp: canonical_name_def NewDomain_Inr_iff ToLower_ascii valid_domain_def split: if_splits)

lemma hashed_name_valid:
  assumes "valid_domain z" "dot \<notin> set l" "length l = 32"
  shows "valid_domain (l @ dot # z) \<longleftrightarrow> z \<noteq> [dot] \<and> length z \<le> 222"
proof -
  have "domainLabels (l @ dot # z) = l # domainLabels z"
    using assms(2) by (simp add: domainLabels_def Split_append Split_no_sep)
  then show ?thesis
    using assms by (auto simp: valid_domain_def fitting_labels_def)
qed

lemma NSEC3_owner:
  assumes "is_ascii z" "canonical_name uni z" "length h = 20" "owner = Name (NSEC3_AsRR uni uup n h z ttl)"
  shows "NewDomain uni owner = Inr d \<longleftrightarrow> d = owner \<and> z \<noteq> [dot] \<and> length z \<le> 222" "is_ascii owner"
proof -
  let ?l = "map lower_byte (EncodeToString h)"
  have z: "map lower_byte z = z" "valid_domain z" using canonical_ascii [OF assms(1,2)] by simp_all
  have o: "owner = ?l @ dot # z" using NSEC3_AsRR_name [OF assms(1)] z(1) by (simp add: assms(4))
  show a: "is_ascii owner" unfolding o using assms(1) encoded_ascii [of h] dot_ascii by simp
  have "ToLower uni owner = owner" unfolding ToLower_ascii [OF a] using z(1) by (simp add: o comp_def)
  moreover have "last owner = dot" using z(2) by (auto simp: o valid_domain_def)
  moreover have "length ?l = 32" using encoded_length [of h] assms(3) by simp
  note hashed_name_valid [OF z(2) encoded_no_dot this]
  ultimately show "NewDomain uni owner = Inr d \<longleftrightarrow> d = owner \<and> z \<noteq> [dot] \<and> length z \<le> 222"
    by (auto simp: NewDomain_Inr_iff o)
qed

lemma NSEC3_owner_canonical:
  assumes "chain_zone uni z" "length h = 20" shows "canonical_name uni (Name (NSEC3_AsRR uni uup n h z ttl))"
  using NSEC3_owner [OF _ _ assms(2) refl, of z uni] assms(1) by (simp add: chain_zone_def canonical_name_def ascii_utf8)

lemma chain_record:
  assumes "BuildNSEC3Chain uni uup sha1 ord d p = Inr (c, param)" "rr \<in> set (Records c)"
  shows "\<exists>name n. rr = NSEC3_AsRR uni uup n (HashName sha1 name (pIterations p) (pSalt p)) (Zone d) (nsec3TTL d)"
proof -
  let ?hs = "sortedHashes sha1 ord d p"
  obtain i where i: "i < length ?hs" "rr = NSEC3_AsRR uni uup (nsec3At d p ?hs i) (snd (?hs ! i)) (Zone d) (nsec3TTL d)"
    using assms(2) unfolding BuildNSEC3Chain_Inr(4) [OF assms(1)] by auto
  have "?hs ! i \<in> set ?hs" using i(1) by simp
  then obtain name where "snd (?hs ! i) = HashName sha1 name (pIterations p) (pSalt p)" by (auto simp: sortedHashes_def Let_def hashcmp.SortFunc_set)
  with i(2) show ?thesis by auto
qed

subsection \<open>Signing adds records that JSON carries\<close>

lemma signRecords_member:
  assumes "signRecords uni sa opts zsks rrs = Inr sigs" "sig \<in> set sigs"
  shows "\<exists>rr \<in> set rrs. \<exists>zsk \<in> set zsks. \<exists>r. SignRRset uni sa [rr] zsk opts = Inr r \<and> sig = RRSIG_AsRR r (Name rr) (TTL rr)"
  using assms
proof (induction rrs arbitrary: sigs)
  case (Cons rr rrs)
  then obtain s rest where s: "signEach uni sa opts (Name rr, RRtype rr) [rr] zsks = Inr s" "signRecords uni sa opts zsks rrs = Inr rest"
    "sigs = s @ rest" by (auto simp: bindE_Inr)
  show ?case
  proof (cases "sig \<in> set s")
    case True
    from list_all2_right [OF signEach_Inr [OF s(1)] this] show ?thesis by fastforce
  next
    case False
    then show ?thesis using Cons.IH [OF s(2)] Cons.prems(2) s(3) by auto
  qed
qed simp

lemma signature_ok:
  assumes "SignRRset uni sa rrset key opts = Inr r" "is_ascii (kOwner (skDNSKEY key))" "canonical_name uni n"
  shows "json_record_ok uni (RRSIG_AsRR r n ttl)"
  using assms(1)
proof (rule SignRRset_Inr)
  assume "sigSignerName r = ToLower uni (kOwner (skDNSKEY key))"
  then show ?thesis using assms(2,3) by (simp add: json_record_ok_def RRSIG_AsRR_def ascii_utf8 ToLower_ascii)
qed

lemma signatures_ok:
  assumes "signRecords uni sa opts zsks rrs = Inr sigs" "\<forall>rr \<in> set rrs. canonical_name uni (Name rr)"
    and "\<forall>k \<in> set zsks. is_ascii (kOwner (skDNSKEY k))"
  shows "\<forall>sig \<in> set sigs. json_record_ok uni sig"
  using signRecords_member [OF assms(1)] signature_ok assms(2,3) by metis

lemma signed_records_ok:
  assumes "signWith env inp (NewDB z rs) keys window = Inr d" "orders_ok inp" "chain_zone (mvUni env) z"
    and "\<forall>rr \<in> set rs. json_record_ok (mvUni env) rr" "\<forall>k \<in> set keys. kOwner (skDNSKEY k) = z" "\<And>x. length (mvSha1 env x) = 20"
  shows "\<exists>rs'. d = (NewDB z rs') \<lparr> DNSSECEnabled := True \<rparr> \<and> (\<forall>rr \<in> set rs'. json_record_ok (mvUni env) rr)"
proof -
  let ?uni = "mvUni env" and ?records = "AllRecords (inOrdAll inp) (NewDB z rs) @ map (dnskeyRR z) keys"
  have zone: "is_ascii z" "canonical_name ?uni z" using assms(3) by (simp_all add: chain_zone_def)
  have owner: "is_ascii (kOwner (skDNSKEY k))" if "k \<in> set keys" for k using assms(5) zone(1) that by simp
  have o: "\<And>m. mset (inOrdAll inp m) = mset m" "\<And>m. mset (inOrdSign inp m) = mset m" using assms(2) by (simp_all add: orders_ok_def)
  have "set (AllRecords (inOrdAll inp) (NewDB z rs)) = set rs"
    using mset_eq_setD [OF mset_AllRecords [OF o(1), where z = z and rs = rs and b = False]] by simp
  then have recs: "\<forall>rr \<in> set ?records. json_record_ok ?uni rr"
    using assms(4) zone(2) by (auto simp: dnskeyRR_def json_record_ok_def names_in_def)
  show ?thesis
    using assms(1)
  proof (rule signWith_Inr, unfold NewDB_sel)
    fix rrsigs chain param sigs psigs
    let ?opts = "\<lambda>now. DefaultRRSIGOpts (mvRnd env) (word_of_int now) window"
    assume S: "SignDB ?uni (mvScheme env) (inOrdSign inp) (NewDB z ?records) keys (?opts (inSignNow inp)) = Inr rrsigs"
      and B: "BuildNSEC3Chain ?uni (mvUup env) (mvSha1 env) (inOrdNames inp) (NewDB z (?records @ rrsigs)) DefaultNSEC3PARAMRecord = Inr (chain, param)"
      and C: "signRecords ?uni (mvScheme env) (?opts (inChainNow inp)) (chainKeys keys) (Records chain) = Inr sigs"
      and P: "signRecords ?uni (mvScheme env) (?opts (inChainNow inp)) (chainKeys keys) [param] = Inr psigs"
      and d: "d = (NewDB z (?records @ rrsigs @ Records chain @ [param] @ sigs @ psigs)) \<lparr> DNSSECEnabled := True \<rparr>"
    have sub: "set (chainKeys keys) \<subseteq> set keys" "set (signersOf keys t) \<subseteq> set keys" for t
      by (auto simp: chainKeys_def signersOf_def keyRoles_def Let_def)
    have rrsigs: "json_record_ok ?uni sig" if sig: "sig \<in> set rrsigs" for sig
    proof -
      obtain k rrset signer r where k: "signer \<in> set (signersOf keys (snd k))" "SignRRset ?uni (mvScheme env) rrset signer (?opts (inSignNow inp)) = Inr r"
          "sig = RRSIG_AsRR r (fst k) (TTL (hd rrset))" using sig SignDB_Inr(1) [OF S] by blast
      have "fst k \<in> Name ` set ?records" using SignDB_names(1) [OF S o(2) sig] k(3) by simp
      then obtain rr where "rr \<in> set ?records" "fst k = Name rr" by (rule imageE)
      then have "canonical_name ?uni (fst k)" using recs by (simp only: json_record_ok_def)
      from signature_ok [OF k(2) _ this] show ?thesis using k(1,3) sub(2) owner by blast
    qed
    have chain: "json_record_ok ?uni rr" if m: "rr \<in> set (Records chain)" for rr
    proof -
      obtain name n where rr: "rr = NSEC3_AsRR ?uni (mvUup env) n (mvSha1 env (Write name)) z (nsec3TTL (NewDB z (?records @ rrsigs)))"
        using chain_record [OF B m] by (auto simp: HashName_def DefaultNSEC3PARAMRecord_def)
      have "length (mvSha1 env (Write name)) = 20" by (rule assms(6))
      from NSEC3_owner_canonical [OF assms(3) this] show ?thesis
        unfolding rr by (simp add: json_record_ok_def NSEC3_AsRR_def Let_def names_in_def)
    qed
    have param: "json_record_ok ?uni param"
      using zone(2) unfolding BuildNSEC3Chain_Inr(3) [OF B] by (simp add: json_record_ok_def PARAM_AsRR_def names_in_def)
    have zsks: "\<forall>k \<in> set (chainKeys keys). is_ascii (kOwner (skDNSKEY k))" using sub(1) owner by blast
    have names: "\<forall>rr \<in> set (Records chain). canonical_name ?uni (Name rr)" "\<forall>rr \<in> set [param]. canonical_name ?uni (Name rr)"
      using chain param by (simp_all add: json_record_ok_def)
    note signatures_ok [OF C names(1) zsks] signatures_ok [OF P names(2) zsks]
    with recs rrsigs chain param have "\<forall>rr \<in> set (?records @ rrsigs @ Records chain @ [param] @ sigs @ psigs). json_record_ok ?uni rr"
      by (simp add: ball_Un)
    with d show ?thesis by blast
  qed
qed

lemma published_records_ok:
  assumes "\<forall>rr \<in> set objs. json_record_ok uni rr" shows "\<forall>rr \<in> set (published now objs). json_record_ok uni rr"
proof -
  have "json_record_ok uni (stampRR s (rr \<lparr> TTL := t \<rparr>))" if "json_record_ok uni rr" for rr s t
    using that by (cases "Opts rr") (auto simp: json_record_ok_def stampRR_def setSerial_def names_in_def)
  then show ?thesis using assms by (auto simp: published_def)
qed

lemma rebuilt:
  assumes "rebuild env ms inp = Some (Inr d, ms')" "inList inp = Objects objs"
  obtains ms0 where "(if 0 < length (Keys (cfgDNSSEC (mCfg ms))) then signDB env ms0 inp (NewDB (masterZone ms) (published (inSerialNow inp) objs))
      else Some (Inr (NewDB (masterZone ms) (published (inSerialNow inp) objs)))) = Some (Inr d)"
    "mCfg ms0 = mCfg ms" "mCfg ms' = mCfg ms"
proof -
  let ?ms = "ms \<lparr> mRebuilds := mRebuilds ms + 1 \<rparr>"
  let ?signed = "if 0 < length (Keys (cfgDNSSEC (mCfg ms))) then signDB env ?ms inp (NewDB (masterZone ms) (published (inSerialNow inp) objs))
      else Some (Inr (NewDB (masterZone ms) (published (inSerialNow inp) objs)))"
  have "?signed = Some (Inr d) \<and> mCfg ms' = mCfg ms"
    using assms by (cases ?signed) (auto simp: rebuild_def failRebuild_def newDB_published Let_def split: if_splits option.splits sum.splits bind_splits)
  then show thesis using that [of ?ms] by simp
qed

lemma rebuilt_serves:
  assumes "rebuild env ms inp = Some (Inr d, ms')" "inList inp = Objects objs" "orders_ok inp"
  shows "serves_records d (published (inSerialNow inp) objs) \<and> DNSSECEnabled d = (Keys (cfgDNSSEC (mCfg ms)) \<noteq> [])"
  by (rule rebuilt [OF assms(1,2)]) (use built_serves [OF _ assms(3)] in blast)

lemma rebuilt_records_ok:
  assumes "rebuild env ms inp = Some (Inr d, ms')" "inList inp = Objects objs" "orders_ok inp"
    and "chain_zone (mvUni env) (masterZone ms)" "\<forall>rr \<in> set objs. json_record_ok (mvUni env) rr"
    and "curve_laws (key_algebra.truncate (mvScheme env))" "\<And>x. length (mvSha1 env x) = 20"
  shows "\<exists>rs b. d = (NewDB (masterZone ms) rs) \<lparr> DNSSECEnabled := b \<rparr> \<and> (\<forall>rr \<in> set rs. json_record_ok (mvUni env) rr)"
  using assms(1,2)
proof (rule rebuilt)
  let ?z = "masterZone ms" and ?pub = "published (inSerialNow inp) objs"
  fix ms0
  assume s: "(if 0 < length (Keys (cfgDNSSEC (mCfg ms))) then signDB env ms0 inp (NewDB ?z ?pub) else Some (Inr (NewDB ?z ?pub))) = Some (Inr d)"
    and cfg: "mCfg ms0 = mCfg ms"
  note ok = published_records_ok [OF assms(5), of "inSerialNow inp"]
  show ?thesis
  proof (cases "Keys (cfgDNSSEC (mCfg ms)) = []")
    case True
    then have "d = (NewDB ?z ?pub) \<lparr> DNSSECEnabled := False \<rparr>" using s unfolding NewDB_unsigned by simp
    with ok show ?thesis by blast
  next
    case False
    then have "signDB env ms0 inp (NewDB ?z ?pub) = Some (Inr d)" using s by simp
    then obtain secrets keys window where k: "LoadKeys (mvText env) (key_algebra.truncate (mvScheme env)) secrets ?z = Some (Inr keys)"
        "signWith env inp (NewDB ?z ?pub) keys window = Inr d" using cfg by (auto elim: signDB_Inr)
    have "\<forall>k \<in> set keys. kOwner (skDNSKEY k) = ?z" using LoadKeys_Inr [OF assms(6) k(1)] by (auto simp: signing_key_ok_def list_all_iff)
    from signed_records_ok [OF k(2) assms(3,4) ok this assms(7)] show ?thesis by blast
  qed
qed

subsection \<open>Properties\<close>

text \<open>The inputs of a rebuild whose result JSON carries: the listed records are of a form that JSON carries, the zone leaves room for the
  label of a hash, the iteration orders are permutations, hashes have 20 bytes, and the curves keep their sizes.\<close>

definition publishable :: "master_env \<Rightarrow> Master \<Rightarrow> rebuild_input \<Rightarrow> RR list \<Rightarrow> bool" where
  "publishable env ms inp objs \<longleftrightarrow> inList inp = Objects objs \<and> orders_ok inp \<and> chain_zone (mvUni env) (masterZone ms) \<and>
     (\<forall>rr \<in> set objs. json_record_ok (mvUni env) rr) \<and> curve_laws (key_algebra.truncate (mvScheme env)) \<and> (\<forall>x. length (mvSha1 env x) = 20)"

text \<open>C8: From the resources to the slave. If a rebuild installs a database, signed or not, then every request of \<open>pushToSlaves\<close> for it that is within the
  size limit is answered 204 by a slave, whatever the slave had before, and from then on the slave's lookups return, for every name and
  every type that signing does not add, exactly the wire form of the listed resources (with the default TTL and the new serial), in their order;
  for all types they return what the master's database returns.\<close>

theorem rebuilt_zone_reaches_slave:
  assumes "rebuild env ms inp = Some (Inr d, ms')" "publishable env ms inp objs" "\<And>m. mset (ord m) = mset m"
    and "(url, data) \<in> set (pushToSlaves (encodeDB nils) ord lookupHost ms' d)" "int (length data) \<le> maxDBBodyBytes s"
  shows "\<exists>s' fss d'. handleDBPush (encodeDB nils') (decodeDB (mvUni env) ufold) ord' io s fs (lit ''POST'') (Some data) = (204, s', fss) \<and>
    Ready s' \<and> currDB s' = Some d' \<and> same_answers (mvUni env) d d' \<and>
    (\<forall>n t. dnssecType t \<or> t = TypeDNSKEY \<or> map (BinaryWrite (mvUni env)) (LookupByName d' n t) =
       map (BinaryWrite (mvUni env)) (filter (\<lambda>rr. Name rr = n \<and> RRtype rr = t) (published (inSerialNow inp) objs)))"
proof -
  have p: "inList inp = Objects objs" "orders_ok inp" "chain_zone (mvUni env) (masterZone ms)" "\<forall>rr \<in> set objs. json_record_ok (mvUni env) rr"
      "curve_laws (key_algebra.truncate (mvScheme env))" "\<And>x. length (mvSha1 env x) = 20"
    using assms(2) by (simp_all add: publishable_def)
  obtain rs b where d: "d = (NewDB (masterZone ms) rs) \<lparr> DNSSECEnabled := b \<rparr>" "\<forall>rr \<in> set rs. json_record_ok (mvUni env) rr"
    using rebuilt_records_ok [OF assms(1) p] by blast
  have z: "canonical_name (mvUni env) (masterZone ms)" using p(3) by (simp add: chain_zone_def)
  have serves: "serves_records d (published (inSerialNow inp) objs)" using rebuilt_serves [OF assms(1) p(1,2)] by simp
  let ?d' = "(NewDB (masterZone ms) (map normRR (AllRecords ord d))) \<lparr> DNSSECEnabled := b \<rparr>"
  have same: "same_answers (mvUni env) d ?d'" by (rule normalised_same_answers [OF d assms(3)])
  have "dnssecType t \<or> t = TypeDNSKEY \<or> map (BinaryWrite (mvUni env)) (LookupByName ?d' n t) =
      map (BinaryWrite (mvUni env)) (filter (\<lambda>rr. Name rr = n \<and> RRtype rr = t) (published (inSerialNow inp) objs))" for n t
  proof -
    have "map (BinaryWrite (mvUni env)) (LookupByName ?d' n t) = map (BinaryWrite (mvUni env)) (LookupByName d n t)"
      using same unfolding same_answers_def by blast
    then show ?thesis using serves unfolding serves_records_def by (cases "dnssecType t \<or> t = TypeDNSKEY") auto
  qed
  with same pushed [OF d(1) z d(2) assms(3-5)] show ?thesis by blast
qed

text \<open>A reader changes addresses only, so it rebuilds the chain from the records that the master wrote.\<close>

lemma normRR_other: "RRtype rr = RRtype_of (Opts rr) \<Longrightarrow> RRtype rr \<noteq> TypeA \<Longrightarrow> RRtype rr \<noteq> TypeAAAA \<Longrightarrow> normRR rr = rr"
  by (cases "Opts rr") (auto simp: normRR_def)

lemma Rebuild_normalised:
  assumes "\<forall>rr \<in> set rs. json_record_ok uni rr"
  shows "RebuildNSEC3Chain ((NewDB z (map normRR rs)) \<lparr> DNSSECEnabled := b \<rparr>) = RebuildNSEC3Chain (NewDB z rs)"
proof -
  have "mapGet (ByType (NewDB z (map normRR rs))) t = mapGet (ByType (NewDB z rs)) t" if t: "t \<noteq> TypeA" "t \<noteq> TypeAAAA" for t
  proof -
    have "map normRR (filter (\<lambda>rr. RRtype rr = t) rs) = filter (\<lambda>rr. RRtype rr = t) rs"
      using assms t by (intro map_idI) (auto simp: json_record_ok_def intro!: normRR_other)
    then show ?thesis by (simp add: by_type.get_NewDB filter_map comp_def)
  qed
  moreover have "TypeNSEC3 \<noteq> TypeA" "TypeNSEC3 \<noteq> TypeAAAA" "TypeNSEC3PARAM \<noteq> TypeA" "TypeNSEC3PARAM \<noteq> TypeAAAA" using rrtypes_distinct by auto
  ultimately show ?thesis by (simp add: RebuildNSEC3Chain_def)
qed

text \<open>C16: The signed zone survives the way to the slave: the JSON text of a signed database decodes to a database marked signed, and a slave that
  swaps it in, after a push, a poll or from its snapshot, holds an NSEC3 chain that has a covering record for a hash exactly if no name of the zone
  has that hash. So the slave can deny every name that does not exist and none that does.\<close>

theorem slave_denies_exactly_absent:
  assumes "rebuild env ms inp = Some (Inr d, ms')" "publishable env ms inp objs" "Keys (cfgDNSSEC (mCfg ms)) \<noteq> []"
    and "chain_ok (mvSha1 env) (masterZone ms) objs" "\<And>m. mset (ord m) = mset m"
  shows "\<exists>data d' chain. MarshalJSON (encodeDB nils) ord d = Some data \<and> DB_UnmarshalJSON (mvUni env) ufold data = Some (Some d') \<and>
    DNSSECEnabled d' \<and> nsec3Chain (fst (swapDB enc ord' io s fs d')) = Some chain \<and>
    (\<forall>h. (\<exists>rr. findCovering (mvUup env) chain h = Inr rr) \<longleftrightarrow>
      h \<notin> (\<lambda>n. HashName (mvSha1 env) n 0 []) ` insert (masterZone ms) (Name ` set objs))"
proof -
  let ?z = "masterZone ms" and ?pub = "published (inSerialNow inp) objs"
  have p: "inList inp = Objects objs" "orders_ok inp" "chain_zone (mvUni env) ?z" "\<forall>rr \<in> set objs. json_record_ok (mvUni env) rr"
      "curve_laws (key_algebra.truncate (mvScheme env))" "\<And>x. length (mvSha1 env x) = 20"
    using assms(2) by (simp_all add: publishable_def)
  obtain rs b where d: "d = (NewDB ?z rs) \<lparr> DNSSECEnabled := b \<rparr>" "\<forall>rr \<in> set rs. json_record_ok (mvUni env) rr"
    using rebuilt_records_ok [OF assms(1) p] by blast
  have z: "canonical_name (mvUni env) ?z" using p(3) by (simp add: chain_zone_def)
  obtain ms0 where s: "signDB env ms0 inp (NewDB ?z ?pub) = Some (Inr d)" "mCfg ms0 = mCfg ms"
    using rebuilt [OF assms(1) p(1)] assms(3) by auto
  have b: "b" using rebuilt_serves [OF assms(1) p(1,2)] assms(3) d(1) by simp
  have names: "Name ` set ?pub = Name ` set objs" by (simp add: published_def image_image)
  have "chain_ok (mvSha1 env) ?z ?pub" using assms(4) unfolding chain_ok_def names by (auto simp: published_def)
  from signed_chain_rebuilt [OF s(1) _ this p(2,5) assms(5)] obtain chain where c: "RebuildNSEC3Chain (NewDB ?z (AllRecords ord d)) = Inr chain"
      "\<And>h. (\<exists>rr. findCovering (mvUup env) chain h = Inr rr) \<longleftrightarrow> h \<notin> (\<lambda>n. HashName (mvSha1 env) n 0 []) ` insert ?z (Name ` set ?pub)"
    using assms(3) s(2) by auto
  have "RebuildNSEC3Chain ((NewDB ?z (map normRR (AllRecords ord d))) \<lparr> DNSSECEnabled := b \<rparr>) = Inr chain"
    using Rebuild_normalised [OF AllRecords_ok [OF d assms(5)]] c(1) by simp
  then have "nsec3Chain (fst (swapDB enc ord' io s fs ((NewDB ?z (map normRR (AllRecords ord d))) \<lparr> DNSSECEnabled := b \<rparr>))) = Some chain"
    using b by (simp add: swapDB_def Let_def)
  moreover have "DNSSECEnabled ((NewDB ?z (map normRR (AllRecords ord d))) \<lparr> DNSSECEnabled := b \<rparr>)" using b by simp
  moreover obtain data where "MarshalJSON (encodeDB nils) ord d = Some data"
      "DB_UnmarshalJSON (mvUni env) ufold data = Some (Some ((NewDB ?z (map normRR (AllRecords ord d))) \<lparr> DNSSECEnabled := b \<rparr>))"
    using decoded_db [OF d(1) z d(2) assms(5), of nils ufold] by blast
  ultimately show ?thesis using c(2) unfolding names by blast
qed

text \<open>A zone whose name is the root, or longer than 222 bytes, cannot be published signed: the owner names of its NSEC3 records
  are no domain names, so every slave refuses the text.\<close>

theorem signed_zone_name_limit:
  assumes "is_ascii z" "canonical_name uni z" "length h = 20"
  shows "(\<exists>err. NewDomain uni (Name (NSEC3_AsRR uni uup n h z ttl)) = Inl err) \<longleftrightarrow> z = [dot] \<or> 222 < length z"
proof -
  let ?n = "Name (NSEC3_AsRR uni uup n h z ttl)"
  have "(\<exists>d. NewDomain uni ?n = Inr d) \<longleftrightarrow> z \<noteq> [dot] \<and> length z \<le> 222" unfolding NSEC3_owner(1) [OF assms refl] by simp
  then show ?thesis by (cases "NewDomain uni ?n") auto
qed

subsection \<open>Examples\<close>

text \<open>A zone with one key, signed with a stand-in for SHA-1 that has 20 bytes and keeps the names of the zone apart.\<close>

definition wide_hash :: hashfun where
  "wide_hash bs = take 20 (bs @ replicate 20 0)"

definition wide_menv :: master_env where
  "wide_menv = signing_menv \<lparr> mvSha1 := wide_hash \<rparr>"

lemma wide_sel: "mvUni wide_menv = (\<lambda>s. s)" "mvUup wide_menv = (\<lambda>s. s)" "mvSha1 wide_menv = wide_hash"
  by (simp_all add: wide_menv_def signing_menv_def sample_menv_def)

lemma sane_publishable:
  assumes "masterZone ms = lit ''example.''" shows "publishable wide_menv ms (sample_input sane_records) sane_records"
proof -
  have "list_all (json_record_ok (\<lambda>s. s)) sane_records" "chain_zone (\<lambda>s. s) (lit ''example.'')" by code_simp+
  moreover have "length (wide_hash x) = 20" for x by (simp add: wide_hash_def)
  ultimately show ?thesis
    using sample_menv_laws(2) [of sane_records] signing_menv_laws(3) assms
    by (simp add: publishable_def wide_sel list_all_iff) (simp add: sample_input_def wide_menv_def)
qed

lemma sane_checked: "SanityChecks (\<lambda>s. s) rev (NewDB (lit ''example.'') (published 7 sane_records)) = Some None"
  by code_simp

lemma rebuild_sane:
  assumes "masterZone ms = lit ''example.''" "MaxRecords (cfgMaster (mCfg ms)) = 0"
    and "(if 0 < length (Keys (cfgDNSSEC (mCfg ms))) then signDB wide_menv (ms \<lparr> mRebuilds := Suc (mRebuilds ms) \<rparr>) (sample_input sane_records)
      (NewDB (lit ''example.'') (published 7 sane_records)) else Some (Inr (NewDB (lit ''example.'') (published 7 sane_records)))) = Some (Inr d)"
  shows "\<exists>ms'. rebuild wide_menv ms (sample_input sane_records) = Some (Inr d, ms') \<and> mCfg ms' = mCfg ms"
proof -
  have "length (listedRecords (Objects sane_records)) = 5" by (simp add: listedRecords_def sane_records_def)
  moreover have "stampSerial (word_of_int 7) (NewDB (lit ''example.'') (listedRecords (Objects sane_records))) = NewDB (lit ''example.'') (published 7 sane_records)"
    by (rule newDB_published)
  moreover have "inList (sample_input sane_records) = Objects sane_records" "inSerialNow (sample_input sane_records) = 7"
      "inOrdCheck (sample_input sane_records) = rev" by (simp_all add: sample_input_def)
  ultimately show ?thesis
    using assms sane_checked
    by (cases "Keys (cfgDNSSEC (mCfg ms)) = []") (simp_all add: rebuild_def Let_def maxRecordCount_def defaultMaxRRsize_def wide_sel)
qed

theorem slave_denies_exactly_absent_witness:
  "\<exists>d ms' data d' chain. rebuild wide_menv signing_master (sample_input sane_records) = Some (Inr d, ms') \<and>
     MarshalJSON (encodeDB (\<lambda>_ _. False)) rev d = Some data \<and> DB_UnmarshalJSON (\<lambda>s. s) (\<lambda>_ _. False) data = Some (Some d') \<and>
     nsec3Chain (fst (swapDB (encodeDB (\<lambda>_ _. False)) rev \<lparr> writeFault = None, renameOk = True \<rparr> (NewSlave zeroConfig) Map.empty d')) = Some chain \<and>
     (\<exists>rr. findCovering (\<lambda>s. s) chain (replicate 20 1) = Inr rr)"
proof -
  let ?ms = "signing_master \<lparr> mRebuilds := Suc (mRebuilds signing_master) \<rparr>"
  have m: "masterZone signing_master = lit ''example.''" "MaxRecords (cfgMaster (mCfg signing_master)) = 0" "Keys (cfgDNSSEC (mCfg signing_master)) \<noteq> []"
    by (simp_all add: signing_master_def NewMaster_def zeroConfig_def)
  have "known_types (published 7 sane_records)" "published 7 sane_records \<noteq> []" by code_simp+
  moreover have "list_all ed25519_key [sample_zsk]" by (simp add: ed25519_key_def sample_zsk_def)
  ultimately obtain d where d: "signWith wide_menv (sample_input sane_records) (NewDB (lit ''example.'') (published 7 sane_records)) [sample_zsk] 0 = Inr d"
    using signWith_ed25519 [OF _ _ _ sample_menv_laws(2)] by blast
  have "rrSigWindow wide_menv ?ms = Inr 0" by (simp add: rrSigWindow_def signing_master_def NewMaster_def)
  then have "signDB wide_menv ?ms (sample_input sane_records) (NewDB (lit ''example.'') (published 7 sane_records)) = Some (Inr d)"
    using sample_keys d by (simp add: signDB_def mapE_def wide_menv_def)
  then obtain ms' where r: "rebuild wide_menv signing_master (sample_input sane_records) = Some (Inr d, ms')"
    using rebuild_sane [OF m(1,2)] m(3) by auto
  have "chain_ok wide_hash (lit ''example.'') sane_records" "replicate 20 1 \<notin> (\<lambda>n. HashName wide_hash n 0 []) ` insert (lit ''example.'') (Name ` set sane_records)"
    by code_simp+
  then show ?thesis
    using slave_denies_exactly_absent [OF r sane_publishable [OF m(1)] m(3), of rev "\<lambda>_ _. False" "\<lambda>_ _. False" "encodeDB (\<lambda>_ _. False)" rev
      "\<lparr> writeFault = None, renameOk = True \<rparr>" "NewSlave zeroConfig" Map.empty] r unfolding wide_sel m(1) by fastforce
qed

theorem rebuilt_zone_reaches_slave_witness:
  "\<exists>d ms' data s' fss d'. rebuild wide_menv sample_master (sample_input sane_records) = Some (Inr d, ms') \<and>
     pushToSlaves (encodeDB (\<lambda>_ _. True)) rev (\<lambda>_. Some [lit ''10.0.0.1'']) ms' d = [(lit ''http://10.0.0.1:8080/db'', data)] \<and>
     handleDBPush (encodeDB (\<lambda>_ _. True)) (decodeDB (\<lambda>s. s) (\<lambda>_ _. False)) rev \<lparr> writeFault = None, renameOk = True \<rparr> (NewSlave zeroConfig) Map.empty
       (lit ''POST'') (Some data) = (204, s', fss) \<and> Ready s' \<and> currDB s' = Some d' \<and>
     map (BinaryWrite (\<lambda>s. s)) (LookupByName d' (lit ''ns.example.'') TypeA) = [BinaryWrite (\<lambda>s. s) (NewRR (lit ''ns.example.'') (RRoptsA [192, 0, 2, 1]))]"
proof -
  let ?d = "NewDB (lit ''example.'') (published 7 sane_records)" and ?enc = "encodeDB (\<lambda>_ _. True)"
  let ?push = "\<lambda>ms'. pushToSlaves ?enc rev (\<lambda>_. Some [lit ''10.0.0.1'']) ms' ?d"
  have m: "masterZone sample_master = lit ''example.''" "MaxRecords (cfgMaster (mCfg sample_master)) = 0" "Keys (cfgDNSSEC (mCfg sample_master)) = []"
    by (simp_all add: sample_master_def NewMaster_def zeroConfig_def)
  obtain ms' where r: "rebuild wide_menv sample_master (sample_input sane_records) = Some (Inr ?d, ms')"
    using rebuild_sane [OF m(1,2)] m(3) by auto
  have "case MarshalJSON ?enc rev ?d of None \<Rightarrow> False | Some data \<Rightarrow> length data < 5000" by code_simp
  then obtain data where data: "MarshalJSON ?enc rev ?d = Some data" "length data < 5000" by (auto split: option.splits)
  have p: "?push ms' = [(lit ''http://10.0.0.1:8080/db'', data)]" unfolding pushToSlaves_def data(1) option.case by (simp add: lit_def)
  then have mem: "(lit ''http://10.0.0.1:8080/db'', data) \<in> set (?push ms')" by simp
  have size: "int (length data) \<le> maxDBBodyBytes (NewSlave zeroConfig)"
    using data(2) by (simp add: maxDBBodyBytes_def NewSlave_def zeroConfig_def Let_def)
  from rebuilt_zone_reaches_slave [OF r sane_publishable [OF m(1)] _ mem size, of "\<lambda>_ _. True" "\<lambda>_ _. False" rev
      "\<lparr> writeFault = None, renameOk = True \<rparr>" Map.empty]
  obtain s' fss d' where h: "handleDBPush ?enc (decodeDB (\<lambda>s. s) (\<lambda>_ _. False)) rev \<lparr> writeFault = None, renameOk = True \<rparr> (NewSlave zeroConfig) Map.empty
       (lit ''POST'') (Some data) = (204, s', fss)" "Ready s'" "currDB s' = Some d'"
    and l: "\<And>n t. dnssecType t \<or> t = TypeDNSKEY \<or> map (BinaryWrite (\<lambda>s. s)) (LookupByName d' n t) =
       map (BinaryWrite (\<lambda>s. s)) (filter (\<lambda>rr. Name rr = n \<and> RRtype rr = t) (published (inSerialNow (sample_input sane_records)) sane_records))"
    unfolding wide_sel by auto
  have "filter (\<lambda>rr. Name rr = lit ''ns.example.'' \<and> RRtype rr = TypeA) (published 7 sane_records) = [NewRR (lit ''ns.example.'') (RRoptsA [192, 0, 2, 1])]"
    "\<not> dnssecType TypeA" "TypeA \<noteq> TypeDNSKEY" by code_simp+
  then have "map (BinaryWrite (\<lambda>s. s)) (LookupByName d' (lit ''ns.example.'') TypeA) = [BinaryWrite (\<lambda>s. s) (NewRR (lit ''ns.example.'') (RRoptsA [192, 0, 2, 1]))]"
    using l [of TypeA "lit ''ns.example.''"] by (simp only: sample_input_def rebuild_input.select_convs list.map simp_thms)
  with r p h show ?thesis by - (intro exI conjI; assumption)
qed

end
