(* ===== verification/Logging.thy ===== *)
theory Logging
  imports Commands Slave_DNS
begin

text \<open>
  Logging, after \<^verbatim>\<open>internal/log\<close>: levels, contexts, the logfmt formatter and the logger that every service uses, and the start of a
  process up to \<open>main\<close>, where the package variable \<open>LogLevelDefault\<close> is initialised.

  The text of the time and of the caller are arguments, as is the quoting of \<open>%q\<close> (\<open>strconv.Quote\<close>). A context is an association list with
  one entry per key; its values are the texts that \<open>%v\<close> prints for them, which is the string itself for a string.
\<close>

type_synonym Ctx = "(gostring \<times> gostring) list"

subsection \<open>The code\<close>

definition sortedKeys :: "Ctx \<Rightarrow> gostring list" where
  "sortedKeys c = sort (map fst c)"

definition mergeCtx :: "Ctx list \<Rightarrow> Ctx" where
  "mergeCtx ctxs = foldl (\<lambda>merged c. foldl (\<lambda>m (k, v). mapPut k v m) merged c) [] ctxs"

record LogMsg =
  lmLevel :: int
  lmMsg :: gostring
  lmComponent :: gostring
  lmTimestamp :: gostring
  lmCaller :: gostring
  lmContext :: Ctx

definition Logfmt_Format :: "(gostring \<Rightarrow> gostring) \<Rightarrow> LogMsg \<Rightarrow> bytes" where
  "Logfmt_Format quote msg =
     lit ''time='' @ lmTimestamp msg @ lit '' '' @ lit ''level='' @ LogLevel_String (lmLevel msg) @ lit '' ''
     @ (if lmComponent msg \<noteq> [] then lit ''component='' @ lmComponent msg @ lit '' '' else [])
     @ lit ''caller='' @ lmCaller msg @ lit '' '' @ lit ''msg='' @ quote (lmMsg msg)
     @ concat (map (\<lambda>k. lit '' '' @ k @ lit ''='' @ the (map_of (lmContext msg) k)) (sortedKeys (lmContext msg)))"

record Logger =
  lgLevel :: int
  lgComponent :: gostring

text \<open>\<open>New\<close>: the level is the first of the optional arguments or the default. The backend is \<open>Console\<close>, which adds a newline.\<close>

definition NewLogger :: "int \<Rightarrow> gostring \<Rightarrow> int list \<Rightarrow> Logger" where
  "NewLogger logLevelDefault component level = \<lparr> lgLevel = (case level of l # _ \<Rightarrow> l | [] \<Rightarrow> logLevelDefault), lgComponent = component \<rparr>"

definition Console_Write :: "bytes \<Rightarrow> bytes" where
  "Console_Write data = data @ [10]"

text \<open>What a call of the logger writes.\<close>

definition log :: "(gostring \<Rightarrow> gostring) \<Rightarrow> gostring \<Rightarrow> gostring \<Rightarrow> Logger \<Rightarrow> int \<Rightarrow> gostring \<Rightarrow> Ctx list \<Rightarrow> bytes" where
  "log quote now caller l level msg ctx =
     (if level < lgLevel l then []
      else Console_Write (Logfmt_Format quote
        \<lparr> lmLevel = level, lmMsg = msg, lmComponent = lgComponent l, lmTimestamp = now, lmCaller = caller, lmContext = mergeCtx ctx \<rparr>))"

definition Debug :: "(gostring \<Rightarrow> gostring) \<Rightarrow> gostring \<Rightarrow> gostring \<Rightarrow> Logger \<Rightarrow> gostring \<Rightarrow> Ctx list \<Rightarrow> bytes" where
  "Debug quote now caller l msg ctx = log quote now caller l 0 msg ctx"

definition Info :: "(gostring \<Rightarrow> gostring) \<Rightarrow> gostring \<Rightarrow> gostring \<Rightarrow> Logger \<Rightarrow> gostring \<Rightarrow> Ctx list \<Rightarrow> bytes" where
  "Info quote now caller l msg ctx = log quote now caller l 1 msg ctx"

definition Error :: "(gostring \<Rightarrow> gostring) \<Rightarrow> gostring \<Rightarrow> gostring \<Rightarrow> Logger \<Rightarrow> gostring \<Rightarrow> Ctx list \<Rightarrow> bytes" where
  "Error quote now caller l msg ctx = log quote now caller l 2 msg ctx"

text \<open>The context that a slave logs for a query.\<close>

definition queryCtx :: "gostring \<Rightarrow> queryInfo \<Rightarrow> Ctx" where
  "queryCtx proto qi = [(lit ''proto'', proto), (lit ''qname'', qiQname qi), (lit ''qtype'', qiRRtype qi), (lit ''rcode'', rcodeName (qiRcode qi)),
     (lit ''dnssec'', if qiDnssec qi then lit ''true'' else lit ''false'')]"

text \<open>The initial value of \<open>LogLevelDefault\<close>; \<open>None\<close> is the panic.\<close>

definition readLogLevelFromEnv :: "unilower \<Rightarrow> (gostring \<Rightarrow> gostring) \<Rightarrow> int go" where
  "readLogLevelFromEnv uni getenv = (case ReadLogLevelFromEnv uni getenv of Inl err \<Rightarrow> None | Inr level \<Rightarrow> Some level)"

text \<open>A process: the package is initialised, then \<open>main\<close> starts.\<close>

definition initAndStart ::
  "unilower \<Rightarrow> (gostring \<Rightarrow> gostring) \<Rightarrow> (gostring \<Rightarrow> duration option) \<Rightarrow> k8s_lib \<Rightarrow> (bytes \<Rightarrow> DNSConfigSpec Object option) \<Rightarrow>
    'w Client option \<Rightarrow> service \<Rightarrow> 'w \<Rightarrow> ((start_error + DNSConfigSpec) \<times> 'w) go" where
  "initAndStart uni getenv parseDuration lib dec newClient svc w = do {
     logLevelDefault \<leftarrow> readLogLevelFromEnv uni getenv;
     start uni getenv parseDuration lib dec newClient svc w
   }"

subsection \<open>Contexts\<close>

lemma foldl_mapPut:
  "map_of (foldl (\<lambda>m (k, v). mapPut k v m) m c) = map_of m ++ map_of (rev c)"
  "distinct (map fst m) \<Longrightarrow> distinct (map fst (foldl (\<lambda>m (k, v). mapPut k v m) m c))"
proof (induction c arbitrary: m)
  case (Cons e c)
  case 1
  show ?case using Cons(1) [of "mapPut (fst e) (snd e) m"]
    by (cases e) (auto simp: map_add_def map_of_mapPut fun_eq_iff split: option.split)
next
  case (Cons e c)
  case 2
  then show ?case using Cons(2) [of "mapPut (fst e) (snd e) m"] by (cases e) (simp add: distinct_mapPut)
qed simp_all

text \<open>Later contexts win, and each key is printed once, in ascending order.\<close>

lemma mergeCtx_lookup: "map_of (mergeCtx ctxs) = foldl (\<lambda>m c. m ++ map_of (rev c)) Map.empty ctxs"
proof -
  have "map_of (foldl (\<lambda>merged c. foldl (\<lambda>m (k, v). mapPut k v m) merged c) m ctxs) = foldl (\<lambda>m c. m ++ map_of (rev c)) (map_of m) ctxs" for m
    by (induction ctxs arbitrary: m) (simp_all add: foldl_mapPut)
  from this [of "[]"] show ?thesis by (simp add: mergeCtx_def)
qed

lemma mergeCtx_distinct: "distinct (map fst (mergeCtx ctxs))"
proof -
  have "distinct (map fst m) \<Longrightarrow> distinct (map fst (foldl (\<lambda>merged c. foldl (\<lambda>m (k, v). mapPut k v m) merged c) m ctxs))" for m
    by (induction ctxs arbitrary: m) (simp_all add: foldl_mapPut)
  then show ?thesis by (simp add: mergeCtx_def)
qed

lemma sortedKeys_ok: "sorted (sortedKeys (mergeCtx ctxs))" "distinct (sortedKeys (mergeCtx ctxs))"
    "set (sortedKeys (mergeCtx ctxs)) = dom (map_of (mergeCtx ctxs))"
  using mergeCtx_distinct [of ctxs] by (simp_all add: sortedKeys_def dom_map_of_conv_image_fst)

subsection \<open>Lines\<close>

text \<open>A text without a newline.\<close>

definition one_line :: "bytes \<Rightarrow> bool" where
  "one_line s \<longleftrightarrow> 10 \<notin> set s"

lemma one_line_simps [simp]: "one_line []" "one_line (a @ b) \<longleftrightarrow> one_line a \<and> one_line b"
  by (auto simp: one_line_def)

lemma one_line_level: "one_line (LogLevel_String l)"
proof -
  have "10 \<notin> set (FormatNat n)" for n using FormatNat_digits [of 10 n] by auto
  then show ?thesis by (auto simp: LogLevel_String_def levelNames_def lit_def one_line_def)
qed

text \<open>A call writes one line if nothing in it has a newline; below the level of the logger it writes nothing.\<close>

theorem log_writes_one_line:
  assumes "\<And>s. one_line (quote s)" "one_line now" "one_line caller" "one_line (lgComponent l)"
    and "\<forall>c \<in> set ctx. \<forall>(k, v) \<in> set c. one_line k \<and> one_line v"
  shows "log quote now caller l level msg ctx = [] \<longleftrightarrow> level < lgLevel l"
    "level < lgLevel l \<or> (\<exists>line. one_line line \<and> log quote now caller l level msg ctx = line @ [10])"
proof -
  have m: "one_line k \<and> one_line v" if "(k, v) \<in> set m'" "m' = foldl (\<lambda>merged c. foldl (\<lambda>m (k, v). mapPut k v m) merged c) [] ctx" for k v m'
  proof -
    have inner: "set (foldl (\<lambda>m (k, v). mapPut k v m) m c) \<subseteq> set m \<union> set c" for m and c :: Ctx
      by (induction c arbitrary: m) (fastforce simp: mapPut_def)+
    have "set (foldl (\<lambda>merged c. foldl (\<lambda>m (k, v). mapPut k v m) merged c) m ctx) \<subseteq> set m \<union> \<Union> (set ` set ctx)" for m
    proof (induction ctx arbitrary: m)
      case (Cons c ctx)
      from Cons.IH [of "foldl (\<lambda>m (k, v). mapPut k v m) m c"] inner [of m c] show ?case by auto
    qed simp
    from this [of "[]"] show ?thesis using that assms(5) by fastforce
  qed
  have "one_line k \<and> one_line (the (map_of (mergeCtx ctx) k))" if k: "k \<in> set (sortedKeys (mergeCtx ctx))" for k
  proof -
    obtain v where "map_of (mergeCtx ctx) k = Some v" using k unfolding sortedKeys_ok(3) by blast
    then show ?thesis using m [of k v "mergeCtx ctx"] map_of_SomeD by (fastforce simp: mergeCtx_def)
  qed
  then have "one_line (concat (map (\<lambda>k. lit '' '' @ k @ lit ''='' @ the (map_of (mergeCtx ctx) k)) (sortedKeys (mergeCtx ctx))))"
    by (auto simp: one_line_def lit_def)
  then have "one_line (Logfmt_Format quote \<lparr> lmLevel = level, lmMsg = msg, lmComponent = lgComponent l, lmTimestamp = now, lmCaller = caller, lmContext = mergeCtx ctx \<rparr>)"
    using assms(1-4) one_line_level by (simp add: Logfmt_Format_def) (simp add: one_line_def lit_def)
  then show "level < lgLevel l \<or> (\<exists>line. one_line line \<and> log quote now caller l level msg ctx = line @ [10])"
    by (auto simp: log_def Console_Write_def)
qed (simp add: log_def Console_Write_def)

text \<open>The name of a query is not quoted: whoever asks for a name with a newline in it writes a line of the log.\<close>

definition forged_query :: bytes where
  "forged_query = [0, 1, 1, 0, 0, 1, 0, 0, 0, 0, 0, 0] @ wire_of [[10] @ lit ''level=error msg=hacked ''] @ put16 1 @ put16 1"

theorem query_forges_log_line:
  "\<exists>req. New forged_query = Some (Inr req) \<and> QName req = [10] @ lit ''level=error msg=hacked .'' \<and>
     (\<forall>quote now caller l qi. lgLevel l \<le> 0 \<longrightarrow> qiQname qi = QName req \<longrightarrow>
       (\<exists>before after. Debug quote now caller l (lit ''query'') [queryCtx (lit ''udp'') qi] = before @ [10] @ lit ''level=error msg=hacked .'' @ after))"
proof -
  have "case New forged_query of Some (Inr req) \<Rightarrow> QName req = [10] @ lit ''level=error msg=hacked .'' | _ \<Rightarrow> False" by code_simp
  then obtain req where req: "New forged_query = Some (Inr req)" "QName req = [10] @ lit ''level=error msg=hacked .''"
    by (auto split: option.splits sum.splits)
  have "\<exists>before after. Debug quote now caller l (lit ''query'') [queryCtx (lit ''udp'') qi] = before @ [10] @ lit ''level=error msg=hacked .'' @ after"
    if q: "lgLevel l \<le> 0" "qiQname qi = QName req" for quote now caller l qi
  proof -
    let ?m = "mergeCtx [queryCtx (lit ''udp'') qi]"
    have "map_of ?m (lit ''qname'') = Some (qiQname qi)" unfolding mergeCtx_lookup by (simp add: queryCtx_def lit_def)
    moreover from this have "lit ''qname'' \<in> set (sortedKeys ?m)" unfolding sortedKeys_ok(3) by blast
    then obtain ks ks' where "sortedKeys ?m = ks @ lit ''qname'' # ks'" by (meson split_list)
    moreover have "\<exists>h. Debug quote now caller l (lit ''query'') [queryCtx (lit ''udp'') qi] =
        h @ concat (map (\<lambda>k. lit '' '' @ k @ lit ''='' @ the (map_of ?m k)) (sortedKeys ?m)) @ [10]"
      using q(1) by (auto simp: Debug_def log_def Console_Write_def Logfmt_Format_def simp flip: append_assoc)
    then obtain h where "Debug quote now caller l (lit ''query'') [queryCtx (lit ''udp'') qi] =
        h @ concat (map (\<lambda>k. lit '' '' @ k @ lit ''='' @ the (map_of ?m k)) (sortedKeys ?m)) @ [10]" by blast
    ultimately have "Debug quote now caller l (lit ''query'') [queryCtx (lit ''udp'') qi] =
        (h @ concat (map (\<lambda>k. lit '' '' @ k @ lit ''='' @ the (map_of ?m k)) ks) @ lit '' '' @ lit ''qname'' @ lit ''='') @ [10] @
          lit ''level=error msg=hacked .'' @ concat (map (\<lambda>k. lit '' '' @ k @ lit ''='' @ the (map_of ?m k)) ks') @ [10]"
      using q(2) req(2) by simp
    then show ?thesis by blast
  qed
  with req show ?thesis by blast
qed

text \<open>An invalid \<open>LOG_LEVEL\<close> never reaches the check in \<open>main\<close> that reports it: the process has panicked before.\<close>

theorem bad_level_panics:
  "initAndStart uni getenv parseDuration lib dec newClient svc w \<noteq> Some (Inl (BadLogLevel ll), w')"
  "ReadLogLevelFromEnv uni getenv = Inl ll \<Longrightarrow> initAndStart uni getenv parseDuration lib dec newClient svc w = None"
proof -
  show "initAndStart uni getenv parseDuration lib dec newClient svc w = None" if "ReadLogLevelFromEnv uni getenv = Inl ll"
    using that by (simp add: initAndStart_def readLogLevelFromEnv_def)
  have "start uni getenv parseDuration lib dec newClient svc w \<noteq> Some (Inl (BadLogLevel ll), w')" if "ReadLogLevelFromEnv uni getenv = Inr l" for l
  proof
    assume s: "start uni getenv parseDuration lib dec newClient svc w = Some (Inl (BadLogLevel ll), w')"
    have c: "checkConfig parseDuration svc cfg \<noteq> Some (BadLogLevel ll)" for cfg
      by (cases svc) (auto simp: check_defs split: if_splits)
    have "loadDNSConfig lib (crd_init []) dec c ns w \<noteq> Some (Inl (BadLogLevel ll), w')" for c ns
      by (auto simp: loadDNSConfig_def bind_eq_Some_conv split: sum.splits list.splits if_splits)
    then show False using s that c by (auto simp: start_def Let_def bind_eq_Some_conv split: if_splits option.splits sum.splits) (metis sum.exhaust)
  qed
  then show "initAndStart uni getenv parseDuration lib dec newClient svc w \<noteq> Some (Inl (BadLogLevel ll), w')"
    by (auto simp: initAndStart_def readLogLevelFromEnv_def split: sum.splits)
qed

end
