(* ===== verification/Process.thy ===== *)
theory Process
  imports Commands
begin

text \<open>
  The process around a service: \<open>runtime.Run\<close> (\<^verbatim>\<open>internal/runtime/runnable.go\<close>, \<^verbatim>\<open>signal.go\<close>, \<^verbatim>\<open>srv.go\<close>) with its goroutines, and the loop
  of \<open>main\<close> (\<^verbatim>\<open>cmd/slave/main.go\<close>; the master's is the same and the router adds the certificate watch) with the goroutine that
  bridges the configuration channel to a cancellation. The goroutines interleave: a step of the process is a step of one of
  them, named by a label; a label that is not enabled gives \<open>None\<close>.

  The context is one flag. A send on a channel, a receive, closing a channel and the branch of a \<open>select\<close> are one step each; the branch of the
  bridge goroutine that takes a configuration (send on \<open>reloadCh\<close>, then close \<open>cancelCh\<close>) is one step, since no other goroutine reads \<open>reloadCh\<close>
  before \<open>Run\<close> has returned. The goroutines that call \<open>Shutdown\<close> are not in the wait group and have no step of their own. A service whose \<open>MainLoop\<close> returns
  without an error only when its context is done is called patient.
\<close>

subsection \<open>State\<close>

datatype phase = InRun | AfterRun | Exited exit

text \<open>\<open>pruns\<close> is a history variable: how the runs so far ended.\<close>

record 'c process =
  watchesCert :: bool
  patient :: bool
  pcfg :: 'c
  cfgCh :: "'c list"
  phase :: phase
  ctxDone :: bool
  signalAlive :: bool
  cancelAlive :: bool
  healthAlive :: bool
  metricsAlive :: bool
  mainRet :: "bool option"
  bridgeAlive :: bool
  cancelClosed :: bool
  runtimeDone :: bool
  reloadCh :: "'c run_end option"
  pruns :: "'c run_end list"

text \<open>The top of the loop: fresh channels, the bridge goroutine, and \<open>Run\<close> with a cancel channel and both servers.\<close>

definition startRun :: "bool \<Rightarrow> bool \<Rightarrow> 'c \<Rightarrow> 'c list \<Rightarrow> 'c run_end list \<Rightarrow> 'c process" where
  "startRun cert pat cfg ch ends = \<lparr> watchesCert = cert, patient = pat, pcfg = cfg, cfgCh = ch, phase = InRun, ctxDone = False,
     signalAlive = True, cancelAlive = True, healthAlive = True, metricsAlive = True, mainRet = None,
     bridgeAlive = True, cancelClosed = False, runtimeDone = False, reloadCh = None, pruns = ends \<rparr>"

subsection \<open>Steps\<close>

text \<open>The goroutine of the watch: a send on \<open>cfgCh\<close>, which holds one configuration.\<close>

definition watchSends :: "'c \<Rightarrow> 'c process \<Rightarrow> 'c process option" where
  "watchSends c p = (if cfgCh p = [] then Some (p \<lparr> cfgCh := [c] \<rparr>) else None)"

text \<open>The bridge: a send on \<open>reloadCh\<close> unless it is full, and the close of \<open>cancelCh\<close>.\<close>

definition requestReload :: "'c run_end \<Rightarrow> 'c process \<Rightarrow> 'c process" where
  "requestReload r p =
     p \<lparr> reloadCh := (case reloadCh p of None \<Rightarrow> Some r | Some r' \<Rightarrow> Some r'), cancelClosed := True, bridgeAlive := False \<rparr>"

definition bridgeTakesConfig :: "'c process \<Rightarrow> 'c process option" where
  "bridgeTakesConfig p =
     (case cfgCh p of
        [] \<Rightarrow> None
      | c # cs \<Rightarrow> if bridgeAlive p then Some (requestReload (ReloadConfig c) (p \<lparr> cfgCh := cs \<rparr>)) else None)"

definition bridgeTakesCert :: "'c process \<Rightarrow> 'c process option" where
  "bridgeTakesCert p = (if bridgeAlive p \<and> watchesCert p then Some (requestReload ReloadCert p) else None)"

definition bridgeStops :: "'c process \<Rightarrow> 'c process option" where
  "bridgeStops p = (if bridgeAlive p \<and> runtimeDone p then Some (p \<lparr> bridgeAlive := False \<rparr>) else None)"

text \<open>\<open>CancelOnSignal\<close>.\<close>

definition signalArrives :: "'c process \<Rightarrow> 'c process option" where
  "signalArrives p = (if signalAlive p then Some (p \<lparr> ctxDone := True, signalAlive := False \<rparr>) else None)"

definition signalStops :: "'c process \<Rightarrow> 'c process option" where
  "signalStops p = (if signalAlive p \<and> ctxDone p then Some (p \<lparr> signalAlive := False \<rparr>) else None)"

text \<open>The goroutine of \<open>Run\<close> that waits for the cancel channel.\<close>

definition cancelSeen :: "'c process \<Rightarrow> 'c process option" where
  "cancelSeen p = (if cancelAlive p \<and> cancelClosed p then Some (p \<lparr> ctxDone := True, cancelAlive := False \<rparr>) else None)"

definition cancelStops :: "'c process \<Rightarrow> 'c process option" where
  "cancelStops p = (if cancelAlive p \<and> ctxDone p then Some (p \<lparr> cancelAlive := False \<rparr>) else None)"

text \<open>\<open>ServeUntilCanceled\<close> in the goroutines of the two servers: it fails, which cancels the context, or it is shut
  down.\<close>

definition healthFails :: "'c process \<Rightarrow> 'c process option" where
  "healthFails p = (if healthAlive p then Some (p \<lparr> ctxDone := True, healthAlive := False \<rparr>) else None)"

definition healthStops :: "'c process \<Rightarrow> 'c process option" where
  "healthStops p = (if healthAlive p \<and> ctxDone p then Some (p \<lparr> healthAlive := False \<rparr>) else None)"

definition metricsFails :: "'c process \<Rightarrow> 'c process option" where
  "metricsFails p = (if metricsAlive p then Some (p \<lparr> ctxDone := True, metricsAlive := False \<rparr>) else None)"

definition metricsStops :: "'c process \<Rightarrow> 'c process option" where
  "metricsStops p = (if metricsAlive p \<and> ctxDone p then Some (p \<lparr> metricsAlive := False \<rparr>) else None)"

text \<open>\<open>MainLoop\<close> returns, with an error or without; then \<open>Run\<close> cancels the context, waits for its goroutines and returns; the
  caller exits if there was an error and else closes \<open>runtimeDone\<close>.\<close>

definition mainReturns :: "bool \<Rightarrow> 'c process \<Rightarrow> 'c process option" where
  "mainReturns err p = (if mainRet p = None \<and> (err \<or> ctxDone p \<or> \<not> patient p) then Some (p \<lparr> mainRet := Some err \<rparr>) else None)"

definition runCancels :: "'c process \<Rightarrow> 'c process option" where
  "runCancels p = (if mainRet p \<noteq> None \<and> \<not> ctxDone p then Some (p \<lparr> ctxDone := True \<rparr>) else None)"

definition allEnded :: "'c process \<Rightarrow> bool" where
  "allEnded p \<longleftrightarrow> \<not> signalAlive p \<and> \<not> cancelAlive p \<and> \<not> healthAlive p \<and> \<not> metricsAlive p"

definition runReturns :: "'c process \<Rightarrow> 'c process option" where
  "runReturns p =
     (if phase p = InRun \<and> ctxDone p \<and> allEnded p
      then (case mainRet p of
              None \<Rightarrow> None
            | Some err \<Rightarrow>
                (if err then Some (p \<lparr> phase := Exited Fatal, pruns := pruns p @ [RunFailed] \<rparr>)
                 else Some (p \<lparr> phase := AfterRun, runtimeDone := True \<rparr>)))
      else None)"

text \<open>The \<open>select\<close> at the end of the loop.\<close>

definition loopChecks :: "'c process \<Rightarrow> 'c process option" where
  "loopChecks p =
     (if phase p = AfterRun
      then (case reloadCh p of
              Some (ReloadConfig c) \<Rightarrow> Some (startRun (watchesCert p) (patient p) c (cfgCh p) (pruns p @ [ReloadConfig c]))
            | Some r \<Rightarrow> Some (startRun (watchesCert p) (patient p) (pcfg p) (cfgCh p) (pruns p @ [r]))
            | None \<Rightarrow> Some (p \<lparr> phase := Exited Clean, pruns := pruns p @ [RunDone] \<rparr>))
      else None)"

datatype 'c label = WatchSends 'c | BridgeTakesConfig | BridgeTakesCert | BridgeStops | SignalArrives | SignalStops | CancelSeen | CancelStops
  | HealthFails | HealthStops | MetricsFails | MetricsStops | MainReturns bool | RunCancels | RunReturns | LoopChecks

definition is_exited :: "'c process \<Rightarrow> bool" where
  "is_exited p = (case phase p of Exited _ \<Rightarrow> True | _ \<Rightarrow> False)"

definition pstep :: "'c process \<Rightarrow> 'c label \<Rightarrow> 'c process option" where
  "pstep p l =
     (if is_exited p then None
      else (case l of
         WatchSends c \<Rightarrow> watchSends c p | BridgeTakesConfig \<Rightarrow> bridgeTakesConfig p | BridgeTakesCert \<Rightarrow> bridgeTakesCert p | BridgeStops \<Rightarrow> bridgeStops p
       | SignalArrives \<Rightarrow> signalArrives p | SignalStops \<Rightarrow> signalStops p | CancelSeen \<Rightarrow> cancelSeen p | CancelStops \<Rightarrow> cancelStops p
       | HealthFails \<Rightarrow> healthFails p | HealthStops \<Rightarrow> healthStops p | MetricsFails \<Rightarrow> metricsFails p | MetricsStops \<Rightarrow> metricsStops p
       | MainReturns err \<Rightarrow> mainReturns err p | RunCancels \<Rightarrow> runCancels p | RunReturns \<Rightarrow> runReturns p | LoopChecks \<Rightarrow> loopChecks p))"

fun psteps :: "'c process \<Rightarrow> 'c label list \<Rightarrow> 'c process option" where
  "psteps p [] = Some p"
| "psteps p (l # ls) = Option.bind (pstep p l) (\<lambda>p'. psteps p' ls)"

inductive process_run :: "bool \<Rightarrow> bool \<Rightarrow> 'c \<Rightarrow> 'c label list \<Rightarrow> 'c process \<Rightarrow> bool" where
  begins: "process_run cert pat cfg [] (startRun cert pat cfg [] [])"
| steps: "process_run cert pat cfg tr p \<Longrightarrow> pstep p l = Some p' \<Longrightarrow> process_run cert pat cfg (tr @ [l]) p'"

lemmas step_defs = watchSends_def requestReload_def bridgeTakesConfig_def bridgeTakesCert_def bridgeStops_def signalArrives_def signalStops_def
  cancelSeen_def cancelStops_def healthFails_def healthStops_def metricsFails_def metricsStops_def mainReturns_def runCancels_def
  runReturns_def loopChecks_def

subsection \<open>What the process has done\<close>

definition sent :: "'c label list \<Rightarrow> 'c list" where
  "sent tr = List.map_filter (\<lambda>l. case l of WatchSends c \<Rightarrow> Some c | _ \<Rightarrow> None) tr"

definition reloadedWith :: "'c run_end list \<Rightarrow> 'c list" where
  "reloadedWith ends = List.map_filter (\<lambda>r. case r of ReloadConfig c \<Rightarrow> Some c | _ \<Rightarrow> None) ends"

fun is_reload :: "'c run_end \<Rightarrow> bool" where
  "is_reload (ReloadConfig c) = True"
| "is_reload ReloadCert = True"
| "is_reload r = False"

definition pending :: "'c process \<Rightarrow> 'c list" where
  "pending p = (case reloadCh p of None \<Rightarrow> [] | Some r \<Rightarrow> reloadedWith [r])"

fun exitOf :: "phase \<Rightarrow> exit" where
  "exitOf (Exited e) = e"
| "exitOf _ = Running"

lemma history_simps [simp]:
  "sent [] = []" "sent (tr @ tr') = sent tr @ sent tr'" "sent [l] = (case l of WatchSends c \<Rightarrow> [c] | _ \<Rightarrow> [])"
  "reloadedWith [] = []" "reloadedWith (es @ es') = reloadedWith es @ reloadedWith es'"
  "reloadedWith [r] = (case r of ReloadConfig c \<Rightarrow> [c] | _ \<Rightarrow> [])"
  by (auto simp: sent_def reloadedWith_def List.map_filter_def split: label.splits run_end.splits)

lemma mainLoop_snoc:
  "list_all is_reload rs \<Longrightarrow> \<exists>cs c. mainLoop cfg rs = (cs @ [c], Running) \<and>
     mainLoop cfg (rs @ [r]) = (case r of RunFailed \<Rightarrow> (cs @ [c], Fatal) | RunDone \<Rightarrow> (cs @ [c], Clean)
       | ReloadConfig c' \<Rightarrow> (cs @ [c, c'], Running) | ReloadCert \<Rightarrow> (cs @ [c, c], Running))"
proof (induction rs arbitrary: cfg)
  case Nil
  then show ?case by (auto split: run_end.splits intro!: exI [of _ "[]"])
next
  case (Cons e rs)
  define c' where "c' = (case e of ReloadConfig c \<Rightarrow> c | _ \<Rightarrow> cfg)"
  have step: "mainLoop cfg (e # es) = (case mainLoop c' es of (cs, x) \<Rightarrow> (cfg # cs, x))" for es
    using Cons.prems by (cases e) (auto simp: c'_def)
  obtain cs c where "mainLoop c' rs = (cs @ [c], Running)" "mainLoop c' (rs @ [r]) = (case r of RunFailed \<Rightarrow> (cs @ [c], Fatal) | RunDone \<Rightarrow> (cs @ [c], Clean)
       | ReloadConfig c' \<Rightarrow> (cs @ [c, c'], Running) | ReloadCert \<Rightarrow> (cs @ [c, c], Running))"
    using Cons.IH [of c'] Cons.prems by auto
  then show ?case unfolding append_Cons step by (intro exI [of _ "cfg # cs"] exI [of _ c]) (auto split: run_end.splits)
qed

subsection \<open>Invariants\<close>

text \<open>The goroutines of \<open>Run\<close> have ended when it has returned, and a reload is requested at most once per run, with the
  cancel channel.\<close>

definition joined :: "'c process \<Rightarrow> bool" where
  "joined p \<longleftrightarrow> (phase p \<noteq> InRun \<longrightarrow> allEnded p \<and> ctxDone p \<and> mainRet p \<noteq> None)"

definition bridge_ok :: "'c process \<Rightarrow> bool" where
  "bridge_ok p \<longleftrightarrow> (bridgeAlive p \<longrightarrow> reloadCh p = None)"

definition reload_ok :: "'c process \<Rightarrow> bool" where
  "reload_ok p \<longleftrightarrow> (\<forall>r. reloadCh p = Some r \<longrightarrow> is_reload r)"

definition cancel_ok :: "'c process \<Rightarrow> bool" where
  "cancel_ok p \<longleftrightarrow> (cancelClosed p \<longrightarrow> reloadCh p \<noteq> None)"

text \<open>The configurations sent so far are those taken, the one requested and the one in the channel; the runs so far are
  those of the loop of \<open>main\<close>.\<close>

definition history_ok :: "'c \<Rightarrow> 'c label list \<Rightarrow> 'c process \<Rightarrow> bool" where
  "history_ok cfg tr p \<longleftrightarrow> sent tr = reloadedWith (pruns p) @ pending p @ cfgCh p \<and>
     (\<not> is_exited p \<longrightarrow> list_all is_reload (pruns p)) \<and> (\<exists>cs. mainLoop cfg (pruns p) = (cs @ [pcfg p], exitOf (phase p)))"

lemma joined_step: "joined p \<Longrightarrow> pstep p l = Some p' \<Longrightarrow> joined p'"
  by (cases l) (auto simp: joined_def pstep_def step_defs startRun_def allEnded_def split: if_splits list.splits option.splits run_end.splits)

lemma bridge_step: "bridge_ok p \<Longrightarrow> pstep p l = Some p' \<Longrightarrow> bridge_ok p'"
  by (cases l) (auto simp: bridge_ok_def pstep_def step_defs startRun_def split: if_splits list.splits option.splits run_end.splits)

lemma reload_step: "reload_ok p \<Longrightarrow> pstep p l = Some p' \<Longrightarrow> reload_ok p'"
  by (cases l) (auto simp: reload_ok_def pstep_def step_defs startRun_def split: if_splits list.splits option.splits run_end.splits)

lemma cancel_step: "cancel_ok p \<Longrightarrow> pstep p l = Some p' \<Longrightarrow> cancel_ok p'"
  by (cases l) (auto simp: cancel_ok_def pstep_def step_defs startRun_def split: if_splits list.splits option.splits run_end.splits)

text \<open>The steps that end a run, and the others.\<close>

lemma inner_step:
  assumes "bridge_ok p" "pstep p l = Some p'" "l \<noteq> RunReturns" "l \<noteq> LoopChecks"
  shows "phase p' = phase p" "pruns p' = pruns p" "pcfg p' = pcfg p" "pending p' @ cfgCh p' = pending p @ cfgCh p @ sent [l]"
proof -
  show "phase p' = phase p" "pruns p' = pruns p" "pcfg p' = pcfg p"
    using assms(2-4) by (cases l; auto simp: pstep_def step_defs split: if_splits list.splits)+
  show "pending p' @ cfgCh p' = pending p @ cfgCh p @ sent [l]"
    using assms by (cases l) (auto simp: pstep_def step_defs pending_def bridge_ok_def split: if_splits list.splits)
qed

lemma history_step:
  assumes "bridge_ok p" "reload_ok p" "history_ok cfg tr p" "pstep p l = Some p'"
  shows "history_ok cfg (tr @ [l]) p'"
proof -
  have live: "\<not> is_exited p" using assms(4) by (auto simp: pstep_def split: if_splits)
  then have run: "exitOf (phase p) = Running" by (cases "phase p") (auto simp: is_exited_def)
  obtain cs where cs: "mainLoop cfg (pruns p) = (cs @ [pcfg p], Running)" "list_all is_reload (pruns p)"
      "sent tr = reloadedWith (pruns p) @ pending p @ cfgCh p"
    using assms(3) live run by (auto simp: history_ok_def)
  have snoc: "mainLoop cfg (pruns p @ [r]) = (case r of RunFailed \<Rightarrow> (cs @ [pcfg p], Fatal) | RunDone \<Rightarrow> (cs @ [pcfg p], Clean)
       | ReloadConfig c' \<Rightarrow> (cs @ [pcfg p, c'], Running) | ReloadCert \<Rightarrow> (cs @ [pcfg p, pcfg p], Running))" for r
    using mainLoop_snoc [OF cs(2), of cfg r] cs(1) by auto
  consider (returns) "l = RunReturns" | (checks) "l = LoopChecks" | (inner) "l \<noteq> RunReturns" "l \<noteq> LoopChecks" by blast
  then show ?thesis
  proof cases
    case returns
    then show ?thesis using assms(4) live cs snoc [of RunFailed]
      by (auto simp: pstep_def runReturns_def history_ok_def pending_def is_exited_def split: if_splits option.splits)
  next
    case checks
    have r: "is_reload r" if "reloadCh p = Some r" for r using assms(2) that by (simp add: reload_ok_def)
    show ?thesis
    proof (cases "reloadCh p")
      case None
      then show ?thesis using assms(4) live cs snoc [of RunDone] checks
        by (auto simp: pstep_def loopChecks_def history_ok_def pending_def is_exited_def split: if_splits)
    next
      case (Some r)
      then show ?thesis using assms(4) live cs snoc [of r] checks r [OF Some]
        by (cases r) (auto simp: pstep_def loopChecks_def history_ok_def pending_def is_exited_def startRun_def split: if_splits)
    qed
  next
    case inner
    then show ?thesis using inner_step [OF assms(1,4) inner] cs live run by (simp add: history_ok_def is_exited_def)
  qed
qed

lemma process_ok:
  assumes "process_run cert pat cfg tr p" shows "joined p" "bridge_ok p" "reload_ok p" "cancel_ok p" "history_ok cfg tr p"
proof -
  have "joined p \<and> bridge_ok p \<and> reload_ok p \<and> cancel_ok p \<and> history_ok cfg tr p"
    using assms
  proof induction
    case (begins cert pat cfg)
    show ?case
      by (simp add: joined_def bridge_ok_def reload_ok_def cancel_ok_def history_ok_def startRun_def pending_def)
  next
    case (steps cert pat cfg tr p l p')
    then show ?case
      using joined_step [of p l p'] bridge_step [of p l p'] reload_step [of p l p'] cancel_step [of p l p'] history_step [of p cfg tr l p'] by simp
  qed
  then show "joined p" "bridge_ok p" "reload_ok p" "cancel_ok p" "history_ok cfg tr p" by simp_all
qed

subsection \<open>\<open>Run\<close> returns\<close>

text \<open>What the goroutines of one run still have to do.\<close>

fun one :: "bool \<Rightarrow> nat" where
  "one True = 1"
| "one False = 0"

definition toDo :: "'c process \<Rightarrow> nat" where
  "toDo p = one (signalAlive p) + one (cancelAlive p) + one (healthAlive p) + one (metricsAlive p) + one (bridgeAlive p) +
     one (\<not> ctxDone p) + one (mainRet p = None) + one (phase p = InRun)"

text \<open>The labels of one run: neither the watch nor the end of the loop.\<close>

definition inRun :: "'c label \<Rightarrow> bool" where
  "inRun l \<longleftrightarrow> (case l of WatchSends c \<Rightarrow> False | LoopChecks \<Rightarrow> False | _ \<Rightarrow> True)"

lemma toDo_step: "pstep p l = Some p' \<Longrightarrow> inRun l \<Longrightarrow> toDo p' < toDo p"
  by (cases l) (clarsimp simp: inRun_def toDo_def pstep_def step_defs split: if_splits list.splits option.splits)+

lemma toDo_steps: "psteps p ls = Some p' \<Longrightarrow> list_all inRun ls \<Longrightarrow> length ls + toDo p' \<le> toDo p"
proof (induction ls arbitrary: p)
  case (Cons l ls)
  then obtain p1 where "pstep p l = Some p1" "psteps p1 ls = Some p'" by (auto split: bind_splits)
  then show ?case using Cons.IH [of p1] Cons.prems toDo_step [of p l p1] by simp
qed simp

lemma toDo_bound: "toDo p \<le> 8"
proof -
  have "one b \<le> 1" for b by (cases b) simp_all
  from this [of "signalAlive p"] this [of "cancelAlive p"] this [of "healthAlive p"] this [of "metricsAlive p"] this [of "bridgeAlive p"]
    this [of "\<not> ctxDone p"] this [of "mainRet p = None"] this [of "phase p = InRun"] show ?thesis unfolding toDo_def by linarith
qed

lemma run_progress:
  assumes "phase p = InRun" "mainRet p \<noteq> None" shows "\<exists>l p'. inRun l \<and> pstep p l = Some p'"
proof -
  consider "\<not> ctxDone p" | "ctxDone p" "signalAlive p" | "ctxDone p" "cancelAlive p" | "ctxDone p" "healthAlive p" | "ctxDone p" "metricsAlive p"
    | "ctxDone p" "allEnded p" by (auto simp: allEnded_def)
  then show ?thesis
  proof cases
    case 1 then show ?thesis using assms by (intro exI [of _ RunCancels]) (auto simp: inRun_def pstep_def is_exited_def runCancels_def)
  next
    case 2 then show ?thesis using assms by (intro exI [of _ SignalStops]) (auto simp: inRun_def pstep_def is_exited_def signalStops_def)
  next
    case 3 then show ?thesis using assms by (intro exI [of _ CancelStops]) (auto simp: inRun_def pstep_def is_exited_def cancelStops_def)
  next
    case 4 then show ?thesis using assms by (intro exI [of _ HealthStops]) (auto simp: inRun_def pstep_def is_exited_def healthStops_def)
  next
    case 5 then show ?thesis using assms by (intro exI [of _ MetricsStops]) (auto simp: inRun_def pstep_def is_exited_def metricsStops_def)
  next
    case 6 then show ?thesis using assms by (intro exI [of _ RunReturns]) (auto simp: inRun_def pstep_def is_exited_def runReturns_def)
  qed
qed

lemma mainRet_kept: "pstep p l = Some p' \<Longrightarrow> inRun l \<Longrightarrow> mainRet p \<noteq> None \<Longrightarrow> mainRet p' \<noteq> None"
  by (cases l) (auto simp: inRun_def pstep_def step_defs split: if_splits list.splits)

lemma run_ends: "mainRet p \<noteq> None \<Longrightarrow> \<exists>ls p'. list_all inRun ls \<and> psteps p ls = Some p' \<and> phase p' \<noteq> InRun"
proof (induction "toDo p" arbitrary: p rule: less_induct)
  case less
  show ?case
  proof (cases "phase p = InRun")
    case True
    then obtain l p1 where s: "inRun l" "pstep p l = Some p1" using run_progress less.prems by blast
    obtain ls p' where "list_all inRun ls \<and> psteps p1 ls = Some p' \<and> phase p' \<noteq> InRun"
      using less.hyps [OF toDo_step [OF s(2,1)]] mainRet_kept [OF s(2,1) less.prems] by blast
    then show ?thesis using s by (intro exI [of _ "l # ls"] exI [of _ p']) simp
  next
    case False
    then show ?thesis by (intro exI [of _ "[]"]) simp
  qed
qed

subsection \<open>Properties\<close>


text \<open>C19: \<open>Run\<close> returns once \<open>MainLoop\<close> has. Whatever the goroutines do, one run takes at most eight steps, so it cannot go on for ever;
  as long as it has not returned, either \<open>MainLoop\<close> is still running or some goroutine can take a step; and from every state in
  which \<open>MainLoop\<close> has returned there are steps that end the run.\<close>

theorem Run_returns:
  assumes "process_run cert pat cfg tr p" "psteps p ls = Some p'" "list_all inRun ls"
  shows "length ls \<le> 8 \<and> (phase p' \<noteq> InRun \<or> mainRet p' = None \<or> (\<exists>l p''. inRun l \<and> pstep p' l = Some p'')) \<and>
    (mainRet p' = None \<or> (\<exists>ls' p''. list_all inRun ls' \<and> psteps p' ls' = Some p'' \<and> phase p'' \<noteq> InRun))"
proof (intro conjI)
  show "length ls \<le> 8" using toDo_steps [OF assms(2,3)] toDo_bound [of p] by simp
  show "phase p' \<noteq> InRun \<or> mainRet p' = None \<or> (\<exists>l p''. inRun l \<and> pstep p' l = Some p'')" using run_progress [of p'] by blast
  show "mainRet p' = None \<or> (\<exists>ls' p''. list_all inRun ls' \<and> psteps p' ls' = Some p'' \<and> phase p'' \<noteq> InRun)" using run_ends [of p'] by blast
qed

text \<open>What ends a run other than a reload.\<close>

definition disturbance :: "'c label \<Rightarrow> bool" where
  "disturbance l \<longleftrightarrow> (case l of SignalArrives \<Rightarrow> True | HealthFails \<Rightarrow> True | MetricsFails \<Rightarrow> True | _ \<Rightarrow> False)"

definition caused :: "'c process \<Rightarrow> bool" where
  "caused p \<longleftrightarrow> (ctxDone p \<longrightarrow> cancelClosed p \<or> mainRet p = Some True)"

definition asked :: "'c process \<Rightarrow> bool" where
  "asked p \<longleftrightarrow> (mainRet p = Some False \<longrightarrow> cancelClosed p)"

definition returned_nil :: "'c process \<Rightarrow> bool" where
  "returned_nil p \<longleftrightarrow> (phase p = AfterRun \<longrightarrow> mainRet p = Some False)"

lemma caused_step: "caused p \<Longrightarrow> asked p \<Longrightarrow> pstep p l = Some p' \<Longrightarrow> \<not> disturbance l \<Longrightarrow> caused p'"
  by (cases l) (auto simp: caused_def asked_def disturbance_def pstep_def step_defs startRun_def split: if_splits list.splits option.splits run_end.splits)

lemma asked_step: "asked p \<Longrightarrow> caused p \<Longrightarrow> patient p \<Longrightarrow> pstep p l = Some p' \<Longrightarrow> asked p'"
  by (cases l) (auto simp: caused_def asked_def pstep_def step_defs startRun_def split: if_splits list.splits option.splits run_end.splits)

lemma returned_nil_step: "returned_nil p \<Longrightarrow> pstep p l = Some p' \<Longrightarrow> returned_nil p'"
  by (cases l) (auto simp: returned_nil_def pstep_def step_defs startRun_def split: if_splits list.splits option.splits run_end.splits)

lemma patient_step: "pstep p l = Some p' \<Longrightarrow> patient p' = patient p"
  by (cases l) (auto simp: pstep_def step_defs startRun_def split: if_splits list.splits option.splits run_end.splits)

lemma clean_step:
  assumes "phase p \<noteq> Exited Clean" "asked p" "returned_nil p" "cancel_ok p" "pstep p l = Some p'" shows "phase p' \<noteq> Exited Clean"
proof (cases "l = LoopChecks")
  case True
  then show ?thesis
    using assms by (auto simp: asked_def returned_nil_def cancel_ok_def pstep_def loopChecks_def startRun_def split: if_splits option.splits run_end.splits)
next
  case False
  then show ?thesis using assms(1,5) by (cases l) (auto simp: pstep_def step_defs split: if_splits list.splits option.splits)
qed

text \<open>A reload alone never ends the process: in every run without a signal and without a failing server, with configurations
  arriving at any time, a service whose \<open>MainLoop\<close> returns without an error only when its context is done is always started again.\<close>

theorem reload_never_ends:
  assumes "process_run cert True cfg tr p" "list_all (\<lambda>l. \<not> disturbance l) tr"
  shows "phase p \<noteq> Exited Clean"
proof -
  have "patient p \<and> caused p \<and> asked p \<and> returned_nil p \<and> phase p \<noteq> Exited Clean" using assms
  proof (induction tr arbitrary: p rule: rev_induct)
    case Nil
    then have "p = startRun cert True cfg [] []" by (auto elim: process_run.cases)
    then show ?case by (simp add: startRun_def caused_def asked_def returned_nil_def)
  next
    case (snoc l tr)
    from snoc.prems(1) obtain p1 where r: "process_run cert True cfg tr p1" "pstep p1 l = Some p" by (auto elim: process_run.cases)
    have "patient p1 \<and> caused p1 \<and> asked p1 \<and> returned_nil p1 \<and> phase p1 \<noteq> Exited Clean" using snoc.IH [OF r(1)] snoc.prems(2) by simp
    then show ?case
      using caused_step [of p1 l p] asked_step [of p1 l p] returned_nil_step [of p1 l p] patient_step [of p1 l p] clean_step [of p1 l p]
        process_ok(4) [OF r(1)] r(2) snoc.prems(2) by simp
  qed
  then show ?thesis by simp
qed

text \<open>A termination signal can be lost. If a changed configuration arrives while \<open>Run\<close> is shutting down because of the signal, the bridge takes
  it, the end of the loop finds the reload and starts the service again; nothing is left of the signal.\<close>

definition lost_signal :: "nat label list" where
  "lost_signal = [SignalArrives, WatchSends 1, BridgeTakesConfig, MainReturns False, CancelStops, HealthStops, MetricsStops, RunReturns, LoopChecks]"

theorem signal_lost:
  "\<exists>p. psteps (startRun False True 0 [] []) lost_signal = Some p \<and> phase p = InRun \<and> \<not> ctxDone p \<and> pcfg p = 1"
  by (simp add: lost_signal_def pstep_def is_exited_def step_defs allEnded_def startRun_def)

subsection \<open>Examples\<close>

lemma runs_psteps: "process_run cert pat cfg tr p \<Longrightarrow> psteps p ls = Some p' \<Longrightarrow> process_run cert pat cfg (tr @ ls) p'"
proof (induction ls arbitrary: tr p)
  case (Cons l ls)
  then obtain p1 where "pstep p l = Some p1" "psteps p1 ls = Some p'" by (auto split: bind_splits)
  with Cons.IH [of "tr @ [l]" p1] process_run.steps [OF Cons.prems(1)] show ?case by simp
qed simp

definition reload_trace :: "nat label list" where
  "reload_trace = [WatchSends 1, BridgeTakesConfig, WatchSends 2, CancelSeen, SignalStops, MainReturns False, HealthStops, MetricsStops, RunReturns, LoopChecks]"

lemma reload_trace_runs:
  obtains p where "psteps (startRun False True 0 [] []) reload_trace = Some p" "pruns p = [ReloadConfig 1]" "cfgCh p = [2]" "pcfg p = 1" "phase p = InRun" "reloadCh p = None"
  by (rule that [of "startRun False True 1 [2] [ReloadConfig 1]"])
    (simp_all add: reload_trace_def pstep_def is_exited_def step_defs allEnded_def startRun_def)


theorem Run_returns_witness:
  "length [MainReturns False, RunCancels, SignalStops :: nat label] \<le> 8 \<and>
   (\<exists>p ls' p''. psteps (startRun False False (0 :: nat) [] []) [MainReturns False, RunCancels, SignalStops] = Some p \<and>
     psteps p ls' = Some p'' \<and> phase p'' \<noteq> InRun)"
proof -
  let ?ls = "[MainReturns False, RunCancels, SignalStops :: nat label]"
  obtain p where p: "psteps (startRun False False 0 [] []) ?ls = Some p" "mainRet p = Some False"
    by (simp add: pstep_def is_exited_def mainReturns_def runCancels_def signalStops_def startRun_def)
  have "list_all inRun ?ls" by (simp add: inRun_def)
  from Run_returns [OF process_run.begins p(1) this] p(2) obtain ls' p'' where "length ?ls \<le> 8" "psteps p ls' = Some p''" "phase p'' \<noteq> InRun" by auto
  with p(1) show ?thesis by (intro conjI exI)
qed

theorem reload_never_ends_witness: "\<exists>p. process_run False True (0 :: nat) reload_trace p \<and> phase p \<noteq> Exited Clean"
proof (rule reload_trace_runs)
  fix p assume p: "psteps (startRun False True 0 [] []) reload_trace = Some p"
  have r: "process_run False True 0 reload_trace p" using runs_psteps [OF process_run.begins p] by simp
  have "list_all (\<lambda>l. \<not> disturbance l) reload_trace" by (simp add: reload_trace_def disturbance_def)
  from r reload_never_ends [OF r this] show ?thesis by blast
qed

end
