(* ===== verification/Services.thy ===== *)
theory Services
  imports Master_Loop Router Process
begin

text \<open>
  The services as \<open>runtime.Run\<close> sees them: the probes of \<^verbatim>\<open>internal/runtime/status.go\<close> over the \<open>Healthy\<close> and \<open>Ready\<close> methods, and the \<open>MainLoop\<close> of the slave
  (\<^verbatim>\<open>internal/slave/slave.go\<close>), the router (\<^verbatim>\<open>internal/router/router.go\<close>, with the wait for the certificate of \<^verbatim>\<open>doh.go\<close> and \<^verbatim>\<open>dot.go\<close>) and the UPDATE gateway
  (\<^verbatim>\<open>internal/rfc2136/server.go\<close>). The master's is the loop of \<open>Master_Loop\<close>.

  Whether a listener can be opened is a parameter; what the \<open>select\<close> of a loop receives is a list of events. The handlers that the
  listeners call are those of \<open>Slave_DNS\<close>, \<open>Slave_Sync\<close>, \<open>Router\<close> and \<open>Update_Gateway\<close>.
\<close>

subsection \<open>Probes\<close>

definition Slave_Healthy :: StatusMessage where "Slave_Healthy = StatusOK (lit ''healthy'')"

definition Slave_ReadyStatus :: "Slave \<Rightarrow> StatusMessage" where
  "Slave_ReadyStatus s = (if \<not> ready s then StatusNotReady (lit ''no database yet'') else StatusOK (lit ''ready''))"

definition Master_ReadyStatus :: "Master \<Rightarrow> StatusMessage" where
  "Master_ReadyStatus ms = (if mCurrent ms = None then StatusNotReady (lit ''no database yet'') else StatusOK (lit ''ready''))"

definition Gateway_ReadyStatus :: "'w Gateway \<Rightarrow> StatusMessage" where
  "Gateway_ReadyStatus g = (if \<not> tsigLoaded g then StatusNotReady (lit ''TSIG key not loaded'') else StatusOK (lit ''ready''))"

text \<open>The status code and the body for a path; the mux answers 404 for other paths.\<close>

definition newHealthServer :: "StatusMessage \<Rightarrow> StatusMessage \<Rightarrow> gostring \<Rightarrow> nat \<times> gostring" where
  "newHealthServer healthy readiness path =
     (if path = lit ''/health'' then WriteStatus healthy
      else if path = lit ''/ready'' then WriteStatus readiness
      else (404, lit ''404 page not found'' @ [10]))"

text \<open>The metrics page of \<open>runtime/metrics.go\<close>.\<close>

definition newMetricsServer :: "gostring list \<Rightarrow> gostring \<Rightarrow> nat \<times> gostring" where
  "newMetricsServer lines path =
     (if path = lit ''/metrics'' then (200, Join [10] lines @ [10]) else (404, lit ''404 page not found'' @ [10]))"

subsection \<open>The slave\<close>

record listeners =
  listenUDP :: "gostring \<Rightarrow> bool"
  listenTCP :: "gostring \<Rightarrow> bool"

datatype service_error = InitialPoll sync_error | ListenUDP gostring | ListenTCP gostring | LoadTSIGKey gateway_error | ServeFailed

datatype main_result = Failed service_error | Returned | Serving

definition FormatInt :: "int \<Rightarrow> gostring" where
  "FormatInt i = (if i < 0 then lit ''-'' @ FormatNat (nat (- i)) else FormatNat (nat i))"

definition slaveAddr :: "Slave \<Rightarrow> gostring" where
  "slaveAddr s =
     (let listenPort = slaveListenPort (cfgSlave (slaveCfg s)) in lit '':'' @ FormatInt (if listenPort = 0 then 5353 else listenPort))"

datatype slave_event = CtxDone | PollTick maporder io_faults "nat \<Rightarrow> attempt"

fun slaveLoop :: "(dbWire \<Rightarrow> bytes option) \<Rightarrow> (bytes \<Rightarrow> dbWire option) \<Rightarrow> Slave \<Rightarrow> filesystem \<Rightarrow> slave_event list \<Rightarrow> main_result \<times> Slave \<times> filesystem" where
  "slaveLoop enc dec s fs [] = (Serving, s, fs)"
| "slaveLoop enc dec s fs (CtxDone # es) = (Returned, s, fs)"
| "slaveLoop enc dec s fs (PollTick ord io attempts # es) =
     (let (err, s', fss) = poll enc dec ord io attempts s fs in slaveLoop enc dec s' (last fss) es)"

text \<open>\<open>None\<close> is the panic of \<open>time.NewTicker\<close>.\<close>

definition Slave_MainLoop ::
  "(dbWire \<Rightarrow> bytes option) \<Rightarrow> (bytes \<Rightarrow> dbWire option) \<Rightarrow> maporder \<Rightarrow> io_faults \<Rightarrow> bool \<Rightarrow> (nat \<Rightarrow> attempt) \<Rightarrow> listeners \<Rightarrow>
    (gostring \<Rightarrow> duration option) \<Rightarrow> Slave \<Rightarrow> filesystem \<Rightarrow> slave_event list \<Rightarrow> (main_result \<times> Slave \<times> filesystem) go" where
  "Slave_MainLoop enc dec ord io readable attempts lns parseDuration s fs es =
     (case startUp enc dec ord io readable attempts s fs of
        Inl err \<Rightarrow> Some (Failed (InitialPoll err), s, fs)
      | Inr (s1, fss) \<Rightarrow>
          (let listenAddr = slaveAddr s1
           in if \<not> listenUDP lns listenAddr then Some (Failed (ListenUDP listenAddr), s1, last fss)
              else if \<not> listenTCP lns listenAddr then Some (Failed (ListenTCP listenAddr), s1, last fss)
              else do { ticker \<leftarrow> pollTicker parseDuration s1; Some (slaveLoop enc dec s1 (last fss) es) }))"

subsection \<open>The router\<close>

definition forwardTimeout :: "(gostring \<Rightarrow> duration option) \<Rightarrow> DNSConfigSpec \<Rightarrow> duration" where
  "forwardTimeout parseDuration cfg =
     (let t = Config.ForwardTimeout (cfgRouter cfg)
      in if t \<noteq> [] then (case parseDuration t of Some d \<Rightarrow> d | None \<Rightarrow> 2 * 10 ^ 9) else 2 * 10 ^ 9)"

definition routerAddr :: "DNSConfigSpec \<Rightarrow> gostring" where
  "routerAddr cfg = (let listenPort = routerListenPort (cfgRouter cfg) in lit '':'' @ FormatInt (if listenPort = 0 then 5353 else listenPort))"

text \<open>\<open>ctxEnds\<close>: the context is cancelled at some time.\<close>

definition Router_MainLoop :: "listeners \<Rightarrow> DNSConfigSpec \<Rightarrow> bool \<Rightarrow> main_result" where
  "Router_MainLoop lns cfg ctxEnds =
     (let listenAddr = routerAddr cfg
      in if \<not> listenUDP lns listenAddr then Failed (ListenUDP listenAddr)
         else if \<not> listenTCP lns listenAddr then Failed (ListenTCP listenAddr)
         else if ctxEnds then Returned else Serving)"

text \<open>\<open>serveDoH\<close> and \<open>serveDoT\<close> wait for the certificate: it is loaded again every ten seconds. A tick carries the result of \<open>loadTLS\<close>,
  which keeps a configuration that is loaded.\<close>

datatype tls_event = TLSCtxDone | TLSTick bool
datatype tls_wait = TLSReady | TLSCancelled | TLSWaiting

fun waitTLS :: "bool \<Rightarrow> tls_event list \<Rightarrow> tls_wait" where
  "waitTLS True es = TLSReady"
| "waitTLS False [] = TLSWaiting"
| "waitTLS False (TLSCtxDone # es) = TLSCancelled"
| "waitTLS False (TLSTick loaded # es) = waitTLS loaded es"

definition dohAddr :: "DNSConfigSpec \<Rightarrow> gostring" where
  "dohAddr cfg = (let dohPort = DoHPort (cfgRouter cfg) in lit '':'' @ FormatInt (if dohPort = 0 then 8443 else dohPort))"

definition dotAddr :: "DNSConfigSpec \<Rightarrow> gostring" where
  "dotAddr cfg = (let dotPort = DoTPort (cfgRouter cfg) in lit '':'' @ FormatInt (if dotPort = 0 then 8853 else dotPort))"

text \<open>The address that the DoT front end listens on in the end, if it does.\<close>

definition serveDoT :: "listeners \<Rightarrow> DNSConfigSpec \<Rightarrow> bool \<Rightarrow> tls_event list \<Rightarrow> gostring option" where
  "serveDoT lns cfg loaded es =
     (if waitTLS loaded es = TLSReady \<and> listenTCP lns (dotAddr cfg) then Some (dotAddr cfg) else None)"

definition serveDoH :: "listeners \<Rightarrow> DNSConfigSpec \<Rightarrow> bool \<Rightarrow> tls_event list \<Rightarrow> gostring option" where
  "serveDoH lns cfg loaded es =
     (if waitTLS loaded es = TLSReady \<and> listenTCP lns (dohAddr cfg) then Some (dohAddr cfg) else None)"

subsection \<open>The UPDATE gateway\<close>

text \<open>What the final \<open>select\<close> receives first: the end of the context, or the error of a listener while the context is not done. The
  goroutines return nil only when the context is done.\<close>

datatype gateway_event = GatewayCtxDone | ListenerFails

definition gatewaySelect :: "gateway_event list \<Rightarrow> main_result" where
  "gatewaySelect es = (case es of [] \<Rightarrow> Serving | GatewayCtxDone # _ \<Rightarrow> Returned | ListenerFails # _ \<Rightarrow> Failed ServeFailed)"

definition Gateway_MainLoop :: "secret_api \<Rightarrow> listeners \<Rightarrow> 'w Gateway \<Rightarrow> gateway_event list \<Rightarrow> main_result \<times> 'w Gateway" where
  "Gateway_MainLoop api lns g es =
     (case loadTSIGKey api g of
        (Some err, g') \<Rightarrow> (Failed (LoadTSIGKey err), g')
      | (None, g') \<Rightarrow>
          (let addr = lit '':'' @ FormatInt (gatewayPort g')
           in if \<not> listenUDP lns addr then (Failed (ListenUDP addr), g')
              else if \<not> listenTCP lns addr then (Failed (ListenTCP addr), g')
              else (gatewaySelect es, g')))"

subsection \<open>The commands\<close>

text \<open>Each \<open>main\<close> up to the start of its service: the namespace, the log level, the client, the configuration and the checks of
  that command.\<close>

definition slave_start ::
  "unilower \<Rightarrow> (gostring \<Rightarrow> gostring) \<Rightarrow> (gostring \<Rightarrow> duration option) \<Rightarrow> k8s_lib \<Rightarrow> (bytes \<Rightarrow> DNSConfigSpec Object option) \<Rightarrow>
    'w Client option \<Rightarrow> 'w \<Rightarrow> ((start_error + DNSConfigSpec) \<times> 'w) option" where
  "slave_start uni getenv parseDuration lib dec newClient w = start uni getenv parseDuration lib dec newClient SlaveService w"

definition router_start ::
  "unilower \<Rightarrow> (gostring \<Rightarrow> gostring) \<Rightarrow> (gostring \<Rightarrow> duration option) \<Rightarrow> k8s_lib \<Rightarrow> (bytes \<Rightarrow> DNSConfigSpec Object option) \<Rightarrow>
    'w Client option \<Rightarrow> 'w \<Rightarrow> ((start_error + DNSConfigSpec) \<times> 'w) option" where
  "router_start uni getenv parseDuration lib dec newClient w = start uni getenv parseDuration lib dec newClient RouterService w"

definition rfc2136_start ::
  "unilower \<Rightarrow> (gostring \<Rightarrow> gostring) \<Rightarrow> (gostring \<Rightarrow> duration option) \<Rightarrow> k8s_lib \<Rightarrow> (bytes \<Rightarrow> DNSConfigSpec Object option) \<Rightarrow>
    'w Client option \<Rightarrow> 'w \<Rightarrow> ((start_error + DNSConfigSpec) \<times> 'w) option" where
  "rfc2136_start uni getenv parseDuration lib dec newClient w = start uni getenv parseDuration lib dec newClient UpdateService w"

text \<open>What the checks at the start buy: the configured intervals of a service that has started are those it runs with, and the
  gateway does not fail for a missing name of its secret.\<close>

lemma slave_started_interval:
  assumes "slave_start uni getenv parseDuration lib dec newClient w = Some (Inr cfg, w')" "PollInterval (cfgSlave cfg) \<noteq> []"
  shows "\<exists>d. parseDuration (PollInterval (cfgSlave cfg)) = Some d \<and> pollTicker parseDuration (NewSlave cfg) = NewTicker d"
proof -
  have "checkConfig parseDuration SlaveService cfg = None" using start_only_checked [OF assms(1) [unfolded slave_start_def]] by blast
  then show ?thesis using assms(2) by (auto simp: check_defs pollTicker_def NewSlave_def split: if_splits)
qed

lemma router_started_timeout:
  assumes "router_start uni getenv parseDuration lib dec newClient w = Some (Inr cfg, w')" "Config.ForwardTimeout (cfgRouter cfg) \<noteq> []"
  shows "parseDuration (Config.ForwardTimeout (cfgRouter cfg)) = Some (forwardTimeout parseDuration cfg)"
proof -
  have "checkConfig parseDuration RouterService cfg = None" using start_only_checked [OF assms(1) [unfolded router_start_def]] by blast
  then show ?thesis using assms(2) by (auto simp: check_defs forwardTimeout_def split: if_splits)
qed

lemma gateway_started_secret:
  assumes "rfc2136_start uni getenv parseDuration lib dec newClient w = Some (Inr cfg, w')"
  shows "fst (loadTSIGKey api (NewGateway cfg namespace c)) \<noteq> Some TSIGSecretNotConfigured"
proof -
  have "checkConfig parseDuration UpdateService cfg = None" using start_only_checked [OF assms [unfolded rfc2136_start_def]] by blast
  then show ?thesis by (auto simp: check_defs loadTSIGKey_def NewGateway_def Let_def split: if_splits sum.splits option.splits)
qed

subsection \<open>Properties\<close>

lemma slaveLoop_reachable:
  "slave_reachable enc dec cfg s fs \<Longrightarrow> slaveLoop enc dec s fs es = (r, s', fs') \<Longrightarrow>
     slave_reachable enc dec cfg s' fs' \<and> (r = Serving \<or> r = Returned \<and> CtxDone \<in> set es)"
proof (induction es arbitrary: s fs)
  case (Cons e es)
  show ?case
  proof (cases e)
    case (PollTick ord io attempts)
    obtain err s1 fss where p: "poll enc dec ord io attempts s fs = (err, s1, fss)" by (metis prod_cases3)
    have "slave_reachable enc dec cfg s1 (last fss)" by (rule slave_reachable.polled [OF Cons.prems(1) p])
    then show ?thesis using Cons.IH [of s1 "last fss"] Cons.prems(2) p PollTick by auto
  qed (use Cons.prems in auto)
qed auto


text \<open>The other main loops are patient too.\<close>

theorem MainLoop_patient:
  "Router_MainLoop lns cfg ctxEnds = Returned \<Longrightarrow> ctxEnds"
  "Gateway_MainLoop api lns g es = (Returned, g') \<Longrightarrow> GatewayCtxDone \<in> set es \<and> GatewayReady g'"
  by (auto simp: Router_MainLoop_def Gateway_MainLoop_def gatewaySelect_def GatewayReady_def loadTSIGKey_def Let_def
      split: if_splits prod.splits option.splits list.splits gateway_event.splits sum.splits)

text \<open>The encrypted front ends start with the first successful load of the certificate.\<close>

theorem serveDoT_starts:
  "serveDoT lns cfg loaded es = Some a \<longleftrightarrow> a = dotAddr cfg \<and> listenTCP lns a \<and>
     (loaded \<or> (\<exists>n es'. es = replicate n (TLSTick False) @ TLSTick True # es'))"
proof -
  have "waitTLS l es = TLSReady \<longleftrightarrow> l \<or> (\<exists>n es'. es = replicate n (TLSTick False) @ TLSTick True # es')" for l
  proof (induction l es rule: waitTLS.induct)
    case (4 loaded es)
    have "(\<exists>n es'. TLSTick loaded # es = replicate n (TLSTick False) @ TLSTick True # es') \<longleftrightarrow>
        loaded \<or> (\<exists>n es'. es = replicate n (TLSTick False) @ TLSTick True # es')" (is "?l \<longleftrightarrow> ?r")
    proof
      assume ?l
      then obtain n es' where "TLSTick loaded # es = replicate n (TLSTick False) @ TLSTick True # es'" by blast
      then show ?r by (cases n) auto
    next
      assume ?r
      then show ?l
      proof
        assume loaded
        then show ?l by (intro exI [of _ 0]) simp
      next
        assume "\<exists>n es'. es = replicate n (TLSTick False) @ TLSTick True # es'"
        then obtain n es' where e: "es = replicate n (TLSTick False) @ TLSTick True # es'" by blast
        show ?l
        proof (cases loaded)
          case True
          then show ?l by (intro exI [of _ 0]) simp
        next
          case False
          then show ?l using e by (intro exI [of _ "Suc n"]) simp
        qed
      qed
    qed
    then show ?case using 4 by simp
  next
    case (3 es)
    have "TLSCtxDone # es \<noteq> replicate n (TLSTick False) @ TLSTick True # es'" for n es' by (cases n) auto
    then show ?case by simp
  qed simp_all
  then show ?thesis by (auto simp: serveDoT_def)
qed

subsection \<open>Examples\<close>


end
