(* ===== verification/Spec2Isabelle.thy ===== *)
theory Spec2Isabelle
  imports RR_Parse Sanity Slave_Sync Rate_Limit Router Update_Gateway Master_Loop Metrics Cluster Commands Publish Logging Services
begin

text \<open>
  A verification development for xfx1-dns, an authoritative DNS server that keeps its zone in
  Kubernetes resources. All paths below are relative to \<^verbatim>\<open>src/internal\<close> unless they begin with \<^verbatim>\<open>cmd\<close>.

  \<^bold>\<open>The program\<close>

  Four services share one set of packages.

  \<^item> The \<^emph>\<open>master\<close> lists the DNSRecord resources of a namespace through the Kubernetes API, builds a zone database
    from them, checks it, signs it, and pushes it to the slaves; a watch of the resources, a debouncer, a retry
    timer and a periodic timer decide when it does so.
  \<^item> A \<^emph>\<open>slave\<close> receives databases by push or poll, keeps a snapshot on disk and answers queries over UDP and TCP.
  \<^item> The \<^emph>\<open>router\<close> faces the clients (UDP, TCP, TLS, HTTPS), limits rates and connections and forwards to the slaves.
  \<^item> The \<^emph>\<open>gateway\<close> accepts DNS UPDATE messages with TSIG signatures and turns them into changes of the resources.

  The bytes of a query go through the router to a slave; the bytes of an update go through the gateway into the
  API, whose events reach the master, whose database reaches the slaves. The development follows these two
  paths and joins the models at each step: \<open>Router\<close> uses the slave's \<open>handleDNS\<close>, \<open>Master\<close> hands its database to
  the slave's \<open>UnmarshalJSON\<close>, \<open>Publish\<close> follows a rebuild through the JSON text into the slave, \<open>Cluster\<close> joins gateway and master to the HTTP
  client, and \<open>Process\<close> and \<open>Services\<close> put the main loops into the process that restarts them.

  \<^bold>\<open>Theories and what they model\<close>

  \<^item> \<open>Go_Base\<close>: the prelude. Bytes, strings, checked accesses (a panic is \<open>None\<close>), maps as association lists, the
    functions of Go's standard library that the program calls, the simplification collections \<open>wire_simps\<close> and
    \<open>go_simps\<close>, and the locale \<open>three_way\<close> of comparison functions. \<open>Base32_Hex\<close> and \<open>Base64\<close>: the encodings, with round trips.
    \<open>IP_Addr\<close> and \<open>IP_Parse\<close>: the package \<open>net\<close> as far as it is used, and \<^verbatim>\<open>ratelimit/prefix.go\<close>.
  \<^item> \<open>Domain_Name\<close> (\<^verbatim>\<open>rec/domain.go\<close>), \<open>RR_Types\<close> (\<^verbatim>\<open>rec/rr*.go\<close>), \<open>RR_Parse\<close> (\<^verbatim>\<open>rec/parse.go\<close>): names, records and their wire form.
    Validation, canonical order, the record data read back, and that parsing always returns. The locale \<open>name_reader\<close> states
    what a reader of names promises; the three readers of the program interpret it.
  \<^item> \<open>Zone_DB\<close> (\<^verbatim>\<open>db/db.go\<close>, \<^verbatim>\<open>db/stat.go\<close>), \<open>Sanity\<close> (\<^verbatim>\<open>db/sanity.go\<close>): the indexes (locale \<open>record_index\<close>, one interpretation for each
    index), lookups, wildcards, the JSON value, and the nine checks, which decide the declarative \<open>sane_zone\<close>.
  \<^item> \<open>IP_Text\<close>, \<open>JSON_Text\<close>: the text form of addresses and the parts of \<open>encoding/json\<close> that the program uses (UTF-8, string escapes, tokens, a reader
    with its nesting limit, which reads what the writer writes). \<open>RR_JSON\<close> (\<^verbatim>\<open>rec/rr.go\<close>, \<^verbatim>\<open>rec/unmarshal_generated.go\<close>, the tags in
    \<^verbatim>\<open>rec/rropts.go\<close>), \<open>DB_JSON\<close> (\<^verbatim>\<open>db/db.go\<close>): records and databases in JSON, both ways, and what any text decodes to. The theories about slave and master
    are parameterised over the codec; \<open>DB_JSON\<close> and \<open>Publish\<close> instantiate it.
  \<^item> \<open>NSEC3\<close> (\<^verbatim>\<open>dnssec/nsec3*.go\<close>): hashing, the ring of records, rebuilding it from a database, proofs of non-existence.
  \<^item> \<open>DNS_Query\<close> (\<^verbatim>\<open>dns/query\<close>), \<open>DNS_Response\<close> (\<^verbatim>\<open>dns/response\<close>): parsing a question and building a response.
  \<^item> \<open>Slave_Lookup\<close> (\<^verbatim>\<open>slave/response.go\<close>), \<open>Slave_DNS\<close> (\<^verbatim>\<open>slave/dns.go\<close>, \<^verbatim>\<open>slave/wire.go\<close>), \<open>Slave_Sync\<close> (\<^verbatim>\<open>slave/slave.go\<close>, \<^verbatim>\<open>sync.go\<close>, \<^verbatim>\<open>snapshot.go\<close>):
    answering a message and obtaining the database. \<open>slave_reachable\<close> is the step relation of a slave.
  \<^item> \<open>Rate_Limit\<close> (\<^verbatim>\<open>ratelimit\<close>): token buckets and their table, with the locale \<open>query_limiter\<close> that the router relies on.
    \<open>Router\<close> (\<^verbatim>\<open>router\<close>): the four front ends and forwarding; \<open>router_reachable\<close> is its step relation.
  \<^item> \<open>Update_Wire\<close>, \<open>Update_TSIG\<close>, \<open>Update_Handler\<close>, \<open>Update_Gateway\<close> (\<^verbatim>\<open>rfc2136\<close>): one theory for each of the message format, the
    authentication, the operations and the server. \<open>absUpdate\<close> is the abstract specification that the handler refines.
  \<^item> \<open>Config\<close> (\<^verbatim>\<open>crd/crd.go\<close>): the configuration. \<open>DNSSEC_Keys\<close> (\<^verbatim>\<open>crypto\<close>, \<^verbatim>\<open>dnssec/keys.go\<close>), \<open>DNSSEC_Sign\<close> (\<^verbatim>\<open>dnssec/rrsig.go\<close>,
    \<^verbatim>\<open>ecdsa.go\<close>, \<^verbatim>\<open>verify.go\<close>): reading keys, signing and verifying record sets.
  \<^item> \<open>Master\<close> (\<^verbatim>\<open>master/db.go\<close>, handlers of \<^verbatim>\<open>master/master.go\<close>), \<open>Master_Loop\<close> (\<^verbatim>\<open>master/debounce.go\<close>, \<open>MainLoop\<close>): rebuilding and signing,
    and the loop as the labelled step relation \<open>mstep\<close> over a state with a clock.
  \<^item> \<open>K8s_API\<close> (\<^verbatim>\<open>k8s/api\<close>, \<^verbatim>\<open>k8s/resources\<close>, \<^verbatim>\<open>k8s/env\<close>), \<open>K8s_Client\<close> (\<^verbatim>\<open>k8s/client\<close>), \<open>Watch\<close> (\<^verbatim>\<open>watch\<close>): addressing resources,
    requests with paging, and the stream of events. \<open>Cluster\<close>: the gateway and the master on top of that client.
  \<^item> \<open>Metrics\<close> (\<^verbatim>\<open>metrics\<close>): counters, gauges, histograms, registry and page; the locales \<open>labelled_metric\<close> and
    \<open>exposed_metric\<close> hold what the three kinds share. \<open>Commands\<close> (\<^verbatim>\<open>cmd/*/main.go\<close>, \<^verbatim>\<open>runtime/config.go\<close>, \<^verbatim>\<open>log/level.go\<close>): starting and reloading a service.
  \<^item> \<open>Process\<close> (\<^verbatim>\<open>runtime/runnable.go\<close>, \<^verbatim>\<open>signal.go\<close>, \<^verbatim>\<open>srv.go\<close>, the loop of \<^verbatim>\<open>cmd/slave/main.go\<close>): \<open>Run\<close> and the loop of \<open>main\<close> as a labelled step
    function over the goroutines and channels, which refines the sequential \<open>mainLoop\<close> of \<open>Commands\<close>. \<open>Services\<close> (\<open>MainLoop\<close> of slave, router and gateway, \<^verbatim>\<open>runtime/status.go\<close>):
    the services as the process runs them, and the probes. \<open>Logging\<close> (\<^verbatim>\<open>log\<close>): contexts, the formatter and the logger.
  \<^item> \<open>Publish\<close>: from the listed resources through signing, JSON and push to the lookups of a slave.

  \<^bold>\<open>How the code is translated\<close>

  A struct is a record, an enumeration or an interface with known implementations a datatype, a method a function from the old to
  the new record. A returned error is a value of a sum type; a panic is \<open>None\<close> of the type \<open>'a go\<close>, and the theorems say that
  it does not occur. Integers of fixed width are words and wrap. The clock, the iteration order of Go's maps, the faults
  of network and disk and what other goroutines have done in between are arguments of the operations. Operations of one
  goroutine are composed as in the code; where goroutines interleave (slave, router, limiter, master loop, garbage collection, process)
  a step relation takes each atomic section as a step, and the properties hold for all reachable states.

  \<^bold>\<open>What is proved\<close>

  \<^item> \<^emph>\<open>Content of the zone.\<close> \<open>SanityChecks\<close> decides \<open>sane_zone\<close>; a rebuild installs exactly the listed records or nothing; it
    has read every page of the list; every record set of a signed database verifies; a database survives its JSON text byte for
    byte; what a rebuild installs reaches a slave, which then answers with the listed records and denies exactly the absent names.
  \<^item> \<^emph>\<open>Answers.\<close> No message makes a slave panic, in any reachable state; what a positive, negative or wildcard answer contains;
    sizes and truncation; the router relays the slave's bytes, keeps its limits and answers failures with an error code.
  \<^item> \<^emph>\<open>Changes.\<close> Without a valid signature nothing changes; an update with one changes the resources as \<open>absUpdate\<close> says, through the
    handler alone and through the HTTP client; no change is forgotten by the master loop, and the loop comes to rest.
  \<^item> \<^emph>\<open>Interfaces.\<close> Parsers are total and read what the writers write; a query of the API returns complete lists only; a URL names one
    resource; a watch delivers the received events in order; the metrics page reads back to the observed values.
  \<^item> \<^emph>\<open>Processes.\<close> A service starts only with a checked configuration; for every interleaving of its goroutines the process runs through the
    configurations in the order they were sent, \<open>Run\<close> returns once \<open>MainLoop\<close> has, with no goroutine left, and a reload alone never ends
    the process; the main loop of a slave serves until its context is done.

  \<^bold>\<open>Parameters and hypotheses\<close>

  Code outside the repository is an argument of the definitions. SHA-1, SHA-256 and HMAC are functions without laws, except that
  names of one zone have different hashes where a chain is built. The signature schemes and curves obey \<open>scheme_laws\<close> and
  \<open>curve_laws\<close> (a signature of a key verifies under its public key, the encodings of points and integers are read back). The JSON codec
  of Kubernetes objects is a parameter; that of the databases is modelled, with the case mapping and case folding of non-ASCII text as parameters. The Unicode tables, the rounding of floating-point numbers and the unstable sort are arguments with
  the laws stated where they are used; \<open>net/url\<close> obeys \<open>url_laws\<close>; the API server obeys \<open>api_server\<close> (documented effect of apply, delete
  and list). Every property with such a hypothesis has a witness with concrete functions.

  \<^bold>\<open>Loops\<close>

  Loops over a buffer or a list are recursive functions with a measure, so they end by construction; the loop over compression
  pointers ends because the code remembers the targets, of which there are at most 16384. The loop over the pages of a list
  (\<open>pageLoop\<close>) may run for ever against a server that always sends a continue token: it is a partial function, and
  the relation \<open>fetched\<close> of \<open>K8s_Client\<close> says exactly for which servers it returns data. No definition has fuel.

  \<^bold>\<open>What is not modelled\<close>

  Sockets, deadlines and TLS handshakes, the file watch behind the certificate events of the router and the flags of the
  commands: they only connect the modelled operations to the operating system. The JSON formatter and the other backends of the
  logger, which no service uses. The decoder of Kubernetes objects, and in that of databases the merging of arrays when a key of an object
  is repeated. \<^verbatim>\<open>rec/unmarshal_generate.go\<close>: the build-time generator of a file that is modelled. \<^verbatim>\<open>k8s/client/mock.go\<close>: test code. \<^verbatim>\<open>cmd/test\<close>: a client that checks a
  running deployment.
\<close>

end
